(* ===== verification/Prelude.thy ===== *)
theory Prelude
  imports Main "HOL-Library.Word"
begin

unbundle bit_operations_syntax

text \<open>
  What every component of the development shares: the names of the C integer types, the
  collections of simplification rules the component proofs use, C's 32-bit signed
  arithmetic, the linear search of a fixed table for a free slot, and the interface of a
  handle table as a locale.
\<close>

section \<open>C integer types\<close>

type_synonym u8 = "8 word"
type_synonym u16 = "16 word"
type_synonym u32 = "32 word"
type_synonym u64 = "64 word"

text \<open>
  \<open>lv2_codes\<close> collects the values of the error codes, \<open>slot_simps\<close> the rules about
  table searches.
\<close>

named_theorems lv2_codes
named_theorems slot_simps

text \<open>
  A C \<open>int\<close> or \<open>int32_t\<close> is an \<open>int\<close>, and every addition or subtraction the
  code performs on it goes through \<open>s32\<close>, the two's complement wrap-around at 32 bits.
\<close>

definition s32 :: "int \<Rightarrow> int" where
  "s32 x = signed_take_bit 31 x"

definition in_s32 :: "int \<Rightarrow> bool" where
  "in_s32 x \<longleftrightarrow> - 2147483648 \<le> x \<and> x < 2147483648"

lemma s32_id: "in_s32 x \<Longrightarrow> s32 x = x"
  by (simp add: s32_def in_s32_def signed_take_bit_int_eq_self_iff)

lemma s32_range: "in_s32 (s32 x)"
  using signed_take_bit_int_less_exp [of 31 x] signed_take_bit_int_greater_eq_minus_exp [of 31 x]
  by (simp add: s32_def in_s32_def)

lemma sint32_range: "in_s32 (sint (w :: u32))"
  using sint_lt [of w] sint_ge [of w] by (simp add: in_s32_def)

text \<open>The byte masks of the byte-order code, in the form the bit rules know.\<close>

lemma byte_masks:
  "(0xFF :: 'a::len word) = mask 8"
  "(0xFF00 :: 'a::len word) = push_bit 8 (mask 8)"
  "(0xFF0000 :: 'a::len word) = push_bit 16 (mask 8)"
  "(0xFF000000 :: 'a::len word) = push_bit 24 (mask 8)"
  "(0xFF00000000 :: 'a::len word) = push_bit 32 (mask 8)"
  "(0xFF0000000000 :: 'a::len word) = push_bit 40 (mask 8)"
  "(0xFF000000000000 :: 'a::len word) = push_bit 48 (mask 8)"
  "(0xFF00000000000000 :: 'a::len word) = push_bit 56 (mask 8)"
  by (simp_all add: mask_eq_exp_minus_1 push_bit_eq_mult)

text \<open>Clearing the low \<open>k\<close> bits rounds down to a multiple of \<open>2 ^ k\<close>.\<close>

lemma and_not_mask: "(x :: 'a::len word) AND NOT (mask k) = push_bit k (drop_bit k x)"
  by (rule bit_word_eqI) (auto simp: bit_simps)

lemma unat_and_not_mask:
  "unat ((x :: 'a::len word) AND NOT (mask k)) = unat x div 2 ^ k * 2 ^ k"
proof -
  have "push_bit k (drop_bit k x) + take_bit k x = x" by (rule bits_ident)
  then have eq: "push_bit k (drop_bit k x) = x - take_bit k x" by (simp add: algebra_simps)
  have t: "unat (take_bit k x) = unat x mod 2 ^ k"
    by (simp only: unsigned_take_bit_eq) (simp add: take_bit_eq_mod)
  then have "take_bit k x \<le> x" by (simp add: word_le_nat_alt)
  then have "unat (x - take_bit k x) = unat x - unat x mod 2 ^ k"
    by (simp add: unat_sub t)
  also have "\<dots> = unat x div 2 ^ k * 2 ^ k" by (simp add: minus_mod_eq_div_mult)
  finally show ?thesis by (simp add: and_not_mask eq)
qed

lemma unat_pow2: "k < LENGTH('a) \<Longrightarrow> unat (2 ^ k :: 'a::len word) = 2 ^ k"
  using unat_of_nat [where ?'a = 'a, of "2 ^ k"] by (simp add: take_bit_nat_eq_self)

lemma u32_bound: "unat (w :: u32) < 4294967296"
  using unsigned_less [of w, where ?'a = nat] by simp

lemma unat_ucast_u64 [simp]: "unat (ucast (w :: u32) :: u64) = unat w"
  using u32_bound [of w] by (simp add: unsigned_ucast_eq take_bit_nat_eq_self)

lemma unat_pow2_minus_1: "k < LENGTH('a) \<Longrightarrow> unat (2 ^ k - 1 :: 'a::len word) = 2 ^ k - 1"
  by (subst unat_sub) (simp_all add: unat_pow2 word_le_nat_alt)

text \<open>A word is determined by its bytes.\<close>

definition byte :: "nat \<Rightarrow> 'a::len word \<Rightarrow> u8" where
  "byte k w = ucast (drop_bit (8 * k) w)"

lemma bit_byte: "bit (byte k w) n \<longleftrightarrow> n < 8 \<and> bit w (8 * k + n)"
  by (auto simp: byte_def bit_simps)

lemma word_bytes_eqI:
  fixes v w :: "'a::len word"
  assumes "\<And>k. 8 * k < LENGTH('a) \<Longrightarrow> byte k v = byte k w"
  shows "v = w"
proof (rule bit_word_eqI)
  fix n
  assume "n < LENGTH('a)"
  then have "byte (n div 8) v = byte (n div 8) w" by (intro assms) simp
  then have "bit (byte (n div 8) v) (n mod 8) = bit (byte (n div 8) w) (n mod 8)" by simp
  then show "bit v n = bit w n" by (simp add: bit_byte)
qed

lemma u32_bytes_eqI:
  fixes v w :: u32
  assumes "byte 0 v = byte 0 w" "byte 1 v = byte 1 w" "byte 2 v = byte 2 w" "byte 3 v = byte 3 w"
  shows "v = w"
proof (rule word_bytes_eqI)
  fix k :: nat
  assume "8 * k < LENGTH(32)"
  then have "k = 0 \<or> k = 1 \<or> k = 2 \<or> k = 3" by auto
  then show "byte k v = byte k w" using assms by auto
qed

lemma u64_bytes_eqI:
  fixes v w :: u64
  assumes "byte 0 v = byte 0 w" "byte 1 v = byte 1 w" "byte 2 v = byte 2 w" "byte 3 v = byte 3 w"
    "byte 4 v = byte 4 w" "byte 5 v = byte 5 w" "byte 6 v = byte 6 w" "byte 7 v = byte 7 w"
  shows "v = w"
proof (rule word_bytes_eqI)
  fix k :: nat
  assume "8 * k < LENGTH(64)"
  then have "k = 0 \<or> k = 1 \<or> k = 2 \<or> k = 3 \<or> k = 4 \<or> k = 5 \<or> k = 6 \<or> k = 7" by auto
  then show "byte k v = byte k w" using assms by auto
qed

section \<open>Searching a table for a slot\<close>

text \<open>
  The loop the kernel tables share:
  \<^verbatim>\<open>for (i = 0; i < MAX; i++) if (p(i)) { slot = i; break; }\<close>
\<close>

definition find_slot :: "(nat \<Rightarrow> bool) \<Rightarrow> nat \<Rightarrow> nat option" where
  "find_slot p n = find p [0..<n]"

lemma find_slot_Some:
  "find_slot p n = Some i \<longleftrightarrow> i < n \<and> p i \<and> (\<forall>j<i. \<not> p j)"
  by (auto simp: find_slot_def find_Some_iff)

lemma find_slot_SomeD [dest]:
  assumes "find_slot p n = Some i"
  shows "i < n" and "p i"
  using assms by (simp_all add: find_slot_Some)

lemma find_slot_None [slot_simps]: "find_slot p n = None \<longleftrightarrow> (\<forall>i<n. \<not> p i)"
  by (simp add: find_slot_def find_None_iff)

lemma find_slot_first [slot_simps]: "0 < n \<Longrightarrow> p 0 \<Longrightarrow> find_slot p n = Some 0"
  by (simp add: find_slot_Some)

lemma find_slot_SomeI: "i < n \<Longrightarrow> p i \<Longrightarrow> (\<And>j. j < i \<Longrightarrow> \<not> p j) \<Longrightarrow> find_slot p n = Some i"
  by (simp add: find_slot_Some)

lemma find_slot_unique: "i < n \<Longrightarrow> p i \<Longrightarrow> (\<And>j. p j \<Longrightarrow> j = i) \<Longrightarrow> find_slot p n = Some i"
  by (rule find_slot_SomeI) (assumption | metis less_irrefl)+

text \<open>
  The shape of a system call on a table: refuse a handle that is out of range or names no
  live object, otherwise run the object's locked section.
\<close>

lemma guarded_cases:
  assumes "F = (if p then e else if \<not> a then e else case L of (r, x) \<Rightarrow> k r x)"
  obtains "F = e" "p \<or> \<not> a"
  | r x where "\<not> p" "a" "L = (r, x)" "F = k r x"
  using assms by (cases L) (auto split: if_splits)

section \<open>Handle tables\<close>

text \<open>
  Every kernel object of the runtime is a slot of a fixed array; its handle is the slot
  number plus one. The interface: \<open>live\<close> says which handles name an object,
  \<open>next_handle\<close> is the handle a creation returns (\<open>None\<close> when the table is full),
  \<open>create\<close> and \<open>destroy\<close> are the state changes.
\<close>

locale handle_table =
  fixes cap :: nat
    and live :: "'t \<Rightarrow> nat \<Rightarrow> bool"
    and next_handle :: "'t \<Rightarrow> nat option"
    and create :: "'a \<Rightarrow> 't \<Rightarrow> 't"
    and destroy :: "nat \<Rightarrow> 't \<Rightarrow> 't"
    and valid :: "'a \<Rightarrow> bool"
    and destroyable :: "nat \<Rightarrow> 't \<Rightarrow> bool"
  assumes live_range: "live t h \<Longrightarrow> 1 \<le> h \<and> h \<le> cap"
    and next_Some: "next_handle t = Some h \<Longrightarrow> 1 \<le> h \<and> h \<le> cap \<and> \<not> live t h"
    and next_least: "next_handle t = Some h \<Longrightarrow> 1 \<le> k \<Longrightarrow> k < h \<Longrightarrow> live t k"
    and next_None: "next_handle t = None \<Longrightarrow> 1 \<le> h \<Longrightarrow> h \<le> cap \<Longrightarrow> live t h"
    and live_create: "valid a \<Longrightarrow> next_handle t = Some h \<Longrightarrow> live (create a t) = (live t)(h := True)"
    and create_full: "next_handle t = None \<Longrightarrow> live (create a t) = live t"
    and live_destroy: "destroyable h t \<Longrightarrow> live (destroy h t) = (live t)(h := False)"
begin

definition live_set :: "'t \<Rightarrow> nat set" where
  "live_set t = {h. live t h}"

lemma live_set_subset: "live_set t \<subseteq> {1..cap}"
  using live_range by (auto simp: live_set_def)

lemma finite_live_set: "finite (live_set t)"
  using live_set_subset finite_subset by blast

lemma card_live_le: "card (live_set t) \<le> cap"
  using card_mono [OF _ live_set_subset] by simp

lemma next_None_iff: "next_handle t = None \<longleftrightarrow> card (live_set t) = cap"
proof
  assume "next_handle t = None"
  then have "{1..cap} \<subseteq> live_set t" by (auto simp: live_set_def next_None)
  with live_set_subset have "live_set t = {1..cap}" by blast
  then show "card (live_set t) = cap" by simp
next
  assume card: "card (live_set t) = cap"
  show "next_handle t = None"
  proof (cases "next_handle t")
    case (Some h)
    then have "h \<in> {1..cap}" and "h \<notin> live_set t"
      using next_Some by (auto simp: live_set_def)
    then have "live_set t \<subset> {1..cap}" using live_set_subset by blast
    then have "card (live_set t) < card {1..cap}" by (intro psubset_card_mono) auto
    with card show ?thesis by simp
  qed simp
qed

lemma card_create:
  assumes "valid a" and "card (live_set t) < cap"
  shows "card (live_set (create a t)) = Suc (card (live_set t))"
proof -
  from assms have "next_handle t \<noteq> None" by (simp add: next_None_iff)
  then obtain h where h: "next_handle t = Some h" by blast
  with \<open>valid a\<close> have "live_set (create a t) = insert h (live_set t)"
    by (auto simp: live_set_def live_create)
  moreover have "h \<notin> live_set t" using next_Some [OF h] by (simp add: live_set_def)
  ultimately show ?thesis by (simp add: finite_live_set)
qed

text \<open>
  Creating objects one after the other gives each a handle no live object has, so the
  handles of a run of creations are pairwise distinct.
\<close>

fun create_all :: "'a list \<Rightarrow> 't \<Rightarrow> nat list \<times> 't" where
  "create_all [] t = ([], t)"
| "create_all (a # as) t =
     (case next_handle t of
        None \<Rightarrow> ([], t)
      | Some h \<Rightarrow> (let (hs, t') = create_all as (create a t) in (h # hs, t')))"

lemma create_all_fresh:
  assumes "\<forall>a \<in> set as. valid a" and "create_all as t = (hs, t')"
  shows "distinct hs \<and> (\<forall>h \<in> set hs. \<not> live t h \<and> live t' h) \<and>
         (\<forall>k. live t k \<longrightarrow> live t' k)"
  using assms
proof (induction as arbitrary: t hs t')
  case (Cons a as)
  show ?case
  proof (cases "next_handle t")
    case (Some h)
    obtain hs1 t1 where rec: "create_all as (create a t) = (hs1, t1)" by fastforce
    with Some Cons.prems have hs: "hs = h # hs1" "t' = t1" by auto
    from Cons.prems(1) Some have live: "live (create a t) = (live t)(h := True)"
      by (simp add: live_create)
    have "distinct hs1 \<and> (\<forall>h \<in> set hs1. \<not> live (create a t) h \<and> live t1 h) \<and>
         (\<forall>k. live (create a t) k \<longrightarrow> live t1 k)"
      using Cons.IH [OF _ rec] Cons.prems(1) by simp
    moreover have "\<not> live t h" using next_Some [OF Some] by simp
    ultimately show ?thesis by (auto simp: live hs split: if_splits)
  qed (use Cons.prems in auto)
qed auto

text \<open>A destroyed handle is the next one given out unless a smaller one is free.\<close>

lemma reuse:
  assumes "live t h" and "destroyable h t" and "next_handle (destroy h t) = Some k"
  shows "k \<le> h"
proof (rule ccontr)
  assume "\<not> k \<le> h"
  then have "live (destroy h t) h"
    using next_least [OF assms(3), of h] live_range [OF assms(1)] by simp
  then show False using assms(2) by (simp add: live_destroy)
qed

lemma next_after_destroy:
  "live t h \<Longrightarrow> destroyable h t \<Longrightarrow> next_handle (destroy h t) \<noteq> None"
  using next_None [of "destroy h t" h] live_range [of t h] by (auto simp: live_destroy)

end

text \<open>
  The arrays of the runtime all provide that interface the same way: \<open>tbl\<close> reads the
  array out of the component's state, a creation fills the first slot whose object is not
  active, a destruction marks the object of its slot inactive.
\<close>

definition slot_live :: "nat \<Rightarrow> ('i \<Rightarrow> bool) \<Rightarrow> (nat \<Rightarrow> 'i) \<Rightarrow> nat \<Rightarrow> bool" where
  "slot_live cap act t h \<longleftrightarrow> 1 \<le> h \<and> h \<le> cap \<and> act (t (h - 1))"

definition slot_next :: "nat \<Rightarrow> ('i \<Rightarrow> bool) \<Rightarrow> (nat \<Rightarrow> 'i) \<Rightarrow> nat option" where
  "slot_next cap act t = map_option Suc (find_slot (\<lambda>i. \<not> act (t i)) cap)"

locale slot_array =
  fixes cap :: nat
    and act :: "'i \<Rightarrow> bool"
    and tbl :: "'s \<Rightarrow> nat \<Rightarrow> 'i"
    and create :: "'a \<Rightarrow> 's \<Rightarrow> 's"
    and destroy :: "nat \<Rightarrow> 's \<Rightarrow> 's"
    and valid :: "'a \<Rightarrow> bool"
    and destroyable :: "nat \<Rightarrow> 's \<Rightarrow> bool"
  assumes create_fills: "valid a \<Longrightarrow> find_slot (\<lambda>i. \<not> act (tbl s i)) cap = Some i \<Longrightarrow>
            \<exists>x. act x \<and> tbl (create a s) = (tbl s)(i := x)"
    and create_none: "find_slot (\<lambda>i. \<not> act (tbl s i)) cap = None \<Longrightarrow> tbl (create a s) = tbl s"
    and destroy_clears: "destroyable h s \<Longrightarrow>
            1 \<le> h \<and> h \<le> cap \<and> (\<exists>x. \<not> act x \<and> tbl (destroy h s) = (tbl s)(h - 1 := x))"

sublocale slot_array \<subseteq>
  ht: handle_table cap "\<lambda>s. slot_live cap act (tbl s)" "\<lambda>s. slot_next cap act (tbl s)"
    create destroy valid destroyable
proof (unfold_locales, goal_cases)
  case (5 a t h)
  then obtain i where i: "h = Suc i" "find_slot (\<lambda>i. \<not> act (tbl t i)) cap = Some i"
    by (auto simp: slot_next_def)
  with 5 obtain x where "act x" "tbl (create a t) = (tbl t)(i := x)"
    using create_fills [of a t i] by auto
  moreover have "i < cap" using i(2) by (rule find_slot_SomeD)
  moreover note i(1)
  ultimately show ?case by (auto simp: slot_live_def fun_eq_iff)
next
  case (7 h t)
  then obtain x where "1 \<le> h" "h \<le> cap" "\<not> act x" "tbl (destroy h t) = (tbl t)(h - 1 := x)"
    using destroy_clears [of h t] by auto
  then show ?case by (fastforce simp: slot_live_def fun_eq_iff)
next
  case (3 t h k)
  then have "\<forall>j<h - 1. act (tbl t j)" and "h \<le> cap" by (auto simp: slot_next_def find_slot_Some)
  with 3 show ?case by (auto simp: slot_live_def)
qed (auto simp: slot_live_def slot_next_def find_slot_Some slot_simps create_none)

end
