(* ===== verification/GuestMemory.thy ===== *)
theory GuestMemory
  imports Prelude
begin

unbundle bit_operations_syntax

text \<open>
  Guest memory and the calling convention of the lv2 system calls.

  The guest's 4 GB address space is one array of bytes at \<open>vm_base\<close> (runtime/memory/vm.h);
  a guest address is an offset into it, so the memory is a function from offsets to bytes.
  Guest data are big-endian and the host is little-endian: a store swaps the bytes of the
  value and stores the result in host order. The system calls read their arguments from
  registers r3 to r10 and answer in r3 (runtime/syscalls/lv2_syscall_table.h).
\<close>

section \<open>Error codes (include/ps3emu/error_codes.h)\<close>

definition CELL_OK :: u32 where [lv2_codes]: "CELL_OK = 0"
definition CELL_EAGAIN :: u32 where [lv2_codes]: "CELL_EAGAIN = 0x80010001"
definition CELL_EINVAL :: u32 where [lv2_codes]: "CELL_EINVAL = 0x80010002"
definition CELL_ENOSYS :: u32 where [lv2_codes]: "CELL_ENOSYS = 0x80010003"
definition CELL_ENOMEM :: u32 where [lv2_codes]: "CELL_ENOMEM = 0x80010004"
definition CELL_ESRCH :: u32 where [lv2_codes]: "CELL_ESRCH = 0x80010005"
definition CELL_EDEADLK :: u32 where [lv2_codes]: "CELL_EDEADLK = 0x80010008"
definition CELL_EPERM :: u32 where [lv2_codes]: "CELL_EPERM = 0x80010009"
definition CELL_EBUSY :: u32 where [lv2_codes]: "CELL_EBUSY = 0x8001000A"
definition CELL_ETIMEDOUT :: u32 where [lv2_codes]: "CELL_ETIMEDOUT = 0x8001000B"
definition CELL_EFAULT :: u32 where [lv2_codes]: "CELL_EFAULT = 0x8001000D"
definition CELL_ECANCELED :: u32 where [lv2_codes]: "CELL_ECANCELED = 0x80010013"
definition CELL_EISCONN :: u32 where [lv2_codes]: "CELL_EISCONN = 0x80010015"
definition CELL_ENOTCONN :: u32 where [lv2_codes]: "CELL_ENOTCONN = 0x80010016"

text \<open>\<open>(int64_t)(int32_t)code\<close>: a handler's result, the code sign-extended to 64 bits.\<close>

definition lv2_ret :: "u32 \<Rightarrow> u64" where
  "lv2_ret code = scast code"

lemma lv2_ret_inj [simp]: "lv2_ret a = lv2_ret b \<longleftrightarrow> a = b"
proof
  assume "lv2_ret a = lv2_ret b"
  then have "(ucast (scast a :: u64) :: u32) = ucast (scast b :: u64)" by (simp add: lv2_ret_def)
  moreover have "(ucast (scast w :: u64) :: u32) = w" for w :: u32
    by (rule bit_word_eqI) (auto simp: bit_simps)
  ultimately show "a = b" by simp
qed simp

section \<open>Bytes and byte order\<close>

type_synonym mem = "nat \<Rightarrow> u8"

definition bswap32 :: "u32 \<Rightarrow> u32" where
  "bswap32 v = (drop_bit 24 v AND 0xFF) OR (drop_bit 8 v AND 0xFF00) OR
               (push_bit 8 v AND 0xFF0000) OR (push_bit 24 v AND 0xFF000000)"

definition bswap64 :: "u64 \<Rightarrow> u64" where
  "bswap64 v = (drop_bit 56 v AND 0xFF) OR (drop_bit 40 v AND 0xFF00) OR
               (drop_bit 24 v AND 0xFF0000) OR (drop_bit 8 v AND 0xFF000000) OR
               (push_bit 8 v AND 0xFF00000000) OR (push_bit 24 v AND 0xFF0000000000) OR
               (push_bit 40 v AND 0xFF000000000000) OR (push_bit 56 v AND 0xFF00000000000000)"

text \<open>Host loads and stores: four or eight bytes, the least significant first.\<close>

definition host_store32 :: "mem \<Rightarrow> nat \<Rightarrow> u32 \<Rightarrow> mem" where
  "host_store32 m a v = m(a := ucast v, a + 1 := ucast (drop_bit 8 v),
                          a + 2 := ucast (drop_bit 16 v), a + 3 := ucast (drop_bit 24 v))"

definition host_load32 :: "mem \<Rightarrow> nat \<Rightarrow> u32" where
  "host_load32 m a = ucast (m a) OR push_bit 8 (ucast (m (a + 1))) OR
                     push_bit 16 (ucast (m (a + 2))) OR push_bit 24 (ucast (m (a + 3)))"

definition host_store64 :: "mem \<Rightarrow> nat \<Rightarrow> u64 \<Rightarrow> mem" where
  "host_store64 m a v = host_store32 (host_store32 m a (ucast v)) (a + 4) (ucast (drop_bit 32 v))"

definition host_load64 :: "mem \<Rightarrow> nat \<Rightarrow> u64" where
  "host_load64 m a = ucast (host_load32 m a) OR push_bit 32 (ucast (host_load32 m (a + 4)))"

text \<open>\<open>vm_to_host(addr)\<close> is \<open>vm_base + addr\<close>: the offset of the address.\<close>

definition vm_to_host :: "u32 \<Rightarrow> nat" where
  "vm_to_host addr = unat addr"

definition write_be32 :: "mem \<Rightarrow> u32 \<Rightarrow> u32 \<Rightarrow> mem" where
  "write_be32 m addr val = host_store32 m (vm_to_host addr) (bswap32 val)"

definition read_be32 :: "mem \<Rightarrow> u32 \<Rightarrow> u32" where
  "read_be32 m addr = bswap32 (host_load32 m (vm_to_host addr))"

definition write_be64 :: "mem \<Rightarrow> u32 \<Rightarrow> u64 \<Rightarrow> mem" where
  "write_be64 m addr val = host_store64 m (vm_to_host addr) (bswap64 val)"

definition read_be64 :: "mem \<Rightarrow> u32 \<Rightarrow> u64" where
  "read_be64 m addr = bswap64 (host_load64 m (vm_to_host addr))"

text \<open>\<open>memcpy(dst, vm_to_host(addr) + off, n)\<close>\<close>

definition copy_bytes :: "mem \<Rightarrow> nat \<Rightarrow> nat \<Rightarrow> u8 list" where
  "copy_bytes m a n = map (\<lambda>i. m (a + i)) [0..<n]"

lemma length_copy_bytes [simp]: "length (copy_bytes m a n) = n"
  by (simp add: copy_bytes_def)

text \<open>\<open>memcpy(dst, src, n)\<close> inside guest memory\<close>

definition move_bytes :: "nat \<Rightarrow> nat \<Rightarrow> nat \<Rightarrow> mem \<Rightarrow> mem" where
  "move_bytes dst src n m = (\<lambda>i. if dst \<le> i \<and> i < dst + n then m (src + (i - dst)) else m i)"

subsection \<open>Round trips\<close>

lemma byte_bswap32:
  "byte 0 (bswap32 v) = byte 3 v" "byte 1 (bswap32 v) = byte 2 v"
  "byte 2 (bswap32 v) = byte 1 v" "byte 3 (bswap32 v) = byte 0 v"
  by (rule bit_word_eqI, auto simp: bswap32_def byte_masks bit_byte bit_simps)+

lemma bswap32_bswap32: "bswap32 (bswap32 v) = v"
  by (rule u32_bytes_eqI) (simp_all only: byte_bswap32)

lemma byte_host_load32:
  "byte 0 (host_load32 m a) = m a" "byte 1 (host_load32 m a) = m (a + 1)"
  "byte 2 (host_load32 m a) = m (a + 2)" "byte 3 (host_load32 m a) = m (a + 3)"
  by (rule bit_word_eqI, auto simp: host_load32_def bit_byte bit_simps dest: bit_imp_le_length)+

lemma host_store32_bytes:
  "host_store32 m a v = m(a := byte 0 v, a + 1 := byte 1 v, a + 2 := byte 2 v, a + 3 := byte 3 v)"
  by (simp add: host_store32_def byte_def)

lemma host_load_store32: "host_load32 (host_store32 m a v) a = v"
  by (rule u32_bytes_eqI) (simp_all only: byte_host_load32 host_store32_bytes, simp_all)

lemma host_load_store32_other:
  "a + 4 \<le> b \<or> b + 4 \<le> a \<Longrightarrow> host_load32 (host_store32 m a v) b = host_load32 m b"
  by (auto simp: host_load32_def host_store32_def)

lemma host_store32_frame: "b < a \<or> a + 4 \<le> b \<Longrightarrow> host_store32 m a v b = m b"
  by (auto simp: host_store32_def)

lemma host_load_store64: "host_load64 (host_store64 m a v) a = v"
proof -
  have "host_load64 (host_store64 m a v) a
        = ucast (ucast v :: u32) OR push_bit 32 (ucast (ucast (drop_bit 32 v) :: u32))"
    by (simp add: host_load64_def host_store64_def host_load_store32 host_load_store32_other)
  also have "\<dots> = v"
    by (rule bit_word_eqI) (auto simp: bit_simps)
  finally show ?thesis .
qed

lemma host_store64_frame: "b < a \<or> a + 8 \<le> b \<Longrightarrow> host_store64 m a v b = m b"
  by (auto simp: host_store64_def host_store32_frame)

lemma write_be32_bytes:
  "write_be32 m addr v =
     m(unat addr := byte 3 v, unat addr + 1 := byte 2 v, unat addr + 2 := byte 1 v,
       unat addr + 3 := byte 0 v)"
  by (simp only: write_be32_def host_store32_bytes vm_to_host_def byte_bswap32)

lemma read_write_be32 [simp]: "read_be32 (write_be32 m addr v) addr = v"
  by (simp add: read_be32_def write_be32_def host_load_store32 bswap32_bswap32)

lemma read_write_be32_other:
  "unat a + 4 \<le> unat b \<or> unat b + 4 \<le> unat a \<Longrightarrow>
   read_be32 (write_be32 m a v) b = read_be32 m b"
  by (auto simp: read_be32_def write_be32_def vm_to_host_def host_load_store32_other)

lemma write_be32_frame: "b < unat a \<or> unat a + 4 \<le> b \<Longrightarrow> write_be32 m a v b = m b"
  by (simp add: write_be32_def vm_to_host_def host_store32_frame)

lemma host_load64_cong:
  assumes "\<And>b. a \<le> b \<Longrightarrow> b < a + 8 \<Longrightarrow> m' b = m b"
  shows "host_load64 m' a = host_load64 m a"
  using assms by (simp add: host_load64_def host_load32_def)

lemma read_be32_cong:
  assumes "\<And>b. unat a \<le> b \<Longrightarrow> b < unat a + 4 \<Longrightarrow> m' b = m b"
  shows "read_be32 m' a = read_be32 m a"
  using assms by (simp add: read_be32_def host_load32_def vm_to_host_def)

lemma read_be64_cong:
  assumes "\<And>b. unat a \<le> b \<Longrightarrow> b < unat a + 8 \<Longrightarrow> m' b = m b"
  shows "read_be64 m' a = read_be64 m a"
proof -
  have "host_load64 m' (vm_to_host a) = host_load64 m (vm_to_host a)"
    by (rule host_load64_cong) (simp add: assms vm_to_host_def)
  then show ?thesis by (simp add: read_be64_def)
qed

lemma host_load64_other: "a + 8 \<le> b \<or> b + 8 \<le> a \<Longrightarrow> host_load64 (host_store64 m a v) b = host_load64 m b"
  by (rule host_load64_cong) (auto simp: host_store64_frame)

lemma byte_bswap64:
  "byte 0 (bswap64 v) = byte 7 v" "byte 1 (bswap64 v) = byte 6 v"
  "byte 2 (bswap64 v) = byte 5 v" "byte 3 (bswap64 v) = byte 4 v"
  "byte 4 (bswap64 v) = byte 3 v" "byte 5 (bswap64 v) = byte 2 v"
  "byte 6 (bswap64 v) = byte 1 v" "byte 7 (bswap64 v) = byte 0 v"
  by (rule bit_word_eqI, auto simp: bswap64_def byte_masks bit_byte bit_simps)+

lemma bswap64_bswap64: "bswap64 (bswap64 v) = v"
  by (rule u64_bytes_eqI) (simp_all only: byte_bswap64)

lemma read_write_be64 [simp]: "read_be64 (write_be64 m addr v) addr = v"
  by (simp add: read_be64_def write_be64_def host_load_store64 bswap64_bswap64)

lemma write_be64_frame: "b < unat a \<or> unat a + 8 \<le> b \<Longrightarrow> write_be64 m a v b = m b"
  by (simp add: write_be64_def vm_to_host_def host_store64_frame)

lemma copy_bytes_frame:
  "(\<And>i. a \<le> i \<Longrightarrow> i < a + n \<Longrightarrow> m' i = m i) \<Longrightarrow> copy_bytes m' a n = copy_bytes m a n"
  by (simp add: copy_bytes_def)

section \<open>The calling thread and its arguments\<close>

text \<open>
  What the system calls use of \<open>ppu_context\<close>: the general registers and the thread's
  id. Ids start at 1 (the main thread's), so 0 never names a thread.
\<close>

record ppu_context =
  gpr :: "nat \<Rightarrow> u64"
  thread_id :: u64

definition LV2_ARG_U64 :: "ppu_context \<Rightarrow> nat \<Rightarrow> u64" where
  "LV2_ARG_U64 ctx n = gpr ctx (3 + n)"

definition LV2_ARG_U32 :: "ppu_context \<Rightarrow> nat \<Rightarrow> u32" where
  "LV2_ARG_U32 ctx n = ucast (gpr ctx (3 + n))"

definition LV2_ARG_S32 :: "ppu_context \<Rightarrow> nat \<Rightarrow> int" where
  "LV2_ARG_S32 ctx n = sint (ucast (gpr ctx (3 + n)) :: u32)"

definition LV2_ARG_PTR :: "ppu_context \<Rightarrow> nat \<Rightarrow> u32" where
  "LV2_ARG_PTR ctx n = ucast (gpr ctx (3 + n))"

lemma LV2_ARG_S32_range: "in_s32 (LV2_ARG_S32 ctx n)"
  by (simp add: LV2_ARG_S32_def sint32_range)

text \<open>A handle passed in a 64-bit register is read back from its low half.\<close>

lemma handle_ctx: "h \<le> n \<Longrightarrow> n < 4294967296 \<Longrightarrow> unat (ucast (of_nat h :: u64) :: u32) = h"
  by (simp add: unsigned_ucast_eq unat_of_nat take_bit_nat_eq_self)

definition PPU_THREAD_MAX :: nat where
  "PPU_THREAD_MAX = 64"

definition valid_tid :: "u64 \<Rightarrow> bool" where
  "valid_tid t \<longleftrightarrow> 1 \<le> unat t \<and> unat t \<le> PPU_THREAD_MAX"

lemma card_valid_tids: "card {t. valid_tid t} \<le> PPU_THREAD_MAX"
proof -
  have "inj_on unat {t. valid_tid t}" by (simp add: inj_on_def word_unat_eq_iff)
  moreover have "unat ` {t. valid_tid t} \<subseteq> {1..PPU_THREAD_MAX}" by (auto simp: valid_tid_def)
  ultimately have "card {t. valid_tid t} \<le> card {1..PPU_THREAD_MAX}"
    by (metis card_image card_mono finite_atLeastAtMost)
  then show ?thesis by simp
qed

text \<open>A thread with its arguments set, for the evaluations of the development.\<close>

definition call_ctx :: "u64 \<Rightarrow> u64 list \<Rightarrow> ppu_context" where
  "call_ctx tid args =
     \<lparr>gpr = (\<lambda>r. if 3 \<le> r \<and> r < 3 + length args then args ! (r - 3) else 0), thread_id = tid\<rparr>"

lemma call_ctx_args [simp]:
  "n < length args \<Longrightarrow> LV2_ARG_U64 (call_ctx tid args) n = args ! n"
  "n < length args \<Longrightarrow> LV2_ARG_U32 (call_ctx tid args) n = ucast (args ! n)"
  "n < length args \<Longrightarrow> LV2_ARG_S32 (call_ctx tid args) n = sint (ucast (args ! n) :: u32)"
  "n < length args \<Longrightarrow> LV2_ARG_PTR (call_ctx tid args) n = ucast (args ! n)"
  "thread_id (call_ctx tid args) = tid"
  by (simp_all add: LV2_ARG_U64_def LV2_ARG_U32_def LV2_ARG_S32_def LV2_ARG_PTR_def call_ctx_def)

end
