(* ===== verification/BumpWindow.thy ===== *)
theory BumpWindow
  imports Prelude
begin

text \<open>
  The contract of an allocator that hands out ranges of a window by advancing a pointer,
  which three components of the runtime implement: the stacks of PPU threads (vm.h), the
  memory pool (sys_memory.c) and the demand-paged regions (sys_vm.c). Proved once: the
  ranges of a run of operations lie in the window and never overlap.
\<close>

text \<open>A sequence of operations on a state, with the answer of each.\<close>

fun run_ops :: "('a \<Rightarrow> 's \<Rightarrow> 'r \<times> 's) \<Rightarrow> 'a list \<Rightarrow> 's \<Rightarrow> 'r list \<times> 's" where
  "run_ops f [] s = ([], s)"
| "run_ops f (a # as) s =
     (let (r, s1) = f a s; (rs, s2) = run_ops f as s1 in (r # rs, s2))"

lemma length_run_ops [simp]: "length (fst (run_ops f as s)) = length as"
  by (induction as arbitrary: s) (auto simp: case_prod_beta)

lemma run_ops_Cons:
  "fst (run_ops f (a # as) s) = fst (f a s) # fst (run_ops f as (snd (f a s)))"
  "snd (run_ops f (a # as) s) = snd (run_ops f as (snd (f a s)))"
  by (simp_all add: case_prod_beta)

lemma run_ops_invariant:
  assumes "\<And>a s. ok a \<Longrightarrow> P s \<Longrightarrow> P (snd (f a s))"
  shows "\<forall>a \<in> set as. ok a \<Longrightarrow> P s \<Longrightarrow> P (snd (run_ops f as s))"
  by (induction as arbitrary: s) (auto simp: run_ops_Cons assms simp del: run_ops.simps(2))

text \<open>An operation whose answer is a view of another's has the same runs, seen that way.\<close>

lemma run_ops_view:
  assumes "\<And>a s. g a s = (h a (fst (f a s)), snd (f a s))"
  shows "snd (run_ops g as s) = snd (run_ops f as s)"
    and "i < length as \<Longrightarrow> fst (run_ops g as s) ! i = h (as ! i) (fst (run_ops f as s) ! i)"
proof (induction as arbitrary: s i)
  case (Cons a as)
  case 1
  show ?case using Cons.IH(1) by (simp only: run_ops_Cons) (simp add: assms)
  case 2
  then show ?case using Cons.IH(2)
    by (cases i) (simp_all add: run_ops_Cons assms del: run_ops.simps(2))
qed simp_all

text \<open>
  The interface: \<open>mark\<close> is where the pointer stands, \<open>exec\<close> performs an operation
  and says which range, start and length, it handed out, if any; \<open>valid\<close> holds of the
  operations the contract covers, \<open>lo\<close> and \<open>hi\<close> bound the window.
\<close>

locale bump_window =
  fixes lo hi :: nat
    and inv :: "'s \<Rightarrow> bool"
    and mark :: "'s \<Rightarrow> nat"
    and exec :: "'a \<Rightarrow> 's \<Rightarrow> (nat \<times> nat) option \<times> 's"
    and valid :: "'a \<Rightarrow> bool"
  assumes mark_bounds: "inv s \<Longrightarrow> lo \<le> mark s \<and> mark s \<le> hi"
    and exec_inv: "valid a \<Longrightarrow> inv s \<Longrightarrow> inv (snd (exec a s))"
    and exec_mono: "valid a \<Longrightarrow> inv s \<Longrightarrow> mark s \<le> mark (snd (exec a s))"
    and exec_range: "valid a \<Longrightarrow> inv s \<Longrightarrow> fst (exec a s) = Some (b, n) \<Longrightarrow>
           mark s \<le> b \<and> b + n \<le> mark (snd (exec a s))"
begin

lemmas step_simps = run_ops_Cons

lemma run_inv: "\<forall>a \<in> set as. valid a \<Longrightarrow> inv s \<Longrightarrow> inv (snd (run_ops exec as s))"
  using run_ops_invariant [of valid inv exec as s] exec_inv by blast

lemma run_mono: "\<forall>a \<in> set as. valid a \<Longrightarrow> inv s \<Longrightarrow> mark s \<le> mark (snd (run_ops exec as s))"
proof (induction as arbitrary: s)
  case (Cons a as)
  then have "mark s \<le> mark (snd (exec a s))"
    and "mark (snd (exec a s)) \<le> mark (snd (run_ops exec as (snd (exec a s))))"
    by (simp_all add: exec_mono exec_inv)
  then show ?case by (simp only: step_simps)
qed simp

lemma run_between:
  assumes "\<forall>a \<in> set as. valid a" and "inv s" and "i < length as"
    and "fst (run_ops exec as s) ! i = Some (b, n)"
  shows "mark s \<le> b \<and> b + n \<le> mark (snd (run_ops exec as s))"
  using assms
proof (induction as arbitrary: s i)
  case (Cons a as)
  let ?s = "snd (exec a s)"
  have inv: "inv ?s" and mono: "mark s \<le> mark ?s" using Cons.prems by (simp_all add: exec_inv exec_mono)
  show ?case
  proof (cases i)
    case 0
    then have "fst (exec a s) = Some (b, n)" using Cons.prems(4) by (simp only: step_simps nth_Cons_0)
    then show ?thesis
      using exec_range [of a s b n] run_mono [of as ?s] inv Cons.prems(1,2)
      by (simp add: step_simps del: run_ops.simps(2))
  next
    case (Suc j)
    then have "mark ?s \<le> b \<and> b + n \<le> mark (snd (run_ops exec as ?s))"
      using Cons.IH [of ?s j] Cons.prems inv by (simp only: step_simps nth_Cons_Suc) simp
    then show ?thesis using mono by (simp only: step_simps) simp
  qed
qed simp

lemma run_in_window:
  assumes "\<forall>a \<in> set as. valid a" and "inv s" and "i < length as"
    and "fst (run_ops exec as s) ! i = Some (b, n)"
  shows "lo \<le> b \<and> b + n \<le> hi"
  using run_between [OF assms] mark_bounds [OF assms(2)]
    mark_bounds [OF run_inv [OF assms(1,2)]] by linarith

lemma run_disjoint:
  assumes "\<forall>a \<in> set as. valid a" and "inv s" and "i < j" "j < length as"
    and "fst (run_ops exec as s) ! i = Some (b, n)"
    and "fst (run_ops exec as s) ! j = Some (c, k)"
  shows "b + n \<le> c"
  using assms
proof (induction as arbitrary: s i j)
  case (Cons a as)
  let ?s = "snd (exec a s)"
  have inv: "inv ?s" using Cons.prems by (simp add: exec_inv)
  obtain j' where j: "j = Suc j'" using Cons.prems(3) by (cases j) auto
  have c: "fst (run_ops exec as ?s) ! j' = Some (c, k)"
    using Cons.prems(6) by (simp only: j step_simps nth_Cons_Suc)
  show ?case
  proof (cases i)
    case 0
    then have "fst (exec a s) = Some (b, n)" using Cons.prems(5) by (simp only: step_simps nth_Cons_0)
    then show ?thesis
      using exec_range [of a s b n] run_between [OF _ inv _ c] Cons.prems(1,2,4) j by auto
  next
    case (Suc i')
    then show ?thesis
      using Cons.IH [of ?s i' j'] Cons.prems j c inv by (simp only: step_simps nth_Cons_Suc) simp
  qed
qed simp

end

end
