(* ===== verification/VirtualMemory.thy ===== *)
theory VirtualMemory
  imports GuestMemory BumpWindow
begin

unbundle bit_operations_syntax

text \<open>
  The virtual memory manager (runtime/memory/vm.h), POSIX build: committing and protecting
  guest pages, and the allocator of PPU stacks.

  The state is the protection of each byte of the 4 GB arena. Two things come from the
  host and are arguments: \<open>pg\<close>, the host's page size (a power of two between the guest's
  4 KB and 64 KB), and \<open>mprotect_ok\<close>, whether the host accepts an \<open>mprotect\<close> of a range.
\<close>

section \<open>Pages\<close>

record prot =
  p_read :: bool
  p_write :: bool
  p_exec :: bool

record vm_state =
  vm_ready :: bool
  vm_prot :: "nat \<Rightarrow> prot"

definition VM_PAGE_SIZE :: u32 where
  "VM_PAGE_SIZE = 0x1000"

definition VM_ALIGN_UP :: "u32 \<Rightarrow> u32 \<Rightarrow> u32" where
  "VM_ALIGN_UP v align = (v + align - 1) AND NOT (align - 1)"

definition mprotect :: "(nat \<Rightarrow> nat \<Rightarrow> bool) \<Rightarrow> nat \<Rightarrow> nat \<Rightarrow> prot \<Rightarrow> vm_state \<Rightarrow> bool \<times> vm_state" where
  "mprotect ok off len p s =
     (if ok off len
      then (True, s\<lparr>vm_prot := (\<lambda>i. if off \<le> i \<and> i < off + len then p else vm_prot s i)\<rparr>)
      else (False, s))"

definition vm__mprotect_pages ::
  "u64 \<Rightarrow> (nat \<Rightarrow> nat \<Rightarrow> bool) \<Rightarrow> u32 \<Rightarrow> u32 \<Rightarrow> prot \<Rightarrow> vm_state \<Rightarrow> bool \<times> vm_state" where
  "vm__mprotect_pages pg ok addr sz p s =
     (let a0 = (ucast addr :: u64) AND NOT (pg - 1);
          a1 = ((ucast addr :: u64) + ucast sz + pg - 1) AND NOT (pg - 1)
      in mprotect ok (unat a0) (unat (a1 - a0)) p s)"

definition vm_commit ::
  "u64 \<Rightarrow> (nat \<Rightarrow> nat \<Rightarrow> bool) \<Rightarrow> u32 \<Rightarrow> u32 \<Rightarrow> vm_state \<Rightarrow> u32 \<times> vm_state" where
  "vm_commit pg ok addr sz s =
     (if \<not> vm_ready s then (CELL_EFAULT, s)
      else let sz = VM_ALIGN_UP sz VM_PAGE_SIZE;
               (r, s') = vm__mprotect_pages pg ok addr sz
                           \<lparr>p_read = True, p_write = True, p_exec = False\<rparr> s
           in if r then (CELL_OK, s') else (CELL_ENOMEM, s'))"

definition vm_protect ::
  "u64 \<Rightarrow> (nat \<Rightarrow> nat \<Rightarrow> bool) \<Rightarrow> u32 \<Rightarrow> u32 \<Rightarrow> bool \<Rightarrow> bool \<Rightarrow> bool \<Rightarrow> vm_state \<Rightarrow> u32 \<times> vm_state" where
  "vm_protect pg ok addr sz rd wr ex s =
     (if \<not> vm_ready s then (CELL_EFAULT, s)
      else let sz = VM_ALIGN_UP sz VM_PAGE_SIZE;
               (r, s') = vm__mprotect_pages pg ok addr sz
                           \<lparr>p_read = rd, p_write = wr, p_exec = ex\<rparr> s
           in if r then (CELL_OK, s') else (CELL_EFAULT, s'))"

section \<open>Stacks of PPU threads\<close>

definition VM_STACK_BASE :: u32 where
  "VM_STACK_BASE = 0xD0000000"

definition VM_STACK_REGION :: u32 where
  "VM_STACK_REGION = 0x10000000"

record vm_stack_alloc =
  next_addr :: u32
  region_end :: u32

definition vm_stack_alloc_init :: vm_stack_alloc where
  "vm_stack_alloc_init = \<lparr>next_addr = VM_STACK_BASE, region_end = VM_STACK_BASE + VM_STACK_REGION\<rparr>"

definition vm_stack_allocate ::
  "u32 \<Rightarrow> (nat \<Rightarrow> nat \<Rightarrow> bool) \<Rightarrow> u32 \<Rightarrow> vm_stack_alloc \<times> vm_state \<Rightarrow>
   u32 \<times> vm_stack_alloc \<times> vm_state" where
  "vm_stack_allocate pg ok stack_size st =
     (let (sa, s) = st;
          stack_size = VM_ALIGN_UP stack_size pg;
          total = stack_size + pg
      in if next_addr sa + total > region_end sa then (0, sa, s)
         else let base = next_addr sa;
                  sa = sa\<lparr>next_addr := next_addr sa + total\<rparr>;
                  (_, s) = vm_protect (ucast pg) ok base pg False False False s
              in (base + pg, sa, s))"

section \<open>SPU local stores and address ranges\<close>

definition VM_SPU_BASE :: u32 where
  "VM_SPU_BASE = 0x30000000"

definition VM_SPU_WINDOW_SIZE :: u32 where
  "VM_SPU_WINDOW_SIZE = 0x00040000"

definition vm_spu_ls_map ::
  "u64 \<Rightarrow> (nat \<Rightarrow> nat \<Rightarrow> bool) \<Rightarrow> u32 \<Rightarrow> vm_state \<Rightarrow> u32 \<times> vm_state" where
  "vm_spu_ls_map pg ok spu_index s =
     (if spu_index \<ge> 8 then (CELL_EINVAL, s)
      else let addr = VM_SPU_BASE + spu_index * VM_SPU_WINDOW_SIZE
           in vm_commit pg ok addr VM_SPU_WINDOW_SIZE s)"

definition vm_spu_ls_addr :: "u32 \<Rightarrow> u32" where
  "vm_spu_ls_addr spu_index = VM_SPU_BASE + spu_index * VM_SPU_WINDOW_SIZE"

definition VM_MAIN_MEM_BASE :: u32 where "VM_MAIN_MEM_BASE = 0x00010000"
definition VM_MAIN_MEM_SIZE :: u32 where "VM_MAIN_MEM_SIZE = 0x10000000"
definition VM_RSX_BASE :: u32 where "VM_RSX_BASE = 0x10000000"
definition VM_RSX_SIZE :: u32 where "VM_RSX_SIZE = 0x10000000"

definition vm_is_valid_addr :: "u32 \<Rightarrow> bool" where
  "vm_is_valid_addr addr =
     (if addr \<ge> VM_MAIN_MEM_BASE \<and> addr < VM_MAIN_MEM_BASE + VM_MAIN_MEM_SIZE then True
      else if addr \<ge> VM_STACK_BASE \<and> addr < VM_STACK_BASE + VM_STACK_REGION then True
      else if addr \<ge> VM_SPU_BASE \<and> addr < VM_SPU_BASE + 8 * VM_SPU_WINDOW_SIZE then True
      else if addr \<ge> VM_RSX_BASE \<and> addr < VM_RSX_BASE + VM_RSX_SIZE then True
      else False)"

section \<open>Alignment\<close>

text \<open>
  \<open>VM_ALIGN_UP\<close> rounds up to the next multiple of a power of two, unless the sum wraps
  around at 32 bits.
\<close>

lemma VM_ALIGN_UP_pow2:
  assumes "k < 32"
  shows "unat (VM_ALIGN_UP v (2 ^ k)) = unat (v + (2 ^ k - 1)) div 2 ^ k * 2 ^ k"
  using unat_and_not_mask [of "v + (2 ^ k - 1)" k]
  by (simp add: VM_ALIGN_UP_def mask_eq_exp_minus_1 algebra_simps)

lemma unat_add_mask:
  fixes v :: u32
  assumes "k < 32" and "unat v + 2 ^ k \<le> 2 ^ 32"
  shows "unat (v + (2 ^ k - 1)) = unat v + (2 ^ k - 1)"
proof -
  have "unat (2 ^ k - 1 :: u32) = 2 ^ k - 1"
    using assms(1) by (simp add: unat_pow2_minus_1)
  then show ?thesis using assms by (subst unat_add_lem [THEN iffD1]) auto
qed

lemma round_up_ge: "0 < d \<Longrightarrow> n \<le> (n + (d - 1)) div d * (d :: nat)"
  using div_mult_mod_eq [of "n + (d - 1)" d] mod_less_divisor [of d "n + (d - 1)"] by linarith

lemma round_up_less: "0 < d \<Longrightarrow> (n + (d - 1)) div d * (d :: nat) < n + d"
  using div_mult_mod_eq [of "n + (d - 1)" d] by linarith

lemma VM_ALIGN_UP_bounds:
  assumes "k < 32" and "unat v + 2 ^ k \<le> 2 ^ 32"
  shows "2 ^ k dvd unat (VM_ALIGN_UP v (2 ^ k))"
    and "unat v \<le> unat (VM_ALIGN_UP v (2 ^ k))"
    and "unat (VM_ALIGN_UP v (2 ^ k)) < unat v + 2 ^ k"
proof -
  have eq: "unat (VM_ALIGN_UP v (2 ^ k)) = (unat v + (2 ^ k - 1)) div 2 ^ k * 2 ^ k"
    using assms by (simp add: VM_ALIGN_UP_pow2 unat_add_mask)
  show "2 ^ k dvd unat (VM_ALIGN_UP v (2 ^ k))" unfolding eq by simp
  show "unat v \<le> unat (VM_ALIGN_UP v (2 ^ k))" unfolding eq by (rule round_up_ge) simp
  show "unat (VM_ALIGN_UP v (2 ^ k)) < unat v + 2 ^ k" unfolding eq by (rule round_up_less) simp
qed

section \<open>Committing pages\<close>

text \<open>A 64-bit range check never wraps: both ends of the range are below \<open>2 ^ 34\<close>.\<close>

lemma page_range:
  assumes "12 \<le> k" and "k \<le> 16"
  shows "unat ((ucast (addr :: u32) :: u64) AND NOT (2 ^ k - 1)) = unat addr div 2 ^ k * 2 ^ k"
    and "unat (((ucast addr :: u64) + ucast (sz :: u32) + 2 ^ k - 1) AND NOT (2 ^ k - 1))
         = (unat addr + unat sz + (2 ^ k - 1)) div 2 ^ k * 2 ^ k"
proof -
  show "unat ((ucast (addr :: u32) :: u64) AND NOT (2 ^ k - 1)) = unat addr div 2 ^ k * 2 ^ k"
    by (subst unat_and_not_mask [of _ k, unfolded mask_eq_exp_minus_1]) simp
  have kk: "(2 :: nat) ^ k \<le> 2 ^ 16" using assms by (intro power_increasing) auto
  have m: "unat (2 ^ k - 1 :: u64) = 2 ^ k - 1" using assms by (simp add: unat_pow2_minus_1)
  note b = u32_bound [of addr] u32_bound [of sz]
  then have s1: "unat ((ucast addr :: u64) + ucast sz) = unat addr + unat sz"
    by (subst unat_add_lem [THEN iffD1]) auto
  then have "unat ((ucast addr :: u64) + ucast sz + (2 ^ k - 1)) = unat addr + unat sz + (2 ^ k - 1)"
    using b kk
    by (subst unat_add_lem [THEN iffD1]) (auto simp: m)
  then show "unat (((ucast addr :: u64) + ucast sz + 2 ^ k - 1) AND NOT (2 ^ k - 1))
         = (unat addr + unat sz + (2 ^ k - 1)) div 2 ^ k * 2 ^ k"
    using unat_and_not_mask [of "(ucast addr :: u64) + ucast sz + (2 ^ k - 1)" k]
    by (simp add: mask_eq_exp_minus_1 algebra_simps)
qed

lemma mprotect_pages_covers:
  assumes k: "12 \<le> k" "k \<le> 16"
    and r: "vm__mprotect_pages (2 ^ k) ok addr sz p s = (True, s')"
  shows "unat addr \<le> i \<Longrightarrow> i < unat addr + unat sz \<Longrightarrow> vm_prot s' i = p"
    and "i + 2 ^ k \<le> unat addr \<or> unat addr + unat sz + 2 ^ k \<le> i \<Longrightarrow> vm_prot s' i = vm_prot s i"
    and "vm_ready s' = vm_ready s"
proof -
  define lo hi where "lo = unat addr div 2 ^ k * 2 ^ k"
    and "hi = (unat addr + unat sz + (2 ^ k - 1)) div 2 ^ k * 2 ^ k"
  define a0 :: u64 where "a0 = ucast addr AND NOT (2 ^ k - 1)"
  define a1 :: u64 where "a1 = (ucast addr + ucast sz + 2 ^ k - 1) AND NOT (2 ^ k - 1)"
  have u: "unat a0 = lo" "unat a1 = hi"
    using page_range(1) [OF k, of addr] page_range(2) [OF k, of addr sz] by (simp_all add: a0_def a1_def lo_def hi_def)
  have lo: "lo \<le> unat addr" "unat addr < lo + 2 ^ k"
    using dividend_less_div_times [of "2 ^ k" "unat addr"] by (simp_all add: lo_def add.commute)
  have hi: "unat addr + unat sz \<le> hi" "hi < unat addr + unat sz + 2 ^ k"
    unfolding hi_def by (rule round_up_ge, simp) (rule round_up_less, simp)
  have "a0 \<le> a1" using lo hi u by (simp add: word_le_nat_alt)
  then have "unat (a1 - a0) = hi - lo" by (simp add: unat_sub u)
  with r u have s': "s' = s\<lparr>vm_prot := (\<lambda>i. if lo \<le> i \<and> i < lo + (hi - lo) then p else vm_prot s i)\<rparr>"
    by (auto simp: vm__mprotect_pages_def mprotect_def Let_def a0_def a1_def split: if_splits)
  show "unat addr \<le> i \<Longrightarrow> i < unat addr + unat sz \<Longrightarrow> vm_prot s' i = p"
    using lo hi by (simp add: s')
  show "i + 2 ^ k \<le> unat addr \<or> unat addr + unat sz + 2 ^ k \<le> i \<Longrightarrow> vm_prot s' i = vm_prot s i"
    using lo hi by (auto simp: s')
  show "vm_ready s' = vm_ready s" by (simp add: s')
qed

text \<open>
  A commit that succeeds makes every byte of the range readable and writable and touches
  nothing more than one host page and one guest page around it.
\<close>

lemma page_pow: "VM_PAGE_SIZE = 2 ^ 12"
  by (simp add: VM_PAGE_SIZE_def)

lemma vm_commit_covers_range:
  assumes "12 \<le> k" "k \<le> 16" and "unat sz + 4096 \<le> 2 ^ 32"
    and "vm_commit (2 ^ k) ok addr sz s = (CELL_OK, s')"
  shows "unat addr \<le> i \<Longrightarrow> i < unat addr + unat sz \<Longrightarrow>
           vm_prot s' i = \<lparr>p_read = True, p_write = True, p_exec = False\<rparr>"
    and "i + 2 ^ k \<le> unat addr \<or> unat addr + unat sz + 4096 + 2 ^ k \<le> i \<Longrightarrow>
           vm_prot s' i = vm_prot s i"
proof -
  let ?sz = "VM_ALIGN_UP sz VM_PAGE_SIZE"
  have sz: "unat sz \<le> unat ?sz" "unat ?sz < unat sz + 4096"
    using VM_ALIGN_UP_bounds [of 12 sz] assms(3) by (simp_all add: page_pow)
  have r: "vm__mprotect_pages (2 ^ k) ok addr ?sz
             \<lparr>p_read = True, p_write = True, p_exec = False\<rparr> s = (True, s')"
    using assms(4) by (auto simp: vm_commit_def Let_def lv2_codes split: if_splits prod.splits)
  show "unat addr \<le> i \<Longrightarrow> i < unat addr + unat sz \<Longrightarrow>
           vm_prot s' i = \<lparr>p_read = True, p_write = True, p_exec = False\<rparr>"
    using mprotect_pages_covers(1) [OF assms(1,2) r, of i] sz by simp
  show "i + 2 ^ k \<le> unat addr \<or> unat addr + unat sz + 4096 + 2 ^ k \<le> i \<Longrightarrow>
           vm_prot s' i = vm_prot s i"
    using mprotect_pages_covers(2) [OF assms(1,2) r, of i] sz by auto
qed

lemma vm_commit_ready [simp]: "vm_ready (snd (vm_commit pg ok a n v)) = vm_ready v"
  by (simp add: vm_commit_def vm__mprotect_pages_def mprotect_def Let_def case_prod_beta)

lemma vm_commit_accepted: "vm_ready v \<Longrightarrow> fst (vm_commit pg (\<lambda>_ _. True) a n v) = CELL_OK"
  by (simp add: vm_commit_def vm__mprotect_pages_def mprotect_def Let_def)

text \<open>A fresh arena, for the evaluations of the development.\<close>

definition vm_ex :: vm_state where
  "vm_ex = \<lparr>vm_ready = True, vm_prot = (\<lambda>_. \<lparr>p_read = False, p_write = False, p_exec = False\<rparr>)\<rparr>"

section \<open>Stacks are disjoint\<close>

definition stack_inv :: "nat \<Rightarrow> vm_stack_alloc \<Rightarrow> bool" where
  "stack_inv k sa \<longleftrightarrow> region_end sa = VM_STACK_BASE + VM_STACK_REGION \<and>
     unat VM_STACK_BASE \<le> unat (next_addr sa) \<and> next_addr sa \<le> region_end sa \<and>
     2 ^ k dvd unat (next_addr sa)"

lemma region_end_value: "unat (VM_STACK_BASE + VM_STACK_REGION) = 0xE0000000"
  by (simp add: VM_STACK_BASE_def VM_STACK_REGION_def)

lemma stack_inv_init: "k \<le> 16 \<Longrightarrow> stack_inv k vm_stack_alloc_init"
  by (simp add: stack_inv_def vm_stack_alloc_init_def VM_STACK_BASE_def VM_STACK_REGION_def
      word_le_nat_alt) (rule dvd_trans [OF le_imp_power_dvd [of k 16]], simp_all)

text \<open>
  One allocation of a size the region can hold: it fails and changes nothing, or gives a
  page-aligned stack between the old and the new allocation pointer, above a guard page.
\<close>

lemma pow_k_bounds:
  assumes "12 \<le> k" "k \<le> (16 :: nat)"
  shows "(4096 :: nat) \<le> 2 ^ k" and "(2 :: nat) ^ k \<le> 65536"
  using power_increasing [of 12 k "2 :: nat"] power_increasing [of k 16 "2 :: nat"] assms by simp_all

lemma page_aligned:
  assumes "12 \<le> k" "k \<le> 16"
  shows "VM_ALIGN_UP (2 ^ k) VM_PAGE_SIZE = 2 ^ k"
proof -
  have "(2 :: nat) ^ k = 4096 * 2 ^ (k - 12)"
    using assms(1) power_add [of "2 :: nat" 12 "k - 12"] by simp
  then have "(2 ^ k + 4095) div 4096 * 4096 = (2 :: nat) ^ k" by simp
  moreover have "unat (VM_ALIGN_UP (2 ^ k) (2 ^ 12)) = (2 ^ k + 4095) div 4096 * 4096"
    using VM_ALIGN_UP_pow2 [of 12 "2 ^ k"] unat_add_mask [of 12 "2 ^ k"] pow_k_bounds [OF assms] assms
    by (simp add: unat_pow2)
  ultimately show ?thesis using assms by (simp add: page_pow word_unat_eq_iff unat_pow2)
qed

lemma stack_total:
  assumes k: "12 \<le> k" "k \<le> 16" and sz: "unat sz \<le> 0x10000000"
    and inv: "stack_inv k sa"
  defines "sz' \<equiv> VM_ALIGN_UP sz (2 ^ k)"
  shows "unat sz \<le> unat sz'" and "2 ^ k dvd unat sz'"
    and "unat (sz' + 2 ^ k) = unat sz' + 2 ^ k"
    and "unat (next_addr sa + (sz' + 2 ^ k)) = unat (next_addr sa) + (unat sz' + 2 ^ k)"
proof -
  note kb = pow_k_bounds [OF k]
  have b: "unat sz' < unat sz + 2 ^ k" and "unat sz \<le> unat sz'" "2 ^ k dvd unat sz'"
    using VM_ALIGN_UP_bounds [of k sz] k sz kb by (auto simp: sz'_def)
  then show "unat sz \<le> unat sz'" and "2 ^ k dvd unat sz'" by simp_all
  show t: "unat (sz' + 2 ^ k) = unat sz' + 2 ^ k"
    using b sz kb k by (subst unat_add_lem [THEN iffD1]) (auto simp: unat_pow2)
  have "unat (next_addr sa) \<le> 0xE0000000"
    using inv region_end_value by (auto simp: stack_inv_def word_le_nat_alt)
  then show "unat (next_addr sa + (sz' + 2 ^ k)) = unat (next_addr sa) + (unat sz' + 2 ^ k)"
    using b sz kb by (subst unat_add_lem [THEN iffD1]) (auto simp: t)
qed

lemma vm_stack_allocate_step:
  assumes k: "12 \<le> k" "k \<le> 16" and sz: "unat sz \<le> 0x10000000" and inv: "stack_inv k sa"
    and r: "vm_stack_allocate (2 ^ k) ok sz (sa, s) = (base, sa', s')"
  shows "stack_inv k sa'"
    and "base = 0 \<Longrightarrow> sa' = sa \<and> s' = s"
    and "base \<noteq> 0 \<Longrightarrow> 2 ^ k dvd unat base \<and> unat (next_addr sa) + 2 ^ k = unat base \<and>
           unat base + unat sz \<le> unat (next_addr sa') \<and> unat (next_addr sa') \<le> 0xE0000000"
    and "base \<noteq> 0 \<Longrightarrow> vm_ready s \<Longrightarrow> (\<And>x y. ok x y) \<Longrightarrow>
           unat (next_addr sa) \<le> i \<Longrightarrow> i < unat base \<Longrightarrow>
           vm_prot s' i = \<lparr>p_read = False, p_write = False, p_exec = False\<rparr>"
proof -
  define sz' where "sz' = VM_ALIGN_UP sz (2 ^ k)"
  note tot = stack_total [OF k sz inv, folded sz'_def]
  note kb = pow_k_bounds [OF k]
  have lim: "unat VM_STACK_BASE \<le> unat (next_addr sa)" "2 ^ k dvd unat (next_addr sa)"
    "region_end sa = VM_STACK_BASE + VM_STACK_REGION"
    using inv by (simp_all add: stack_inv_def)
  have base_pos: "0xD0000000 \<le> unat (next_addr sa)" using lim(1) by (simp add: VM_STACK_BASE_def)
  have pg64: "(ucast (2 ^ k :: u32) :: u64) = 2 ^ k"
    using k by (simp add: word_unat_eq_iff unat_pow2)
  consider (full) "next_addr sa + (sz' + 2 ^ k) > region_end sa" "base = 0" "sa' = sa" "s' = s"
    | (room) "\<not> next_addr sa + (sz' + 2 ^ k) > region_end sa" "base = next_addr sa + 2 ^ k"
      "sa' = sa\<lparr>next_addr := next_addr sa + (sz' + 2 ^ k)\<rparr>"
      "s' = snd (vm_protect (2 ^ k) ok (next_addr sa) (2 ^ k) False False False s)"
    using r by (auto simp: vm_stack_allocate_def Let_def sz'_def [symmetric] pg64 split: if_splits prod.splits)
  note cases = this
  show "stack_inv k sa'"
    using cases by cases (use inv tot lim in \<open>auto simp: stack_inv_def word_le_nat_alt not_less\<close>)
  have base_eq: "unat (next_addr sa + 2 ^ k) = unat (next_addr sa) + 2 ^ k"
    if "\<not> next_addr sa + (sz' + 2 ^ k) > region_end sa"
  proof -
    have "unat (next_addr sa) + (unat sz' + 2 ^ k) \<le> 0xE0000000"
      using that tot(4) lim(3) region_end_value by (simp add: word_le_nat_alt not_less)
    then show ?thesis using k by (subst unat_add_lem [THEN iffD1]) (auto simp: unat_pow2)
  qed
  show "base = 0 \<Longrightarrow> sa' = sa \<and> s' = s"
    using cases by cases (use base_eq base_pos in \<open>auto simp: unat_eq_zero [symmetric]\<close>)
  show "base \<noteq> 0 \<Longrightarrow> 2 ^ k dvd unat base \<and> unat (next_addr sa) + 2 ^ k = unat base \<and>
           unat base + unat sz \<le> unat (next_addr sa') \<and> unat (next_addr sa') \<le> 0xE0000000"
    using cases
  proof cases
    case room
    then have "unat (next_addr sa) + (unat sz' + 2 ^ k) \<le> 0xE0000000"
      using tot(4) lim(3) region_end_value by (simp add: word_le_nat_alt not_less)
    with room base_eq tot lim show ?thesis by (auto intro: dvd_add)
  qed simp
  show "vm_prot s' i = \<lparr>p_read = False, p_write = False, p_exec = False\<rparr>"
    if "base \<noteq> 0" "vm_ready s" "\<And>x y. ok x y" "unat (next_addr sa) \<le> i" "i < unat base"
    using cases
  proof cases
    case room
    note pg = page_aligned [OF k]
    obtain b s1 where "vm__mprotect_pages (2 ^ k) ok (next_addr sa) (2 ^ k)
        \<lparr>p_read = False, p_write = False, p_exec = False\<rparr> s = (b, s1)" by fastforce
    moreover then have b by (auto simp: vm__mprotect_pages_def mprotect_def that(3) Let_def)
    ultimately have "vm__mprotect_pages (2 ^ k) ok (next_addr sa) (2 ^ k)
        \<lparr>p_read = False, p_write = False, p_exec = False\<rparr> s = (True, s')"
      using room(4) that(2) by (simp add: vm_protect_def pg)
    from mprotect_pages_covers(1) [OF k this that(4)] show ?thesis
      using that(5) base_eq [OF room(1)] room(2) k by (simp add: unat_pow2)
  qed (use that in simp)
qed

text \<open>
  The stack allocator as a window that is given out upwards: what a successful allocation
  takes is its stack and the guard page below it.
\<close>

definition stack_exec ::
  "u32 \<Rightarrow> (nat \<Rightarrow> nat \<Rightarrow> bool) \<Rightarrow> u32 \<Rightarrow> vm_stack_alloc \<times> vm_state \<Rightarrow>
   (nat \<times> nat) option \<times> vm_stack_alloc \<times> vm_state" where
  "stack_exec pg ok sz st =
     (let (base, st') = vm_stack_allocate pg ok sz st
      in (if base = 0 then None else Some (unat base - unat pg, unat sz + unat pg), st'))"

interpretation stack_window: bump_window "0xD0000000" "0xE0000000"
  "\<lambda>(sa, s). 12 \<le> k \<and> k \<le> 16 \<and> stack_inv k sa" "\<lambda>(sa, s). unat (next_addr sa)"
  "stack_exec (2 ^ k) ok" "\<lambda>sz. unat sz \<le> 0x10000000"
  for k ok
proof (unfold_locales, goal_cases)
  case (1 st)
  then show ?case using region_end_value
    by (auto simp: stack_inv_def VM_STACK_BASE_def word_le_nat_alt)
next
  case (2 sz st)
  then show ?case
    using vm_stack_allocate_step(1) [of k sz "fst st" ok "snd st"]
    by (auto simp: stack_exec_def split: prod.splits)
next
  case (3 sz st)
  obtain b sa' s' where r: "vm_stack_allocate (2 ^ k) ok sz (fst st, snd st) = (b, sa', s')"
    by (metis prod_cases3)
  with 3 have "unat (next_addr (fst st)) \<le> unat (next_addr sa')"
    using vm_stack_allocate_step(2,3) [OF _ _ _ _ r] by (cases "b = 0") auto
  with r show ?case by (simp add: stack_exec_def case_prod_beta)
next
  case (4 sz st b n)
  obtain base sa' s' where r: "vm_stack_allocate (2 ^ k) ok sz (fst st, snd st) = (base, sa', s')"
    by (metis prod_cases3)
  with 4 have "base \<noteq> 0" "b = unat base - 2 ^ k" "n = unat sz + 2 ^ k"
    by (auto simp: stack_exec_def unat_pow2 split: if_splits)
  with 4 r show ?case using vm_stack_allocate_step(3) [OF _ _ _ _ r] by (auto simp: stack_exec_def)
qed


lemma stack_example:
  "fst (run_ops (vm_stack_allocate 0x1000 (\<lambda>_ _. True)) [0x4000, 0x100000] (vm_stack_alloc_init, s)) =
     [0xD0001000, 0xD0006000]"
  by (simp add: vm_stack_allocate_def vm_stack_alloc_init_def VM_ALIGN_UP_def VM_STACK_BASE_def
      VM_STACK_REGION_def Let_def case_prod_beta)


text \<open>
  A stack size near the top of the 32-bit range wraps the bounds check: a request of
  0x2FFFF000 bytes is accepted although the region holds 0x10000000, and the allocation
  pointer leaves the stack region, so that later stacks are placed at the bottom of guest
  memory.
\<close>

theorem vm_stack_allocate_wraps:
  "(let (base, sa, s') = vm_stack_allocate 0x1000 ok 0x2FFFF000 (vm_stack_alloc_init, s) in
     base = 0xD0001000 \<and> next_addr sa = 0 \<and>
     fst (vm_stack_allocate 0x1000 ok 0x4000 (sa, s')) = 0x1000)"
  by (simp add: vm_stack_allocate_def vm_stack_alloc_init_def VM_ALIGN_UP_def VM_STACK_BASE_def
      VM_STACK_REGION_def Let_def case_prod_beta)

end
