(* ===== verification/SysMemory.thy ===== *)
theory SysMemory
  imports VirtualMemory
begin

unbundle bit_operations_syntax

text \<open>
  The memory system calls (runtime/syscalls/sys_memory.c): the pool of guest memory above
  0x40000000 from which \<open>sys_memory_allocate\<close> and the \<open>sys_mmapper\<close> calls hand out
  ranges by advancing one pointer, the table of tracked allocations, memory containers and
  shared memory objects.

  The globals of the file are the fields of \<open>sys_mem\<close>, beside the page protections and
  the bytes of guest memory. \<open>sys_memory_allocate\<close> releases the allocator's lock before
  it commits the pages, so it is two sections here: \<open>mem_reserve\<close> under the lock and
  \<open>mem_finish\<close> after it. The log lines are left out.
\<close>

section \<open>Data\<close>

record sys_mem_alloc_info =
  al_active :: bool
  al_addr :: u32
  al_size :: u32
  al_container_id :: int
  al_page_size :: u32

record sys_mem_container_info =
  ct_active :: bool
  ct_total_size :: u32
  ct_used_size :: u32

record sys_mmapper_shared_info =
  shm_active :: bool
  shm_size :: u32
  shm_addr :: u32
  shm_key :: u64

record sys_mem =
  sm_allocs :: "nat \<Rightarrow> sys_mem_alloc_info"
  sm_containers :: "nat \<Rightarrow> sys_mem_container_info"
  sm_shared :: "nat \<Rightarrow> sys_mmapper_shared_info"
  sm_bump_ptr :: u32
  sm_total_allocated :: u32
  sm_vm :: vm_state
  sm_mem :: mem

definition SYS_MEMORY_PAGE_SIZE_1M :: u32 where
  "SYS_MEMORY_PAGE_SIZE_1M = 0x400"

definition SYS_MEMORY_ALLOC_MAX :: nat where
  "SYS_MEMORY_ALLOC_MAX = 1024"

definition SYS_MEMORY_CONTAINER_MAX :: nat where
  "SYS_MEMORY_CONTAINER_MAX = 16"

definition SYS_MMAPPER_SHARED_MAX :: nat where
  "SYS_MMAPPER_SHARED_MAX = 64"

definition SYS_MEM_USER_TOTAL :: u32 where
  "SYS_MEM_USER_TOTAL = 213 * 1024 * 1024"

definition SYS_MEM_ALLOC_BASE :: u32 where
  "SYS_MEM_ALLOC_BASE = 0x40000000"

definition SYS_MEM_ALLOC_END :: u32 where
  "SYS_MEM_ALLOC_END = 0x50000000"

definition alloc_zero :: sys_mem_alloc_info where
  "alloc_zero = \<lparr>al_active = False, al_addr = 0, al_size = 0, al_container_id = 0, al_page_size = 0\<rparr>"

definition container_zero :: sys_mem_container_info where
  "container_zero = \<lparr>ct_active = False, ct_total_size = 0, ct_used_size = 0\<rparr>"

definition shared_zero :: sys_mmapper_shared_info where
  "shared_zero = \<lparr>shm_active = False, shm_size = 0, shm_addr = 0, shm_key = 0\<rparr>"

definition sys_memory_init :: "vm_state \<Rightarrow> mem \<Rightarrow> sys_mem" where
  "sys_memory_init v m =
     \<lparr>sm_allocs = (\<lambda>_. alloc_zero), sm_containers = (\<lambda>_. container_zero),
      sm_shared = (\<lambda>_. shared_zero), sm_bump_ptr = 0, sm_total_allocated = 0,
      sm_vm = v, sm_mem = m\<rparr>"

lemma sys_memory_init_simps [simp]:
  "sm_allocs (sys_memory_init v m) = (\<lambda>_. alloc_zero)" "sm_bump_ptr (sys_memory_init v m) = 0"
  "sm_total_allocated (sys_memory_init v m) = 0" "sm_vm (sys_memory_init v m) = v"
  "sm_mem (sys_memory_init v m) = m"
  by (simp_all add: sys_memory_init_def)

text \<open>\<open>if (out != 0) write_be32(out, v)\<close>\<close>

definition put_u32 :: "u32 \<Rightarrow> u32 \<Rightarrow> sys_mem \<Rightarrow> sys_mem" where
  "put_u32 out v s = (if out \<noteq> 0 then s\<lparr>sm_mem := write_be32 (sm_mem s) out v\<rparr> else s)"

section \<open>Main memory\<close>

definition mem_alignment :: "u32 \<Rightarrow> u32" where
  "mem_alignment flags = (if flags AND SYS_MEMORY_PAGE_SIZE_1M \<noteq> 0 then 0x100000 else 0x10000)"

text \<open>The pointer, set on the first call, moved up to the alignment.\<close>

definition bump_align :: "u32 \<Rightarrow> u32 \<Rightarrow> u32" where
  "bump_align alignment b = VM_ALIGN_UP (if b = 0 then SYS_MEM_ALLOC_BASE else b) alignment"

definition mem_reserve :: "ppu_context \<Rightarrow> sys_mem \<Rightarrow> (u64 + nat \<times> u32 \<times> u32) \<times> sys_mem" where
  "mem_reserve ctx s =
     (let alignment = mem_alignment (LV2_ARG_U32 ctx 1);
          sz = VM_ALIGN_UP (LV2_ARG_U32 ctx 0) alignment
      in if sz = 0 then (Inl (lv2_ret CELL_EINVAL), s)
         else let b = bump_align alignment (sm_bump_ptr s);
                  s = s\<lparr>sm_bump_ptr := b\<rparr>
              in if b + sz > SYS_MEM_ALLOC_END then (Inl (lv2_ret CELL_ENOMEM), s)
                 else case find_slot (\<lambda>i. \<not> al_active (sm_allocs s i)) SYS_MEMORY_ALLOC_MAX of
                        None \<Rightarrow> (Inl (lv2_ret CELL_ENOMEM), s)
                      | Some slot \<Rightarrow>
                          (Inr (slot, b, sz),
                           s\<lparr>sm_bump_ptr := b + sz,
                             sm_total_allocated := sm_total_allocated s + sz,
                             sm_allocs := (sm_allocs s)
                               (slot := \<lparr>al_active = True, al_addr = b, al_size = sz,
                                         al_container_id = 0, al_page_size = alignment\<rparr>)\<rparr>))"

definition mem_release :: "nat \<Rightarrow> sys_mem \<Rightarrow> sys_mem" where
  "mem_release slot s =
     s\<lparr>sm_allocs := (sm_allocs s)(slot := (sm_allocs s slot)\<lparr>al_active := False\<rparr>)\<rparr>"

definition mem_finish ::
  "u64 \<Rightarrow> (nat \<Rightarrow> nat \<Rightarrow> bool) \<Rightarrow> ppu_context \<Rightarrow> nat \<times> u32 \<times> u32 \<Rightarrow> sys_mem \<Rightarrow> u64 \<times> sys_mem" where
  "mem_finish pg ok ctx res s =
     (let (slot, alloc_addr, sz) = res;
          (rc, v) = vm_commit pg ok alloc_addr sz (sm_vm s);
          s = s\<lparr>sm_vm := v\<rparr>
      in if rc \<noteq> CELL_OK then (lv2_ret CELL_ENOMEM, mem_release slot s)
         else (lv2_ret CELL_OK, put_u32 (LV2_ARG_PTR ctx 2) alloc_addr s))"

definition sys_memory_allocate ::
  "u64 \<Rightarrow> (nat \<Rightarrow> nat \<Rightarrow> bool) \<Rightarrow> ppu_context \<Rightarrow> sys_mem \<Rightarrow> u64 \<times> sys_mem" where
  "sys_memory_allocate pg ok ctx s =
     (case mem_reserve ctx s of
        (Inl e, s) \<Rightarrow> (e, s)
      | (Inr res, s) \<Rightarrow> mem_finish pg ok ctx res s)"

definition sys_memory_free :: "ppu_context \<Rightarrow> sys_mem \<Rightarrow> u64 \<times> sys_mem" where
  "sys_memory_free ctx s =
     (let addr = LV2_ARG_U32 ctx 0
      in case find_slot (\<lambda>i. al_active (sm_allocs s i) \<and> al_addr (sm_allocs s i) = addr)
                SYS_MEMORY_ALLOC_MAX of
           None \<Rightarrow> (lv2_ret CELL_EINVAL, s)
         | Some i \<Rightarrow>
             (lv2_ret CELL_OK,
              mem_release i (s\<lparr>sm_total_allocated := sm_total_allocated s - al_size (sm_allocs s i)\<rparr>)))"

definition sys_memory_get_user_memory_size :: "ppu_context \<Rightarrow> sys_mem \<Rightarrow> u64 \<times> sys_mem" where
  "sys_memory_get_user_memory_size ctx s =
     (let out_addr = LV2_ARG_PTR ctx 0;
          total = SYS_MEM_USER_TOTAL;
          avail = total - sm_total_allocated s
      in (lv2_ret CELL_OK,
          if out_addr \<noteq> 0
          then s\<lparr>sm_mem := write_be32 (write_be32 (sm_mem s) (out_addr + 0) total) (out_addr + 4) avail\<rparr>
          else s))"

definition page_size_at :: "(nat \<Rightarrow> sys_mem_alloc_info) \<Rightarrow> u32 \<Rightarrow> u32" where
  "page_size_at t addr =
     (case find_slot (\<lambda>i. al_active (t i) \<and> addr \<ge> al_addr (t i) \<and>
                          addr < al_addr (t i) + al_size (t i)) SYS_MEMORY_ALLOC_MAX of
        None \<Rightarrow> 0x10000
      | Some i \<Rightarrow> (if al_page_size (t i) \<noteq> 0 then al_page_size (t i) else 0x10000))"

definition sys_memory_get_page_attribute :: "ppu_context \<Rightarrow> sys_mem \<Rightarrow> u64 \<times> sys_mem" where
  "sys_memory_get_page_attribute ctx s =
     (let addr = LV2_ARG_U32 ctx 0;
          attr_out = LV2_ARG_PTR ctx 1;
          page_size = page_size_at (sm_allocs s) addr;
          m = sm_mem s;
          m = write_be32 m (attr_out + 0x00) 0;
          m = write_be32 m (attr_out + 0x04) 0x00040000;
          m = write_be32 m (attr_out + 0x08) 0;
          m = write_be32 m (attr_out + 0x0C) 0x00000008;
          m = write_be32 m (attr_out + 0x10) page_size;
          m = write_be32 m (attr_out + 0x14) 0
      in (lv2_ret CELL_OK, if attr_out \<noteq> 0 then s\<lparr>sm_mem := m\<rparr> else s))"

section \<open>Containers\<close>

definition sys_memory_container_create :: "ppu_context \<Rightarrow> sys_mem \<Rightarrow> u64 \<times> sys_mem" where
  "sys_memory_container_create ctx s =
     (let id_out_addr = LV2_ARG_PTR ctx 0; sz = LV2_ARG_U32 ctx 1
      in case find_slot (\<lambda>i. \<not> ct_active (sm_containers s i)) SYS_MEMORY_CONTAINER_MAX of
           None \<Rightarrow> (lv2_ret CELL_EAGAIN, s)
         | Some slot \<Rightarrow>
             (lv2_ret CELL_OK,
              put_u32 id_out_addr (of_nat (slot + 1))
                (s\<lparr>sm_containers := (sm_containers s)
                     (slot := \<lparr>ct_active = True, ct_total_size = sz, ct_used_size = 0\<rparr>)\<rparr>)))"

definition sys_memory_container_destroy :: "ppu_context \<Rightarrow> sys_mem \<Rightarrow> u64 \<times> sys_mem" where
  "sys_memory_container_destroy ctx s =
     (let container_id = unat (LV2_ARG_U32 ctx 0)
      in if container_id = 0 \<or> container_id > SYS_MEMORY_CONTAINER_MAX then (lv2_ret CELL_ESRCH, s)
         else if \<not> ct_active (sm_containers s (container_id - 1)) then (lv2_ret CELL_ESRCH, s)
         else (lv2_ret CELL_OK,
               s\<lparr>sm_containers := (sm_containers s)
                   (container_id - 1 := (sm_containers s (container_id - 1))\<lparr>ct_active := False\<rparr>)\<rparr>))"

definition sys_memory_container_get_size :: "ppu_context \<Rightarrow> sys_mem \<Rightarrow> u64 \<times> sys_mem" where
  "sys_memory_container_get_size ctx s =
     (let container_id = unat (LV2_ARG_U32 ctx 0);
          out_addr = LV2_ARG_PTR ctx 1;
          c = sm_containers s (container_id - 1)
      in if container_id = 0 \<or> container_id > SYS_MEMORY_CONTAINER_MAX then (lv2_ret CELL_ESRCH, s)
         else if \<not> ct_active c then (lv2_ret CELL_ESRCH, s)
         else (lv2_ret CELL_OK,
               if out_addr \<noteq> 0
               then s\<lparr>sm_mem := write_be32 (write_be32 (sm_mem s) (out_addr + 0) (ct_total_size c))
                                  (out_addr + 4) (ct_used_size c)\<rparr>
               else s))"

section \<open>The memory mapper\<close>

definition sys_mmapper_allocate_address ::
  "u64 \<Rightarrow> (nat \<Rightarrow> nat \<Rightarrow> bool) \<Rightarrow> ppu_context \<Rightarrow> sys_mem \<Rightarrow> u64 \<times> sys_mem" where
  "sys_mmapper_allocate_address pg ok ctx s =
     (let alignment = (if LV2_ARG_U32 ctx 2 = 0 then 0x10000 else LV2_ARG_U32 ctx 2);
          sz = VM_ALIGN_UP (LV2_ARG_U32 ctx 0) alignment;
          b = bump_align alignment (sm_bump_ptr s);
          s = s\<lparr>sm_bump_ptr := b\<rparr>
      in if b + sz > SYS_MEM_ALLOC_END then (lv2_ret CELL_ENOMEM, s)
         else let (_, v) = vm_commit pg ok b sz (sm_vm s)
              in (lv2_ret CELL_OK,
                  put_u32 (LV2_ARG_PTR ctx 3) b (s\<lparr>sm_bump_ptr := b + sz, sm_vm := v\<rparr>)))"

definition sys_mmapper_free_address :: "ppu_context \<Rightarrow> sys_mem \<Rightarrow> u64 \<times> sys_mem" where
  "sys_mmapper_free_address ctx s = (lv2_ret CELL_OK, s)"

definition sys_mmapper_allocate_shared_memory :: "ppu_context \<Rightarrow> sys_mem \<Rightarrow> u64 \<times> sys_mem" where
  "sys_mmapper_allocate_shared_memory ctx s =
     (let key = LV2_ARG_U64 ctx 0; sz = LV2_ARG_U32 ctx 1; id_out = LV2_ARG_PTR ctx 3
      in case find_slot (\<lambda>i. \<not> shm_active (sm_shared s i)) SYS_MMAPPER_SHARED_MAX of
           None \<Rightarrow> (lv2_ret CELL_EAGAIN, s)
         | Some slot \<Rightarrow>
             (lv2_ret CELL_OK,
              put_u32 id_out (of_nat (slot + 1))
                (s\<lparr>sm_shared := (sm_shared s)
                     (slot := \<lparr>shm_active = True, shm_size = VM_ALIGN_UP sz VM_PAGE_SIZE,
                               shm_addr = 0, shm_key = key\<rparr>)\<rparr>)))"

definition sys_mmapper_allocate_memory ::
  "u64 \<Rightarrow> (nat \<Rightarrow> nat \<Rightarrow> bool) \<Rightarrow> ppu_context \<Rightarrow> sys_mem \<Rightarrow> u64 \<times> sys_mem" where
  "sys_mmapper_allocate_memory pg ok ctx s =
     (let addr_out = LV2_ARG_PTR ctx 0; sz = LV2_ARG_U32 ctx 1
      in if sz = 0 then (lv2_ret CELL_EINVAL, s)
         else let sz = VM_ALIGN_UP sz VM_PAGE_SIZE;
                  b = bump_align VM_PAGE_SIZE (sm_bump_ptr s);
                  s = s\<lparr>sm_bump_ptr := b\<rparr>
              in if b + sz > SYS_MEM_ALLOC_END then (lv2_ret CELL_ENOMEM, s)
                 else let (_, v) = vm_commit pg ok b sz (sm_vm s)
                      in (lv2_ret CELL_OK,
                          put_u32 addr_out b (s\<lparr>sm_bump_ptr := b + sz, sm_vm := v\<rparr>)))"

definition sys_mmapper_allocate_memory_from_container :: "ppu_context \<Rightarrow> sys_mem \<Rightarrow> u64 \<times> sys_mem" where
  "sys_mmapper_allocate_memory_from_container ctx s = (lv2_ret CELL_OK, s)"

text \<open>\<open>memset(vm_to_host(addr), 0, n)\<close>\<close>

definition clear_bytes :: "mem \<Rightarrow> nat \<Rightarrow> nat \<Rightarrow> mem" where
  "clear_bytes m a n = (\<lambda>i. if a \<le> i \<and> i < a + n then 0 else m i)"

definition sys_mmapper_map_shared_memory ::
  "u64 \<Rightarrow> (nat \<Rightarrow> nat \<Rightarrow> bool) \<Rightarrow> ppu_context \<Rightarrow> sys_mem \<Rightarrow> u64 \<times> sys_mem" where
  "sys_mmapper_map_shared_memory pg ok ctx s =
     (let addr = LV2_ARG_U32 ctx 0;
          shm_id = unat (LV2_ARG_U32 ctx 1);
          h = sm_shared s (shm_id - 1)
      in if shm_id = 0 \<or> shm_id > SYS_MMAPPER_SHARED_MAX then (lv2_ret CELL_ESRCH, s)
         else if \<not> shm_active h then (lv2_ret CELL_ESRCH, s)
         else let (rc, v) = vm_commit pg ok addr (shm_size h) (sm_vm s);
                  s = s\<lparr>sm_vm := v\<rparr>
              in if rc \<noteq> CELL_OK then (lv2_ret rc, s)
                 else (lv2_ret CELL_OK,
                       s\<lparr>sm_shared := (sm_shared s)(shm_id - 1 := h\<lparr>shm_addr := addr\<rparr>),
                         sm_mem := clear_bytes (sm_mem s) (vm_to_host addr) (unat (shm_size h))\<rparr>))"

section \<open>Sections and their interleavings\<close>

text \<open>
  What runs without another thread of the allocator in between: each system call, and the two
  halves of \<open>sys_memory_allocate\<close> apart. A list of sections is an interleaving of calls
  of any number of threads; \<open>Finish\<close> is not tied to a preceding \<open>Reserve\<close>, which
  only adds behaviours. \<open>mem_exec\<close> runs a section and says which range of the pool it
  handed out.
\<close>

datatype mem_section =
    Reserve ppu_context
  | Finish ppu_context "nat \<times> u32 \<times> u32"
  | Free ppu_context
  | User_memory_size ppu_context
  | Page_attribute ppu_context
  | Container_create ppu_context
  | Container_destroy ppu_context
  | Container_get_size ppu_context
  | Allocate_address ppu_context
  | Free_address ppu_context
  | Allocate_shared ppu_context
  | Allocate_memory ppu_context
  | Allocate_from_container ppu_context
  | Map_shared ppu_context

definition address_alignment :: "ppu_context \<Rightarrow> u32" where
  "address_alignment ctx = (if LV2_ARG_U32 ctx 2 = 0 then 0x10000 else LV2_ARG_U32 ctx 2)"

definition taken :: "u32 \<Rightarrow> u32 \<Rightarrow> sys_mem \<Rightarrow> u64 \<Rightarrow> (nat \<times> nat) option" where
  "taken alignment sz s r =
     (if r = lv2_ret CELL_OK
      then Some (unat (bump_align alignment (sm_bump_ptr s)), unat (VM_ALIGN_UP sz alignment))
      else None)"

fun mem_exec ::
  "u64 \<Rightarrow> (nat \<Rightarrow> nat \<Rightarrow> bool) \<Rightarrow> mem_section \<Rightarrow> sys_mem \<Rightarrow> (nat \<times> nat) option \<times> sys_mem" where
  "mem_exec pg ok (Reserve ctx) s =
     (case mem_reserve ctx s of
        (Inl e, s') \<Rightarrow> (None, s')
      | (Inr (slot, a, n), s') \<Rightarrow> (Some (unat a, unat n), s'))"
| "mem_exec pg ok (Finish ctx res) s = (None, snd (mem_finish pg ok ctx res s))"
| "mem_exec pg ok (Free ctx) s = (None, snd (sys_memory_free ctx s))"
| "mem_exec pg ok (User_memory_size ctx) s = (None, snd (sys_memory_get_user_memory_size ctx s))"
| "mem_exec pg ok (Page_attribute ctx) s = (None, snd (sys_memory_get_page_attribute ctx s))"
| "mem_exec pg ok (Container_create ctx) s = (None, snd (sys_memory_container_create ctx s))"
| "mem_exec pg ok (Container_destroy ctx) s = (None, snd (sys_memory_container_destroy ctx s))"
| "mem_exec pg ok (Container_get_size ctx) s = (None, snd (sys_memory_container_get_size ctx s))"
| "mem_exec pg ok (Allocate_address ctx) s =
     (let (r, s') = sys_mmapper_allocate_address pg ok ctx s
      in (taken (address_alignment ctx) (LV2_ARG_U32 ctx 0) s r, s'))"
| "mem_exec pg ok (Free_address ctx) s = (None, snd (sys_mmapper_free_address ctx s))"
| "mem_exec pg ok (Allocate_shared ctx) s = (None, snd (sys_mmapper_allocate_shared_memory ctx s))"
| "mem_exec pg ok (Allocate_memory ctx) s =
     (let (r, s') = sys_mmapper_allocate_memory pg ok ctx s
      in (taken VM_PAGE_SIZE (LV2_ARG_U32 ctx 1) s r, s'))"
| "mem_exec pg ok (Allocate_from_container ctx) s =
     (None, snd (sys_mmapper_allocate_memory_from_container ctx s))"
| "mem_exec pg ok (Map_shared ctx) s = (None, snd (sys_mmapper_map_shared_memory pg ok ctx s))"

text \<open>
  The requests the contract covers: sizes of at most 0xA0000000 bytes, and for
  \<open>sys_mmapper_allocate_address\<close> an alignment that is a power of two of at most 256 MB,
  or zero.
\<close>

fun request_ok :: "mem_section \<Rightarrow> bool" where
  "request_ok (Reserve ctx) \<longleftrightarrow> unat (LV2_ARG_U32 ctx 0) \<le> 0xA0000000"
| "request_ok (Allocate_address ctx) \<longleftrightarrow> unat (LV2_ARG_U32 ctx 0) \<le> 0xA0000000 \<and>
     address_alignment ctx \<in> (\<lambda>k. 2 ^ k) ` {..28}"
| "request_ok (Allocate_memory ctx) \<longleftrightarrow> unat (LV2_ARG_U32 ctx 1) \<le> 0xA0000000"
| "request_ok _ \<longleftrightarrow> True"

section \<open>The invariant of the pool\<close>

definition bump_ok :: "u32 \<Rightarrow> bool" where
  "bump_ok b \<longleftrightarrow> b = 0 \<or> (0x40000000 \<le> unat b \<and> unat b \<le> 0x50000000)"

definition pool_mark :: "u32 \<Rightarrow> nat" where
  "pool_mark b = (if b = 0 then 0x40000000 else unat b)"

definition alloc_ok :: "nat \<Rightarrow> sys_mem_alloc_info \<Rightarrow> bool" where
  "alloc_ok mark a \<longleftrightarrow> (al_active a \<longrightarrow>
     0x40000000 \<le> unat (al_addr a) \<and> 0 < unat (al_size a) \<and>
     unat (al_addr a) + unat (al_size a) \<le> mark \<and> mark \<le> 0x50000000 \<and>
     al_page_size a \<in> {0x10000, 0x100000} \<and>
     unat (al_page_size a) dvd unat (al_addr a) \<and> unat (al_page_size a) dvd unat (al_size a))"

definition apart :: "sys_mem_alloc_info \<Rightarrow> sys_mem_alloc_info \<Rightarrow> bool" where
  "apart a b \<longleftrightarrow> unat (al_addr a) + unat (al_size a) \<le> unat (al_addr b) \<or>
                 unat (al_addr b) + unat (al_size b) \<le> unat (al_addr a)"

definition pool_inv :: "u32 \<Rightarrow> (nat \<Rightarrow> sys_mem_alloc_info) \<Rightarrow> bool" where
  "pool_inv b t \<longleftrightarrow> bump_ok b \<and> (\<forall>i. alloc_ok (pool_mark b) (t i)) \<and>
     (\<forall>i j. i \<noteq> j \<longrightarrow> al_active (t i) \<longrightarrow> al_active (t j) \<longrightarrow> apart (t i) (t j))"

definition mem_inv :: "sys_mem \<Rightarrow> bool" where
  "mem_inv s \<longleftrightarrow> pool_inv (sm_bump_ptr s) (sm_allocs s)"

text \<open>Taking a range from the pool.\<close>

lemma round_up_le: "0 < d \<Longrightarrow> d dvd u \<Longrightarrow> n \<le> u \<Longrightarrow> (n + (d - 1)) div d * d \<le> (u :: nat)"
proof -
  assume d: "0 < d" "d dvd u" and n: "n \<le> u"
  then obtain q where q: "u = q * d" by (auto simp: mult.commute elim: dvdE)
  have "(n + (d - 1)) div d * d < n + d" using d(1) by (rule round_up_less)
  also have "\<dots> \<le> (q + 1) * d" using n by (simp add: q)
  finally have "(n + (d - 1)) div d < q + 1" by (simp only: mult_less_cancel2)
  then have "(n + (d - 1)) div d \<le> q" by linarith
  then show ?thesis unfolding q by (rule mult_le_mono1)
qed

lemma pool_take:
  assumes k: "k \<le> 28" and sz: "unat sz \<le> 0xA0000000" and b: "bump_ok b"
  defines "b' \<equiv> bump_align (2 ^ k) b" and "sz' \<equiv> VM_ALIGN_UP sz (2 ^ k)"
  shows "pool_mark b \<le> unat b'" and "unat b' \<le> 0x50000000" and "2 ^ k dvd unat b'"
    and "2 ^ k dvd unat sz'" and "unat (b' + sz') = unat b' + unat sz'"
proof -
  define c where "c = (if b = 0 then SYS_MEM_ALLOC_BASE else b)"
  have c: "unat c = pool_mark b" "unat c \<le> 0x50000000"
    using b by (auto simp: c_def pool_mark_def bump_ok_def SYS_MEM_ALLOC_BASE_def)
  have kk: "(2 :: nat) ^ k \<le> 2 ^ 28" using k by (intro power_increasing) auto
  have "(2 :: nat) ^ k dvd 2 ^ 28" using k by (intro le_imp_power_dvd)
  then have d: "(2 :: nat) ^ k dvd 0x50000000" by (rule dvd_trans) simp
  note bb = VM_ALIGN_UP_bounds [of k c] and sb = VM_ALIGN_UP_bounds [of k sz]
  have b': "b' = VM_ALIGN_UP c (2 ^ k)" by (simp add: b'_def bump_align_def c_def)
  show "pool_mark b \<le> unat b'" "2 ^ k dvd unat b'" "2 ^ k dvd unat sz'"
    using bb sb k c kk sz by (simp_all add: b' sz'_def)
  have "unat b' = (unat c + (2 ^ k - 1)) div 2 ^ k * 2 ^ k"
    unfolding b' using VM_ALIGN_UP_pow2 [of k c] unat_add_mask [of k c] k c kk by simp
  then show le: "unat b' \<le> 0x50000000" using round_up_le [OF _ d c(2)] by simp
  have "unat sz' < unat sz + 2 ^ k" using sb k kk sz by (simp add: sz'_def)
  then show "unat (b' + sz') = unat b' + unat sz'"
    using le kk sz by (subst unat_add_lem [THEN iffD1]) auto
qed

lemma pool_fits:
  "unat (b + sz) = unat b + unat sz \<Longrightarrow> \<not> b + sz > SYS_MEM_ALLOC_END \<longleftrightarrow> unat b + unat sz \<le> 0x50000000"
  by (simp add: word_le_nat_alt not_less SYS_MEM_ALLOC_END_def)

lemma pool_mark_ok: "0x40000000 \<le> unat b \<Longrightarrow> unat b \<le> 0x50000000 \<Longrightarrow> bump_ok b \<and> pool_mark b = unat b"
  by (auto simp: bump_ok_def pool_mark_def)

lemma pool_mark_ge: "bump_ok b \<Longrightarrow> 0x40000000 \<le> pool_mark b \<and> pool_mark b \<le> 0x50000000"
  by (auto simp: bump_ok_def pool_mark_def)

text \<open>The invariant survives a pointer that moves up, a slot filled above it and a slot freed.\<close>

lemma pool_inv_up:
  "pool_inv b t \<Longrightarrow> pool_mark b \<le> unat b' \<Longrightarrow> unat b' \<le> 0x50000000 \<Longrightarrow> pool_inv b' t \<and> pool_mark b' = unat b'"
  using pool_mark_ge [of b] pool_mark_ok [of b']
  by (fastforce simp: pool_inv_def alloc_ok_def)

lemma pool_inv_fill:
  assumes "pool_inv b t" and "al_active a" and "pool_mark b \<le> unat (al_addr a)"
    and "alloc_ok (unat b') a" and "unat (al_addr a) + unat (al_size a) = unat b'"
  shows "pool_inv b' (t(i := a))"
proof -
  have b': "pool_mark b \<le> unat b'" "unat b' \<le> 0x50000000"
    using assms(2-5) by (auto simp: alloc_ok_def)
  note up = pool_inv_up [OF assms(1) b']
  have below: "unat (al_addr (t j)) + unat (al_size (t j)) \<le> unat (al_addr a)" if "al_active (t j)" for j
    using assms(1,3) that by (fastforce simp: pool_inv_def alloc_ok_def)
  show ?thesis
    using up assms(4) below unfolding pool_inv_def by (auto simp: apart_def)
qed

lemma pool_inv_release:
  "pool_inv b t \<Longrightarrow> pool_inv b (t(i := (t i)\<lparr>al_active := False\<rparr>))"
  by (auto simp: pool_inv_def alloc_ok_def)

lemma pool_inv_take:
  assumes "pool_inv b t" and "k \<le> 28" and "unat sz \<le> 0xA0000000"
  defines "b' \<equiv> bump_align (2 ^ k) b" and "sz' \<equiv> VM_ALIGN_UP sz (2 ^ k)"
  shows "pool_inv b' t" and "pool_mark b' = unat b'" and "pool_mark b \<le> unat b'"
    and "\<not> b' + sz' > SYS_MEM_ALLOC_END \<Longrightarrow>
           pool_inv (b' + sz') t \<and> pool_mark (b' + sz') = unat b' + unat sz'"
proof -
  have "bump_ok b" using assms(1) by (simp add: pool_inv_def)
  note tk = pool_take [OF assms(2,3) this, folded b'_def sz'_def]
  note up = pool_inv_up [OF assms(1) tk(1,2)]
  show "pool_inv b' t" "pool_mark b' = unat b'" "pool_mark b \<le> unat b'" using up tk(1) by simp_all
  assume "\<not> b' + sz' > SYS_MEM_ALLOC_END"
  then have "unat b' + unat sz' \<le> 0x50000000" using tk(5) by (simp add: pool_fits)
  then show "pool_inv (b' + sz') t \<and> pool_mark (b' + sz') = unat b' + unat sz'"
    using pool_inv_up [OF assms(1), of "b' + sz'"] tk by simp
qed

lemma mem_alignment_pow: obtains k where "k \<le> 28" "mem_alignment flags = 2 ^ k"
    "(2 :: u32) ^ k \<in> {0x10000, 0x100000}" "unat ((2 :: u32) ^ k) = 2 ^ k"
proof -
  have "mem_alignment flags = 2 ^ 16 \<or> mem_alignment flags = 2 ^ 20" by (simp add: mem_alignment_def)
  then show thesis using that [of 16] that [of 20] by auto
qed

lemma mem_reserve_cases:
  assumes r: "mem_reserve ctx s = (r, s')"
  defines "al \<equiv> mem_alignment (LV2_ARG_U32 ctx 1)"
  defines "b' \<equiv> bump_align al (sm_bump_ptr s)" and "sz' \<equiv> VM_ALIGN_UP (LV2_ARG_U32 ctx 0) al"
  obtains (inval) "sz' = 0" "s' = s" "r = Inl (lv2_ret CELL_EINVAL)"
  | (full) "s' = s\<lparr>sm_bump_ptr := b'\<rparr>" "r = Inl (lv2_ret CELL_ENOMEM)"
  | (ok) i where "sz' \<noteq> 0" "\<not> b' + sz' > SYS_MEM_ALLOC_END" "r = Inr (i, b', sz')"
      "find_slot (\<lambda>i. \<not> al_active (sm_allocs s i)) SYS_MEMORY_ALLOC_MAX = Some i"
      "s' = s\<lparr>sm_bump_ptr := b' + sz', sm_total_allocated := sm_total_allocated s + sz',
              sm_allocs := (sm_allocs s)(i := \<lparr>al_active = True, al_addr = b', al_size = sz',
                  al_container_id = 0, al_page_size = al\<rparr>)\<rparr>"
proof -
  have d: "mem_reserve ctx s =
    (if sz' = 0 then (Inl (lv2_ret CELL_EINVAL), s)
     else if b' + sz' > SYS_MEM_ALLOC_END then (Inl (lv2_ret CELL_ENOMEM), s\<lparr>sm_bump_ptr := b'\<rparr>)
     else case find_slot (\<lambda>i. \<not> al_active (sm_allocs s i)) SYS_MEMORY_ALLOC_MAX of
       None \<Rightarrow> (Inl (lv2_ret CELL_ENOMEM), s\<lparr>sm_bump_ptr := b'\<rparr>)
     | Some i \<Rightarrow> (Inr (i, b', sz'), s\<lparr>sm_bump_ptr := b' + sz',
           sm_total_allocated := sm_total_allocated s + sz',
              sm_allocs := (sm_allocs s)(i := \<lparr>al_active = True, al_addr = b', al_size = sz',
                  al_container_id = 0, al_page_size = al\<rparr>)\<rparr>))"
    by (simp add: mem_reserve_def Let_def al_def b'_def sz'_def cong: option.case_cong)
  show thesis
  proof (cases "sz' = 0")
    case True
    then show thesis using inval d r by simp
  next
    case nz: False
    show thesis
    proof (cases "b' + sz' > SYS_MEM_ALLOC_END")
      case True
      then show thesis using full d r nz by simp
    next
      case False
      then show thesis
        using full ok [OF nz False] d r nz
        by (cases "find_slot (\<lambda>i. \<not> al_active (sm_allocs s i)) SYS_MEMORY_ALLOC_MAX") simp_all
    qed
  qed
qed

lemma mem_reserve_step:
  assumes inv: "mem_inv s" and sz: "unat (LV2_ARG_U32 ctx 0) \<le> 0xA0000000"
    and r: "mem_reserve ctx s = (r, s')"
  shows "mem_inv s'" and "pool_mark (sm_bump_ptr s) \<le> pool_mark (sm_bump_ptr s')"
    and "r = Inr (slot, a, n) \<Longrightarrow> pool_mark (sm_bump_ptr s) \<le> unat a \<and>
           unat a + unat n = pool_mark (sm_bump_ptr s')"
proof -
  obtain k where k: "k \<le> 28" "mem_alignment (LV2_ARG_U32 ctx 1) = 2 ^ k"
    "(2 :: u32) ^ k \<in> {0x10000, 0x100000}" "unat ((2 :: u32) ^ k) = 2 ^ k"
    by (rule mem_alignment_pow)
  define b' where "b' = bump_align (2 ^ k) (sm_bump_ptr s)"
  define sz' where "sz' = VM_ALIGN_UP (LV2_ARG_U32 ctx 0) (2 ^ k)"
  note inv' = inv [unfolded mem_inv_def]
  have "bump_ok (sm_bump_ptr s)" using inv' by (simp add: pool_inv_def)
  note tk = pool_take [OF k(1) sz this, folded b'_def sz'_def]
    and it = pool_inv_take [OF inv' k(1) sz, folded b'_def sz'_def]
  note cases = mem_reserve_cases [OF r, unfolded k(2), folded b'_def sz'_def]
  have fits: "unat b' + unat sz' \<le> 0x50000000" if "\<not> b' + sz' > SYS_MEM_ALLOC_END"
    using that tk(5) by (simp add: pool_fits)
  show "mem_inv s'"
  proof (cases rule: cases)
    case (3 i)
    note ok = 3(1,2,3,5)
    have "pool_inv (b' + sz') ((sm_allocs s)(i := \<lparr>al_active = True, al_addr = b', al_size = sz',
                  al_container_id = 0, al_page_size = 2 ^ k\<rparr>))"
      by (rule pool_inv_fill [OF inv'])
         (use ok(1) tk k fits [OF ok(2)] pool_mark_ge [of "sm_bump_ptr s"] inv' in
           \<open>auto simp: alloc_ok_def pool_inv_def unat_gt_0\<close>)
    then show ?thesis by (simp add: mem_inv_def ok(4))
  qed (use inv' it in \<open>simp_all add: mem_inv_def\<close>)
  show "pool_mark (sm_bump_ptr s) \<le> pool_mark (sm_bump_ptr s')"
    using it by (cases rule: cases) auto
  show "r = Inr (slot, a, n) \<Longrightarrow> pool_mark (sm_bump_ptr s) \<le> unat a \<and>
           unat a + unat n = pool_mark (sm_bump_ptr s')"
    using it by (cases rule: cases) auto
qed

text \<open>The other sections: releases keep the pointer, the mapper's calls keep the table.\<close>

lemma put_u32_simps [simp]:
  "sm_allocs (put_u32 out v s) = sm_allocs s" "sm_bump_ptr (put_u32 out v s) = sm_bump_ptr s"
  "sm_total_allocated (put_u32 out v s) = sm_total_allocated s" "sm_vm (put_u32 out v s) = sm_vm s"
  "sm_shared (put_u32 out v s) = sm_shared s" "sm_containers (put_u32 out v s) = sm_containers s"
  by (simp_all add: put_u32_def)

lemma mem_release_simps [simp]:
  "sm_bump_ptr (mem_release i s) = sm_bump_ptr s"
  "sm_allocs (mem_release i s) = (sm_allocs s)(i := (sm_allocs s i)\<lparr>al_active := False\<rparr>)"
  "sm_total_allocated (mem_release i s) = sm_total_allocated s"
  by (simp_all add: mem_release_def)

lemma mem_finish_inv:
  "mem_inv s \<Longrightarrow> mem_inv (snd (mem_finish pg ok ctx res s))"
  "sm_bump_ptr (snd (mem_finish pg ok ctx res s)) = sm_bump_ptr s"
  by (auto simp: mem_finish_def Let_def mem_inv_def case_prod_beta pool_inv_release)

lemma sys_memory_free_inv:
  "mem_inv s \<Longrightarrow> mem_inv (snd (sys_memory_free ctx s))"
  "sm_bump_ptr (snd (sys_memory_free ctx s)) = sm_bump_ptr s"
  by (auto simp: sys_memory_free_def Let_def mem_inv_def pool_inv_release split: option.splits)

lemma mapper_step:
  assumes "mem_inv s" and "k \<le> 28" and "unat sz \<le> 0xA0000000"
    and "F = (if b' + sz' > SYS_MEM_ALLOC_END then (lv2_ret CELL_ENOMEM, s\<lparr>sm_bump_ptr := b'\<rparr>)
              else (lv2_ret CELL_OK, s1))"
    and "sm_bump_ptr s1 = b' + sz'" "sm_allocs s1 = sm_allocs s"
    and "b' = bump_align (2 ^ k) (sm_bump_ptr s)" "sz' = VM_ALIGN_UP sz (2 ^ k)"
  shows "mem_inv (snd F)" and "pool_mark (sm_bump_ptr s) \<le> pool_mark (sm_bump_ptr (snd F))"
    and "taken (2 ^ k) sz s (fst F) = Some (a, n) \<Longrightarrow>
           pool_mark (sm_bump_ptr s) \<le> a \<and> a + n \<le> pool_mark (sm_bump_ptr (snd F))"
proof -
  note it = pool_inv_take [OF assms(1) [unfolded mem_inv_def] assms(2,3), folded assms(7,8)]
  show "mem_inv (snd F)" and "pool_mark (sm_bump_ptr s) \<le> pool_mark (sm_bump_ptr (snd F))"
    and "taken (2 ^ k) sz s (fst F) = Some (a, n) \<Longrightarrow>
           pool_mark (sm_bump_ptr s) \<le> a \<and> a + n \<le> pool_mark (sm_bump_ptr (snd F))"
    using it assms(4-6)
    by (auto simp: mem_inv_def taken_def assms(7,8) lv2_ret_def lv2_codes)
qed

text \<open>Both mapper calls in that form, and the sections that touch neither pointer nor table.\<close>

lemma allocate_address_form:
  obtains s1 where "sys_mmapper_allocate_address pg ok ctx s =
    (if bump_align (address_alignment ctx) (sm_bump_ptr s) +
        VM_ALIGN_UP (LV2_ARG_U32 ctx 0) (address_alignment ctx) > SYS_MEM_ALLOC_END
     then (lv2_ret CELL_ENOMEM, s\<lparr>sm_bump_ptr := bump_align (address_alignment ctx) (sm_bump_ptr s)\<rparr>)
     else (lv2_ret CELL_OK, s1))"
    "sm_bump_ptr s1 = bump_align (address_alignment ctx) (sm_bump_ptr s) +
        VM_ALIGN_UP (LV2_ARG_U32 ctx 0) (address_alignment ctx)"
    "sm_allocs s1 = sm_allocs s" "sm_total_allocated s1 = sm_total_allocated s"
    "LV2_ARG_PTR ctx 3 \<noteq> 0 \<Longrightarrow> read_be32 (sm_mem s1) (LV2_ARG_PTR ctx 3) =
        bump_align (address_alignment ctx) (sm_bump_ptr s)"
    "vm_ready (sm_vm s1) = vm_ready (sm_vm s)"
proof -
  let ?b = "bump_align (address_alignment ctx) (sm_bump_ptr s)"
  let ?sz = "VM_ALIGN_UP (LV2_ARG_U32 ctx 0) (address_alignment ctx)"
  show thesis
    by (intro that [of "put_u32 (LV2_ARG_PTR ctx 3) ?b (s\<lparr>sm_bump_ptr := ?b + ?sz,
          sm_vm := snd (vm_commit pg ok ?b ?sz (sm_vm s))\<rparr>)"])
       (simp_all add: sys_mmapper_allocate_address_def address_alignment_def Let_def case_prod_beta
         put_u32_def)
qed

lemma allocate_memory_form:
  assumes "LV2_ARG_U32 ctx 1 \<noteq> 0"
  obtains s1 where "sys_mmapper_allocate_memory pg ok ctx s =
    (if bump_align VM_PAGE_SIZE (sm_bump_ptr s) +
        VM_ALIGN_UP (LV2_ARG_U32 ctx 1) VM_PAGE_SIZE > SYS_MEM_ALLOC_END
     then (lv2_ret CELL_ENOMEM, s\<lparr>sm_bump_ptr := bump_align VM_PAGE_SIZE (sm_bump_ptr s)\<rparr>)
     else (lv2_ret CELL_OK, s1))"
    "sm_bump_ptr s1 = bump_align VM_PAGE_SIZE (sm_bump_ptr s) +
        VM_ALIGN_UP (LV2_ARG_U32 ctx 1) VM_PAGE_SIZE"
    "sm_allocs s1 = sm_allocs s" "sm_total_allocated s1 = sm_total_allocated s"
    "vm_ready (sm_vm s1) = vm_ready (sm_vm s)"
proof -
  let ?b = "bump_align VM_PAGE_SIZE (sm_bump_ptr s)"
  let ?sz = "VM_ALIGN_UP (LV2_ARG_U32 ctx 1) VM_PAGE_SIZE"
  show thesis
    using assms
    by (intro that [of "put_u32 (LV2_ARG_PTR ctx 0) ?b (s\<lparr>sm_bump_ptr := ?b + ?sz,
          sm_vm := snd (vm_commit pg ok ?b ?sz (sm_vm s))\<rparr>)"])
       (simp_all add: sys_mmapper_allocate_memory_def Let_def case_prod_beta)
qed

definition pool_part :: "sys_mem \<Rightarrow> u32 \<times> (nat \<Rightarrow> sys_mem_alloc_info) \<times> u32" where
  "pool_part s = (sm_bump_ptr s, sm_allocs s, sm_total_allocated s)"

lemma pool_part_frame:
  "pool_part (snd (sys_memory_get_user_memory_size ctx s)) = pool_part s"
  "pool_part (snd (sys_memory_get_page_attribute ctx s)) = pool_part s"
  "pool_part (snd (sys_memory_container_create ctx s)) = pool_part s"
  "pool_part (snd (sys_memory_container_destroy ctx s)) = pool_part s"
  "pool_part (snd (sys_memory_container_get_size ctx s)) = pool_part s"
  "pool_part (snd (sys_mmapper_free_address ctx s)) = pool_part s"
  "pool_part (snd (sys_mmapper_allocate_shared_memory ctx s)) = pool_part s"
  "pool_part (snd (sys_mmapper_allocate_memory_from_container ctx s)) = pool_part s"
  "pool_part (snd (sys_mmapper_map_shared_memory pg ok ctx s)) = pool_part s"
  by (simp_all add: pool_part_def sys_memory_get_user_memory_size_def
      sys_memory_get_page_attribute_def sys_memory_container_create_def
      sys_memory_container_destroy_def sys_memory_container_get_size_def
      sys_mmapper_free_address_def sys_mmapper_allocate_shared_memory_def
      sys_mmapper_allocate_memory_from_container_def sys_mmapper_map_shared_memory_def
      Let_def case_prod_beta split: option.split)

lemma pool_part_inv:
  "pool_part s' = pool_part s \<Longrightarrow> mem_inv s' = mem_inv s \<and> sm_bump_ptr s' = sm_bump_ptr s"
  by (simp add: pool_part_def mem_inv_def)

text \<open>One section: the invariant, the pointer and the range.\<close>

lemma mem_exec_step:
  assumes "request_ok sec" and inv: "mem_inv s"
  shows "mem_inv (snd (mem_exec pg ok sec s)) \<and>
         pool_mark (sm_bump_ptr s) \<le> pool_mark (sm_bump_ptr (snd (mem_exec pg ok sec s))) \<and>
         (\<forall>a n. fst (mem_exec pg ok sec s) = Some (a, n) \<longrightarrow>
            pool_mark (sm_bump_ptr s) \<le> a \<and> a + n \<le> pool_mark (sm_bump_ptr (snd (mem_exec pg ok sec s))))"
proof (cases sec)
  case (Reserve ctx)
  obtain r s' where r: "mem_reserve ctx s = (r, s')" by fastforce
  note st = mem_reserve_step [OF inv _ r]
  show ?thesis using st(1,2) st(3) assms(1) by (auto simp: Reserve r split: sum.splits)
next
  case (Allocate_address ctx)
  with assms(1) obtain k where k: "k \<le> 28" "address_alignment ctx = 2 ^ k"
    and sz: "unat (LV2_ARG_U32 ctx 0) \<le> 0xA0000000" by auto
  obtain s1 where f: "sys_mmapper_allocate_address pg ok ctx s =
    (if bump_align (2 ^ k) (sm_bump_ptr s) + VM_ALIGN_UP (LV2_ARG_U32 ctx 0) (2 ^ k) > SYS_MEM_ALLOC_END
     then (lv2_ret CELL_ENOMEM, s\<lparr>sm_bump_ptr := bump_align (2 ^ k) (sm_bump_ptr s)\<rparr>)
     else (lv2_ret CELL_OK, s1))"
    "sm_bump_ptr s1 = bump_align (2 ^ k) (sm_bump_ptr s) + VM_ALIGN_UP (LV2_ARG_U32 ctx 0) (2 ^ k)"
    "sm_allocs s1 = sm_allocs s"
    using allocate_address_form [of pg ok ctx s] unfolding k(2) by metis
  show ?thesis using mapper_step [OF inv k(1) sz f refl refl]
    by (auto simp: Allocate_address k(2) case_prod_beta)
next
  case (Allocate_memory ctx)
  with assms(1) have sz: "unat (LV2_ARG_U32 ctx 1) \<le> 0xA0000000" by simp
  show ?thesis
  proof (cases "LV2_ARG_U32 ctx 1 = 0")
    case True
    then show ?thesis using inv
      by (simp add: Allocate_memory sys_mmapper_allocate_memory_def taken_def lv2_codes lv2_ret_def)
  next
    case False
    then obtain s1 where f: "sys_mmapper_allocate_memory pg ok ctx s =
      (if bump_align (2 ^ 12) (sm_bump_ptr s) + VM_ALIGN_UP (LV2_ARG_U32 ctx 1) (2 ^ 12) > SYS_MEM_ALLOC_END
       then (lv2_ret CELL_ENOMEM, s\<lparr>sm_bump_ptr := bump_align (2 ^ 12) (sm_bump_ptr s)\<rparr>)
       else (lv2_ret CELL_OK, s1))"
      "sm_bump_ptr s1 = bump_align (2 ^ 12) (sm_bump_ptr s) + VM_ALIGN_UP (LV2_ARG_U32 ctx 1) (2 ^ 12)"
      "sm_allocs s1 = sm_allocs s"
      using allocate_memory_form [of ctx pg ok s] unfolding page_pow by metis
    show ?thesis using mapper_step [OF inv _ sz f refl refl]
      by (auto simp: Allocate_memory page_pow case_prod_beta)
  qed
qed (simp_all add: inv mem_finish_inv sys_memory_free_inv pool_part_frame [THEN pool_part_inv])

interpretation memory_pool: bump_window "0x40000000" "0x50000000" mem_inv
  "\<lambda>s. pool_mark (sm_bump_ptr s)" "mem_exec pg ok" request_ok
  for pg ok
proof (unfold_locales, goal_cases)
  case (1 s)
  then show ?case using pool_mark_ge by (simp add: mem_inv_def pool_inv_def)
qed (use mem_exec_step in blast)+

lemma mem_init_inv: "mem_inv (sys_memory_init v m)"
  by (simp add: mem_inv_def sys_memory_init_def pool_inv_def bump_ok_def alloc_ok_def alloc_zero_def)

section \<open>Ranges handed out\<close>


lemma pool_first [simp]: "find_slot (\<lambda>_. True) SYS_MEMORY_ALLOC_MAX = Some 0"
  by (simp add: SYS_MEMORY_ALLOC_MAX_def slot_simps)

lemma mem_alignment_simps [simp]:
  "mem_alignment 0x400 = 0x100000" "mem_alignment 0x200 = 0x10000" "mem_alignment 0 = 0x10000"
  by (simp_all add: mem_alignment_def SYS_MEMORY_PAGE_SIZE_1M_def)

lemma reserve_example:
  "mem_reserve (call_ctx 1 [0x12345, 0x400, 0x100]) (sys_memory_init v m) =
     (Inr (0, 0x40000000, 0x100000),
      (sys_memory_init v m)\<lparr>sm_bump_ptr := 0x40100000, sm_total_allocated := 0x100000,
        sm_allocs := (\<lambda>_. alloc_zero)(0 := \<lparr>al_active = True, al_addr = 0x40000000,
          al_size = 0x100000, al_container_id = 0, al_page_size = 0x100000\<rparr>)\<rparr>)"
proof -
  have e: "VM_ALIGN_UP 0x12345 0x100000 = 0x100000" "bump_align 0x100000 0 = 0x40000000"
    by (simp_all add: VM_ALIGN_UP_def bump_align_def SYS_MEM_ALLOC_BASE_def)
  show ?thesis
    by (simp add: mem_reserve_def Let_def e sys_memory_init_def alloc_zero_def SYS_MEM_ALLOC_END_def)
qed

definition mem_ex :: sys_mem where
  "mem_ex = snd (run_ops (mem_exec 0x1000 (\<lambda>_ _. True)) [Reserve (call_ctx 1 [0x12345, 0x400, 0x100])]
     (sys_memory_init vm_ex (\<lambda>_. 0)))"

lemma mem_ex_fields:
  "sm_bump_ptr mem_ex = 0x40100000" "sm_total_allocated mem_ex = 0x100000"
  "sm_allocs mem_ex 0 = \<lparr>al_active = True, al_addr = 0x40000000, al_size = 0x100000,
     al_container_id = 0, al_page_size = 0x100000\<rparr>"
  by (simp_all add: mem_ex_def reserve_example)

lemma pool_example:
  "fst (run_ops (mem_exec 0x1000 (\<lambda>_ _. True))
      [Reserve (call_ctx 1 [0x12345, 0x400, 0x100]), Allocate_memory (call_ctx 2 [0x200, 0x2001])]
      (sys_memory_init vm_ex (\<lambda>_. 0))) = [Some (0x40000000, 0x100000), Some (0x40100000, 0x3000)]"
proof -
  have e: "VM_ALIGN_UP 0x2001 VM_PAGE_SIZE = 0x3000" "bump_align VM_PAGE_SIZE 0x40100000 = 0x40100000"
    by (simp_all add: VM_ALIGN_UP_def bump_align_def VM_PAGE_SIZE_def)
  show ?thesis
    by (simp add: reserve_example sys_mmapper_allocate_memory_def Let_def e SYS_MEM_ALLOC_END_def
        taken_def case_prod_beta)
qed


section \<open>Page attributes and freeing\<close>

lemma live_alloc:
  assumes "mem_inv s" and "al_active (sm_allocs s i)"
  shows "unat (al_addr (sm_allocs s i) + al_size (sm_allocs s i)) =
         unat (al_addr (sm_allocs s i)) + unat (al_size (sm_allocs s i))"
    and "al_page_size (sm_allocs s i) \<in> {0x10000, 0x100000}" and "0 < unat (al_size (sm_allocs s i))"
    and "unat (al_page_size (sm_allocs s i)) dvd unat (al_addr (sm_allocs s i))"
  using assms unat_add_lem [of "al_addr (sm_allocs s i)" "al_size (sm_allocs s i)"]
  by (auto simp: mem_inv_def pool_inv_def alloc_ok_def dest!: spec [of _ i])

lemma live_unique:
  assumes "mem_inv s" and "al_active (sm_allocs s i)" "al_active (sm_allocs s j)"
    and "unat (al_addr (sm_allocs s i)) \<le> x" "x < unat (al_addr (sm_allocs s i)) + unat (al_size (sm_allocs s i))"
    and "unat (al_addr (sm_allocs s j)) \<le> x" "x < unat (al_addr (sm_allocs s j)) + unat (al_size (sm_allocs s j))"
  shows "i = j"
proof (rule ccontr)
  assume "i \<noteq> j"
  then have "apart (sm_allocs s i) (sm_allocs s j)"
    using assms(1-3) by (simp add: mem_inv_def pool_inv_def)
  then show False using assms(4-) by (auto simp: apart_def)
qed

lemma page_size_at_live:
  assumes inv: "mem_inv s" and i: "i < SYS_MEMORY_ALLOC_MAX" "al_active (sm_allocs s i)"
    and addr: "unat (al_addr (sm_allocs s i)) \<le> unat addr"
      "unat addr < unat (al_addr (sm_allocs s i)) + unat (al_size (sm_allocs s i))"
  shows "page_size_at (sm_allocs s) addr = al_page_size (sm_allocs s i)"
proof -
  have "find_slot (\<lambda>i. al_active (sm_allocs s i) \<and> addr \<ge> al_addr (sm_allocs s i) \<and>
          addr < al_addr (sm_allocs s i) + al_size (sm_allocs s i)) SYS_MEMORY_ALLOC_MAX = Some i"
  proof (rule find_slot_unique [OF i(1)])
    fix j
    assume "al_active (sm_allocs s j) \<and> addr \<ge> al_addr (sm_allocs s j) \<and>
      addr < al_addr (sm_allocs s j) + al_size (sm_allocs s j)"
    then show "j = i"
      using live_unique [OF inv _ i(2) _ _ addr] live_alloc(1) [OF inv, of j]
      by (simp add: word_le_nat_alt word_less_nat_alt)
  qed (use i addr live_alloc(1) [OF inv i(2)] in \<open>simp add: word_le_nat_alt word_less_nat_alt\<close>)
  then show ?thesis using live_alloc(2) [OF inv i(2)] by (auto simp: page_size_at_def)
qed

lemma unat_off:
  "unat (a :: u32) + n \<le> 2 ^ 32 \<Longrightarrow> k < n \<Longrightarrow> unat (a + of_nat k) = unat a + k"
  by (simp add: unat_word_ariths unat_of_nat take_bit_nat_eq_self)

text \<open>
  The page attribute of an address is that of its allocation: after any interleaving of
  memory system calls within the contract's bounds, a query for an address inside a live
  allocation stores the page size the allocation was made with, 64 KB or 1 MB, and the
  allocation's base is a multiple of it.
\<close>

theorem page_attribute_exact:
  assumes "\<forall>sec \<in> set secs. request_ok sec"
    and "s = snd (run_ops (mem_exec pg ok) secs (sys_memory_init v m))"
    and "i < SYS_MEMORY_ALLOC_MAX" "al_active (sm_allocs s i)"
    and "unat (al_addr (sm_allocs s i)) \<le> unat (LV2_ARG_U32 ctx 0)"
    and "unat (LV2_ARG_U32 ctx 0) < unat (al_addr (sm_allocs s i)) + unat (al_size (sm_allocs s i))"
    and "LV2_ARG_PTR ctx 1 \<noteq> 0" "unat (LV2_ARG_PTR ctx 1) + 0x18 \<le> 2 ^ 32"
  shows "read_be32 (sm_mem (snd (sys_memory_get_page_attribute ctx s))) (LV2_ARG_PTR ctx 1 + 0x10) =
           al_page_size (sm_allocs s i) \<and>
         al_page_size (sm_allocs s i) \<in> {0x10000, 0x100000} \<and>
         unat (al_page_size (sm_allocs s i)) dvd unat (al_addr (sm_allocs s i))"
proof -
  have inv: "mem_inv s" unfolding assms(2) by (rule memory_pool.run_inv [OF assms(1) mem_init_inv])
  have "unat (LV2_ARG_PTR ctx 1 + 0x14) = unat (LV2_ARG_PTR ctx 1) + 0x14"
    "unat (LV2_ARG_PTR ctx 1 + 0x10) = unat (LV2_ARG_PTR ctx 1) + 0x10"
    using unat_off [OF assms(8), of "0x14"] unat_off [OF assms(8), of "0x10"] by simp_all
  then show ?thesis
    using assms(7) page_size_at_live [OF inv assms(3-6)] live_alloc(2,4) [OF inv assms(4)]
    by (simp add: sys_memory_get_page_attribute_def Let_def read_write_be32_other)
qed

theorem page_attribute_exact_witness:
  "read_be32 (sm_mem (snd (sys_memory_get_page_attribute (call_ctx 1 [0x40012345, 0x100]) mem_ex))) 0x110
     = 0x100000"
  using page_attribute_exact [of "[Reserve (call_ctx 1 [0x12345, 0x400, 0x100])]" mem_ex "0x1000"
      "\<lambda>_ _. True" vm_ex "\<lambda>_. 0" 0 "call_ctx 1 [0x40012345, 0x100]", OF _ mem_ex_def]
  by (simp add: mem_ex_fields SYS_MEMORY_ALLOC_MAX_def)

text \<open>Freeing the allocation of a slot, and what a successful allocation leaves.\<close>

lemma free_live:
  assumes inv: "mem_inv s" and i: "i < SYS_MEMORY_ALLOC_MAX" "al_active (sm_allocs s i)"
    and q: "LV2_ARG_U32 q 0 = al_addr (sm_allocs s i)"
  defines "s' \<equiv> mem_release i (s\<lparr>sm_total_allocated := sm_total_allocated s - al_size (sm_allocs s i)\<rparr>)"
  shows "sys_memory_free q s = (lv2_ret CELL_OK, s')"
    and "fst (sys_memory_free q s') = lv2_ret CELL_EINVAL"
proof -
  have uniq: "j = i" if "al_active (sm_allocs s j)" "al_addr (sm_allocs s j) = LV2_ARG_U32 q 0" for j
    using live_unique [OF inv that(1) i(2), of "unat (al_addr (sm_allocs s i))"]
      live_alloc(3) [OF inv that(1)] live_alloc(3) [OF inv i(2)] that(2) q by simp
  have "find_slot (\<lambda>i. al_active (sm_allocs s i) \<and> al_addr (sm_allocs s i) = LV2_ARG_U32 q 0)
          SYS_MEMORY_ALLOC_MAX = Some i"
  proof (rule find_slot_unique)
    show "i < SYS_MEMORY_ALLOC_MAX" by (rule i(1))
    show "al_active (sm_allocs s i) \<and> al_addr (sm_allocs s i) = LV2_ARG_U32 q 0" using i(2) q by simp
  qed (elim conjE, rule uniq)
  then show "sys_memory_free q s = (lv2_ret CELL_OK, s')" by (simp add: sys_memory_free_def s'_def)
  have "find_slot (\<lambda>j. al_active (sm_allocs s' j) \<and> al_addr (sm_allocs s' j) = LV2_ARG_U32 q 0)
          SYS_MEMORY_ALLOC_MAX = None"
    unfolding find_slot_None
  proof (intro allI impI)
    fix j
    show "\<not> (al_active (sm_allocs s' j) \<and> al_addr (sm_allocs s' j) = LV2_ARG_U32 q 0)"
      by (cases "j = i") (use uniq [of j] in \<open>auto simp: s'_def\<close>)
  qed
  then show "fst (sys_memory_free q s') = lv2_ret CELL_EINVAL" by (simp add: sys_memory_free_def)
qed

lemma allocate_ok:
  assumes inv: "mem_inv s" and sz: "unat (LV2_ARG_U32 ctx 0) \<le> 0xA0000000"
    and "LV2_ARG_PTR ctx 2 \<noteq> 0" and r: "sys_memory_allocate pg ok ctx s = (lv2_ret CELL_OK, s1)"
  obtains i where "i < SYS_MEMORY_ALLOC_MAX" "\<not> al_active (sm_allocs s i)" "mem_inv s1"
    "al_active (sm_allocs s1 i)" "al_addr (sm_allocs s1 i) = read_be32 (sm_mem s1) (LV2_ARG_PTR ctx 2)"
    "sm_allocs s1 = (sm_allocs s)(i := sm_allocs s1 i)"
    "sm_total_allocated s1 = sm_total_allocated s + al_size (sm_allocs s1 i)"
proof -
  obtain x s' where x: "mem_reserve ctx s = (x, s')" by fastforce
  have inv': "mem_inv s'" by (rule mem_reserve_step(1) [OF inv sz x])
  show thesis
  proof (cases rule: mem_reserve_cases [OF x])
    case (3 i)
    let ?b = "bump_align (mem_alignment (LV2_ARG_U32 ctx 1)) (sm_bump_ptr s)"
    let ?sz = "VM_ALIGN_UP (LV2_ARG_U32 ctx 0) (mem_alignment (LV2_ARG_U32 ctx 1))"
    have f: "mem_finish pg ok ctx (i, ?b, ?sz) s' = (lv2_ret CELL_OK, s1)"
      using r 3(3) x by (simp add: sys_memory_allocate_def)
    then have s1: "\<exists>v. s1 = put_u32 (LV2_ARG_PTR ctx 2) ?b (s'\<lparr>sm_vm := v\<rparr>)"
      by (auto simp: mem_finish_def Let_def case_prod_beta lv2_ret_def lv2_codes split: if_splits)
    then have "mem_inv s1" using mem_finish_inv(1) [OF inv', of pg ok ctx "(i, ?b, ?sz)"] f by simp
    with s1 3 assms(3) show thesis
      by (intro that [of i]) (auto simp: put_u32_def)
  qed (use r x in \<open>simp_all add: sys_memory_allocate_def lv2_ret_def lv2_codes\<close>)
qed

text \<open>
  C35. Allocate and free are inverse: in any state the calls reach, the address a successful
  \<open>sys_memory_allocate\<close> stores can be freed; the free answers CELL_OK, restores the total
  and the set of live slots, and a second free of the same address answers EINVAL.
\<close>

theorem allocate_free_roundtrip:
  assumes "\<forall>sec \<in> set secs. request_ok sec"
    and "s = snd (run_ops (mem_exec pg ok) secs (sys_memory_init v m))"
    and "unat (LV2_ARG_U32 ctx 0) \<le> 0xA0000000" and "LV2_ARG_PTR ctx 2 \<noteq> 0"
    and "sys_memory_allocate pg ok ctx s = (lv2_ret CELL_OK, s1)"
    and "LV2_ARG_U32 q 0 = read_be32 (sm_mem s1) (LV2_ARG_PTR ctx 2)"
    and "sys_memory_free q s1 = (r, s2)"
  shows "r = lv2_ret CELL_OK \<and> sm_total_allocated s2 = sm_total_allocated s \<and>
         (\<forall>i. al_active (sm_allocs s2 i) = al_active (sm_allocs s i)) \<and>
         fst (sys_memory_free q s2) = lv2_ret CELL_EINVAL"
proof -
  have inv: "mem_inv s" unfolding assms(2) by (rule memory_pool.run_inv [OF assms(1) mem_init_inv])
  obtain i where i: "i < SYS_MEMORY_ALLOC_MAX" "\<not> al_active (sm_allocs s i)" "mem_inv s1"
    "al_active (sm_allocs s1 i)" "al_addr (sm_allocs s1 i) = read_be32 (sm_mem s1) (LV2_ARG_PTR ctx 2)"
    "sm_allocs s1 = (sm_allocs s)(i := sm_allocs s1 i)"
    "sm_total_allocated s1 = sm_total_allocated s + al_size (sm_allocs s1 i)"
    using allocate_ok [OF inv assms(3-5)] by blast
  note fr = free_live [OF i(3,1,4), of q]
  have s2: "r = lv2_ret CELL_OK" "s2 = mem_release i (s1\<lparr>sm_total_allocated :=
      sm_total_allocated s1 - al_size (sm_allocs s1 i)\<rparr>)"
    using fr(1) assms(6,7) i(5) by simp_all
  have "al_active (sm_allocs s2 j) = al_active (sm_allocs s j)" for j
    using i(2) fun_cong [OF i(6), of j] by (cases "j = i") (simp_all add: s2(2))
  then show ?thesis using s2 fr(2) assms(6) i(5,7) by simp
qed

lemma allocate_example:
  "sys_memory_allocate 0x1000 (\<lambda>_ _. True) (call_ctx 1 [0x12345, 0x400, 0x100]) (sys_memory_init vm_ex m) =
     (lv2_ret CELL_OK, put_u32 0x100 0x40000000
       ((sys_memory_init vm_ex m)\<lparr>sm_bump_ptr := 0x40100000, sm_total_allocated := 0x100000,
        sm_allocs := (\<lambda>_. alloc_zero)(0 := \<lparr>al_active = True, al_addr = 0x40000000,
          al_size = 0x100000, al_container_id = 0, al_page_size = 0x100000\<rparr>),
        sm_vm := snd (vm_commit 0x1000 (\<lambda>_ _. True) 0x40000000 0x100000 vm_ex)\<rparr>))"
proof -
  have "fst (vm_commit 0x1000 (\<lambda>_ _. True) 0x40000000 0x100000 vm_ex) = CELL_OK"
    by (simp add: vm_commit_def vm_ex_def vm__mprotect_pages_def mprotect_def Let_def)
  then show ?thesis
    by (simp add: sys_memory_allocate_def reserve_example mem_finish_def Let_def case_prod_beta)
qed

theorem allocate_free_roundtrip_witness:
  "(let s = sys_memory_init vm_ex (\<lambda>_. 0);
        (r1, s1) = sys_memory_allocate 0x1000 (\<lambda>_ _. True) (call_ctx 1 [0x12345, 0x400, 0x100]) s;
        (r2, s2) = sys_memory_free (call_ctx 1 [0x40000000]) s1;
        (r3, s3) = sys_memory_free (call_ctx 1 [0x40000000]) s2
    in r1 = lv2_ret CELL_OK \<and> r2 = lv2_ret CELL_OK \<and> sm_total_allocated s2 = 0 \<and>
       r3 = lv2_ret CELL_EINVAL)"
proof -
  let ?s = "sys_memory_init vm_ex (\<lambda>_. 0)" and ?q = "call_ctx 1 [0x40000000]"
    and ?c = "call_ctx 1 [0x12345, 0x400, 0x100]"
  define s1 where "s1 = snd (sys_memory_allocate 0x1000 (\<lambda>_ _. True) ?c ?s)"
  have s1: "sys_memory_allocate 0x1000 (\<lambda>_ _. True) ?c ?s = (lv2_ret CELL_OK, s1)"
    "read_be32 (sm_mem s1) 0x100 = 0x40000000"
    unfolding s1_def allocate_example by (simp_all add: put_u32_def)
  obtain r s2 where s2: "sys_memory_free ?q s1 = (r, s2)" by fastforce
  have "r = lv2_ret CELL_OK \<and> sm_total_allocated s2 = sm_total_allocated ?s \<and>
        (\<forall>i. al_active (sm_allocs s2 i) = al_active (sm_allocs ?s i)) \<and>
        fst (sys_memory_free ?q s2) = lv2_ret CELL_EINVAL"
    using s1 by (intro allocate_free_roundtrip [of "[]" ?s _ _ vm_ex "\<lambda>_. 0", OF _ _ _ _ s1(1) _ s2]) simp_all
  then show ?thesis by (simp add: s1(1) s2 case_prod_beta)
qed

section \<open>The books\<close>

text \<open>The bytes of the live allocations, in 32 bits.\<close>

definition live_total :: "(nat \<Rightarrow> sys_mem_alloc_info) \<Rightarrow> u32" where
  "live_total t = (\<Sum>i<SYS_MEMORY_ALLOC_MAX. if al_active (t i) then al_size (t i) else 0)"

definition books :: "sys_mem \<Rightarrow> bool" where
  "books s \<longleftrightarrow> vm_ready (sm_vm s) \<and> sm_total_allocated s = live_total (sm_allocs s)"

lemma live_total_update:
  assumes "i < SYS_MEMORY_ALLOC_MAX"
  shows "live_total (t(i := a)) = live_total t - (if al_active (t i) then al_size (t i) else 0)
           + (if al_active a then al_size a else 0)"
proof -
  have "(\<Sum>j\<in>{..<SYS_MEMORY_ALLOC_MAX} - {i}. if al_active ((t(i := a)) j) then al_size ((t(i := a)) j) else 0)
      = (\<Sum>j\<in>{..<SYS_MEMORY_ALLOC_MAX} - {i}. if al_active (t j) then al_size (t j) else 0)"
    by (rule sum.cong) auto
  moreover have "i \<in> {..<SYS_MEMORY_ALLOC_MAX}" "finite {..<SYS_MEMORY_ALLOC_MAX}" using assms by simp_all
  ultimately show ?thesis
    unfolding live_total_def by (simp only: sum.remove [of "{..<SYS_MEMORY_ALLOC_MAX}" i]) simp
qed

lemma books_reserve: "books s \<Longrightarrow> mem_reserve ctx s = (r, s') \<Longrightarrow> books s'"
proof -
  assume b: "books s" and r: "mem_reserve ctx s = (r, s')"
  show "books s'"
  proof (cases rule: mem_reserve_cases [OF r])
    case (3 i)
    then show ?thesis
      using b find_slot_SomeD [OF 3(4)] by (simp add: books_def live_total_update)
  qed (use b in \<open>simp_all add: books_def\<close>)
qed

lemma books_finish: "books s \<Longrightarrow> books (snd (mem_finish pg (\<lambda>_ _. True) ctx res s))"
  by (simp add: mem_finish_def Let_def case_prod_beta books_def vm_commit_accepted)

lemma books_free: "books s \<Longrightarrow> books (snd (sys_memory_free ctx s))"
proof (cases "find_slot (\<lambda>i. al_active (sm_allocs s i) \<and> al_addr (sm_allocs s i) = LV2_ARG_U32 ctx 0)
    SYS_MEMORY_ALLOC_MAX")
  case (Some i)
  assume "books s"
  with Some find_slot_SomeD [OF Some] show ?thesis
    by (simp add: sys_memory_free_def books_def live_total_update mem_release_def)
qed (simp add: sys_memory_free_def)

lemma vm_ready_frame:
  "vm_ready (sm_vm (snd (sys_memory_get_user_memory_size ctx s))) = vm_ready (sm_vm s)"
  "vm_ready (sm_vm (snd (sys_memory_get_page_attribute ctx s))) = vm_ready (sm_vm s)"
  "vm_ready (sm_vm (snd (sys_memory_container_create ctx s))) = vm_ready (sm_vm s)"
  "vm_ready (sm_vm (snd (sys_memory_container_destroy ctx s))) = vm_ready (sm_vm s)"
  "vm_ready (sm_vm (snd (sys_memory_container_get_size ctx s))) = vm_ready (sm_vm s)"
  "vm_ready (sm_vm (snd (sys_mmapper_free_address ctx s))) = vm_ready (sm_vm s)"
  "vm_ready (sm_vm (snd (sys_mmapper_allocate_shared_memory ctx s))) = vm_ready (sm_vm s)"
  "vm_ready (sm_vm (snd (sys_mmapper_allocate_memory_from_container ctx s))) = vm_ready (sm_vm s)"
  "vm_ready (sm_vm (snd (sys_mmapper_map_shared_memory pg ok ctx s))) = vm_ready (sm_vm s)"
  by (simp_all add: sys_memory_get_user_memory_size_def
      sys_memory_get_page_attribute_def sys_memory_container_create_def
      sys_memory_container_destroy_def sys_memory_container_get_size_def
      sys_mmapper_free_address_def sys_mmapper_allocate_shared_memory_def
      sys_mmapper_allocate_memory_from_container_def sys_mmapper_map_shared_memory_def
      Let_def case_prod_beta split: option.split)

lemma books_frame:
  "pool_part s' = pool_part s \<Longrightarrow> vm_ready (sm_vm s') = vm_ready (sm_vm s) \<Longrightarrow> books s \<Longrightarrow> books s'"
  by (simp add: pool_part_def books_def)

lemma books_mapper:
  "books s \<Longrightarrow> books (snd (sys_mmapper_allocate_address pg ok ctx s))"
  "books s \<Longrightarrow> books (snd (sys_mmapper_allocate_memory pg ok ctx s))"
  by (simp_all add: books_def sys_mmapper_allocate_address_def sys_mmapper_allocate_memory_def
      Let_def case_prod_beta)

lemma books_exec: "books s \<Longrightarrow> books (snd (mem_exec pg (\<lambda>_ _. True) sec s))"
proof (cases sec)
  case (Reserve ctx)
  assume "books s"
  then show ?thesis using books_reserve [of s ctx]
    by (auto simp: Reserve split: prod.splits sum.splits)
qed (simp_all add: books_finish books_free books_mapper case_prod_beta
      books_frame [OF pool_part_frame(1) vm_ready_frame(1)] books_frame [OF pool_part_frame(2) vm_ready_frame(2)]
      books_frame [OF pool_part_frame(3) vm_ready_frame(3)] books_frame [OF pool_part_frame(4) vm_ready_frame(4)]
      books_frame [OF pool_part_frame(5) vm_ready_frame(5)] books_frame [OF pool_part_frame(6) vm_ready_frame(6)]
      books_frame [OF pool_part_frame(7) vm_ready_frame(7)] books_frame [OF pool_part_frame(8) vm_ready_frame(8)]
      books_frame [OF pool_part_frame(9) vm_ready_frame(9)])

text \<open>
  C36. The reported sizes add up: on a host that grants every commit, after any interleaving of
  memory system calls, \<open>sys_memory_get_user_memory_size\<close> stores 213 MB and, in the next
  word, 213 MB less the sizes of the live allocations, in 32-bit arithmetic.
\<close>

theorem user_memory_books:
  assumes "vm_ready v"
    and "s = snd (run_ops (mem_exec pg (\<lambda>_ _. True)) secs (sys_memory_init v m))"
    and "LV2_ARG_PTR ctx 0 \<noteq> 0" "unat (LV2_ARG_PTR ctx 0) + 8 \<le> 2 ^ 32"
  shows "(let m' = sm_mem (snd (sys_memory_get_user_memory_size ctx s)) in
          read_be32 m' (LV2_ARG_PTR ctx 0) = 213 * 1024 * 1024 \<and>
          read_be32 m' (LV2_ARG_PTR ctx 0 + 4) = 213 * 1024 * 1024 -
            (\<Sum>i<SYS_MEMORY_ALLOC_MAX. if al_active (sm_allocs s i) then al_size (sm_allocs s i) else 0))"
proof -
  have "books (sys_memory_init v m)"
    using assms(1) by (simp add: books_def live_total_def alloc_zero_def)
  then have "books s"
    unfolding assms(2)
    by (intro run_ops_invariant [of "\<lambda>_. True" books]) (simp_all add: books_exec)
  then have t: "sm_total_allocated s =
      (\<Sum>i<SYS_MEMORY_ALLOC_MAX. if al_active (sm_allocs s i) then al_size (sm_allocs s i) else 0)"
    by (simp add: books_def live_total_def)
  have "unat (LV2_ARG_PTR ctx 0 + 4) = unat (LV2_ARG_PTR ctx 0) + 4"
    using unat_off [OF assms(4), of 4] by simp
  then show ?thesis
    using assms(3) unfolding Let_def t [symmetric]
    by (simp add: sys_memory_get_user_memory_size_def SYS_MEM_USER_TOTAL_def Let_def
        read_write_be32_other)
qed

lemma mem_ex_live: "live_total (sm_allocs mem_ex) = 0x100000"
proof -
  have "sm_allocs mem_ex = (\<lambda>_. alloc_zero)(0 := sm_allocs mem_ex 0)"
    by (simp add: mem_ex_def reserve_example)
  then have "live_total (sm_allocs mem_ex) = live_total ((\<lambda>_. alloc_zero)(0 := sm_allocs mem_ex 0))"
    by (rule arg_cong)
  also have "\<dots> = live_total (\<lambda>_. alloc_zero) + 0x100000"
    by (subst live_total_update) (simp_all add: mem_ex_fields SYS_MEMORY_ALLOC_MAX_def alloc_zero_def)
  finally show ?thesis by (simp add: live_total_def alloc_zero_def)
qed

theorem user_memory_books_witness:
  "read_be32 (sm_mem (snd (sys_memory_get_user_memory_size (call_ctx 1 [0x100]) mem_ex))) 0x104
     = 212 * 1024 * 1024"
  using user_memory_books [of vm_ex mem_ex "0x1000" "[Reserve (call_ctx 1 [0x12345, 0x400, 0x100])]"
      "\<lambda>_. 0" "call_ctx 1 [0x100]", OF _ mem_ex_def, folded live_total_def, unfolded mem_ex_live Let_def]
  by (simp add: vm_ex_def)

section \<open>Containers and shared memory\<close>

lemma container_create_ok:
  assumes "find_slot (\<lambda>i. \<not> ct_active (sm_containers s i)) SYS_MEMORY_CONTAINER_MAX = Some i"
  shows "sys_memory_container_create ctx s =
     (lv2_ret CELL_OK, put_u32 (LV2_ARG_PTR ctx 0) (of_nat (i + 1))
        (s\<lparr>sm_containers := (sm_containers s)(i := \<lparr>ct_active = True,
             ct_total_size = LV2_ARG_U32 ctx 1, ct_used_size = 0\<rparr>)\<rparr>))"
  by (simp add: sys_memory_container_create_def assms Let_def)

interpretation containers: slot_array SYS_MEMORY_CONTAINER_MAX ct_active sm_containers
  "\<lambda>ctx s. snd (sys_memory_container_create ctx s)"
  "\<lambda>h s. snd (sys_memory_container_destroy (call_ctx 1 [of_nat h]) s)"
  "\<lambda>_. True"
  "\<lambda>h s. 1 \<le> h \<and> h \<le> SYS_MEMORY_CONTAINER_MAX \<and> ct_active (sm_containers s (h - 1))"
proof (unfold_locales, goal_cases)
  case (1 ctx s i)
  then show ?case 
    by (intro exI [of _ "\<lparr>ct_active = True, ct_total_size = LV2_ARG_U32 ctx 1, ct_used_size = 0\<rparr>"])
       (simp add: container_create_ok)
next
  case (2 s ctx)
  then show ?case by (simp add: sys_memory_container_create_def Let_def)
next
  case (3 h s)
  then have "unat (ucast (of_nat h :: u64) :: u32) = h"
    using handle_ctx [of h 16] by (simp add: SYS_MEMORY_CONTAINER_MAX_def)
  with 3 show ?case
    by (auto simp: sys_memory_container_destroy_def Let_def
        intro!: exI [of _ "(sm_containers s (h - 1))\<lparr>ct_active := False\<rparr>"])
qed

lemma containers_full:
  fixes s :: sys_mem
  shows "slot_next SYS_MEMORY_CONTAINER_MAX ct_active (sm_containers s) = None \<longleftrightarrow>
   card {h. slot_live SYS_MEMORY_CONTAINER_MAX ct_active (sm_containers s) h} = 16"
  using containers.ht.next_None_iff [of s, unfolded containers.ht.live_set_def]
  by (simp only: SYS_MEMORY_CONTAINER_MAX_def)

text \<open>
  C31. A container reports what it was created with: a creation with an output address fails
  exactly when all 16 containers exist; otherwise the id it stores makes
  \<open>sys_memory_container_get_size\<close> store the size asked for and zero used bytes.
\<close>

theorem container_create_get_size:
  assumes "LV2_ARG_PTR ctx 0 \<noteq> 0" and "sys_memory_container_create ctx s = (r, s1)"
    and "LV2_ARG_U32 q 0 = read_be32 (sm_mem s1) (LV2_ARG_PTR ctx 0)"
    and "LV2_ARG_PTR q 1 \<noteq> 0" "unat (LV2_ARG_PTR q 1) + 8 \<le> 2 ^ 32"
    and "sys_memory_container_get_size q s1 = (r', s2)"
  shows "(r = lv2_ret CELL_EAGAIN \<longleftrightarrow>
            card {h. slot_live SYS_MEMORY_CONTAINER_MAX ct_active (sm_containers s) h} = 16) \<and>
         (r \<noteq> lv2_ret CELL_EAGAIN \<longrightarrow> r' = lv2_ret CELL_OK \<and>
            read_be32 (sm_mem s2) (LV2_ARG_PTR q 1) = LV2_ARG_U32 ctx 1 \<and>
            read_be32 (sm_mem s2) (LV2_ARG_PTR q 1 + 4) = 0)"
proof (cases "find_slot (\<lambda>i. \<not> ct_active (sm_containers s i)) SYS_MEMORY_CONTAINER_MAX")
  case None
  then have "card {h. slot_live SYS_MEMORY_CONTAINER_MAX ct_active (sm_containers s) h} = 16"
    using containers_full [of s] by (simp add: slot_next_def)
  moreover have "r = lv2_ret CELL_EAGAIN"
    using assms(2) None by (simp add: sys_memory_container_create_def Let_def)
  ultimately show ?thesis by simp
next
  case (Some i)
  then have lt: "i < 16" by (auto simp: SYS_MEMORY_CONTAINER_MAX_def dest: find_slot_SomeD)
  have full: "card {h. slot_live SYS_MEMORY_CONTAINER_MAX ct_active (sm_containers s) h} \<noteq> 16"
    using containers_full [of s] Some by (simp add: slot_next_def)
  have r: "r = lv2_ret CELL_OK" "r \<noteq> lv2_ret CELL_EAGAIN"
    using assms(2) container_create_ok [OF Some, of ctx] by (simp_all add: lv2_ret_def lv2_codes)
  have c: "sm_containers s1 i = \<lparr>ct_active = True, ct_total_size = LV2_ARG_U32 ctx 1, ct_used_size = 0\<rparr>"
    and id: "read_be32 (sm_mem s1) (LV2_ARG_PTR ctx 0) = of_nat (i + 1)"
    using assms(1,2) container_create_ok [OF Some, of ctx] by (auto simp: put_u32_def)
  have "unat (LV2_ARG_U32 q 0) = i + 1"
    using lt unfolding assms(3) id by (simp add: unat_of_nat take_bit_nat_eq_self del: of_nat_Suc of_nat_add)
  moreover have "unat (LV2_ARG_PTR q 1 + 4) = unat (LV2_ARG_PTR q 1) + 4"
    using unat_off [OF assms(5), of 4] by simp
  ultimately show ?thesis
    using assms(4,6) c lt full r
    by (auto simp: sys_memory_container_get_size_def SYS_MEMORY_CONTAINER_MAX_def Let_def
        read_write_be32_other)
qed

theorem container_create_get_size_witness:
  "(let (r, s1) = sys_memory_container_create (call_ctx 1 [0x100, 0x500000]) (sys_memory_init vm_ex (\<lambda>_. 0));
        (r', s2) = sys_memory_container_get_size (call_ctx 1 [1, 0x200]) s1
    in r' = lv2_ret CELL_OK \<and> read_be32 (sm_mem s2) 0x200 = 0x500000)"
proof -
  let ?s = "sys_memory_init vm_ex (\<lambda>_. 0)"
  have f: "find_slot (\<lambda>i. \<not> ct_active (sm_containers ?s i)) SYS_MEMORY_CONTAINER_MAX = Some 0"
    by (simp add: sys_memory_init_def container_zero_def SYS_MEMORY_CONTAINER_MAX_def slot_simps)
  define s1 where "s1 = snd (sys_memory_container_create (call_ctx 1 [0x100, 0x500000]) ?s)"
  have c: "sys_memory_container_create (call_ctx 1 [0x100, 0x500000]) ?s = (lv2_ret CELL_OK, s1)"
    unfolding s1_def container_create_ok [OF f] by simp
  have "read_be32 (sm_mem s1) 0x100 = 1"
    unfolding s1_def container_create_ok [OF f] by (simp add: put_u32_def)
  moreover obtain r' s2 where g: "sys_memory_container_get_size (call_ctx 1 [1, 0x200]) s1 = (r', s2)"
    by fastforce
  ultimately show ?thesis
    using container_create_get_size [OF _ c _ _ _ g] by (simp add: c g lv2_codes lv2_ret_def)
qed

lemma map_shared_success:
  assumes r: "sys_mmapper_map_shared_memory pg ok ctx s = (lv2_ret CELL_OK, s')"
    and j: "unat (LV2_ARG_U32 ctx 1) - 1 = j"
  obtains v where "1 \<le> unat (LV2_ARG_U32 ctx 1)" "unat (LV2_ARG_U32 ctx 1) \<le> 64"
    "vm_commit pg ok (LV2_ARG_U32 ctx 0) (shm_size (sm_shared s j)) (sm_vm s) = (CELL_OK, v)"
    "s' = s\<lparr>sm_vm := v, sm_shared := (sm_shared s)(j := (sm_shared s j)\<lparr>shm_addr := LV2_ARG_U32 ctx 0\<rparr>),
        sm_mem := clear_bytes (sm_mem s) (vm_to_host (LV2_ARG_U32 ctx 0)) (unat (shm_size (sm_shared s j)))\<rparr>"
proof (rule guarded_cases [OF sys_mmapper_map_shared_memory_def [of pg ok ctx s, unfolded Let_def j]])
  assume "sys_mmapper_map_shared_memory pg ok ctx s = (lv2_ret CELL_ESRCH, s)"
  then show thesis using r by (simp add: lv2_codes)
next
  fix rc v
  assume a: "\<not> (unat (LV2_ARG_U32 ctx 1) = 0 \<or> SYS_MMAPPER_SHARED_MAX < unat (LV2_ARG_U32 ctx 1))"
    "vm_commit pg ok (LV2_ARG_U32 ctx 0) (shm_size (sm_shared s j)) (sm_vm s) = (rc, v)"
    and f: "sys_mmapper_map_shared_memory pg ok ctx s =
      (if rc \<noteq> CELL_OK then (lv2_ret rc, s\<lparr>sm_vm := v\<rparr>)
       else (lv2_ret CELL_OK, s\<lparr>sm_vm := v, sm_shared := (sm_shared (s\<lparr>sm_vm := v\<rparr>))
           (j := (sm_shared s j)\<lparr>shm_addr := LV2_ARG_U32 ctx 0\<rparr>),
         sm_mem := clear_bytes (sm_mem (s\<lparr>sm_vm := v\<rparr>)) (vm_to_host (LV2_ARG_U32 ctx 0))
           (unat (shm_size (sm_shared s j)))\<rparr>))"
  have rc: "rc = CELL_OK" using f r by (cases "rc = CELL_OK") simp_all
  show thesis
    by (rule that [of v]) (use a f r rc in \<open>simp_all add: SYS_MMAPPER_SHARED_MAX_def\<close>)
qed

text \<open>
  Mapping a shared memory object: when it succeeds, every byte of the object's range is
  readable and writable and reads as zero, no other byte of guest memory has changed, and the
  object records the address.
\<close>

theorem map_shared_memory_zeroed:
  assumes "12 \<le> k" "k \<le> 16" and "LV2_ARG_U32 ctx 1 = h"
    and "unat (shm_size (sm_shared s (unat h - 1))) + 4096 \<le> 2 ^ 32"
    and "sys_mmapper_map_shared_memory (2 ^ k) ok ctx s = (lv2_ret CELL_OK, s')"
  shows "let a = unat (LV2_ARG_U32 ctx 0); n = unat (shm_size (sm_shared s (unat h - 1))) in
           1 \<le> unat h \<and> unat h \<le> 64 \<and> shm_addr (sm_shared s' (unat h - 1)) = LV2_ARG_U32 ctx 0 \<and>
           (\<forall>i. a \<le> i \<and> i < a + n \<longrightarrow> sm_mem s' i = 0 \<and>
              vm_prot (sm_vm s') i = \<lparr>p_read = True, p_write = True, p_exec = False\<rparr>) \<and>
           (\<forall>i. i < a \<or> a + n \<le> i \<longrightarrow> sm_mem s' i = sm_mem s i)"
proof -
  obtain j where j: "unat h - 1 = j" by simp
  obtain v where c: "1 \<le> unat h" "unat h \<le> 64"
    "vm_commit (2 ^ k) ok (LV2_ARG_U32 ctx 0) (shm_size (sm_shared s j)) (sm_vm s) = (CELL_OK, v)"
    "s' = s\<lparr>sm_vm := v, sm_shared := (sm_shared s)(j := (sm_shared s j)\<lparr>shm_addr := LV2_ARG_U32 ctx 0\<rparr>),
        sm_mem := clear_bytes (sm_mem s) (vm_to_host (LV2_ARG_U32 ctx 0)) (unat (shm_size (sm_shared s j)))\<rparr>"
    using map_shared_success [OF assms(5), unfolded assms(3), OF j] by blast
  show ?thesis
    using c vm_commit_covers_range(1) [OF assms(1,2) assms(4) [unfolded j] c(3)]
    unfolding Let_def j by (simp add: clear_bytes_def vm_to_host_def)
qed

lemma map_shared_example:
  defines "s \<equiv> (sys_memory_init vm_ex (\<lambda>_. 7))\<lparr>sm_shared := (\<lambda>_. shared_zero\<lparr>shm_active := True, shm_size := 0x1000\<rparr>)\<rparr>"
  shows "fst (sys_mmapper_map_shared_memory (2 ^ 12) (\<lambda>_ _. True) (call_ctx 1 [0x60000000, 1]) s) = lv2_ret CELL_OK"
  using vm_commit_accepted [of vm_ex "2 ^ 12"]
  by (simp add: s_def sys_mmapper_map_shared_memory_def SYS_MMAPPER_SHARED_MAX_def case_prod_beta
      Let_def vm_ex_def)

theorem map_shared_memory_zeroed_witness:
  "(let s = (sys_memory_init vm_ex (\<lambda>_. 7))\<lparr>sm_shared := (\<lambda>_. shared_zero\<lparr>shm_active := True, shm_size := 0x1000\<rparr>)\<rparr>;
        s' = snd (sys_mmapper_map_shared_memory (2 ^ 12) (\<lambda>_ _. True) (call_ctx 1 [0x60000000, 1]) s)
    in sm_mem s' 0x60000FFF = 0 \<and> sm_mem s' 0x60001000 = 7)"
proof -
  define s where "s = (sys_memory_init vm_ex (\<lambda>_. 7))\<lparr>sm_shared := (\<lambda>_. shared_zero\<lparr>shm_active := True, shm_size := 0x1000\<rparr>)\<rparr>"
  obtain r s' where r: "sys_mmapper_map_shared_memory (2 ^ 12) (\<lambda>_ _. True) (call_ctx 1 [0x60000000, 1]) s = (r, s')"
    by fastforce
  with map_shared_example have ok: "r = lv2_ret CELL_OK" by (simp add: s_def)
  have "sm_mem s' 0x60000FFF = 0 \<and> sm_mem s' 0x60001000 = 7"
    using map_shared_memory_zeroed [of 12 "call_ctx 1 [0x60000000, 1]" 1 s, OF _ _ _ _ r [unfolded ok]]
    by (simp add: s_def Let_def)
  then show ?thesis using r by (simp add: s_def Let_def)
qed

section \<open>Outside the contract\<close>

lemma reserve_form:
  assumes "VM_ALIGN_UP (LV2_ARG_U32 ctx 0) (mem_alignment (LV2_ARG_U32 ctx 1)) = sz" "sz \<noteq> 0"
    and "bump_align (mem_alignment (LV2_ARG_U32 ctx 1)) (sm_bump_ptr s) = b"
    and "\<not> b + sz > SYS_MEM_ALLOC_END"
    and "find_slot (\<lambda>i. \<not> al_active (sm_allocs s i)) SYS_MEMORY_ALLOC_MAX = Some i"
  shows "mem_reserve ctx s = (Inr (i, b, sz),
      s\<lparr>sm_bump_ptr := b + sz, sm_total_allocated := sm_total_allocated s + sz,
        sm_allocs := (sm_allocs s)(i := \<lparr>al_active = True, al_addr = b, al_size = sz,
                  al_container_id = 0, al_page_size = mem_alignment (LV2_ARG_U32 ctx 1)\<rparr>)\<rparr>)"
  using assms by (simp add: mem_reserve_def Let_def)

text \<open>
  C34. The room check of \<open>sys_memory_allocate\<close> wraps at 32 bits: on a fresh system a request
  of 0xC0000000 bytes is granted although the window holds 0x10000000, the pointer comes back
  to zero, and the next allocation is given the same address.
\<close>

theorem memory_allocate_wraps:
  "(let s = sys_memory_init vm_ex m;
        (r1, s1) = mem_reserve (call_ctx 1 [0xC0000000, 0x400, 0]) s;
        (r2, s2) = mem_reserve (call_ctx 1 [0x100000, 0x400, 0]) s1
    in r1 = Inr (0, 0x40000000, 0xC0000000) \<and> sm_bump_ptr s1 = 0 \<and>
       r2 = Inr (1, 0x40000000, 0x100000))"
proof -
  have e: "VM_ALIGN_UP 0xC0000000 0x100000 = 0xC0000000" "VM_ALIGN_UP 0x100000 0x100000 = 0x100000"
    "bump_align 0x100000 0 = 0x40000000"
    by (simp_all add: VM_ALIGN_UP_def bump_align_def SYS_MEM_ALLOC_BASE_def)
  let ?s = "sys_memory_init vm_ex m"
  let ?s1 = "?s\<lparr>sm_bump_ptr := 0, sm_total_allocated := 0xC0000000,
    sm_allocs := (\<lambda>_. alloc_zero)(0 := \<lparr>al_active = True, al_addr = 0x40000000, al_size = 0xC0000000,
                  al_container_id = 0, al_page_size = 0x100000\<rparr>)\<rparr>"
  have r1: "mem_reserve (call_ctx 1 [0xC0000000, 0x400, 0]) ?s = (Inr (0, 0x40000000, 0xC0000000), ?s1)"
    by (subst reserve_form [of _ "0xC0000000" _ "0x40000000" 0])
       (simp_all add: e SYS_MEM_ALLOC_END_def alloc_zero_def)
  have "find_slot (\<lambda>i. \<not> al_active (sm_allocs ?s1 i)) SYS_MEMORY_ALLOC_MAX = Some 1"
    by (rule find_slot_SomeI) (simp_all add: SYS_MEMORY_ALLOC_MAX_def alloc_zero_def)
  then have "fst (mem_reserve (call_ctx 1 [0x100000, 0x400, 0]) ?s1) = Inr (1, 0x40000000, 0x100000)"
    by (subst reserve_form [of _ "0x100000" _ "0x40000000" 1]) (simp_all add: e SYS_MEM_ALLOC_END_def)
  with r1 show ?thesis by (simp add: case_prod_beta)
qed

text \<open>
  C37. The reported available size wraps: the window holds 256 MB and the accounting knows
  213 MB, so after one allocation of 224 MB \<open>sys_memory_get_user_memory_size\<close> reports
  0xFF500000 bytes (more than 4 GB less 11 MB) as available.
\<close>

theorem user_memory_available_wraps:
  "(let (r1, s1) = sys_memory_allocate 0x1000 (\<lambda>_ _. True) (call_ctx 1 [0xE000000, 0x400, 0])
                     (sys_memory_init vm_ex m);
        (r2, s2) = sys_memory_get_user_memory_size (call_ctx 1 [0x100]) s1
    in r1 = lv2_ret CELL_OK \<and> read_be32 (sm_mem s2) 0x104 = 0xFF500000)"
proof -
  let ?c = "call_ctx 1 [0xE000000, 0x400, 0]" and ?s = "sys_memory_init vm_ex m"
  have e: "VM_ALIGN_UP 0xE000000 0x100000 = 0xE000000" "bump_align 0x100000 0 = 0x40000000"
    by (simp_all add: VM_ALIGN_UP_def bump_align_def SYS_MEM_ALLOC_BASE_def)
  obtain s' where r: "mem_reserve ?c ?s = (Inr (0, 0x40000000, 0xE000000), s')"
    "sm_total_allocated s' = 0xE000000" "sm_vm s' = vm_ex"
    using reserve_form [of ?c "0xE000000" ?s "0x40000000" 0]
    by (simp add: e SYS_MEM_ALLOC_END_def alloc_zero_def)
  have "vm_ready vm_ex" by (simp add: vm_ex_def)
  then show ?thesis
    by (simp add: sys_memory_allocate_def r mem_finish_def vm_commit_accepted case_prod_beta Let_def
        sys_memory_get_user_memory_size_def SYS_MEM_USER_TOTAL_def)
qed

text \<open>
  A commit the host refuses leaves the books wrong: the allocation answers ENOMEM and its
  slot is released, but neither the pointer nor the total is taken back.
\<close>

theorem failed_commit_leaks:
  assumes "mem_reserve ctx s = (Inr (i, a, n), s')"
    and "sys_memory_allocate pg (\<lambda>_ _. False) ctx s = (r, s1)"
  shows "r = lv2_ret CELL_ENOMEM \<and> \<not> al_active (sm_allocs s1 i) \<and>
         sm_total_allocated s1 = sm_total_allocated s + n \<and> sm_bump_ptr s1 = a + n"
proof -
  have f: "fst (vm_commit pg (\<lambda>_ _. False) a n v) \<noteq> CELL_OK" for v
    by (simp add: vm_commit_def vm__mprotect_pages_def mprotect_def Let_def lv2_codes)
  then show ?thesis
  proof (cases rule: mem_reserve_cases [OF assms(1)])
    case (3 j)
    then show ?thesis using assms f
      by (auto simp: sys_memory_allocate_def mem_finish_def Let_def case_prod_beta)
  qed (simp_all)
qed

theorem failed_commit_leaks_witness:
  "(let (r, s1) = sys_memory_allocate 0x1000 (\<lambda>_ _. False) (call_ctx 1 [0x12345, 0x400, 0x100])
                    (sys_memory_init vm_ex (\<lambda>_. 0))
    in r = lv2_ret CELL_ENOMEM \<and> sm_total_allocated s1 = 0x100000)"
proof -
  obtain r s1 where r: "sys_memory_allocate 0x1000 (\<lambda>_ _. False) (call_ctx 1 [0x12345, 0x400, 0x100])
      (sys_memory_init vm_ex (\<lambda>_. 0)) = (r, s1)" by fastforce
  show ?thesis using failed_commit_leaks [OF reserve_example r] by (simp add: r)
qed

lemma bump_align_past:
  assumes "0x40000000 < unat b" "unat b \<le> 0x50000000"
  shows "bump_align 0x20000000 b = 0x60000000"
proof -
  have "unat (b + (2 ^ 29 - 1)) = unat b + (2 ^ 29 - 1)"
    using assms by (intro unat_add_mask) simp_all
  then have "unat (VM_ALIGN_UP b (2 ^ 29)) = (unat b + (2 ^ 29 - 1)) div 2 ^ 29 * 2 ^ 29"
    using VM_ALIGN_UP_pow2 [of 29 b] by simp
  also have "(unat b + (2 ^ 29 - 1)) div 2 ^ 29 = 3"
    using assms by (intro div_nat_eqI) simp_all
  finally have "VM_ALIGN_UP b 0x20000000 = 0x60000000" by (simp add: word_unat_eq_iff)
  then show ?thesis using assms by (auto simp: bump_align_def)
qed

lemma reserve_beyond:
  assumes b: "sm_bump_ptr s = 0x60000000"
    and sz: "1 \<le> unat (LV2_ARG_U32 ctx 0)" "unat (LV2_ARG_U32 ctx 0) \<le> 0x90000000"
  shows "fst (mem_reserve ctx s) = Inl (lv2_ret CELL_ENOMEM)"
proof -
  have "mem_alignment (LV2_ARG_U32 ctx 1) = 2 ^ 16 \<or> mem_alignment (LV2_ARG_U32 ctx 1) = 2 ^ 20"
    by (simp add: mem_alignment_def)
  then obtain k where k: "k \<in> {16, 20}" "mem_alignment (LV2_ARG_U32 ctx 1) = 2 ^ k" by blast
  define sz' where "sz' = VM_ALIGN_UP (LV2_ARG_U32 ctx 0) (2 ^ k)"
  have kb: "(2 :: nat) ^ k \<le> 2 ^ 20" "k < 32" using k(1) by auto
  have s': "1 \<le> unat sz'" "unat sz' < 0x90100000"
    using VM_ALIGN_UP_bounds [OF kb(2), of "LV2_ARG_U32 ctx 0"] sz kb by (simp_all add: sz'_def)
  have "VM_ALIGN_UP 0x60000000 (2 ^ k) = 0x60000000" using k(1) by (auto simp: VM_ALIGN_UP_def)
  then have al: "bump_align (2 ^ k) (sm_bump_ptr s) = 0x60000000" by (simp add: bump_align_def b)
  have "unat (0x60000000 + sz') = 0x60000000 + unat sz'"
    using s' by (subst unat_add_lem [THEN iffD1]) auto
  then have "0x60000000 + sz' > SYS_MEM_ALLOC_END" using s' by (simp add: word_less_nat_alt SYS_MEM_ALLOC_END_def)
  moreover have "sz' \<noteq> 0" using s'(1) by auto
  ultimately show ?thesis
    unfolding mem_reserve_def Let_def k(2) al sz'_def [symmetric] by simp
qed

text \<open>
  C35. One refused request can use up the pool: \<open>sys_mmapper_allocate_address\<close> stores the
  aligned pointer before it checks the room, so once anything was allocated a request for 64 KB
  aligned to 0x20000000 answers ENOMEM, and from then on every allocation of 1 to 0x90000000
  bytes answers ENOMEM, however little is in use.
\<close>

theorem refused_alignment_exhausts_pool:
  assumes "0x40000000 < unat (sm_bump_ptr s)" "unat (sm_bump_ptr s) \<le> 0x50000000"
    and "sys_mmapper_allocate_address pg ok (call_ctx 1 [0x10000, 0, 0x20000000, 0]) s = (r, s1)"
    and "1 \<le> unat (LV2_ARG_U32 ctx 0)" "unat (LV2_ARG_U32 ctx 0) \<le> 0x90000000"
  shows "r = lv2_ret CELL_ENOMEM \<and> sm_allocs s1 = sm_allocs s \<and>
         fst (sys_memory_allocate pg ok ctx s1) = lv2_ret CELL_ENOMEM"
proof -
  have b: "bump_align 0x20000000 (sm_bump_ptr s) = 0x60000000"
    by (rule bump_align_past) (use assms in simp_all)
  have e: "VM_ALIGN_UP 0x10000 0x20000000 = 0x20000000" by (simp add: VM_ALIGN_UP_def)
  have s1: "r = lv2_ret CELL_ENOMEM" "sm_bump_ptr s1 = 0x60000000" "sm_allocs s1 = sm_allocs s"
    using assms(3) by (auto simp: sys_mmapper_allocate_address_def Let_def e b SYS_MEM_ALLOC_END_def)
  have "fst (mem_reserve ctx s1) = Inl (lv2_ret CELL_ENOMEM)"
    by (rule reserve_beyond) (use assms s1 in simp_all)
  then show ?thesis using s1 by (simp add: sys_memory_allocate_def case_prod_beta)
qed

theorem refused_alignment_exhausts_pool_witness:
  "(let (r, s1) = sys_mmapper_allocate_address 0x1000 (\<lambda>_ _. True)
                    (call_ctx 1 [0x10000, 0, 0x20000000, 0]) mem_ex
    in fst (sys_memory_allocate 0x1000 (\<lambda>_ _. True) (call_ctx 1 [0x10000, 0x200, 0]) s1)
         = lv2_ret CELL_ENOMEM)"
proof -
  obtain r s1 where r: "sys_mmapper_allocate_address 0x1000 (\<lambda>_ _. True)
      (call_ctx 1 [0x10000, 0, 0x20000000, 0]) mem_ex = (r, s1)" by fastforce
  show ?thesis
    using refused_alignment_exhausts_pool [OF _ _ r, of "call_ctx 1 [0x10000, 0x200, 0]"]
    by (simp add: r mem_ex_fields)
qed

text \<open>
  An alignment can wrap the pool: with one live allocation at 0x40000000, a request for
  64 KB aligned to 0x80000000 is granted at 0x80000000, outside the window, the pointer comes
  back to zero, and the next allocation is given 0x40000000 again while the first is live.
\<close>

theorem alignment_wraps_pool:
  "fst (run_ops (mem_exec 0x1000 (\<lambda>_ _. True))
      [Reserve (call_ctx 1 [0x12345, 0x400, 0x100]),
       Allocate_address (call_ctx 1 [0x10000, 0, 0x80000000, 0]),
       Reserve (call_ctx 1 [0x100000, 0x400, 0])]
      (sys_memory_init vm_ex (\<lambda>_. 0))) =
   [Some (0x40000000, 0x100000), Some (0x80000000, 0x80000000), Some (0x40000000, 0x100000)]"
proof -
  have e: "VM_ALIGN_UP 0x10000 0x80000000 = 0x80000000" "bump_align 0x80000000 0x40100000 = 0x80000000"
    "VM_ALIGN_UP 0x100000 0x100000 = 0x100000" "bump_align 0x100000 0 = 0x40000000"
    by (simp_all add: VM_ALIGN_UP_def bump_align_def SYS_MEM_ALLOC_BASE_def)
  obtain r s2 where a: "sys_mmapper_allocate_address 0x1000 (\<lambda>_ _. True)
      (call_ctx 1 [0x10000, 0, 0x80000000, 0]) mem_ex = (r, s2)" by fastforce
  then have s2: "r = lv2_ret CELL_OK" "sm_bump_ptr s2 = 0" "sm_allocs s2 = sm_allocs mem_ex"
    by (auto simp: sys_mmapper_allocate_address_def Let_def e mem_ex_fields SYS_MEM_ALLOC_END_def
        case_prod_beta)
  have "sm_allocs mem_ex = (\<lambda>_. alloc_zero)(0 := sm_allocs mem_ex 0)"
    by (simp add: mem_ex_def reserve_example)
  then have "\<not> al_active (sm_allocs mem_ex 1)" by (metis alloc_zero_def fun_upd_other sys_mem_alloc_info.select_convs(1) zero_neq_one)
  then have "find_slot (\<lambda>i. \<not> al_active (sm_allocs s2 i)) SYS_MEMORY_ALLOC_MAX = Some 1"
    by (intro find_slot_SomeI) (simp_all add: SYS_MEMORY_ALLOC_MAX_def s2 mem_ex_fields)
  then have "fst (mem_reserve (call_ctx 1 [0x100000, 0x400, 0]) s2) = Inr (1, 0x40000000, 0x100000)"
    by (subst reserve_form [of _ "0x100000" _ "0x40000000" 1]) (simp_all add: e SYS_MEM_ALLOC_END_def s2)
  moreover have "mem_reserve (call_ctx 1 [0x12345, 0x400, 0x100]) (sys_memory_init vm_ex (\<lambda>_. 0)) =
      (Inr (0, 0x40000000, 0x100000), mem_ex)"
    by (simp add: reserve_example mem_ex_def)
  ultimately show ?thesis
    using s2(1) by (simp add: a taken_def e mem_ex_fields address_alignment_def case_prod_beta)
qed

end
