(* ===== verification/SysVm.thy ===== *)
theory SysVm
  imports VirtualMemory
begin

unbundle bit_operations_syntax

text \<open>
  The demand-paged regions of \<open>sys_vm\<close> (runtime/syscalls/sys_vm.c, sys_vm.h): up to eight
  mappings in a window of 256 MB, given out upwards and never reused, with the physical size
  of each as bookkeeping. The log lines are left out.
\<close>

section \<open>Data\<close>

record sys_vm_map_info =
  vmap_active :: bool
  vmap_addr :: u32
  vmap_vsize :: u32
  vmap_psize :: u32

record sys_vm =
  sv_maps :: "nat \<Rightarrow> sys_vm_map_info"
  sv_bump_ptr :: u32
  sv_vm :: vm_state
  sv_mem :: mem

definition SYS_VM_REGION_BASE :: u32 where "SYS_VM_REGION_BASE = 0x60000000"
definition SYS_VM_REGION_END :: u32 where "SYS_VM_REGION_END = 0x70000000"
definition SYS_VM_VSIZE_ALIGN :: u32 where "SYS_VM_VSIZE_ALIGN = 0x02000000"
definition SYS_VM_PSIZE_ALIGN :: u32 where "SYS_VM_PSIZE_ALIGN = 0x00010000"
definition SYS_VM_MAX :: nat where "SYS_VM_MAX = 8"

definition map_zero :: sys_vm_map_info where
  "map_zero = \<lparr>vmap_active = False, vmap_addr = 0, vmap_vsize = 0, vmap_psize = 0\<rparr>"

definition sys_vm_init :: "vm_state \<Rightarrow> mem \<Rightarrow> sys_vm" where
  "sys_vm_init v m =
     \<lparr>sv_maps = (\<lambda>_. map_zero), sv_bump_ptr = SYS_VM_REGION_BASE, sv_vm = v, sv_mem = m\<rparr>"

definition find_map :: "(nat \<Rightarrow> sys_vm_map_info) \<Rightarrow> u32 \<Rightarrow> nat option" where
  "find_map t addr = find_slot (\<lambda>i. vmap_active (t i) \<and> vmap_addr (t i) = addr) SYS_VM_MAX"

section \<open>System calls\<close>

definition sys_vm_memory_map ::
  "u64 \<Rightarrow> (nat \<Rightarrow> nat \<Rightarrow> bool) \<Rightarrow> ppu_context \<Rightarrow> sys_vm \<Rightarrow> u64 \<times> sys_vm" where
  "sys_vm_memory_map pg ok ctx s =
     (let vsize = LV2_ARG_U32 ctx 0;
          psize = LV2_ARG_U32 ctx 1;
          addr_out = LV2_ARG_PTR ctx 5
      in if vsize = 0 \<or> psize = 0 \<or> vsize mod SYS_VM_VSIZE_ALIGN \<noteq> 0 \<or>
            psize mod SYS_VM_PSIZE_ALIGN \<noteq> 0 \<or> vsize > SYS_VM_REGION_END - SYS_VM_REGION_BASE
         then (lv2_ret CELL_EINVAL, s)
         else if sv_bump_ptr s + vsize > SYS_VM_REGION_END then (lv2_ret CELL_ENOMEM, s)
         else case find_slot (\<lambda>i. \<not> vmap_active (sv_maps s i)) SYS_VM_MAX of
                None \<Rightarrow> (lv2_ret CELL_ENOMEM, s)
              | Some slot \<Rightarrow>
                  let base = sv_bump_ptr s;
                      (rc, v) = vm_commit pg ok base vsize (sv_vm s);
                      s = s\<lparr>sv_vm := v\<rparr>
                  in if rc \<noteq> CELL_OK then (lv2_ret CELL_ENOMEM, s)
                     else (lv2_ret CELL_OK,
                           s\<lparr>sv_bump_ptr := sv_bump_ptr s + vsize,
                             sv_maps := (sv_maps s)(slot := \<lparr>vmap_active = True, vmap_addr = base,
                                                            vmap_vsize = vsize, vmap_psize = psize\<rparr>),
                             sv_mem := (if addr_out \<noteq> 0 then write_be32 (sv_mem s) addr_out base
                                        else sv_mem s)\<rparr>))"

definition sys_vm_unmap :: "ppu_context \<Rightarrow> sys_vm \<Rightarrow> u64 \<times> sys_vm" where
  "sys_vm_unmap ctx s =
     (case find_map (sv_maps s) (LV2_ARG_U32 ctx 0) of
        None \<Rightarrow> (lv2_ret CELL_EINVAL, s)
      | Some i \<Rightarrow>
          (lv2_ret CELL_OK,
           s\<lparr>sv_maps := (sv_maps s)(i := (sv_maps s i)\<lparr>vmap_active := False\<rparr>)\<rparr>))"

definition sys_vm_append_memory :: "ppu_context \<Rightarrow> sys_vm \<Rightarrow> u64 \<times> sys_vm" where
  "sys_vm_append_memory ctx s =
     (let sz = LV2_ARG_U32 ctx 1
      in case find_map (sv_maps s) (LV2_ARG_U32 ctx 0) of
           None \<Rightarrow> (lv2_ret CELL_EINVAL, s)
         | Some i \<Rightarrow>
             if sz = 0 \<or> sz mod SYS_VM_PSIZE_ALIGN \<noteq> 0 then (lv2_ret CELL_EINVAL, s)
             else (lv2_ret CELL_OK,
                   s\<lparr>sv_maps := (sv_maps s)
                       (i := (sv_maps s i)\<lparr>vmap_psize := vmap_psize (sv_maps s i) + sz\<rparr>)\<rparr>))"

definition sys_vm_return_memory :: "ppu_context \<Rightarrow> sys_vm \<Rightarrow> u64 \<times> sys_vm" where
  "sys_vm_return_memory ctx s =
     (let sz = LV2_ARG_U32 ctx 1
      in case find_map (sv_maps s) (LV2_ARG_U32 ctx 0) of
           None \<Rightarrow> (lv2_ret CELL_EINVAL, s)
         | Some i \<Rightarrow>
             if sz = 0 \<or> sz mod SYS_VM_PSIZE_ALIGN \<noteq> 0 \<or> sz > vmap_psize (sv_maps s i)
             then (lv2_ret CELL_EINVAL, s)
             else (lv2_ret CELL_OK,
                   s\<lparr>sv_maps := (sv_maps s)
                       (i := (sv_maps s i)\<lparr>vmap_psize := vmap_psize (sv_maps s i) - sz\<rparr>)\<rparr>))"

definition sys_vm_advisory_nop :: "ppu_context \<Rightarrow> sys_vm \<Rightarrow> u64 \<times> sys_vm" where
  "sys_vm_advisory_nop ctx s = (lv2_ret CELL_OK, s)"

section \<open>Sequences of calls\<close>

datatype vm_call =
    Map ppu_context
  | Unmap ppu_context
  | Append ppu_context
  | Return ppu_context
  | Advise ppu_context

fun vm_exec ::
  "u64 \<Rightarrow> (nat \<Rightarrow> nat \<Rightarrow> bool) \<Rightarrow> vm_call \<Rightarrow> sys_vm \<Rightarrow> (nat \<times> nat) option \<times> sys_vm" where
  "vm_exec pg ok (Map ctx) s =
     (let (r, s') = sys_vm_memory_map pg ok ctx s
      in (if r = lv2_ret CELL_OK then Some (unat (sv_bump_ptr s), unat (LV2_ARG_U32 ctx 0)) else None, s'))"
| "vm_exec pg ok (Unmap ctx) s = (None, snd (sys_vm_unmap ctx s))"
| "vm_exec pg ok (Append ctx) s = (None, snd (sys_vm_append_memory ctx s))"
| "vm_exec pg ok (Return ctx) s = (None, snd (sys_vm_return_memory ctx s))"
| "vm_exec pg ok (Advise ctx) s = (None, snd (sys_vm_advisory_nop ctx s))"

section \<open>The invariant of the window\<close>

definition map_ok :: "nat \<Rightarrow> sys_vm_map_info \<Rightarrow> bool" where
  "map_ok mark a \<longleftrightarrow> (vmap_active a \<longrightarrow> 0 < unat (vmap_vsize a) \<and>
     unat (vmap_addr a) + unat (vmap_vsize a) \<le> mark \<and> 0x10000 dvd unat (vmap_psize a))"

definition region_inv :: "u32 \<Rightarrow> (nat \<Rightarrow> sys_vm_map_info) \<Rightarrow> bool" where
  "region_inv b t \<longleftrightarrow> 0x60000000 \<le> unat b \<and> unat b \<le> 0x70000000 \<and> 0x2000000 dvd unat b \<and>
     (\<forall>i. map_ok (unat b) (t i)) \<and>
     (\<forall>i j. i \<noteq> j \<longrightarrow> vmap_active (t i) \<longrightarrow> vmap_active (t j) \<longrightarrow> vmap_addr (t i) \<noteq> vmap_addr (t j))"

definition sv_inv :: "sys_vm \<Rightarrow> bool" where
  "sv_inv s \<longleftrightarrow> region_inv (sv_bump_ptr s) (sv_maps s)"

text \<open>One step of the map call: every refusal leaves mappings and pointer alone.\<close>

lemma memory_map_cases:
  assumes r: "sys_vm_memory_map pg ok ctx s = (r, s')"
  obtains (refused) "r \<noteq> lv2_ret CELL_OK" "sv_maps s' = sv_maps s" "sv_bump_ptr s' = sv_bump_ptr s"
  | (mapped) i v m where "r = lv2_ret CELL_OK" "i < SYS_VM_MAX" "\<not> vmap_active (sv_maps s i)"
      "LV2_ARG_U32 ctx 0 \<noteq> 0" "LV2_ARG_U32 ctx 0 mod SYS_VM_VSIZE_ALIGN = 0"
      "LV2_ARG_U32 ctx 1 mod SYS_VM_PSIZE_ALIGN = 0"
      "LV2_ARG_U32 ctx 0 \<le> SYS_VM_REGION_END - SYS_VM_REGION_BASE"
      "\<not> sv_bump_ptr s + LV2_ARG_U32 ctx 0 > SYS_VM_REGION_END"
      "vm_commit pg ok (sv_bump_ptr s) (LV2_ARG_U32 ctx 0) (sv_vm s) = (CELL_OK, v)"
      "LV2_ARG_PTR ctx 5 \<noteq> 0 \<Longrightarrow> m = write_be32 (sv_mem s) (LV2_ARG_PTR ctx 5) (sv_bump_ptr s)"
      "s' = s\<lparr>sv_vm := v, sv_bump_ptr := sv_bump_ptr s + LV2_ARG_U32 ctx 0,
        sv_maps := (sv_maps s)(i := \<lparr>vmap_active = True, vmap_addr = sv_bump_ptr s,
                     vmap_vsize = LV2_ARG_U32 ctx 0, vmap_psize = LV2_ARG_U32 ctx 1\<rparr>),
        sv_mem := m\<rparr>"
proof -
  define bad where "bad \<longleftrightarrow> LV2_ARG_U32 ctx 0 = 0 \<or> LV2_ARG_U32 ctx 1 = 0 \<or>
    LV2_ARG_U32 ctx 0 mod SYS_VM_VSIZE_ALIGN \<noteq> 0 \<or> LV2_ARG_U32 ctx 1 mod SYS_VM_PSIZE_ALIGN \<noteq> 0 \<or>
    LV2_ARG_U32 ctx 0 > SYS_VM_REGION_END - SYS_VM_REGION_BASE"
  define full where "full \<longleftrightarrow> sv_bump_ptr s + LV2_ARG_U32 ctx 0 > SYS_VM_REGION_END"
  obtain rc v where c: "vm_commit pg ok (sv_bump_ptr s) (LV2_ARG_U32 ctx 0) (sv_vm s) = (rc, v)" by fastforce
  note d = r [unfolded sys_vm_memory_map_def Let_def, folded bad_def full_def]
  consider "bad" | "\<not> bad" "full"
    | "\<not> bad" "\<not> full" "find_slot (\<lambda>i. \<not> vmap_active (sv_maps s i)) SYS_VM_MAX = None"
    | i where "\<not> bad" "\<not> full" "find_slot (\<lambda>i. \<not> vmap_active (sv_maps s i)) SYS_VM_MAX = Some i" "rc \<noteq> CELL_OK"
    | i where "\<not> bad" "\<not> full" "find_slot (\<lambda>i. \<not> vmap_active (sv_maps s i)) SYS_VM_MAX = Some i" "rc = CELL_OK"
    by fastforce
  then show thesis
  proof cases
    case (5 i)
    let ?m = "if LV2_ARG_PTR ctx 5 \<noteq> 0 then write_be32 (sv_mem s) (LV2_ARG_PTR ctx 5) (sv_bump_ptr s) else sv_mem s"
    have e: "r = lv2_ret CELL_OK" "s' = s\<lparr>sv_vm := v, sv_bump_ptr := sv_bump_ptr s + LV2_ARG_U32 ctx 0,
        sv_maps := (sv_maps s)(i := \<lparr>vmap_active = True, vmap_addr = sv_bump_ptr s,
                     vmap_vsize = LV2_ARG_U32 ctx 0, vmap_psize = LV2_ARG_U32 ctx 1\<rparr>), sv_mem := ?m\<rparr>"
      by (cases "LV2_ARG_PTR ctx 5 = 0", use d 5 c in auto)
    show thesis
      by (rule mapped [OF e(1) find_slot_SomeD [OF 5(3)], of v ?m])
         (use 5 c e in \<open>simp_all add: bad_def full_def not_less\<close>)
  qed (use d c refused in \<open>auto simp: lv2_codes\<close>)
qed

text \<open>A successful map: the sum in the room check does not wrap.\<close>

lemma map_room:
  assumes b: "0x60000000 \<le> unat b" "unat b \<le> 0x70000000" "0x2000000 dvd unat b"
    and v: "v \<noteq> 0" "v mod SYS_VM_VSIZE_ALIGN = 0" "v \<le> SYS_VM_REGION_END - SYS_VM_REGION_BASE"
    and fits: "\<not> b + v > SYS_VM_REGION_END"
  shows "unat (b + v) = unat b + unat v" and "unat (b + v) \<le> 0x70000000"
    and "0x2000000 dvd unat (b + v)" and "0 < unat v"
proof -
  have "unat v \<le> 0x10000000"
    using v(3) by (simp add: word_le_nat_alt SYS_VM_REGION_END_def SYS_VM_REGION_BASE_def)
  then show s: "unat (b + v) = unat b + unat v"
    using b by (subst unat_add_lem [THEN iffD1]) auto
  show "unat (b + v) \<le> 0x70000000"
    using fits by (simp add: word_le_nat_alt not_less SYS_VM_REGION_END_def)
  have "unat (v mod SYS_VM_VSIZE_ALIGN) = 0" using v(2) by simp
  then have "0x2000000 dvd unat v" by (simp add: unat_mod SYS_VM_VSIZE_ALIGN_def mod_eq_0_iff_dvd)
  with b(3) show "0x2000000 dvd unat (b + v)" unfolding s by (rule dvd_add)
  show "0 < unat v" using v(1) by (simp add: unat_gt_0)
qed

lemma psize_aligned: "(p :: u32) mod SYS_VM_PSIZE_ALIGN = 0 \<longleftrightarrow> 0x10000 dvd unat p"
proof -
  have "p mod SYS_VM_PSIZE_ALIGN = 0 \<longleftrightarrow> unat (p mod SYS_VM_PSIZE_ALIGN) = 0"
    by (simp only: unat_eq_zero)
  also have "\<dots> \<longleftrightarrow> 0x10000 dvd unat p"
    by (simp add: unat_mod SYS_VM_PSIZE_ALIGN_def mod_eq_0_iff_dvd)
  finally show ?thesis .
qed

lemma region_inv_fill:
  assumes inv: "region_inv b t" and "unat (b + vs) = unat b + unat vs" "unat (b + vs) \<le> 0x70000000"
    and "0x2000000 dvd unat (b + vs)" "0 < unat vs" and "0x10000 dvd unat ps"
  shows "region_inv (b + vs) (t(i := \<lparr>vmap_active = True, vmap_addr = b, vmap_vsize = vs, vmap_psize = ps\<rparr>))"
proof -
  have "vmap_addr (t j) \<noteq> b" if "vmap_active (t j)" for j
    using inv that by (fastforce simp: region_inv_def map_ok_def dest: spec [of _ j])
  moreover have "map_ok (unat (b + vs)) (t j)" for j
    using inv assms(2) by (fastforce simp: region_inv_def map_ok_def dest: spec [of _ j])
  ultimately show ?thesis
    using assms unfolding region_inv_def by (auto simp: map_ok_def)
qed

lemma region_inv_update:
  assumes "region_inv b t" and "vmap_active a \<Longrightarrow> vmap_active (t i)"
    and "vmap_addr a = vmap_addr (t i)" "vmap_vsize a = vmap_vsize (t i)"
    and "vmap_active a \<Longrightarrow> 0x10000 dvd unat (vmap_psize a)"
  shows "region_inv b (t(i := a))"
  using assms unfolding region_inv_def by (auto simp: map_ok_def)

text \<open>Sums and differences of multiples of 64 KB stay multiples, the wrap-around included.\<close>

lemma psize_sum: "0x10000 dvd unat (p :: u32) \<Longrightarrow> 0x10000 dvd unat q \<Longrightarrow> 0x10000 dvd unat (p + q)"
  by (simp add: unat_word_ariths dvd_mod)

lemma psize_diff: "0x10000 dvd unat (p :: u32) \<Longrightarrow> 0x10000 dvd unat q \<Longrightarrow> q \<le> p \<Longrightarrow> 0x10000 dvd unat (p - q)"
  by (simp add: unat_sub dvd_diff_nat)

lemma find_map_active: "find_map t a = Some i \<Longrightarrow> vmap_active (t i) \<and> vmap_addr (t i) = a"
  by (auto simp: find_map_def dest: find_slot_SomeD)

lemma vm_map_step:
  assumes inv: "sv_inv s"
  shows "sv_inv (snd (vm_exec pg ok (Map ctx) s)) \<and>
         unat (sv_bump_ptr s) \<le> unat (sv_bump_ptr (snd (vm_exec pg ok (Map ctx) s))) \<and>
         (\<forall>a n. fst (vm_exec pg ok (Map ctx) s) = Some (a, n) \<longrightarrow>
            unat (sv_bump_ptr s) \<le> a \<and> a + n \<le> unat (sv_bump_ptr (snd (vm_exec pg ok (Map ctx) s))))"
proof -
  obtain r s' where r: "sys_vm_memory_map pg ok ctx s = (r, s')" by fastforce
  show ?thesis
  proof (cases rule: memory_map_cases [OF r])
    case 1
    then show ?thesis using inv by (simp add: r sv_inv_def)
  next
    case (2 i v m)
    have b: "0x60000000 \<le> unat (sv_bump_ptr s)" "unat (sv_bump_ptr s) \<le> 0x70000000"
      "0x2000000 dvd unat (sv_bump_ptr s)"
      using inv by (simp_all add: sv_inv_def region_inv_def)
    note room = map_room [OF b 2(4,5,7,8)]
    have "sv_inv s'"
      using region_inv_fill [OF inv [unfolded sv_inv_def] room, of "LV2_ARG_U32 ctx 1" i] 2(6,11)
      by (simp add: sv_inv_def psize_aligned)
    then show ?thesis using 2(1,11) room(1) by (simp add: r)
  qed
qed

lemma sv_other_step:
  assumes inv: "sv_inv s"
  shows "sv_inv (snd (sys_vm_unmap ctx s))" "sv_inv (snd (sys_vm_append_memory ctx s))"
    "sv_inv (snd (sys_vm_return_memory ctx s))"
    and "sv_bump_ptr (snd (sys_vm_unmap ctx s)) = sv_bump_ptr s"
    "sv_bump_ptr (snd (sys_vm_append_memory ctx s)) = sv_bump_ptr s"
    "sv_bump_ptr (snd (sys_vm_return_memory ctx s)) = sv_bump_ptr s"
proof -
  have ps: "vmap_active (sv_maps s i) \<Longrightarrow> 0x10000 dvd unat (vmap_psize (sv_maps s i))" for i
    using inv by (simp add: sv_inv_def region_inv_def map_ok_def)
  note upd = region_inv_update [OF inv [unfolded sv_inv_def]]
  show "sv_inv (snd (sys_vm_unmap ctx s))"
    using inv by (auto simp: sys_vm_unmap_def sv_inv_def intro!: upd split: option.split)
  show "sv_inv (snd (sys_vm_append_memory ctx s))"
    using inv by (auto simp: sys_vm_append_memory_def sv_inv_def Let_def psize_aligned ps
        intro!: upd psize_sum dest!: find_map_active split: option.split)
  show "sv_inv (snd (sys_vm_return_memory ctx s))"
    using inv by (auto simp: sys_vm_return_memory_def sv_inv_def Let_def psize_aligned ps not_less
        intro!: upd psize_diff dest!: find_map_active split: option.split)
qed (auto simp: sys_vm_unmap_def sys_vm_append_memory_def sys_vm_return_memory_def Let_def
      split: option.split)

interpretation vm_region: bump_window "0x60000000" "0x70000000" sv_inv
  "\<lambda>s. unat (sv_bump_ptr s)" "vm_exec pg ok" "\<lambda>_. True"
  for pg ok
proof (unfold_locales, goal_cases)
  case (1 s)
  then show ?case by (simp add: sv_inv_def region_inv_def)
next
  case (2 a s)
  then show ?case using vm_map_step
    by (cases a) (simp_all add: sv_other_step sys_vm_advisory_nop_def del: vm_exec.simps(1))
next
  case (3 a s)
  then show ?case using vm_map_step
    by (cases a) (simp_all add: sv_other_step sys_vm_advisory_nop_def del: vm_exec.simps(1))
next
  case (4 a s b n)
  then show ?case using vm_map_step
    by (cases a) (simp_all add: sv_other_step sys_vm_advisory_nop_def del: vm_exec.simps(1))
qed

lemma sv_init_inv: "sv_inv (sys_vm_init v m)"
  by (simp add: sv_inv_def sys_vm_init_def region_inv_def map_ok_def map_zero_def SYS_VM_REGION_BASE_def)

section \<open>Properties\<close>


lemma memory_map_ok:
  assumes "vm_ready (sv_vm s)" and "LV2_ARG_U32 ctx 0 = vs" "LV2_ARG_U32 ctx 1 = ps"
    and "vs \<noteq> 0" "ps \<noteq> 0" "vs mod SYS_VM_VSIZE_ALIGN = 0" "ps mod SYS_VM_PSIZE_ALIGN = 0"
    and "\<not> vs > SYS_VM_REGION_END - SYS_VM_REGION_BASE" "\<not> sv_bump_ptr s + vs > SYS_VM_REGION_END"
    and "find_slot (\<lambda>i. \<not> vmap_active (sv_maps s i)) SYS_VM_MAX = Some i"
    and "sys_vm_memory_map pg (\<lambda>_ _. True) ctx s = (r, s')"
  shows "r = lv2_ret CELL_OK" and "sv_bump_ptr s' = sv_bump_ptr s + vs" and "vm_ready (sv_vm s')"
    and "sv_maps s' = (sv_maps s)(i := \<lparr>vmap_active = True, vmap_addr = sv_bump_ptr s,
                                        vmap_vsize = vs, vmap_psize = ps\<rparr>)"
proof -
  have c: "fst (vm_commit pg (\<lambda>_ _. True) (sv_bump_ptr s) vs (sv_vm s)) = CELL_OK"
    "vm_ready (snd (vm_commit pg (\<lambda>_ _. True) (sv_bump_ptr s) vs (sv_vm s)))"
    using assms(1) by (simp_all add: vm_commit_accepted)
  note d = assms(11) [unfolded sys_vm_memory_map_def Let_def assms(2,3,10) case_prod_beta option.case]
  show "r = lv2_ret CELL_OK" "sv_bump_ptr s' = sv_bump_ptr s + vs" "vm_ready (sv_vm s')"
    "sv_maps s' = (sv_maps s)(i := \<lparr>vmap_active = True, vmap_addr = sv_bump_ptr s,
                                        vmap_vsize = vs, vmap_psize = ps\<rparr>)"
    using d c assms(4-9) by auto
qed

lemma two_maps:
  "fst (run_ops (vm_exec 0x1000 (\<lambda>_ _. True))
     [Map (call_ctx 1 [0x2000000, 0x10000, 0, 0, 0, 0]), Map (call_ctx 1 [0x4000000, 0x10000, 0, 0, 0, 0])]
     (sys_vm_init vm_ex (\<lambda>_. 0))) = [Some (0x60000000, 0x2000000), Some (0x62000000, 0x4000000)]"
proof -
  let ?c1 = "call_ctx 1 [0x2000000, 0x10000, 0, 0, 0, 0]" and ?c2 = "call_ctx 1 [0x4000000, 0x10000, 0, 0, 0, 0]"
  note cs = SYS_VM_VSIZE_ALIGN_def SYS_VM_PSIZE_ALIGN_def SYS_VM_REGION_END_def SYS_VM_REGION_BASE_def
  obtain r1 s1 where r1: "sys_vm_memory_map 0x1000 (\<lambda>_ _. True) ?c1 (sys_vm_init vm_ex (\<lambda>_. 0)) = (r1, s1)"
    by fastforce
  have f1: "find_slot (\<lambda>i. \<not> vmap_active (sv_maps (sys_vm_init vm_ex (\<lambda>_. 0)) i)) SYS_VM_MAX = Some 0"
    by (simp add: slot_simps sys_vm_init_def map_zero_def SYS_VM_MAX_def)
  have s1: "r1 = lv2_ret CELL_OK" "sv_bump_ptr s1 = 0x62000000" "vm_ready (sv_vm s1)"
    "sv_maps s1 = (\<lambda>_. map_zero)(0 := \<lparr>vmap_active = True, vmap_addr = 0x60000000,
                    vmap_vsize = 0x2000000, vmap_psize = 0x10000\<rparr>)"
    using memory_map_ok [OF _ _ _ _ _ _ _ _ _ f1 r1, of "0x2000000" "0x10000"]
    by (simp_all add: sys_vm_init_def vm_ex_def cs)
  obtain r2 s2 where r2: "sys_vm_memory_map 0x1000 (\<lambda>_ _. True) ?c2 s1 = (r2, s2)" by fastforce
  have f2: "find_slot (\<lambda>i. \<not> vmap_active (sv_maps s1 i)) SYS_VM_MAX = Some 1"
    by (rule find_slot_SomeI) (simp_all add: s1(4) SYS_VM_MAX_def map_zero_def)
  have "r2 = lv2_ret CELL_OK"
    using memory_map_ok(1) [OF s1(3) _ _ _ _ _ _ _ _ f2 r2, of "0x4000000" "0x10000"]
    by (simp add: s1(2) cs)
  moreover have "sv_bump_ptr (sys_vm_init vm_ex (\<lambda>_. 0)) = 0x60000000" by (simp add: sys_vm_init_def cs)
  ultimately show ?thesis by (simp add: r1 r2 s1)
qed


lemma find_map_live:
  assumes inv: "sv_inv s" and i: "i < SYS_VM_MAX" "vmap_active (sv_maps s i)"
  shows "find_map (sv_maps s) (vmap_addr (sv_maps s i)) = Some i"
    and "find_map ((sv_maps s)(i := (sv_maps s i)\<lparr>vmap_active := False\<rparr>)) (vmap_addr (sv_maps s i)) = None"
proof -
  have uniq: "j = i" if "vmap_active (sv_maps s j)" "vmap_addr (sv_maps s j) = vmap_addr (sv_maps s i)" for j
  proof (rule ccontr)
    assume "j \<noteq> i"
    then show False using inv that i(2) unfolding sv_inv_def region_inv_def by blast
  qed
  show "find_map (sv_maps s) (vmap_addr (sv_maps s i)) = Some i"
    unfolding find_map_def
  proof (rule find_slot_unique [OF i(1)])
    show "vmap_active (sv_maps s i) \<and> vmap_addr (sv_maps s i) = vmap_addr (sv_maps s i)" using i(2) by simp
  qed (elim conjE, rule uniq)
  show "find_map ((sv_maps s)(i := (sv_maps s i)\<lparr>vmap_active := False\<rparr>)) (vmap_addr (sv_maps s i)) = None"
    unfolding find_map_def find_slot_None
  proof (intro allI impI)
    fix j
    show "\<not> (vmap_active (((sv_maps s)(i := (sv_maps s i)\<lparr>vmap_active := False\<rparr>)) j) \<and>
      vmap_addr (((sv_maps s)(i := (sv_maps s i)\<lparr>vmap_active := False\<rparr>)) j) = vmap_addr (sv_maps s i))"
      by (cases "j = i") (use uniq [of j] in auto)
  qed
qed

lemma find_map_psize: "find_map (t(i := (t i)\<lparr>vmap_psize := p\<rparr>)) a = find_map t a"
proof -
  have "(\<lambda>j. vmap_active ((t(i := (t i)\<lparr>vmap_psize := p\<rparr>)) j) \<and> vmap_addr ((t(i := (t i)\<lparr>vmap_psize := p\<rparr>)) j) = a)
      = (\<lambda>j. vmap_active (t j) \<and> vmap_addr (t j) = a)" by auto
  then show ?thesis by (simp only: find_map_def)
qed

text \<open>
  C38. The physical size of a mapping is exact bookkeeping: in any state the calls reach, for a
  live mapping of size \<open>p\<close> and a multiple \<open>n\<close> of 64 KB that does not overflow it,
  appending \<open>n\<close> and returning \<open>n\<close> both answer CELL_OK and restore the state; returning
  more than the mapping has answers EINVAL and changes nothing; after an unmap every append
  to that address answers EINVAL.
\<close>

theorem vm_append_return:
  assumes "s = snd (run_ops (vm_exec pg ok) calls (sys_vm_init v m))"
    and "i < SYS_VM_MAX" "vmap_active (sv_maps s i)" "LV2_ARG_U32 ctx 0 = vmap_addr (sv_maps s i)"
    and "LV2_ARG_U32 ctx 1 = n" "n \<noteq> 0" "n mod SYS_VM_PSIZE_ALIGN = 0"
    and "unat (vmap_psize (sv_maps s i)) + unat n < 2 ^ 32"
  shows "(let (r1, s1) = sys_vm_append_memory ctx s; (r2, s2) = sys_vm_return_memory ctx s1 in
            r1 = lv2_ret CELL_OK \<and>
            unat (vmap_psize (sv_maps s1 i)) = unat (vmap_psize (sv_maps s i)) + unat n \<and>
            r2 = lv2_ret CELL_OK \<and> s2 = s) \<and>
         (n > vmap_psize (sv_maps s i) \<longrightarrow> sys_vm_return_memory ctx s = (lv2_ret CELL_EINVAL, s)) \<and>
         fst (sys_vm_unmap ctx s) = lv2_ret CELL_OK \<and>
         fst (sys_vm_append_memory ctx (snd (sys_vm_unmap ctx s))) = lv2_ret CELL_EINVAL"
proof -
  have inv: "sv_inv s" unfolding assms(1) by (rule vm_region.run_inv [OF _ sv_init_inv]) simp
  note fm = find_map_live [OF inv assms(2,3)]
  let ?p = "vmap_psize (sv_maps s i)"
  have sum: "unat (?p + n) = unat ?p + unat n"
    using assms(8) by (subst unat_add_lem [THEN iffD1]) simp_all
  then have le: "\<not> n > ?p + n" by (simp add: word_less_nat_alt)
  have a: "sys_vm_append_memory ctx s = (lv2_ret CELL_OK, s\<lparr>sv_maps := (sv_maps s)(i := (sv_maps s i)\<lparr>vmap_psize := ?p + n\<rparr>)\<rparr>)"
    using assms(4-7) fm(1) unfolding sys_vm_append_memory_def Let_def by simp
  have r: "sys_vm_return_memory ctx (s\<lparr>sv_maps := (sv_maps s)(i := (sv_maps s i)\<lparr>vmap_psize := ?p + n\<rparr>)\<rparr>) =
      (lv2_ret CELL_OK, s)"
    using assms(4-7) fm(1) le unfolding sys_vm_return_memory_def Let_def by (simp add: find_map_psize)
  have "n > ?p \<Longrightarrow> sys_vm_return_memory ctx s = (lv2_ret CELL_EINVAL, s)"
    using assms(4-7) fm(1) unfolding sys_vm_return_memory_def Let_def by simp
  moreover have "fst (sys_vm_unmap ctx s) = lv2_ret CELL_OK"
    "fst (sys_vm_append_memory ctx (snd (sys_vm_unmap ctx s))) = lv2_ret CELL_EINVAL"
    using assms(4) fm by (simp_all add: sys_vm_unmap_def sys_vm_append_memory_def Let_def)
  ultimately show ?thesis using a r sum by simp
qed

lemma one_map:
  defines "s \<equiv> snd (run_ops (vm_exec 0x1000 (\<lambda>_ _. True))
    [Map (call_ctx 1 [0x2000000, 0x10000, 0, 0, 0, 0])] (sys_vm_init vm_ex (\<lambda>_. 0)))"
  shows "sv_maps s 0 = \<lparr>vmap_active = True, vmap_addr = 0x60000000, vmap_vsize = 0x2000000, vmap_psize = 0x10000\<rparr>"
proof -
  obtain r1 s1 where r1: "sys_vm_memory_map 0x1000 (\<lambda>_ _. True) (call_ctx 1 [0x2000000, 0x10000, 0, 0, 0, 0])
      (sys_vm_init vm_ex (\<lambda>_. 0)) = (r1, s1)" by fastforce
  have f1: "find_slot (\<lambda>i. \<not> vmap_active (sv_maps (sys_vm_init vm_ex (\<lambda>_. 0)) i)) SYS_VM_MAX = Some 0"
    by (simp add: slot_simps sys_vm_init_def map_zero_def SYS_VM_MAX_def)
  have "sv_maps s1 0 = \<lparr>vmap_active = True, vmap_addr = 0x60000000, vmap_vsize = 0x2000000, vmap_psize = 0x10000\<rparr>"
    using memory_map_ok(4) [OF _ _ _ _ _ _ _ _ _ f1 r1, of "0x2000000" "0x10000"]
    by (simp add: sys_vm_init_def vm_ex_def SYS_VM_VSIZE_ALIGN_def SYS_VM_PSIZE_ALIGN_def
        SYS_VM_REGION_END_def SYS_VM_REGION_BASE_def)
  then show ?thesis by (simp add: s_def r1)
qed

theorem vm_append_return_witness:
  "(let s = snd (run_ops (vm_exec 0x1000 (\<lambda>_ _. True))
        [Map (call_ctx 1 [0x2000000, 0x10000, 0, 0, 0, 0])] (sys_vm_init vm_ex (\<lambda>_. 0)))
    in sys_vm_return_memory (call_ctx 1 [0x60000000, 0x20000]) s = (lv2_ret CELL_EINVAL, s) \<and>
       fst (sys_vm_append_memory (call_ctx 1 [0x60000000, 0x20000]) s) = lv2_ret CELL_OK)"
proof -
  define s where "s = snd (run_ops (vm_exec 0x1000 (\<lambda>_ _. True))
        [Map (call_ctx 1 [0x2000000, 0x10000, 0, 0, 0, 0])] (sys_vm_init vm_ex (\<lambda>_. 0)))"
  note m0 = one_map [folded s_def]
  show ?thesis
    using vm_append_return [OF s_def, of 0 "call_ctx 1 [0x60000000, 0x20000]" "0x20000"] m0
    unfolding s_def [symmetric] Let_def
    by (simp add: SYS_VM_MAX_def SYS_VM_PSIZE_ALIGN_def case_prod_beta)
qed

end
