(* ===== verification/HostSync.thy ===== *)
theory HostSync
  imports Prelude
begin

text \<open>
  What the kernel objects use of the POSIX threads library: mutexes (recursive and
  error-checking) and condition variables. A thread is named by its guest thread id.
\<close>

section \<open>Mutexes\<close>

text \<open>
  \<open>hm_count\<close> is how often the owner holds the mutex. Locking an error-checking mutex one
  already owns, or unlocking a mutex one does not own, answers an error and changes nothing.
\<close>

record host_mutex =
  hm_recursive :: bool
  hm_owner :: "u64 option"
  hm_count :: nat

definition pthread_mutex_init :: "bool \<Rightarrow> host_mutex" where
  "pthread_mutex_init recur = \<lparr>hm_recursive = recur, hm_owner = None, hm_count = 0\<rparr>"

text \<open>Whether \<open>pthread_mutex_lock\<close> by thread \<open>t\<close> returns without waiting.\<close>

definition hm_available :: "u64 \<Rightarrow> host_mutex \<Rightarrow> bool" where
  "hm_available t m \<longleftrightarrow> hm_owner m = None \<or> hm_owner m = Some t"

definition pthread_mutex_lock :: "u64 \<Rightarrow> host_mutex \<Rightarrow> host_mutex" where
  "pthread_mutex_lock t m =
     (if hm_owner m = None then m\<lparr>hm_owner := Some t, hm_count := 1\<rparr>
      else if hm_owner m = Some t \<and> hm_recursive m then m\<lparr>hm_count := Suc (hm_count m)\<rparr>
      else m)"

text \<open>\<open>pthread_mutex_trylock\<close>: success, or EBUSY.\<close>

definition pthread_mutex_trylock :: "u64 \<Rightarrow> host_mutex \<Rightarrow> bool \<times> host_mutex" where
  "pthread_mutex_trylock t m =
     (if hm_owner m = None then (True, m\<lparr>hm_owner := Some t, hm_count := 1\<rparr>)
      else if hm_owner m = Some t \<and> hm_recursive m then (True, m\<lparr>hm_count := Suc (hm_count m)\<rparr>)
      else (False, m))"

definition pthread_mutex_unlock :: "u64 \<Rightarrow> host_mutex \<Rightarrow> host_mutex" where
  "pthread_mutex_unlock t m =
     (if hm_owner m = Some t
      then if hm_count m \<le> 1 then m\<lparr>hm_owner := None, hm_count := 0\<rparr>
           else m\<lparr>hm_count := hm_count m - 1\<rparr>
      else m)"

text \<open>The owner is set exactly while the count is positive.\<close>

definition hm_wf :: "host_mutex \<Rightarrow> bool" where
  "hm_wf m \<longleftrightarrow> (hm_owner m = None \<longleftrightarrow> hm_count m = 0)"

lemma hm_wf_init [simp]: "hm_wf (pthread_mutex_init b)"
  by (simp add: hm_wf_def pthread_mutex_init_def)

lemma hm_wf_lock: "hm_wf m \<Longrightarrow> hm_wf (pthread_mutex_lock t m)"
  by (auto simp: hm_wf_def pthread_mutex_lock_def)

lemma hm_wf_trylock: "hm_wf m \<Longrightarrow> hm_wf (snd (pthread_mutex_trylock t m))"
  by (auto simp: hm_wf_def pthread_mutex_trylock_def)

lemma hm_wf_unlock: "hm_wf m \<Longrightarrow> hm_wf (pthread_mutex_unlock t m)"
  by (auto simp: hm_wf_def pthread_mutex_unlock_def)

lemma hm_recursive_simps [simp]:
  "hm_recursive (pthread_mutex_lock t m) = hm_recursive m"
  "hm_recursive (pthread_mutex_unlock t m) = hm_recursive m"
  "hm_recursive (snd (pthread_mutex_trylock t m)) = hm_recursive m"
  by (simp_all add: pthread_mutex_lock_def pthread_mutex_unlock_def pthread_mutex_trylock_def)

lemma funpow_unlock:
  assumes "hm_owner m = Some t" and "hm_count m = n" and "0 < n"
  shows "(pthread_mutex_unlock t ^^ n) m = m\<lparr>hm_owner := None, hm_count := 0\<rparr>"
  using assms
proof (induction n arbitrary: m)
  case (Suc n)
  show ?case
  proof (cases n)
    case 0
    with Suc.prems show ?thesis by (simp add: pthread_mutex_unlock_def)
  next
    case (Suc k)
    have "(pthread_mutex_unlock t ^^ Suc n) m = (pthread_mutex_unlock t ^^ n) (pthread_mutex_unlock t m)"
      by (simp add: funpow_swap1)
    also have "pthread_mutex_unlock t m = m\<lparr>hm_count := n\<rparr>"
      using Suc.prems Suc by (simp add: pthread_mutex_unlock_def)
    finally show ?thesis using Suc.IH [of "m\<lparr>hm_count := n\<rparr>"] Suc.prems Suc by simp
  qed
qed simp

lemma funpow_lock:
  assumes "hm_owner m = None" and "hm_recursive m \<or> n \<le> 1" and "0 < n"
  shows "(pthread_mutex_lock t ^^ n) m = m\<lparr>hm_owner := Some t, hm_count := n\<rparr>"
  using assms
proof (induction n)
  case (Suc n)
  then show ?case by (cases n) (auto simp: pthread_mutex_lock_def)
qed simp

section \<open>Condition variables\<close>

text \<open>
  \<open>parked\<close> are the threads blocked on the variable, \<open>woken\<close> those that were taken off
  it by a signal, a broadcast or a spurious wake-up and have not yet reacquired the mutex.
  A signal takes one parked thread off when there is one; which one is not determined.
\<close>

record cvar =
  parked :: "u64 set"
  woken :: "u64 set"

definition cv_empty :: cvar where
  "cv_empty = \<lparr>parked = {}, woken = {}\<rparr>"

definition cv_park :: "u64 \<Rightarrow> cvar \<Rightarrow> cvar" where
  "cv_park t c = c\<lparr>parked := insert t (parked c)\<rparr>"

definition cv_wake :: "u64 \<Rightarrow> cvar \<Rightarrow> cvar" where
  "cv_wake t c = c\<lparr>parked := parked c - {t}, woken := insert t (woken c)\<rparr>"

text \<open>Thread \<open>t\<close> returns from its wait: \<open>cv_leave\<close> after a wake-up, \<open>cv_expire\<close> on time-out.\<close>

definition cv_leave :: "u64 \<Rightarrow> cvar \<Rightarrow> cvar" where
  "cv_leave t c = c\<lparr>woken := woken c - {t}\<rparr>"

definition cv_expire :: "u64 \<Rightarrow> cvar \<Rightarrow> cvar" where
  "cv_expire t c = c\<lparr>parked := parked c - {t}\<rparr>"

definition cv_broadcast :: "cvar \<Rightarrow> cvar" where
  "cv_broadcast c = c\<lparr>parked := {}, woken := woken c \<union> parked c\<rparr>"

inductive cv_signals :: "nat \<Rightarrow> cvar \<Rightarrow> cvar \<Rightarrow> bool" where
  none: "cv_signals 0 c c"
| idle: "parked c = {} \<Longrightarrow> cv_signals n c c' \<Longrightarrow> cv_signals (Suc n) c c'"
| wake: "t \<in> parked c \<Longrightarrow> cv_signals n (cv_wake t c) c' \<Longrightarrow> cv_signals (Suc n) c c'"

definition cv_wf :: "cvar \<Rightarrow> bool" where
  "cv_wf c \<longleftrightarrow> finite (parked c) \<and> finite (woken c) \<and> parked c \<inter> woken c = {}"

lemma cv_wf_empty [simp]: "cv_wf cv_empty"
  by (simp add: cv_wf_def cv_empty_def)

lemma cv_wf_simps:
  assumes "cv_wf c"
  shows "t \<notin> parked c \<union> woken c \<Longrightarrow> cv_wf (cv_park t c)"
    and "t \<in> woken c \<Longrightarrow> cv_wf (cv_leave t c)"
    and "t \<in> parked c \<Longrightarrow> cv_wf (cv_expire t c)"
    and "t \<in> parked c \<Longrightarrow> cv_wf (cv_wake t c)"
    and "cv_wf (cv_broadcast c)"
  using assms by (auto simp: cv_wf_def cv_park_def cv_leave_def cv_expire_def cv_wake_def cv_broadcast_def)

lemma cv_card_simps:
  assumes "cv_wf c"
  shows "t \<notin> parked c \<union> woken c \<Longrightarrow> card (parked (cv_park t c)) = Suc (card (parked c))"
    and "woken (cv_park t c) = woken c"
    and "t \<in> woken c \<Longrightarrow> card (woken (cv_leave t c)) = card (woken c) - 1"
    and "parked (cv_leave t c) = parked c"
    and "t \<in> parked c \<Longrightarrow> card (parked (cv_expire t c)) = card (parked c) - 1"
    and "woken (cv_expire t c) = woken c"
    and "t \<in> parked c \<Longrightarrow> card (parked (cv_wake t c)) = card (parked c) - 1"
    and "t \<in> parked c \<Longrightarrow> card (woken (cv_wake t c)) = Suc (card (woken c))"
proof -
  show "card (woken (cv_wake t c)) = Suc (card (woken c))" if "t \<in> parked c"
  proof -
    from that assms have "t \<notin> woken c" by (auto simp: cv_wf_def)
    then show ?thesis by (simp add: cv_wake_def)
  qed
qed (auto simp: cv_park_def cv_leave_def cv_expire_def cv_wake_def)

lemma cv_members:
  "parked (cv_park t c) = insert t (parked c)"
  "woken (cv_leave t c) = woken c - {t}"
  "parked (cv_expire t c) = parked c - {t}"
  "parked (cv_wake t c) = parked c - {t}"
  "woken (cv_wake t c) = insert t (woken c)"
  by (simp_all add: cv_park_def cv_leave_def cv_expire_def cv_wake_def)

text \<open>
  \<open>n\<close> signals take \<open>min n |parked|\<close> threads off the variable and keep all the others.
\<close>

lemma cv_signals_conj:
  "cv_signals n c c' \<Longrightarrow> cv_wf c \<Longrightarrow>
     cv_wf c' \<and> parked c' \<union> woken c' = parked c \<union> woken c \<and>
     card (woken c') = card (woken c) + min n (card (parked c)) \<and>
     card (parked c') = card (parked c) - min n (card (parked c))"
proof (induction rule: cv_signals.induct)
  case (wake t c n c')
  have "t \<notin> woken c" using wake.hyps(1) wake.prems by (auto simp: cv_wf_def)
  then have "card (woken (cv_wake t c)) = Suc (card (woken c))" by (simp add: cv_wake_def)
  moreover have "cv_wf (cv_wake t c)" using wake.prems by (auto simp: cv_wf_def cv_wake_def)
  moreover have "card (parked (cv_wake t c)) = card (parked c) - 1"
    and "0 < card (parked c)"
    and "parked (cv_wake t c) \<union> woken (cv_wake t c) = parked c \<union> woken c"
    using wake.hyps(1) wake.prems by (auto simp: cv_wake_def cv_wf_def card_gt_0_iff)
  ultimately show ?case using wake.IH by (auto simp: min_def)
qed (auto simp: cv_wf_def)

lemma cv_signals_props:
  assumes "cv_signals n c c'" and "cv_wf c"
  shows "cv_wf c'"
    and "parked c' \<union> woken c' = parked c \<union> woken c"
    and "card (woken c') = card (woken c) + min n (card (parked c))"
    and "card (parked c') = card (parked c) - min n (card (parked c))"
  using cv_signals_conj [OF assms] by blast+

lemma cv_signals_total: "\<exists>c'. cv_signals n c c'"
proof (induction n arbitrary: c)
  case (Suc n)
  show ?case
  proof (cases "parked c = {}")
    case True
    with Suc show ?thesis by (blast intro: cv_signals.idle)
  next
    case False
    then obtain t where "t \<in> parked c" by blast
    with Suc show ?thesis by (blast intro: cv_signals.wake)
  qed
qed (blast intro: cv_signals.none)

end
