(* ===== verification/SysSemaphore.thy ===== *)
theory SysSemaphore
  imports GuestMemory HostSync
begin

unbundle bit_operations_syntax

text \<open>
  Kernel semaphores (runtime/syscalls/sys_semaphore.c), POSIX build. A table of 256
  counting semaphores; \<open>value\<close> is the only count, \<open>waiters\<close> the number of threads
  inside the wait loop. The handlers below leave out logging and the environment-variable
  diagnostics.

  A blocking wait is split where the code sleeps: \<open>sem_wait_check\<close> is one evaluation of
  the loop test with what follows it up to the next sleep or return,
  \<open>sem_wait_resume\<close> the code after a wake-up, \<open>sem_wait_expire\<close> the code after a
  time-out. Each runs under the semaphore's mutex, so a run of the system is an
  interleaving of these sections (\<open>sem_step\<close>).
\<close>

section \<open>Data\<close>

record sys_semaphore_info =
  sem_active :: bool
  sem_name :: "u8 list"
  sem_protocol :: u32
  sem_value :: int
  sem_max :: int
  sem_waiters :: int

type_synonym sem_table = "nat \<Rightarrow> sys_semaphore_info"

definition SYS_SEMAPHORE_MAX :: nat where
  "SYS_SEMAPHORE_MAX = 256"

definition sem_zero :: sys_semaphore_info where
  "sem_zero = \<lparr>sem_active = False, sem_name = replicate 8 0, sem_protocol = 0,
               sem_value = 0, sem_max = 0, sem_waiters = 0\<rparr>"

definition sem_init_table :: sem_table where
  "sem_init_table = (\<lambda>_. sem_zero)"

section \<open>System calls\<close>

text \<open>The new object of a creation: cleared, then count, maximum and the guest's attributes.\<close>

definition sem_new :: "ppu_context \<Rightarrow> mem \<Rightarrow> sys_semaphore_info" where
  "sem_new ctx m =
     (let attr_addr = LV2_ARG_PTR ctx 1;
          s = sem_zero\<lparr>sem_active := True, sem_value := LV2_ARG_S32 ctx 2, sem_max := LV2_ARG_S32 ctx 3\<rparr>
      in if attr_addr \<noteq> 0
         then s\<lparr>sem_protocol := read_be32 m attr_addr,
                sem_name := copy_bytes m (vm_to_host attr_addr + 8) 8\<rparr>
         else s)"

definition sys_semaphore_create ::
  "ppu_context \<Rightarrow> sem_table \<times> mem \<Rightarrow> u64 \<times> sem_table \<times> mem" where
  "sys_semaphore_create ctx st =
     (let (t, m) = st;
          id_out_addr = LV2_ARG_PTR ctx 0;
          initial = LV2_ARG_S32 ctx 2;
          max_val = LV2_ARG_S32 ctx 3
      in if max_val \<le> 0 \<or> initial < 0 \<or> initial > max_val then (lv2_ret CELL_EINVAL, t, m)
         else case find_slot (\<lambda>i. \<not> sem_active (t i)) SYS_SEMAPHORE_MAX of
           None \<Rightarrow> (lv2_ret CELL_EAGAIN, t, m)
         | Some slot \<Rightarrow>
             let s = sem_new ctx m;
                 sem_id = of_nat (slot + 1);
                 m' = (if id_out_addr \<noteq> 0 then write_be32 m id_out_addr sem_id else m)
             in (lv2_ret CELL_OK, t(slot := s), m'))"

definition sys_semaphore_destroy :: "ppu_context \<Rightarrow> sem_table \<Rightarrow> u64 \<times> sem_table" where
  "sys_semaphore_destroy ctx t =
     (let sem_id = unat (LV2_ARG_U32 ctx 0)
      in if sem_id = 0 \<or> sem_id > SYS_SEMAPHORE_MAX then (lv2_ret CELL_ESRCH, t)
         else if \<not> sem_active (t (sem_id - 1)) then (lv2_ret CELL_ESRCH, t)
         else (lv2_ret CELL_OK, t(sem_id - 1 := (t (sem_id - 1))\<lparr>sem_active := False\<rparr>)))"

datatype 'r blocking = Returns 'r | Blocks

definition sem_wait_check :: "sys_semaphore_info \<Rightarrow> u64 blocking \<times> sys_semaphore_info" where
  "sem_wait_check s =
     (if sem_value s \<le> 0 then (Blocks, s\<lparr>sem_waiters := s32 (sem_waiters s + 1)\<rparr>)
      else (Returns (lv2_ret CELL_OK), s\<lparr>sem_value := s32 (sem_value s - 1)\<rparr>))"

definition sem_wait_resume :: "sys_semaphore_info \<Rightarrow> u64 blocking \<times> sys_semaphore_info" where
  "sem_wait_resume s = sem_wait_check (s\<lparr>sem_waiters := s32 (sem_waiters s - 1)\<rparr>)"

definition sem_wait_expire :: "sys_semaphore_info \<Rightarrow> u64 blocking \<times> sys_semaphore_info" where
  "sem_wait_expire s =
     (Returns (lv2_ret CELL_ETIMEDOUT), s\<lparr>sem_waiters := s32 (sem_waiters s - 1)\<rparr>)"

definition sys_semaphore_wait :: "ppu_context \<Rightarrow> sem_table \<Rightarrow> u64 blocking \<times> sem_table" where
  "sys_semaphore_wait ctx t =
     (let sem_id = unat (LV2_ARG_U32 ctx 0)
      in if sem_id = 0 \<or> sem_id > SYS_SEMAPHORE_MAX then (Returns (lv2_ret CELL_ESRCH), t)
         else if \<not> sem_active (t (sem_id - 1)) then (Returns (lv2_ret CELL_ESRCH), t)
         else let (r, s) = sem_wait_check (t (sem_id - 1)) in (r, t(sem_id - 1 := s)))"

definition sem_trywait_locked :: "sys_semaphore_info \<Rightarrow> u64 \<times> sys_semaphore_info" where
  "sem_trywait_locked s =
     (if sem_value s \<le> 0 then (lv2_ret CELL_EBUSY, s)
      else (lv2_ret CELL_OK, s\<lparr>sem_value := s32 (sem_value s - 1)\<rparr>))"

definition sys_semaphore_trywait :: "ppu_context \<Rightarrow> sem_table \<Rightarrow> u64 \<times> sem_table" where
  "sys_semaphore_trywait ctx t =
     (let sem_id = unat (LV2_ARG_U32 ctx 0)
      in if sem_id = 0 \<or> sem_id > SYS_SEMAPHORE_MAX then (lv2_ret CELL_ESRCH, t)
         else if \<not> sem_active (t (sem_id - 1)) then (lv2_ret CELL_ESRCH, t)
         else let (r, s) = sem_trywait_locked (t (sem_id - 1)) in (r, t(sem_id - 1 := s)))"

text \<open>
  The locked section of a post. The second component is the number of
  \<open>pthread_cond_signal\<close> calls it makes.
\<close>

definition sem_post_locked :: "int \<Rightarrow> sys_semaphore_info \<Rightarrow> u64 \<times> nat \<times> sys_semaphore_info" where
  "sem_post_locked count s =
     (if s32 (sem_value s + count) > sem_max s then (lv2_ret CELL_EBUSY, 0, s)
      else let s = s\<lparr>sem_value := s32 (sem_value s + count)\<rparr>;
               wake = (if count < sem_waiters s then count else sem_waiters s)
           in (lv2_ret CELL_OK, nat wake, s))"

definition sys_semaphore_post :: "ppu_context \<Rightarrow> sem_table \<Rightarrow> u64 \<times> nat \<times> sem_table" where
  "sys_semaphore_post ctx t =
     (let sem_id = unat (LV2_ARG_U32 ctx 0);
          count = LV2_ARG_S32 ctx 1
      in if sem_id = 0 \<or> sem_id > SYS_SEMAPHORE_MAX then (lv2_ret CELL_ESRCH, 0, t)
         else if count \<le> 0 then (lv2_ret CELL_EINVAL, 0, t)
         else if \<not> sem_active (t (sem_id - 1)) then (lv2_ret CELL_ESRCH, 0, t)
         else let (r, wake, s) = sem_post_locked count (t (sem_id - 1))
              in (r, wake, t(sem_id - 1 := s)))"

definition sys_semaphore_get_value :: "ppu_context \<Rightarrow> sem_table \<times> mem \<Rightarrow> u64 \<times> sem_table \<times> mem" where
  "sys_semaphore_get_value ctx st =
     (let (t, m) = st;
          sem_id = unat (LV2_ARG_U32 ctx 0);
          out_addr = LV2_ARG_PTR ctx 1
      in if sem_id = 0 \<or> sem_id > SYS_SEMAPHORE_MAX then (lv2_ret CELL_ESRCH, t, m)
         else if \<not> sem_active (t (sem_id - 1)) then (lv2_ret CELL_ESRCH, t, m)
         else let val = sem_value (t (sem_id - 1));
                  m' = (if out_addr \<noteq> 0 then write_be32 m out_addr (word_of_int val) else m)
              in (lv2_ret CELL_OK, t, m'))"

section \<open>The count stays between zero and its maximum\<close>

definition sem_wf :: "sys_semaphore_info \<Rightarrow> bool" where
  "sem_wf s \<longleftrightarrow> (sem_active s \<longrightarrow> 0 \<le> sem_value s \<and> sem_value s \<le> sem_max s \<and> in_s32 (sem_max s))"

definition sem_table_wf :: "sem_table \<Rightarrow> bool" where
  "sem_table_wf t \<longleftrightarrow> (\<forall>i. sem_wf (t i))"

lemma sem_wait_check_wf: "sem_wf s \<Longrightarrow> sem_wf (snd (sem_wait_check s))"
  by (auto simp: sem_wf_def sem_wait_check_def s32_id in_s32_def)

lemma sem_trywait_locked_wf: "sem_wf s \<Longrightarrow> sem_wf (snd (sem_trywait_locked s))"
  by (auto simp: sem_wf_def sem_trywait_locked_def s32_id in_s32_def)

text \<open>
  A post keeps the bounds when the sum fits 32 bits; the handler's own test does not ask
  for that.
\<close>

lemma sem_post_locked_wf:
  assumes "sem_wf s" and "0 < count" and "sem_value s + count < 2147483648"
  shows "sem_wf (snd (snd (sem_post_locked count s)))"
  using assms by (auto simp: sem_wf_def sem_post_locked_def s32_id in_s32_def Let_def)

lemma sem_table_update: "sem_table_wf t \<Longrightarrow> sem_wf s \<Longrightarrow> sem_table_wf (t(i := s))"
  by (simp add: sem_table_wf_def)

lemma sem_table_lookup: "sem_table_wf t \<Longrightarrow> sem_wf (t i)"
  by (simp add: sem_table_wf_def)

section \<open>Interleavings\<close>

text \<open>
  One live semaphore with its condition variable and two counters that are not in the code:
  tokens taken and tokens posted since the start.
\<close>

record sem_sys =
  ss_sem :: sys_semaphore_info
  ss_cv :: cvar
  ss_taken :: int
  ss_posted :: int

inductive sem_step :: "sem_sys \<Rightarrow> sem_sys \<Rightarrow> bool" where
  wait_take: "valid_tid t \<Longrightarrow> t \<notin> parked (ss_cv S) \<union> woken (ss_cv S) \<Longrightarrow>
      sem_wait_check (ss_sem S) = (Returns r, s') \<Longrightarrow>
      sem_step S (S\<lparr>ss_sem := s', ss_taken := ss_taken S + 1\<rparr>)"
| wait_park: "valid_tid t \<Longrightarrow> t \<notin> parked (ss_cv S) \<union> woken (ss_cv S) \<Longrightarrow>
      sem_wait_check (ss_sem S) = (Blocks, s') \<Longrightarrow>
      sem_step S (S\<lparr>ss_sem := s', ss_cv := cv_park t (ss_cv S)\<rparr>)"
| resume_take: "t \<in> woken (ss_cv S) \<Longrightarrow> sem_wait_resume (ss_sem S) = (Returns r, s') \<Longrightarrow>
      sem_step S (S\<lparr>ss_sem := s', ss_cv := cv_leave t (ss_cv S), ss_taken := ss_taken S + 1\<rparr>)"
| resume_park: "t \<in> woken (ss_cv S) \<Longrightarrow> sem_wait_resume (ss_sem S) = (Blocks, s') \<Longrightarrow>
      sem_step S (S\<lparr>ss_sem := s', ss_cv := cv_park t (cv_leave t (ss_cv S))\<rparr>)"
| expire: "t \<in> parked (ss_cv S) \<Longrightarrow> sem_wait_expire (ss_sem S) = (r, s') \<Longrightarrow>
      sem_step S (S\<lparr>ss_sem := s', ss_cv := cv_expire t (ss_cv S)\<rparr>)"
| spurious: "t \<in> parked (ss_cv S) \<Longrightarrow> sem_step S (S\<lparr>ss_cv := cv_wake t (ss_cv S)\<rparr>)"
| trywait_ok: "sem_trywait_locked (ss_sem S) = (r, s') \<Longrightarrow> r = lv2_ret CELL_OK \<Longrightarrow>
      sem_step S (S\<lparr>ss_sem := s', ss_taken := ss_taken S + 1\<rparr>)"
| trywait_busy: "sem_trywait_locked (ss_sem S) = (r, s') \<Longrightarrow> r \<noteq> lv2_ret CELL_OK \<Longrightarrow>
      sem_step S (S\<lparr>ss_sem := s'\<rparr>)"
| post_ok: "0 < count \<Longrightarrow> sem_value (ss_sem S) + count < 2147483648 \<Longrightarrow>
      sem_post_locked count (ss_sem S) = (r, wake, s') \<Longrightarrow> r = lv2_ret CELL_OK \<Longrightarrow>
      cv_signals wake (ss_cv S) c' \<Longrightarrow>
      sem_step S (S\<lparr>ss_sem := s', ss_cv := c', ss_posted := ss_posted S + count\<rparr>)"
| post_busy: "0 < count \<Longrightarrow> sem_value (ss_sem S) + count < 2147483648 \<Longrightarrow>
      sem_post_locked count (ss_sem S) = (r, wake, s') \<Longrightarrow> r \<noteq> lv2_ret CELL_OK \<Longrightarrow>
      cv_signals wake (ss_cv S) c' \<Longrightarrow>
      sem_step S (S\<lparr>ss_sem := s', ss_cv := c'\<rparr>)"

definition sem_start :: "int \<Rightarrow> int \<Rightarrow> sem_sys" where
  "sem_start initial max_val =
     \<lparr>ss_sem = sem_zero\<lparr>sem_active := True, sem_value := initial, sem_max := max_val\<rparr>,
      ss_cv = cv_empty, ss_taken = 0, ss_posted = 0\<rparr>"

inductive sem_reach :: "int \<Rightarrow> int \<Rightarrow> sem_sys \<Rightarrow> bool" for initial max_val where
  start: "sem_reach initial max_val (sem_start initial max_val)"
| step: "sem_reach initial max_val S \<Longrightarrow> sem_step S S' \<Longrightarrow> sem_reach initial max_val S'"

text \<open>
  The invariant. The last clause is what makes the wake-ups sufficient: while a thread is
  parked, there are at least as many threads on their way back to the count as tokens.
\<close>

definition sem_inv :: "int \<Rightarrow> int \<Rightarrow> sem_sys \<Rightarrow> bool" where
  "sem_inv initial max_val S \<longleftrightarrow>
     cv_wf (ss_cv S) \<and> parked (ss_cv S) \<union> woken (ss_cv S) \<subseteq> {t. valid_tid t} \<and>
     sem_active (ss_sem S) \<and> sem_max (ss_sem S) = max_val \<and> sem_wf (ss_sem S) \<and>
     sem_waiters (ss_sem S) = int (card (parked (ss_cv S))) + int (card (woken (ss_cv S))) \<and>
     sem_value (ss_sem S) + ss_taken S = initial + ss_posted S \<and>
     (parked (ss_cv S) \<noteq> {} \<longrightarrow> sem_value (ss_sem S) \<le> int (card (woken (ss_cv S))))"

lemma cv_card_bound:
  assumes "cv_wf c" and "parked c \<union> woken c \<subseteq> {t. valid_tid t}"
  shows "card (parked c) + card (woken c) \<le> 64"
proof -
  have "card (parked c) + card (woken c) = card (parked c \<union> woken c)"
    using assms(1) by (simp add: cv_wf_def card_Un_disjoint)
  also have "\<dots> \<le> card {t. valid_tid t}" using assms(2) by (intro card_mono) auto
  finally show ?thesis using card_valid_tids by (simp add: PPU_THREAD_MAX_def)
qed

lemma cv_pos:
  assumes "cv_wf c"
  shows "t \<in> parked c \<Longrightarrow> 0 < card (parked c)" and "t \<in> woken c \<Longrightarrow> 0 < card (woken c)"
  using assms by (auto simp: cv_wf_def card_gt_0_iff)

lemma sem_inv_bounds:
  assumes "sem_inv initial max_val S"
  shows "0 \<le> sem_waiters (ss_sem S)" "sem_waiters (ss_sem S) \<le> 64"
    "0 \<le> sem_value (ss_sem S)" "sem_value (ss_sem S) \<le> max_val" "in_s32 max_val"
    "in_s32 (sem_waiters (ss_sem S))"
  using assms cv_card_bound [of "ss_cv S"] by (auto simp: sem_inv_def sem_wf_def in_s32_def)

lemma waiters_s32:
  "0 \<le> w \<Longrightarrow> w \<le> 64 \<Longrightarrow> s32 (w + 1) = w + 1 \<and> s32 (w - 1) = w - 1 \<and> s32 (s32 (w - 1) + 1) = w"
  by (simp add: s32_id in_s32_def)

lemma value_s32:
  "0 \<le> v \<Longrightarrow> v \<le> max_val \<Longrightarrow> in_s32 max_val \<Longrightarrow> s32 (v - 1) = v - 1"
  by (simp add: s32_id in_s32_def)

lemma sem_step_inv: "sem_step S S' \<Longrightarrow> sem_inv initial max_val S \<Longrightarrow> sem_inv initial max_val S'"
proof (induction rule: sem_step.induct)
  case (wait_take t S r s')
  then show ?case
    using sem_inv_bounds [OF wait_take.prems]
    by (auto simp: sem_inv_def sem_wait_check_def value_s32 sem_wf_def split: if_splits)
next
  case (wait_park t S s')
  then show ?case
    using sem_inv_bounds [OF wait_park.prems]
    by (auto simp: sem_inv_def sem_wait_check_def waiters_s32 sem_wf_def cv_wf_simps cv_card_simps
        cv_members split: if_splits)
next
  case (resume_take t S r s')
  then show ?case
    using sem_inv_bounds [OF resume_take.prems] cv_pos [of "ss_cv S" t]
    by (auto simp: sem_inv_def sem_wait_resume_def sem_wait_check_def waiters_s32 value_s32 sem_wf_def
        cv_wf_simps cv_card_simps cv_members split: if_splits)
next
  case (expire t S r s')
  then show ?case
    using sem_inv_bounds [OF expire.prems] cv_pos [of "ss_cv S" t]
    by (auto simp: sem_inv_def sem_wait_expire_def waiters_s32 sem_wf_def
        cv_wf_simps cv_card_simps cv_members)
next
  case (spurious t S)
  then show ?case
    using cv_pos [of "ss_cv S" t] cv_card_simps(8) [of "ss_cv S" t, unfolded cv_members]
    by (auto simp: sem_inv_def cv_wf_simps cv_card_simps cv_members)
next
  case (trywait_ok S r s')
  then show ?case
    using sem_inv_bounds [OF trywait_ok.prems]
    by (auto simp: sem_inv_def sem_trywait_locked_def value_s32 sem_wf_def lv2_codes split: if_splits)
next
  case (trywait_busy S r s')
  then show ?case
    by (auto simp: sem_inv_def sem_trywait_locked_def split: if_splits)
next
  case (post_busy count S r wake s' c')
  then have "c' = ss_cv S" by (auto simp: sem_post_locked_def Let_def lv2_codes elim: cv_signals.cases split: if_splits)
  with post_busy show ?case by (auto simp: sem_inv_def sem_post_locked_def Let_def split: if_splits)
next
  case (resume_park t S s')
  let ?c = "cv_leave t (ss_cv S)"
  note inv = resume_park.prems
  have wf: "cv_wf (ss_cv S)" using inv by (simp add: sem_inv_def)
  then have c: "cv_wf ?c" "card (woken ?c) = card (woken (ss_cv S)) - 1" "parked ?c = parked (ss_cv S)"
    using resume_park.hyps(1) by (simp_all add: cv_wf_simps cv_card_simps)
  have "t \<notin> parked ?c \<union> woken ?c"
    using resume_park.hyps(1) wf by (auto simp: cv_wf_def cv_leave_def)
  then have "cv_wf (cv_park t ?c)" "card (parked (cv_park t ?c)) = Suc (card (parked (ss_cv S)))"
    "woken (cv_park t ?c) = woken ?c"
    using c by (simp_all add: cv_wf_simps cv_card_simps)
  moreover have "0 < card (woken (ss_cv S))" using cv_pos(2) [OF wf resume_park.hyps(1)] .
  moreover have "s' = ss_sem S \<and> sem_value (ss_sem S) \<le> 0"
    using resume_park.hyps(2) sem_inv_bounds [OF inv]
    by (auto simp: sem_wait_resume_def sem_wait_check_def waiters_s32 s32_id split: if_splits)
  moreover have "parked (cv_park t ?c) \<union> woken ?c \<subseteq> {t. valid_tid t}"
    using inv resume_park.hyps(1) by (auto simp: sem_inv_def cv_members cv_leave_def)
  ultimately show ?case using inv c(2) by (auto simp: sem_inv_def)
next
  case (post_ok count S r wake s' c')
  note inv = post_ok.prems and b = sem_inv_bounds [OF post_ok.prems]
  have wf: "cv_wf (ss_cv S)" using inv by (simp add: sem_inv_def)
  have s': "s' = (ss_sem S)\<lparr>sem_value := sem_value (ss_sem S) + count\<rparr>"
    and w: "int wake = min count (sem_waiters (ss_sem S))"
    and le: "sem_value (ss_sem S) + count \<le> max_val"
    using post_ok.hyps(1-4) b inv
    by (auto simp: sem_post_locked_def Let_def s32_id in_s32_def lv2_codes sem_inv_def split: if_splits)
  note sig = cv_signals_props [OF post_ok.hyps(5) wf]
  have "parked c' \<noteq> {} \<longrightarrow> sem_value (ss_sem S) + count \<le> int (card (woken c'))"
  proof
    assume "parked c' \<noteq> {}"
    then have "0 < card (parked c')" using sig(1) by (simp add: cv_wf_def card_gt_0_iff)
    then have "wake < card (parked (ss_cv S))" using sig(4) by (auto simp: min_def split: if_splits)
    moreover then have "parked (ss_cv S) \<noteq> {}" by auto
    ultimately have "int wake = count" and "sem_value (ss_sem S) \<le> int (card (woken (ss_cv S)))"
      using w inv by (auto simp: sem_inv_def min_def split: if_splits)
    then show "sem_value (ss_sem S) + count \<le> int (card (woken c'))"
      using sig(3) \<open>wake < card (parked (ss_cv S))\<close> by (simp add: min_def)
  qed
  then show ?case
    using inv sig le s' post_ok.hyps(1) by (auto simp: sem_inv_def sem_wf_def)
qed

lemma sem_start_inv:
  "0 \<le> initial \<Longrightarrow> initial \<le> max_val \<Longrightarrow> in_s32 max_val \<Longrightarrow>
   sem_inv initial max_val (sem_start initial max_val)"
  by (simp add: sem_inv_def sem_start_def sem_wf_def sem_zero_def) (simp add: cv_empty_def)

lemma sem_reach_inv:
  assumes "sem_reach initial max_val S" "0 \<le> initial" "initial \<le> max_val" "in_s32 max_val"
  shows "sem_inv initial max_val S"
  using assms by (induction rule: sem_reach.induct) (auto intro: sem_start_inv sem_step_inv)

section \<open>Properties\<close>


text \<open>
  A state with a token, a sleeping and a woken thread: threads 1 and 2 park on an empty
  semaphore, then one token is posted.
\<close>

definition sem_example :: sem_sys where
  "sem_example = (sem_start 0 5)\<lparr>ss_sem := (ss_sem (sem_start 0 5))\<lparr>sem_waiters := 2, sem_value := 1\<rparr>,
     ss_cv := \<lparr>parked = {2}, woken = {1}\<rparr>, ss_posted := 1\<rparr>"

lemma sem_reach_example: "sem_reach 0 5 sem_example"
proof -
  let ?s1 = "(sem_start 0 5)\<lparr>ss_sem := (ss_sem (sem_start 0 5))\<lparr>sem_waiters := 1\<rparr>,
               ss_cv := cv_park 1 (ss_cv (sem_start 0 5))\<rparr>"
  let ?s2 = "?s1\<lparr>ss_sem := (ss_sem ?s1)\<lparr>sem_waiters := 2\<rparr>, ss_cv := cv_park 2 (ss_cv ?s1)\<rparr>"
  have "sem_step (sem_start 0 5) ?s1"
    by (rule sem_step.wait_park [of 1])
       (simp_all add: valid_tid_def PPU_THREAD_MAX_def sem_start_def cv_empty_def sem_wait_check_def
          sem_zero_def s32_id in_s32_def)
  then have r1: "sem_reach 0 5 ?s1" by (rule sem_reach.step [OF sem_reach.start])
  have "sem_step ?s1 ?s2"
    by (rule sem_step.wait_park [of 2])
       (simp_all add: valid_tid_def PPU_THREAD_MAX_def sem_start_def cv_empty_def cv_park_def
          sem_wait_check_def sem_zero_def s32_id in_s32_def)
  then have r2: "sem_reach 0 5 ?s2" by (rule sem_reach.step [OF r1])
  have "cv_signals (Suc 0) (ss_cv ?s2) (cv_wake 1 (ss_cv ?s2))"
    by (rule cv_signals.wake [OF _ cv_signals.none]) (simp add: cv_park_def)
  moreover have "sem_post_locked 1 (ss_sem ?s2) =
      (lv2_ret CELL_OK, Suc 0, (ss_sem ?s2)\<lparr>sem_value := 1\<rparr>)"
    by (simp add: sem_post_locked_def sem_start_def sem_zero_def s32_id in_s32_def Let_def)
  ultimately have "sem_step ?s2 (?s2\<lparr>ss_sem := (ss_sem ?s2)\<lparr>sem_value := 1\<rparr>,
      ss_cv := cv_wake 1 (ss_cv ?s2), ss_posted := ss_posted ?s2 + 1\<rparr>)"
    by (intro sem_step.post_ok) (simp_all add: sem_start_def sem_zero_def)
  then have "sem_reach 0 5 (?s2\<lparr>ss_sem := (ss_sem ?s2)\<lparr>sem_value := 1\<rparr>,
      ss_cv := cv_wake 1 (ss_cv ?s2), ss_posted := ss_posted ?s2 + 1\<rparr>)"
    by (rule sem_reach.step [OF r2])
  also have "?s2\<lparr>ss_sem := (ss_sem ?s2)\<lparr>sem_value := 1\<rparr>,
      ss_cv := cv_wake 1 (ss_cv ?s2), ss_posted := ss_posted ?s2 + 1\<rparr> = sem_example"
    by (simp add: sem_example_def sem_start_def cv_wake_def cv_park_def cv_empty_def insert_Diff_if)
  finally show ?thesis .
qed




section \<open>The table of semaphores\<close>

definition sem_args_ok :: "ppu_context \<Rightarrow> bool" where
  "sem_args_ok ctx \<longleftrightarrow> 0 < LV2_ARG_S32 ctx 3 \<and> 0 \<le> LV2_ARG_S32 ctx 2 \<and>
     LV2_ARG_S32 ctx 2 \<le> LV2_ARG_S32 ctx 3"

lemma sem_new_simps [simp]:
  "sem_active (sem_new ctx m)" "sem_value (sem_new ctx m) = LV2_ARG_S32 ctx 2"
  "sem_max (sem_new ctx m) = LV2_ARG_S32 ctx 3" "sem_waiters (sem_new ctx m) = 0"
  by (simp_all add: sem_new_def sem_zero_def Let_def)

lemma sem_create_ok:
  assumes "sem_args_ok ctx" and "find_slot (\<lambda>i. \<not> sem_active (t i)) SYS_SEMAPHORE_MAX = Some i"
  shows "sys_semaphore_create ctx (t, m) = (lv2_ret CELL_OK, t(i := sem_new ctx m),
    if LV2_ARG_PTR ctx 0 \<noteq> 0 then write_be32 m (LV2_ARG_PTR ctx 0) (of_nat (i + 1)) else m)"
  using assms by (simp add: sys_semaphore_create_def sem_args_ok_def Let_def)

lemma sem_create_fail:
  "\<not> sem_args_ok ctx \<or> find_slot (\<lambda>i. \<not> sem_active (t i)) SYS_SEMAPHORE_MAX = None \<Longrightarrow>
   snd (sys_semaphore_create ctx (t, m)) = (t, m)"
  by (auto simp: sys_semaphore_create_def sem_args_ok_def Let_def split: option.splits)

lemma sem_destroy_ok:
  assumes "slot_live SYS_SEMAPHORE_MAX sem_active t h" and "unat (LV2_ARG_U32 ctx 0) = h"
  shows "sys_semaphore_destroy ctx t = (lv2_ret CELL_OK, t(h - 1 := (t (h - 1))\<lparr>sem_active := False\<rparr>))"
  using assms by (simp add: sys_semaphore_destroy_def slot_live_def)

interpretation semaphores: slot_array SYS_SEMAPHORE_MAX sem_active fst
  "\<lambda>ctx st. snd (sys_semaphore_create ctx st)"
  "\<lambda>h st. (snd (sys_semaphore_destroy (call_ctx 1 [of_nat h]) (fst st)), snd st)"
  sem_args_ok "\<lambda>h st. slot_live SYS_SEMAPHORE_MAX sem_active (fst st) h"
proof (unfold_locales, goal_cases)
  case (1 ctx st i)
  obtain t m where st: "st = (t, m)" by fastforce
  with sem_create_ok [of ctx t i m] 1 show ?case by (auto intro!: exI [of _ "sem_new ctx m"])
next
  case (2 st ctx)
  obtain t m where st: "st = (t, m)" by fastforce
  with sem_create_fail [of ctx t m] 2 show ?case by simp
next
  case (3 h st)
  have "unat (LV2_ARG_U32 (call_ctx 1 [of_nat h]) 0) = h"
    using 3 handle_ctx [of h 256] by (simp add: slot_live_def SYS_SEMAPHORE_MAX_def)
  from sem_destroy_ok [OF 3 this] 3 show ?case
    by (auto simp: slot_live_def intro!: exI [of _ "(fst st (h - 1))\<lparr>sem_active := False\<rparr>"])
qed

text \<open>
  Semaphore ids: creating semaphores one after the other until the table of 256 is full
  gives pairwise distinct ids, none of them the id of a semaphore that already existed, and
  every older semaphore survives.
\<close>

theorem semaphore_ids_fresh:
  assumes "\<forall>c \<in> set cs. sem_args_ok c" and "semaphores.ht.create_all cs st = (hs, st')"
  shows "distinct hs \<and>
     (\<forall>h \<in> set hs. \<not> slot_live SYS_SEMAPHORE_MAX sem_active (fst st) h \<and>
                    slot_live SYS_SEMAPHORE_MAX sem_active (fst st') h) \<and>
     (\<forall>k. slot_live SYS_SEMAPHORE_MAX sem_active (fst st) k \<longrightarrow>
          slot_live SYS_SEMAPHORE_MAX sem_active (fst st') k)"
  using semaphores.ht.create_all_fresh [OF assms] .

lemma sem_init_next: "slot_next SYS_SEMAPHORE_MAX sem_active sem_init_table = Some 1"
  by (simp add: slot_next_def slot_simps sem_init_table_def sem_zero_def SYS_SEMAPHORE_MAX_def)

theorem semaphore_ids_fresh_witness:
  "distinct [1 :: nat] \<and> \<not> slot_live SYS_SEMAPHORE_MAX sem_active sem_init_table 1 \<and>
   slot_live SYS_SEMAPHORE_MAX sem_active
     (fst (snd (sys_semaphore_create (call_ctx 1 [0, 0, 1, 5]) (sem_init_table, \<lambda>_. 0)))) 1"
  using semaphore_ids_fresh [of "[call_ctx 1 [0, 0, 1, 5]]" "(sem_init_table, \<lambda>_. 0)" "[1]"
      "snd (sys_semaphore_create (call_ctx 1 [0, 0, 1, 5]) (sem_init_table, \<lambda>_. 0))"]
  by (simp add: sem_args_ok_def sem_init_next)

text \<open>
  Every semaphore call keeps each live semaphore's count between zero and its maximum:
  creation, destruction, the locked sections of wait and trywait, and a post whose sum with
  the current count fits a 32-bit integer.
\<close>

theorem sem_calls_keep_bounds:
  assumes "sem_table_wf t"
  shows "sem_table_wf (fst (snd (sys_semaphore_create ctx (t, m)))) \<and>
         sem_table_wf (snd (sys_semaphore_destroy ctx t)) \<and>
         sem_table_wf (snd (sys_semaphore_wait ctx t)) \<and>
         sem_table_wf (snd (sys_semaphore_trywait ctx t)) \<and>
         (sem_value (t (unat (LV2_ARG_U32 ctx 0) - 1)) + LV2_ARG_S32 ctx 1 < 2147483648 \<longrightarrow>
          sem_table_wf (snd (snd (sys_semaphore_post ctx t)))) \<and>
         fst (snd (sys_semaphore_get_value ctx (t, m))) = t"
proof (intro conjI impI)
  show "sem_table_wf (fst (snd (sys_semaphore_create ctx (t, m))))"
  proof (cases "sem_args_ok ctx \<and> (\<exists>i. find_slot (\<lambda>i. \<not> sem_active (t i)) SYS_SEMAPHORE_MAX = Some i)")
    case True
    then obtain i where i: "sem_args_ok ctx" "find_slot (\<lambda>i. \<not> sem_active (t i)) SYS_SEMAPHORE_MAX = Some i"
      by blast
    from sem_create_ok [OF i, of m] i(1) assms show ?thesis
      by (auto simp: sem_args_ok_def LV2_ARG_S32_range sem_wf_def intro!: sem_table_update)
  qed (use assms sem_create_fail [of ctx t m] in auto)
  show "sem_table_wf (snd (sys_semaphore_destroy ctx t))"
    using assms by (auto simp: sys_semaphore_destroy_def Let_def sem_wf_def intro: sem_table_update)
  show "sem_table_wf (snd (sys_semaphore_wait ctx t))"
    using assms sem_wait_check_wf [OF sem_table_lookup [OF assms]]
    by (auto simp: sys_semaphore_wait_def Let_def case_prod_beta intro: sem_table_update)
  show "sem_table_wf (snd (sys_semaphore_trywait ctx t))"
    using assms sem_trywait_locked_wf [OF sem_table_lookup [OF assms]]
    by (auto simp: sys_semaphore_trywait_def Let_def case_prod_beta intro: sem_table_update)
  show "sem_table_wf (snd (snd (sys_semaphore_post ctx t)))"
    if "sem_value (t (unat (LV2_ARG_U32 ctx 0) - 1)) + LV2_ARG_S32 ctx 1 < 2147483648"
    using assms that sem_post_locked_wf [OF sem_table_lookup [OF assms]]
    by (auto simp: sys_semaphore_post_def Let_def case_prod_beta intro: sem_table_update)
  show "fst (snd (sys_semaphore_get_value ctx (t, m))) = t"
    by (simp add: sys_semaphore_get_value_def Let_def)
qed

lemma sem_init_wf: "sem_table_wf sem_init_table"
  by (simp add: sem_table_wf_def sem_init_table_def sem_wf_def sem_zero_def)

theorem sem_calls_keep_bounds_witness:
  "sem_table_wf (snd (sys_semaphore_wait (call_ctx 1 [1]) sem_init_table))"
  using sem_calls_keep_bounds [OF sem_init_wf, of "call_ctx 1 [1]" "\<lambda>_. 0"] by blast

text \<open>
  The bound of a post is lost when the 32-bit sum wraps: posting 2147483647 tokens to a
  semaphore of value 1 answers CELL_OK and leaves the count at the most negative integer.
\<close>

theorem sem_post_wraps:
  "(let t = sem_init_table(0 := sem_zero\<lparr>sem_active := True, sem_value := 1, sem_max := 5\<rparr>);
        (r, wake, t') = sys_semaphore_post (call_ctx 1 [1, 2147483647]) t
    in r = lv2_ret CELL_OK \<and> sem_value (t' 0) = -2147483648)"
  by (simp add: sys_semaphore_post_def sem_post_locked_def SYS_SEMAPHORE_MAX_def sem_zero_def
      sem_init_table_def s32_def Let_def)

text \<open>
  C25. A created semaphore can be read back: a successful creation with an output address
  stores an id there, big-endian, and \<open>sys_semaphore_get_value\<close> on that id answers CELL_OK
  and stores the initial count.
\<close>

theorem sem_create_get_value:
  assumes "sem_args_ok ctx" and "LV2_ARG_PTR ctx 0 \<noteq> 0"
    and "sys_semaphore_create ctx (t, m) = (r, t', m')" and "r \<noteq> lv2_ret CELL_EAGAIN"
    and "unat (LV2_ARG_U32 q 0) = unat (read_be32 m' (LV2_ARG_PTR ctx 0))"
    and "LV2_ARG_PTR q 1 \<noteq> 0" and "sys_semaphore_get_value q (t', m') = (r', t'', m'')"
  shows "r' = lv2_ret CELL_OK \<and> sint (read_be32 m'' (LV2_ARG_PTR q 1)) = LV2_ARG_S32 ctx 2"
proof -
  obtain i where i: "find_slot (\<lambda>i. \<not> sem_active (t i)) SYS_SEMAPHORE_MAX = Some i"
    using assms(1,3,4)
    by (cases "find_slot (\<lambda>i. \<not> sem_active (t i)) SYS_SEMAPHORE_MAX")
       (auto simp: sys_semaphore_create_def sem_args_ok_def Let_def)
  then have lt: "i < 256" by (auto simp: SYS_SEMAPHORE_MAX_def dest: find_slot_SomeD)
  have s: "t' = t(i := sem_new ctx m)" "m' = write_be32 m (LV2_ARG_PTR ctx 0) (of_nat (i + 1))"
    using sem_create_ok [OF assms(1) i, of m] assms(2,3) by auto
  have "unat (LV2_ARG_U32 q 0) = i + 1"
    using assms(5) s(2) lt by (simp add: unat_of_nat take_bit_nat_eq_self del: of_nat_Suc)
  then show ?thesis
    using assms(6,7) s lt LV2_ARG_S32_range [of ctx 2]
    by (auto simp: sys_semaphore_get_value_def SYS_SEMAPHORE_MAX_def Let_def LV2_ARG_S32_def)
qed

lemma sem_create_example:
  "sys_semaphore_create (call_ctx 1 [0x1000, 0, 1, 5]) (sem_init_table, \<lambda>_. 0) =
     (lv2_ret CELL_OK, sem_init_table(0 := sem_new (call_ctx 1 [0x1000, 0, 1, 5]) (\<lambda>_. 0)),
      write_be32 (\<lambda>_. 0) 0x1000 1)"
  by (subst sem_create_ok [of _ _ 0])
     (simp_all add: sem_args_ok_def slot_simps sem_init_table_def sem_zero_def SYS_SEMAPHORE_MAX_def)

theorem sem_create_get_value_witness:
  "(let (r, t, m) = sys_semaphore_create (call_ctx 1 [0x1000, 0, 1, 5]) (sem_init_table, \<lambda>_. 0);
        (r', t', m') = sys_semaphore_get_value (call_ctx 1 [1, 0x2000]) (t, m)
    in r' = lv2_ret CELL_OK \<and> sint (read_be32 m' 0x2000) = 1)"
proof -
  let ?t = "sem_init_table(0 := sem_new (call_ctx 1 [0x1000, 0, 1, 5]) (\<lambda>_. 0))"
  let ?m = "write_be32 (\<lambda>_. 0) 0x1000 1"
  obtain r' t' m' where g: "sys_semaphore_get_value (call_ctx 1 [1, 0x2000]) (?t, ?m) = (r', t', m')"
    by (metis prod_cases3)
  have "r' = lv2_ret CELL_OK \<and> sint (read_be32 m' (LV2_ARG_PTR (call_ctx 1 [1, 0x2000]) 1)) =
        LV2_ARG_S32 (call_ctx 1 [0x1000, 0, 1, 5]) 2"
    by (rule sem_create_get_value [OF _ _ sem_create_example _ _ _ g])
       (simp_all add: sem_args_ok_def lv2_codes)
  then show ?thesis by (simp add: sem_create_example g)
qed

end
