(* ===== verification/SysMutex.thy ===== *)
theory SysMutex
  imports GuestMemory HostSync SysSemaphore
begin

text \<open>
  Kernel mutexes (runtime/syscalls/sys_mutex.c), POSIX build: a table of 8192 mutexes, each
  a host mutex (recursive or error-checking, as the guest asked) with the owner, the guest's
  lock count, the number of condition variables created on it and the number of condition
  waiters on their way back to it.

  \<open>lock_count\<close>, \<open>cond_count\<close> and \<open>relock_pending\<close> are unbounded integers here: the
  last two are bounded by the 8192 condition variables and the 64 threads, the first by the
  depth to which a thread nests its locks.

  A lock that has to wait is split where the code sleeps: \<open>sys_mutex_lock\<close> is the part up
  to the host lock, \<open>mtx_lock_acquired\<close> what follows once the host mutex has been taken.
\<close>

section \<open>Data\<close>

record sys_mutex_info =
  mtx_active :: bool
  mtx_name :: "u8 list"
  mtx_protocol :: u32
  mtx_recursive :: bool
  mtx_owner_tid :: u64
  mtx_lock_count :: int
  mtx_host :: host_mutex
  mtx_cond_count :: int
  mtx_relock_pending :: int

type_synonym mtx_table = "nat \<Rightarrow> sys_mutex_info"

definition SYS_MUTEX_MAX :: nat where
  "SYS_MUTEX_MAX = 8192"

definition SYS_SYNC_RECURSIVE :: u32 where
  "SYS_SYNC_RECURSIVE = 0x10"

definition mtx_zero :: sys_mutex_info where
  "mtx_zero = \<lparr>mtx_active = False, mtx_name = replicate 8 0, mtx_protocol = 0,
     mtx_recursive = False, mtx_owner_tid = 0, mtx_lock_count = 0,
     mtx_host = pthread_mutex_init False, mtx_cond_count = 0, mtx_relock_pending = 0\<rparr>"

definition mtx_init_table :: mtx_table where
  "mtx_init_table = (\<lambda>_. mtx_zero)"

section \<open>System calls\<close>

definition mtx_find_free :: "mtx_table \<Rightarrow> nat option" where
  "mtx_find_free t = find_slot (\<lambda>i. \<not> mtx_active (t i)) SYS_MUTEX_MAX"

definition mtx_new :: "ppu_context \<Rightarrow> mem \<Rightarrow> sys_mutex_info" where
  "mtx_new ctx m =
     (let attr_addr = LV2_ARG_PTR ctx 1;
          x = mtx_zero;
          x = (if attr_addr \<noteq> 0
               then x\<lparr>mtx_protocol := read_be32 m attr_addr,
                      mtx_recursive := (read_be32 m (attr_addr + 4) = SYS_SYNC_RECURSIVE),
                      mtx_name := copy_bytes m (vm_to_host attr_addr + 24) 8\<rparr>
               else x)
      in x\<lparr>mtx_host := pthread_mutex_init (mtx_recursive x), mtx_active := True\<rparr>)"

definition sys_mutex_create ::
  "ppu_context \<Rightarrow> mtx_table \<times> mem \<Rightarrow> u64 \<times> mtx_table \<times> mem" where
  "sys_mutex_create ctx st =
     (let (t, m) = st;
          id_out_addr = LV2_ARG_PTR ctx 0
      in case mtx_find_free t of
           None \<Rightarrow> (lv2_ret CELL_EAGAIN, t, m)
         | Some slot \<Rightarrow>
             let mutex_id = of_nat (slot + 1);
                 m' = (if id_out_addr \<noteq> 0 then write_be32 m id_out_addr mutex_id else m)
             in (lv2_ret CELL_OK, t(slot := mtx_new ctx m), m'))"

text \<open>The decision of a destruction, on the mutex of the slot: the answer and the new state.\<close>

definition mtx_destroy_locked :: "u64 \<Rightarrow> sys_mutex_info \<Rightarrow> u32 \<times> sys_mutex_info" where
  "mtx_destroy_locked tid x =
     (let (got, h) = pthread_mutex_trylock tid (mtx_host x)
      in if \<not> got then (CELL_EBUSY, x\<lparr>mtx_host := h\<rparr>)
         else if mtx_lock_count x > 0 \<or> mtx_relock_pending x > 0
         then (CELL_EBUSY, x\<lparr>mtx_host := pthread_mutex_unlock tid h\<rparr>)
         else if mtx_cond_count x > 0
         then (CELL_EPERM, x\<lparr>mtx_host := pthread_mutex_unlock tid h\<rparr>)
         else (CELL_OK, x\<lparr>mtx_active := False, mtx_host := pthread_mutex_unlock tid h\<rparr>))"

definition sys_mutex_destroy :: "ppu_context \<Rightarrow> mtx_table \<Rightarrow> u64 \<times> mtx_table" where
  "sys_mutex_destroy ctx t =
     (let mutex_id = unat (LV2_ARG_U32 ctx 0)
      in if mutex_id = 0 \<or> mutex_id > SYS_MUTEX_MAX then (lv2_ret CELL_ESRCH, t)
         else if \<not> mtx_active (t (mutex_id - 1)) then (lv2_ret CELL_ESRCH, t)
         else let (r, x) = mtx_destroy_locked (thread_id ctx) (t (mutex_id - 1))
              in (lv2_ret r, t(mutex_id - 1 := x)))"

definition mtx_lock_check :: "u64 \<Rightarrow> sys_mutex_info \<Rightarrow> u64 blocking" where
  "mtx_lock_check tid x =
     (if \<not> mtx_active x then Returns (lv2_ret CELL_ESRCH)
      else if \<not> mtx_recursive x \<and> mtx_owner_tid x = tid \<and> mtx_lock_count x > 0
      then Returns (lv2_ret CELL_EDEADLK)
      else Blocks)"

definition mtx_lock_acquired :: "u64 \<Rightarrow> sys_mutex_info \<Rightarrow> u64 \<times> sys_mutex_info" where
  "mtx_lock_acquired tid x =
     (let x = x\<lparr>mtx_host := pthread_mutex_lock tid (mtx_host x)\<rparr>
      in if \<not> mtx_active x
         then (lv2_ret CELL_ESRCH, x\<lparr>mtx_host := pthread_mutex_unlock tid (mtx_host x)\<rparr>)
         else (lv2_ret CELL_OK, x\<lparr>mtx_owner_tid := tid, mtx_lock_count := mtx_lock_count x + 1\<rparr>))"

text \<open>
  \<open>sys_mutex_lock\<close> by a thread that finds the host mutex free or its own goes through at
  once; otherwise it blocks and the rest runs later. A time-out changes nothing.
\<close>

definition sys_mutex_lock :: "ppu_context \<Rightarrow> mtx_table \<Rightarrow> u64 blocking \<times> mtx_table" where
  "sys_mutex_lock ctx t =
     (let mutex_id = unat (LV2_ARG_U32 ctx 0); tid = thread_id ctx
      in if mutex_id = 0 \<or> mutex_id > SYS_MUTEX_MAX then (Returns (lv2_ret CELL_ESRCH), t)
         else case mtx_lock_check tid (t (mutex_id - 1)) of
                Returns r \<Rightarrow> (Returns r, t)
              | Blocks \<Rightarrow>
                  if hm_available tid (mtx_host (t (mutex_id - 1)))
                  then let (r, x) = mtx_lock_acquired tid (t (mutex_id - 1))
                       in (Returns r, t(mutex_id - 1 := x))
                  else (Blocks, t))"

definition mtx_trylock_locked :: "u64 \<Rightarrow> sys_mutex_info \<Rightarrow> u64 \<times> sys_mutex_info" where
  "mtx_trylock_locked tid x =
     (if \<not> mtx_recursive x \<and> mtx_owner_tid x = tid \<and> mtx_lock_count x > 0
      then (lv2_ret CELL_EDEADLK, x)
      else if mtx_recursive x \<and> mtx_owner_tid x = tid \<and> mtx_lock_count x > 0
      then (lv2_ret CELL_OK, x\<lparr>mtx_host := pthread_mutex_lock tid (mtx_host x),
                               mtx_lock_count := mtx_lock_count x + 1\<rparr>)
      else let (got, h) = pthread_mutex_trylock tid (mtx_host x)
           in if \<not> got then (lv2_ret CELL_EBUSY, x\<lparr>mtx_host := h\<rparr>)
              else if \<not> mtx_active x
              then (lv2_ret CELL_ESRCH, x\<lparr>mtx_host := pthread_mutex_unlock tid h\<rparr>)
              else (lv2_ret CELL_OK, x\<lparr>mtx_host := h, mtx_owner_tid := tid,
                                       mtx_lock_count := mtx_lock_count x + 1\<rparr>))"

definition sys_mutex_trylock :: "ppu_context \<Rightarrow> mtx_table \<Rightarrow> u64 \<times> mtx_table" where
  "sys_mutex_trylock ctx t =
     (let mutex_id = unat (LV2_ARG_U32 ctx 0)
      in if mutex_id = 0 \<or> mutex_id > SYS_MUTEX_MAX then (lv2_ret CELL_ESRCH, t)
         else if \<not> mtx_active (t (mutex_id - 1)) then (lv2_ret CELL_ESRCH, t)
         else let (r, x) = mtx_trylock_locked (thread_id ctx) (t (mutex_id - 1))
              in (r, t(mutex_id - 1 := x)))"

definition mtx_unlock_locked :: "u64 \<Rightarrow> sys_mutex_info \<Rightarrow> u64 \<times> sys_mutex_info" where
  "mtx_unlock_locked tid x =
     (if mtx_owner_tid x \<noteq> tid then (lv2_ret CELL_EPERM, x)
      else let x = x\<lparr>mtx_lock_count := mtx_lock_count x - 1\<rparr>;
               x = (if mtx_lock_count x = 0 then x\<lparr>mtx_owner_tid := 0\<rparr> else x)
           in (lv2_ret CELL_OK, x\<lparr>mtx_host := pthread_mutex_unlock tid (mtx_host x)\<rparr>))"

definition sys_mutex_unlock :: "ppu_context \<Rightarrow> mtx_table \<Rightarrow> u64 \<times> mtx_table" where
  "sys_mutex_unlock ctx t =
     (let mutex_id = unat (LV2_ARG_U32 ctx 0)
      in if mutex_id = 0 \<or> mutex_id > SYS_MUTEX_MAX then (lv2_ret CELL_ESRCH, t)
         else if \<not> mtx_active (t (mutex_id - 1)) then (lv2_ret CELL_ESRCH, t)
         else let (r, x) = mtx_unlock_locked (thread_id ctx) (t (mutex_id - 1))
              in (r, t(mutex_id - 1 := x)))"

text \<open>Condition variables hold their mutex by a count (called from sys_cond.c).\<close>

definition sys_mutex_bind_cond :: "nat \<Rightarrow> mtx_table \<Rightarrow> bool \<times> mtx_table" where
  "sys_mutex_bind_cond mutex_id t =
     (if mutex_id = 0 \<or> mutex_id > SYS_MUTEX_MAX then (False, t)
      else let x = t (mutex_id - 1)
           in if mtx_active x
              then (True, t(mutex_id - 1 := x\<lparr>mtx_cond_count := mtx_cond_count x + 1\<rparr>))
              else (False, t))"

definition sys_mutex_unbind_cond :: "nat \<Rightarrow> mtx_table \<Rightarrow> mtx_table" where
  "sys_mutex_unbind_cond mutex_id t =
     (if mutex_id = 0 \<or> mutex_id > SYS_MUTEX_MAX then t
      else let x = t (mutex_id - 1)
           in if mtx_cond_count x > 0
              then t(mutex_id - 1 := x\<lparr>mtx_cond_count := mtx_cond_count x - 1\<rparr>)
              else t)"

section \<open>The owner, the count and the host mutex agree\<close>

definition mtx_wf :: "sys_mutex_info \<Rightarrow> bool" where
  "mtx_wf x \<longleftrightarrow>
     hm_wf (mtx_host x) \<and> hm_recursive (mtx_host x) = mtx_recursive x \<and>
     mtx_lock_count x = int (hm_count (mtx_host x)) \<and>
     (mtx_recursive x \<or> hm_count (mtx_host x) \<le> 1) \<and>
     (case hm_owner (mtx_host x) of None \<Rightarrow> mtx_owner_tid x = 0
      | Some t \<Rightarrow> t \<noteq> 0 \<and> mtx_owner_tid x = t \<and> mtx_active x)"

lemma mtx_wf_zero: "mtx_wf mtx_zero"
  by (simp add: mtx_wf_def mtx_zero_def pthread_mutex_init_def hm_wf_def)

lemma mtx_wf_new: "mtx_wf (mtx_new ctx m)"
  by (simp add: mtx_wf_def mtx_new_def mtx_zero_def pthread_mutex_init_def hm_wf_def Let_def)

lemma mtx_new_simps [simp]:
  "mtx_active (mtx_new ctx m)" "hm_owner (mtx_host (mtx_new ctx m)) = None" "mtx_lock_count (mtx_new ctx m) = 0"
  "mtx_cond_count (mtx_new ctx m) = 0" "mtx_relock_pending (mtx_new ctx m) = 0"
  by (simp_all add: mtx_new_def mtx_zero_def pthread_mutex_init_def Let_def)

lemmas host_defs = pthread_mutex_lock_def pthread_mutex_trylock_def pthread_mutex_unlock_def
  hm_available_def hm_wf_def

section \<open>What the calls do to the holder\<close>

text \<open>How often thread \<open>u\<close> holds the mutex.\<close>

definition held_by :: "sys_mutex_info \<Rightarrow> u64 \<Rightarrow> int" where
  "held_by x u = (if hm_owner (mtx_host x) = Some u then mtx_lock_count x else 0)"

text \<open>
  \<open>mtx_moves k tid x x'\<close>: thread \<open>tid\<close> changed its hold on the mutex by \<open>k\<close> and
  nothing else changed.
\<close>

definition mtx_moves :: "int \<Rightarrow> u64 \<Rightarrow> sys_mutex_info \<Rightarrow> sys_mutex_info \<Rightarrow> bool" where
  "mtx_moves k tid x x' \<longleftrightarrow>
     mtx_active x' = mtx_active x \<and> mtx_recursive x' = mtx_recursive x \<and>
     mtx_cond_count x' = mtx_cond_count x \<and> mtx_relock_pending x' = mtx_relock_pending x \<and>
     (\<forall>u. hm_owner (mtx_host x') = Some u \<longrightarrow> hm_owner (mtx_host x) = Some u \<or> u = tid) \<and>
     (\<forall>u. held_by x' u = held_by x u + (if u = tid then k else 0))"

lemma mtx_counts_frame [simp]:
  "mtx_wf (x\<lparr>mtx_cond_count := k\<rparr>) = mtx_wf x" "mtx_wf (x\<lparr>mtx_relock_pending := k\<rparr>) = mtx_wf x"
  "held_by (x\<lparr>mtx_cond_count := k\<rparr>) = held_by x" "held_by (x\<lparr>mtx_relock_pending := k\<rparr>) = held_by x"
  by (auto simp: mtx_wf_def held_by_def fun_eq_iff split: option.splits)

lemmas mtx_effect_defs = mtx_moves_def held_by_def mtx_wf_def host_defs Let_def lv2_codes

lemma mtx_acquired_moves:
  assumes "mtx_wf x" "tid \<noteq> 0" "hm_available tid (mtx_host x)"
    and "mtx_recursive x \<or> hm_owner (mtx_host x) \<noteq> Some tid" "mtx_lock_acquired tid x = (r, x')"
  shows "mtx_wf x' \<and> mtx_moves (if r = lv2_ret CELL_OK then 1 else 0) tid x x'"
  using assms
  by (auto simp: mtx_lock_acquired_def mtx_effect_defs split: option.splits if_splits)

lemma mtx_trylock_moves:
  assumes "mtx_wf x" "tid \<noteq> 0" "mtx_trylock_locked tid x = (r, x')"
  shows "mtx_wf x' \<and> mtx_moves (if r = lv2_ret CELL_OK then 1 else 0) tid x x'"
  using assms
  by (auto simp: mtx_trylock_locked_def mtx_effect_defs split: option.splits if_splits)

lemma mtx_unlock_moves:
  assumes "mtx_wf x" "tid \<noteq> 0" "mtx_unlock_locked tid x = (r, x')"
  shows "mtx_wf x' \<and> mtx_moves (if r = lv2_ret CELL_OK then - 1 else 0) tid x x'"
  using assms
  by (auto simp: mtx_unlock_locked_def mtx_effect_defs split: option.splits if_splits)

text \<open>A destruction succeeds exactly on a mutex nobody holds, waits to relock or has a condition variable on.\<close>

lemma mtx_destroy_cases:
  assumes "mtx_wf x" "tid \<noteq> 0" "mtx_destroy_locked tid x = (r, x')"
  shows "mtx_wf x' \<and> (if r = CELL_OK
           then mtx_lock_count x = 0 \<and> mtx_relock_pending x \<le> 0 \<and> mtx_cond_count x \<le> 0 \<and>
                hm_owner (mtx_host x) = None \<and> x' = x\<lparr>mtx_active := False\<rparr>
           else mtx_moves 0 tid x x')"
  using assms
  by (auto simp: mtx_destroy_locked_def mtx_effect_defs split: option.splits if_splits)

section \<open>The calls, by their branches\<close>

lemmas sys_mutex_trylock_cases = guarded_cases [OF sys_mutex_trylock_def [unfolded Let_def]]
lemmas sys_mutex_unlock_cases = guarded_cases [OF sys_mutex_unlock_def [unfolded Let_def]]
lemmas sys_mutex_destroy_cases = guarded_cases [OF sys_mutex_destroy_def [unfolded Let_def]]

section \<open>The table of mutexes\<close>

lemma mtx_create_ok:
  "mtx_find_free t = Some i \<Longrightarrow> sys_mutex_create ctx (t, m) = (lv2_ret CELL_OK, t(i := mtx_new ctx m),
     if LV2_ARG_PTR ctx 0 \<noteq> 0 then write_be32 m (LV2_ARG_PTR ctx 0) (of_nat (i + 1)) else m)"
  by (simp add: sys_mutex_create_def Let_def)

definition mtx_destroy_call :: "nat \<Rightarrow> mtx_table \<times> mem \<Rightarrow> u64 \<times> mtx_table" where
  "mtx_destroy_call h st = sys_mutex_destroy (call_ctx 1 [of_nat h]) (fst st)"

interpretation mutexes: slot_array SYS_MUTEX_MAX mtx_active fst
  "\<lambda>ctx st. snd (sys_mutex_create ctx st)" "\<lambda>h st. (snd (mtx_destroy_call h st), snd st)" "\<lambda>_. True"
  "\<lambda>h st. slot_live SYS_MUTEX_MAX mtx_active (fst st) h \<and> mtx_wf (fst st (h - 1)) \<and>
          fst (mtx_destroy_call h st) = lv2_ret CELL_OK"
proof (unfold_locales, goal_cases)
  case (1 ctx st i)
  then show ?case
    using mtx_create_ok [of "fst st" i ctx "snd st"]
    by (auto simp: mtx_find_free_def intro!: exI [of _ "mtx_new ctx (snd st)"])
next
  case (2 st ctx)
  then show ?case by (cases st) (simp add: sys_mutex_create_def mtx_find_free_def)
next
  case (3 h st)
  let ?ctx = "call_ctx 1 [of_nat h]"
  have h: "1 \<le> h" "h \<le> SYS_MUTEX_MAX" "unat (LV2_ARG_U32 ?ctx 0) = h"
    using 3 handle_ctx [of h 8192] by (simp_all add: slot_live_def SYS_MUTEX_MAX_def)
  show ?case
  proof (cases rule: sys_mutex_destroy_cases [of ?ctx "fst st"])
    case (2 r x)
    from 2(4) 3 have "r = CELL_OK" by (simp add: mtx_destroy_call_def)
    with mtx_destroy_cases [OF _ _ 2(3)] 3 h(3) have "\<not> mtx_active x" by simp
    with 2(4) h show ?thesis by (auto simp: mtx_destroy_call_def)
  qed (use 3 in \<open>simp add: mtx_destroy_call_def lv2_codes\<close>)
qed

text \<open>
  C14. \<open>sys_mutex_create\<close> answers EAGAIN exactly when all 8192 mutexes are live; every
  other call creates a mutex, so that one more is live.
\<close>

theorem mutex_create_full_iff:
  "(fst (sys_mutex_create ctx (t, m)) = lv2_ret CELL_EAGAIN \<longleftrightarrow>
      card {h. slot_live SYS_MUTEX_MAX mtx_active t h} = 8192) \<and>
   (card {h. slot_live SYS_MUTEX_MAX mtx_active t h} < 8192 \<longrightarrow>
      card {h. slot_live SYS_MUTEX_MAX mtx_active (fst (snd (sys_mutex_create ctx (t, m)))) h} =
        Suc (card {h. slot_live SYS_MUTEX_MAX mtx_active t h}))"
proof -
  have "fst (sys_mutex_create ctx (t, m)) = lv2_ret CELL_EAGAIN \<longleftrightarrow> slot_next SYS_MUTEX_MAX mtx_active t = None"
    by (cases "mtx_find_free t")
       (simp_all add: slot_next_def mtx_find_free_def sys_mutex_create_def lv2_codes Let_def)
  then show ?thesis
    using mutexes.ht.next_None_iff [of "(t, m)", unfolded mutexes.ht.live_set_def]
      mutexes.ht.card_create [of "(t, m)" ctx, unfolded mutexes.ht.live_set_def]
    by (simp add: SYS_MUTEX_MAX_def)
qed

theorem mutex_create_full_iff_witness:
  "card {h. slot_live SYS_MUTEX_MAX mtx_active (fst (snd (sys_mutex_create (call_ctx 1 [0, 0]) (mtx_init_table, \<lambda>_. 0)))) h} = 1"
proof -
  have "{h. slot_live SYS_MUTEX_MAX mtx_active mtx_init_table h} = {}"
    by (auto simp: slot_live_def mtx_init_table_def mtx_zero_def)
  with mutex_create_full_iff [of "call_ctx 1 [0, 0]" mtx_init_table "\<lambda>_. 0"] show ?thesis by simp
qed

end
