(* ===== verification/SysCond.thy ===== *)
theory SysCond
  imports SysMutex
begin

text \<open>
  Kernel condition variables (runtime/syscalls/sys_cond.c), POSIX build. A condition
  variable keeps the list of its waiters in order of arrival; a waiter's record lives on its
  thread's stack, so it is named here by the thread, and its \<open>signalled\<close> field is the
  thread's entry of \<open>sy_signalled\<close>. A signal takes records off the list, marks them and
  broadcasts the host condition variable, whose sleepers \<open>cnd_cv\<close> holds.

  A wait is split where the code sleeps: \<open>sys_cond_wait\<close> up to the sleep (it runs under
  the variable's lock from the look-up to the sleep), \<open>cond_wait_give_up\<close> after a time-out
  or a host error, \<open>cond_wait_relock\<close> from the host lock of the guest mutex to the return.
  Counting a variable on its mutex and filling its slot are two locked sections in the code
  and one step here, as are freeing the slot and giving the count back. Left out: the
  history ring and the trace and environment diagnostics.
\<close>

section \<open>Data\<close>

record sys_cond_info =
  cnd_active :: bool
  cnd_name :: "u8 list"
  cnd_mutex_id :: u32
  cnd_initialized :: bool
  cnd_waiters :: "u64 list"
  cnd_cv :: cvar

definition SYS_COND_MAX :: nat where
  "SYS_COND_MAX = 8192"

definition cnd_zero :: sys_cond_info where
  "cnd_zero = \<lparr>cnd_active = False, cnd_name = replicate 8 0, cnd_mutex_id = 0,
     cnd_initialized = False, cnd_waiters = [], cnd_cv = cv_empty\<rparr>"

record sync_state =
  sy_mutexes :: mtx_table
  sy_conds :: "nat \<Rightarrow> sys_cond_info"
  sy_cond_addr :: "nat \<Rightarrow> u32"
  sy_signalled :: "u64 \<Rightarrow> bool"

definition sync_init :: sync_state where
  "sync_init = \<lparr>sy_mutexes = mtx_init_table, sy_conds = (\<lambda>_. cnd_zero), sy_cond_addr = (\<lambda>_. 0),
     sy_signalled = (\<lambda>_. False)\<rparr>"

definition acquire_cond :: "nat \<Rightarrow> sync_state \<Rightarrow> sys_cond_info option" where
  "acquire_cond cid s =
     (if cid = 0 \<or> cid > SYS_COND_MAX then None
      else if \<not> cnd_active (sy_conds s (cid - 1)) then None
      else Some (sy_conds s (cid - 1)))"

section \<open>Creation and destruction\<close>

text \<open>The id goes out byte by byte, most significant first.\<close>

definition store_id_be :: "mem \<Rightarrow> u32 \<Rightarrow> u32 \<Rightarrow> mem" where
  "store_id_be m out v =
     (let p = vm_to_host out
      in m(p := ucast (drop_bit 24 v), p + 1 := ucast (drop_bit 16 v),
           p + 2 := ucast (drop_bit 8 v), p + 3 := ucast v))"

definition cnd_fill :: "u32 \<Rightarrow> u32 \<Rightarrow> mem \<Rightarrow> sys_cond_info \<Rightarrow> sys_cond_info" where
  "cnd_fill mid attr m c =
     c\<lparr>cnd_initialized := True, cnd_mutex_id := mid, cnd_waiters := [],
       cnd_name := (if attr \<noteq> 0 then copy_bytes m (vm_to_host attr + 8) 8 else replicate 8 0),
       cnd_active := True\<rparr>"

text \<open>
  \<open>host_ok\<close> says whether the two host initialisations of a slot used for the first time
  succeed.
\<close>

definition sys_cond_create ::
  "bool \<times> bool \<Rightarrow> ppu_context \<Rightarrow> sync_state \<times> mem \<Rightarrow> u64 \<times> sync_state \<times> mem" where
  "sys_cond_create host_ok ctx st =
     (let (s, m) = st; out = LV2_ARG_PTR ctx 0; mid = LV2_ARG_U32 ctx 1; attr = LV2_ARG_PTR ctx 2;
          (bound, t) = sys_mutex_bind_cond (unat mid) (sy_mutexes s)
      in if \<not> bound then (lv2_ret CELL_ESRCH, s, m)
         else let s = s\<lparr>sy_mutexes := t\<rparr>;
                  undo = s\<lparr>sy_mutexes := sys_mutex_unbind_cond (unat mid) t\<rparr>
              in case find_slot (\<lambda>i. \<not> cnd_active (sy_conds s i)) SYS_COND_MAX of
                   None \<Rightarrow> (lv2_ret CELL_EAGAIN, undo, m)
                 | Some i \<Rightarrow>
                     if \<not> cnd_initialized (sy_conds s i) \<and> \<not> fst host_ok then (lv2_ret CELL_EAGAIN, undo, m)
                     else if \<not> cnd_initialized (sy_conds s i) \<and> \<not> snd host_ok then (lv2_ret CELL_EAGAIN, undo, m)
                     else (lv2_ret CELL_OK,
                           s\<lparr>sy_conds := (sy_conds s)(i := cnd_fill mid attr m (sy_conds s i)),
                             sy_cond_addr := (sy_cond_addr s)(i + 1 := out)\<rparr>,
                           if out \<noteq> 0 then store_id_be m out (of_nat (i + 1)) else m))"

definition sys_cond_destroy :: "ppu_context \<Rightarrow> sync_state \<Rightarrow> u64 \<times> sync_state" where
  "sys_cond_destroy ctx s =
     (let cid = unat (LV2_ARG_U32 ctx 0)
      in if cid = 0 \<or> cid > SYS_COND_MAX then (lv2_ret CELL_ESRCH, s)
         else let c = sy_conds s (cid - 1)
              in if \<not> cnd_active c then (lv2_ret CELL_ESRCH, s)
                 else if cnd_waiters c \<noteq> [] then (lv2_ret CELL_EBUSY, s)
                 else (lv2_ret CELL_OK,
                       s\<lparr>sy_conds := (sy_conds s)(cid - 1 := c\<lparr>cnd_active := False\<rparr>),
                         sy_cond_addr := (sy_cond_addr s)(cid := 0),
                         sy_mutexes := sys_mutex_unbind_cond (unat (cnd_mutex_id c)) (sy_mutexes s)\<rparr>))"

section \<open>Waiting\<close>

text \<open>
  The wait up to the sleep: an error, or the locals the rest of the call needs, the mutex
  \<open>m\<close> (a pointer in the code, its slot here) and \<open>depth\<close>.
\<close>

definition sys_cond_wait :: "ppu_context \<Rightarrow> sync_state \<Rightarrow> (u64 + nat \<times> int) \<times> sync_state" where
  "sys_cond_wait ctx s =
     (let cid = unat (LV2_ARG_U32 ctx 0); tid = thread_id ctx
      in case acquire_cond cid s of
           None \<Rightarrow> (Inl (lv2_ret CELL_ESRCH), s)
         | Some c \<Rightarrow>
             let mid = unat (cnd_mutex_id c); x = sy_mutexes s (mid - 1); depth = mtx_lock_count x
             in if \<not> mtx_active x then (Inl (lv2_ret CELL_ESRCH), s)
                else if mtx_owner_tid x \<noteq> tid \<or> mtx_lock_count x \<le> 0 then (Inl (lv2_ret CELL_EPERM), s)
                else (Inr (mid - 1, depth),
                      s\<lparr>sy_conds := (sy_conds s)(cid - 1 := c\<lparr>cnd_waiters := cnd_waiters c @ [tid],
                                                           cnd_cv := cv_park tid (cnd_cv c)\<rparr>),
                        sy_signalled := (sy_signalled s)(tid := False),
                        sy_mutexes := (sy_mutexes s)(mid - 1 := x\<lparr>mtx_owner_tid := 0, mtx_lock_count := 0,
                          mtx_host := (pthread_mutex_unlock tid ^^ nat depth) (mtx_host x)\<rparr>)\<rparr>))"

definition add_pending :: "int \<Rightarrow> sys_mutex_info \<Rightarrow> sys_mutex_info" where
  "add_pending k x = x\<lparr>mtx_relock_pending := mtx_relock_pending x + k\<rparr>"

text \<open>The host wait answered an error and the record is still unsignalled.\<close>

definition cond_wait_give_up :: "u64 \<Rightarrow> nat \<Rightarrow> nat \<Rightarrow> sync_state \<Rightarrow> sync_state" where
  "cond_wait_give_up tid ci mi s =
     (let c = sy_conds s ci
      in s\<lparr>sy_conds := (sy_conds s)(ci := c\<lparr>cnd_waiters := remove1 tid (cnd_waiters c),
                                            cnd_cv := cv_expire tid (cnd_cv c)\<rparr>),
           sy_mutexes := (sy_mutexes s)(mi := add_pending 1 (sy_mutexes s mi))\<rparr>)"

definition cond_wait_relock :: "u64 \<Rightarrow> nat \<Rightarrow> int \<Rightarrow> sync_state \<Rightarrow> sync_state" where
  "cond_wait_relock tid mi depth s =
     (let x = sy_mutexes s mi;
          x = x\<lparr>mtx_host := (pthread_mutex_lock tid ^^ nat depth) (mtx_host x),
                mtx_owner_tid := tid, mtx_lock_count := depth\<rparr>
      in s\<lparr>sy_mutexes := (sy_mutexes s)(mi := add_pending (- 1) x)\<rparr>)"

section \<open>Signalling\<close>

text \<open>
  The loop over the waiters: the records left on the list, the marks, the mutex's count of
  pending relocks, and whether any record was selected.
\<close>

fun signal_loop ::
  "bool \<Rightarrow> u64 list \<Rightarrow> (u64 \<Rightarrow> bool) \<Rightarrow> int \<Rightarrow> bool \<Rightarrow> u64 list \<times> (u64 \<Rightarrow> bool) \<times> int \<times> bool" where
  "signal_loop all [] sig pending selected = ([], sig, pending, selected)"
| "signal_loop all (w # ws) sig pending selected =
     (if \<not> all then (ws, sig(w := True), pending + 1, True)
      else signal_loop all ws (sig(w := True)) (pending + 1) True)"

definition signal_cond :: "nat \<Rightarrow> bool \<Rightarrow> sync_state \<Rightarrow> u64 \<times> sync_state" where
  "signal_cond cid all s =
     (case acquire_cond cid s of
        None \<Rightarrow> (lv2_ret CELL_ESRCH, s)
      | Some c \<Rightarrow>
          let mid = unat (cnd_mutex_id c); x = sy_mutexes s (mid - 1);
              (ws, sig, pending, selected) =
                signal_loop all (cnd_waiters c) (sy_signalled s) (mtx_relock_pending x) False;
              cv = (if selected then cv_broadcast (cnd_cv c) else cnd_cv c)
          in (lv2_ret CELL_OK,
              s\<lparr>sy_conds := (sy_conds s)(cid - 1 := c\<lparr>cnd_waiters := ws, cnd_cv := cv\<rparr>),
                sy_signalled := sig,
                sy_mutexes := (sy_mutexes s)(mid - 1 := x\<lparr>mtx_relock_pending := pending\<rparr>)\<rparr>))"

definition sys_cond_signal :: "ppu_context \<Rightarrow> sync_state \<Rightarrow> u64 \<times> sync_state" where
  "sys_cond_signal ctx s = signal_cond (unat (LV2_ARG_U32 ctx 0)) False s"

definition sys_cond_signal_all :: "ppu_context \<Rightarrow> sync_state \<Rightarrow> u64 \<times> sync_state" where
  "sys_cond_signal_all ctx s = signal_cond (unat (LV2_ARG_U32 ctx 0)) True s"

definition sys_cond_signal_to :: "ppu_context \<Rightarrow> sync_state \<Rightarrow> u64 \<times> sync_state" where
  "sys_cond_signal_to ctx s = signal_cond (unat (LV2_ARG_U32 ctx 0)) True s"

section \<open>What the loop computes\<close>

text \<open>The records a signal selects: all of them, or the longest waiting one.\<close>

definition signal_chosen :: "bool \<Rightarrow> u64 list \<Rightarrow> u64 list" where
  "signal_chosen all ws = (if all then ws else take 1 ws)"

lemma signal_loop_all:
  "signal_loop True ws sig p sel =
     ([], (\<lambda>t. sig t \<or> t \<in> set ws), p + int (length ws), sel \<or> ws \<noteq> [])"
  by (induction ws arbitrary: sig p sel) (auto simp: fun_eq_iff)

lemma signal_loop_chosen:
  "signal_loop all ws sig p sel =
     (drop (length (signal_chosen all ws)) ws, (\<lambda>t. sig t \<or> t \<in> set (signal_chosen all ws)),
      p + int (length (signal_chosen all ws)), sel \<or> ws \<noteq> [])"
  by (cases all; cases ws) (auto simp: signal_chosen_def signal_loop_all fun_eq_iff)

lemma signal_chosen_subset: "set (signal_chosen all ws) \<subseteq> set ws"
  by (auto simp: signal_chosen_def dest: in_set_takeD)

lemma signal_chosen_split: "signal_chosen all ws @ drop (length (signal_chosen all ws)) ws = ws"
  by (cases ws) (simp_all add: signal_chosen_def)

lemma signal_chosen_distinct: "distinct ws \<Longrightarrow> distinct (signal_chosen all ws)"
  by (simp add: signal_chosen_def)

lemma signal_chosen_rest:
  "distinct ws \<Longrightarrow> set (drop (length (signal_chosen all ws)) ws) = set ws - set (signal_chosen all ws)"
  using arg_cong [OF signal_chosen_split [of all ws], of set]
    arg_cong [OF signal_chosen_split [of all ws], of distinct]
  by auto

lemma signal_chosen_Nil [simp]: "signal_chosen all ws = [] \<longleftrightarrow> ws = []"
  by (simp add: signal_chosen_def)

lemma store_id_be_read: "read_be32 (store_id_be m out v) out = v"
proof -
  have "store_id_be m out v = write_be32 m out v"
    by (simp only: write_be32_def host_store32_bytes byte_bswap32) (simp add: store_id_be_def byte_def Let_def)
  then show ?thesis by simp
qed

section \<open>The calls, by their branches\<close>

lemma sys_cond_create_cases:
  assumes "sys_mutex_bind_cond (unat (LV2_ARG_U32 ctx 1)) (sy_mutexes s) = (ok, M)"
  obtains (nomutex) "\<not> ok" "sys_cond_create host_ok ctx (s, m) = (lv2_ret CELL_ESRCH, s, m)"
  | (undone) "ok" "sys_cond_create host_ok ctx (s, m) =
      (lv2_ret CELL_EAGAIN, s\<lparr>sy_mutexes := sys_mutex_unbind_cond (unat (LV2_ARG_U32 ctx 1)) M\<rparr>, m)"
  | (made) c where "ok" "find_slot (\<lambda>i. \<not> cnd_active (sy_conds s i)) SYS_COND_MAX = Some c"
      "sys_cond_create host_ok ctx (s, m) = (lv2_ret CELL_OK,
         s\<lparr>sy_mutexes := M, sy_conds := (sy_conds s)(c :=
             cnd_fill (LV2_ARG_U32 ctx 1) (LV2_ARG_PTR ctx 2) m (sy_conds s c)),
           sy_cond_addr := (sy_cond_addr s)(c + 1 := LV2_ARG_PTR ctx 0)\<rparr>,
         if LV2_ARG_PTR ctx 0 \<noteq> 0 then store_id_be m (LV2_ARG_PTR ctx 0) (of_nat (c + 1)) else m)"
proof (cases ok)
  case False
  with assms show thesis by (intro nomutex) (simp_all add: sys_cond_create_def Let_def)
next
  case ok: True
  show thesis
  proof (cases "find_slot (\<lambda>i. \<not> cnd_active (sy_conds s i)) SYS_COND_MAX")
    case None
    with assms ok show thesis by (intro undone) (simp_all add: sys_cond_create_def Let_def)
  next
    case (Some c)
    show thesis
    proof (cases "cnd_initialized (sy_conds s c) \<or> fst host_ok \<and> snd host_ok")
      case True
      with assms ok Some show thesis
        by (intro made [OF ok Some]) (simp only: sys_cond_create_def Let_def prod.case sync_state.simps
            option.case if_False not_True_eq_False simp_thms, auto)
    next
      case False
      with assms ok Some show thesis by (intro undone) (auto simp: sys_cond_create_def Let_def)
    qed
  qed
qed

lemma sys_cond_destroy_cases:
  obtains (refused) "sys_cond_destroy ctx s = (lv2_ret CELL_ESRCH, s) \<or> sys_cond_destroy ctx s = (lv2_ret CELL_EBUSY, s)"
  | (freed) c where "unat (LV2_ARG_U32 ctx 0) = c + 1" "c < SYS_COND_MAX" "cnd_active (sy_conds s c)"
      "cnd_waiters (sy_conds s c) = []"
      "sys_cond_destroy ctx s = (lv2_ret CELL_OK,
         s\<lparr>sy_conds := (sy_conds s)(c := (sy_conds s c)\<lparr>cnd_active := False\<rparr>),
           sy_cond_addr := (sy_cond_addr s)(c + 1 := 0),
           sy_mutexes := sys_mutex_unbind_cond (unat (cnd_mutex_id (sy_conds s c))) (sy_mutexes s)\<rparr>)"
proof (cases "unat (LV2_ARG_U32 ctx 0)")
  case 0
  then show thesis by (intro refused) (simp add: sys_cond_destroy_def)
next
  case (Suc c)
  show thesis
  proof (cases "c < SYS_COND_MAX \<and> cnd_active (sy_conds s c) \<and> cnd_waiters (sy_conds s c) = []")
    case True
    with Suc show thesis by (intro freed [of c]) (simp_all add: sys_cond_destroy_def Let_def)
  next
    case False
    with Suc show thesis by (intro refused) (auto simp: sys_cond_destroy_def Let_def)
  qed
qed

lemma acquire_cond_Some:
  "acquire_cond cid s = Some c \<longleftrightarrow>
     0 < cid \<and> cid \<le> SYS_COND_MAX \<and> cnd_active (sy_conds s (cid - 1)) \<and> c = sy_conds s (cid - 1)"
  by (auto simp: acquire_cond_def)

lemma sys_cond_wait_parks:
  assumes "sys_cond_wait ctx s = (Inr (i, d), s')"
  obtains c where "unat (LV2_ARG_U32 ctx 0) = c + 1" "c < SYS_COND_MAX" "cnd_active (sy_conds s c)"
      "i = unat (cnd_mutex_id (sy_conds s c)) - 1" "mtx_active (sy_mutexes s i)"
      "mtx_owner_tid (sy_mutexes s i) = thread_id ctx" "0 < d" "d = mtx_lock_count (sy_mutexes s i)"
      "s' = s\<lparr>sy_conds := (sy_conds s)(c := (sy_conds s c)\<lparr>
               cnd_waiters := cnd_waiters (sy_conds s c) @ [thread_id ctx],
               cnd_cv := cv_park (thread_id ctx) (cnd_cv (sy_conds s c))\<rparr>),
             sy_signalled := (sy_signalled s)(thread_id ctx := False),
             sy_mutexes := (sy_mutexes s)(i := (sy_mutexes s i)\<lparr>mtx_owner_tid := 0, mtx_lock_count := 0,
               mtx_host := (pthread_mutex_unlock (thread_id ctx) ^^ nat d) (mtx_host (sy_mutexes s i))\<rparr>)\<rparr>"
proof (cases "acquire_cond (unat (LV2_ARG_U32 ctx 0)) s")
  case None
  with assms show thesis by (simp add: sys_cond_wait_def)
next
  case (Some C)
  then obtain c where c: "unat (LV2_ARG_U32 ctx 0) = c + 1" "c < SYS_COND_MAX" "cnd_active (sy_conds s c)" "C = sy_conds s c"
    unfolding acquire_cond_Some by (cases "unat (LV2_ARG_U32 ctx 0)") auto
  let ?x = "sy_mutexes s (unat (cnd_mutex_id C) - 1)"
  have "mtx_active ?x \<and> \<not> (mtx_owner_tid ?x \<noteq> thread_id ctx \<or> mtx_lock_count ?x \<le> 0)"
    using assms Some by (simp add: sys_cond_wait_def Let_def split: if_splits)
  then show thesis
    using assms Some c by (intro that [of c]) (auto simp: sys_cond_wait_def Let_def)
qed

text \<open>A signal in closed form.\<close>

lemma signal_cond_eq:
  assumes "acquire_cond (c + 1) s = Some C"
  shows "signal_cond (c + 1) all s = (lv2_ret CELL_OK,
    (let ch = signal_chosen all (cnd_waiters C); i = unat (cnd_mutex_id C) - 1
     in s\<lparr>sy_conds := (sy_conds s)(c := C\<lparr>cnd_waiters := drop (length ch) (cnd_waiters C),
             cnd_cv := (if ch \<noteq> [] then cv_broadcast (cnd_cv C) else cnd_cv C)\<rparr>),
          sy_signalled := (\<lambda>t. sy_signalled s t \<or> t \<in> set ch),
          sy_mutexes := (sy_mutexes s)(i := (sy_mutexes s i)\<lparr>mtx_relock_pending :=
             mtx_relock_pending (sy_mutexes s i) + int (length ch)\<rparr>)\<rparr>))"
  using assms by (simp add: signal_cond_def signal_loop_chosen Let_def)

end
