(* ===== verification/SyncKernel.thy ===== *)
theory SyncKernel
  imports SysCond
begin

text \<open>
  Guest threads running the mutex and condition variable calls of sys_mutex.c and sys_cond.c
  against each other. A step is one locked section of one thread; a thread between two
  sections of a call has its locals in its program counter. \<open>ks_held\<close> is not in the code:
  it counts, for a thread and a mutex, the locks the calls answered CELL_OK for less the
  unlocks, which is what the guest believes it holds.
\<close>

section \<open>Threads and steps\<close>

datatype sync_pc =
    Running
  | Locking nat
  | Waiting nat nat int
  | Relocking nat int u64

record sync_sys =
  ks :: sync_state
  ks_mem :: mem
  ks_pc :: "u64 \<Rightarrow> sync_pc"
  ks_held :: "u64 \<Rightarrow> nat \<Rightarrow> int"

definition sync_start :: "mem \<Rightarrow> sync_sys" where
  "sync_start m = \<lparr>ks = sync_init, ks_mem = m, ks_pc = (\<lambda>_. Running), ks_held = (\<lambda>_ _. 0)\<rparr>"

text \<open>Thread \<open>t\<close>, outside every call, makes a call with arguments \<open>ctx\<close>.\<close>

definition calls :: "sync_sys \<Rightarrow> ppu_context \<Rightarrow> bool" where
  "calls S ctx \<longleftrightarrow> valid_tid (thread_id ctx) \<and> ks_pc S (thread_id ctx) = Running"

definition hold :: "u64 \<Rightarrow> nat \<Rightarrow> int \<Rightarrow> (u64 \<Rightarrow> nat \<Rightarrow> int) \<Rightarrow> u64 \<Rightarrow> nat \<Rightarrow> int" where
  "hold t i k h = h(t := (h t)(i := k))"

definition bump :: "u64 \<Rightarrow> u64 \<Rightarrow> nat \<Rightarrow> int \<Rightarrow> (u64 \<Rightarrow> nat \<Rightarrow> int) \<Rightarrow> u64 \<Rightarrow> nat \<Rightarrow> int" where
  "bump r t i k h = (if r = lv2_ret CELL_OK then hold t i (h t i + k) h else h)"

definition set_mutexes :: "mtx_table \<Rightarrow> sync_state \<Rightarrow> sync_state" where
  "set_mutexes M s = s\<lparr>sy_mutexes := M\<rparr>"

definition set_cv :: "nat \<Rightarrow> cvar \<Rightarrow> sync_state \<Rightarrow> sync_state" where
  "set_cv c v s = s\<lparr>sy_conds := (sy_conds s)(c := (sy_conds s c)\<lparr>cnd_cv := v\<rparr>)\<rparr>"

abbreviation arg_slot :: "ppu_context \<Rightarrow> nat" where
  "arg_slot ctx \<equiv> unat (LV2_ARG_U32 ctx 0) - 1"

inductive sync_step :: "sync_sys \<Rightarrow> sync_sys \<Rightarrow> bool" where
  guest_store: "sync_step S (S\<lparr>ks_mem := m\<rparr>)"
| mutex_create: "calls S ctx \<Longrightarrow> sys_mutex_create ctx (sy_mutexes (ks S), ks_mem S) = (r, M, m) \<Longrightarrow>
    sync_step S (S\<lparr>ks := set_mutexes M (ks S), ks_mem := m\<rparr>)"
| mutex_destroy: "calls S ctx \<Longrightarrow> sys_mutex_destroy ctx (sy_mutexes (ks S)) = (r, M) \<Longrightarrow>
    sync_step S (S\<lparr>ks := set_mutexes M (ks S)\<rparr>)"
| lock_enter: "calls S ctx \<Longrightarrow> 0 < unat (LV2_ARG_U32 ctx 0) \<Longrightarrow> unat (LV2_ARG_U32 ctx 0) \<le> SYS_MUTEX_MAX \<Longrightarrow>
    mtx_lock_check (thread_id ctx) (sy_mutexes (ks S) (arg_slot ctx)) = Blocks \<Longrightarrow>
    sync_step S (S\<lparr>ks_pc := (ks_pc S)(thread_id ctx := Locking (arg_slot ctx))\<rparr>)"
| lock_take: "ks_pc S t = Locking i \<Longrightarrow> hm_available t (mtx_host (sy_mutexes (ks S) i)) \<Longrightarrow>
    mtx_lock_acquired t (sy_mutexes (ks S) i) = (r, x) \<Longrightarrow>
    sync_step S (S\<lparr>ks := set_mutexes ((sy_mutexes (ks S))(i := x)) (ks S),
                   ks_pc := (ks_pc S)(t := Running), ks_held := bump r t i 1 (ks_held S)\<rparr>)"
| lock_timeout: "ks_pc S t = Locking i \<Longrightarrow> sync_step S (S\<lparr>ks_pc := (ks_pc S)(t := Running)\<rparr>)"
| mutex_trylock: "calls S ctx \<Longrightarrow> sys_mutex_trylock ctx (sy_mutexes (ks S)) = (r, M) \<Longrightarrow>
    sync_step S (S\<lparr>ks := set_mutexes M (ks S), ks_held := bump r (thread_id ctx) (arg_slot ctx) 1 (ks_held S)\<rparr>)"
| mutex_unlock: "calls S ctx \<Longrightarrow> sys_mutex_unlock ctx (sy_mutexes (ks S)) = (r, M) \<Longrightarrow>
    sync_step S (S\<lparr>ks := set_mutexes M (ks S), ks_held := bump r (thread_id ctx) (arg_slot ctx) (- 1) (ks_held S)\<rparr>)"
| cond_create: "calls S ctx \<Longrightarrow> sys_cond_create host_ok ctx (ks S, ks_mem S) = (r, s, m) \<Longrightarrow>
    sync_step S (S\<lparr>ks := s, ks_mem := m\<rparr>)"
| cond_destroy: "calls S ctx \<Longrightarrow> sys_cond_destroy ctx (ks S) = (r, s) \<Longrightarrow>
    sync_step S (S\<lparr>ks := s\<rparr>)"
| cond_wait: "calls S ctx \<Longrightarrow> sys_cond_wait ctx (ks S) = (Inr (i, d), s) \<Longrightarrow>
    sync_step S (S\<lparr>ks := s, ks_pc := (ks_pc S)(thread_id ctx := Waiting (arg_slot ctx) i d),
                   ks_held := hold (thread_id ctx) i 0 (ks_held S)\<rparr>)"
| cond_signal: "calls S ctx \<Longrightarrow>
    (r, s) \<in> {sys_cond_signal ctx (ks S), sys_cond_signal_all ctx (ks S), sys_cond_signal_to ctx (ks S)} \<Longrightarrow>
    sync_step S (S\<lparr>ks := s\<rparr>)"
| cond_spurious: "t \<in> parked (cnd_cv (sy_conds (ks S) c)) \<Longrightarrow>
    sync_step S (S\<lparr>ks := set_cv c (cv_wake t (cnd_cv (sy_conds (ks S) c))) (ks S)\<rparr>)"
| cond_repark: "ks_pc S t = Waiting c i d \<Longrightarrow> t \<in> woken (cnd_cv (sy_conds (ks S) c)) \<Longrightarrow>
    \<not> sy_signalled (ks S) t \<Longrightarrow>
    sync_step S (S\<lparr>ks := set_cv c (cv_park t (cv_leave t (cnd_cv (sy_conds (ks S) c)))) (ks S)\<rparr>)"
| cond_wake: "ks_pc S t = Waiting c i d \<Longrightarrow> t \<in> woken (cnd_cv (sy_conds (ks S) c)) \<Longrightarrow>
    sy_signalled (ks S) t \<Longrightarrow>
    sync_step S (S\<lparr>ks := set_cv c (cv_leave t (cnd_cv (sy_conds (ks S) c))) (ks S),
                   ks_pc := (ks_pc S)(t := Relocking i d (lv2_ret CELL_OK))\<rparr>)"
| cond_give_up: "ks_pc S t = Waiting c i d \<Longrightarrow> t \<in> parked (cnd_cv (sy_conds (ks S) c)) \<Longrightarrow>
    \<not> sy_signalled (ks S) t \<Longrightarrow> r = lv2_ret CELL_ETIMEDOUT \<or> r = lv2_ret CELL_EFAULT \<Longrightarrow>
    sync_step S (S\<lparr>ks := cond_wait_give_up t c i (ks S), ks_pc := (ks_pc S)(t := Relocking i d r)\<rparr>)"
| cond_relock: "ks_pc S t = Relocking i d r \<Longrightarrow> hm_available t (mtx_host (sy_mutexes (ks S) i)) \<Longrightarrow>
    sync_step S (S\<lparr>ks := cond_wait_relock t i d (ks S), ks_pc := (ks_pc S)(t := Running),
                   ks_held := hold t i d (ks_held S)\<rparr>)"

inductive sync_reach :: "sync_sys \<Rightarrow> bool" where
  start: "sync_reach (sync_start m)"
| step: "sync_reach S \<Longrightarrow> sync_step S S' \<Longrightarrow> sync_reach S'"

section \<open>The invariant\<close>

text \<open>Threads on their way back to mutex \<open>i\<close>: signalled waiters and those past their wait.\<close>

definition returning :: "(u64 \<Rightarrow> sync_pc) \<Rightarrow> (u64 \<Rightarrow> bool) \<Rightarrow> nat \<Rightarrow> u64 set" where
  "returning pc sig i = {t. (\<exists>c d. pc t = Waiting c i d \<and> sig t) \<or> (\<exists>d r. pc t = Relocking i d r)}"

definition waiting_on :: "(u64 \<Rightarrow> sync_pc) \<Rightarrow> nat \<Rightarrow> u64 set" where
  "waiting_on pc c = {t. \<exists>i d. pc t = Waiting c i d}"

definition bound_conds :: "(nat \<Rightarrow> sys_cond_info) \<Rightarrow> nat \<Rightarrow> nat set" where
  "bound_conds C i = {c. c < SYS_COND_MAX \<and> cnd_active (C c) \<and> unat (cnd_mutex_id (C c)) = i + 1}"

text \<open>Mutex records are coherent, and the guest's view of who holds what is theirs.\<close>

definition inv_mtx :: "sync_sys \<Rightarrow> bool" where
  "inv_mtx S \<longleftrightarrow> (\<forall>i. mtx_wf (sy_mutexes (ks S) i) \<and> (\<forall>t. ks_held S t i = held_by (sy_mutexes (ks S) i) t))"

text \<open>Program counters name threads, and what a thread inside a call relies on.\<close>

definition pc_ok :: "sync_sys \<Rightarrow> u64 \<Rightarrow> bool" where
  "pc_ok S t \<longleftrightarrow>
     (ks_pc S t \<noteq> Running \<longrightarrow> valid_tid t) \<and>
     (\<forall>i. ks_pc S t = Locking i \<longrightarrow> i < SYS_MUTEX_MAX \<and>
        (hm_owner (mtx_host (sy_mutexes (ks S) i)) \<noteq> Some t \<or> mtx_recursive (sy_mutexes (ks S) i))) \<and>
     (\<forall>i d. (\<exists>c. ks_pc S t = Waiting c i d) \<or> (\<exists>r. ks_pc S t = Relocking i d r) \<longrightarrow>
        i < SYS_MUTEX_MAX \<and> mtx_active (sy_mutexes (ks S) i) \<and> 0 < d \<and>
        (mtx_recursive (sy_mutexes (ks S) i) \<or> d = 1) \<and>
        hm_owner (mtx_host (sy_mutexes (ks S) i)) \<noteq> Some t) \<and>
     (\<forall>c i d. ks_pc S t = Waiting c i d \<and> \<not> sy_signalled (ks S) t \<longrightarrow>
        c < SYS_COND_MAX \<and> cnd_active (sy_conds (ks S) c) \<and> unat (cnd_mutex_id (sy_conds (ks S) c)) = i + 1)"

text \<open>The counts of a mutex: its condition variables and the threads returning to it.\<close>

definition inv_counts :: "sync_sys \<Rightarrow> bool" where
  "inv_counts S \<longleftrightarrow> (\<forall>i. mtx_cond_count (sy_mutexes (ks S) i) = int (card (bound_conds (sy_conds (ks S)) i)) \<and>
     mtx_relock_pending (sy_mutexes (ks S) i) = int (card (returning (ks_pc S) (sy_signalled (ks S)) i)))"

definition cond_ok :: "sync_sys \<Rightarrow> nat \<Rightarrow> bool" where
  "cond_ok S c \<longleftrightarrow> (let C = sy_conds (ks S) c in
     (c < SYS_COND_MAX \<and> cnd_active C \<longrightarrow> 0 < unat (cnd_mutex_id C) \<and>
        unat (cnd_mutex_id C) \<le> SYS_MUTEX_MAX \<and>
        mtx_active (sy_mutexes (ks S) (unat (cnd_mutex_id C) - 1))) \<and>
     distinct (cnd_waiters C) \<and> set (cnd_waiters C) = {t \<in> waiting_on (ks_pc S) c. \<not> sy_signalled (ks S) t} \<and>
     cv_wf (cnd_cv C) \<and> parked (cnd_cv C) \<union> woken (cnd_cv C) = waiting_on (ks_pc S) c \<and>
     (\<forall>t \<in> parked (cnd_cv C). \<not> sy_signalled (ks S) t))"

definition sync_inv :: "sync_sys \<Rightarrow> bool" where
  "sync_inv S \<longleftrightarrow> inv_mtx S \<and> (\<forall>t. pc_ok S t) \<and> inv_counts S \<and> (\<forall>c. cond_ok S c)"

section \<open>Every step keeps the invariant\<close>

lemma sync_invI:
  "inv_mtx S \<Longrightarrow> (\<And>t. pc_ok S t) \<Longrightarrow> inv_counts S \<Longrightarrow> (\<And>c. cond_ok S c) \<Longrightarrow> sync_inv S"
  by (simp add: sync_inv_def)

lemma sync_invD:
  assumes "sync_inv S"
  shows "inv_mtx S" and "pc_ok S t" and "inv_counts S" and "cond_ok S c"
  using assms by (simp_all add: sync_inv_def)

text \<open>
  A thread outside the condition variable code changes one mutex: the counts and the life
  of the mutex stay, only that thread may become its owner.
\<close>

lemma inv_mutex_change:
  assumes inv: "sync_inv S" and t0: "ks_pc S t0 = Running \<or> ks_pc S t0 = Locking i"
    and wf: "mtx_wf x" and moves: "mtx_moves k t0 (sy_mutexes (ks S) i) x"
  shows "sync_inv (S\<lparr>ks := set_mutexes ((sy_mutexes (ks S))(i := x)) (ks S),
           ks_pc := (ks_pc S)(t0 := Running), ks_held := hold t0 i (ks_held S t0 i + k) (ks_held S)\<rparr>)"
    (is "sync_inv ?S")
proof (rule sync_invI)
  show "inv_mtx ?S"
    using sync_invD(1) [OF inv] wf moves by (auto simp: inv_mtx_def set_mutexes_def mtx_moves_def hold_def)
  show "pc_ok ?S t" for t
    using sync_invD(2) [OF inv, of t] moves
    by (cases "t = t0") (auto simp: pc_ok_def set_mutexes_def mtx_moves_def)
  have ret: "returning (ks_pc ?S) (sy_signalled (ks ?S)) j = returning (ks_pc S) (sy_signalled (ks S)) j" for j
    using t0 by (auto simp: returning_def set_mutexes_def)
  then show "inv_counts ?S"
    using sync_invD(3) [OF inv] moves by (auto simp: inv_counts_def set_mutexes_def mtx_moves_def)
  have "waiting_on (ks_pc ?S) c = waiting_on (ks_pc S) c" for c
    using t0 by (auto simp: waiting_on_def)
  then show "cond_ok ?S c" for c
    using sync_invD(4) [OF inv, of c] moves by (auto simp: cond_ok_def Let_def set_mutexes_def mtx_moves_def)
qed

lemma hold_same [simp]: "hold t i (h t i) h = h"
  by (simp add: hold_def)

lemma bump_hold: "bump r t i k h = hold t i (h t i + (if r = lv2_ret CELL_OK then k else 0)) h"
  by (simp add: bump_def)

lemma calls_tid: "calls S ctx \<Longrightarrow> thread_id ctx \<noteq> 0"
  by (auto simp: calls_def valid_tid_def)

lemma calls_pc: "calls S ctx \<Longrightarrow> (ks_pc S)(thread_id ctx := Running) = ks_pc S"
  by (auto simp: calls_def)

lemma keep_pc: "ks_pc S = p \<Longrightarrow> S\<lparr>ks := a, ks_pc := p, ks_held := h\<rparr> = S\<lparr>ks := a, ks_held := h\<rparr>"
  by (cases S) simp

lemma inv_mutex_call:
  assumes inv: "sync_inv S" and c: "calls S ctx"
    and mv: "mtx_wf x \<and> mtx_moves k (thread_id ctx) (sy_mutexes (ks S) i) x"
  shows "sync_inv (S\<lparr>ks := set_mutexes ((sy_mutexes (ks S))(i := x)) (ks S),
           ks_held := hold (thread_id ctx) i (ks_held S (thread_id ctx) i + k) (ks_held S)\<rparr>)"
proof -
  have "ks_pc S (thread_id ctx) = Running" using c by (simp add: calls_def)
  from inv_mutex_change [OF inv disjI1 [OF this] conjunct1 [OF mv] conjunct2 [OF mv]] show ?thesis
    by (simp only: calls_pc [OF c] keep_pc [OF refl])
qed

lemma sync_wf: "sync_inv S \<Longrightarrow> mtx_wf (sy_mutexes (ks S) i)"
  by (simp add: sync_inv_def inv_mtx_def)

text \<open>Nothing changes.\<close>

lemma set_mutexes_same [simp]: "set_mutexes (sy_mutexes s) s = s"
  by (simp add: set_mutexes_def)

lemma inv_lock_take:
  assumes inv: "sync_inv S" and pc: "ks_pc S t = Locking i"
    and av: "hm_available t (mtx_host (sy_mutexes (ks S) i))"
    and acq: "mtx_lock_acquired t (sy_mutexes (ks S) i) = (r, x)"
  shows "sync_inv (S\<lparr>ks := set_mutexes ((sy_mutexes (ks S))(i := x)) (ks S),
                   ks_pc := (ks_pc S)(t := Running), ks_held := bump r t i 1 (ks_held S)\<rparr>)"
proof -
  have "pc_ok S t" using inv by (rule sync_invD)
  with pc have "t \<noteq> 0" "mtx_recursive (sy_mutexes (ks S) i) \<or> hm_owner (mtx_host (sy_mutexes (ks S) i)) \<noteq> Some t"
    by (auto simp: pc_ok_def valid_tid_def)
  from mtx_acquired_moves [OF sync_wf [OF inv] this(1) av this(2) acq]
  show ?thesis
    using inv_mutex_change [OF inv, of t i x] pc by (simp add: bump_hold)
qed

lemma inv_mutex_trylock:
  assumes inv: "sync_inv S" and c: "calls S ctx" and tr: "sys_mutex_trylock ctx (sy_mutexes (ks S)) = (r, M)"
  shows "sync_inv (S\<lparr>ks := set_mutexes M (ks S),
           ks_held := bump r (thread_id ctx) (arg_slot ctx) 1 (ks_held S)\<rparr>)"
proof (cases rule: sys_mutex_trylock_cases [of ctx "sy_mutexes (ks S)"])
  case 1
  then show ?thesis using inv tr by (simp add: bump_def lv2_codes)
next
  case (2 r' x)
  with tr have "r' = r" "M = (sy_mutexes (ks S))(arg_slot ctx := x)" by simp_all
  with inv_mutex_call [OF inv c mtx_trylock_moves [OF sync_wf [OF inv] calls_tid [OF c] 2(3)]]
  show ?thesis by (simp only: bump_hold)
qed

lemma inv_mutex_unlock:
  assumes inv: "sync_inv S" and c: "calls S ctx" and tr: "sys_mutex_unlock ctx (sy_mutexes (ks S)) = (r, M)"
  shows "sync_inv (S\<lparr>ks := set_mutexes M (ks S),
           ks_held := bump r (thread_id ctx) (arg_slot ctx) (- 1) (ks_held S)\<rparr>)"
proof (cases rule: sys_mutex_unlock_cases [of ctx "sy_mutexes (ks S)"])
  case 1
  then show ?thesis using inv tr by (simp add: bump_def lv2_codes)
next
  case (2 r' x)
  with tr have "r' = r" "M = (sy_mutexes (ks S))(arg_slot ctx := x)" by simp_all
  with inv_mutex_call [OF inv c mtx_unlock_moves [OF sync_wf [OF inv] calls_tid [OF c] 2(3)]]
  show ?thesis by (simp only: bump_hold)
qed

lemma inv_lock_pc:
  assumes inv: "sync_inv S" and pc: "ks_pc S t = Running \<or> (\<exists>j. ks_pc S t = Locking j)"
    and p: "p = Running \<or> (p = Locking i \<and> i < SYS_MUTEX_MAX \<and> valid_tid t \<and>
      (hm_owner (mtx_host (sy_mutexes (ks S) i)) \<noteq> Some t \<or> mtx_recursive (sy_mutexes (ks S) i)))"
  shows "sync_inv (S\<lparr>ks_pc := (ks_pc S)(t := p)\<rparr>)" (is "sync_inv ?S")
proof (rule sync_invI)
  show "inv_mtx ?S" using sync_invD(1) [OF inv] by (simp add: inv_mtx_def)
  show "pc_ok ?S u" for u using sync_invD(2) [OF inv, of u] p by (auto simp: pc_ok_def)
  have "returning (ks_pc ?S) (sy_signalled (ks ?S)) j = returning (ks_pc S) (sy_signalled (ks S)) j" for j using pc p by (auto simp: returning_def)
  then show "inv_counts ?S" using sync_invD(3) [OF inv] by (simp add: inv_counts_def)
  have "waiting_on (ks_pc ?S) c = waiting_on (ks_pc S) c" for c using pc p by (auto simp: waiting_on_def)
  then show "cond_ok ?S c" for c using sync_invD(4) [OF inv, of c] by (simp add: cond_ok_def)
qed

lemma inv_lock_enter:
  assumes inv: "sync_inv S" and c: "calls S ctx" and id: "0 < unat (LV2_ARG_U32 ctx 0)"
      "unat (LV2_ARG_U32 ctx 0) \<le> SYS_MUTEX_MAX"
    and chk: "mtx_lock_check (thread_id ctx) (sy_mutexes (ks S) (arg_slot ctx)) = Blocks"
  shows "sync_inv (S\<lparr>ks_pc := (ks_pc S)(thread_id ctx := Locking (arg_slot ctx))\<rparr>)"
proof (rule inv_lock_pc [OF inv])
  have "hm_owner (mtx_host (sy_mutexes (ks S) (arg_slot ctx))) \<noteq> Some (thread_id ctx) \<or>
        mtx_recursive (sy_mutexes (ks S) (arg_slot ctx))"
    using chk sync_wf [OF inv, of "arg_slot ctx"]
    by (auto simp: mtx_lock_check_def mtx_wf_def hm_wf_def split: if_splits)
  then show "Locking (arg_slot ctx) = Running \<or> (Locking (arg_slot ctx) = Locking (arg_slot ctx) \<and>
      arg_slot ctx < SYS_MUTEX_MAX \<and> valid_tid (thread_id ctx) \<and>
      (hm_owner (mtx_host (sy_mutexes (ks S) (arg_slot ctx))) \<noteq> Some (thread_id ctx) \<or>
       mtx_recursive (sy_mutexes (ks S) (arg_slot ctx))))"
    using c id by (auto simp: calls_def)
qed (use c in \<open>simp add: calls_def\<close>)

text \<open>Nothing hangs on a mutex whose counts are zero, so it can go; and nothing hangs on a free slot.\<close>

lemma finite_bound: "finite (bound_conds C i)"
  by (rule finite_subset [of _ "{..<SYS_COND_MAX}"]) (auto simp: bound_conds_def)

lemma counts_zero:
  assumes "sync_inv S" and "mtx_relock_pending (sy_mutexes (ks S) i) \<le> 0" and "mtx_cond_count (sy_mutexes (ks S) i) \<le> 0"
  shows "returning (ks_pc S) (sy_signalled (ks S)) i = {}" and "bound_conds (sy_conds (ks S)) i = {}"
  using sync_invD(3) [OF assms(1)] assms(2,3) finite_bound [of "sy_conds (ks S)" i]
  by (auto simp: inv_counts_def)

lemma free_slot_unused:
  assumes inv: "sync_inv S" and free: "\<not> mtx_active (sy_mutexes (ks S) i)"
  shows "returning (ks_pc S) (sy_signalled (ks S)) i = {}" and "bound_conds (sy_conds (ks S)) i = {}"
    and "mtx_relock_pending (sy_mutexes (ks S) i) = 0" and "mtx_cond_count (sy_mutexes (ks S) i) = 0"
    and "hm_owner (mtx_host (sy_mutexes (ks S) i)) = None"
proof -
  show r: "returning (ks_pc S) (sy_signalled (ks S)) i = {}"
    using sync_invD(2) [OF inv] free by (fastforce simp: returning_def pc_ok_def)
  show b: "bound_conds (sy_conds (ks S)) i = {}"
    using sync_invD(4) [OF inv] free by (fastforce simp: bound_conds_def cond_ok_def Let_def)
  from r b show "mtx_relock_pending (sy_mutexes (ks S) i) = 0" "mtx_cond_count (sy_mutexes (ks S) i) = 0"
    using sync_invD(3) [OF inv] by (simp_all add: inv_counts_def)
  show "hm_owner (mtx_host (sy_mutexes (ks S) i)) = None"
    using sync_wf [OF inv, of i] free by (auto simp: mtx_wf_def split: option.splits)
qed

text \<open>Replacing a mutex nobody uses by another one nobody uses.\<close>

lemma inv_mutex_swap:
  assumes inv: "sync_inv S" and wf: "mtx_wf x" and own: "hm_owner (mtx_host x) = None"
      "hm_owner (mtx_host (sy_mutexes (ks S) i)) = None"
    and zero: "mtx_relock_pending x = 0" "mtx_cond_count x = 0"
    and unused: "returning (ks_pc S) (sy_signalled (ks S)) i = {}" "bound_conds (sy_conds (ks S)) i = {}"
  shows "sync_inv (S\<lparr>ks := set_mutexes ((sy_mutexes (ks S))(i := x)) (ks S)\<rparr>)" (is "sync_inv ?S")
proof (rule sync_invI)
  show "inv_mtx ?S" using sync_invD(1) [OF inv] wf own by (simp add: inv_mtx_def set_mutexes_def held_by_def)
  have no: "ks_pc S t \<noteq> Relocking i d r" "ks_pc S t \<noteq> Waiting c i d" for t c d r
    using unused sync_invD(2) [OF inv, of t] by (fastforce simp: returning_def bound_conds_def pc_ok_def)+
  show "pc_ok ?S t" for t
    using sync_invD(2) [OF inv, of t] own no [of t] by (auto simp: pc_ok_def set_mutexes_def)
  have "returning (ks_pc ?S) (sy_signalled (ks ?S)) j = returning (ks_pc S) (sy_signalled (ks S)) j" for j by (auto simp: returning_def set_mutexes_def)
  then show "inv_counts ?S"
    using sync_invD(3) [OF inv] unused zero by (auto simp: inv_counts_def set_mutexes_def)
  have w: "waiting_on (ks_pc ?S) c = waiting_on (ks_pc S) c" for c by (auto simp: waiting_on_def)
  have "c < SYS_COND_MAX \<Longrightarrow> cnd_active (sy_conds (ks S) c) \<Longrightarrow> unat (cnd_mutex_id (sy_conds (ks S) c)) \<noteq> i + 1" for c
    using unused by (auto simp: bound_conds_def)
  then show "cond_ok ?S c" for c
    using sync_invD(4) [OF inv, of c] w by (fastforce simp: cond_ok_def Let_def set_mutexes_def)
qed

lemma inv_mutex_create:
  assumes inv: "sync_inv S" and cr: "sys_mutex_create ctx (sy_mutexes (ks S), ks_mem S) = (r, M, m)"
  shows "sync_inv (S\<lparr>ks := set_mutexes M (ks S), ks_mem := m\<rparr>)"
proof -
  have mem: "sync_inv S' \<Longrightarrow> sync_inv (S'\<lparr>ks_mem := m\<rparr>)" for S' m
    by (simp add: sync_inv_def inv_mtx_def pc_ok_def inv_counts_def cond_ok_def returning_def waiting_on_def)
  show ?thesis
  proof (cases "mtx_find_free (sy_mutexes (ks S))")
    case None
    then have "M = sy_mutexes (ks S)" using cr by (simp add: sys_mutex_create_def)
    then show ?thesis using mem [OF inv] by simp
  next
    case (Some i)
    then have free: "\<not> mtx_active (sy_mutexes (ks S) i)" by (auto simp: mtx_find_free_def dest: find_slot_SomeD)
    have M: "M = (sy_mutexes (ks S))(i := mtx_new ctx (ks_mem S))"
      using cr Some by (simp add: sys_mutex_create_def Let_def)
    have "sync_inv (S\<lparr>ks := set_mutexes M (ks S)\<rparr>)"
      unfolding M
      by (rule inv_mutex_swap [OF inv mtx_wf_new])
         (simp_all add: free_slot_unused [OF inv free] mtx_new_simps)
    from mem [OF this] show ?thesis by simp
  qed
qed

lemma inv_mutex_destroy:
  assumes inv: "sync_inv S" and c: "calls S ctx" and de: "sys_mutex_destroy ctx (sy_mutexes (ks S)) = (r, M)"
  shows "sync_inv (S\<lparr>ks := set_mutexes M (ks S)\<rparr>)"
proof (cases rule: sys_mutex_destroy_cases [of ctx "sy_mutexes (ks S)"])
  case 1
  then show ?thesis using inv de by simp
next
  case (2 r' x)
  obtain i where i: "arg_slot ctx = i" by simp
  from 2 de i have M: "M = (sy_mutexes (ks S))(i := x)" by simp
  note cs = mtx_destroy_cases [OF sync_wf [OF inv] calls_tid [OF c] 2(3), unfolded i]
  show ?thesis
  proof (cases "r' = CELL_OK")
    case True
    have x: "mtx_wf x" "mtx_relock_pending (sy_mutexes (ks S) i) \<le> 0"
        "mtx_cond_count (sy_mutexes (ks S) i) \<le> 0" "hm_owner (mtx_host (sy_mutexes (ks S) i)) = None"
        "x = (sy_mutexes (ks S) i)\<lparr>mtx_active := False\<rparr>"
      using cs unfolding if_P [OF True] by blast+
    then have "mtx_relock_pending x = 0" "mtx_cond_count x = 0"
      using sync_invD(3) [OF inv] by (auto simp: inv_counts_def)
    then show ?thesis
      unfolding M by (intro inv_mutex_swap [OF inv x(1)]) (simp_all add: x(4,5) counts_zero [OF inv x(2,3)])
  next
    case False
    with cs have "mtx_wf x \<and> mtx_moves 0 (thread_id ctx) (sy_mutexes (ks S) i) x" by simp
    from inv_mutex_call [OF inv c this] show ?thesis by (simp add: M)
  qed
qed

text \<open>Condition variables: the slot, its waiters and the mutex's counts.\<close>

lemma cond_free_slot:
  assumes inv: "sync_inv S" and free: "c < SYS_COND_MAX" "\<not> cnd_active (sy_conds (ks S) c)"
  shows "cnd_waiters (sy_conds (ks S) c) = []" and "t \<in> waiting_on (ks_pc S) c \<Longrightarrow> sy_signalled (ks S) t"
proof -
  show sig: "sy_signalled (ks S) t" if "t \<in> waiting_on (ks_pc S) c" for t
    using that sync_invD(2) [OF inv, of t] free by (auto simp: waiting_on_def pc_ok_def)
  then have "set (cnd_waiters (sy_conds (ks S) c)) = {}"
    using sync_invD(4) [OF inv, of c] by (auto simp: cond_ok_def Let_def)
  then show "cnd_waiters (sy_conds (ks S) c) = []" by simp
qed

lemma bind_unbind:
  assumes "sync_inv S" and "sys_mutex_bind_cond i (sy_mutexes (ks S)) = (True, M)"
  shows "sys_mutex_unbind_cond i M = sy_mutexes (ks S)"
  using assms sync_invD(3) [OF assms(1)]
  by (auto simp: sys_mutex_bind_cond_def sys_mutex_unbind_cond_def Let_def inv_counts_def split: if_splits)

lemma inv_mem: "sync_inv (S\<lparr>ks_mem := m\<rparr>) = sync_inv S"
  by (simp add: sync_inv_def inv_mtx_def pc_ok_def inv_counts_def cond_ok_def returning_def waiting_on_def)

lemma inv_cond_fill:
  assumes inv: "sync_inv S" and free: "c < SYS_COND_MAX" "\<not> cnd_active (sy_conds (ks S) c)"
    and bind: "sys_mutex_bind_cond (unat mid) (sy_mutexes (ks S)) = (True, M)"
  shows "sync_inv (S\<lparr>ks := (ks S)\<lparr>sy_mutexes := M,
           sy_conds := (sy_conds (ks S))(c := cnd_fill mid attr m (sy_conds (ks S) c)), sy_cond_addr := ad\<rparr>\<rparr>)"
    (is "sync_inv ?S")
proof (rule sync_invI)
  let ?i = "unat mid - 1" and ?C = "(sy_conds (ks S))(c := cnd_fill mid attr m (sy_conds (ks S) c))"
  have b: "0 < unat mid" "unat mid \<le> SYS_MUTEX_MAX" "mtx_active (sy_mutexes (ks S) ?i)"
      "M = (sy_mutexes (ks S))(?i := (sy_mutexes (ks S) ?i)\<lparr>mtx_cond_count := mtx_cond_count (sy_mutexes (ks S) ?i) + 1\<rparr>)"
    using bind by (auto simp: sys_mutex_bind_cond_def Let_def split: if_splits)
  show "inv_mtx ?S"
    using sync_invD(1) [OF inv] by (simp add: inv_mtx_def b(4))
  show "pc_ok ?S t" for t
    using sync_invD(2) [OF inv, of t] free by (auto simp: pc_ok_def b(4))
  have ret: "returning (ks_pc ?S) (sy_signalled (ks ?S)) j = returning (ks_pc S) (sy_signalled (ks S)) j" for j by (simp add: returning_def)
  have bc: "bound_conds ?C j = (if j = ?i then insert c (bound_conds (sy_conds (ks S)) j) else bound_conds (sy_conds (ks S)) j)" for j
    using free b(1) by (auto simp: bound_conds_def cnd_fill_def)
  have "c \<notin> bound_conds (sy_conds (ks S)) ?i" using free by (simp add: bound_conds_def)
  with bc finite_bound show "inv_counts ?S"
    using sync_invD(3) [OF inv] ret by (simp add: inv_counts_def b(4))
  have w: "waiting_on (ks_pc ?S) j = waiting_on (ks_pc S) j" for j by (simp add: waiting_on_def)
  have sig: "\<And>t. t \<in> waiting_on (ks_pc S) c \<Longrightarrow> sy_signalled (ks S) t" by (rule cond_free_slot(2) [OF inv free])
  show "cond_ok ?S j" for j
    using sync_invD(4) [OF inv, of j] w b(1-3) sig
    by (cases "j = c") (auto simp: cond_ok_def Let_def cnd_fill_def b(4))
qed

lemma inv_cond_create:
  assumes inv: "sync_inv S" and cr: "sys_cond_create host_ok ctx (ks S, ks_mem S) = (r, s, m)"
  shows "sync_inv (S\<lparr>ks := s, ks_mem := m\<rparr>)"
proof -
  obtain ok M where b: "sys_mutex_bind_cond (unat (LV2_ARG_U32 ctx 1)) (sy_mutexes (ks S)) = (ok, M)" by fastforce
  show ?thesis
  proof (cases rule: sys_cond_create_cases [OF b, of host_ok "ks_mem S"])
    case 1
    with cr have "s = ks S" by simp
    with inv show ?thesis by (simp add: inv_mem)
  next
    case 2
    with b have "sys_mutex_unbind_cond (unat (LV2_ARG_U32 ctx 1)) M = sy_mutexes (ks S)"
      using bind_unbind [OF inv] by simp
    with cr 2 have "s = ks S" by simp
    with inv show ?thesis by (simp add: inv_mem)
  next
    case (3 c)
    with b have b': "sys_mutex_bind_cond (unat (LV2_ARG_U32 ctx 1)) (sy_mutexes (ks S)) = (True, M)" by simp
    note s = conjunct1 [OF conjunct2 [OF 3(3) [unfolded cr prod.inject]]]
    show ?thesis
      unfolding s inv_mem using find_slot_SomeD [OF 3(2)] by (intro inv_cond_fill [OF inv _ _ b'])
  qed
qed

lemma inv_cond_destroy:
  assumes inv: "sync_inv S" and de: "sys_cond_destroy ctx (ks S) = (r, s)"
  shows "sync_inv (S\<lparr>ks := s\<rparr>)"
proof -
  show ?thesis
  proof (cases rule: sys_cond_destroy_cases [of ctx "ks S"])
    case refused
    with de have "s = ks S" by auto
    with inv show ?thesis by simp
  next
    case (freed c)
    let ?C = "sy_conds (ks S) c"
    let ?i = "unat (cnd_mutex_id ?C) - 1"
    note 2 = freed(2-4) and s = conjunct2 [OF freed(5) [unfolded de prod.inject]]
    note ok = sync_invD(4) [OF inv, of c]
    from 2 ok have mid: "0 < unat (cnd_mutex_id ?C)" "unat (cnd_mutex_id ?C) \<le> SYS_MUTEX_MAX"
        "mtx_active (sy_mutexes (ks S) ?i)"
      by (auto simp: cond_ok_def Let_def)
    from 2 ok have sig: "\<And>t. t \<in> waiting_on (ks_pc S) c \<Longrightarrow> sy_signalled (ks S) t"
      by (auto simp: cond_ok_def Let_def)
    have cin: "c \<in> bound_conds (sy_conds (ks S)) ?i" using 2 mid by (simp add: bound_conds_def)
    then have pos: "0 < card (bound_conds (sy_conds (ks S)) ?i)" using finite_bound by (auto simp: card_gt_0_iff)
    then have M: "sy_mutexes s = (sy_mutexes (ks S))(?i := (sy_mutexes (ks S) ?i)\<lparr>mtx_cond_count :=
        mtx_cond_count (sy_mutexes (ks S) ?i) - 1\<rparr>)"
      using mid sync_invD(3) [OF inv] by (simp add: s sys_mutex_unbind_cond_def Let_def inv_counts_def)
    have C: "sy_conds s = (sy_conds (ks S))(c := ?C\<lparr>cnd_active := False\<rparr>)" "sy_signalled s = sy_signalled (ks S)"
      by (simp_all add: s)
    have Mf: "mtx_active (sy_mutexes s j) = mtx_active (sy_mutexes (ks S) j)"
        "mtx_recursive (sy_mutexes s j) = mtx_recursive (sy_mutexes (ks S) j)"
        "mtx_host (sy_mutexes s j) = mtx_host (sy_mutexes (ks S) j)" for j
      by (simp_all add: M)
    show ?thesis
    proof (rule sync_invI)
      show "inv_mtx (S\<lparr>ks := s\<rparr>)" using sync_invD(1) [OF inv] by (simp add: inv_mtx_def M)
      show "pc_ok (S\<lparr>ks := s\<rparr>) t" for t
        using sync_invD(2) [OF inv, of t] sig [of t]
        by (cases "ks_pc S t") (auto simp: pc_ok_def Mf C waiting_on_def)
      have "bound_conds (sy_conds s) j = bound_conds (sy_conds (ks S)) j - (if j = ?i then {c} else {})" for j
        using mid by (auto simp: bound_conds_def C)
      moreover have "returning (ks_pc (S\<lparr>ks := s\<rparr>)) (sy_signalled (ks (S\<lparr>ks := s\<rparr>))) j = returning (ks_pc S) (sy_signalled (ks S)) j" for j by (simp add: returning_def C)
      ultimately show "inv_counts (S\<lparr>ks := s\<rparr>)"
        using sync_invD(3) [OF inv] cin finite_bound pos by (simp add: inv_counts_def M of_nat_diff)
      show "cond_ok (S\<lparr>ks := s\<rparr>) j" for j
        using sync_invD(4) [OF inv, of j] by (auto simp: cond_ok_def Let_def C Mf waiting_on_def)
    qed
  qed
qed

text \<open>The host mutex of a waiter is released however deep it was held, and taken as deep again.\<close>

lemma mtx_release_all:
  assumes "mtx_wf x" "hm_owner (mtx_host x) = Some t"
  shows "mtx_wf (x\<lparr>mtx_owner_tid := 0, mtx_lock_count := 0,
           mtx_host := (pthread_mutex_unlock t ^^ nat (mtx_lock_count x)) (mtx_host x)\<rparr>)" (is ?wf)
    and "hm_owner ((pthread_mutex_unlock t ^^ nat (mtx_lock_count x)) (mtx_host x)) = None" (is ?own)
proof -
  have "0 < hm_count (mtx_host x)" using assms by (simp add: mtx_wf_def hm_wf_def)
  then have "(pthread_mutex_unlock t ^^ nat (mtx_lock_count x)) (mtx_host x) =
      (mtx_host x)\<lparr>hm_owner := None, hm_count := 0\<rparr>"
    using assms by (simp add: funpow_unlock mtx_wf_def)
  then show ?wf and ?own using assms by (auto simp: mtx_wf_def hm_wf_def)
qed

lemma mtx_take_depth:
  assumes "mtx_wf x" "hm_owner (mtx_host x) = None" "0 < d" "mtx_recursive x \<or> d = 1" "t \<noteq> 0" "mtx_active x"
  shows "mtx_wf (x\<lparr>mtx_host := (pthread_mutex_lock t ^^ nat d) (mtx_host x), mtx_owner_tid := t, mtx_lock_count := d\<rparr>)" (is ?wf)
    and "hm_owner ((pthread_mutex_lock t ^^ nat d) (mtx_host x)) = Some t" (is ?own)
proof -
  have "(pthread_mutex_lock t ^^ nat d) (mtx_host x) = (mtx_host x)\<lparr>hm_owner := Some t, hm_count := nat d\<rparr>"
    using assms by (intro funpow_lock) (auto simp: mtx_wf_def)
  then show ?wf and ?own using assms by (auto simp: mtx_wf_def hm_wf_def)
qed

lemma inv_cond_wait:
  assumes inv: "sync_inv S" and cl: "calls S ctx" and w: "sys_cond_wait ctx (ks S) = (Inr (i, d), s)"
  shows "sync_inv (S\<lparr>ks := s, ks_pc := (ks_pc S)(thread_id ctx := Waiting (arg_slot ctx) i d),
           ks_held := hold (thread_id ctx) i 0 (ks_held S)\<rparr>)"
proof -
  let ?t = "thread_id ctx" and ?x = "sy_mutexes (ks S) i"
  obtain c where c: "unat (LV2_ARG_U32 ctx 0) = c + 1" "c < SYS_COND_MAX" "cnd_active (sy_conds (ks S) c)"
      "i = unat (cnd_mutex_id (sy_conds (ks S) c)) - 1" "mtx_active ?x"
    and own: "mtx_owner_tid ?x = ?t" "0 < d" "d = mtx_lock_count ?x"
    and s: "s = (ks S)\<lparr>sy_conds := (sy_conds (ks S))(c := (sy_conds (ks S) c)\<lparr>
               cnd_waiters := cnd_waiters (sy_conds (ks S) c) @ [?t],
               cnd_cv := cv_park ?t (cnd_cv (sy_conds (ks S) c))\<rparr>),
             sy_signalled := (sy_signalled (ks S))(?t := False),
             sy_mutexes := (sy_mutexes (ks S))(i := ?x\<lparr>mtx_owner_tid := 0, mtx_lock_count := 0,
               mtx_host := (pthread_mutex_unlock ?t ^^ nat d) (mtx_host ?x)\<rparr>)\<rparr>"
    using sys_cond_wait_parks [OF w] by metis
  have run: "ks_pc S ?t = Running" and tid: "valid_tid ?t" "?t \<noteq> 0"
    using cl calls_tid [OF cl] by (simp_all add: calls_def)
  have slot: "arg_slot ctx = c" using c(1) by simp
  have h: "hm_owner (mtx_host ?x) = Some ?t"
    using sync_wf [OF inv, of i] own tid(2) by (auto simp: mtx_wf_def hm_wf_def split: option.splits)
  note rel = mtx_release_all [OF sync_wf [OF inv] h, folded own(3)]
  have rec: "mtx_recursive ?x \<or> d = 1"
    using sync_wf [OF inv, of i] own by (auto simp: mtx_wf_def)
  have mid: "unat (cnd_mutex_id (sy_conds (ks S) c)) = i + 1" "i < SYS_MUTEX_MAX"
    using sync_invD(4) [OF inv, of c] c by (auto simp: cond_ok_def Let_def)
  have "sync_inv (S\<lparr>ks := s, ks_pc := (ks_pc S)(?t := Waiting c i d), ks_held := hold ?t i 0 (ks_held S)\<rparr>)"
    (is "sync_inv ?S")
  proof (rule sync_invI)
    show "inv_mtx ?S"
      using sync_invD(1) [OF inv] rel h by (auto simp: inv_mtx_def s hold_def held_by_def)
    show "pc_ok ?S t" for t
      using sync_invD(2) [OF inv, of t] c(2,3,5) own(2) rel tid mid rec
      by (cases "t = ?t"; cases "ks_pc S t") (auto simp: pc_ok_def s)
    have "returning (ks_pc ?S) (sy_signalled (ks ?S)) j = returning (ks_pc S) (sy_signalled (ks S)) j" for j using run by (auto simp: returning_def s)
    moreover have "bound_conds (sy_conds s) j = bound_conds (sy_conds (ks S)) j" for j
      by (auto simp: bound_conds_def s)
    ultimately show "inv_counts ?S" using sync_invD(3) [OF inv] by (simp add: inv_counts_def s)
    have wo: "waiting_on ((ks_pc S)(?t := Waiting c i d)) j = (if j = c then insert ?t (waiting_on (ks_pc S) j) else waiting_on (ks_pc S) j)" for j
      using run by (auto simp: waiting_on_def)
    have not: "?t \<notin> waiting_on (ks_pc S) j" for j using run by (simp add: waiting_on_def)
    show "cond_ok ?S j" for j
    proof (cases "j = c")
      case True
      have "?t \<notin> parked (cnd_cv (sy_conds (ks S) c)) \<union> woken (cnd_cv (sy_conds (ks S) c))"
        using sync_invD(4) [OF inv, of c] not [of c] by (simp add: cond_ok_def Let_def)
      then show ?thesis
        using True sync_invD(4) [OF inv, of c] not [of c] c(5) mid
        by (auto simp: cond_ok_def Let_def wo s cv_wf_def cv_park_def)
    next
      case False
      then show ?thesis
        using sync_invD(4) [OF inv, of j] not [of j] c(5) by (auto simp: cond_ok_def Let_def wo s)
    qed
  qed
  then show ?thesis by (simp only: slot)
qed

lemma card_returning_signal:
  assumes ch: "\<And>t. t \<in> set ch \<Longrightarrow> \<exists>d. pc t = Waiting c i d \<and> \<not> sig t" and dist: "distinct ch"
  shows "card (returning pc (\<lambda>t. sig t \<or> t \<in> set ch) j) = card (returning pc sig j) + (if j = i then length ch else 0)"
proof -
  have "t \<in> returning pc (\<lambda>t. sig t \<or> t \<in> set ch) j \<longleftrightarrow>
        t \<in> returning pc sig j \<union> (if j = i then set ch else {})" for t
    using ch [of t] by (cases "t \<in> set ch") (auto simp: returning_def)
  then have "returning pc (\<lambda>t. sig t \<or> t \<in> set ch) j = returning pc sig j \<union> (if j = i then set ch else {})"
    by blast
  moreover have "t \<notin> returning pc sig j" if "t \<in> set ch" for t
    using ch [OF that] by (auto simp: returning_def)
  then have "returning pc sig j \<inter> set ch = {}" by blast
  ultimately show ?thesis using dist by (cases "j = i") (simp_all add: card_Un_disjoint distinct_card)
qed

lemma cond_ok_signal:
  assumes ok: "cond_ok S c" and s: "\<And>j. mtx_active (sy_mutexes s j) = mtx_active (sy_mutexes (ks S) j)"
      "sy_conds s c = (sy_conds (ks S) c)\<lparr>cnd_waiters := drop (length ch) (cnd_waiters (sy_conds (ks S) c)),
         cnd_cv := (if ch \<noteq> [] then cv_broadcast (cnd_cv (sy_conds (ks S) c)) else cnd_cv (sy_conds (ks S) c))\<rparr>"
      "sy_signalled s = (\<lambda>t. sy_signalled (ks S) t \<or> t \<in> set ch)"
    and ch: "ch = signal_chosen all (cnd_waiters (sy_conds (ks S) c))"
  shows "cond_ok (S\<lparr>ks := s\<rparr>) c"
proof -
  let ?C = "sy_conds (ks S) c"
  have dist: "distinct (cnd_waiters ?C)"
    and ws: "set (cnd_waiters ?C) = {t \<in> waiting_on (ks_pc S) c. \<not> sy_signalled (ks S) t}"
    using ok by (auto simp: cond_ok_def Let_def)
  have "set (drop (length ch) (cnd_waiters ?C)) = {t \<in> waiting_on (ks_pc S) c. \<not> sy_signalled s t}"
    unfolding ch signal_chosen_rest [OF dist] ws by (auto simp: s(3) ch)
  then show ?thesis
    using ok by (auto simp: cond_ok_def Let_def s cv_wf_def cv_broadcast_def)
qed

lemma inv_signal_cond:
  assumes inv: "sync_inv S" and sg: "signal_cond cid all (ks S) = (r, s)"
  shows "sync_inv (S\<lparr>ks := s\<rparr>)"
proof (cases "acquire_cond cid (ks S)")
  case None
  with sg have "s = ks S" by (simp add: signal_cond_def)
  with inv show ?thesis by simp
next
  case (Some C)
  then obtain c where cid: "cid = c + 1" and c: "C = sy_conds (ks S) c"
    unfolding acquire_cond_Some by (cases cid) auto
  let ?ch = "signal_chosen all (cnd_waiters C)" and ?i = "unat (cnd_mutex_id C) - 1"
  note s = conjunct2 [OF signal_cond_eq [OF Some [unfolded cid], of all, unfolded Let_def, folded cid,
        unfolded sg prod.inject]]
  have ws: "distinct (cnd_waiters C)" "set (cnd_waiters C) = {t \<in> waiting_on (ks_pc S) c. \<not> sy_signalled (ks S) t}"
    using sync_invD(4) [OF inv, of c] c by (auto simp: cond_ok_def Let_def)
  have chw: "\<exists>d. ks_pc S t = Waiting c ?i d \<and> \<not> sy_signalled (ks S) t" if "t \<in> set ?ch" for t
  proof -
    from that ws(2) signal_chosen_subset [of all "cnd_waiters C"] obtain i d
      where "ks_pc S t = Waiting c i d" "\<not> sy_signalled (ks S) t"
      by (auto simp: waiting_on_def)
    with sync_invD(2) [OF inv, of t] c show ?thesis by (auto simp: pc_ok_def)
  qed
  have M: "mtx_active (sy_mutexes s j) = mtx_active (sy_mutexes (ks S) j)"
      "mtx_recursive (sy_mutexes s j) = mtx_recursive (sy_mutexes (ks S) j)"
      "mtx_host (sy_mutexes s j) = mtx_host (sy_mutexes (ks S) j)"
      "mtx_cond_count (sy_mutexes s j) = mtx_cond_count (sy_mutexes (ks S) j)"
      "mtx_relock_pending (sy_mutexes s j) = mtx_relock_pending (sy_mutexes (ks S) j) +
         (if j = ?i then int (length ?ch) else 0)" for j
    by (simp_all add: s)
  have C: "cnd_active (sy_conds s j) = cnd_active (sy_conds (ks S) j)"
      "cnd_mutex_id (sy_conds s j) = cnd_mutex_id (sy_conds (ks S) j)" for j
    by (simp_all add: s c)
  have sig: "sy_signalled s = (\<lambda>t. sy_signalled (ks S) t \<or> t \<in> set ?ch)" by (simp add: s)
  show ?thesis
  proof (rule sync_invI)
    show "inv_mtx (S\<lparr>ks := s\<rparr>)" using sync_invD(1) [OF inv] by (simp add: inv_mtx_def s)
    show "pc_ok (S\<lparr>ks := s\<rparr>) t" for t
      using sync_invD(2) [OF inv, of t] by (cases "ks_pc S t") (auto simp: pc_ok_def M C sig)
    have "bound_conds (sy_conds s) j = bound_conds (sy_conds (ks S)) j" for j
      by (simp add: bound_conds_def C)
    then show "inv_counts (S\<lparr>ks := s\<rparr>)"
      using sync_invD(3) [OF inv] card_returning_signal [OF chw signal_chosen_distinct [OF ws(1)]]
      by (simp add: inv_counts_def M sig)
    show "cond_ok (S\<lparr>ks := s\<rparr>) j" for j
    proof (cases "j = c")
      case True
      then show ?thesis
        using cond_ok_signal [OF sync_invD(4) [OF inv, of c] M(1), of ?ch all] by (simp add: s c)
    next
      case False
      have "t \<notin> set ?ch" if "t \<in> waiting_on (ks_pc S) j" for t
        using that chw [of t] False by (auto simp: waiting_on_def)
      moreover have "sy_conds s j = sy_conds (ks S) j" using False by (simp add: s)
      ultimately show ?thesis
        using sync_invD(4) [OF inv, of j] by (auto simp: cond_ok_def Let_def M sig)
    qed
  qed
qed

text \<open>Host wake-ups only move a waiter between the two sets of its condition variable.\<close>

lemma inv_set_cv:
  assumes inv: "sync_inv S" and wf: "cv_wf v"
    and same: "parked v \<union> woken v = parked (cnd_cv (sy_conds (ks S) c)) \<union> woken (cnd_cv (sy_conds (ks S) c))"
    and sig: "\<And>t. t \<in> parked v \<Longrightarrow> \<not> sy_signalled (ks S) t"
  shows "sync_inv (S\<lparr>ks := set_cv c v (ks S)\<rparr>)" (is "sync_inv ?S")
proof (rule sync_invI)
  show "inv_mtx ?S" using sync_invD(1) [OF inv] by (simp add: inv_mtx_def set_cv_def)
  show "pc_ok ?S t" for t
    using sync_invD(2) [OF inv, of t] by (cases "ks_pc S t") (auto simp: pc_ok_def set_cv_def)
  have "bound_conds (sy_conds (set_cv c v (ks S))) j = bound_conds (sy_conds (ks S)) j" for j
    by (auto simp: bound_conds_def set_cv_def)
  then show "inv_counts ?S" using sync_invD(3) [OF inv] by (simp add: inv_counts_def) (simp add: set_cv_def)
  show "cond_ok ?S j" for j
    using sync_invD(4) [OF inv, of j] wf same sig by (auto simp: cond_ok_def Let_def set_cv_def)
qed

lemma inv_cond_spurious:
  assumes inv: "sync_inv S" and t: "t \<in> parked (cnd_cv (sy_conds (ks S) c))"
  shows "sync_inv (S\<lparr>ks := set_cv c (cv_wake t (cnd_cv (sy_conds (ks S) c))) (ks S)\<rparr>)"
  using sync_invD(4) [OF inv, of c] t
  by (intro inv_set_cv [OF inv]) (auto simp: cond_ok_def Let_def cv_wf_def cv_wake_def)

lemma inv_cond_repark:
  assumes inv: "sync_inv S" and t: "t \<in> woken (cnd_cv (sy_conds (ks S) c))" "\<not> sy_signalled (ks S) t"
  shows "sync_inv (S\<lparr>ks := set_cv c (cv_park t (cv_leave t (cnd_cv (sy_conds (ks S) c)))) (ks S)\<rparr>)"
  using sync_invD(4) [OF inv, of c] t
  by (intro inv_set_cv [OF inv]) (auto simp: cond_ok_def Let_def cv_wf_def cv_park_def cv_leave_def)

text \<open>A waiter leaves its condition variable for its mutex, counted as returning.\<close>

lemma inv_cond_leave:
  assumes inv: "sync_inv S" and pc: "ks_pc S t = Waiting c i d"
    and s: "\<And>j. sy_mutexes s j = (sy_mutexes (ks S) j)\<lparr>mtx_relock_pending :=
        int (card (returning ((ks_pc S)(t := Relocking i d r)) (sy_signalled (ks S)) j))\<rparr>"
      "sy_signalled s = sy_signalled (ks S)" "sy_conds s = (sy_conds (ks S))(c := (sy_conds (ks S) c)\<lparr>cnd_waiters := ws, cnd_cv := v\<rparr>)"
    and ws: "distinct ws" "set ws = set (cnd_waiters (sy_conds (ks S) c)) - {t}"
    and v: "cv_wf v" "parked v \<union> woken v = waiting_on (ks_pc S) c - {t}" "parked v \<subseteq> parked (cnd_cv (sy_conds (ks S) c))"
  shows "sync_inv (S\<lparr>ks := s, ks_pc := (ks_pc S)(t := Relocking i d r)\<rparr>)" (is "sync_inv ?S")
proof (rule sync_invI)
  show "inv_mtx ?S" using sync_invD(1) [OF inv] by (simp add: inv_mtx_def s)
  show "pc_ok ?S u" for u
    using sync_invD(2) [OF inv, of u] pc
    by (cases "u = t"; cases "ks_pc S u") (auto simp: pc_ok_def s)
  have "bound_conds (sy_conds s) j = bound_conds (sy_conds (ks S)) j" for j by (auto simp: bound_conds_def s)
  then show "inv_counts ?S" using sync_invD(3) [OF inv] by (simp add: inv_counts_def s(1,2))
  have "waiting_on ((ks_pc S)(t := Relocking i d r)) j = waiting_on (ks_pc S) j - (if j = c then {t} else {})" for j
    using pc by (auto simp: waiting_on_def)
  then show "cond_ok ?S j" for j
    using sync_invD(4) [OF inv, of j] ws v by (auto simp: cond_ok_def Let_def s)
qed

lemma inv_cond_wake:
  assumes inv: "sync_inv S" and pc: "ks_pc S t = Waiting c i d"
    and t: "t \<in> woken (cnd_cv (sy_conds (ks S) c))" "sy_signalled (ks S) t"
  shows "sync_inv (S\<lparr>ks := set_cv c (cv_leave t (cnd_cv (sy_conds (ks S) c))) (ks S),
           ks_pc := (ks_pc S)(t := Relocking i d r)\<rparr>)"
proof (rule inv_cond_leave [OF inv pc])
  have "returning ((ks_pc S)(t := Relocking i d r)) (sy_signalled (ks S)) j = returning (ks_pc S) (sy_signalled (ks S)) j" for j
    using pc t by (auto simp: returning_def)
  then show "sy_mutexes (set_cv c (cv_leave t (cnd_cv (sy_conds (ks S) c))) (ks S)) j =
      (sy_mutexes (ks S) j)\<lparr>mtx_relock_pending :=
        int (card (returning ((ks_pc S)(t := Relocking i d r)) (sy_signalled (ks S)) j))\<rparr>" for j
    using sync_invD(3) [OF inv] by (simp add: set_cv_def inv_counts_def)
qed (use sync_invD(4) [OF inv, of c] t in
      \<open>auto simp: set_cv_def cond_ok_def Let_def cv_wf_def cv_leave_def\<close>)

lemma inv_cond_give_up:
  assumes inv: "sync_inv S" and pc: "ks_pc S t = Waiting c i d"
    and t: "t \<in> parked (cnd_cv (sy_conds (ks S) c))" "\<not> sy_signalled (ks S) t"
  shows "sync_inv (S\<lparr>ks := cond_wait_give_up t c i (ks S), ks_pc := (ks_pc S)(t := Relocking i d r)\<rparr>)"
proof (rule inv_cond_leave [OF inv pc])
  have "returning ((ks_pc S)(t := Relocking i d r)) (sy_signalled (ks S)) j =
      (if j = i then insert t (returning (ks_pc S) (sy_signalled (ks S)) j) else returning (ks_pc S) (sy_signalled (ks S)) j)" for j
    using pc t by (auto simp: returning_def)
  moreover have "t \<notin> returning (ks_pc S) (sy_signalled (ks S)) i" using pc t by (auto simp: returning_def)
  ultimately show "sy_mutexes (cond_wait_give_up t c i (ks S)) j =
      (sy_mutexes (ks S) j)\<lparr>mtx_relock_pending :=
        int (card (returning ((ks_pc S)(t := Relocking i d r)) (sy_signalled (ks S)) j))\<rparr>" for j
    using sync_invD(3) [OF inv] by (simp add: cond_wait_give_up_def Let_def add_pending_def inv_counts_def)
qed (use sync_invD(4) [OF inv, of c] t in
      \<open>auto simp: cond_wait_give_up_def Let_def cond_ok_def cv_wf_def cv_expire_def\<close>)

lemma inv_cond_relock:
  assumes inv: "sync_inv S" and pc: "ks_pc S t = Relocking i d r"
    and av: "hm_available t (mtx_host (sy_mutexes (ks S) i))"
  shows "sync_inv (S\<lparr>ks := cond_wait_relock t i d (ks S), ks_pc := (ks_pc S)(t := Running),
           ks_held := hold t i d (ks_held S)\<rparr>)" (is "sync_inv ?S")
proof -
  let ?x = "sy_mutexes (ks S) i"
  from sync_invD(2) [OF inv, of t] pc have p: "mtx_active ?x" "0 < d" "mtx_recursive ?x \<or> d = 1"
      "hm_owner (mtx_host ?x) \<noteq> Some t" "t \<noteq> 0"
    by (auto simp: pc_ok_def valid_tid_def)
  with av have free: "hm_owner (mtx_host ?x) = None" by (auto simp: hm_available_def)
  note take = mtx_take_depth [OF sync_wf [OF inv] free p(2,3,5,1)]
  have tin: "t \<in> returning (ks_pc S) (sy_signalled (ks S)) i" using pc by (auto simp: returning_def)
  then have pos: "0 < card (returning (ks_pc S) (sy_signalled (ks S)) i)" by (auto simp: card_gt_0_iff)
  show ?thesis
  proof (rule sync_invI)
    show "inv_mtx ?S"
      using sync_invD(1) [OF inv] take free
      by (auto simp: inv_mtx_def cond_wait_relock_def Let_def hold_def add_pending_def held_by_def)
    show "pc_ok ?S u" for u
      using sync_invD(2) [OF inv, of u] take(2)
      by (cases "u = t"; cases "ks_pc S u") (auto simp: pc_ok_def cond_wait_relock_def Let_def add_pending_def)
    have ret: "returning ((ks_pc S)(t := Running)) (sy_signalled (ks S)) j =
        returning (ks_pc S) (sy_signalled (ks S)) j - (if j = i then {t} else {})" for j
      using pc by (auto simp: returning_def)
    show "inv_counts ?S"
      using sync_invD(3) [OF inv] tin pos
      by (simp add: inv_counts_def cond_wait_relock_def Let_def add_pending_def ret of_nat_diff)
    have wo: "waiting_on ((ks_pc S)(t := Running)) j = waiting_on (ks_pc S) j" for j
      using pc by (auto simp: waiting_on_def)
    show "cond_ok ?S j" for j
      using sync_invD(4) [OF inv, of j]
      by (auto simp: cond_ok_def Let_def cond_wait_relock_def add_pending_def wo)
  qed
qed

lemma sync_step_inv: "sync_step S S' \<Longrightarrow> sync_inv S \<Longrightarrow> sync_inv S'"
proof (induction rule: sync_step.induct)
  case (lock_timeout S t i)
  then show ?case by (intro inv_lock_pc) auto
next
  case (cond_signal S ctx r s)
  then obtain cid all where "signal_cond cid all (ks S) = (r, s)"
    unfolding sys_cond_signal_def sys_cond_signal_all_def sys_cond_signal_to_def by auto
  then show ?case using cond_signal.prems inv_signal_cond by blast
qed ((rule inv_mem [THEN iffD2] inv_mutex_create inv_mutex_destroy inv_lock_enter inv_lock_take
      inv_mutex_trylock inv_mutex_unlock inv_cond_create inv_cond_destroy inv_cond_wait
      inv_cond_spurious inv_cond_repark inv_cond_wake inv_cond_give_up inv_cond_relock; assumption)+)

lemma sync_start_inv: "sync_inv (sync_start m)"
  by (simp add: sync_inv_def sync_start_def sync_init_def inv_mtx_def mtx_init_table_def mtx_wf_zero
      pc_ok_def inv_counts_def cond_ok_def Let_def waiting_on_def returning_def bound_conds_def cnd_zero_def)
     (simp add: mtx_zero_def held_by_def pthread_mutex_init_def cv_empty_def)

lemma sync_reach_inv: "sync_reach S \<Longrightarrow> sync_inv S"
  by (induction rule: sync_reach.induct) (simp_all add: sync_start_inv sync_step_inv)

text \<open>A signalled waiter is never left asleep.\<close>

lemma signalled_waiter_wakes:
  assumes inv: "sync_inv S" and pc: "ks_pc S t = Waiting c i d" and sig: "sy_signalled (ks S) t"
  shows "sync_step S (S\<lparr>ks := set_cv c (cv_leave t (cnd_cv (sy_conds (ks S) c))) (ks S),
           ks_pc := (ks_pc S)(t := Relocking i d (lv2_ret CELL_OK))\<rparr>)"
proof (rule sync_step.cond_wake [OF pc _ sig])
  have "t \<in> waiting_on (ks_pc S) c" using pc by (auto simp: waiting_on_def)
  then show "t \<in> woken (cnd_cv (sy_conds (ks S) c))"
    using sync_invD(4) [OF inv, of c] sig by (auto simp: cond_ok_def Let_def)
qed

section \<open>A run\<close>

text \<open>
  A run: thread 1 creates and locks a mutex, creates a condition variable on it and waits;
  thread 2 signals; thread 1 leaves its wait.
\<close>

definition ex_mutex :: sys_mutex_info where
  "ex_mutex = mtx_new (call_ctx 1 [0, 0]) (\<lambda>_. 0)"

definition ex_locked :: sync_sys where
  "ex_locked = (let S = sync_start (\<lambda>_. 0); x = snd (mtx_lock_acquired 1 ex_mutex)
     in S\<lparr>ks := set_mutexes (mtx_init_table(0 := x)) (ks S), ks_held := hold 1 0 1 (ks_held S)\<rparr>)"

lemma ex_mutex_created:
  "sys_mutex_create (call_ctx 1 [0, 0]) (mtx_init_table, \<lambda>_. 0) =
     (lv2_ret CELL_OK, mtx_init_table(0 := ex_mutex), \<lambda>_. 0)"
  by (simp add: sys_mutex_create_def mtx_find_free_def slot_simps SYS_MUTEX_MAX_def mtx_init_table_def
      mtx_zero_def ex_mutex_def Let_def)

lemma ex_mutex_fields [simp]:
  "mtx_active ex_mutex" "mtx_recursive ex_mutex = False" "mtx_lock_count ex_mutex = 0" "mtx_host ex_mutex = pthread_mutex_init False"
  "mtx_owner_tid ex_mutex = 0" "mtx_cond_count ex_mutex = 0" "mtx_relock_pending ex_mutex = 0"
  by (simp_all add: ex_mutex_def mtx_new_def mtx_zero_def Let_def)

lemma sync_reach_created:
  "\<exists>S. sync_reach S \<and> ks_pc S = (\<lambda>_. Running) \<and> sy_mutexes (ks S) 0 = ex_mutex"
proof -
  let ?S = "(sync_start (\<lambda>_. 0))\<lparr>ks := set_mutexes (mtx_init_table(0 := ex_mutex)) (ks (sync_start (\<lambda>_. 0))), ks_mem := \<lambda>_. 0\<rparr>"
  have "sync_step (sync_start (\<lambda>_. 0)) ?S"
    by (rule sync_step.mutex_create [of _ "call_ctx 1 [0, 0]"])
       (simp_all add: calls_def sync_start_def sync_init_def valid_tid_def PPU_THREAD_MAX_def ex_mutex_created)
  then have "sync_reach ?S" by (rule sync_reach.step [OF sync_reach.start])
  then show ?thesis by (intro exI conjI, assumption) (simp_all add: sync_start_def set_mutexes_def)
qed

lemma sync_reach_locked: "sync_reach ex_locked"
proof -
  let ?S0 = "sync_start (\<lambda>_. 0)"
  let ?S1 = "?S0\<lparr>ks := set_mutexes (mtx_init_table(0 := ex_mutex)) (ks ?S0), ks_mem := \<lambda>_. 0\<rparr>"
  let ?S2 = "?S1\<lparr>ks_pc := (ks_pc ?S1)(1 := Locking 0)\<rparr>"
  have calls: "calls ?S0 (call_ctx 1 [0, 0])" "calls ?S1 (call_ctx 1 [1, 0])"
    by (simp_all add: calls_def sync_start_def valid_tid_def PPU_THREAD_MAX_def)
  have "sync_step ?S0 ?S1"
    by (rule sync_step.mutex_create [OF calls(1)]) (simp add: sync_start_def sync_init_def ex_mutex_created)
  then have r1: "sync_reach ?S1" by (rule sync_reach.step [OF sync_reach.start])
  have "sync_step ?S1 ?S2"
    using sync_step.lock_enter [OF calls(2)]
    by (simp add: SYS_MUTEX_MAX_def sync_start_def set_mutexes_def mtx_lock_check_def)
  then have r2: "sync_reach ?S2" by (rule sync_reach.step [OF r1])
  have "sync_step ?S2 ex_locked"
    using sync_step.lock_take [of ?S2 1 0 "lv2_ret CELL_OK" "snd (mtx_lock_acquired 1 ex_mutex)"]
    by (simp add: ex_locked_def sync_start_def sync_init_def set_mutexes_def hm_available_def pthread_mutex_init_def
        mtx_lock_acquired_def pthread_mutex_lock_def Let_def bump_def fun_upd_idem)
  then show ?thesis by (rule sync_reach.step [OF r2])
qed

lemma ex_locked_fields:
  "ks_pc ex_locked = (\<lambda>_. Running)" "sy_conds (ks ex_locked) = (\<lambda>_. cnd_zero)"
  "sy_mutexes (ks ex_locked) 0 = ex_mutex\<lparr>mtx_host := pthread_mutex_lock 1 (pthread_mutex_init False),
     mtx_owner_tid := 1, mtx_lock_count := 1\<rparr>"
  "ks_held ex_locked 1 0 = 1"
  by (simp_all add: ex_locked_def sync_start_def sync_init_def set_mutexes_def mtx_lock_acquired_def Let_def hold_def)

lemma sync_reach_waiting:
  "\<exists>S. sync_reach S \<and> ks_pc S = (\<lambda>_. Running)(1 := Waiting 0 0 1) \<and> cnd_active (sy_conds (ks S) 0) \<and>
       cnd_waiters (sy_conds (ks S) 0) = [1]"
proof -
  let ?c = "call_ctx 1 [0, 1, 0]" and ?w = "call_ctx 1 [1, 0]"
  let ?M = "(sy_mutexes (ks ex_locked))(0 := (sy_mutexes (ks ex_locked) 0)\<lparr>mtx_cond_count := 1\<rparr>)"
  let ?s = "(ks ex_locked)\<lparr>sy_mutexes := ?M, sy_conds := (\<lambda>_. cnd_zero)(0 := cnd_fill 1 0 (ks_mem ex_locked) cnd_zero),
              sy_cond_addr := (sy_cond_addr (ks ex_locked))(1 := 0)\<rparr>"
  let ?S = "ex_locked\<lparr>ks := ?s, ks_mem := ks_mem ex_locked\<rparr>"
  have calls: "calls ex_locked ?c" "calls ?S ?w"
    by (simp_all add: calls_def ex_locked_fields valid_tid_def PPU_THREAD_MAX_def)
  have f: "find_slot (\<lambda>i. \<not> cnd_active cnd_zero) SYS_COND_MAX = Some 0"
    by (rule find_slot_first) (simp_all add: SYS_COND_MAX_def cnd_zero_def)
  have "sys_cond_create (True, True) ?c (ks ex_locked, ks_mem ex_locked) = (lv2_ret CELL_OK, ?s, ks_mem ex_locked)"
    by (simp add: sys_cond_create_def sys_mutex_bind_cond_def SYS_MUTEX_MAX_def ex_locked_fields Let_def f)
  then have r: "sync_reach ?S"
    using sync_step.cond_create [OF calls(1)] sync_reach.step [OF sync_reach_locked] by blast
  obtain s where w: "sys_cond_wait ?w ?s = (Inr (0, 1), s)" "cnd_active (sy_conds s 0)" "cnd_waiters (sy_conds s 0) = [1]"
    by (simp add: sys_cond_wait_def acquire_cond_def SYS_COND_MAX_def Let_def cnd_fill_def ex_locked_fields cnd_zero_def)
  have "sync_reach (?S\<lparr>ks := s, ks_pc := (ks_pc ?S)(thread_id ?w := Waiting (arg_slot ?w) 0 1),
          ks_held := hold (thread_id ?w) 0 0 (ks_held ?S)\<rparr>)"
    by (rule sync_reach.step [OF r sync_step.cond_wait [OF calls(2)]]) (use w(1) in simp)
  then show ?thesis using w(2,3) by (intro exI conjI) (assumption, simp_all add: ex_locked_fields)
qed

lemma sync_reach_relocking: "\<exists>S. sync_reach S \<and> ks_pc S 1 = Relocking 0 1 (lv2_ret CELL_OK)"
proof -
  obtain S where S: "sync_reach S" "ks_pc S = (\<lambda>_. Running)(1 := Waiting 0 0 1)" "cnd_active (sy_conds (ks S) 0)"
      "cnd_waiters (sy_conds (ks S) 0) = [1]"
    using sync_reach_waiting by blast
  obtain r s where s: "signal_cond (0 + 1) False (ks S) = (r, s)" by fastforce
  have "calls S (call_ctx 2 [1])" by (simp add: calls_def S valid_tid_def PPU_THREAD_MAX_def)
  then have "sync_reach (S\<lparr>ks := s\<rparr>)"
    using sync_step.cond_signal [of S "call_ctx 2 [1]" r s] s sync_reach.step [OF S(1)]
    by (simp add: sys_cond_signal_def)
  moreover have "sy_signalled s 1"
    using s S(3,4) by (auto simp: signal_cond_def acquire_cond_def SYS_COND_MAX_def Let_def)
  ultimately have "sync_step (S\<lparr>ks := s\<rparr>) ((S\<lparr>ks := s\<rparr>)\<lparr>ks := set_cv 0 (cv_leave 1 (cnd_cv (sy_conds s 0))) s,
      ks_pc := (ks_pc S)(1 := Relocking 0 1 (lv2_ret CELL_OK))\<rparr>)"
    using signalled_waiter_wakes [OF sync_reach_inv, of "S\<lparr>ks := s\<rparr>" 1 0 0 1] by (simp add: S(2))
  note r = sync_reach.step [OF \<open>sync_reach (S\<lparr>ks := s\<rparr>)\<close> this]
  show ?thesis by (rule exI, rule conjI, rule r) simp
qed

section \<open>Properties\<close>





text \<open>
  C17. A mutex is destroyed only when nothing depends on it: when \<open>sys_mutex_destroy\<close>
  answers CELL_OK, no thread holds the mutex, none waits on a condition variable of it or is
  on its way back from one, and no live condition variable names it.
\<close>

theorem mutex_destroy_only_unused:
  assumes "sync_reach S" and "calls S ctx" and "sys_mutex_destroy ctx (sy_mutexes (ks S)) = (lv2_ret CELL_OK, M)"
  shows "ks_held S t (arg_slot ctx) = 0 \<and> ks_pc S t \<noteq> Waiting c (arg_slot ctx) d \<and>
         ks_pc S t \<noteq> Relocking (arg_slot ctx) d r \<and>
         bound_conds (sy_conds (ks S)) (arg_slot ctx) = {}"
proof (cases rule: sys_mutex_destroy_cases [of ctx "sy_mutexes (ks S)"])
  case 1
  with assms(3) show ?thesis by (simp add: lv2_codes)
next
  case (2 r' x)
  obtain i where i: "arg_slot ctx = i" by simp
  note inv = sync_reach_inv [OF assms(1)]
  have "r' = CELL_OK" using 2(4) assms(3) by simp
  with mtx_destroy_cases [OF sync_wf [OF inv] calls_tid [OF assms(2)] 2(3)]
  have u: "mtx_relock_pending (sy_mutexes (ks S) i) \<le> 0" "mtx_cond_count (sy_mutexes (ks S) i) \<le> 0"
      "hm_owner (mtx_host (sy_mutexes (ks S) i)) = None"
    unfolding i by simp_all
  note z = counts_zero [OF inv u(1,2)]
  have "ks_held S t i = 0" using sync_invD(1) [OF inv] u(3) by (simp add: inv_mtx_def held_by_def)
  moreover have "ks_pc S t \<noteq> Waiting c i d" "ks_pc S t \<noteq> Relocking i d r"
    using z sync_invD(2) [OF inv, of t] by (fastforce simp: returning_def bound_conds_def pc_ok_def)+
  ultimately show ?thesis unfolding i using z(2) by blast
qed

theorem mutex_destroy_only_unused_witness:
  "\<exists>S. sync_reach S \<and> ks_held S 1 0 = 0 \<and> bound_conds (sy_conds (ks S)) 0 = {}"
proof -
  obtain S where S: "sync_reach S" "ks_pc S = (\<lambda>_. Running)" "sy_mutexes (ks S) 0 = ex_mutex"
    using sync_reach_created by blast
  obtain M where "sys_mutex_destroy (call_ctx 1 [1]) (sy_mutexes (ks S)) = (lv2_ret CELL_OK, M)"
    by (simp add: sys_mutex_destroy_def SYS_MUTEX_MAX_def S mtx_destroy_locked_def host_defs pthread_mutex_init_def Let_def)
  from mutex_destroy_only_unused [OF S(1) _ this, of 1] S show ?thesis
    by (auto simp: calls_def valid_tid_def PPU_THREAD_MAX_def)
qed

text \<open>
  A signal goes to the thread that has waited longest and is never lost: it takes that
  thread, and no other, off the list, marks it, and the thread is no longer asleep, so the
  step that ends its wait with CELL_OK is enabled.
\<close>

theorem cond_signal_wakes_first:
  assumes "sync_reach S" and "c < SYS_COND_MAX" and "cnd_active (sy_conds (ks S) c)"
    and "cnd_waiters (sy_conds (ks S) c) = w # ws" and "signal_cond (c + 1) False (ks S) = (r, s)"
  shows "r = lv2_ret CELL_OK \<and> cnd_waiters (sy_conds s c) = ws \<and>
         (\<forall>t. sy_signalled s t \<longleftrightarrow> sy_signalled (ks S) t \<or> t = w) \<and> \<not> sy_signalled (ks S) w \<and>
         (\<exists>i d. ks_pc S w = Waiting c i d \<and>
            sync_step (S\<lparr>ks := s\<rparr>) (S\<lparr>ks := set_cv c (cv_leave w (cnd_cv (sy_conds s c))) s,
              ks_pc := (ks_pc S)(w := Relocking i d (lv2_ret CELL_OK))\<rparr>))"
proof -
  let ?C = "sy_conds (ks S) c"
  have "acquire_cond (c + 1) (ks S) = Some ?C" using assms(2,3) by (simp add: acquire_cond_def)
  note eq = signal_cond_eq [OF this, of False, unfolded assms(5) prod.inject Let_def]
  have ch: "signal_chosen False (w # ws) = [w]" by (simp add: signal_chosen_def)
  have s: "cnd_waiters (sy_conds s c) = ws" "cnd_cv (sy_conds s c) = cv_broadcast (cnd_cv ?C)"
    "\<And>t. sy_signalled s t \<longleftrightarrow> sy_signalled (ks S) t \<or> t = w"
    using eq by (auto simp: ch assms(4))
  have w: "w \<in> waiting_on (ks_pc S) c" "\<not> sy_signalled (ks S) w"
    using sync_invD(4) [OF sync_reach_inv [OF assms(1)], of c] assms(4) by (auto simp: cond_ok_def Let_def)
  then obtain i d where pc: "ks_pc S w = Waiting c i d" by (auto simp: waiting_on_def)
  from signalled_waiter_wakes [OF inv_signal_cond [OF sync_reach_inv [OF assms(1)] assms(5)], of w c i d]
  show ?thesis using conjunct1 [OF eq] s w(2) pc by simp
qed

theorem cond_signal_wakes_first_witness:
  "\<exists>S r s. sync_reach S \<and> signal_cond 1 False (ks S) = (r, s) \<and> r = lv2_ret CELL_OK \<and>
     cnd_waiters (sy_conds s 0) = [] \<and> sy_signalled s 1"
proof -
  obtain S where S: "sync_reach S" "cnd_active (sy_conds (ks S) 0)" "cnd_waiters (sy_conds (ks S) 0) = [1]"
    using sync_reach_waiting by blast
  obtain r s where s: "signal_cond (0 + 1) False (ks S) = (r, s)" by fastforce
  from cond_signal_wakes_first [OF S(1) _ S(2,3) s] S(1) s show ?thesis
    by (auto simp: SYS_COND_MAX_def)
qed

text \<open>
  C28. \<open>sys_cond_destroy\<close> on a live condition variable answers EBUSY exactly when some
  thread is still waiting on it unsignalled; threads already signalled do not keep it alive.
\<close>

theorem cond_destroy_busy_iff:
  assumes "sync_reach S" and "unat (LV2_ARG_U32 ctx 0) = c + 1" and "c < SYS_COND_MAX"
    and "cnd_active (sy_conds (ks S) c)"
  shows "fst (sys_cond_destroy ctx (ks S)) = lv2_ret CELL_EBUSY \<longleftrightarrow>
         (\<exists>t i d. ks_pc S t = Waiting c i d \<and> \<not> sy_signalled (ks S) t)"
proof -
  have "set (cnd_waiters (sy_conds (ks S) c)) = {t \<in> waiting_on (ks_pc S) c. \<not> sy_signalled (ks S) t}"
    using sync_invD(4) [OF sync_reach_inv [OF assms(1)], of c] by (simp add: cond_ok_def Let_def)
  then have "cnd_waiters (sy_conds (ks S) c) \<noteq> [] \<longleftrightarrow>
      (\<exists>t i d. ks_pc S t = Waiting c i d \<and> \<not> sy_signalled (ks S) t)"
    by (auto simp: waiting_on_def set_empty [symmetric] simp del: set_empty)
  moreover have "fst (sys_cond_destroy ctx (ks S)) = lv2_ret CELL_EBUSY \<longleftrightarrow> cnd_waiters (sy_conds (ks S) c) \<noteq> []"
    using assms(2-4) by (simp add: sys_cond_destroy_def Let_def lv2_codes)
  ultimately show ?thesis by simp
qed

theorem cond_destroy_busy_iff_witness:
  "\<exists>S. sync_reach S \<and> fst (sys_cond_destroy (call_ctx 2 [1]) (ks S)) = lv2_ret CELL_EBUSY"
proof -
  obtain S where S: "sync_reach S" "ks_pc S = (\<lambda>_. Running)(1 := Waiting 0 0 1)" "cnd_active (sy_conds (ks S) 0)"
      "cnd_waiters (sy_conds (ks S) 0) = [1]"
    using sync_reach_waiting by blast
  have "\<not> sy_signalled (ks S) 1"
    using sync_invD(4) [OF sync_reach_inv [OF S(1)], of 0] S(4) by (auto simp: cond_ok_def Let_def)
  with cond_destroy_busy_iff [OF S(1), of "call_ctx 2 [1]" 0] S show ?thesis
    by (auto simp: SYS_COND_MAX_def)
qed

end
