(* ===== verification/SysRwlock.thy ===== *)
theory SysRwlock
  imports SysSemaphore
begin

text \<open>
  Reader-writer locks (runtime/syscalls/sys_rwlock.c), POSIX build: 256 host rwlocks, each
  with the id of the thread that holds it for writing. A call that would sleep answers
  \<open>Blocks\<close> and changes nothing; it goes through when it is tried again after the lock
  has become free.
\<close>

section \<open>The host lock\<close>

text \<open>
  \<open>rw_reads\<close> counts the read locks of each thread. A read lock asked for by the thread
  that holds the write lock, and an unlock by a thread that holds neither, answer an error
  and change nothing.
\<close>

record host_rwlock =
  rw_writer :: "u64 option"
  rw_reads :: "u64 \<Rightarrow> nat"

definition pthread_rwlock_init :: host_rwlock where
  "pthread_rwlock_init = \<lparr>rw_writer = None, rw_reads = (\<lambda>_. 0)\<rparr>"

definition rw_idle :: "host_rwlock \<Rightarrow> bool" where
  "rw_idle h \<longleftrightarrow> rw_writer h = None \<and> rw_reads h = (\<lambda>_. 0)"

definition rd_available :: "u64 \<Rightarrow> host_rwlock \<Rightarrow> bool" where
  "rd_available t h \<longleftrightarrow> rw_writer h = None \<or> rw_writer h = Some t"

definition pthread_rwlock_rdlock :: "u64 \<Rightarrow> host_rwlock \<Rightarrow> host_rwlock" where
  "pthread_rwlock_rdlock t h =
     (if rw_writer h = None then h\<lparr>rw_reads := (rw_reads h)(t := Suc (rw_reads h t))\<rparr> else h)"

definition pthread_rwlock_tryrdlock :: "u64 \<Rightarrow> host_rwlock \<Rightarrow> bool \<times> host_rwlock" where
  "pthread_rwlock_tryrdlock t h =
     (if rw_writer h = None then (True, h\<lparr>rw_reads := (rw_reads h)(t := Suc (rw_reads h t))\<rparr>) else (False, h))"

definition pthread_rwlock_wrlock :: "u64 \<Rightarrow> host_rwlock \<Rightarrow> host_rwlock" where
  "pthread_rwlock_wrlock t h = h\<lparr>rw_writer := Some t\<rparr>"

text \<open>One unlock for both kinds of lock.\<close>

definition pthread_rwlock_unlock :: "u64 \<Rightarrow> host_rwlock \<Rightarrow> host_rwlock" where
  "pthread_rwlock_unlock t h =
     (if rw_writer h = Some t then h\<lparr>rw_writer := None\<rparr>
      else h\<lparr>rw_reads := (rw_reads h)(t := rw_reads h t - 1)\<rparr>)"

section \<open>Data and system calls\<close>

record sys_rwlock_info =
  rwl_active :: bool
  rwl_protocol :: u32
  rwl_name :: "u8 list"
  rwl_host :: host_rwlock
  rwl_writer_tid :: u64

type_synonym rwl_table = "nat \<Rightarrow> sys_rwlock_info"

definition SYS_RWLOCK_MAX :: nat where
  "SYS_RWLOCK_MAX = 256"

definition rwl_zero :: sys_rwlock_info where
  "rwl_zero = \<lparr>rwl_active = False, rwl_protocol = 0, rwl_name = replicate 8 0,
     rwl_host = pthread_rwlock_init, rwl_writer_tid = 0\<rparr>"

definition rwl_init_table :: rwl_table where
  "rwl_init_table = (\<lambda>_. rwl_zero)"

definition rwl_new :: "ppu_context \<Rightarrow> mem \<Rightarrow> sys_rwlock_info" where
  "rwl_new ctx m =
     (let attr_addr = LV2_ARG_PTR ctx 1;
          r = rwl_zero\<lparr>rwl_active := True\<rparr>;
          r = (if attr_addr \<noteq> 0
               then r\<lparr>rwl_protocol := read_be32 m attr_addr, rwl_name := copy_bytes m (vm_to_host attr_addr + 8) 8\<rparr>
               else r)
      in r\<lparr>rwl_host := pthread_rwlock_init, rwl_writer_tid := 0\<rparr>)"

definition sys_rwlock_create :: "ppu_context \<Rightarrow> rwl_table \<times> mem \<Rightarrow> u64 \<times> rwl_table \<times> mem" where
  "sys_rwlock_create ctx st =
     (let (t, m) = st; id_out_addr = LV2_ARG_PTR ctx 0
      in case find_slot (\<lambda>i. \<not> rwl_active (t i)) SYS_RWLOCK_MAX of
           None \<Rightarrow> (lv2_ret CELL_EAGAIN, t, m)
         | Some slot \<Rightarrow>
             (lv2_ret CELL_OK, t(slot := rwl_new ctx m),
              if id_out_addr \<noteq> 0 then write_be32 m id_out_addr (of_nat (slot + 1)) else m))"

definition sys_rwlock_destroy :: "ppu_context \<Rightarrow> rwl_table \<Rightarrow> u64 \<times> rwl_table" where
  "sys_rwlock_destroy ctx t =
     (let rid = unat (LV2_ARG_U32 ctx 0)
      in if rid = 0 \<or> rid > SYS_RWLOCK_MAX then (lv2_ret CELL_ESRCH, t)
         else if \<not> rwl_active (t (rid - 1)) then (lv2_ret CELL_ESRCH, t)
         else (lv2_ret CELL_OK, t(rid - 1 := (t (rid - 1))\<lparr>rwl_active := False\<rparr>)))"

definition rwl_rlock :: "u64 \<Rightarrow> sys_rwlock_info \<Rightarrow> u64 blocking \<times> sys_rwlock_info" where
  "rwl_rlock tid r =
     (if rd_available tid (rwl_host r)
      then (Returns (lv2_ret CELL_OK), r\<lparr>rwl_host := pthread_rwlock_rdlock tid (rwl_host r)\<rparr>)
      else (Blocks, r))"

definition sys_rwlock_rlock :: "ppu_context \<Rightarrow> rwl_table \<Rightarrow> u64 blocking \<times> rwl_table" where
  "sys_rwlock_rlock ctx t =
     (let rid = unat (LV2_ARG_U32 ctx 0)
      in if rid = 0 \<or> rid > SYS_RWLOCK_MAX then (Returns (lv2_ret CELL_ESRCH), t)
         else if \<not> rwl_active (t (rid - 1)) then (Returns (lv2_ret CELL_ESRCH), t)
         else let (a, r) = rwl_rlock (thread_id ctx) (t (rid - 1)) in (a, t(rid - 1 := r)))"

definition rwl_tryrlock :: "u64 \<Rightarrow> sys_rwlock_info \<Rightarrow> u64 \<times> sys_rwlock_info" where
  "rwl_tryrlock tid r =
     (let (got, h) = pthread_rwlock_tryrdlock tid (rwl_host r)
      in if \<not> got then (lv2_ret CELL_EBUSY, r\<lparr>rwl_host := h\<rparr>) else (lv2_ret CELL_OK, r\<lparr>rwl_host := h\<rparr>))"

definition sys_rwlock_tryrlock :: "ppu_context \<Rightarrow> rwl_table \<Rightarrow> u64 \<times> rwl_table" where
  "sys_rwlock_tryrlock ctx t =
     (let rid = unat (LV2_ARG_U32 ctx 0)
      in if rid = 0 \<or> rid > SYS_RWLOCK_MAX then (lv2_ret CELL_ESRCH, t)
         else if \<not> rwl_active (t (rid - 1)) then (lv2_ret CELL_ESRCH, t)
         else let (a, r) = rwl_tryrlock (thread_id ctx) (t (rid - 1)) in (a, t(rid - 1 := r)))"

definition rwl_runlock :: "u64 \<Rightarrow> sys_rwlock_info \<Rightarrow> u64 \<times> sys_rwlock_info" where
  "rwl_runlock tid r = (lv2_ret CELL_OK, r\<lparr>rwl_host := pthread_rwlock_unlock tid (rwl_host r)\<rparr>)"

definition sys_rwlock_runlock :: "ppu_context \<Rightarrow> rwl_table \<Rightarrow> u64 \<times> rwl_table" where
  "sys_rwlock_runlock ctx t =
     (let rid = unat (LV2_ARG_U32 ctx 0)
      in if rid = 0 \<or> rid > SYS_RWLOCK_MAX then (lv2_ret CELL_ESRCH, t)
         else if \<not> rwl_active (t (rid - 1)) then (lv2_ret CELL_ESRCH, t)
         else let (a, r) = rwl_runlock (thread_id ctx) (t (rid - 1)) in (a, t(rid - 1 := r)))"

definition rwl_wlock :: "u64 \<Rightarrow> sys_rwlock_info \<Rightarrow> u64 blocking \<times> sys_rwlock_info" where
  "rwl_wlock tid r =
     (if rwl_writer_tid r = tid then (Returns (lv2_ret CELL_EDEADLK), r)
      else if rw_idle (rwl_host r)
      then (Returns (lv2_ret CELL_OK),
            r\<lparr>rwl_host := pthread_rwlock_wrlock tid (rwl_host r), rwl_writer_tid := tid\<rparr>)
      else (Blocks, r))"

definition sys_rwlock_wlock :: "ppu_context \<Rightarrow> rwl_table \<Rightarrow> u64 blocking \<times> rwl_table" where
  "sys_rwlock_wlock ctx t =
     (let rid = unat (LV2_ARG_U32 ctx 0)
      in if rid = 0 \<or> rid > SYS_RWLOCK_MAX then (Returns (lv2_ret CELL_ESRCH), t)
         else if \<not> rwl_active (t (rid - 1)) then (Returns (lv2_ret CELL_ESRCH), t)
         else let (a, r) = rwl_wlock (thread_id ctx) (t (rid - 1)) in (a, t(rid - 1 := r)))"

definition rwl_trywlock :: "u64 \<Rightarrow> sys_rwlock_info \<Rightarrow> u64 \<times> sys_rwlock_info" where
  "rwl_trywlock tid r =
     (if rwl_writer_tid r = tid then (lv2_ret CELL_EDEADLK, r)
      else if \<not> rw_idle (rwl_host r) then (lv2_ret CELL_EBUSY, r)
      else (lv2_ret CELL_OK, r\<lparr>rwl_host := pthread_rwlock_wrlock tid (rwl_host r), rwl_writer_tid := tid\<rparr>))"

definition sys_rwlock_trywlock :: "ppu_context \<Rightarrow> rwl_table \<Rightarrow> u64 \<times> rwl_table" where
  "sys_rwlock_trywlock ctx t =
     (let rid = unat (LV2_ARG_U32 ctx 0)
      in if rid = 0 \<or> rid > SYS_RWLOCK_MAX then (lv2_ret CELL_ESRCH, t)
         else if \<not> rwl_active (t (rid - 1)) then (lv2_ret CELL_ESRCH, t)
         else let (a, r) = rwl_trywlock (thread_id ctx) (t (rid - 1)) in (a, t(rid - 1 := r)))"

definition rwl_wunlock :: "u64 \<Rightarrow> sys_rwlock_info \<Rightarrow> u64 \<times> sys_rwlock_info" where
  "rwl_wunlock tid r =
     (if rwl_writer_tid r \<noteq> tid then (lv2_ret CELL_EPERM, r)
      else (lv2_ret CELL_OK, r\<lparr>rwl_writer_tid := 0, rwl_host := pthread_rwlock_unlock tid (rwl_host r)\<rparr>))"

definition sys_rwlock_wunlock :: "ppu_context \<Rightarrow> rwl_table \<Rightarrow> u64 \<times> rwl_table" where
  "sys_rwlock_wunlock ctx t =
     (let rid = unat (LV2_ARG_U32 ctx 0)
      in if rid = 0 \<or> rid > SYS_RWLOCK_MAX then (lv2_ret CELL_ESRCH, t)
         else if \<not> rwl_active (t (rid - 1)) then (lv2_ret CELL_ESRCH, t)
         else let (a, r) = rwl_wunlock (thread_id ctx) (t (rid - 1)) in (a, t(rid - 1 := r)))"

section \<open>A run of calls\<close>

text \<open>
  One live lock and the calls of all threads on it, in any order. The guest's own view:
  \<open>writing\<close> and \<open>reading\<close> say what each thread was granted and has not given back.
  A thread releases for reading only what it has locked for reading, and does not ask for
  a read lock while it is the writer; the theorems at the end say what happens otherwise.
\<close>

record rw_sys =
  rw_lock :: sys_rwlock_info
  writing :: "u64 set"
  reading :: "u64 \<Rightarrow> nat"

inductive rw_step :: "rw_sys \<Rightarrow> rw_sys \<Rightarrow> bool" where
  granted_read: "t \<noteq> 0 \<Longrightarrow> t \<notin> writing S \<Longrightarrow>
    rwl_rlock t (rw_lock S) = (Returns (lv2_ret CELL_OK), r) \<or> rwl_tryrlock t (rw_lock S) = (lv2_ret CELL_OK, r) \<Longrightarrow>
    rw_step S (S\<lparr>rw_lock := r, reading := (reading S)(t := Suc (reading S t))\<rparr>)"
| read_busy: "t \<noteq> 0 \<Longrightarrow> rwl_tryrlock t (rw_lock S) = (lv2_ret CELL_EBUSY, r) \<Longrightarrow> rw_step S (S\<lparr>rw_lock := r\<rparr>)"
| read_done: "t \<noteq> 0 \<Longrightarrow> 0 < reading S t \<Longrightarrow> rwl_runlock t (rw_lock S) = (a, r) \<Longrightarrow>
    rw_step S (S\<lparr>rw_lock := r, reading := (reading S)(t := reading S t - 1)\<rparr>)"
| granted_write: "t \<noteq> 0 \<Longrightarrow>
    rwl_wlock t (rw_lock S) = (Returns (lv2_ret CELL_OK), r) \<or> rwl_trywlock t (rw_lock S) = (lv2_ret CELL_OK, r) \<Longrightarrow>
    rw_step S (S\<lparr>rw_lock := r, writing := insert t (writing S)\<rparr>)"
| write_refused: "t \<noteq> 0 \<Longrightarrow> a \<noteq> lv2_ret CELL_OK \<Longrightarrow>
    rwl_wlock t (rw_lock S) = (Returns a, r) \<or> rwl_trywlock t (rw_lock S) = (a, r) \<or>
    rwl_wunlock t (rw_lock S) = (a, r) \<Longrightarrow> rw_step S (S\<lparr>rw_lock := r\<rparr>)"
| write_done: "t \<noteq> 0 \<Longrightarrow> rwl_wunlock t (rw_lock S) = (lv2_ret CELL_OK, r) \<Longrightarrow>
    rw_step S (S\<lparr>rw_lock := r, writing := writing S - {t}\<rparr>)"

definition rw_start :: rw_sys where
  "rw_start = \<lparr>rw_lock = rwl_zero\<lparr>rwl_active := True\<rparr>, writing = {}, reading = (\<lambda>_. 0)\<rparr>"

inductive rw_reach :: "rw_sys \<Rightarrow> bool" where
  start: "rw_reach rw_start"
| step: "rw_reach S \<Longrightarrow> rw_step S S' \<Longrightarrow> rw_reach S'"

definition rw_inv :: "rw_sys \<Rightarrow> bool" where
  "rw_inv S \<longleftrightarrow> rw_reads (rwl_host (rw_lock S)) = reading S \<and>
     (case rw_writer (rwl_host (rw_lock S)) of
        None \<Rightarrow> writing S = {} \<and> rwl_writer_tid (rw_lock S) = 0
      | Some t \<Rightarrow> t \<noteq> 0 \<and> writing S = {t} \<and> rwl_writer_tid (rw_lock S) = t \<and> reading S = (\<lambda>_. 0))"

lemmas rwl_ops = rwl_rlock_def rwl_tryrlock_def rwl_runlock_def rwl_wlock_def rwl_trywlock_def rwl_wunlock_def
  rd_available_def rw_idle_def pthread_rwlock_rdlock_def pthread_rwlock_tryrdlock_def pthread_rwlock_wrlock_def
  pthread_rwlock_unlock_def Let_def

lemma rw_step_inv: "rw_step S S' \<Longrightarrow> rw_inv S \<Longrightarrow> rw_inv S'"
  by (induction rule: rw_step.induct)
     (auto simp: rw_inv_def rwl_ops lv2_codes split: if_splits option.splits)

lemma rw_start_inv: "rw_inv rw_start"
  by (simp add: rw_inv_def rw_start_def rwl_zero_def pthread_rwlock_init_def)

lemma rw_reach_inv: "rw_reach S \<Longrightarrow> rw_inv S"
  by (induction rule: rw_reach.induct) (simp_all add: rw_start_inv rw_step_inv)

section \<open>Properties\<close>


lemma rw_reach_writer:
  "rw_reach (rw_start\<lparr>rw_lock := (rw_lock rw_start)\<lparr>rwl_host := pthread_rwlock_wrlock 1 pthread_rwlock_init,
     rwl_writer_tid := 1\<rparr>, writing := {1}\<rparr>)"
  using rw_reach.step [OF rw_reach.start rw_step.granted_write [of 1]]
  by (simp add: rwl_ops rw_start_def rwl_zero_def pthread_rwlock_init_def)


text \<open>
  C29. The read unlock has no owner check: \<open>sys_rwlock_runlock\<close> by the thread that holds the
  write lock answers CELL_OK and releases the write lock, but \<open>writer_tid\<close> keeps the
  thread's id, so that its next \<open>sys_rwlock_wlock\<close> on the free lock answers EDEADLK.
\<close>

theorem rwlock_runlock_by_writer:
  "(let t = rwl_init_table(0 := rwl_zero\<lparr>rwl_active := True\<rparr>); ctx = call_ctx 1 [1];
        (a, t) = sys_rwlock_wlock ctx t; (b, t) = sys_rwlock_runlock ctx t; (c, t') = sys_rwlock_wlock ctx t
    in a = Returns (lv2_ret CELL_OK) \<and> b = lv2_ret CELL_OK \<and> rw_idle (rwl_host (t 0)) \<and>
       rwl_writer_tid (t 0) = 1 \<and> c = Returns (lv2_ret CELL_EDEADLK))"
  by (simp add: sys_rwlock_wlock_def sys_rwlock_runlock_def SYS_RWLOCK_MAX_def rwl_ops rwl_init_table_def
      rwl_zero_def pthread_rwlock_init_def)

end
