(* ===== verification/Fifo.thy ===== *)
theory Fifo
  imports Prelude
begin

text \<open>
  Ring buffers and the interface of a bounded first-in first-out queue, for the components
  that store events or messages in a fixed circular array.
\<close>

section \<open>Ring buffers\<close>

text \<open>The contents of a ring of \<open>c\<close> cells: \<open>n\<close> cells from \<open>h\<close> on.\<close>

definition ring_items :: "(nat \<Rightarrow> 'a) \<Rightarrow> nat \<Rightarrow> nat \<Rightarrow> nat \<Rightarrow> 'a list" where
  "ring_items buf h n c = map (\<lambda>k. buf ((h + k) mod c)) [0..<n]"

lemma length_ring_items [simp]: "length (ring_items buf h n c) = n"
  by (simp add: ring_items_def)

lemma ring_items_0 [simp]: "ring_items buf h 0 c = []"
  by (simp add: ring_items_def)

lemma ring_inj:
  assumes "(h + a) mod c = (h + b) mod c" and "a < c" and "b < (c :: nat)"
  shows "a = b"
proof -
  have le: "a = b" if "(h + a) mod c = (h + b) mod c" "a < c" "b < c" "a \<le> b" for a b
  proof -
    from that have "c dvd b - a" using mod_eq_dvd_iff_nat [of "h + a" "h + b" c] by simp
    then show ?thesis using that nat_dvd_not_less [of "b - a" c] by fastforce
  qed
  show ?thesis using le [of a b] le [of b a] assms by (metis nat_le_linear)
qed

lemma ring_push:
  assumes "n < c"
  shows "ring_items (buf((h + n) mod c := x)) h (Suc n) c = ring_items buf h n c @ [x]"
proof -
  have "(h + k) mod c \<noteq> (h + n) mod c" if "k < n" for k
    using that assms ring_inj [of h k c n] by auto
  then show ?thesis by (simp add: ring_items_def)
qed

lemma ring_pop: "0 < n \<Longrightarrow> ring_items buf h n c = buf (h mod c) # ring_items buf ((h + 1) mod c) (n - 1) c"
  by (cases n) (simp_all add: ring_items_def upt_conv_Cons map_Suc_upt [symmetric] mod_add_left_eq del: upt_Suc)

section \<open>The interface\<close>

text \<open>
  A put is refused exactly when the queue holds as much as its capacity; a take delivers the
  oldest item.
\<close>

locale bounded_fifo =
  fixes inv :: "'q \<Rightarrow> bool"
    and cap :: "'q \<Rightarrow> nat"
    and items :: "'q \<Rightarrow> 'a list"
    and put :: "'a \<Rightarrow> 'q \<Rightarrow> bool \<times> 'q"
    and get :: "'q \<Rightarrow> 'a option \<times> 'q"
  assumes inv_put: "inv q \<Longrightarrow> inv (snd (put x q)) \<and> cap (snd (put x q)) = cap q"
    and inv_get: "inv q \<Longrightarrow> inv (snd (get q)) \<and> cap (snd (get q)) = cap q"
    and bounded: "inv q \<Longrightarrow> length (items q) \<le> cap q"
    and put_ok: "inv q \<Longrightarrow> length (items q) < cap q \<Longrightarrow> fst (put x q) \<and> items (snd (put x q)) = items q @ [x]"
    and put_full: "inv q \<Longrightarrow> length (items q) = cap q \<Longrightarrow> \<not> fst (put x q) \<and> items (snd (put x q)) = items q"
    and get_ok: "inv q \<Longrightarrow> items q = x # xs \<Longrightarrow> fst (get q) = Some x \<and> items (snd (get q)) = xs"
    and get_empty: "inv q \<Longrightarrow> items q = [] \<Longrightarrow> fst (get q) = None \<and> items (snd (get q)) = []"
begin

text \<open>
  A run of puts (\<open>Some x\<close>) and takes (\<open>None\<close>): what was accepted, what was delivered, and
  the queue at the end.
\<close>

fun run :: "'a option list \<Rightarrow> 'q \<Rightarrow> 'a list \<times> 'a list \<times> 'q" where
  "run [] q = ([], [], q)"
| "run (Some x # ops) q =
     (let (ok, q') = put x q; (acc, del, q'') = run ops q' in (if ok then x # acc else acc, del, q''))"
| "run (None # ops) q =
     (let (y, q') = get q; (acc, del, q'') = run ops q' in (acc, case y of None \<Rightarrow> del | Some z \<Rightarrow> z # del, q''))"

lemma run_fifo:
  "inv q \<Longrightarrow> run ops q = (acc, del, q') \<Longrightarrow>
     inv q' \<and> cap q' = cap q \<and> length (items q') \<le> cap q \<and> items q @ acc = del @ items q'"
proof (induction ops q arbitrary: acc del q' rule: run.induct)
  case (1 q)
  then show ?case using bounded by auto
next
  case (2 x ops q)
  obtain ok q1 where p: "put x q = (ok, q1)" by fastforce
  obtain acc1 del1 q2 where r: "run ops q1 = (acc1, del1, q2)" by (metis prod_cases3)
  have q1: "inv q1" "cap q1 = cap q" using inv_put [OF 2(2), of x] p by auto
  have "items q1 = items q @ (if ok then [x] else [])"
    using put_ok [OF 2(2), of x] put_full [OF 2(2), of x] bounded [OF 2(2)] p by (cases "length (items q) < cap q") auto
  then show ?case using 2(1) [OF p [symmetric] refl q1(1) r] q1 2(3) p r by auto
next
  case (3 ops q)
  obtain y q1 where p: "get q = (y, q1)" by fastforce
  obtain acc1 del1 q2 where r: "run ops q1 = (acc1, del1, q2)" by (metis prod_cases3)
  have q1: "inv q1" "cap q1 = cap q" using inv_get [OF 3(2)] p by auto
  have "items q = (case y of None \<Rightarrow> [] | Some z \<Rightarrow> [z]) @ items q1"
    using get_ok [OF 3(2)] get_empty [OF 3(2)] p by (cases "items q") auto
  then show ?case using 3(1) [OF p [symmetric] refl q1(1) r] q1 3(3) p r by (cases y) auto
qed

end

end
