(* ===== verification/EventQueue.thy ===== *)
theory EventQueue
  imports Fifo SysSemaphore
begin

text \<open>
  Event queues (runtime/syscalls/sys_event.c, first half), POSIX build: 128 queues, each a
  ring buffer of at most 127 events. The ring is shown to be a bounded first-in first-out
  queue through the interface \<open>bounded_fifo\<close>.

  \<open>capacity\<close>, \<open>head\<close>, \<open>tail\<close> and \<open>count\<close> are C ints that stay between 0 and 127
  and natural numbers here. Two settings of the environment that change answers are
  arguments: \<open>lenient\<close> is YDKJ_EVT_LENIENT. Left out: logging, the YDKJ, PS3_WAITBT and
  WAITBT diagnostics, and \<open>ydkj_release_pending_threads\<close>. The call of a receive that
  would block into the SPU scheduler is an argument of \<open>sys_event_queue_receive\<close>.
\<close>

section \<open>Data\<close>

record sys_event_t =
  ev_source :: u64
  ev_data1 :: u64
  ev_data2 :: u64
  ev_data3 :: u64

definition event_zero :: sys_event_t where
  "event_zero = \<lparr>ev_source = 0, ev_data1 = 0, ev_data2 = 0, ev_data3 = 0\<rparr>"

record sys_event_queue_info =
  evq_active :: bool
  evq_protocol :: u32
  evq_type :: int
  evq_name :: "u8 list"
  evq_key :: u64
  evq_buffer :: "nat \<Rightarrow> sys_event_t"
  evq_capacity :: nat
  evq_head :: nat
  evq_tail :: nat
  evq_count :: nat
  evq_cancelled :: bool
  evq_waiters :: int

type_synonym evq_table = "nat \<Rightarrow> sys_event_queue_info"

definition SYS_EVENT_QUEUE_MAX :: nat where
  "SYS_EVENT_QUEUE_MAX = 128"

definition SYS_EVENT_QUEUE_BUF_MAX :: nat where
  "SYS_EVENT_QUEUE_BUF_MAX = 127"

definition SYS_PPU_QUEUE :: int where
  "SYS_PPU_QUEUE = 1"

definition evq_zero :: sys_event_queue_info where
  "evq_zero = \<lparr>evq_active = False, evq_protocol = 0, evq_type = 0, evq_name = replicate 8 0, evq_key = 0,
     evq_buffer = (\<lambda>_. event_zero), evq_capacity = 0, evq_head = 0, evq_tail = 0, evq_count = 0,
     evq_cancelled = False, evq_waiters = 0\<rparr>"

definition evq_init_table :: evq_table where
  "evq_init_table = (\<lambda>_. evq_zero)"

section \<open>The ring\<close>

text \<open>Taking the event at the head, and storing one at the tail.\<close>

definition evq_pop :: "sys_event_queue_info \<Rightarrow> sys_event_t \<times> sys_event_queue_info" where
  "evq_pop q = (evq_buffer q (evq_head q),
     q\<lparr>evq_head := (evq_head q + 1) mod evq_capacity q, evq_count := evq_count q - 1\<rparr>)"

definition event_queue_push :: "sys_event_t \<Rightarrow> sys_event_queue_info \<Rightarrow> int \<times> sys_event_queue_info" where
  "event_queue_push evt q =
     (if \<not> evq_active q then (- 1, q)
      else if evq_count q \<ge> evq_capacity q then (- 1, q)
      else (0, q\<lparr>evq_buffer := (evq_buffer q)(evq_tail q := evt),
                 evq_tail := (evq_tail q + 1) mod evq_capacity q, evq_count := evq_count q + 1\<rparr>))"

section \<open>Creation and destruction\<close>

definition q_open :: "u64 \<Rightarrow> int \<Rightarrow> sys_event_queue_info" where
  "q_open key sz = evq_zero\<lparr>evq_key := key, evq_capacity := nat sz, evq_type := SYS_PPU_QUEUE\<rparr>"

definition q_go_live :: "sys_event_queue_info \<Rightarrow> sys_event_queue_info" where
  "q_go_live q = q\<lparr>evq_active := True\<rparr>"

definition clamp_queue_size :: "int \<Rightarrow> int" where
  "clamp_queue_size sz =
     (if sz \<le> 0 \<or> sz > int SYS_EVENT_QUEUE_BUF_MAX then int SYS_EVENT_QUEUE_BUF_MAX else sz)"

text \<open>\<open>sys_event_queue_create_direct\<close>: the new queue's id, or 0 when the table is full.\<close>

definition sys_event_queue_create_direct :: "u64 \<Rightarrow> int \<Rightarrow> evq_table \<Rightarrow> u32 \<times> evq_table" where
  "sys_event_queue_create_direct key sz t =
     (case find_slot (\<lambda>i. \<not> evq_active (t i)) SYS_EVENT_QUEUE_MAX of
        None \<Rightarrow> (0, t)
      | Some slot \<Rightarrow> (of_nat (slot + 1), t(slot := q_go_live (q_open key (clamp_queue_size sz)))))"

definition evq_new :: "ppu_context \<Rightarrow> mem \<Rightarrow> sys_event_queue_info" where
  "evq_new ctx m =
     (let attr_addr = LV2_ARG_PTR ctx 1;
          q = q_open (LV2_ARG_U64 ctx 2) (clamp_queue_size (LV2_ARG_S32 ctx 3));
          q = (if attr_addr \<noteq> 0
               then q\<lparr>evq_protocol := read_be32 m attr_addr, evq_type := sint (read_be32 m (attr_addr + 4)),
                      evq_name := copy_bytes m (vm_to_host attr_addr + 8) 8\<rparr>
               else q)
      in q_go_live q)"

definition sys_event_queue_create :: "ppu_context \<Rightarrow> evq_table \<times> mem \<Rightarrow> u64 \<times> evq_table \<times> mem" where
  "sys_event_queue_create ctx st =
     (let (t, m) = st; id_out_addr = LV2_ARG_PTR ctx 0
      in case find_slot (\<lambda>i. \<not> evq_active (t i)) SYS_EVENT_QUEUE_MAX of
           None \<Rightarrow> (lv2_ret CELL_EAGAIN, t, m)
         | Some slot \<Rightarrow>
             (lv2_ret CELL_OK, t(slot := evq_new ctx m),
              if id_out_addr \<noteq> 0 then write_be32 m id_out_addr (of_nat (slot + 1)) else m))"

definition sys_event_queue_destroy :: "bool \<Rightarrow> ppu_context \<Rightarrow> evq_table \<Rightarrow> u64 \<times> evq_table" where
  "sys_event_queue_destroy lenient ctx t =
     (let queue_id = unat (LV2_ARG_U32 ctx 0);
          gone = (if lenient then lv2_ret CELL_OK else lv2_ret CELL_ESRCH)
      in if queue_id = 0 \<or> queue_id > SYS_EVENT_QUEUE_MAX then (gone, t)
         else if \<not> evq_active (t (queue_id - 1)) then (gone, t)
         else (lv2_ret CELL_OK, t(queue_id - 1 := (t (queue_id - 1))\<lparr>evq_active := False\<rparr>)))"

text \<open>
  A queue whose producer is gone is cancelled; its receivers are then told so instead of
  waiting. The flag is cleared when a producer is attached again.
\<close>

definition sys_event_queue_cancel_by_id :: "nat \<Rightarrow> evq_table \<Rightarrow> evq_table" where
  "sys_event_queue_cancel_by_id queue_id t =
     (if queue_id = 0 \<or> queue_id > SYS_EVENT_QUEUE_MAX then t
      else if \<not> evq_active (t (queue_id - 1)) then t
      else t(queue_id - 1 := (t (queue_id - 1))\<lparr>evq_cancelled := True\<rparr>))"

definition sys_event_queue_uncancel_by_id :: "nat \<Rightarrow> evq_table \<Rightarrow> evq_table" where
  "sys_event_queue_uncancel_by_id queue_id t =
     (if queue_id = 0 \<or> queue_id > SYS_EVENT_QUEUE_MAX then t
      else if \<not> evq_active (t (queue_id - 1)) \<or> \<not> evq_cancelled (t (queue_id - 1)) then t
      else t(queue_id - 1 := (t (queue_id - 1))\<lparr>evq_cancelled := False\<rparr>))"

section \<open>Receiving\<close>

text \<open>An event is stored in guest memory as four big-endian doublewords.\<close>

definition write_event :: "mem \<Rightarrow> u32 \<Rightarrow> sys_event_t \<Rightarrow> mem" where
  "write_event m addr evt =
     (let out = vm_to_host addr;
          m = host_store64 m out (bswap64 (ev_source evt));
          m = host_store64 m (out + 8) (bswap64 (ev_data1 evt));
          m = host_store64 m (out + 16) (bswap64 (ev_data2 evt))
      in host_store64 m (out + 24) (bswap64 (ev_data3 evt)))"

definition read_event :: "mem \<Rightarrow> u32 \<Rightarrow> sys_event_t" where
  "read_event m addr =
     (let out = vm_to_host addr
      in \<lparr>ev_source = bswap64 (host_load64 m out), ev_data1 = bswap64 (host_load64 m (out + 8)),
          ev_data2 = bswap64 (host_load64 m (out + 16)), ev_data3 = bswap64 (host_load64 m (out + 24))\<rparr>)"

text \<open>
  The locked section of a receive: wait while the queue is empty, live and not cancelled;
  afterwards the error or the event at the head.
\<close>

definition evq_receive_locked ::
  "sys_event_queue_info \<Rightarrow> (u64 + sys_event_t) blocking \<times> sys_event_queue_info" where
  "evq_receive_locked q =
     (if evq_count q = 0 \<and> evq_active q \<and> \<not> evq_cancelled q then (Blocks, q)
      else if evq_count q = 0 \<and> evq_cancelled q then (Returns (Inl (lv2_ret CELL_ECANCELED)), q)
      else if \<not> evq_active q \<or> evq_count q = 0 then (Returns (Inl (lv2_ret CELL_ESRCH)), q)
      else let (evt, q) = evq_pop q in (Returns (Inr evt), q))"

text \<open>What is left once an event has been taken: the registers r4 to r7 and the guest's buffer.\<close>

definition evq_deliver :: "ppu_context \<Rightarrow> sys_event_t \<Rightarrow> mem \<Rightarrow> ppu_context \<times> mem" where
  "evq_deliver ctx evt m =
     (let event_addr = LV2_ARG_PTR ctx 1
      in (ctx\<lparr>gpr := (gpr ctx)(4 := ev_source evt, 5 := ev_data1 evt, 6 := ev_data2 evt, 7 := ev_data3 evt)\<rparr>,
          if event_addr \<noteq> 0 then write_event m event_addr evt else m))"

definition sys_event_queue_receive ::
  "(nat \<Rightarrow> u32 \<Rightarrow> evq_table \<times> mem \<Rightarrow> bool \<times> evq_table \<times> mem) \<Rightarrow> ppu_context \<Rightarrow> evq_table \<times> mem \<Rightarrow>
     u64 blocking \<times> ppu_context \<times> evq_table \<times> mem" where
  "sys_event_queue_receive spu_dispatch ctx st =
     (let (t, m) = st; queue_id = unat (LV2_ARG_U32 ctx 0); timeout_us = LV2_ARG_U64 ctx 2
      in if queue_id = 0 \<or> queue_id > SYS_EVENT_QUEUE_MAX then (Returns (lv2_ret CELL_ESRCH), ctx, t, m)
         else if \<not> evq_active (t (queue_id - 1)) then (Returns (lv2_ret CELL_ESRCH), ctx, t, m)
         else let (t, m) = (if evq_count (t (queue_id - 1)) = 0 \<and> timeout_us = 0
                            then snd (spu_dispatch queue_id 0 (t, m)) else (t, m));
                  (r, q) = evq_receive_locked (t (queue_id - 1));
                  t = t(queue_id - 1 := q)
              in case r of
                   Blocks \<Rightarrow> (Blocks, ctx, t, m)
                 | Returns (Inl e) \<Rightarrow> (Returns e, ctx, t, m)
                 | Returns (Inr evt) \<Rightarrow>
                     let (ctx, m) = evq_deliver ctx evt m in (Returns (lv2_ret CELL_OK), ctx, t, m))"

text \<open>\<open>sys_event_queue_tryreceive\<close>: the first argument is what is left of \<open>max_count\<close>.\<close>

fun tryreceive_loop ::
  "nat \<Rightarrow> u32 \<Rightarrow> nat \<Rightarrow> sys_event_queue_info \<times> mem \<Rightarrow> nat \<times> sys_event_queue_info \<times> mem" where
  "tryreceive_loop 0 event_addr received (q, m) = (received, q, m)"
| "tryreceive_loop (Suc k) event_addr received (q, m) =
     (if evq_count q > 0
      then let (evt, q) = evq_pop q;
               m = (if event_addr \<noteq> 0 then write_event m (event_addr + of_nat (received * 32)) evt else m)
           in tryreceive_loop k event_addr (received + 1) (q, m)
      else (received, q, m))"

definition sys_event_queue_tryreceive ::
  "ppu_context \<Rightarrow> evq_table \<times> mem \<Rightarrow> u64 \<times> evq_table \<times> mem" where
  "sys_event_queue_tryreceive ctx st =
     (let (t, m) = st; queue_id = unat (LV2_ARG_U32 ctx 0); event_addr = LV2_ARG_PTR ctx 1;
          max_count = LV2_ARG_S32 ctx 2; count_addr = LV2_ARG_PTR ctx 3
      in if queue_id = 0 \<or> queue_id > SYS_EVENT_QUEUE_MAX then (lv2_ret CELL_ESRCH, t, m)
         else if \<not> evq_active (t (queue_id - 1)) then (lv2_ret CELL_ESRCH, t, m)
         else let max_count = (if max_count \<le> 0 then 1 else max_count);
                  (received, q, m) = tryreceive_loop (nat max_count) event_addr 0 (t (queue_id - 1), m)
              in (lv2_ret CELL_OK, t(queue_id - 1 := q),
                  if count_addr \<noteq> 0 then write_be32 m count_addr (of_nat received) else m))"

text \<open>
  \<open>sys_event_queue_receive_host\<close>, the receive of an SPU's host thread, sleeps at most
  once: the sections before and after the sleep.
\<close>

definition receive_host_sleeps :: "nat \<Rightarrow> sys_event_queue_info \<Rightarrow> bool \<times> sys_event_queue_info" where
  "receive_host_sleeps timeout_ms q =
     (if timeout_ms \<noteq> 0 \<and> evq_count q = 0 \<and> \<not> evq_cancelled q
      then (True, q\<lparr>evq_waiters := evq_waiters q + 1\<rparr>) else (False, q))"

definition receive_host_finish ::
  "bool \<Rightarrow> sys_event_queue_info \<Rightarrow> int \<times> sys_event_t option \<times> sys_event_queue_info" where
  "receive_host_finish slept q =
     (let q = (if slept \<and> evq_waiters q > 0 then q\<lparr>evq_waiters := evq_waiters q - 1\<rparr> else q)
      in if evq_active q \<and> evq_count q > 0
         then let (evt, q) = evq_pop q in (1, Some evt, q)
         else (if \<not> evq_active q \<or> evq_cancelled q then - 1 else 0, None, q))"

definition sys_event_queue_drain :: "ppu_context \<Rightarrow> evq_table \<Rightarrow> u64 \<times> evq_table" where
  "sys_event_queue_drain ctx t =
     (let queue_id = unat (LV2_ARG_U32 ctx 0)
      in if queue_id = 0 \<or> queue_id > SYS_EVENT_QUEUE_MAX then (lv2_ret CELL_ESRCH, t)
         else if \<not> evq_active (t (queue_id - 1)) then (lv2_ret CELL_ESRCH, t)
         else (lv2_ret CELL_OK, t(queue_id - 1 := (t (queue_id - 1))\<lparr>evq_head := 0, evq_tail := 0, evq_count := 0\<rparr>)))"

section \<open>The helpers other libraries call\<close>

definition sys_event_queue_waiters :: "nat \<Rightarrow> evq_table \<Rightarrow> int" where
  "sys_event_queue_waiters qid t =
     (if qid = 0 \<or> qid > SYS_EVENT_QUEUE_MAX then 0
      else if evq_active (t (qid - 1)) then evq_waiters (t (qid - 1)) else 0)"

definition sys_event_queue_inject ::
  "nat \<Rightarrow> u64 \<Rightarrow> u64 \<Rightarrow> u64 \<Rightarrow> u64 \<Rightarrow> evq_table \<Rightarrow> int \<times> evq_table" where
  "sys_event_queue_inject qid src d1 d2 d3 t =
     (if qid = 0 \<or> qid > SYS_EVENT_QUEUE_MAX then (- 1, t)
      else if \<not> evq_active (t (qid - 1)) then (- 1, t)
      else let (rc, q) = event_queue_push \<lparr>ev_source = src, ev_data1 = d1, ev_data2 = d2, ev_data3 = d3\<rparr> (t (qid - 1))
           in (rc, t(qid - 1 := q)))"

definition sys_event_queue_push_by_id ::
  "nat \<Rightarrow> u64 \<Rightarrow> u64 \<Rightarrow> u64 \<Rightarrow> u64 \<Rightarrow> evq_table \<Rightarrow> int \<times> evq_table" where
  "sys_event_queue_push_by_id qid src d1 d2 d3 t =
     (if qid = 0 \<or> qid > SYS_EVENT_QUEUE_MAX then (- 1, t)
      else if \<not> evq_active (t (qid - 1)) then (- 1, t)
      else let (rc, q) = event_queue_push \<lparr>ev_source = src, ev_data1 = d1, ev_data2 = d2, ev_data3 = d3\<rparr> (t (qid - 1))
           in (rc, t(qid - 1 := q)))"

definition sys_event_find_queue_by_key :: "u64 \<Rightarrow> evq_table \<Rightarrow> nat" where
  "sys_event_find_queue_by_key key t =
     (if key = 0 then 0
      else case find_slot (\<lambda>i. evq_active (t i) \<and> evq_key (t i) = key) SYS_EVENT_QUEUE_MAX of
             None \<Rightarrow> 0
           | Some i \<Rightarrow> i + 1)"

section \<open>The ring is a bounded queue\<close>

definition evq_wf :: "sys_event_queue_info \<Rightarrow> bool" where
  "evq_wf q \<longleftrightarrow> 0 < evq_capacity q \<and> evq_capacity q \<le> SYS_EVENT_QUEUE_BUF_MAX \<and>
     evq_head q < evq_capacity q \<and> evq_count q \<le> evq_capacity q \<and>
     evq_tail q = (evq_head q + evq_count q) mod evq_capacity q"

definition q_events :: "sys_event_queue_info \<Rightarrow> sys_event_t list" where
  "q_events q = ring_items (evq_buffer q) (evq_head q) (evq_count q) (evq_capacity q)"

lemma length_q_events [simp]: "length (q_events q) = evq_count q"
  by (simp add: q_events_def)

lemma q_events_Nil [simp]: "q_events q = [] \<longleftrightarrow> evq_count q = 0"
  by (metis length_0_conv length_q_events)

lemma evq_push_full: "evq_active q \<Longrightarrow> evq_capacity q \<le> evq_count q \<Longrightarrow> event_queue_push e q = (- 1, q)"
  by (simp add: event_queue_push_def)

lemma evq_push_ok:
  assumes "evq_wf q" "evq_active q" "evq_count q < evq_capacity q"
  shows "fst (event_queue_push e q) = 0" and "q_events (snd (event_queue_push e q)) = q_events q @ [e]"
    and "evq_wf (snd (event_queue_push e q))" and "evq_active (snd (event_queue_push e q))"
  using assms ring_push [of "evq_count q" "evq_capacity q" "evq_buffer q" "evq_head q" e]
  by (auto simp: event_queue_push_def evq_wf_def q_events_def mod_simps)

lemma evq_pop_events:
  assumes "evq_wf q" "0 < evq_count q"
  shows "q_events q = fst (evq_pop q) # q_events (snd (evq_pop q))" and "evq_wf (snd (evq_pop q))"
proof -
  show "q_events q = fst (evq_pop q) # q_events (snd (evq_pop q))"
    using assms ring_pop [of "evq_count q" "evq_buffer q" "evq_head q" "evq_capacity q"]
    by (simp add: q_events_def evq_pop_def evq_wf_def)
  have "((evq_head q + 1) mod evq_capacity q + (evq_count q - 1)) mod evq_capacity q
      = (evq_head q + evq_count q) mod evq_capacity q"
    by (simp only: mod_add_left_eq) (use assms in simp)
  then show "evq_wf (snd (evq_pop q))" using assms by (auto simp: evq_pop_def evq_wf_def)
qed

lemma event_push_wf:
  "evq_wf q \<Longrightarrow> evq_wf (snd (event_queue_push e q))"
  using evq_push_ok(3) [of q e] by (cases "evq_active q \<and> evq_count q < evq_capacity q") (auto simp: event_queue_push_def)

lemma event_push_frame [simp]:
  "evq_capacity (snd (event_queue_push e q)) = evq_capacity q" "evq_active (snd (event_queue_push e q)) = evq_active q"
  by (simp_all add: event_queue_push_def)

lemma evq_pop_frame [simp]:
  "evq_capacity (snd (evq_pop q)) = evq_capacity q" "evq_active (snd (evq_pop q)) = evq_active q"
  by (simp_all add: evq_pop_def)

text \<open>The queue as its clients use it: a push that succeeds, a receive that delivers.\<close>

definition evq_put :: "sys_event_t \<Rightarrow> sys_event_queue_info \<Rightarrow> bool \<times> sys_event_queue_info" where
  "evq_put e q = (fst (event_queue_push e q) = 0, snd (event_queue_push e q))"

definition evq_get :: "sys_event_queue_info \<Rightarrow> sys_event_t option \<times> sys_event_queue_info" where
  "evq_get q = (case evq_receive_locked q of
                  (Returns (Inr e), q') \<Rightarrow> (Some e, q')
                | (_, q') \<Rightarrow> (None, q'))"

lemma evq_get_pop: "evq_active q \<Longrightarrow> 0 < evq_count q \<Longrightarrow> evq_get q = (Some (fst (evq_pop q)), snd (evq_pop q))"
  by (simp add: evq_get_def evq_receive_locked_def case_prod_beta)

lemma evq_get_none: "evq_count q = 0 \<Longrightarrow> evq_get q = (None, q)"
  by (simp add: evq_get_def evq_receive_locked_def)

interpretation event_fifo: bounded_fifo "\<lambda>q. evq_wf q \<and> evq_active q" evq_capacity q_events evq_put evq_get
proof (unfold_locales, goal_cases)
  case (1 q x)
  then show ?case using event_push_wf [of q x] by (simp add: evq_put_def)
next
  case (2 q)
  then show ?case
    using evq_pop_events(2) [of q] by (cases "evq_count q = 0") (simp_all add: evq_get_none evq_get_pop)
next
  case (4 q x)
  then show ?case using evq_push_ok(1,2) [of q x] by (simp add: evq_put_def)
next
  case (6 q x xs)
  then have "0 < evq_count q" using length_q_events [of q] by (cases "evq_count q") auto
  with 6 show ?case using evq_pop_events(1) [of q] evq_get_pop [of q] by simp
qed (auto simp: evq_wf_def evq_put_def evq_push_full evq_get_none)

text \<open>Receiving as often as there are events delivers one each time.\<close>

lemma evq_drain_run:
  "evq_wf q \<Longrightarrow> evq_active q \<Longrightarrow> k \<le> length (q_events q) \<Longrightarrow>
   event_fifo.run (replicate k None) q = (acc, del, q') \<Longrightarrow> acc = [] \<and> length del = k"
proof (induction k arbitrary: q acc del q')
  case (Suc k)
  then have pos: "0 < evq_count q" by simp
  obtain e q1 where p: "evq_pop q = (e, q1)" by fastforce
  obtain acc1 del1 q2 where r: "event_fifo.run (replicate k None) q1 = (acc1, del1, q2)" by (metis prod_cases3)
  have "evq_wf q1" "evq_active q1" "k \<le> length (q_events q1)"
    using evq_pop_events [OF Suc.prems(1) pos] evq_pop_frame(2) [of q] Suc.prems(2,3) p by simp_all
  from Suc.IH [OF this r] show ?case
    using Suc.prems(4) r p evq_get_pop [OF Suc.prems(2) pos] by auto
qed simp

section \<open>Every operation keeps the rings coherent\<close>

definition evq_table_wf :: "evq_table \<Rightarrow> bool" where
  "evq_table_wf t \<longleftrightarrow> (\<forall>i. evq_active (t i) \<longrightarrow> evq_wf (t i))"

lemma evq_table_upd: "evq_table_wf t \<Longrightarrow> (evq_active q \<Longrightarrow> evq_wf q) \<Longrightarrow> evq_table_wf (t(i := q))"
  by (simp add: evq_table_wf_def)

lemma evq_table_at: "evq_table_wf t \<Longrightarrow> evq_active (t i) \<Longrightarrow> evq_wf (t i)"
  by (simp add: evq_table_wf_def)

lemma q_open_wf: "evq_wf (q_open key (clamp_queue_size sz))"
  by (auto simp: evq_wf_def q_open_def clamp_queue_size_def SYS_EVENT_QUEUE_BUF_MAX_def evq_zero_def)

lemma evq_wf_frame [simp]:
  "evq_wf (q\<lparr>evq_active := b\<rparr>) = evq_wf q" "evq_wf (q\<lparr>evq_cancelled := b\<rparr>) = evq_wf q"
  "evq_wf (q\<lparr>evq_waiters := w\<rparr>) = evq_wf q" "evq_wf (q\<lparr>evq_protocol := p\<rparr>) = evq_wf q"
  "evq_wf (q\<lparr>evq_type := ty\<rparr>) = evq_wf q" "evq_wf (q\<lparr>evq_name := n\<rparr>) = evq_wf q"
  by (simp_all add: evq_wf_def)

lemma evq_new_wf: "evq_wf (evq_new ctx m)" "evq_active (evq_new ctx m)"
  by (simp_all add: evq_new_def q_go_live_def q_open_wf Let_def)

lemma evq_receive_wf:
  assumes "evq_wf q"
  shows "evq_wf (snd (evq_receive_locked q))"
  using assms evq_pop_events(2) [OF assms]
  by (auto simp: evq_receive_locked_def case_prod_beta)

text \<open>A batch receive: how many events it takes, which, and where they end up in guest memory.\<close>

lemma read_write_event [simp]: "read_event (write_event m a e) a = e"
  by (simp add: read_event_def write_event_def Let_def host_load_store64 host_load64_other bswap64_bswap64)

lemma write_event_frame: "b < unat a \<or> unat a + 32 \<le> b \<Longrightarrow> write_event m a e b = m b"
  by (auto simp: write_event_def Let_def vm_to_host_def host_store64_frame)

lemma read_event_cong:
  assumes "\<And>b. unat a \<le> b \<Longrightarrow> b < unat a + 32 \<Longrightarrow> m' b = m b"
  shows "read_event m' a = read_event m a"
  using assms by (simp add: read_event_def Let_def vm_to_host_def host_load64_cong [of _ m' m])

lemma unat_event_slot:
  assumes "unat (a :: u32) + (r + 1) * 32 \<le> 4294967296"
  shows "unat (a + of_nat (r * 32)) = unat a + r * 32"
proof -
  have "unat (of_nat (r * 32) :: u32) = r * 32"
    using assms by (subst unat_of_nat) (simp add: take_bit_nat_eq_self)
  then show ?thesis using assms by (subst unat_add_lem [THEN iffD1]) simp_all
qed

lemma tryreceive_loop_count:
  assumes "evq_wf q"
  shows "fst (tryreceive_loop k a r (q, m)) = r + min k (evq_count q) \<and>
         q_events (fst (snd (tryreceive_loop k a r (q, m)))) = drop (min k (evq_count q)) (q_events q) \<and>
         evq_wf (fst (snd (tryreceive_loop k a r (q, m)))) \<and>
         evq_active (fst (snd (tryreceive_loop k a r (q, m)))) = evq_active q"
  using assms
proof (induction k a r "(q, m)" arbitrary: q m rule: tryreceive_loop.induct)
  case (2 k a r q m)
  show ?case
  proof (cases "0 < evq_count q")
    case True
    obtain e q1 where p: "evq_pop q = (e, q1)" by fastforce
    then have "q_events q = e # q_events q1" "evq_wf q1" "evq_active q1 = evq_active q"
      using evq_pop_events [OF 2(2) True] evq_pop_frame(2) [of q] by simp_all
    moreover from this have "evq_count q = Suc (evq_count q1)" using length_q_events by (metis length_Cons)
    ultimately show ?thesis using 2(1) [OF True p [symmetric] refl refl] p by (simp add: Let_def)
  qed (use 2(2) in simp)
qed simp

lemma tryreceive_loop_frame:
  assumes "evq_wf q" "unat a + (r + min k (evq_count q)) * 32 \<le> 4294967296" "b < unat a + r * 32"
  shows "snd (snd (tryreceive_loop k a r (q, m))) b = m b"
  using assms
proof (induction k a r "(q, m)" arbitrary: q m rule: tryreceive_loop.induct)
  case (2 k a r q m)
  show ?case
  proof (cases "0 < evq_count q")
    case True
    obtain e q1 where p: "evq_pop q = (e, q1)" by fastforce
    have q1: "evq_wf q1" "evq_count q = Suc (evq_count q1)"
      using evq_pop_events(2) [OF 2(2) True] p True by (auto simp: evq_pop_def)
    have "unat (a + of_nat (r * 32)) = unat a + r * 32"
      using 2(3) True by (intro unat_event_slot) (auto simp: q1)
    then have "write_event m (a + of_nat (r * 32)) e b = m b"
      using 2(4) by (intro write_event_frame) simp
    then show ?thesis
      using 2(1) [OF True p [symmetric] refl refl q1(1)] 2(3,4) p True q1(2) by (simp add: Let_def)
  qed simp
qed simp

lemma tryreceive_loop_memory:
  assumes "evq_wf q" "a \<noteq> 0" "unat a + (r + min k (evq_count q)) * 32 \<le> 4294967296" "j < min k (evq_count q)"
  shows "read_event (snd (snd (tryreceive_loop k a r (q, m)))) (a + of_nat ((r + j) * 32)) = q_events q ! j"
  using assms
proof (induction k a r "(q, m)" arbitrary: q m j rule: tryreceive_loop.induct)
  case (2 k a r q m)
  then have True: "0 < evq_count q" by simp
  obtain e q1 where p: "evq_pop q = (e, q1)" by fastforce
  have q1: "evq_wf q1" "q_events q = e # q_events q1" "evq_count q = Suc (evq_count q1)"
    using evq_pop_events [OF 2(2) True] p True by (auto simp: evq_pop_def)
  let ?m = "write_event m (a + of_nat (r * 32)) e"
  have step: "tryreceive_loop (Suc k) a r (q, m) = tryreceive_loop k a (r + 1) (q1, ?m)"
    using True p 2(3) by (simp add: Let_def)
  show ?case
  proof (cases j)
    case 0
    have s: "unat (a + of_nat (r * 32)) = unat a + r * 32"
      using 2(4) True by (intro unat_event_slot) (auto simp: q1)
    have "read_event (snd (snd (tryreceive_loop k a (r + 1) (q1, ?m)))) (a + of_nat (r * 32)) =
          read_event ?m (a + of_nat (r * 32))"
      using 2(4) s q1 by (intro read_event_cong tryreceive_loop_frame) auto
    then show ?thesis using 0 q1(2) step by simp
  next
    case (Suc i)
    have "read_event (snd (snd (tryreceive_loop k a (r + 1) (q1, ?m)))) (a + of_nat ((r + 1 + i) * 32)) = q_events q1 ! i"
      using 2(1) [OF True p [symmetric] refl _ q1(1) 2(3)] 2(3-5) q1(3) Suc by simp
    then show ?thesis using Suc q1(2) step by (simp add: algebra_simps)
  qed
qed simp

lemma evq_receive_call_wf:
  assumes "evq_table_wf t" and "\<And>n w. evq_table_wf (fst (snd (spu n w (t, m))))"
  shows "evq_table_wf (fst (snd (snd (sys_event_queue_receive spu ctx (t, m)))))"
proof -
  let ?i = "unat (LV2_ARG_U32 ctx 0) - 1"
  obtain t1 m1 where t1: "(if evq_count (t ?i) = 0 \<and> LV2_ARG_U64 ctx 2 = 0
      then snd (spu (unat (LV2_ARG_U32 ctx 0)) 0 (t, m)) else (t, m)) = (t1, m1)" by fastforce
  then have wf: "evq_table_wf t1" using assms by (metis fst_conv)
  obtain r q where q: "evq_receive_locked (t1 ?i) = (r, q)" by fastforce
  have "evq_active q \<Longrightarrow> evq_wf q"
    using q wf evq_receive_wf [of "t1 ?i"] by (auto simp: evq_table_wf_def evq_receive_locked_def evq_pop_def Let_def split: if_splits)
  then have "evq_table_wf (t1(?i := q))" using wf by (rule evq_table_upd [rotated])
  then show ?thesis
    using assms(1) t1 q
    by (cases r) (auto simp: sys_event_queue_receive_def Let_def case_prod_beta split: sum.splits)
qed

lemma receive_host_wf: "evq_wf q \<Longrightarrow> evq_wf (snd (snd (receive_host_finish s q)))"
  using evq_pop_events(2) [of "if s \<and> evq_waiters q > 0 then q\<lparr>evq_waiters := evq_waiters q - 1\<rparr> else q"]
  by (auto simp: receive_host_finish_def Let_def case_prod_beta)

section \<open>Properties\<close>

text \<open>
  C6. An event queue is first in, first out: over any run of pushes and receives on a live
  queue, the events received followed by those still queued are the events that were queued
  at the start followed by the accepted ones, in order; none is lost, duplicated or
  reordered, and the queue never holds more than its capacity.
\<close>

theorem event_queue_fifo:
  assumes "evq_wf q" and "evq_active q" and "event_fifo.run ops q = (accepted, received, q')"
  shows "q_events q @ accepted = received @ q_events q' \<and> length (q_events q') \<le> evq_capacity q \<and>
         evq_wf q' \<and> evq_active q'"
  using event_fifo.run_fifo [OF _ assms(3)] assms(1,2) by blast

definition event_ex :: "u64 \<Rightarrow> sys_event_t" where
  "event_ex d = event_zero\<lparr>ev_data1 := d\<rparr>"

theorem event_queue_fifo_witness:
  "(let q = q_go_live (q_open 7 2);
        (accepted, received, q') = event_fifo.run [Some (event_ex 1), Some (event_ex 2), Some (event_ex 3), None] q
    in accepted = [event_ex 1, event_ex 2] \<and> received = [event_ex 1] \<and> accepted = received @ q_events q')"
proof -
  let ?q = "q_go_live (q_open 7 2)"
  have q: "evq_wf ?q" "evq_active ?q" "q_events ?q = []"
    using q_open_wf [of 7 2] by (simp_all add: q_go_live_def clamp_queue_size_def SYS_EVENT_QUEUE_BUF_MAX_def)
       (simp add: q_open_def evq_zero_def)
  let ?ops = "[Some (event_ex 1), Some (event_ex 2), Some (event_ex 3), None]"
  obtain acc del q' where r: "event_fifo.run ?ops ?q = (acc, del, q')" by (metis prod_cases3)
  have "acc = [event_ex 1, event_ex 2]" "del = [event_ex 1]"
    using r by (auto simp: evq_put_def evq_get_def event_queue_push_def evq_receive_locked_def evq_pop_def
        q_go_live_def q_open_def evq_zero_def)
  then show ?thesis using event_queue_fifo [OF q(1,2) r] q(3) r by simp
qed

text \<open>
  Every operation on event queues keeps the ring of each live queue coherent: head and
  tail inside the buffer, the count between 0 and a capacity of at most 127, and the tail
  where the head and the count put it.
\<close>

theorem event_queues_stay_coherent:
  assumes "evq_table_wf t" and "\<And>n w. evq_table_wf (fst (snd (spu n w (t, m))))"
  shows "evq_table_wf (fst (snd (sys_event_queue_create ctx (t, m)))) \<and>
         evq_table_wf (snd (sys_event_queue_create_direct key sz t)) \<and>
         evq_table_wf (snd (sys_event_queue_destroy lenient ctx t)) \<and>
         evq_table_wf (fst (snd (snd (sys_event_queue_receive spu ctx (t, m))))) \<and>
         evq_table_wf (fst (snd (sys_event_queue_tryreceive ctx (t, m)))) \<and>
         evq_table_wf (snd (sys_event_queue_drain ctx t)) \<and>
         evq_table_wf (sys_event_queue_cancel_by_id h t) \<and> evq_table_wf (sys_event_queue_uncancel_by_id h t) \<and>
         evq_table_wf (snd (sys_event_queue_push_by_id h src d1 d2 d3 t)) \<and>
         evq_table_wf (snd (sys_event_queue_inject h src d1 d2 d3 t))"
proof (intro conjI)
  show "evq_table_wf (fst (snd (sys_event_queue_create ctx (t, m))))"
    using assms(1) by (auto simp: sys_event_queue_create_def evq_new_wf Let_def split: option.splits intro: evq_table_upd)
  show "evq_table_wf (snd (sys_event_queue_create_direct key sz t))"
    using assms(1) by (auto simp: sys_event_queue_create_direct_def q_go_live_def q_open_wf
        split: option.splits intro: evq_table_upd)
  show "evq_table_wf (snd (sys_event_queue_destroy lenient ctx t))"
    using assms(1) by (auto simp: sys_event_queue_destroy_def Let_def intro: evq_table_upd)
  show "evq_table_wf (fst (snd (snd (sys_event_queue_receive spu ctx (t, m)))))"
    using assms by (rule evq_receive_call_wf)
  show "evq_table_wf (fst (snd (sys_event_queue_tryreceive ctx (t, m))))"
    using assms(1) tryreceive_loop_count [OF evq_table_at [OF assms(1)]] evq_pop_events(2) [OF evq_table_at [OF assms(1)]]
    by (auto simp: sys_event_queue_tryreceive_def Let_def case_prod_beta intro!: evq_table_upd)
  show "evq_table_wf (snd (sys_event_queue_drain ctx t))"
    using assms(1) evq_table_at [OF assms(1)]
    by (auto simp: sys_event_queue_drain_def Let_def evq_wf_def intro!: evq_table_upd)
  show "evq_table_wf (sys_event_queue_cancel_by_id h t)" "evq_table_wf (sys_event_queue_uncancel_by_id h t)"
    using assms(1) evq_table_at [OF assms(1)]
    by (auto simp: sys_event_queue_cancel_by_id_def sys_event_queue_uncancel_by_id_def intro!: evq_table_upd)
  show "evq_table_wf (snd (sys_event_queue_push_by_id h src d1 d2 d3 t))"
    "evq_table_wf (snd (sys_event_queue_inject h src d1 d2 d3 t))"
    using assms(1) event_push_wf evq_table_at [OF assms(1)]
    by (auto simp: sys_event_queue_push_by_id_def sys_event_queue_inject_def case_prod_beta Let_def intro!: evq_table_upd)
qed

lemma evq_init_wf: "evq_table_wf evq_init_table"
  by (simp add: evq_table_wf_def evq_init_table_def evq_zero_def)

theorem event_queues_stay_coherent_witness:
  "evq_table_wf (snd (sys_event_queue_create_direct 5 16 evq_init_table))"
  using event_queues_stay_coherent [OF evq_init_wf, of "\<lambda>_ _ s. (False, s)" "\<lambda>_. 0"] evq_init_wf by simp

text \<open>
  C31. \<open>sys_event_queue_tryreceive\<close> takes the smaller of \<open>max_count\<close> (at least 1) and the
  number of queued events, oldest first: the guest finds their number at \<open>count_addr\<close> and
  the events, in order, 32 bytes apart from \<open>event_addr\<close>, and the rest stay queued.
\<close>

theorem tryreceive_delivers:
  assumes "evq_table_wf t" and "0 < unat (LV2_ARG_U32 ctx 0)" and "unat (LV2_ARG_U32 ctx 0) \<le> SYS_EVENT_QUEUE_MAX"
    and "evq_active (t (unat (LV2_ARG_U32 ctx 0) - 1))"
    and "n = min (nat (max 1 (LV2_ARG_S32 ctx 2))) (evq_count (t (unat (LV2_ARG_U32 ctx 0) - 1)))"
    and "LV2_ARG_PTR ctx 1 \<noteq> 0" and "unat (LV2_ARG_PTR ctx 1) + n * 32 \<le> unat (LV2_ARG_PTR ctx 3)"
    and "sys_event_queue_tryreceive ctx (t, m) = (r, t', m')"
  shows "r = lv2_ret CELL_OK \<and> unat (read_be32 m' (LV2_ARG_PTR ctx 3)) = n \<and>
         q_events (t' (unat (LV2_ARG_U32 ctx 0) - 1)) = drop n (q_events (t (unat (LV2_ARG_U32 ctx 0) - 1))) \<and>
         (j < n \<longrightarrow> read_event m' (LV2_ARG_PTR ctx 1 + of_nat (j * 32)) = q_events (t (unat (LV2_ARG_U32 ctx 0) - 1)) ! j)"
proof -
  obtain i where i: "unat (LV2_ARG_U32 ctx 0) - 1 = i" by simp
  let ?q = "t i" and ?a = "LV2_ARG_PTR ctx 1" and ?c = "LV2_ARG_PTR ctx 3"
  obtain k where k: "nat (if LV2_ARG_S32 ctx 2 \<le> 0 then 1 else LV2_ARG_S32 ctx 2) = k" "n = min k (evq_count ?q)"
    using assms(5) i by (auto simp: max_def)
  obtain n1 q1 m1 where l: "tryreceive_loop k ?a 0 (?q, m) = (n1, q1, m1)" by (metis prod_cases3)
  have wf: "evq_wf ?q" using evq_table_at [OF assms(1)] assms(4) i by blast
  have n: "n1 = n" "q_events q1 = drop n (q_events ?q)"
    using tryreceive_loop_count [OF wf, of k ?a 0 m] l k(2) by simp_all
  have c0: "?c \<noteq> 0" using assms(6,7) by (auto simp: unat_eq_0)
  have eq: "r = lv2_ret CELL_OK" "t' = t(i := q1)" "m' = write_be32 m1 ?c (of_nat n)"
    using assms(2-4,8) i k(1) l n(1) c0 by (auto simp: sys_event_queue_tryreceive_def Let_def)
  have small: "n < 4294967296" using assms(7) u32_bound [of ?c] by linarith
  have "read_event m1 (?a + of_nat ((0 + j) * 32)) = q_events ?q ! j" if "j < n"
    using tryreceive_loop_memory [OF wf assms(6), of 0 k j m] l k(2) that assms(7) u32_bound [of ?c] by simp
  moreover have "read_event m' (?a + of_nat (j * 32)) = read_event m1 (?a + of_nat (j * 32))" if "j < n"
  proof (rule read_event_cong)
    from that have jn: "j * 32 + 32 \<le> n * 32" by simp
    fix b assume "unat (?a + of_nat (j * 32)) \<le> b" "b < unat (?a + of_nat (j * 32)) + 32"
    moreover have "unat (?a + of_nat (j * 32)) = unat ?a + j * 32"
      using jn assms(7) u32_bound [of ?c] by (intro unat_event_slot) simp
    ultimately show "m' b = m1 b" unfolding eq(3) using jn assms(7) by (intro write_be32_frame) linarith
  qed
  ultimately show ?thesis
    using n(2) eq small unfolding i by (auto simp: unat_of_nat take_bit_nat_eq_self)
qed

definition evq_ex :: evq_table where
  "evq_ex = evq_init_table(0 := snd (event_queue_push (event_ex 9) (q_go_live (q_open 7 4))))"

lemma evq_ex_wf: "evq_table_wf evq_ex"
proof -
  have "evq_wf (q_go_live (q_open 7 (clamp_queue_size 4)))" using q_open_wf by (simp add: q_go_live_def)
  then show ?thesis
    unfolding evq_ex_def by (intro evq_table_upd [OF evq_init_wf] event_push_wf)
      (simp add: clamp_queue_size_def SYS_EVENT_QUEUE_BUF_MAX_def)
qed

lemma evq_ex_events: "evq_active (evq_ex 0)" "evq_count (evq_ex 0) = 1" "q_events (evq_ex 0) = [event_ex 9]"
  by (simp_all add: evq_ex_def event_queue_push_def q_go_live_def q_open_def evq_zero_def q_events_def ring_items_def)

theorem tryreceive_delivers_witness:
  "\<exists>t m. sys_event_queue_tryreceive (call_ctx 1 [1, 0x1000, 4, 0x2000]) (evq_ex, \<lambda>_. 0) = (lv2_ret CELL_OK, t, m) \<and>
     unat (read_be32 m 0x2000) = 1 \<and> read_event m 0x1000 = event_ex 9 \<and> q_events (t 0) = []"
proof -
  let ?ctx = "call_ctx 1 [1, 0x1000, 4, 0x2000]"
  obtain r t m where x: "sys_event_queue_tryreceive ?ctx (evq_ex, \<lambda>_. 0) = (r, t, m)" by (metis prod_cases3)
  have n: "1 = min (nat (max 1 (LV2_ARG_S32 ?ctx 2))) (evq_count (evq_ex (unat (LV2_ARG_U32 ?ctx 0) - 1)))"
    by (simp add: evq_ex_events)
  show ?thesis
    using tryreceive_delivers [OF evq_ex_wf _ _ _ n _ _ x, of 0] x
    by (simp add: SYS_EVENT_QUEUE_MAX_def evq_ex_events)
qed

text \<open>
  C38. Cancelling a queue releases its receivers: after \<open>sys_event_queue_cancel_by_id\<close> a
  receive on that queue never blocks; it still delivers the events that are queued, and
  answers ECANCELED once there are none; attaching a producer again restores the waiting.
\<close>

theorem cancelled_queue_never_blocks:
  assumes "0 < h" and "h \<le> SYS_EVENT_QUEUE_MAX" and "evq_active (t (h - 1))"
  shows "(evq_count (t (h - 1)) = 0 \<longrightarrow>
           fst (evq_receive_locked (sys_event_queue_cancel_by_id h t (h - 1))) = Returns (Inl (lv2_ret CELL_ECANCELED)) \<and>
           fst (evq_receive_locked (sys_event_queue_uncancel_by_id h (sys_event_queue_cancel_by_id h t) (h - 1))) = Blocks) \<and>
         (evq_wf (t (h - 1)) \<and> 0 < evq_count (t (h - 1)) \<longrightarrow>
           fst (evq_receive_locked (sys_event_queue_cancel_by_id h t (h - 1))) = Returns (Inr (hd (q_events (t (h - 1))))))"
proof -
  have "hd (q_events q) = evq_buffer q (evq_head q)" if "evq_wf q" "0 < evq_count q" for q
    using evq_pop_events(1) [OF that] by (simp add: evq_pop_def)
  then show ?thesis
    using assms by (auto simp: sys_event_queue_cancel_by_id_def sys_event_queue_uncancel_by_id_def
        evq_receive_locked_def evq_pop_def)
qed

theorem cancelled_queue_never_blocks_witness:
  "fst (evq_receive_locked (sys_event_queue_cancel_by_id 1 evq_ex 0)) = Returns (Inr (event_ex 9))"
  using cancelled_queue_never_blocks [of 1 evq_ex] evq_table_at [OF evq_ex_wf, of 0]
  by (simp add: SYS_EVENT_QUEUE_MAX_def evq_ex_events)

end
