(* ===== verification/EventPort.thy ===== *)
theory EventPort
  imports EventQueue
begin

text \<open>
  Event ports (runtime/syscalls/sys_event.c, second part): 256 ports, each connected to at
  most one event queue, and the send that puts an event into the connected queue.

  \<open>lenient\<close> is the setting YDKJ_EVT_LENIENT and \<open>no_portroute\<close> the setting
  YDKJ_NO_PORTROUTE of the environment. The call into the SPU scheduler, which may run an
  SPU job on the event instead of queueing it, is an argument of \<open>sys_event_port_send\<close>.
\<close>

section \<open>Data\<close>

record sys_event_port_info =
  prt_active :: bool
  prt_type :: int
  prt_name :: u64
  prt_connected_queue :: int

type_synonym prt_table = "nat \<Rightarrow> sys_event_port_info"

definition SYS_EVENT_PORT_MAX :: nat where
  "SYS_EVENT_PORT_MAX = 256"

definition prt_zero :: sys_event_port_info where
  "prt_zero = \<lparr>prt_active = False, prt_type = 0, prt_name = 0, prt_connected_queue = 0\<rparr>"

text \<open>Queues, ports, guest memory, and the event staged for an SPU (g_spu_pending_evt).\<close>

record evt_state =
  es_queues :: evq_table
  es_ports :: prt_table
  es_mem :: mem
  es_pending :: "u32 \<times> u32 \<times> u32"
  es_pending_valid :: bool

section \<open>System calls\<close>

definition sys_event_port_create :: "ppu_context \<Rightarrow> evt_state \<Rightarrow> u64 \<times> evt_state" where
  "sys_event_port_create ctx s =
     (let id_out_addr = LV2_ARG_PTR ctx 0
      in case find_slot (\<lambda>i. \<not> prt_active (es_ports s i)) SYS_EVENT_PORT_MAX of
           None \<Rightarrow> (lv2_ret CELL_EAGAIN, s)
         | Some slot \<Rightarrow>
             let p = prt_zero\<lparr>prt_active := True, prt_type := LV2_ARG_S32 ctx 1,
                              prt_name := LV2_ARG_U64 ctx 2, prt_connected_queue := 0\<rparr>
             in (lv2_ret CELL_OK,
                 s\<lparr>es_ports := (es_ports s)(slot := p),
                   es_mem := (if id_out_addr \<noteq> 0 then write_be32 (es_mem s) id_out_addr (of_nat (slot + 1))
                              else es_mem s)\<rparr>))"

definition sys_event_port_destroy :: "bool \<Rightarrow> ppu_context \<Rightarrow> evt_state \<Rightarrow> u64 \<times> evt_state" where
  "sys_event_port_destroy lenient ctx s =
     (let port_id = unat (LV2_ARG_U32 ctx 0);
          gone = (if lenient then lv2_ret CELL_OK else lv2_ret CELL_ESRCH)
      in if port_id = 0 \<or> port_id > SYS_EVENT_PORT_MAX then (gone, s)
         else if \<not> prt_active (es_ports s (port_id - 1)) then (gone, s)
         else (lv2_ret CELL_OK, s\<lparr>es_ports := (es_ports s)(port_id - 1 := (es_ports s (port_id - 1))\<lparr>prt_active := False\<rparr>)\<rparr>))"

definition sys_event_port_connect_local :: "ppu_context \<Rightarrow> evt_state \<Rightarrow> u64 \<times> evt_state" where
  "sys_event_port_connect_local ctx s =
     (let port_id = unat (LV2_ARG_U32 ctx 0); queue_id = unat (LV2_ARG_U32 ctx 1)
      in if port_id = 0 \<or> port_id > SYS_EVENT_PORT_MAX then (lv2_ret CELL_ESRCH, s)
         else if queue_id = 0 \<or> queue_id > SYS_EVENT_QUEUE_MAX then (lv2_ret CELL_ESRCH, s)
         else let p = es_ports s (port_id - 1)
              in if \<not> prt_active p then (lv2_ret CELL_ESRCH, s)
                 else if \<not> evq_active (es_queues s (queue_id - 1)) then (lv2_ret CELL_ESRCH, s)
                 else if prt_connected_queue p \<noteq> 0 then (lv2_ret CELL_EISCONN, s)
                 else (lv2_ret CELL_OK,
                       s\<lparr>es_ports := (es_ports s)(port_id - 1 := p\<lparr>prt_connected_queue := int queue_id\<rparr>)\<rparr>))"

definition sys_event_port_disconnect :: "bool \<Rightarrow> ppu_context \<Rightarrow> evt_state \<Rightarrow> u64 \<times> evt_state" where
  "sys_event_port_disconnect lenient ctx s =
     (let port_id = unat (LV2_ARG_U32 ctx 0)
      in if port_id = 0 \<or> port_id > SYS_EVENT_PORT_MAX
         then (if lenient then lv2_ret CELL_OK else lv2_ret CELL_ESRCH, s)
         else let p = es_ports s (port_id - 1)
              in if \<not> prt_active p then (if lenient then lv2_ret CELL_OK else lv2_ret CELL_ESRCH, s)
                 else if prt_connected_queue p = 0
                 then (if lenient then lv2_ret CELL_OK else lv2_ret CELL_ENOTCONN, s)
                 else (lv2_ret CELL_OK, s\<lparr>es_ports := (es_ports s)(port_id - 1 := p\<lparr>prt_connected_queue := 0\<rparr>)\<rparr>))"

text \<open>A send on a dead port whose id names a live queue goes to that queue.\<close>

definition port_route :: "nat \<Rightarrow> ppu_context \<Rightarrow> evt_state \<Rightarrow> u64 \<times> evt_state" where
  "port_route port_id ctx s =
     (let evt = \<lparr>ev_source = 0, ev_data1 = LV2_ARG_U64 ctx 1, ev_data2 = LV2_ARG_U64 ctx 2, ev_data3 = LV2_ARG_U64 ctx 3\<rparr>;
          (rc, q) = event_queue_push evt (es_queues s (port_id - 1))
      in (if rc < 0 then lv2_ret CELL_EBUSY else lv2_ret CELL_OK,
          s\<lparr>es_queues := (es_queues s)(port_id - 1 := q)\<rparr>))"

text \<open>A send through a live port: the SPU scheduler gets the event first, then the queue.\<close>

definition port_send_connected ::
  "(nat \<Rightarrow> u32 \<Rightarrow> evt_state \<Rightarrow> bool \<times> evt_state) \<Rightarrow> sys_event_port_info \<Rightarrow> ppu_context \<Rightarrow> evt_state \<Rightarrow> u64 \<times> evt_state" where
  "port_send_connected spu_dispatch p ctx s =
     (let d1 = LV2_ARG_U64 ctx 1; d2 = LV2_ARG_U64 ctx 2; d3 = LV2_ARG_U64 ctx 3; qidx = prt_connected_queue p
      in if qidx \<le> 0 \<or> qidx > int SYS_EVENT_QUEUE_MAX then (lv2_ret CELL_ESRCH, s)
         else let qi = nat qidx - 1
              in if \<not> evq_active (es_queues s qi) then (lv2_ret CELL_ESRCH, s)
                 else let evt = \<lparr>ev_source = prt_name p, ev_data1 = d1, ev_data2 = d2, ev_data3 = d3\<rparr>;
                          s = s\<lparr>es_pending := (ucast d1, ucast d2, ucast d3), es_pending_valid := True\<rparr>;
                          (taken, s) = spu_dispatch (nat qidx + 1) (ucast d2) s
                      in if taken then (lv2_ret CELL_OK, s)
                         else let s = s\<lparr>es_pending_valid := False\<rparr>;
                                  (rc, q) = event_queue_push evt (es_queues s qi);
                                  s = s\<lparr>es_queues := (es_queues s)(qi := q)\<rparr>
                              in if rc < 0 then (lv2_ret CELL_EBUSY, s) else (lv2_ret CELL_OK, s))"

definition sys_event_port_send ::
  "bool \<Rightarrow> (nat \<Rightarrow> u32 \<Rightarrow> evt_state \<Rightarrow> bool \<times> evt_state) \<Rightarrow> ppu_context \<Rightarrow> evt_state \<Rightarrow> u64 \<times> evt_state" where
  "sys_event_port_send no_portroute spu_dispatch ctx s =
     (let port_id = unat (LV2_ARG_U32 ctx 0)
      in if port_id = 0 \<or> port_id > SYS_EVENT_PORT_MAX then (lv2_ret CELL_ESRCH, s)
         else let p = es_ports s (port_id - 1)
              in if \<not> prt_active p
                 then if port_id \<le> SYS_EVENT_QUEUE_MAX \<and> evq_active (es_queues s (port_id - 1)) \<and> \<not> no_portroute
                      then port_route port_id ctx s else (lv2_ret CELL_ESRCH, s)
                 else if prt_connected_queue p = 0 then (lv2_ret CELL_ENOTCONN, s)
                 else port_send_connected spu_dispatch p ctx s)"

section \<open>Connections\<close>

text \<open>A port is unconnected or names a queue of the table.\<close>

definition prt_wf :: "evt_state \<Rightarrow> bool" where
  "prt_wf s \<longleftrightarrow> (\<forall>i. 0 \<le> prt_connected_queue (es_ports s i) \<and>
                     prt_connected_queue (es_ports s i) \<le> int SYS_EVENT_QUEUE_MAX)"

lemma prt_wf_upd:
  "prt_wf s \<Longrightarrow> 0 \<le> prt_connected_queue p \<Longrightarrow> prt_connected_queue p \<le> int SYS_EVENT_QUEUE_MAX \<Longrightarrow>
   prt_wf (s\<lparr>es_ports := (es_ports s)(i := p)\<rparr>)"
  by (simp add: prt_wf_def)

text \<open>The scheduler takes no event, as with RD_SPU_INTERP unset.\<close>

definition spu_declines :: "(nat \<Rightarrow> u32 \<Rightarrow> evt_state \<Rightarrow> bool \<times> evt_state) \<Rightarrow> bool" where
  "spu_declines spu \<longleftrightarrow> (\<forall>n w s. spu n w s = (False, s))"

lemma port_send_queues:
  assumes "prt_active (es_ports s i)" "i < SYS_EVENT_PORT_MAX" "unat (LV2_ARG_U32 ctx 0) = i + 1"
    and "prt_connected_queue (es_ports s i) = int (j + 1)" "j < SYS_EVENT_QUEUE_MAX"
    and "evq_active (es_queues s j)" "evq_wf (es_queues s j)" "evq_count (es_queues s j) < evq_capacity (es_queues s j)"
    and "spu_declines spu"
  shows "fst (sys_event_port_send nr spu ctx s) = lv2_ret CELL_OK"
    and "es_queues (snd (sys_event_port_send nr spu ctx s)) = (es_queues s)(j := snd (event_queue_push
          \<lparr>ev_source = prt_name (es_ports s i), ev_data1 = LV2_ARG_U64 ctx 1, ev_data2 = LV2_ARG_U64 ctx 2,
           ev_data3 = LV2_ARG_U64 ctx 3\<rparr> (es_queues s j)))"
proof -
  have "fst (event_queue_push e (es_queues s j)) = 0" for e using evq_push_ok(1) [OF assms(7,6,8)] .
  moreover have "nat (1 + int j) - Suc 0 = j" by simp
  ultimately show "fst (sys_event_port_send nr spu ctx s) = lv2_ret CELL_OK"
    and "es_queues (snd (sys_event_port_send nr spu ctx s)) = (es_queues s)(j := snd (event_queue_push
          \<lparr>ev_source = prt_name (es_ports s i), ev_data1 = LV2_ARG_U64 ctx 1, ev_data2 = LV2_ARG_U64 ctx 2,
           ev_data3 = LV2_ARG_U64 ctx 3\<rparr> (es_queues s j)))"
    using assms by (simp_all add: sys_event_port_send_def port_send_connected_def spu_declines_def Let_def case_prod_beta)
qed

section \<open>Properties\<close>

text \<open>
  C31. What is sent is what is received: when a thread sends three words through a live port
  that is connected to a live queue which is not full, and no SPU job takes the event, the
  send answers CELL_OK, and once the events queued before it have been received, a receive on
  that queue answers CELL_OK and leaves in registers r4 to r7 the port's name and the three
  words.
\<close>

theorem event_send_receive:
  assumes "prt_active (es_ports s i)" "i < SYS_EVENT_PORT_MAX" "unat (LV2_ARG_U32 ctx 0) = i + 1"
    and "prt_connected_queue (es_ports s i) = int (j + 1)" "j < SYS_EVENT_QUEUE_MAX"
    and "evq_active (es_queues s j)" "evq_wf (es_queues s j)" "evq_count (es_queues s j) < evq_capacity (es_queues s j)"
    and "spu_declines spu"
    and "sys_event_port_send nr spu ctx s = (r, s')"
    and "event_fifo.run (replicate (evq_count (es_queues s j)) None) (es_queues s' j) = (accepted, received, q)"
    and "unat (LV2_ARG_U32 rcv 0) = j + 1"
    and "sys_event_queue_receive spu' rcv ((es_queues s')(j := q), m) = (r', rcv', t', m')"
  shows "r = lv2_ret CELL_OK \<and> received = q_events (es_queues s j) \<and> r' = Returns (lv2_ret CELL_OK) \<and>
         gpr rcv' 4 = prt_name (es_ports s i) \<and> gpr rcv' 5 = LV2_ARG_U64 ctx 1 \<and>
         gpr rcv' 6 = LV2_ARG_U64 ctx 2 \<and> gpr rcv' 7 = LV2_ARG_U64 ctx 3"
proof -
  let ?q = "es_queues s j" and ?n = "evq_count (es_queues s j)"
  let ?e = "\<lparr>ev_source = prt_name (es_ports s i), ev_data1 = LV2_ARG_U64 ctx 1, ev_data2 = LV2_ARG_U64 ctx 2,
             ev_data3 = LV2_ARG_U64 ctx 3\<rparr>"
  note send = port_send_queues [OF assms(1-9), of nr, unfolded assms(10) fst_conv snd_conv]
  note push = evq_push_ok [OF assms(7,6,8), of ?e]
  have sent: "es_queues s' j = snd (event_queue_push ?e ?q)" using send(2) by simp
  have ok: "evq_wf (es_queues s' j)" "evq_active (es_queues s' j)" "q_events (es_queues s' j) = q_events ?q @ [?e]"
    unfolding sent by (rule push(3), rule push(4), rule push(2))
  from event_fifo.run_fifo [OF conjI [OF ok(1,2)] assms(11)]
  have fifo: "q_events ?q @ [?e] @ accepted = received @ q_events q" "evq_wf q" "evq_active q"
    unfolding ok(3) by (simp_all only: append_assoc)
  have "?n \<le> length (q_events (es_queues s' j))" unfolding ok(3) by simp
  note none = evq_drain_run [OF ok(1,2) this assms(11)]
  then have rec: "received = q_events ?q" and q: "q_events q = [?e]"
    using fifo(1) by (simp_all add: append_eq_append_conv)
  then have "evq_count q = 1" using length_q_events [of q] by simp
  then have "fst (evq_pop q) = ?e" using evq_pop_events(1) [OF fifo(2)] q by simp
  then show ?thesis
    using send(1) rec assms(5,12,13) fifo(3) \<open>evq_count q = 1\<close>
    by (auto simp: sys_event_queue_receive_def Let_def evq_receive_locked_def case_prod_beta evq_deliver_def)
qed

definition evt_ex :: evt_state where
  "evt_ex = \<lparr>es_queues = evq_ex, es_ports = (\<lambda>_. prt_zero)(1 := prt_zero\<lparr>prt_active := True, prt_name := 0x42, prt_connected_queue := 1\<rparr>),
     es_mem = (\<lambda>_. 0), es_pending = (0, 0, 0), es_pending_valid = False\<rparr>"

theorem event_send_receive_witness:
  "\<exists>s q rcv t m. sys_event_port_send False (\<lambda>n w s. (False, s)) (call_ctx 1 [2, 10, 11, 12]) evt_ex = (lv2_ret CELL_OK, s) \<and>
     event_fifo.run [None] (es_queues s 0) = ([], [event_ex 9], q) \<and>
     sys_event_queue_receive (\<lambda>n w st. (False, st)) (call_ctx 2 [1, 0, 0]) ((es_queues s)(0 := q), \<lambda>_. 0) =
       (Returns (lv2_ret CELL_OK), rcv, t, m) \<and>
     gpr rcv 4 = 0x42 \<and> gpr rcv 5 = 10 \<and> gpr rcv 6 = 11 \<and> gpr rcv 7 = 12"
proof -
  let ?ctx = "call_ctx 1 [2, 10, 11, 12]" and ?rcv = "call_ctx 2 [1, 0, 0]" and ?spu = "\<lambda>n w (s::evt_state). (False, s)"
  obtain r s where s: "sys_event_port_send False ?spu ?ctx evt_ex = (r, s)" by fastforce
  obtain acc rec q where q: "event_fifo.run (replicate (evq_count (es_queues evt_ex 0)) None) (es_queues s 0) = (acc, rec, q)"
    by (metis prod_cases3)
  obtain r' rcv t m where x: "sys_event_queue_receive (\<lambda>n w st. (False, st)) ?rcv ((es_queues s)(0 := q), \<lambda>_. 0) = (r', rcv, t, m)"
    by (metis prod_cases4)
  have e: "es_queues evt_ex 0 = evq_ex 0" "prt_active (es_ports evt_ex 1)" "prt_connected_queue (es_ports evt_ex 1) = 1"
    "prt_name (es_ports evt_ex 1) = 0x42"
    by (simp_all add: evt_ex_def)
  have full: "evq_count (evq_ex 0) < evq_capacity (evq_ex 0)"
    by (simp add: evq_ex_def event_queue_push_def q_go_live_def q_open_def evq_zero_def)
  have n1: "replicate (evq_count (es_queues evt_ex 0)) None = [None :: sys_event_t option]"
    by (simp add: e evq_ex_events)
  have acc: "acc = []"
    using q unfolding n1 by (auto simp: case_prod_beta)
  show ?thesis
    using event_send_receive [OF e(2) _ _ _ _ _ _ _ _ s q _ x] acc s q x full evq_table_at [OF evq_ex_wf, of 0] e
    by (simp add: SYS_EVENT_PORT_MAX_def SYS_EVENT_QUEUE_MAX_def evq_ex_events spu_declines_def)
qed

text \<open>
  A port is connected to at most one queue at a time: connecting a live, unconnected port
  to a live queue answers CELL_OK, connecting it again answers EISCONN and changes nothing,
  disconnecting it answers CELL_OK and makes a further disconnect answer ENOTCONN, and a send
  through it answer ENOTCONN and queue nothing.
\<close>

theorem port_connection_protocol:
  assumes "unat (LV2_ARG_U32 ctx 0) = i + 1" "i < SYS_EVENT_PORT_MAX" "prt_active (es_ports s i)"
    and "prt_connected_queue (es_ports s i) = 0" "0 < unat (LV2_ARG_U32 ctx 1)"
    and "unat (LV2_ARG_U32 ctx 1) \<le> SYS_EVENT_QUEUE_MAX" "evq_active (es_queues s (unat (LV2_ARG_U32 ctx 1) - 1))"
    and "sys_event_port_connect_local ctx s = (r, s1)" and "sys_event_port_disconnect lenient ctx s1 = (r', s2)"
  shows "r = lv2_ret CELL_OK \<and> prt_connected_queue (es_ports s1 i) = int (unat (LV2_ARG_U32 ctx 1)) \<and>
         sys_event_port_connect_local ctx s1 = (lv2_ret CELL_EISCONN, s1) \<and>
         r' = lv2_ret CELL_OK \<and> s2 = s \<and>
         sys_event_port_disconnect False ctx s2 = (lv2_ret CELL_ENOTCONN, s2) \<and>
         sys_event_port_send nr spu ctx s2 = (lv2_ret CELL_ENOTCONN, s2)"
proof -
  obtain j where j: "unat (LV2_ARG_U32 ctx 1) = j" by simp
  let ?p = "es_ports s i"
  note con = assms(8) [unfolded sys_event_port_connect_local_def Let_def j]
    and dis = assms(9) [unfolded sys_event_port_disconnect_def Let_def]
  note a = assms(1-4) assms(5-7) [unfolded j]
  have s1: "r = lv2_ret CELL_OK" "s1 = s\<lparr>es_ports := (es_ports s)(i := ?p\<lparr>prt_connected_queue := int j\<rparr>)\<rparr>"
    using con a by simp_all
  then have s2: "r' = lv2_ret CELL_OK" "s2 = s1\<lparr>es_ports := (es_ports s)(i := ?p\<lparr>prt_connected_queue := 0\<rparr>)\<rparr>"
    using dis a by simp_all
  have "?p\<lparr>prt_connected_queue := 0\<rparr> = ?p" using assms(4) by simp
  then have "s2 = s" using s1(2) s2(2) by simp
  with s1 s2(1) a show ?thesis
    unfolding sys_event_port_connect_local_def sys_event_port_disconnect_def sys_event_port_send_def Let_def j by simp
qed

theorem port_connection_protocol_witness:
  "(let s = evt_ex\<lparr>es_ports := (\<lambda>_. prt_zero\<lparr>prt_active := True\<rparr>)\<rparr>; ctx = call_ctx 1 [2, 1];
        (r, s1) = sys_event_port_connect_local ctx s; (r', s2) = sys_event_port_disconnect False ctx s1
    in r = lv2_ret CELL_OK \<and> sys_event_port_connect_local ctx s1 = (lv2_ret CELL_EISCONN, s1) \<and> s2 = s)"
proof -
  let ?s = "evt_ex\<lparr>es_ports := (\<lambda>_. prt_zero\<lparr>prt_active := True\<rparr>)\<rparr>" and ?ctx = "call_ctx 1 [2, 1]"
  obtain r s1 where 1: "sys_event_port_connect_local ?ctx ?s = (r, s1)" by fastforce
  obtain r' s2 where 2: "sys_event_port_disconnect False ?ctx s1 = (r', s2)" by fastforce
  have "es_queues ?s 0 = evq_ex 0" by (simp add: evt_ex_def)
  with port_connection_protocol [OF _ _ _ _ _ _ _ 1 2, of 1] 1 2 show ?thesis
    by (simp add: SYS_EVENT_PORT_MAX_def SYS_EVENT_QUEUE_MAX_def prt_zero_def evq_ex_events)
qed

text \<open>
  A send on a port that was destroyed is not refused when a live queue has the port's
  number: it answers CELL_OK and the event lands in that queue, to which the port need never
  have been connected.
\<close>

theorem dead_port_reaches_queue:
  "(let s = evt_ex\<lparr>es_ports := (\<lambda>_. prt_zero\<lparr>prt_active := True\<rparr>)\<rparr>;
        (r, s1) = sys_event_port_destroy False (call_ctx 1 [1]) s;
        (r', s2) = sys_event_port_send False spu (call_ctx 1 [1, 10, 11, 12]) s1
    in r = lv2_ret CELL_OK \<and> r' = lv2_ret CELL_OK \<and>
       q_events (es_queues s2 0) = [event_ex 9, \<lparr>ev_source = 0, ev_data1 = 10, ev_data2 = 11, ev_data3 = 12\<rparr>])"
  by (simp add: sys_event_port_destroy_def sys_event_port_send_def port_route_def SYS_EVENT_PORT_MAX_def
      SYS_EVENT_QUEUE_MAX_def evt_ex_def evq_ex_def event_queue_push_def q_go_live_def q_open_def evq_zero_def
      q_events_def ring_items_def prt_zero_def Let_def upt_rec)

end
