(* ===== verification/EventFlag.thy ===== *)
theory EventFlag
  imports SysSemaphore
begin

unbundle bit_operations_syntax

text \<open>
  Event flags (runtime/syscalls/sys_event.c, last part), POSIX build: 256 words of 64 bits
  on which threads wait for all or for any of a set of bits.

  A wait is split where the code sleeps: \<open>flag_wait_locked\<close> is one evaluation of the loop
  test with what follows, \<open>flag_wait_expire\<close> the code after a time-out. Left out: logging
  and the PS3_EVF_OK_IF_MISSING and PS3_EVF_FORCE diagnostics.
\<close>

section \<open>Data\<close>

record sys_event_flag_info =
  flg_active :: bool
  flg_protocol :: u32
  flg_type :: u32
  flg_name :: "u8 list"
  flg_pattern :: u64

type_synonym flg_table = "nat \<Rightarrow> sys_event_flag_info"

definition SYS_EVENT_FLAG_MAX :: nat where
  "SYS_EVENT_FLAG_MAX = 256"

definition SYS_EVENT_FLAG_WAIT_AND :: u32 where
  "SYS_EVENT_FLAG_WAIT_AND = 0x01"

definition SYS_EVENT_FLAG_WAIT_OR :: u32 where
  "SYS_EVENT_FLAG_WAIT_OR = 0x02"

definition SYS_EVENT_FLAG_WAIT_CLEAR :: u32 where
  "SYS_EVENT_FLAG_WAIT_CLEAR = 0x10"

definition SYS_EVENT_FLAG_WAIT_CLEAR_ALL :: u32 where
  "SYS_EVENT_FLAG_WAIT_CLEAR_ALL = 0x20"

definition flg_zero :: sys_event_flag_info where
  "flg_zero = \<lparr>flg_active = False, flg_protocol = 0, flg_type = 0, flg_name = replicate 8 0, flg_pattern = 0\<rparr>"

definition flg_init_table :: flg_table where
  "flg_init_table = (\<lambda>_. flg_zero)"

section \<open>System calls\<close>

definition flg_new :: "ppu_context \<Rightarrow> mem \<Rightarrow> sys_event_flag_info" where
  "flg_new ctx m =
     (let attr_addr = LV2_ARG_PTR ctx 1;
          f = flg_zero\<lparr>flg_active := True, flg_pattern := LV2_ARG_U64 ctx 2\<rparr>
      in if attr_addr \<noteq> 0
         then f\<lparr>flg_protocol := read_be32 m attr_addr, flg_type := read_be32 m (attr_addr + 4),
                flg_name := copy_bytes m (vm_to_host attr_addr + 8) 8\<rparr>
         else f)"

definition sys_event_flag_create :: "ppu_context \<Rightarrow> flg_table \<times> mem \<Rightarrow> u64 \<times> flg_table \<times> mem" where
  "sys_event_flag_create ctx st =
     (let (t, m) = st; id_out_addr = LV2_ARG_PTR ctx 0
      in case find_slot (\<lambda>i. \<not> flg_active (t i)) SYS_EVENT_FLAG_MAX of
           None \<Rightarrow> (lv2_ret CELL_EAGAIN, t, m)
         | Some slot \<Rightarrow>
             (lv2_ret CELL_OK, t(slot := flg_new ctx m),
              if id_out_addr \<noteq> 0 then write_be32 m id_out_addr (of_nat (slot + 1)) else m))"

definition sys_event_flag_destroy :: "ppu_context \<Rightarrow> flg_table \<Rightarrow> u64 \<times> flg_table" where
  "sys_event_flag_destroy ctx t =
     (let flag_id = unat (LV2_ARG_U32 ctx 0)
      in if flag_id = 0 \<or> flag_id > SYS_EVENT_FLAG_MAX then (lv2_ret CELL_ESRCH, t)
         else if \<not> flg_active (t (flag_id - 1)) then (lv2_ret CELL_ESRCH, t)
         else (lv2_ret CELL_OK, t(flag_id - 1 := (t (flag_id - 1))\<lparr>flg_active := False\<rparr>)))"

definition flag_check :: "u64 \<Rightarrow> u64 \<Rightarrow> u32 \<Rightarrow> bool" where
  "flag_check pattern bitpat mode =
     (if mode AND SYS_EVENT_FLAG_WAIT_AND \<noteq> 0 then pattern AND bitpat = bitpat
      else pattern AND bitpat \<noteq> 0)"

text \<open>What a satisfied wait does to the flag, shared by wait and trywait.\<close>

definition flag_consume :: "u64 \<Rightarrow> u32 \<Rightarrow> u64 \<Rightarrow> u64" where
  "flag_consume bitpat mode pattern =
     (if mode AND SYS_EVENT_FLAG_WAIT_CLEAR \<noteq> 0 then pattern AND NOT bitpat
      else if mode AND SYS_EVENT_FLAG_WAIT_CLEAR_ALL \<noteq> 0 then 0
      else pattern)"

text \<open>The result goes to guest memory big-endian when the guest gave an address.\<close>

definition put_result :: "u32 \<Rightarrow> u64 \<Rightarrow> mem \<Rightarrow> mem" where
  "put_result addr v m = (if addr \<noteq> 0 then host_store64 m (vm_to_host addr) (bswap64 v) else m)"

definition flag_wait_locked ::
  "u64 \<Rightarrow> u32 \<Rightarrow> u32 \<Rightarrow> sys_event_flag_info \<times> mem \<Rightarrow> u64 blocking \<times> sys_event_flag_info \<times> mem" where
  "flag_wait_locked bitpat mode result_addr st =
     (let (f, m) = st
      in if \<not> flag_check (flg_pattern f) bitpat mode \<and> flg_active f then (Blocks, f, m)
         else (Returns (lv2_ret CELL_OK), f\<lparr>flg_pattern := flag_consume bitpat mode (flg_pattern f)\<rparr>,
               put_result result_addr (flg_pattern f) m))"

definition flag_wait_expire ::
  "u32 \<Rightarrow> sys_event_flag_info \<times> mem \<Rightarrow> u64 \<times> sys_event_flag_info \<times> mem" where
  "flag_wait_expire result_addr st =
     (let (f, m) = st in (lv2_ret CELL_ETIMEDOUT, f, put_result result_addr (flg_pattern f) m))"

text \<open>
  The branch for an empty bit pattern, taken before the flag is looked at: it copies a
  completion target to its counter, at the address in r29.
\<close>

definition flag_completion_shim :: "ppu_context \<Rightarrow> mem \<Rightarrow> mem" where
  "flag_completion_shim ctx m =
     (let obj = ucast (gpr ctx 29) :: u32; tgt = vm_to_host obj; cur = vm_to_host (obj + 0x24);
          m = m(cur := m tgt); m = m(cur + 1 := m (tgt + 1)); m = m(cur + 2 := m (tgt + 2))
      in m(cur + 3 := m (tgt + 3)))"

definition sys_event_flag_wait :: "ppu_context \<Rightarrow> flg_table \<times> mem \<Rightarrow> u64 blocking \<times> flg_table \<times> mem" where
  "sys_event_flag_wait ctx st =
     (let (t, m) = st; flag_id = unat (LV2_ARG_U32 ctx 0); bitpat = LV2_ARG_U64 ctx 1;
          mode = LV2_ARG_U32 ctx 2; result_addr = LV2_ARG_PTR ctx 3
      in if bitpat = 0 then (Returns (lv2_ret CELL_OK), t, flag_completion_shim ctx m)
         else if flag_id = 0 \<or> flag_id > SYS_EVENT_FLAG_MAX then (Returns (lv2_ret CELL_ESRCH), t, m)
         else if \<not> flg_active (t (flag_id - 1)) then (Returns (lv2_ret CELL_ESRCH), t, m)
         else if bitpat = 0 then (Returns (lv2_ret CELL_EINVAL), t, m)
         else let (r, f, m) = flag_wait_locked bitpat mode result_addr (t (flag_id - 1), m)
              in (r, t(flag_id - 1 := f), m))"

definition sys_event_flag_trywait :: "ppu_context \<Rightarrow> flg_table \<times> mem \<Rightarrow> u64 \<times> flg_table \<times> mem" where
  "sys_event_flag_trywait ctx st =
     (let (t, m) = st; flag_id = unat (LV2_ARG_U32 ctx 0); bitpat = LV2_ARG_U64 ctx 1;
          mode = LV2_ARG_U32 ctx 2; result_addr = LV2_ARG_PTR ctx 3
      in if flag_id = 0 \<or> flag_id > SYS_EVENT_FLAG_MAX then (lv2_ret CELL_ESRCH, t, m)
         else if \<not> flg_active (t (flag_id - 1)) then (lv2_ret CELL_ESRCH, t, m)
         else let f = t (flag_id - 1)
              in if \<not> flag_check (flg_pattern f) bitpat mode
                 then (lv2_ret CELL_EBUSY, t, put_result result_addr (flg_pattern f) m)
                 else (lv2_ret CELL_OK, t(flag_id - 1 := f\<lparr>flg_pattern := flag_consume bitpat mode (flg_pattern f)\<rparr>),
                       put_result result_addr (flg_pattern f) m))"

definition sys_event_flag_set :: "ppu_context \<Rightarrow> flg_table \<Rightarrow> u64 \<times> flg_table" where
  "sys_event_flag_set ctx t =
     (let flag_id = unat (LV2_ARG_U32 ctx 0); bitpat = LV2_ARG_U64 ctx 1
      in if flag_id = 0 \<or> flag_id > SYS_EVENT_FLAG_MAX then (lv2_ret CELL_ESRCH, t)
         else if \<not> flg_active (t (flag_id - 1)) then (lv2_ret CELL_ESRCH, t)
         else (lv2_ret CELL_OK, t(flag_id - 1 := (t (flag_id - 1))\<lparr>flg_pattern := flg_pattern (t (flag_id - 1)) OR bitpat\<rparr>)))"

definition ydkj_wake_all_event_flags :: "flg_table \<Rightarrow> flg_table" where
  "ydkj_wake_all_event_flags t =
     (\<lambda>i. if i < SYS_EVENT_FLAG_MAX \<and> flg_active (t i)
          then (t i)\<lparr>flg_pattern := flg_pattern (t i) OR 0xFFFFFFFFFFFFFFFF\<rparr> else t i)"

definition sys_event_flag_clear :: "ppu_context \<Rightarrow> flg_table \<Rightarrow> u64 \<times> flg_table" where
  "sys_event_flag_clear ctx t =
     (let flag_id = unat (LV2_ARG_U32 ctx 0); bitpat = LV2_ARG_U64 ctx 1
      in if flag_id = 0 \<or> flag_id > SYS_EVENT_FLAG_MAX then (lv2_ret CELL_ESRCH, t)
         else if \<not> flg_active (t (flag_id - 1)) then (lv2_ret CELL_ESRCH, t)
         else (lv2_ret CELL_OK, t(flag_id - 1 := (t (flag_id - 1))\<lparr>flg_pattern := flg_pattern (t (flag_id - 1)) AND bitpat\<rparr>)))"

definition sys_event_flag_get :: "ppu_context \<Rightarrow> flg_table \<times> mem \<Rightarrow> u64 \<times> flg_table \<times> mem" where
  "sys_event_flag_get ctx st =
     (let (t, m) = st; flag_id = unat (LV2_ARG_U32 ctx 0); out_addr = LV2_ARG_PTR ctx 1
      in if flag_id = 0 \<or> flag_id > SYS_EVENT_FLAG_MAX then (lv2_ret CELL_ESRCH, t, m)
         else if \<not> flg_active (t (flag_id - 1)) then (lv2_ret CELL_ESRCH, t, m)
         else (lv2_ret CELL_OK, t, put_result out_addr (flg_pattern (t (flag_id - 1))) m))"

section \<open>The two modes, bit by bit\<close>

lemma u64_bit_bound: "bit (b :: u64) n \<Longrightarrow> n < 64"
  using bit_imp_le_length [of b n] by simp

lemma flag_check_and: "mode AND SYS_EVENT_FLAG_WAIT_AND \<noteq> 0 \<Longrightarrow>
    flag_check p b mode \<longleftrightarrow> (\<forall>n. bit b n \<longrightarrow> bit p n)"
  unfolding flag_check_def by (simp add: bit_eq_iff [where a = "p AND b"] bit_simps) (blast dest: u64_bit_bound)

lemma flag_check_or: "mode AND SYS_EVENT_FLAG_WAIT_AND = 0 \<Longrightarrow>
    flag_check p b mode \<longleftrightarrow> (\<exists>n. bit b n \<and> bit p n)"
  unfolding flag_check_def by (simp add: bit_eq_iff [where a = "p AND b"] bit_simps) (blast dest: u64_bit_bound)

lemma bit_flag_consume:
  "mode AND SYS_EVENT_FLAG_WAIT_CLEAR \<noteq> 0 \<Longrightarrow> bit (flag_consume b mode p) n \<longleftrightarrow> bit p n \<and> \<not> bit b n"
  "mode AND SYS_EVENT_FLAG_WAIT_CLEAR = 0 \<Longrightarrow> mode AND SYS_EVENT_FLAG_WAIT_CLEAR_ALL \<noteq> 0 \<Longrightarrow>
     \<not> bit (flag_consume b mode p) n"
  by (auto simp: flag_consume_def bit_simps dest: bit_imp_le_length)

lemma read_put_result: "addr \<noteq> 0 \<Longrightarrow> read_be64 (put_result addr v m) addr = v"
  by (simp add: put_result_def read_be64_def host_load_store64 bswap64_bswap64)

section \<open>Properties\<close>

text \<open>
  C32. A wait on a live flag for a non-empty set of bits returns exactly when the bits are
  there: all of them in AND mode, one of them otherwise. It then answers CELL_OK, reports the
  pattern as it was, and with WAIT_CLEAR takes exactly the bits waited for out of the flag,
  with WAIT_CLEAR_ALL all bits, and otherwise none.
\<close>

theorem flag_wait_exact:
  assumes "unat (LV2_ARG_U32 ctx 0) = i + 1" "i < SYS_EVENT_FLAG_MAX" "flg_active (t i)"
    and "LV2_ARG_U64 ctx 1 \<noteq> 0" and "sys_event_flag_wait ctx (t, m) = (r, t', m')"
  shows "(r \<noteq> Blocks \<longleftrightarrow> (if LV2_ARG_U32 ctx 2 AND SYS_EVENT_FLAG_WAIT_AND \<noteq> 0
            then \<forall>n. bit (LV2_ARG_U64 ctx 1) n \<longrightarrow> bit (flg_pattern (t i)) n
            else \<exists>n. bit (LV2_ARG_U64 ctx 1) n \<and> bit (flg_pattern (t i)) n)) \<and>
         (r = Blocks \<longrightarrow> t' = t \<and> m' = m) \<and>
         (r \<noteq> Blocks \<longrightarrow> r = Returns (lv2_ret CELL_OK) \<and>
            (LV2_ARG_PTR ctx 3 \<noteq> 0 \<longrightarrow> read_be64 m' (LV2_ARG_PTR ctx 3) = flg_pattern (t i)) \<and>
            (\<forall>n. bit (flg_pattern (t' i)) n \<longleftrightarrow> bit (flg_pattern (t i)) n \<and>
               (if LV2_ARG_U32 ctx 2 AND SYS_EVENT_FLAG_WAIT_CLEAR \<noteq> 0 then \<not> bit (LV2_ARG_U64 ctx 1) n
                else LV2_ARG_U32 ctx 2 AND SYS_EVENT_FLAG_WAIT_CLEAR_ALL = 0)))"
proof -
  let ?b = "LV2_ARG_U64 ctx 1" and ?mode = "LV2_ARG_U32 ctx 2" and ?p = "flg_pattern (t i)"
  have eq: "(r, t', m') = (if flag_check ?p ?b ?mode
      then (Returns (lv2_ret CELL_OK), t(i := (t i)\<lparr>flg_pattern := flag_consume ?b ?mode ?p\<rparr>), put_result (LV2_ARG_PTR ctx 3) ?p m)
      else (Blocks, t, m))"
    using assms by (simp add: sys_event_flag_wait_def flag_wait_locked_def Let_def split: if_splits)
  have "bit (flag_consume ?b ?mode ?p) n \<longleftrightarrow> bit ?p n \<and>
      (if ?mode AND SYS_EVENT_FLAG_WAIT_CLEAR \<noteq> 0 then \<not> bit ?b n else ?mode AND SYS_EVENT_FLAG_WAIT_CLEAR_ALL = 0)" for n
    using bit_flag_consume [of ?mode ?b ?p n] by (auto simp: flag_consume_def)
  then show ?thesis
    using eq flag_check_and [of ?mode ?p ?b] flag_check_or [of ?mode ?p ?b]
    by (cases "flag_check ?p ?b ?mode") (auto simp: read_put_result)
qed

definition flg_ex :: flg_table where
  "flg_ex = flg_init_table(0 := flg_zero\<lparr>flg_active := True, flg_pattern := 7\<rparr>)"

theorem flag_wait_exact_witness:
  "\<exists>t m. sys_event_flag_wait (call_ctx 1 [1, 3, 0x11, 0x1000]) (flg_ex, \<lambda>_. 0) = (Returns (lv2_ret CELL_OK), t, m) \<and>
     read_be64 m 0x1000 = 7 \<and> bit (flg_pattern (t 0)) 2 \<and> \<not> bit (flg_pattern (t 0)) 0"
proof -
  let ?ctx = "call_ctx 1 [1, 3, 0x11, 0x1000]"
  obtain r t m where w: "sys_event_flag_wait ?ctx (flg_ex, \<lambda>_. 0) = (r, t, m)" by (metis prod_cases3)
  have nb: "r \<noteq> Blocks"
    using w by (auto simp: sys_event_flag_wait_def flag_wait_locked_def flag_check_def flg_ex_def flg_zero_def
        SYS_EVENT_FLAG_MAX_def SYS_EVENT_FLAG_WAIT_AND_def Let_def)
  from flag_wait_exact [OF _ _ _ _ w, of 0] nb w show ?thesis
    by (simp add: SYS_EVENT_FLAG_MAX_def flg_ex_def SYS_EVENT_FLAG_WAIT_CLEAR_def bit_numeral_rec)
qed

text \<open>
  C33. Setting and clearing are what a get reports: on a live flag, \<open>sys_event_flag_set\<close> adds
  the given bits, \<open>sys_event_flag_clear\<close> keeps only the given bits, and
  \<open>sys_event_flag_get\<close> stores the result in guest memory.
\<close>

theorem flag_set_clear_get:
  assumes "unat (LV2_ARG_U32 ctx 0) = i + 1" "i < SYS_EVENT_FLAG_MAX" "flg_active (t i)"
    and "unat (LV2_ARG_U32 g 0) = i + 1" "LV2_ARG_PTR g 1 \<noteq> 0"
  shows "read_be64 (snd (snd (sys_event_flag_get g (snd (sys_event_flag_set ctx t), m)))) (LV2_ARG_PTR g 1)
           = flg_pattern (t i) OR LV2_ARG_U64 ctx 1 \<and>
         read_be64 (snd (snd (sys_event_flag_get g (snd (sys_event_flag_clear ctx t), m)))) (LV2_ARG_PTR g 1)
           = flg_pattern (t i) AND LV2_ARG_U64 ctx 1"
  using assms read_put_result [OF assms(5)]
  by (simp add: sys_event_flag_get_def sys_event_flag_set_def sys_event_flag_clear_def Let_def)

theorem flag_set_clear_get_witness:
  "read_be64 (snd (snd (sys_event_flag_get (call_ctx 1 [1, 0x1000]) (snd (sys_event_flag_set (call_ctx 1 [1, 8]) flg_ex), \<lambda>_. 0)))) 0x1000 = 15"
  using flag_set_clear_get [of "call_ctx 1 [1, 8]" 0 flg_ex "call_ctx 1 [1, 0x1000]" "\<lambda>_. 0"]
  by (simp add: SYS_EVENT_FLAG_MAX_def flg_ex_def)

text \<open>
  C26. A wait for no bits never reaches the flag: \<open>sys_event_flag_wait\<close> with an empty pattern
  answers CELL_OK for any flag id, live or not, and overwrites four bytes of guest memory;
  the EINVAL the code means to answer for it is never given.
\<close>

theorem flag_wait_empty_pattern:
  "(LV2_ARG_U64 ctx 1 = 0 \<longrightarrow> sys_event_flag_wait ctx (t, m) = (Returns (lv2_ret CELL_OK), t, flag_completion_shim ctx m)) \<and>
   fst (sys_event_flag_wait ctx (t, m)) \<noteq> Returns (lv2_ret CELL_EINVAL)"
  by (auto simp: sys_event_flag_wait_def flag_wait_locked_def Let_def lv2_codes)

theorem flag_wait_empty_pattern_witness:
  "sys_event_flag_wait (call_ctx 1 [999, 0, 1, 0]) (flg_init_table, \<lambda>_. 0) =
     (Returns (lv2_ret CELL_OK), flg_init_table, flag_completion_shim (call_ctx 1 [999, 0, 1, 0]) (\<lambda>_. 0))"
  using flag_wait_empty_pattern [of "call_ctx 1 [999, 0, 1, 0]" flg_init_table "\<lambda>_. 0"] by simp

end
