(* ===== verification/CellSyncMutex.thy ===== *)
theory CellSyncMutex
  imports GuestMemory
begin

unbundle bit_operations_syntax

text \<open>
  The ticket mutex of libs/sync/cellSync.c. The word lies in guest memory, big-endian: the
  upper half counts released tickets, the lower half is the next ticket to hand out.

  A call is cut at its atomic accesses. \<open>mutex_step\<close> performs one access of a thread and
  moves its program counter; the counter of a finished call carries the result. A thread that
  owns a ticket keeps it in the counter, as the local variable of \<open>cellSyncMutexLock\<close> does.
  The lock-line lock around \<open>sync_cas\<close> makes it one access also against SPU code; what it
  tells the SPUs' reservations and the SYNC_TRACE and SYNC_WATCH logs are left out, as is the
  yielding of the spin loops.
\<close>

section \<open>Result codes\<close>

definition CELL_SYNC_ERROR_INVAL :: u32 where "CELL_SYNC_ERROR_INVAL = 0x80410102"
definition CELL_SYNC_ERROR_BUSY :: u32 where "CELL_SYNC_ERROR_BUSY = 0x8041010A"
definition CELL_SYNC_ERROR_ALIGN :: u32 where "CELL_SYNC_ERROR_ALIGN = 0x80410110"
definition CELL_SYNC_ERROR_NULL_POINTER :: u32 where "CELL_SYNC_ERROR_NULL_POINTER = 0x80410111"
definition CELL_SYNC_ERROR_OVERFLOW :: u32 where "CELL_SYNC_ERROR_OVERFLOW = 0x80410112"
definition CELL_SYNC_ERROR_EMPTY :: u32 where "CELL_SYNC_ERROR_EMPTY = 0x80410113"

named_theorems sync_codes

lemmas sync_code_defs [sync_codes] =
  CELL_SYNC_ERROR_INVAL_def CELL_SYNC_ERROR_BUSY_def CELL_SYNC_ERROR_ALIGN_def
  CELL_SYNC_ERROR_NULL_POINTER_def CELL_SYNC_ERROR_OVERFLOW_def CELL_SYNC_ERROR_EMPTY_def

section \<open>The word\<close>

definition sync_bswap32 :: "u32 \<Rightarrow> u32" where
  "sync_bswap32 v = drop_bit 24 v OR (drop_bit 8 v AND 0x0000FF00) OR
                    (push_bit 8 v AND 0x00FF0000) OR push_bit 24 v"

definition sync_cas :: "u32 \<Rightarrow> u32 \<Rightarrow> u32 \<Rightarrow> mem \<Rightarrow> bool \<times> mem" where
  "sync_cas ea expected desired m =
     (if host_load32 m (vm_to_host ea) = expected
      then (True, host_store32 m (vm_to_host ea) desired) else (False, m))"

definition cellSyncMutexInitialize :: "u32 \<Rightarrow> mem \<Rightarrow> u32 \<times> mem" where
  "cellSyncMutexInitialize ea m =
     (if ea = 0 then (CELL_SYNC_ERROR_NULL_POINTER, m)
      else (CELL_OK, host_store32 m (vm_to_host ea) 0))"

text \<open>The new words of the three calls, from the word they read, in guest byte order.\<close>

definition lock_next :: "u32 \<Rightarrow> u16 \<times> u32" where
  "lock_next g = (let ticket = ucast g :: u16
                  in (ticket, (g AND 0xFFFF0000) OR ucast (ticket + 1 :: u16)))"

definition trylock_next :: "u32 \<Rightarrow> u32 option" where
  "trylock_next g =
     (let freed = ucast (drop_bit 16 g) :: u16; order = ucast g :: u16
      in if freed \<noteq> order then None
         else Some (push_bit 16 (ucast freed) OR ucast (order + 1 :: u16)))"

definition unlock_next :: "u32 \<Rightarrow> u32" where
  "unlock_next g = push_bit 16 (ucast (ucast (drop_bit 16 g + 1) :: u16)) OR ucast (ucast g :: u16)"

section \<open>Calls\<close>

datatype mutex_pc =
    Out u32
  | Lock_Load
  | Lock_CAS u32
  | Lock_Wait u16
  | Try_Load
  | Try_CAS u32
  | Held u16
  | Unlock_Load u16
  | Unlock_CAS u16 u32

text \<open>The entry points: the null check, then the first access.\<close>

definition cellSyncMutexLock :: "u32 \<Rightarrow> mutex_pc" where
  "cellSyncMutexLock ea = (if ea = 0 then Out CELL_SYNC_ERROR_NULL_POINTER else Lock_Load)"

definition cellSyncMutexTryLock :: "u32 \<Rightarrow> mutex_pc" where
  "cellSyncMutexTryLock ea = (if ea = 0 then Out CELL_SYNC_ERROR_NULL_POINTER else Try_Load)"

definition cellSyncMutexUnlock :: "u32 \<Rightarrow> u16 \<Rightarrow> mutex_pc" where
  "cellSyncMutexUnlock ea ticket =
     (if ea = 0 then Out CELL_SYNC_ERROR_NULL_POINTER else Unlock_Load ticket)"

fun mutex_step :: "u32 \<Rightarrow> mutex_pc \<Rightarrow> mem \<Rightarrow> mutex_pc \<times> mem" where
  "mutex_step ea Lock_Load m = (Lock_CAS (host_load32 m (vm_to_host ea)), m)"
| "mutex_step ea (Lock_CAS raw) m =
     (let (ticket, ng) = lock_next (sync_bswap32 raw);
          (ok, m') = sync_cas ea raw (sync_bswap32 ng) m
      in (if ok then Lock_Wait ticket else Lock_Load, m'))"
| "mutex_step ea (Lock_Wait ticket) m =
     (let g = sync_bswap32 (host_load32 m (vm_to_host ea))
      in (if ucast (drop_bit 16 g) = ticket then Held ticket else Lock_Wait ticket, m))"
| "mutex_step ea Try_Load m =
     (let raw = host_load32 m (vm_to_host ea)
      in case trylock_next (sync_bswap32 raw) of
           None \<Rightarrow> (Out CELL_SYNC_ERROR_BUSY, m)
         | Some ng \<Rightarrow> (Try_CAS raw, m))"
| "mutex_step ea (Try_CAS raw) m =
     (case trylock_next (sync_bswap32 raw) of
        None \<Rightarrow> (Out CELL_SYNC_ERROR_BUSY, m)
      | Some ng \<Rightarrow>
          let (ok, m') = sync_cas ea raw (sync_bswap32 ng) m
          in (if ok then Held (ucast (sync_bswap32 raw)) else Out CELL_SYNC_ERROR_BUSY, m'))"
| "mutex_step ea (Unlock_Load ticket) m = (Unlock_CAS ticket (host_load32 m (vm_to_host ea)), m)"
| "mutex_step ea (Unlock_CAS ticket raw) m =
     (let (ok, m') = sync_cas ea raw (sync_bswap32 (unlock_next (sync_bswap32 raw))) m
      in (if ok then Out CELL_OK else Unlock_Load ticket, m'))"
| "mutex_step ea (Out r) m = (Out r, m)"
| "mutex_step ea (Held ticket) m = (Held ticket, m)"

section \<open>The word as two counters\<close>

definition freed :: "u32 \<Rightarrow> u16" where "freed g = ucast (drop_bit 16 g)"
definition order :: "u32 \<Rightarrow> u16" where "order g = ucast g"
definition pack :: "u16 \<Rightarrow> u16 \<Rightarrow> u32" where "pack f n = push_bit 16 (ucast f) OR ucast n"

lemma byte_sync_bswap32:
  "byte 0 (sync_bswap32 v) = byte 3 v" "byte 1 (sync_bswap32 v) = byte 2 v"
  "byte 2 (sync_bswap32 v) = byte 1 v" "byte 3 (sync_bswap32 v) = byte 0 v"
  by (rule bit_word_eqI, auto simp: sync_bswap32_def byte_masks bit_byte bit_simps dest: bit_imp_le_length)+

lemma sync_bswap32_eq: "sync_bswap32 v = bswap32 v"
  by (rule u32_bytes_eqI) (simp_all only: byte_sync_bswap32 byte_bswap32)

lemma freed_pack [simp]: "freed (pack f n) = f" and order_pack [simp]: "order (pack f n) = n"
  by (rule bit_word_eqI; auto simp: freed_def order_def pack_def bit_simps dest: bit_imp_le_length)+

lemma lock_next_pack: "lock_next g = (order g, pack (freed g) (order g + 1))"
proof -
  have c: "(0xFFFF0000 :: u32) = push_bit 16 (mask 16)" by (simp add: mask_eq_exp_minus_1 push_bit_eq_mult)
  have "(g AND 0xFFFF0000) = push_bit 16 (ucast (ucast (drop_bit 16 g) :: u16))"
    unfolding c by (rule bit_word_eqI) (auto simp: bit_simps)
  then show ?thesis by (simp add: lock_next_def pack_def freed_def order_def Let_def)
qed

lemma trylock_next_pack:
  "trylock_next g = (if freed g = order g then Some (pack (freed g) (order g + 1)) else None)"
  by (simp add: trylock_next_def pack_def freed_def order_def Let_def)

lemma ucast_succ: "(ucast (w + 1 :: u32) :: u16) = ucast w + 1"
proof -
  have "(a + 1) mod 65536 = (a mod 4294967296 + 1) mod (65536 :: int)" for a
    using mod_add_left_eq [of "a mod 4294967296" 65536 1] mod_add_left_eq [of a 65536 1]
    by (simp add: mod_mod_cancel)
  then show ?thesis by transfer (simp add: take_bit_eq_mod mod_mod_cancel)
qed

lemma unlock_next_pack: "unlock_next g = pack (freed g + 1) (order g)"
  by (simp add: ucast_succ unlock_next_def pack_def freed_def order_def)

text \<open>The word in memory and what a compare-and-swap does to it.\<close>

definition mutex_word :: "u32 \<Rightarrow> mem \<Rightarrow> u32" where
  "mutex_word ea m = sync_bswap32 (host_load32 m (vm_to_host ea))"

lemma sync_bswap32_twice [simp]: "sync_bswap32 (sync_bswap32 v) = v"
  by (simp add: sync_bswap32_eq bswap32_bswap32)

lemma sync_cas_word:
  assumes "sync_cas ea raw (sync_bswap32 g) m = (ok, m')"
  shows "ok \<Longrightarrow> mutex_word ea m = sync_bswap32 raw \<and> mutex_word ea m' = g"
    and "\<not> ok \<Longrightarrow> m' = m"
  using assms by (auto simp: sync_cas_def mutex_word_def host_load_store32 split: if_splits)

section \<open>Threads\<close>

record mutex_sys =
  ms_pc :: "nat \<Rightarrow> mutex_pc"
  ms_mem :: mem

text \<open>
  The threads of a set \<open>T\<close> use one mutex: a thread outside a call starts one, the thread that
  got the mutex unlocks it, and any thread that is in a call performs its next access.
\<close>

inductive mutex_trans :: "nat set \<Rightarrow> u32 \<Rightarrow> mutex_sys \<Rightarrow> mutex_sys \<Rightarrow> bool" for T ea where
  lock: "t \<in> T \<Longrightarrow> ms_pc S t = Out r \<Longrightarrow>
    mutex_trans T ea S (S\<lparr>ms_pc := (ms_pc S)(t := cellSyncMutexLock ea)\<rparr>)"
| trylock: "t \<in> T \<Longrightarrow> ms_pc S t = Out r \<Longrightarrow>
    mutex_trans T ea S (S\<lparr>ms_pc := (ms_pc S)(t := cellSyncMutexTryLock ea)\<rparr>)"
| unlock: "t \<in> T \<Longrightarrow> ms_pc S t = Held k \<Longrightarrow>
    mutex_trans T ea S (S\<lparr>ms_pc := (ms_pc S)(t := cellSyncMutexUnlock ea k)\<rparr>)"
| access: "t \<in> T \<Longrightarrow> mutex_step ea (ms_pc S t) (ms_mem S) = (pc', m') \<Longrightarrow>
    mutex_trans T ea S \<lparr>ms_pc = (ms_pc S)(t := pc'), ms_mem = m'\<rparr>"

inductive mutex_reach :: "nat set \<Rightarrow> u32 \<Rightarrow> mutex_sys \<Rightarrow> bool" for T ea where
  start: "cellSyncMutexInitialize ea m = (CELL_OK, m') \<Longrightarrow>
    mutex_reach T ea \<lparr>ms_pc = (\<lambda>_. Out CELL_OK), ms_mem = m'\<rparr>"
| step: "mutex_reach T ea S \<Longrightarrow> mutex_trans T ea S S' \<Longrightarrow> mutex_reach T ea S'"

section \<open>The queue of tickets\<close>

fun ticket_of :: "mutex_pc \<Rightarrow> u16 option" where
  "ticket_of (Lock_Wait k) = Some k"
| "ticket_of (Held k) = Some k"
| "ticket_of (Unlock_Load k) = Some k"
| "ticket_of (Unlock_CAS k raw) = Some k"
| "ticket_of _ = None"

fun owns :: "mutex_pc \<Rightarrow> bool" where
  "owns (Held k) \<longleftrightarrow> True"
| "owns (Unlock_Load k) \<longleftrightarrow> True"
| "owns (Unlock_CAS k raw) \<longleftrightarrow> True"
| "owns _ \<longleftrightarrow> False"

text \<open>
  The threads with a ticket form a queue: the first has the ticket that is being served, each
  next one the next ticket, and only the first can own the mutex.
\<close>

definition queued :: "u32 \<Rightarrow> (nat \<Rightarrow> mutex_pc) \<Rightarrow> nat list \<Rightarrow> bool" where
  "queued g pc q \<longleftrightarrow> distinct q \<and> set q = {t. ticket_of (pc t) \<noteq> None} \<and> length q < 65536 \<and>
     order g = freed g + of_nat (length q) \<and>
     (\<forall>k<length q. ticket_of (pc (q ! k)) = Some (freed g + of_nat k)) \<and>
     (\<forall>t. owns (pc t) \<longrightarrow> q \<noteq> [] \<and> t = hd q)"

definition mutex_inv :: "nat set \<Rightarrow> u32 \<Rightarrow> mutex_sys \<Rightarrow> nat list \<Rightarrow> bool" where
  "mutex_inv T ea S q \<longleftrightarrow> ea \<noteq> 0 \<and> set q \<subseteq> T \<and> queued (mutex_word ea (ms_mem S)) (ms_pc S) q"

lemma owns_ticket: "owns pc \<Longrightarrow> ticket_of pc \<noteq> None"
  by (cases pc) simp_all

lemma of_nat_u16_0: "n < 65536 \<Longrightarrow> (of_nat n :: u16) = 0 \<longleftrightarrow> n = 0"
  using unat_of_nat [where ?'a = 16, of n] by (auto simp: take_bit_nat_eq_self)

text \<open>Four ways the queue changes.\<close>

lemma queued_same:
  assumes "queued g pc q" and "ticket_of pc' = ticket_of (pc t)" and "owns pc' \<Longrightarrow> owns (pc t)"
  shows "queued g (pc(t := pc')) q"
proof -
  have tk: "ticket_of ((pc(t := pc')) u) = ticket_of (pc u)" for u using assms(2) by simp
  have "owns ((pc(t := pc')) u) \<Longrightarrow> owns (pc u)" for u
    using assms(3) by (cases "u = t") auto
  then show ?thesis using assms(1) unfolding queued_def tk by blast
qed

lemma queued_join:
  assumes "queued g pc q" and "ticket_of (pc t) = None" and "ticket_of pc' = Some (order g)"
    and "owns pc' \<Longrightarrow> q = []" and "Suc (length q) < 65536"
  shows "queued (pack (freed g) (order g + 1)) (pc(t := pc')) (q @ [t])"
proof -
  have nt: "t \<notin> set q" using assms(1,2) by (auto simp: queued_def)
  have "ticket_of ((pc(t := pc')) ((q @ [t]) ! k)) = Some (freed g + of_nat k)"
    if "k < length (q @ [t])" for k
  proof (cases "k < length q")
    case True
    then have "q ! k \<noteq> t" using nt nth_mem by fastforce
    then show ?thesis using assms(1) True by (simp add: queued_def nth_append)
  next
    case False
    with that have "k = length q" by simp
    then show ?thesis using assms(1,3) by (simp add: queued_def)
  qed
  moreover have "owns ((pc(t := pc')) u) \<longrightarrow> u = hd (q @ [t])" for u
    using assms(1,4) by (cases q) (auto simp: queued_def)
  ultimately show ?thesis
    using assms nt by (auto simp: queued_def split: if_splits)
qed

lemma queued_owner:
  assumes "queued g pc q" and "ticket_of (pc t) = Some (freed g)"
  shows "q \<noteq> [] \<and> t = hd q"
proof -
  have "t \<in> set q" using assms by (auto simp: queued_def)
  then obtain k where k: "k < length q" "q ! k = t" by (auto simp: in_set_conv_nth)
  then have "freed g + of_nat k = freed g" using assms by (auto simp: queued_def)
  then have "k = 0" using k(1) assms(1) of_nat_u16_0 [of k] by (simp add: queued_def)
  with k show ?thesis by (cases q) auto
qed

lemma queued_leave:
  assumes "queued g pc q" and "owns (pc t)" and "ticket_of pc' = None"
  shows "queued (pack (freed g + 1) (order g)) (pc(t := pc')) (tl q)"
proof -
  obtain us where q: "q = t # us" using assms(1,2) by (cases q) (auto simp: queued_def)
  have sole: "u = t" if "owns (pc u)" for u
    using assms(1) that unfolding queued_def q by (metis list.sel(1))
  have free: "\<not> owns ((pc(t := pc')) u)" for u
    using sole [of u] owns_ticket [of pc'] assms(3) by (cases "u = t") auto
  have "ticket_of ((pc(t := pc')) (us ! k)) = Some (freed g + 1 + of_nat k)" if "k < length us" for k
  proof -
    have "ticket_of (pc (q ! Suc k)) = Some (freed g + of_nat (Suc k))"
      using assms(1) that q unfolding queued_def by (auto simp del: of_nat_Suc)
    moreover have "us ! k \<noteq> t" using assms(1) that nth_mem unfolding q queued_def by fastforce
    ultimately show ?thesis by (simp add: q algebra_simps)
  qed
  moreover have "distinct us" "length us < 65536" "order g = freed g + 1 + of_nat (length us)"
    using assms(1) unfolding q queued_def by (simp_all add: algebra_simps)
  moreover have "set us = {u. ticket_of ((pc(t := pc')) u) \<noteq> None}"
  proof -
    have "insert t (set us) = {u. ticket_of (pc u) \<noteq> None}" "t \<notin> set us"
      using assms(1) unfolding q queued_def by simp_all
    then show ?thesis using assms(3) by (auto split: if_splits)
  qed
  ultimately show ?thesis unfolding queued_def q using free by simp
qed

section \<open>The invariant\<close>

lemma mutex_access_inv:
  assumes inv: "mutex_inv T ea S q" and t: "t \<in> T" and T: "finite T" "card T < 65536"
    and r: "mutex_step ea (ms_pc S t) (ms_mem S) = (pc', m')"
  shows "\<exists>q'. mutex_inv T ea \<lparr>ms_pc = (ms_pc S)(t := pc'), ms_mem = m'\<rparr> q'"
proof -
  let ?g = "mutex_word ea (ms_mem S)"
  have q: "queued ?g (ms_pc S) q" and ea: "ea \<noteq> 0" and sub: "set q \<subseteq> T"
    using inv by (simp_all add: mutex_inv_def)
  have same: "?thesis" if "m' = ms_mem S" "ticket_of pc' = ticket_of (ms_pc S t)" "owns pc' \<Longrightarrow> owns (ms_pc S t)"
    using queued_same [OF q that(2,3)] ea sub that(1) by (auto simp: mutex_inv_def)
  have join: "?thesis" if "ticket_of (ms_pc S t) = None" "ticket_of pc' = Some (order ?g)"
    "owns pc' \<Longrightarrow> q = []" "mutex_word ea m' = pack (freed ?g) (order ?g + 1)"
  proof -
    have "t \<notin> set q" using q that(1) by (auto simp: queued_def)
    moreover have "distinct q" using q by (simp add: queued_def)
    ultimately have "card (insert t (set q)) = Suc (length q)" by (simp add: distinct_card)
    then have "Suc (length q) < 65536" using card_mono [of T "insert t (set q)"] T t sub by auto
    from queued_join [OF q that(1-3) this] that(4) show ?thesis
      using ea sub t by (auto simp: mutex_inv_def intro!: exI [of _ "q @ [t]"])
  qed
  show ?thesis
  proof (cases "ms_pc S t")
    case (Lock_CAS raw)
    obtain ok m1 where c: "sync_cas ea raw (sync_bswap32 (pack (freed (sync_bswap32 raw)) (order (sync_bswap32 raw) + 1))) (ms_mem S) = (ok, m1)"
      by fastforce
    show ?thesis
    proof (cases ok)
      case True
      then have w: "mutex_word ea m1 = pack (freed ?g) (order ?g + 1)" "pc' = Lock_Wait (order ?g)" "m' = m1"
        using r c sync_cas_word(1) [OF c] by (auto simp: Lock_CAS lock_next_pack)
      show ?thesis by (rule join) (simp_all add: Lock_CAS w)
    next
      case False
      then have "m' = ms_mem S" "pc' = Lock_Load"
        using r c sync_cas_word(2) [OF c] by (auto simp: Lock_CAS lock_next_pack)
      then show ?thesis by (intro same) (simp_all add: Lock_CAS)
    qed
  next
    case (Lock_Wait k)
    show ?thesis
    proof (cases "freed ?g = k")
      case True
      then have "pc' = Held k" "m' = ms_mem S"
        using r by (auto simp: Lock_Wait freed_def mutex_word_def Let_def split: if_splits)
      moreover have "q \<noteq> [] \<and> t = hd q"
        using queued_owner [OF q, of t] by (simp add: Lock_Wait True)
      moreover have tk: "ticket_of (((ms_pc S)(t := Held k)) u) = ticket_of (ms_pc S u)" for u by (simp add: Lock_Wait)
      ultimately have "queued (mutex_word ea m') ((ms_pc S)(t := pc')) q"
        using q unfolding queued_def by (simp only: tk) (metis fun_upd_apply)
      then show ?thesis using ea sub by (auto simp: mutex_inv_def)
    next
      case False
      then show ?thesis using r same
        by (auto simp: Lock_Wait freed_def mutex_word_def Let_def split: if_splits)
    qed
  next
    case (Try_CAS raw)
    obtain ok m1 where c: "sync_cas ea raw (sync_bswap32 (pack (freed (sync_bswap32 raw)) (order (sync_bswap32 raw) + 1))) (ms_mem S) = (ok, m1)"
      by fastforce
    show ?thesis
    proof (cases "freed (sync_bswap32 raw) = order (sync_bswap32 raw) \<and> ok")
      case True
      then have w: "?g = sync_bswap32 raw" "mutex_word ea m1 = pack (freed ?g) (order ?g + 1)"
        "pc' = Held (order ?g)" "m' = m1"
        using r c sync_cas_word(1) [OF c] by (auto simp: Try_CAS trylock_next_pack order_def)
      then have "(of_nat (length q) :: u16) = 0" using q True by (simp add: queued_def)
      then have "q = []" using q of_nat_u16_0 [of "length q"] by (simp add: queued_def)
      then show ?thesis using join w by (simp add: Try_CAS)
    next
      case False
      then show ?thesis using r c same sync_cas_word(2) [OF c]
        by (auto simp: Try_CAS trylock_next_pack split: if_splits)
    qed
  next
    case (Unlock_CAS k raw)
    obtain ok m1 where c: "sync_cas ea raw (sync_bswap32 (unlock_next (sync_bswap32 raw))) (ms_mem S) = (ok, m1)"
      by fastforce
    show ?thesis
    proof (cases ok)
      case True
      then have w: "mutex_word ea m1 = pack (freed ?g + 1) (order ?g)" "pc' = Out CELL_OK" "m' = m1"
        using r c sync_cas_word(1) [OF c] by (auto simp: Unlock_CAS unlock_next_pack)
      have "queued (mutex_word ea m1) ((ms_pc S)(t := pc')) (tl q)"
        unfolding w(1) by (rule queued_leave [OF q]) (simp_all add: Unlock_CAS w(2))
      moreover have "set (tl q) \<subseteq> T" using sub by (cases q) auto
      ultimately show ?thesis using ea w(3) by (auto simp: mutex_inv_def intro!: exI [of _ "tl q"])
    next
      case False
      then show ?thesis using r c same sync_cas_word(2) [OF c] by (auto simp: Unlock_CAS)
    qed
  next
    case Try_Load
    then show ?thesis using r same by (auto simp: Let_def split: option.splits)
  qed (use r same in auto)
qed

lemma mutex_trans_inv:
  assumes "finite T" "card T < 65536" and "mutex_trans T ea S S'" and "mutex_inv T ea S q"
  shows "\<exists>q'. mutex_inv T ea S' q'"
  using assms(3)
proof cases
  case (lock t r)
  then show ?thesis using assms(4) queued_same [of "mutex_word ea (ms_mem S)" "ms_pc S" q "cellSyncMutexLock ea" t]
    by (auto simp: mutex_inv_def cellSyncMutexLock_def)
next
  case (trylock t r)
  then show ?thesis using assms(4) queued_same [of "mutex_word ea (ms_mem S)" "ms_pc S" q "cellSyncMutexTryLock ea" t]
    by (auto simp: mutex_inv_def cellSyncMutexTryLock_def)
next
  case (unlock t k)
  then show ?thesis using assms(4) queued_same [of "mutex_word ea (ms_mem S)" "ms_pc S" q "cellSyncMutexUnlock ea k" t]
    by (auto simp: mutex_inv_def cellSyncMutexUnlock_def)
next
  case (access t pc' m')
  then show ?thesis using mutex_access_inv [OF assms(4) _ assms(1,2)] by blast
qed

lemma mutex_reach_inv:
  assumes "mutex_reach T ea S" and "finite T" "card T < 65536"
  shows "\<exists>q. mutex_inv T ea S q"
  using assms(1)
proof induction
  case (start m m')
  have "freed 0 = 0" "order 0 = 0" by (simp_all add: freed_def order_def)
  moreover have "mutex_word ea m' = 0" "ea \<noteq> 0"
    using start by (auto simp: cellSyncMutexInitialize_def mutex_word_def host_load_store32
        sync_bswap32_def sync_codes lv2_codes split: if_splits)
  ultimately show ?case by (auto simp: mutex_inv_def queued_def intro!: exI [of _ "[]"])
next
  case (step S S')
  then show ?case using mutex_trans_inv [OF assms(2,3)] by blast
qed

section \<open>Properties\<close>

text \<open>
  C7. The ticket mutex excludes: over every interleaving of the atomic accesses of fewer than
  65536 threads that lock, try to lock and unlock one mutex, no two threads own it at the same
  time, the wrap-around of the 16-bit counters included.
\<close>

theorem ticket_mutual_exclusion:
  assumes "finite T" "card T < 65536" and "mutex_reach T ea S"
    and "owns (ms_pc S t)" "owns (ms_pc S u)"
  shows "t = u"
proof -
  obtain q where "mutex_inv T ea S q" using mutex_reach_inv [OF assms(3,1,2)] by blast
  then have "\<forall>t. owns (ms_pc S t) \<longrightarrow> t = hd q" by (simp add: mutex_inv_def queued_def)
  then show ?thesis using assms(4,5) by metis
qed

definition mutex_ex :: mutex_sys where
  "mutex_ex = \<lparr>ms_pc = (\<lambda>_. Out CELL_OK)(0 := Held 0), ms_mem = snd (mutex_step 0x100 (Try_CAS 0) (\<lambda>_. 0))\<rparr>"

lemma mutex_ex_reach: "mutex_reach {0, 1} 0x100 mutex_ex"
proof -
  let ?pc = "\<lambda>_ :: nat. Out CELL_OK"
  have m0: "host_store32 (\<lambda>_. 0) 256 0 = (\<lambda>_. 0)" by (auto simp: host_store32_def)
  have l0: "host_load32 (\<lambda>_. 0) 256 = 0" by (simp add: host_load32_def)
  have s0: "sync_bswap32 0 = 0" by (simp add: sync_bswap32_def)
  have "mutex_reach {0, 1} 0x100 \<lparr>ms_pc = ?pc, ms_mem = \<lambda>_. 0\<rparr>"
    by (rule start [of _ "\<lambda>_. 0"]) (simp add: cellSyncMutexInitialize_def vm_to_host_def m0)
  from step [OF this trylock [of 0]]
  have "mutex_reach {0, 1} 0x100 \<lparr>ms_pc = ?pc(0 := Try_Load), ms_mem = \<lambda>_. 0\<rparr>"
    by (simp add: cellSyncMutexTryLock_def)
  from step [OF this access [of 0 _ _ _ "Try_CAS 0" "\<lambda>_. 0"]]
  have "mutex_reach {0, 1} 0x100 \<lparr>ms_pc = ?pc(0 := Try_CAS 0), ms_mem = \<lambda>_. 0\<rparr>"
    by (simp add: vm_to_host_def l0 s0 trylock_next_def)
  from step [OF this access [of 0 _ _ _ "Held 0" "snd (mutex_step 0x100 (Try_CAS 0) (\<lambda>_. 0))"]]
  show ?thesis
    by (simp add: mutex_ex_def vm_to_host_def l0 s0 trylock_next_def sync_cas_def)
qed

theorem ticket_mutual_exclusion_witness: "owns (ms_pc mutex_ex 0) \<and> \<not> owns (ms_pc mutex_ex 1)"
proof -
  have "owns (ms_pc mutex_ex 0)" by (simp add: mutex_ex_def)
  then show ?thesis using ticket_mutual_exclusion [OF _ _ mutex_ex_reach, of 0 1] by auto
qed

text \<open>
  C18. No ticket is lost and tickets are served in order: in every reachable state in which some
  thread has a ticket, exactly one thread has the ticket being served, and it owns the mutex or
  gets it at its next access; and a thread with ticket \<open>k\<close> has exactly \<open>k - freed\<close>
  (16-bit) threads ahead of it.
\<close>

theorem ticket_served_in_order:
  assumes "finite T" "card T < 65536" and "mutex_reach T ea S"
    and "ticket_of (ms_pc S t) = Some k"
  shows "(\<exists>!u. ticket_of (ms_pc S u) = Some (freed (mutex_word ea (ms_mem S)))) \<and>
         (\<forall>u. ticket_of (ms_pc S u) = Some (freed (mutex_word ea (ms_mem S))) \<longrightarrow>
            owns (ms_pc S u) \<or> owns (fst (mutex_step ea (ms_pc S u) (ms_mem S)))) \<and>
         card {u. \<exists>j. ticket_of (ms_pc S u) = Some j \<and>
                      unat (j - freed (mutex_word ea (ms_mem S))) < unat (k - freed (mutex_word ea (ms_mem S)))}
           = unat (k - freed (mutex_word ea (ms_mem S)))"
proof -
  let ?f = "freed (mutex_word ea (ms_mem S))"
  obtain q where q: "queued (mutex_word ea (ms_mem S)) (ms_pc S) q"
    using mutex_reach_inv [OF assms(3,1,2)] unfolding mutex_inv_def by blast
  have tk: "ticket_of (ms_pc S (q ! i)) = Some (?f + of_nat i)" if "i < length q" for i
    using q that by (simp add: queued_def)
  have un: "unat (of_nat i :: u16) = i" if "i < length q" for i
    using q that by (simp add: queued_def unat_of_nat take_bit_nat_eq_self)
  have mem: "u \<in> set q \<longleftrightarrow> ticket_of (ms_pc S u) \<noteq> None" for u using q by (auto simp: queued_def)
  have "t \<in> set q" using mem assms(4) by simp
  then obtain i where i: "i < length q" "q ! i = t" by (auto simp: in_set_conv_nth)
  then have k: "k = ?f + of_nat i" using tk [OF i(1)] assms(4) by simp
  have hd: "ticket_of (ms_pc S u) = Some ?f \<longleftrightarrow> u = hd q" for u
    using queued_owner [OF q, of u] tk [of 0] i(1) by (cases q) auto
  have "owns (ms_pc S u) \<or> owns (fst (mutex_step ea (ms_pc S u) (ms_mem S)))"
    if "ticket_of (ms_pc S u) = Some ?f" for u
    using that by (cases "ms_pc S u") (auto simp: mutex_word_def freed_def Let_def)
  moreover have "{u. \<exists>j. ticket_of (ms_pc S u) = Some j \<and> unat (j - ?f) < unat (k - ?f)} = set (take i q)"
  proof -
    have "u \<in> set (take i q) \<longleftrightarrow> (\<exists>j. ticket_of (ms_pc S u) = Some j \<and> unat (j - ?f) < unat (k - ?f))" for u
    proof
      assume "u \<in> set (take i q)"
      then obtain l where l: "l < i" "l < length q" "u = q ! l" by (auto simp: in_set_conv_nth)
      then show "\<exists>j. ticket_of (ms_pc S u) = Some j \<and> unat (j - ?f) < unat (k - ?f)"
        using tk [OF l(2)] un [OF l(2)] un [OF i(1)] by (simp add: k)
    next
      assume "\<exists>j. ticket_of (ms_pc S u) = Some j \<and> unat (j - ?f) < unat (k - ?f)"
      then obtain j where j: "ticket_of (ms_pc S u) = Some j" "unat (j - ?f) < unat (k - ?f)" by blast
      then obtain l where l: "l < length q" "u = q ! l" using mem [of u] by (auto simp: in_set_conv_nth)
      then have "l < i" using j tk [OF l(1)] un [OF l(1)] un [OF i(1)] by (auto simp: k)
      then show "u \<in> set (take i q)" using l i(1) by (auto simp: in_set_conv_nth)
    qed
    then show ?thesis by blast
  qed
  moreover have "card (set (take i q)) = unat (k - ?f)"
    using q i(1) un [OF i(1)] by (simp add: k queued_def distinct_card)
  ultimately show ?thesis using hd by auto
qed

theorem ticket_served_in_order_witness:
  "card {u. \<exists>j. ticket_of (ms_pc mutex_ex u) = Some j \<and>
      unat (j - freed (mutex_word 0x100 (ms_mem mutex_ex))) < unat (0 - freed (mutex_word 0x100 (ms_mem mutex_ex)))}
   = unat (0 - freed (mutex_word 0x100 (ms_mem mutex_ex)))"
  using ticket_served_in_order [OF _ _ mutex_ex_reach, of 0 0] by (simp add: mutex_ex_def)

end
