(* ===== verification/CellSyncRwm.thy ===== *)
theory CellSyncRwm
  imports CellSyncMutex
begin

unbundle bit_operations_syntax

text \<open>
  The barrier and the reader-writer memory of libs/sync/cellSync.c. Both keep host-endian
  words that only host code touches. Calls are cut at their atomic accesses; the yielding of
  the spin loops is left out.
\<close>

section \<open>Barrier\<close>

text \<open>The words of a barrier: \<open>arrived\<close>, \<open>total\<close> and \<open>phase\<close>, at offsets 0, 4 and 8.\<close>

definition bar_arrived :: "u32 \<Rightarrow> mem \<Rightarrow> u32" where
  "bar_arrived ea m = host_load32 m (vm_to_host ea)"

definition bar_total :: "u32 \<Rightarrow> mem \<Rightarrow> u32" where
  "bar_total ea m = host_load32 m (vm_to_host ea + 4)"

definition bar_phase :: "u32 \<Rightarrow> mem \<Rightarrow> u32" where
  "bar_phase ea m = host_load32 m (vm_to_host ea + 8)"

definition cellSyncBarrierInitialize :: "u32 \<Rightarrow> u16 \<Rightarrow> mem \<Rightarrow> u32 \<times> mem" where
  "cellSyncBarrierInitialize ea totalCount m =
     (if ea = 0 then (CELL_SYNC_ERROR_NULL_POINTER, m)
      else if totalCount = 0 then (CELL_SYNC_ERROR_INVAL, m)
      else let m = host_store32 m (vm_to_host ea) 0;
               m = host_store32 m (vm_to_host ea + 4) (ucast totalCount);
               m = host_store32 m (vm_to_host ea + 8) 0
           in (CELL_OK, m))"

definition cellSyncBarrierNotify :: "u32 \<Rightarrow> mem \<Rightarrow> u32 \<times> mem" where
  "cellSyncBarrierNotify ea m =
     (if ea = 0 then (CELL_SYNC_ERROR_NULL_POINTER, m)
      else let old_arrived = bar_arrived ea m;
               m = host_store32 m (vm_to_host ea) (old_arrived + 1)
           in if old_arrived + 1 \<ge> bar_total ea m
              then let m = host_store32 m (vm_to_host ea) 0
                   in (CELL_OK, host_store32 m (vm_to_host ea + 8) (bar_phase ea m + 1))
              else (CELL_OK, m))"

definition cellSyncBarrierTryNotify :: "u32 \<Rightarrow> mem \<Rightarrow> u32 \<times> mem" where
  "cellSyncBarrierTryNotify ea m = cellSyncBarrierNotify ea m"

text \<open>
  A wait reads the phase once and then again and again; the argument is the memory at each of
  these reads, as other threads leave it, and \<open>None\<close> is a wait still going on at the end.
\<close>

fun barrier_spin :: "u32 \<Rightarrow> u32 \<Rightarrow> mem list \<Rightarrow> u32 option" where
  "barrier_spin ea phase [] = None"
| "barrier_spin ea phase (m # ms) =
     (if bar_phase ea m = phase then barrier_spin ea phase ms else Some CELL_OK)"

fun cellSyncBarrierWait :: "u32 \<Rightarrow> mem list \<Rightarrow> u32 option" where
  "cellSyncBarrierWait ea ms =
     (if ea = 0 then Some CELL_SYNC_ERROR_NULL_POINTER
      else case ms of [] \<Rightarrow> None | m # ms \<Rightarrow> barrier_spin ea (bar_phase ea m) ms)"

definition cellSyncBarrierTryWait :: "u32 \<Rightarrow> mem \<Rightarrow> u32" where
  "cellSyncBarrierTryWait ea m =
     (if ea = 0 then CELL_SYNC_ERROR_NULL_POINTER
      else if bar_arrived ea m \<noteq> 0 then CELL_SYNC_ERROR_BUSY
      else CELL_OK)"

text \<open>The barrier after \<open>j\<close> notifications.\<close>

definition notified :: "u32 \<Rightarrow> nat \<Rightarrow> mem \<Rightarrow> mem" where
  "notified ea j m = ((\<lambda>m. snd (cellSyncBarrierNotify ea m)) ^^ j) m"

lemma barrier_store [simp]:
  "bar_arrived ea (host_store32 m (vm_to_host ea) v) = v"
  "bar_arrived ea (host_store32 m (vm_to_host ea + 4) v) = bar_arrived ea m"
  "bar_arrived ea (host_store32 m (vm_to_host ea + 8) v) = bar_arrived ea m"
  "bar_total ea (host_store32 m (vm_to_host ea) v) = bar_total ea m"
  "bar_total ea (host_store32 m (vm_to_host ea + 4) v) = v"
  "bar_total ea (host_store32 m (vm_to_host ea + 8) v) = bar_total ea m"
  "bar_phase ea (host_store32 m (vm_to_host ea) v) = bar_phase ea m"
  "bar_phase ea (host_store32 m (vm_to_host ea + 4) v) = bar_phase ea m"
  "bar_phase ea (host_store32 m (vm_to_host ea + 8) v) = v"
  by (simp_all add: bar_arrived_def bar_total_def bar_phase_def host_load_store32
      host_load_store32_other)

lemma notify_words:
  assumes "ea \<noteq> 0" and "unat (bar_arrived ea m) < n" and "bar_total ea m = of_nat n" "n < 65536"
  shows "bar_total ea (snd (cellSyncBarrierNotify ea m)) = of_nat n"
    and "unat (bar_arrived ea (snd (cellSyncBarrierNotify ea m))) = (unat (bar_arrived ea m) + 1) mod n"
    and "bar_phase ea (snd (cellSyncBarrierNotify ea m)) =
           bar_phase ea m + (if unat (bar_arrived ea m) + 1 = n then 1 else 0)"
proof -
  have s: "unat (bar_arrived ea m + 1) = unat (bar_arrived ea m) + 1"
    using assms(2,4) by (simp add: unat_word_ariths)
  have n: "unat (of_nat n :: u32) = n" using assms(4) by (simp add: unat_of_nat take_bit_nat_eq_self)
  have last: "bar_arrived ea m + 1 \<ge> of_nat n \<longleftrightarrow> unat (bar_arrived ea m) + 1 = n"
    using assms(2) by (auto simp: word_le_nat_alt s n)
  note d = cellSyncBarrierNotify_def Let_def
  show "bar_total ea (snd (cellSyncBarrierNotify ea m)) = of_nat n"
    using assms(1,3) by (simp add: d)
  show "unat (bar_arrived ea (snd (cellSyncBarrierNotify ea m))) = (unat (bar_arrived ea m) + 1) mod n"
    using assms(1-3) last s by (auto simp: d)
  show "bar_phase ea (snd (cellSyncBarrierNotify ea m)) =
           bar_phase ea m + (if unat (bar_arrived ea m) + 1 = n then 1 else 0)"
    using assms(1,3) last by (simp add: d)
qed

lemma notified_words:
  assumes "ea \<noteq> 0" "n \<noteq> 0" and "cellSyncBarrierInitialize ea n m = (CELL_OK, m0)"
  shows "bar_total ea (notified ea j m0) = of_nat (unat n) \<and>
         unat (bar_arrived ea (notified ea j m0)) = j mod unat n \<and>
         bar_phase ea (notified ea j m0) = of_nat (j div unat n)"
proof (induction j)
  case 0
  have "bar_total ea m0 = ucast n" "bar_arrived ea m0 = 0" "bar_phase ea m0 = 0"
    using assms by (auto simp: cellSyncBarrierInitialize_def Let_def)
  then show ?case by (simp add: notified_def)
next
  case (Suc j)
  have n: "0 < unat n" "unat n < 65536" using assms(2) unsigned_less [of n, where ?'a = nat] by (simp_all add: unat_gt_0)
  have st: "notified ea (Suc j) m0 = snd (cellSyncBarrierNotify ea (notified ea j m0))"
    by (simp add: notified_def)
  note w = notify_words [OF assms(1), of "notified ea j m0" "unat n"]
  have "Suc j mod unat n = (j mod unat n + 1) mod unat n" by (simp add: mod_Suc_eq)
  moreover have "Suc j div unat n = j div unat n + (if j mod unat n + 1 = unat n then 1 else 0)"
    by (simp add: div_Suc mod_Suc)
  ultimately show ?case using w Suc n st by simp
qed



section \<open>Reader-writer memory\<close>

record CellSyncRwm =
  rwm_readers :: int
  rwm_writer :: u32
  rwm_size :: u32
  rwm_buffer :: u32

definition cellSyncRwmInitialize :: "bool \<Rightarrow> u32 \<Rightarrow> u32 \<Rightarrow> CellSyncRwm \<Rightarrow> u32 \<times> CellSyncRwm" where
  "cellSyncRwmInitialize given buffer sz x =
     (if \<not> given \<or> buffer = 0 then (CELL_SYNC_ERROR_NULL_POINTER, x)
      else if sz = 0 then (CELL_SYNC_ERROR_INVAL, x)
      else (CELL_OK, \<lparr>rwm_readers = 0, rwm_writer = 0, rwm_size = sz, rwm_buffer = buffer\<rparr>))"

text \<open>Program counters; \<open>d\<close> is the destination of a read, \<open>s\<close> the source of a write.\<close>

datatype rwm_pc =
    Done u32
  | Read_Wait u32
  | Read_Inc u32
  | Read_Check u32
  | Read_Dec u32
  | Read_Copy u32
  | Read_Leave
  | TryRead_Load u32
  | TryRead_Inc u32
  | TryRead_Check u32
  | TryRead_Dec
  | Write_CAS u32
  | Write_Wait u32
  | Write_Copy u32
  | Write_Release
  | TryWrite_CAS u32
  | TryWrite_Check u32
  | TryWrite_Back

definition cellSyncRwmRead :: "u32 \<Rightarrow> rwm_pc" where
  "cellSyncRwmRead dst = (if dst = 0 then Done CELL_SYNC_ERROR_NULL_POINTER else Read_Wait dst)"

definition cellSyncRwmTryRead :: "u32 \<Rightarrow> rwm_pc" where
  "cellSyncRwmTryRead dst = (if dst = 0 then Done CELL_SYNC_ERROR_NULL_POINTER else TryRead_Load dst)"

definition cellSyncRwmWrite :: "u32 \<Rightarrow> rwm_pc" where
  "cellSyncRwmWrite src = (if src = 0 then Done CELL_SYNC_ERROR_NULL_POINTER else Write_CAS src)"

definition cellSyncRwmTryWrite :: "u32 \<Rightarrow> rwm_pc" where
  "cellSyncRwmTryWrite src = (if src = 0 then Done CELL_SYNC_ERROR_NULL_POINTER else TryWrite_CAS src)"

definition add_readers :: "int \<Rightarrow> CellSyncRwm \<Rightarrow> CellSyncRwm" where
  "add_readers d x = x\<lparr>rwm_readers := s32 (rwm_readers x + d)\<rparr>"

fun rwm_step :: "rwm_pc \<Rightarrow> CellSyncRwm \<times> mem \<Rightarrow> rwm_pc \<times> CellSyncRwm \<times> mem" where
  "rwm_step (Read_Wait d) (x, m) = (if rwm_writer x \<noteq> 0 then Read_Wait d else Read_Inc d, x, m)"
| "rwm_step (Read_Inc d) (x, m) = (Read_Check d, add_readers 1 x, m)"
| "rwm_step (Read_Check d) (x, m) = (if rwm_writer x \<noteq> 0 then Read_Dec d else Read_Copy d, x, m)"
| "rwm_step (Read_Dec d) (x, m) = (Read_Wait d, add_readers (- 1) x, m)"
| "rwm_step (Read_Copy d) (x, m) =
     (Read_Leave, x, move_bytes (vm_to_host d) (vm_to_host (rwm_buffer x)) (unat (rwm_size x)) m)"
| "rwm_step Read_Leave (x, m) = (Done CELL_OK, add_readers (- 1) x, m)"
| "rwm_step (TryRead_Load d) (x, m) =
     (if rwm_writer x \<noteq> 0 then Done CELL_SYNC_ERROR_BUSY else TryRead_Inc d, x, m)"
| "rwm_step (TryRead_Inc d) (x, m) = (TryRead_Check d, add_readers 1 x, m)"
| "rwm_step (TryRead_Check d) (x, m) = (if rwm_writer x \<noteq> 0 then TryRead_Dec else Read_Copy d, x, m)"
| "rwm_step TryRead_Dec (x, m) = (Done CELL_SYNC_ERROR_BUSY, add_readers (- 1) x, m)"
| "rwm_step (Write_CAS s) (x, m) =
     (if rwm_writer x = 0 then (Write_Wait s, x\<lparr>rwm_writer := 1\<rparr>, m) else (Write_CAS s, x, m))"
| "rwm_step (Write_Wait s) (x, m) = (if rwm_readers x > 0 then Write_Wait s else Write_Copy s, x, m)"
| "rwm_step (Write_Copy s) (x, m) =
     (Write_Release, x, move_bytes (vm_to_host (rwm_buffer x)) (vm_to_host s) (unat (rwm_size x)) m)"
| "rwm_step Write_Release (x, m) = (Done CELL_OK, x\<lparr>rwm_writer := 0\<rparr>, m)"
| "rwm_step (TryWrite_CAS s) (x, m) =
     (if rwm_writer x = 0 then (TryWrite_Check s, x\<lparr>rwm_writer := 1\<rparr>, m)
      else (Done CELL_SYNC_ERROR_BUSY, x, m))"
| "rwm_step (TryWrite_Check s) (x, m) = (if rwm_readers x > 0 then TryWrite_Back else Write_Copy s, x, m)"
| "rwm_step TryWrite_Back (x, m) = (Done CELL_SYNC_ERROR_BUSY, x\<lparr>rwm_writer := 0\<rparr>, m)"
| "rwm_step (Done r) (x, m) = (Done r, x, m)"

record rwm_sys =
  rs_pc :: "nat \<Rightarrow> rwm_pc"
  rs_rwm :: CellSyncRwm
  rs_mem :: mem

inductive rwm_trans :: "nat set \<Rightarrow> rwm_sys \<Rightarrow> rwm_sys \<Rightarrow> bool" for T where
  call: "t \<in> T \<Longrightarrow> rs_pc S t = Done r \<Longrightarrow>
    pc \<in> {cellSyncRwmRead a, cellSyncRwmTryRead a, cellSyncRwmWrite a, cellSyncRwmTryWrite a} \<Longrightarrow>
    rwm_trans T S (S\<lparr>rs_pc := (rs_pc S)(t := pc)\<rparr>)"
| access: "t \<in> T \<Longrightarrow> rwm_step (rs_pc S t) (rs_rwm S, rs_mem S) = (pc, x, m) \<Longrightarrow>
    rwm_trans T S \<lparr>rs_pc = (rs_pc S)(t := pc), rs_rwm = x, rs_mem = m\<rparr>"

inductive rwm_reach :: "nat set \<Rightarrow> u32 \<Rightarrow> u32 \<Rightarrow> rwm_sys \<Rightarrow> bool" for T buffer sz where
  start: "cellSyncRwmInitialize True buffer sz x0 = (CELL_OK, x) \<Longrightarrow>
    rwm_reach T buffer sz \<lparr>rs_pc = (\<lambda>_. Done CELL_OK), rs_rwm = x, rs_mem = m\<rparr>"
| step: "rwm_reach T buffer sz S \<Longrightarrow> rwm_trans T S S' \<Longrightarrow> rwm_reach T buffer sz S'"

text \<open>Which threads are in the counter, which in the writer word, and which are copying.\<close>

fun counted :: "rwm_pc \<Rightarrow> bool" where
  "counted (Read_Check d) \<longleftrightarrow> True"
| "counted (Read_Dec d) \<longleftrightarrow> True"
| "counted (Read_Copy d) \<longleftrightarrow> True"
| "counted Read_Leave \<longleftrightarrow> True"
| "counted (TryRead_Check d) \<longleftrightarrow> True"
| "counted TryRead_Dec \<longleftrightarrow> True"
| "counted _ \<longleftrightarrow> False"

fun writing :: "rwm_pc \<Rightarrow> bool" where
  "writing (Write_Wait s) \<longleftrightarrow> True"
| "writing (Write_Copy s) \<longleftrightarrow> True"
| "writing Write_Release \<longleftrightarrow> True"
| "writing (TryWrite_Check s) \<longleftrightarrow> True"
| "writing TryWrite_Back \<longleftrightarrow> True"
| "writing _ \<longleftrightarrow> False"

fun reads_buffer :: "rwm_pc \<Rightarrow> bool" where
  "reads_buffer (Read_Copy d) \<longleftrightarrow> True"
| "reads_buffer _ \<longleftrightarrow> False"

fun writes_buffer :: "rwm_pc \<Rightarrow> bool" where
  "writes_buffer (Write_Copy s) \<longleftrightarrow> True"
| "writes_buffer _ \<longleftrightarrow> False"

definition tally :: "nat set \<Rightarrow> (rwm_pc \<Rightarrow> bool) \<Rightarrow> (nat \<Rightarrow> rwm_pc) \<Rightarrow> nat" where
  "tally T p pc = card {t \<in> T. p (pc t)}"

lemma tally_update:
  assumes "finite T" "t \<in> T"
  shows "tally T p (pc(t := c)) + (if p (pc t) then 1 else 0) = tally T p pc + (if p c then 1 else 0)"
proof -
  have split: "tally T p f = card {u \<in> T - {t}. p (f u)} + (if p (f t) then 1 else 0)" for f
  proof (cases "p (f t)")
    case True
    then have "{u \<in> T. p (f u)} = insert t {u \<in> T - {t}. p (f u)}" using assms(2) by auto
    moreover have "finite {u \<in> T - {t}. p (f u)}" "t \<notin> {u \<in> T - {t}. p (f u)}" using assms(1) by simp_all
    ultimately show ?thesis using True by (simp only: tally_def card_insert_disjoint) simp
  next
    case False
    then have "{u \<in> T. p (f u)} = {u \<in> T - {t}. p (f u)}" by auto
    then show ?thesis using False by (simp only: tally_def) simp
  qed
  have "{u \<in> T - {t}. p ((pc(t := c)) u)} = {u \<in> T - {t}. p (pc u)}" by auto
  then show ?thesis using split [of pc] split [of "pc(t := c)"] by simp
qed

lemma tally_0: "finite T \<Longrightarrow> tally T p pc = 0 \<longleftrightarrow> (\<forall>t \<in> T. \<not> p (pc t))"
  by (auto simp: tally_def)

lemma tally_le: "finite T \<Longrightarrow> tally T p pc \<le> card T"
  by (auto simp: tally_def intro: card_mono)

lemma tally_1:
  assumes "finite T" "tally T p pc \<le> 1" "t \<in> T" "u \<in> T" "p (pc t)" "p (pc u)"
  shows "t = u"
  using card_le_Suc0_iff_eq [of "{t \<in> T. p (pc t)}"] assms by (auto simp: tally_def)

definition rwm_inv :: "nat set \<Rightarrow> rwm_sys \<Rightarrow> bool" where
  "rwm_inv T S \<longleftrightarrow>
     rwm_readers (rs_rwm S) = int (tally T counted (rs_pc S)) \<and>
     rwm_writer (rs_rwm S) = of_nat (tally T writing (rs_pc S)) \<and>
     tally T writing (rs_pc S) \<le> 1 \<and>
     (\<forall>t \<in> T. \<forall>u \<in> T. \<not> (reads_buffer (rs_pc S t) \<and> writes_buffer (rs_pc S u)))"

lemma rwm_step_inv:
  assumes T: "finite T" "card T < 2147483647" and inv: "rwm_inv T S" and t: "t \<in> T"
    and r: "rwm_step (rs_pc S t) (rs_rwm S, rs_mem S) = (pc, x, m)"
  shows "rwm_inv T \<lparr>rs_pc = (rs_pc S)(t := pc), rs_rwm = x, rs_mem = m\<rparr>"
proof -
  let ?c = "tally T counted (rs_pc S)" and ?w = "tally T writing (rs_pc S)"
  have rd: "rwm_readers (rs_rwm S) = int ?c" and wr: "rwm_writer (rs_rwm S) = of_nat ?w" and w1: "?w \<le> 1"
    and ex: "\<And>t u. t \<in> T \<Longrightarrow> u \<in> T \<Longrightarrow> \<not> (reads_buffer (rs_pc S t) \<and> writes_buffer (rs_pc S u))"
    using inv by (auto simp: rwm_inv_def)
  note uc = tally_update [OF T(1) t, of counted "rs_pc S" pc]
    and uw = tally_update [OF T(1) t, of writing "rs_pc S" pc]
  have c_le: "tally T counted p \<le> card T" for p using tally_le [OF T(1)] .
  have w0: "rwm_writer (rs_rwm S) = 0 \<longleftrightarrow> ?w = 0" using w1 unfolding wr by (cases "?w = 0") (auto simp: le_Suc_eq)
  have up: "s32 (int ?c + 1) = int ?c + 1" using c_le [of "rs_pc S"] T(2) by (intro s32_id) (simp add: in_s32_def)
  have down: "s32 (int ?c - 1) = int ?c - 1" using c_le [of "rs_pc S"] T(2) by (intro s32_id) (simp add: in_s32_def)
  have nw: "\<not> writing (rs_pc S u)" if "?w = 0" "u \<in> T" for u using that tally_0 [OF T(1), of writing] by blast
  have nc: "\<not> counted (rs_pc S u)" if "?c = 0" "u \<in> T" for u using that tally_0 [OF T(1), of counted] by blast
  have wbw: "writes_buffer p \<Longrightarrow> writing p" for p by (cases p) simp_all
  have rbc: "reads_buffer p \<Longrightarrow> counted p" for p by (cases p) simp_all
  have ex': "\<forall>a \<in> T. \<forall>b \<in> T. \<not> (reads_buffer (((rs_pc S)(t := pc)) a) \<and> writes_buffer (((rs_pc S)(t := pc)) b))"
    if "reads_buffer pc \<Longrightarrow> ?w = 0" "writes_buffer pc \<Longrightarrow> ?c = 0"
  proof (intro ballI)
    fix a b
    assume ab: "a \<in> T" "b \<in> T"
    have one: "\<not> (reads_buffer pc \<and> writes_buffer pc)" by (cases pc) simp_all
    show "\<not> (reads_buffer (((rs_pc S)(t := pc)) a) \<and> writes_buffer (((rs_pc S)(t := pc)) b))"
      using one ex [OF ab] that nw [OF _ ab(2)] nc [OF _ ab(1)] wbw [of "rs_pc S b"] rbc [of "rs_pc S a"]
      by (cases "a = t"; cases "b = t") auto
  qed
  have fin: ?thesis
    if "rwm_readers x = int (tally T counted ((rs_pc S)(t := pc)))"
      and "rwm_writer x = of_nat (tally T writing ((rs_pc S)(t := pc)))"
      and "tally T writing ((rs_pc S)(t := pc)) \<le> 1"
      and "reads_buffer pc \<Longrightarrow> ?w = 0" "writes_buffer pc \<Longrightarrow> ?c = 0"
    using that ex' by (simp add: rwm_inv_def del: fun_upd_apply)
  have last: "(of_nat k :: u32) = 0" if "Suc k = ?w" for k using that w1 by (cases k) auto
  show ?thesis
  proof (rule fin)
    show "rwm_readers x = int (tally T counted ((rs_pc S)(t := pc)))"
      using r uc rd up down by (cases "rs_pc S t") (auto simp: add_readers_def split: if_splits)
    show "rwm_writer x = of_nat (tally T writing ((rs_pc S)(t := pc)))"
      using r uw wr w0 w1 last by (cases "rs_pc S t") (auto simp: add_readers_def split: if_splits)
    show "tally T writing ((rs_pc S)(t := pc)) \<le> 1"
      using r uw w0 w1 by (cases "rs_pc S t") (auto split: if_splits)
    show "?w = 0" if rb: "reads_buffer pc"
    proof -
      obtain d where "pc = Read_Copy d" using rb by (cases pc) auto
      then show ?thesis using r w0 by (cases "rs_pc S t") (auto split: if_splits)
    qed
    show "?c = 0" if wb: "writes_buffer pc"
    proof -
      obtain s where "pc = Write_Copy s" using wb by (cases pc) auto
      then show ?thesis using r rd by (cases "rs_pc S t") (auto split: if_splits)
    qed
  qed
qed

lemma rwm_trans_inv:
  assumes "finite T" "card T < 2147483647" and "rwm_trans T S S'" and inv: "rwm_inv T S"
  shows "rwm_inv T S'"
  using assms(3)
proof cases
  case (call t r pc a)
  have flags: "\<not> counted pc" "\<not> writing pc" "\<not> reads_buffer pc" "\<not> writes_buffer pc"
    using call(4) by (auto simp: cellSyncRwmRead_def cellSyncRwmTryRead_def cellSyncRwmWrite_def
        cellSyncRwmTryWrite_def split: if_splits)
  have "tally T counted ((rs_pc S)(t := pc)) = tally T counted (rs_pc S)"
    "tally T writing ((rs_pc S)(t := pc)) = tally T writing (rs_pc S)"
    using tally_update [OF assms(1) call(2), of counted "rs_pc S" pc]
      tally_update [OF assms(1) call(2), of writing "rs_pc S" pc] flags call(3) by simp_all
  then show ?thesis using inv flags unfolding call(1) rwm_inv_def by auto
next
  case (access t pc x m)
  then show ?thesis using rwm_step_inv [OF assms(1,2) inv] by blast
qed

lemma rwm_reach_inv:
  "rwm_reach T buffer sz S \<Longrightarrow> finite T \<Longrightarrow> card T < 2147483647 \<Longrightarrow> rwm_inv T S"
proof (induction rule: rwm_reach.induct)
  case (start x0 x m)
  then show ?case by (auto simp: rwm_inv_def tally_def cellSyncRwmInitialize_def lv2_codes sync_codes split: if_splits)
next
  case (step S S')
  then show ?case using rwm_trans_inv by blast
qed


lemma rwm_ex_reach:
  "rwm_reach {0, 1} 0x1000 16 \<lparr>rs_pc = (\<lambda>_. Done CELL_OK),
     rs_rwm = \<lparr>rwm_readers = 0, rwm_writer = 0, rwm_size = 16, rwm_buffer = 0x1000\<rparr>, rs_mem = (\<lambda>_. 0)\<rparr>"
  by (rule rwm_reach.start) (simp add: cellSyncRwmInitialize_def)


end
