(* ===== verification/CellSyncQueue.thy ===== *)
theory CellSyncQueue
  imports CellSyncMutex Fifo "HOL-Library.Sublist"
begin

unbundle bit_operations_syntax

text \<open>
  The bounded queue of libs/sync/cellSync.c, in guest memory with the layout SPU code shares:
  two control words at offsets 0 and 4 (flag of a pop in progress and next slot; flag of a push
  in progress and count), element size at 8, depth at 12, buffer address at 16.

  A call begins with one atomic change of the control words, copies the element, and ends with
  another atomic change. \<open>queue_step\<close> performs one of these; \<open>sq_apply\<close> and
  \<open>sq_and\<close> run under the lock-line lock. What they tell the SPUs' reservations, the
  SYNC_QTRACE log and the yielding of the spin loops are left out.
\<close>

section \<open>Control words\<close>

type_synonym sq_op = "u32 \<Rightarrow> u32 \<Rightarrow> u32 \<Rightarrow> (u32 \<times> u32 \<times> u32) option"

definition sq_push_begin :: sq_op where
  "sq_push_begin x0 x4 depth =
     (let next_slot = x0 AND 0xFFFFFF; pop = drop_bit 24 x0;
          count = x4 AND 0xFFFFFF; push = drop_bit 24 x4
      in if push \<noteq> 0 \<or> count + pop \<ge> depth then None
         else let next' = (if next_slot + 1 \<noteq> depth then next_slot + 1 else 0)
              in Some (push_bit 24 pop OR next', push_bit 24 1 OR (count + 1), next_slot))"

definition sq_pop_begin :: sq_op where
  "sq_pop_begin x0 x4 depth =
     (let next_slot = x0 AND 0xFFFFFF; pop = drop_bit 24 x0;
          count = x4 AND 0xFFFFFF; push = drop_bit 24 x4
      in if pop \<noteq> 0 \<or> count \<le> push then None
         else Some (push_bit 24 1 OR next_slot, push_bit 24 push OR (count - 1),
                    (next_slot + depth - count) mod depth))"

definition sq_peek_begin :: sq_op where
  "sq_peek_begin x0 x4 depth =
     (let next_slot = x0 AND 0xFFFFFF; pop = drop_bit 24 x0;
          count = x4 AND 0xFFFFFF; push = drop_bit 24 x4
      in if pop \<noteq> 0 \<or> count \<le> push then None
         else Some (push_bit 24 1 OR next_slot, x4, (next_slot + depth - count) mod depth))"

definition sq_clear_1 :: sq_op where
  "sq_clear_1 x0 x4 depth = (if drop_bit 24 x0 \<noteq> 0 then None else Some (x0 OR push_bit 24 1, x4, 0))"

definition sq_clear_2 :: sq_op where
  "sq_clear_2 x0 x4 depth = (if drop_bit 24 x4 \<noteq> 0 then None else Some (x0, x4 OR push_bit 24 1, 0))"

definition sq_apply :: "u32 \<Rightarrow> sq_op \<Rightarrow> mem \<Rightarrow> u32 option \<times> mem" where
  "sq_apply q op m =
     (let depth = read_be32 m (q + 0x0C)
      in case op (read_be32 m q) (read_be32 m (q + 4)) depth of
           None \<Rightarrow> (None, m)
         | Some (x0, x4, pos) \<Rightarrow> (Some pos, write_be32 (write_be32 m q x0) (q + 4) x4))"

definition sq_and :: "u32 \<Rightarrow> u32 \<Rightarrow> u32 \<Rightarrow> mem \<Rightarrow> mem" where
  "sq_and q m0 m4 m =
     write_be32 (write_be32 m q (read_be32 m q AND m0)) (q + 4) (read_be32 m (q + 4) AND m4)"

definition sq_elem :: "u32 \<Rightarrow> u32 \<Rightarrow> mem \<Rightarrow> u32" where
  "sq_elem q pos m = ucast (read_be64 m (q + 0x10)) + pos * read_be32 m (q + 0x08)"

section \<open>Calls\<close>

definition cellSyncQueueInitialize :: "u32 \<Rightarrow> u32 \<Rightarrow> u32 \<Rightarrow> u32 \<Rightarrow> mem \<Rightarrow> u32 \<times> mem" where
  "cellSyncQueueInitialize q b sz depth m =
     (if q = 0 then (CELL_SYNC_ERROR_NULL_POINTER, m)
      else if sz \<noteq> 0 \<and> b = 0 then (CELL_SYNC_ERROR_NULL_POINTER, m)
      else if depth = 0 \<or> sz mod 16 \<noteq> 0 then (CELL_SYNC_ERROR_INVAL, m)
      else if q mod 32 \<noteq> 0 \<or> b mod 16 \<noteq> 0 then (CELL_SYNC_ERROR_ALIGN, m)
      else let m = write_be32 m (q + 0x08) sz;
               m = write_be32 m (q + 0x0C) depth;
               m = write_be64 m (q + 0x10) (ucast b);
               m = write_be64 m (q + 0x18) 0;
               m = write_be64 m q 0
           in (CELL_OK, m))"

datatype take_kind = Pop | Peek

text \<open>
  Program counters. The flag says whether the call spins while the queue is busy (push, pop,
  peek) or answers BUSY (try-push, try-pop).
\<close>

datatype queue_pc =
    Ready u32
  | Push_Begin bool u32
  | Push_Copy u32 u32
  | Push_End
  | Take_Begin take_kind bool u32
  | Take_Copy take_kind u32 u32
  | Take_End

definition cellSyncQueuePush :: "u32 \<Rightarrow> u32 \<Rightarrow> queue_pc" where
  "cellSyncQueuePush q d = (if q = 0 \<or> d = 0 then Ready CELL_SYNC_ERROR_NULL_POINTER else Push_Begin True d)"

definition cellSyncQueueTryPush :: "u32 \<Rightarrow> u32 \<Rightarrow> queue_pc" where
  "cellSyncQueueTryPush q d = (if q = 0 \<or> d = 0 then Ready CELL_SYNC_ERROR_NULL_POINTER else Push_Begin False d)"

definition sq_take :: "take_kind \<Rightarrow> bool \<Rightarrow> u32 \<Rightarrow> u32 \<Rightarrow> queue_pc" where
  "sq_take k spin q d =
     (if q = 0 \<or> d = 0 then Ready CELL_SYNC_ERROR_NULL_POINTER else Take_Begin k spin d)"

definition cellSyncQueuePop :: "u32 \<Rightarrow> u32 \<Rightarrow> queue_pc" where
  "cellSyncQueuePop q d = sq_take Pop True q d"

definition cellSyncQueueTryPop :: "u32 \<Rightarrow> u32 \<Rightarrow> queue_pc" where
  "cellSyncQueueTryPop q d = sq_take Pop False q d"

definition cellSyncQueuePeek :: "u32 \<Rightarrow> u32 \<Rightarrow> queue_pc" where
  "cellSyncQueuePeek q d = sq_take Peek True q d"

fun take_op :: "take_kind \<Rightarrow> sq_op" where
  "take_op Pop = sq_pop_begin"
| "take_op Peek = sq_peek_begin"

fun queue_step :: "u32 \<Rightarrow> queue_pc \<Rightarrow> mem \<Rightarrow> queue_pc \<times> mem" where
  "queue_step q (Push_Begin spin d) m =
     (case sq_apply q sq_push_begin m of
        (None, m') \<Rightarrow> (if spin then Push_Begin spin d else Ready CELL_SYNC_ERROR_BUSY, m')
      | (Some pos, m') \<Rightarrow> (Push_Copy d pos, m'))"
| "queue_step q (Push_Copy d pos) m =
     (Push_End, move_bytes (vm_to_host (sq_elem q pos m)) (vm_to_host d) (unat (read_be32 m (q + 8))) m)"
| "queue_step q Push_End m = (Ready CELL_OK, sq_and q 0xFFFFFFFF 0x00FFFFFF m)"
| "queue_step q (Take_Begin k spin d) m =
     (case sq_apply q (take_op k) m of
        (None, m') \<Rightarrow> (if spin then Take_Begin k spin d else Ready CELL_SYNC_ERROR_BUSY, m')
      | (Some pos, m') \<Rightarrow> (Take_Copy k d pos, m'))"
| "queue_step q (Take_Copy k d pos) m =
     (Take_End, move_bytes (vm_to_host d) (vm_to_host (sq_elem q pos m)) (unat (read_be32 m (q + 8))) m)"
| "queue_step q Take_End m = (Ready CELL_OK, sq_and q 0x00FFFFFF 0xFFFFFFFF m)"
| "queue_step q (Ready r) m = (Ready r, m)"

definition cellSyncQueueSize :: "u32 \<Rightarrow> u32 \<Rightarrow> mem \<Rightarrow> u32 \<times> mem" where
  "cellSyncQueueSize q out m =
     (if q = 0 \<or> out = 0 then (CELL_SYNC_ERROR_NULL_POINTER, m)
      else (CELL_OK, host_store32 m (vm_to_host out) (bswap32 (read_be32 m (q + 4) AND 0xFFFFFF))))"

text \<open>
  A clear takes both flags, spinning while another call has them, and then zeroes the control
  words; run alone it needs no fuel beyond the two attempts.
\<close>

definition cellSyncQueueClear :: "u32 \<Rightarrow> mem \<Rightarrow> u32 option \<times> mem" where
  "cellSyncQueueClear q m =
     (if q = 0 then (Some CELL_SYNC_ERROR_NULL_POINTER, m)
      else case sq_apply q sq_clear_1 m of
             (None, m1) \<Rightarrow> (None, m1)
           | (Some _, m1) \<Rightarrow>
               (case sq_apply q sq_clear_2 m1 of
                  (None, m2) \<Rightarrow> (None, m2)
                | (Some _, m2) \<Rightarrow> (Some CELL_OK, sq_and q 0 0 m2)))"

section \<open>Fields of the control words\<close>

lemma mask24: "(0xFFFFFF :: u32) = mask 24"
  by (simp add: mask_eq_exp_minus_1)

definition lo24 :: "u32 \<Rightarrow> nat" where "lo24 x = unat (x AND 0xFFFFFF)"
definition hi8 :: "u32 \<Rightarrow> nat" where "hi8 x = unat (drop_bit 24 x)"

lemma lo24_bound: "lo24 x < 16777216"
proof -
  have "x AND 0xFFFFFF = take_bit 24 x" by (simp add: mask24 take_bit_eq_mask)
  then have "lo24 x = take_bit 24 (unat x)" by (simp add: lo24_def unsigned_take_bit_eq)
  then show ?thesis using take_bit_nat_less_exp [of 24 "unat x"] by simp
qed

lemma low_bits: "unat (w :: u32) < 2 ^ n \<Longrightarrow> bit w k \<Longrightarrow> k < n"
proof -
  assume w: "unat w < 2 ^ n" and b: "bit w k"
  have "take_bit n (unat w) = unat w" using w by (simp add: take_bit_nat_eq_self_iff)
  moreover have "bit (unat w) k" using b by (simp add: bit_unsigned_iff bit_imp_le_length)
  ultimately show "k < n" by (metis bit_take_bit_iff)
qed

lemma pack_fields:
  assumes "unat l < 16777216" and "unat h < 256"
  shows "hi8 (push_bit 24 h OR l) = unat h" and "lo24 (push_bit 24 h OR l) = unat l"
proof -
  have l: "bit l k \<Longrightarrow> k < 24" and h: "bit h k \<Longrightarrow> k < 8" for k
    using assms low_bits [of l 24 k] low_bits [of h 8 k] by auto
  have "drop_bit 24 (push_bit 24 h OR l) = h"
    by (rule bit_word_eqI) (auto simp: bit_simps dest: l h)
  then show "hi8 (push_bit 24 h OR l) = unat h" by (simp add: hi8_def)
  have "(push_bit 24 h OR l) AND 0xFFFFFF = l"
    unfolding mask24 by (rule bit_word_eqI) (auto simp: bit_simps dest: l h)
  then show "lo24 (push_bit 24 h OR l) = unat l" by (simp add: lo24_def)
qed

lemma clear_flag: "hi8 (x AND 0xFFFFFF) = 0" "lo24 (x AND 0xFFFFFF) = lo24 x"
proof -
  have "drop_bit 24 (x AND 0xFFFFFF) = 0" unfolding mask24 by (rule bit_word_eqI) (auto simp: bit_simps)
  then show "hi8 (x AND 0xFFFFFF) = 0" by (simp add: hi8_def)
  show "lo24 (x AND 0xFFFFFF) = lo24 x" by (simp add: lo24_def ac_simps)
qed

lemma hi8_bound: "hi8 x < 256"
proof -
  have "(drop_bit 24 x :: u32) = take_bit 8 (drop_bit 24 x)"
    by (rule bit_word_eqI) (auto simp: bit_simps dest: bit_imp_le_length)
  then have "hi8 x = take_bit 8 (unat (drop_bit 24 x))" unfolding hi8_def by (metis unsigned_take_bit_eq)
  then show ?thesis using take_bit_nat_less_exp [of 8 "unat (drop_bit 24 x)"] by simp
qed

text \<open>The three operations on the fields, for a depth that fits in 24 bits.\<close>

lemma sq_push_begin_Some:
  assumes "sq_push_begin x0 x4 depth = Some (y0, y4, pos)"
    and "unat depth \<le> 16777215" and "lo24 x0 < unat depth"
  shows "hi8 x4 = 0" "lo24 x4 + hi8 x0 < unat depth" "unat pos = lo24 x0"
    "hi8 y0 = hi8 x0" "lo24 y0 = (lo24 x0 + 1) mod unat depth" "hi8 y4 = 1" "lo24 y4 = lo24 x4 + 1"
proof -
  let ?n = "x0 AND 0xFFFFFF" and ?p = "drop_bit 24 x0" and ?c = "x4 AND 0xFFFFFF"
  let ?n' = "if ?n + 1 \<noteq> depth then ?n + 1 else 0"
  have g: "drop_bit 24 x4 = 0" "\<not> ?c + ?p \<ge> depth" and y: "y0 = push_bit 24 ?p OR ?n'"
    "y4 = push_bit 24 1 OR (?c + 1)" "pos = ?n"
    using assms(1) by (auto simp: sq_push_begin_def Let_def split: if_splits)
  have b: "unat ?c < 16777216" "unat ?p < 256" "unat ?n < unat depth"
    using lo24_bound [of x4] hi8_bound [of x0] assms(3) by (simp_all add: lo24_def hi8_def)
  have cp: "unat (?c + ?p) = unat ?c + unat ?p" using b by (subst unat_add_lem [THEN iffD1]) auto
  have n1: "unat (?n + 1) = unat ?n + 1" using b assms(2) by (subst unat_add_lem [THEN iffD1]) auto
  have n': "unat ?n' = (unat ?n + 1) mod unat depth"
    using b n1 by (auto simp: word_unat_eq_iff)
  show "hi8 x4 = 0" using g by (simp add: hi8_def)
  show lt: "lo24 x4 + hi8 x0 < unat depth"
    using g(2) cp by (simp add: lo24_def hi8_def word_le_nat_alt)
  have c1: "unat (?c + 1) = unat ?c + 1" using b by (subst unat_add_lem [THEN iffD1]) auto
  have "unat ?n' < unat depth" unfolding n' using b(3) by (intro mod_less_divisor) simp
  then have "unat ?n' < 16777216" using assms(2) by simp
  then show "hi8 y0 = hi8 x0" "lo24 y0 = (lo24 x0 + 1) mod unat depth"
    unfolding y using pack_fields [of ?n' ?p] b n' by (simp_all add: lo24_def hi8_def)
  have "unat (?c + 1) < 16777216" using lt assms(2) c1 by (simp add: lo24_def)
  then show "hi8 y4 = 1" "lo24 y4 = lo24 x4 + 1"
    unfolding y using pack_fields [of "?c + 1" 1] c1 by (simp_all add: lo24_def)
  show "unat pos = lo24 x0" by (simp add: y lo24_def)
qed

lemma head_pos:
  assumes "unat d \<le> 16777215" "unat n < unat d" "unat c \<le> unat d" "0 < unat c"
  shows "unat ((n + d - c) mod d :: u32) = (unat n + unat d - unat c) mod unat d"
proof -
  have a: "unat (n + d) = unat n + unat d" using assms by (subst unat_add_lem [THEN iffD1]) auto
  have "unat (n + d - c) = unat n + unat d - unat c" using a assms by (subst unat_sub) (auto simp: word_le_nat_alt)
  then show ?thesis by (simp add: unat_mod)
qed

lemma sq_pop_begin_Some:
  assumes "sq_pop_begin x0 x4 depth = Some (y0, y4, pos)"
    and "unat depth \<le> 16777215" and "lo24 x0 < unat depth" and "lo24 x4 \<le> unat depth"
  shows "hi8 x0 = 0" "hi8 x4 < lo24 x4" "unat pos = (lo24 x0 + unat depth - lo24 x4) mod unat depth"
    "hi8 y0 = 1" "lo24 y0 = lo24 x0" "hi8 y4 = hi8 x4" "lo24 y4 = lo24 x4 - 1"
proof -
  let ?n = "x0 AND 0xFFFFFF" and ?c = "x4 AND 0xFFFFFF" and ?u = "drop_bit 24 x4"
  have g: "drop_bit 24 x0 = 0" "\<not> ?c \<le> ?u" and y: "y0 = push_bit 24 1 OR ?n"
    "y4 = push_bit 24 ?u OR (?c - 1)" "pos = (?n + depth - ?c) mod depth"
    using assms(1) by (auto simp: sq_pop_begin_def Let_def split: if_splits)
  have b: "unat ?c < 16777216" "unat ?u < 256" "unat ?n < 16777216"
    using lo24_bound [of x4] hi8_bound [of x4] lo24_bound [of x0] by (simp_all add: lo24_def hi8_def)
  show "hi8 x0 = 0" using g by (simp add: hi8_def)
  show lt: "hi8 x4 < lo24 x4" using g(2) by (simp add: lo24_def hi8_def word_le_nat_alt)
  show "unat pos = (lo24 x0 + unat depth - lo24 x4) mod unat depth"
    unfolding y using head_pos [of depth ?n ?c] assms lt by (simp add: lo24_def)
  show "hi8 y0 = 1" "lo24 y0 = lo24 x0" unfolding y using pack_fields [of ?n 1] b by (simp_all add: lo24_def)
  have c1: "unat (?c - 1) = unat ?c - 1" using lt by (subst unat_sub) (auto simp: lo24_def word_le_nat_alt)
  then show "hi8 y4 = hi8 x4" "lo24 y4 = lo24 x4 - 1"
    unfolding y using pack_fields [of "?c - 1" ?u] b by (simp_all add: lo24_def hi8_def)
qed

lemma sq_peek_begin_Some:
  assumes "sq_peek_begin x0 x4 depth = Some (y0, y4, pos)"
    and "unat depth \<le> 16777215" and "lo24 x0 < unat depth" and "lo24 x4 \<le> unat depth"
  shows "hi8 x0 = 0" "hi8 x4 < lo24 x4" "unat pos = (lo24 x0 + unat depth - lo24 x4) mod unat depth"
    "hi8 y0 = 1" "lo24 y0 = lo24 x0" "y4 = x4"
proof -
  let ?n = "x0 AND 0xFFFFFF" and ?c = "x4 AND 0xFFFFFF" and ?u = "drop_bit 24 x4"
  have g: "drop_bit 24 x0 = 0" "\<not> ?c \<le> ?u" and y: "y0 = push_bit 24 1 OR ?n" "y4 = x4"
    "pos = (?n + depth - ?c) mod depth"
    using assms(1) by (auto simp: sq_peek_begin_def Let_def split: if_splits)
  show "hi8 x0 = 0" using g by (simp add: hi8_def)
  show lt: "hi8 x4 < lo24 x4" using g(2) by (simp add: lo24_def hi8_def word_le_nat_alt)
  show "unat pos = (lo24 x0 + unat depth - lo24 x4) mod unat depth"
    unfolding y using head_pos [of depth ?n ?c] assms lt by (simp add: lo24_def)
  show "hi8 y0 = 1" "lo24 y0 = lo24 x0" "y4 = x4"
    unfolding y using pack_fields [of ?n 1] lo24_bound [of x0] by (simp_all add: lo24_def)
qed

section \<open>Any interleaving of calls\<close>

text \<open>
  Where the queue lies: header, buffer, element size, depth, and the memory each thread owns
  and passes elements from and to.
\<close>

record sq_layout =
  sq_q :: u32
  sq_buf :: u32
  sq_size :: u32
  sq_depth :: u32
  sq_own :: "nat \<Rightarrow> nat set"

definition sq_header :: "sq_layout \<Rightarrow> nat set" where
  "sq_header L = {unat (sq_q L) ..< unat (sq_q L) + 32}"

definition sq_cells :: "sq_layout \<Rightarrow> nat set" where
  "sq_cells L = {unat (sq_buf L) ..< unat (sq_buf L) + unat (sq_depth L) * unat (sq_size L)}"

definition layout_ok :: "sq_layout \<Rightarrow> bool" where
  "layout_ok L \<longleftrightarrow> unat (sq_q L) + 32 \<le> 4294967296 \<and> 0 < unat (sq_depth L) \<and> unat (sq_depth L) \<le> 16777215 \<and>
     unat (sq_buf L) + unat (sq_depth L) * unat (sq_size L) \<le> 4294967296 \<and>
     sq_header L \<inter> sq_cells L = {} \<and>
     (\<forall>t. sq_own L t \<inter> (sq_header L \<union> sq_cells L) = {}) \<and>
     (\<forall>t u. t \<noteq> u \<longrightarrow> sq_own L t \<inter> sq_own L u = {})"

definition owned :: "sq_layout \<Rightarrow> nat \<Rightarrow> u32 \<Rightarrow> bool" where
  "owned L t d \<longleftrightarrow> {unat d ..< unat d + unat (sq_size L)} \<subseteq> sq_own L t"

text \<open>
  Memory, program counters, the elements whose push has begun, and the elements pops have
  delivered, in the order of these events.
\<close>

record sq_state =
  sq_mem :: mem
  sq_pc :: "nat \<Rightarrow> queue_pc"
  sq_sent :: "u8 list list"
  sq_got :: "u8 list list"

fun sent_by :: "sq_layout \<Rightarrow> mem \<Rightarrow> queue_pc \<Rightarrow> queue_pc \<Rightarrow> u8 list list" where
  "sent_by L m (Push_Begin spin d) (Push_Copy d' pos) = [copy_bytes m (unat d) (unat (sq_size L))]"
| "sent_by L m _ _ = []"

fun got_by :: "sq_layout \<Rightarrow> mem \<Rightarrow> queue_pc \<Rightarrow> u8 list list" where
  "got_by L m' (Take_Copy Pop d pos) = [copy_bytes m' (unat d) (unat (sq_size L))]"
| "got_by L m' _ = []"

definition sq_run :: "sq_layout \<Rightarrow> nat \<Rightarrow> sq_state \<Rightarrow> sq_state" where
  "sq_run L t s =
     (let (p', m') = queue_step (sq_q L) (sq_pc s t) (sq_mem s)
      in s\<lparr>sq_mem := m', sq_pc := (sq_pc s)(t := p'),
           sq_sent := sq_sent s @ sent_by L (sq_mem s) (sq_pc s t) p',
           sq_got := sq_got s @ got_by L m' (sq_pc s t)\<rparr>)"

text \<open>
  A thread outside a call may enter one, with an element of its own, or write its own memory;
  a thread inside a call takes its next step.
\<close>

inductive queue_trans :: "sq_layout \<Rightarrow> sq_state \<Rightarrow> sq_state \<Rightarrow> bool" for L where
  enter: "sq_pc s t = Ready r \<Longrightarrow> owned L t d \<Longrightarrow>
     p \<in> {cellSyncQueuePush (sq_q L) d, cellSyncQueueTryPush (sq_q L) d, cellSyncQueuePop (sq_q L) d,
          cellSyncQueueTryPop (sq_q L) d, cellSyncQueuePeek (sq_q L) d} \<Longrightarrow>
     queue_trans L s (s\<lparr>sq_pc := (sq_pc s)(t := p)\<rparr>)"
| own_write: "sq_pc s t = Ready r \<Longrightarrow> (\<forall>a. a \<notin> sq_own L t \<longrightarrow> m' a = sq_mem s a) \<Longrightarrow>
     queue_trans L s (s\<lparr>sq_mem := m'\<rparr>)"
| run: "queue_trans L s (sq_run L t s)"

definition queue_start :: "sq_layout \<Rightarrow> mem \<Rightarrow> sq_state \<Rightarrow> bool" where
  "queue_start L m0 s \<longleftrightarrow>
     cellSyncQueueInitialize (sq_q L) (sq_buf L) (sq_size L) (sq_depth L) m0 = (CELL_OK, sq_mem s) \<and>
     sq_pc s = (\<lambda>t. Ready CELL_OK) \<and> sq_sent s = [] \<and> sq_got s = []"

inductive queue_reach :: "sq_layout \<Rightarrow> sq_state \<Rightarrow> sq_state \<Rightarrow> bool" for L where
  refl: "queue_reach L s s"
| step: "queue_reach L s s' \<Longrightarrow> queue_trans L s' s'' \<Longrightarrow> queue_reach L s s''"

subsection \<open>Invariant\<close>

definition cell :: "sq_layout \<Rightarrow> mem \<Rightarrow> nat \<Rightarrow> u8 list" where
  "cell L m i = copy_bytes m (unat (sq_buf L) + (i mod unat (sq_depth L)) * unat (sq_size L)) (unat (sq_size L))"

definition ctl0 :: "sq_layout \<Rightarrow> mem \<Rightarrow> u32" where "ctl0 L m = read_be32 m (sq_q L)"
definition ctl4 :: "sq_layout \<Rightarrow> mem \<Rightarrow> u32" where "ctl4 L m = read_be32 m (sq_q L + 4)"

definition fixed_ok :: "sq_layout \<Rightarrow> mem \<Rightarrow> bool" where
  "fixed_ok L m \<longleftrightarrow> read_be32 m (sq_q L + 8) = sq_size L \<and> read_be32 m (sq_q L + 0x0C) = sq_depth L \<and>
     ucast (read_be64 m (sq_q L + 0x10)) = sq_buf L"

fun pushing :: "queue_pc \<Rightarrow> bool" where
  "pushing (Push_Copy d pos) = True" | "pushing Push_End = True" | "pushing _ = False"

fun taking :: "queue_pc \<Rightarrow> bool" where
  "taking (Take_Copy k d pos) = True" | "taking Take_End = True" | "taking _ = False"

fun queue_pc_ok :: "sq_layout \<Rightarrow> nat \<Rightarrow> mem \<Rightarrow> u8 list list \<Rightarrow> nat \<Rightarrow> queue_pc \<Rightarrow> bool" where
  "queue_pc_ok L t m sent g (Push_Begin spin d) = owned L t d"
| "queue_pc_ok L t m sent g (Push_Copy d pos) =
     (owned L t d \<and> hi8 (ctl4 L m) = 1 \<and> sent \<noteq> [] \<and> unat pos = (length sent - 1) mod unat (sq_depth L) \<and>
      copy_bytes m (unat d) (unat (sq_size L)) = last sent)"
| "queue_pc_ok L t m sent g Push_End = (hi8 (ctl4 L m) = 1)"
| "queue_pc_ok L t m sent g (Take_Begin k spin d) = owned L t d"
| "queue_pc_ok L t m sent g (Take_Copy k d pos) =
     (owned L t d \<and> hi8 (ctl0 L m) = 1 \<and>
      (k = Pop \<longrightarrow> g + 1 + lo24 (ctl4 L m) = length sent \<and> unat pos = g mod unat (sq_depth L)))"
| "queue_pc_ok L t m sent g Take_End = (hi8 (ctl0 L m) = 1)"
| "queue_pc_ok L t m sent g (Ready r) = True"

definition unique :: "(queue_pc \<Rightarrow> bool) \<Rightarrow> (nat \<Rightarrow> queue_pc) \<Rightarrow> bool" where
  "unique f pc \<longleftrightarrow> (\<forall>t u. f (pc t) \<longrightarrow> f (pc u) \<longrightarrow> t = u)"

definition popping :: "(nat \<Rightarrow> queue_pc) \<Rightarrow> bool" where
  "popping pc \<longleftrightarrow> (\<exists>t d pos. pc t = Take_Copy Pop d pos)"

definition copying :: "(nat \<Rightarrow> queue_pc) \<Rightarrow> bool" where
  "copying pc \<longleftrightarrow> (\<exists>t d pos. pc t = Push_Copy d pos)"

text \<open>
  Element \<open>i\<close> of those sent lies in cell \<open>i\<close> modulo the depth; the count is what is sent and
  not yet claimed by a pop.
\<close>

definition sq_ok :: "sq_layout \<Rightarrow> mem \<Rightarrow> (nat \<Rightarrow> queue_pc) \<Rightarrow> u8 list list \<Rightarrow> u8 list list \<Rightarrow> bool" where
  "sq_ok L m pc sent got \<longleftrightarrow>
     fixed_ok L m \<and> lo24 (ctl0 L m) = length sent mod unat (sq_depth L) \<and>
     length sent \<le> length got + unat (sq_depth L) \<and> got = take (length got) sent \<and>
     hi8 (ctl4 L m) \<le> lo24 (ctl4 L m) \<and>
     (length got + lo24 (ctl4 L m) = length sent \<or> length got + 1 + lo24 (ctl4 L m) = length sent \<and> popping pc) \<and>
     (\<forall>t. queue_pc_ok L t m sent (length got) (pc t)) \<and>
     unique pushing pc \<and> unique taking pc \<and>
     (\<forall>i. length got \<le> i \<longrightarrow> i < length sent \<longrightarrow> cell L m i = sent ! i \<or> i = length sent - 1 \<and> copying pc)"

definition sq_inv :: "sq_layout \<Rightarrow> sq_state \<Rightarrow> bool" where
  "sq_inv L s = sq_ok L (sq_mem s) (sq_pc s) (sq_sent s) (sq_got s)"

subsection \<open>Memory effects\<close>

lemma header_unat:
  assumes "layout_ok L"
  shows "unat (sq_q L + 4) = unat (sq_q L) + 4" "unat (sq_q L + 8) = unat (sq_q L) + 8"
    "unat (sq_q L + 0x0C) = unat (sq_q L) + 12" "unat (sq_q L + 0x10) = unat (sq_q L) + 16"
    "unat (sq_q L + 0x18) = unat (sq_q L) + 24"
  using assms by (auto simp: layout_ok_def unat_add_lem [THEN iffD1])

lemma header_cong:
  assumes L: "layout_ok L" and eq: "\<And>a. a \<in> sq_header L \<Longrightarrow> m' a = m a"
  shows "ctl0 L m' = ctl0 L m" "ctl4 L m' = ctl4 L m" "fixed_ok L m' = fixed_ok L m"
proof -
  have e: "unat (sq_q L) \<le> a \<Longrightarrow> a < unat (sq_q L) + 32 \<Longrightarrow> m' a = m a" for a
    using eq by (simp add: sq_header_def)
  show "ctl0 L m' = ctl0 L m" unfolding ctl0_def by (rule read_be32_cong) (simp add: e)
  show "ctl4 L m' = ctl4 L m" unfolding ctl4_def by (rule read_be32_cong) (simp add: e header_unat [OF L])
  have "read_be32 m' (sq_q L + 8) = read_be32 m (sq_q L + 8)" "read_be32 m' (sq_q L + 0x0C) = read_be32 m (sq_q L + 0x0C)"
    by (rule read_be32_cong, simp add: e header_unat [OF L])+
  moreover have "read_be64 m' (sq_q L + 0x10) = read_be64 m (sq_q L + 0x10)"
    by (rule read_be64_cong) (simp add: e header_unat [OF L])
  ultimately show "fixed_ok L m' = fixed_ok L m" by (simp add: fixed_ok_def)
qed

lemma blocks_apart: "a \<noteq> b \<Longrightarrow> a * n + n \<le> b * n \<or> b * n + n \<le> a * (n :: nat)"
proof -
  have "a * n + n \<le> b * n" if "a < b" for a b using that mult_le_mono1 [of "a + 1" b n] by simp
  then show "a \<noteq> b \<Longrightarrow> ?thesis" by (metis nat_neq_iff)
qed

lemma cell_in_buffer:
  assumes "layout_ok L" and "i < unat (sq_depth L)"
  shows "{unat (sq_buf L) + i * unat (sq_size L) ..< unat (sq_buf L) + i * unat (sq_size L) + unat (sq_size L)} \<subseteq> sq_cells L"
proof -
  have "(i + 1) * unat (sq_size L) \<le> unat (sq_depth L) * unat (sq_size L)" using assms(2) by (intro mult_le_mono1) simp
  then show ?thesis by (auto simp: sq_cells_def)
qed

lemma cells_cong:
  assumes L: "layout_ok L" and eq: "\<And>a. a \<in> sq_cells L \<Longrightarrow> m' a = m a"
  shows "cell L m' i = cell L m i"
proof -
  have "i mod unat (sq_depth L) < unat (sq_depth L)" using L by (simp add: layout_ok_def)
  from cell_in_buffer [OF L this] show ?thesis unfolding cell_def by (intro copy_bytes_frame eq) auto
qed

lemma owned_cong:
  assumes "owned L t d" and "\<And>a. a \<in> sq_own L t \<Longrightarrow> m' a = m a"
  shows "copy_bytes m' (unat d) (unat (sq_size L)) = copy_bytes m (unat d) (unat (sq_size L))"
  using assms by (intro copy_bytes_frame) (auto simp: owned_def)

text \<open>An update of the two control words changes nothing else.\<close>

lemma ctl_update:
  fixes L m x0 x4 defines "m' \<equiv> write_be32 (write_be32 m (sq_q L) x0) (sq_q L + 4) x4"
  assumes L: "layout_ok L"
  shows "ctl0 L m' = x0" "ctl4 L m' = x4" "fixed_ok L m' = fixed_ok L m" "a \<notin> sq_header L \<Longrightarrow> m' a = m a"
proof -
  note u = header_unat [OF L]
  have f: "m' b = m b" if "b < unat (sq_q L) \<or> unat (sq_q L) + 8 \<le> b" for b
    using that unfolding m'_def by (auto simp: write_be32_frame u)
  show "a \<notin> sq_header L \<Longrightarrow> m' a = m a" by (rule f) (auto simp: sq_header_def)
  show "ctl4 L m' = x4" by (simp add: ctl4_def m'_def)
  show "ctl0 L m' = x0" by (simp add: ctl0_def m'_def read_write_be32_other u)
  have "read_be32 m' (sq_q L + 8) = read_be32 m (sq_q L + 8)" "read_be32 m' (sq_q L + 0x0C) = read_be32 m (sq_q L + 0x0C)"
    by (rule read_be32_cong, simp add: f u)+
  moreover have "read_be64 m' (sq_q L + 0x10) = read_be64 m (sq_q L + 0x10)"
    by (rule read_be64_cong) (simp add: f u)
  ultimately show "fixed_ok L m' = fixed_ok L m" by (simp add: fixed_ok_def)
qed

lemma sq_elem_cell:
  assumes L: "layout_ok L" and "fixed_ok L m" and "unat pos = i mod unat (sq_depth L)"
  shows "vm_to_host (sq_elem (sq_q L) pos m) = unat (sq_buf L) + (i mod unat (sq_depth L)) * unat (sq_size L)"
proof -
  have "i mod unat (sq_depth L) < unat (sq_depth L)" using L by (simp add: layout_ok_def)
  then have "unat pos * unat (sq_size L) + unat (sq_size L) \<le> unat (sq_depth L) * unat (sq_size L)"
    using mult_le_mono1 [of "unat pos + 1" "unat (sq_depth L)" "unat (sq_size L)"] assms(3) by (simp add: algebra_simps)
  then have b: "unat (sq_buf L) + unat pos * unat (sq_size L) + unat (sq_size L) \<le> 4294967296"
    using L by (auto simp: layout_ok_def)
  have "unat (sq_elem (sq_q L) pos m) = unat (sq_buf L) + unat pos * unat (sq_size L)" if "0 < unat (sq_size L)"
  proof -
    have "unat (pos * sq_size L) = unat pos * unat (sq_size L)" using b that by (subst unat_mult_lem [THEN iffD1]) auto
    then show ?thesis using assms(2) b that by (simp add: sq_elem_def fixed_ok_def unat_add_lem [THEN iffD1])
  qed
  moreover have "unat (sq_elem (sq_q L) pos m) = unat (sq_buf L)" if "unat (sq_size L) = 0"
    using that assms(2) by (simp add: sq_elem_def fixed_ok_def unat_eq_zero)
  ultimately show ?thesis using assms(3) by (cases "unat (sq_size L) = 0") (simp_all add: vm_to_host_def)
qed

lemma sq_apply_None: "sq_apply q op m = (None, m') \<Longrightarrow> m' = m"
  by (auto simp: sq_apply_def Let_def split: option.splits)

lemma sq_apply_Some:
  assumes "layout_ok L" "fixed_ok L m" "sq_apply (sq_q L) op m = (Some pos, m')"
  obtains "op (ctl0 L m) (ctl4 L m) (sq_depth L) = Some (ctl0 L m', ctl4 L m', pos)" "fixed_ok L m'"
    "\<And>a. a \<notin> sq_header L \<Longrightarrow> m' a = m a"
proof -
  obtain x0 x4 where o: "op (ctl0 L m) (ctl4 L m) (sq_depth L) = Some (x0, x4, pos)"
    and m': "m' = write_be32 (write_be32 m (sq_q L) x0) (sq_q L + 4) x4"
    using assms(2,3) by (auto simp: sq_apply_def Let_def fixed_ok_def ctl0_def ctl4_def split: option.splits)
  note u = ctl_update [OF assms(1), where m = m and ?x0.0 = x0 and ?x4.0 = x4, folded m']
  show thesis by (rule that) (use o u assms(2) in auto)
qed

lemma sq_and_effect:
  assumes "layout_ok L"
  shows "ctl0 L (sq_and (sq_q L) m0 m4 m) = ctl0 L m AND m0" "ctl4 L (sq_and (sq_q L) m0 m4 m) = ctl4 L m AND m4"
    "fixed_ok L (sq_and (sq_q L) m0 m4 m) = fixed_ok L m" "a \<notin> sq_header L \<Longrightarrow> sq_and (sq_q L) m0 m4 m a = m a"
  using ctl_update [OF assms] by (simp_all add: sq_and_def ctl0_def ctl4_def)

lemma copy_moved: "copy_bytes (move_bytes dst src n m) dst n = copy_bytes m src n"
  by (simp add: copy_bytes_def move_bytes_def)

lemma moved_frame: "a \<notin> {dst ..< dst + n} \<Longrightarrow> move_bytes dst src n m a = m a"
  by (auto simp: move_bytes_def)

lemma layout_disjoint:
  assumes "layout_ok L"
  shows "a \<in> sq_header L \<Longrightarrow> a \<notin> sq_cells L" "a \<in> sq_own L t \<Longrightarrow> a \<notin> sq_cells L"
    "a \<in> sq_own L t \<Longrightarrow> a \<notin> sq_header L" "a \<in> sq_own L t \<Longrightarrow> t \<noteq> u \<Longrightarrow> a \<notin> sq_own L u"
  using assms unfolding layout_ok_def by blast+

text \<open>
  What a change of memory leaves of the invariant: the bytes of a thread stay as long as only
  headers, cells and other threads' memory change.
\<close>

lemma queue_pc_cong:
  assumes "\<And>a. a \<in> sq_own L t \<Longrightarrow> m' a = m a" and "ctl0 L m' = ctl0 L m" and "ctl4 L m' = ctl4 L m"
  shows "queue_pc_ok L t m sent g p \<Longrightarrow> queue_pc_ok L t m' sent g p"
  by (cases p) (use assms in \<open>auto simp: owned_cong [where m' = m' and m = m]\<close>)

lemma sq_okI:
  assumes "fixed_ok L m" "lo24 (ctl0 L m) = length sent mod unat (sq_depth L)"
    "length sent \<le> length got + unat (sq_depth L)" "got = take (length got) sent"
    "hi8 (ctl4 L m) \<le> lo24 (ctl4 L m)"
    "length got + lo24 (ctl4 L m) = length sent \<or> length got + 1 + lo24 (ctl4 L m) = length sent \<and> popping pc"
    "\<And>t. queue_pc_ok L t m sent (length got) (pc t)"
    "unique pushing pc" "unique taking pc"
    "\<And>i. length got \<le> i \<Longrightarrow> i < length sent \<Longrightarrow> cell L m i = sent ! i \<or> i = length sent - 1 \<and> copying pc"
  shows "sq_ok L m pc sent got"
  using assms unfolding sq_ok_def by blast

lemma sq_invD:
  assumes "sq_ok L m pc sent got"
  shows "fixed_ok L m" "lo24 (ctl0 L m) = length sent mod unat (sq_depth L)"
    "length sent \<le> length got + unat (sq_depth L)" "got = take (length got) sent"
    "hi8 (ctl4 L m) \<le> lo24 (ctl4 L m)"
    "length got + lo24 (ctl4 L m) = length sent \<or> length got + 1 + lo24 (ctl4 L m) = length sent \<and> popping pc"
    "queue_pc_ok L t m sent (length got) (pc t)"
    "unique pushing pc" "unique taking pc"
    "length got \<le> i \<Longrightarrow> i < length sent \<Longrightarrow> cell L m i = sent ! i \<or> i = length sent - 1 \<and> copying pc"
  using assms unfolding sq_ok_def by blast+

lemma flags_of_pc:
  assumes "sq_ok L m pc sent got"
  shows "pushing (pc t) \<Longrightarrow> hi8 (ctl4 L m) = 1" "taking (pc t) \<Longrightarrow> hi8 (ctl0 L m) = 1"
    "copying pc \<Longrightarrow> hi8 (ctl4 L m) = 1" "popping pc \<Longrightarrow> hi8 (ctl0 L m) = 1"
proof -
  show *: "pushing (pc t) \<Longrightarrow> hi8 (ctl4 L m) = 1" "taking (pc t) \<Longrightarrow> hi8 (ctl0 L m) = 1" for t
    using sq_invD(7) [OF assms, of t] by (cases "pc t"; simp)+
  show "copying pc \<Longrightarrow> hi8 (ctl4 L m) = 1" "popping pc \<Longrightarrow> hi8 (ctl0 L m) = 1"
    unfolding copying_def popping_def by (metis * pushing.simps(1) taking.simps(1))+
qed

lemma uniqueD: "unique f pc \<Longrightarrow> f (pc t) \<Longrightarrow> f (pc u) \<Longrightarrow> t = u"
  by (simp add: unique_def)

lemma unique_upd: "unique f pc \<Longrightarrow> (f p' \<Longrightarrow> f (pc t)) \<Longrightarrow> unique f (pc(t := p'))"
  unfolding unique_def by (metis fun_upd_apply)

lemma unique_new: "(\<And>a. \<not> f (pc a)) \<Longrightarrow> unique f (pc(t := p'))"
  by (simp add: unique_def)

lemma popping_upd: "popping pc \<Longrightarrow> (\<And>d pos. pc t \<noteq> Take_Copy Pop d pos) \<Longrightarrow> popping (pc(t := p'))"
  and copying_upd: "copying pc \<Longrightarrow> (\<And>d pos. pc t \<noteq> Push_Copy d pos) \<Longrightarrow> copying (pc(t := p'))"
  unfolding popping_def copying_def by (metis fun_upd_other)+

subsection \<open>Preservation\<close>

text \<open>Steps that move neither the control words nor the cells nor an element.\<close>

lemma ok_quiet:
  assumes L: "layout_ok L" and I: "sq_ok L m pc sent got"
    and m': "\<And>a. a \<notin> sq_own L t \<Longrightarrow> m' a = m a"
    and pc: "\<And>d pos. pc t \<noteq> Take_Copy Pop d pos" "\<And>d pos. pc t \<noteq> Push_Copy d pos"
    and p': "pushing p' \<Longrightarrow> pushing (pc t)" "taking p' \<Longrightarrow> taking (pc t)" "queue_pc_ok L t m' sent (length got) p'"
  shows "sq_ok L m' (pc(t := p')) sent got"
proof (rule sq_okI)
  note D = sq_invD [OF I]
  have h: "ctl0 L m' = ctl0 L m" "ctl4 L m' = ctl4 L m" "fixed_ok L m' = fixed_ok L m"
    by (rule header_cong [OF L], rule m', use layout_disjoint(3) [OF L] in blast)+
  have c: "cell L m' i = cell L m i" for i
    by (rule cells_cong [OF L], rule m') (use layout_disjoint(2) [OF L] in blast)
  show "queue_pc_ok L u m' sent (length got) ((pc(t := p')) u)" for u
  proof (cases "u = t")
    case False
    have "queue_pc_ok L u m' sent (length got) (pc u)"
      by (rule queue_pc_cong [where m = m]) (use D(7) h m' False layout_disjoint(4) [OF L, of _ u t] in auto)
    then show ?thesis using False by simp
  qed (use p' in simp)
  show "unique pushing (pc(t := p'))" "unique taking (pc(t := p'))"
    using unique_upd [OF D(8) p'(1)] unique_upd [OF D(9) p'(2)] by simp_all
  show "length got + lo24 (ctl4 L m') = length sent \<or> length got + 1 + lo24 (ctl4 L m') = length sent \<and> popping (pc(t := p'))"
    using D(6) h popping_upd [of pc t p'] pc(1) by metis
  show "cell L m' i = sent ! i \<or> i = length sent - 1 \<and> copying (pc(t := p'))" if "length got \<le> i" "i < length sent" for i
    using D(10) [OF that] c copying_upd [of pc t p'] pc(2) by metis
qed (use sq_invD [OF I] header_cong [OF L, of m' m] m' layout_disjoint(3) [OF L] in \<open>(metis | blast)+\<close>)

lemma ok_push_begin:
  assumes L: "layout_ok L" and I: "sq_ok L m pc sent got" and p: "pc t = Push_Begin spin d"
    and step: "sq_apply (sq_q L) sq_push_begin m = (Some pos, m')"
  shows "sq_ok L m' (pc(t := Push_Copy d pos)) (sent @ [copy_bytes m (unat d) (unat (sq_size L))]) got"
    (is "sq_ok L m' ?pc (sent @ [?x]) got")
proof (rule sq_okI)
  note D = sq_invD [OF I]
  let ?D = "unat (sq_depth L)"
  obtain op: "sq_push_begin (ctl0 L m) (ctl4 L m) (sq_depth L) = Some (ctl0 L m', ctl4 L m', pos)"
    and fx: "fixed_ok L m'" and fr: "\<And>a. a \<notin> sq_header L \<Longrightarrow> m' a = m a"
    using sq_apply_Some [OF L D(1) step] by metis
  have d: "0 < ?D" "?D \<le> 16777215" using L by (auto simp: layout_ok_def)
  have "lo24 (ctl0 L m) < ?D" using D(2) d by simp
  note P = sq_push_begin_Some [OF op d(2) this]
  have np: "\<not> pushing (pc u)" for u using flags_of_pc(1) [OF I, of u] P(1) by auto
  have own: "m' a = m a" if "a \<in> sq_own L u" for a u using that fr layout_disjoint(3) [OF L] by blast
  have c: "cell L m' i = cell L m i" for i
    by (rule cells_cong [OF L], rule fr) (use layout_disjoint(1) [OF L] in blast)
  show "fixed_ok L m'" by (rule fx)
  show "lo24 (ctl0 L m') = length (sent @ [?x]) mod ?D" using P(5) D(2) by (simp add: mod_Suc_eq)
  show "got = take (length got) (sent @ [?x])" using D(4,6) by auto
  show "hi8 (ctl4 L m') \<le> lo24 (ctl4 L m')" using P(6,7) by simp
  show "length (sent @ [?x]) \<le> length got + ?D" using D(6) P(2) flags_of_pc(4) [OF I] by auto
  have "popping pc \<Longrightarrow> popping ?pc" by (erule popping_upd) (simp add: p)
  then show "length got + lo24 (ctl4 L m') = length (sent @ [?x]) \<or>
        length got + 1 + lo24 (ctl4 L m') = length (sent @ [?x]) \<and> popping ?pc"
    using D(6) P(7) by auto
  show "queue_pc_ok L u m' (sent @ [?x]) (length got) (?pc u)" for u
  proof (cases "u = t")
    case True
    have "owned L t d" using D(7) [of t] p by simp
    then show ?thesis using True P D(2) owned_cong [of L t d m' m] own by simp
  next
    case False
    then show ?thesis using D(7) [of u] np [of u] P by (cases "pc u") auto
  qed
  show "unique pushing ?pc" using np by (rule unique_new)
  show "unique taking ?pc" by (rule unique_upd [OF D(9)]) simp
  show "cell L m' i = (sent @ [?x]) ! i \<or> i = length (sent @ [?x]) - 1 \<and> copying ?pc"
    if "length got \<le> i" "i < length (sent @ [?x])" for i
  proof (cases "i < length sent")
    case True
    then show ?thesis using D(10) [OF that(1) True] flags_of_pc(3) [OF I] P(1) c by (auto simp: nth_append)
  qed (use that in \<open>auto simp: copying_def\<close>)
qed

lemma ok_push_copy:
  assumes L: "layout_ok L" and I: "sq_ok L m pc sent got" and p: "pc t = Push_Copy d pos"
    and m': "m' = move_bytes (vm_to_host (sq_elem (sq_q L) pos m)) (vm_to_host d) (unat (sq_size L)) m"
  shows "sq_ok L m' (pc(t := Push_End)) sent got" (is "sq_ok L m' ?pc sent got")
proof (rule sq_okI)
  note D = sq_invD [OF I]
  let ?D = "unat (sq_depth L)" and ?k = "length sent - 1"
  have P: "owned L t d" "hi8 (ctl4 L m) = 1" "sent \<noteq> []" "unat pos = ?k mod ?D"
    "copy_bytes m (unat d) (unat (sq_size L)) = last sent" using D(7) [of t] p by auto
  have e: "vm_to_host (sq_elem (sq_q L) pos m) = unat (sq_buf L) + (?k mod ?D) * unat (sq_size L)"
    by (rule sq_elem_cell [OF L D(1) P(4)])
  have d0: "0 < ?D" using L by (simp add: layout_ok_def)
  have fr: "m' a = m a" if "a \<notin> sq_cells L" for a
    unfolding m' e by (rule moved_frame) (use that cell_in_buffer [OF L, of "?k mod ?D"] d0 in auto)
  have h: "ctl0 L m' = ctl0 L m" "ctl4 L m' = ctl4 L m" "fixed_ok L m' = fixed_ok L m"
    by (rule header_cong [OF L], rule fr, use layout_disjoint(1) [OF L] in blast)+
  show "queue_pc_ok L u m' sent (length got) (?pc u)" for u
  proof (cases "u = t")
    case False
    have "queue_pc_ok L u m' sent (length got) (pc u)"
      by (rule queue_pc_cong [where m = m]) (use D(7) h fr layout_disjoint(2) [OF L] in blast)+
    then show ?thesis using False by simp
  qed (use P h in simp)
  show "unique pushing ?pc" by (rule unique_upd [OF D(8)]) (simp add: p)
  show "unique taking ?pc" by (rule unique_upd [OF D(9)]) simp
  have "popping pc \<Longrightarrow> popping ?pc" by (erule popping_upd) (simp add: p)
  then show "length got + lo24 (ctl4 L m') = length sent \<or> length got + 1 + lo24 (ctl4 L m') = length sent \<and> popping ?pc"
    using D(6) h by auto
  have same: "cell L m' ?k = sent ! ?k"
    unfolding cell_def m' e copy_moved using P(3,5) by (simp add: vm_to_host_def last_conv_nth)
  have other: "cell L m' i = cell L m i" if "length got \<le> i" "i < ?k" for i
  proof -
    have "length sent \<le> length got + ?D" by (rule D(3))
    then have "?k - i < ?D" using that d0 by simp
    then have "i mod ?D \<noteq> ?k mod ?D" using that d0 ring_inj [of i 0 ?D "?k - i"] by fastforce
    then have "(i mod ?D) * unat (sq_size L) + unat (sq_size L) \<le> (?k mod ?D) * unat (sq_size L) \<or>
               (?k mod ?D) * unat (sq_size L) + unat (sq_size L) \<le> (i mod ?D) * unat (sq_size L)"
      by (rule blocks_apart)
    then show ?thesis unfolding cell_def m' e by (intro copy_bytes_frame moved_frame) auto
  qed
  show "cell L m' i = sent ! i \<or> i = length sent - 1 \<and> copying ?pc" if "length got \<le> i" "i < length sent" for i
    using D(10) [OF that] same other [OF that(1)] that by (cases "i = ?k") auto
  show "fixed_ok L m'" "lo24 (ctl0 L m') = length sent mod ?D" "hi8 (ctl4 L m') \<le> lo24 (ctl4 L m')"
    using D(1,2,5) h by simp_all
qed (rule sq_invD [OF I])+

lemma mask32: "(x :: u32) AND 0xFFFFFFFF = x"
proof -
  have m: "(0xFFFFFFFF :: u32) = mask 32" by (simp add: mask_eq_exp_minus_1)
  show ?thesis unfolding m by (simp only: take_bit_eq_mask [symmetric]) (simp add: take_bit_word_eq_self)
qed

lemma ok_push_end:
  assumes L: "layout_ok L" and I: "sq_ok L m pc sent got" and p: "pc t = Push_End"
  shows "sq_ok L (sq_and (sq_q L) 0xFFFFFFFF 0x00FFFFFF m) (pc(t := Ready CELL_OK)) sent got"
    (is "sq_ok L ?m ?pc sent got")
proof (rule sq_okI)
  note D = sq_invD [OF I]
  have h: "ctl0 L ?m = ctl0 L m" "ctl4 L ?m = ctl4 L m AND 0xFFFFFF" "fixed_ok L ?m = fixed_ok L m"
    using sq_and_effect [OF L] mask32 by simp_all
  have fr: "a \<notin> sq_header L \<Longrightarrow> ?m a = m a" for a by (rule sq_and_effect(4) [OF L])
  have c: "cell L ?m i = cell L m i" for i
    by (rule cells_cong [OF L], rule fr) (use layout_disjoint(1) [OF L] in blast)
  have np: "u \<noteq> t \<Longrightarrow> \<not> pushing (pc u)" for u using uniqueD [OF D(8), of u t] p by auto
  show "queue_pc_ok L u ?m sent (length got) (?pc u)" for u
    using D(7) [of u] np [of u] by (cases "u = t"; cases "pc u") (auto simp: h clear_flag)
  show "unique pushing ?pc" by (rule unique_upd [OF D(8)]) simp
  show "unique taking ?pc" by (rule unique_upd [OF D(9)]) simp
  have "popping pc \<Longrightarrow> popping ?pc" by (erule popping_upd) (simp add: p)
  then show "length got + lo24 (ctl4 L ?m) = length sent \<or> length got + 1 + lo24 (ctl4 L ?m) = length sent \<and> popping ?pc"
    using D(6) by (auto simp: h clear_flag)
  have "copying pc \<Longrightarrow> copying ?pc" by (erule copying_upd) (simp add: p)
  then show "cell L ?m i = sent ! i \<or> i = length sent - 1 \<and> copying ?pc" if "length got \<le> i" "i < length sent" for i
    using D(10) [OF that] c by auto
  show "fixed_ok L ?m" "lo24 (ctl0 L ?m) = length sent mod unat (sq_depth L)" "hi8 (ctl4 L ?m) \<le> lo24 (ctl4 L ?m)"
    using D(1,2) by (simp_all add: h clear_flag)
qed (rule sq_invD [OF I])+

lemma ok_take_end:
  assumes L: "layout_ok L" and I: "sq_ok L m pc sent got" and p: "pc t = Take_End"
  shows "sq_ok L (sq_and (sq_q L) 0x00FFFFFF 0xFFFFFFFF m) (pc(t := Ready CELL_OK)) sent got"
    (is "sq_ok L ?m ?pc sent got")
proof (rule sq_okI)
  note D = sq_invD [OF I]
  have h: "ctl0 L ?m = ctl0 L m AND 0xFFFFFF" "ctl4 L ?m = ctl4 L m" "fixed_ok L ?m = fixed_ok L m"
    using sq_and_effect [OF L] mask32 by simp_all
  have fr: "a \<notin> sq_header L \<Longrightarrow> ?m a = m a" for a by (rule sq_and_effect(4) [OF L])
  have c: "cell L ?m i = cell L m i" for i
    by (rule cells_cong [OF L], rule fr) (use layout_disjoint(1) [OF L] in blast)
  have own: "copy_bytes ?m (unat d) (unat (sq_size L)) = copy_bytes m (unat d) (unat (sq_size L))" if "owned L u d" for u d
    using that by (rule owned_cong) (use fr layout_disjoint(3) [OF L] in blast)
  have nt: "u \<noteq> t \<Longrightarrow> \<not> taking (pc u)" for u using uniqueD [OF D(9), of u t] p by auto
  show "queue_pc_ok L u ?m sent (length got) (?pc u)" for u
    using D(7) [of u] nt [of u] own by (cases "u = t"; cases "pc u") (auto simp: h clear_flag)
  show "unique pushing ?pc" by (rule unique_upd [OF D(8)]) simp
  show "unique taking ?pc" by (rule unique_upd [OF D(9)]) simp
  have "popping pc \<Longrightarrow> popping ?pc" by (erule popping_upd) (simp add: p)
  then show "length got + lo24 (ctl4 L ?m) = length sent \<or> length got + 1 + lo24 (ctl4 L ?m) = length sent \<and> popping ?pc"
    using D(6) by (auto simp: h)
  have "copying pc \<Longrightarrow> copying ?pc" by (erule copying_upd) (simp add: p)
  then show "cell L ?m i = sent ! i \<or> i = length sent - 1 \<and> copying ?pc" if "length got \<le> i" "i < length sent" for i
    using D(10) [OF that] c by auto
  show "fixed_ok L ?m" "lo24 (ctl0 L ?m) = length sent mod unat (sq_depth L)" "hi8 (ctl4 L ?m) \<le> lo24 (ctl4 L ?m)"
    using D(1,2,5) by (simp_all add: h clear_flag)
qed (rule sq_invD [OF I])+

text \<open>Beginning a pop or a peek finds no other taker; a pop claims the oldest element.\<close>

lemma taker_claims_oldest:
  assumes "g + c = s" and "s \<le> g + D" and "0 < (c::nat)" and "0 < D"
  shows "(s mod D + D - c) mod D = g mod D"
proof -
  have "c \<le> D" using assms by simp
  then have "s mod D + D - c = s mod D + (D - c)" by simp
  then have "(s mod D + D - c) mod D = (s + (D - c)) mod D" by (simp add: mod_add_left_eq)
  also have "s + (D - c) = g + D" using assms(1) \<open>c \<le> D\<close> by simp
  finally show ?thesis by simp
qed

lemma ok_take_begin:
  assumes L: "layout_ok L" and I: "sq_ok L m pc sent got" and p: "pc t = Take_Begin k spin d"
    and step: "sq_apply (sq_q L) (take_op k) m = (Some pos, m')"
  shows "sq_ok L m' (pc(t := Take_Copy k d pos)) sent got" (is "sq_ok L m' ?pc sent got")
proof (rule sq_okI)
  note D = sq_invD [OF I]
  let ?D = "unat (sq_depth L)"
  obtain op: "take_op k (ctl0 L m) (ctl4 L m) (sq_depth L) = Some (ctl0 L m', ctl4 L m', pos)"
    and fx: "fixed_ok L m'" and fr: "\<And>a. a \<notin> sq_header L \<Longrightarrow> m' a = m a"
    using sq_apply_Some [OF L D(1) step] by metis
  have d: "0 < ?D" "?D \<le> 16777215" using L by (auto simp: layout_ok_def)
  have n: "lo24 (ctl0 L m) < ?D" using D(2) d by simp
  have c: "lo24 (ctl4 L m) \<le> ?D" using D(3,6) by auto
  have P: "hi8 (ctl0 L m) = 0" "hi8 (ctl4 L m) < lo24 (ctl4 L m)"
    "unat pos = (lo24 (ctl0 L m) + ?D - lo24 (ctl4 L m)) mod ?D" "hi8 (ctl0 L m') = 1"
    "lo24 (ctl0 L m') = lo24 (ctl0 L m)" "hi8 (ctl4 L m') = hi8 (ctl4 L m)"
    "lo24 (ctl4 L m') = lo24 (ctl4 L m) - (if k = Pop then 1 else 0)"
    using op sq_pop_begin_Some [OF _ d(2) n c] sq_peek_begin_Some [OF _ d(2) n c]
    by (cases k; simp)+
  have nt: "\<not> taking (pc u)" for u using flags_of_pc(2) [OF I, of u] P(1) by auto
  have np: "\<not> popping pc" using flags_of_pc(4) [OF I] P(1) by auto
  have cnt: "length got + lo24 (ctl4 L m) = length sent" using D(6) np by blast
  have own: "copy_bytes m' (unat e) (unat (sq_size L)) = copy_bytes m (unat e) (unat (sq_size L))" if "owned L u e" for u e
    using that by (rule owned_cong) (use fr layout_disjoint(3) [OF L] in blast)
  have cl: "cell L m' i = cell L m i" for i
    by (rule cells_cong [OF L], rule fr) (use layout_disjoint(1) [OF L] in blast)
  have pos: "unat pos = length got mod ?D"
    using taker_claims_oldest [OF cnt D(3) _ d(1)] P(2,3) D(2) by simp
  show "queue_pc_ok L u m' sent (length got) (?pc u)" for u
  proof (cases "u = t")
    case True
    have "owned L t d" using D(7) [of t] p by simp
    then show ?thesis using True P cnt pos by auto
  next
    case False
    then show ?thesis using D(7) [of u] nt [of u] P own by (cases "pc u") auto
  qed
  show "unique taking ?pc" using nt by (rule unique_new)
  show "unique pushing ?pc" by (rule unique_upd [OF D(8)]) simp
  have "k = Pop \<Longrightarrow> popping ?pc" by (auto simp: popping_def)
  then show "length got + lo24 (ctl4 L m') = length sent \<or> length got + 1 + lo24 (ctl4 L m') = length sent \<and> popping ?pc"
    using cnt P(2,7) by (cases k) auto
  have "copying pc \<Longrightarrow> copying ?pc" by (erule copying_upd) (simp add: p)
  then show "cell L m' i = sent ! i \<or> i = length sent - 1 \<and> copying ?pc" if "length got \<le> i" "i < length sent" for i
    using D(10) [OF that] cl by auto
  show "fixed_ok L m'" "lo24 (ctl0 L m') = length sent mod ?D" "hi8 (ctl4 L m') \<le> lo24 (ctl4 L m')"
    using fx D(2) P(2,5,6,7) by (simp_all split: if_splits)
qed (rule sq_invD [OF I])+

lemma ok_pop_copy:
  assumes L: "layout_ok L" and I: "sq_ok L m pc sent got" and p: "pc t = Take_Copy Pop d pos"
    and m': "m' = move_bytes (vm_to_host d) (vm_to_host (sq_elem (sq_q L) pos m)) (unat (sq_size L)) m"
  shows "sq_ok L m' (pc(t := Take_End)) sent (got @ [copy_bytes m' (unat d) (unat (sq_size L))])"
    (is "sq_ok L m' ?pc sent (got @ [?x])")
proof (rule sq_okI)
  note D = sq_invD [OF I]
  let ?D = "unat (sq_depth L)" and ?g = "length got"
  have P: "owned L t d" "hi8 (ctl0 L m) = 1" "?g + 1 + lo24 (ctl4 L m) = length sent" "unat pos = ?g mod ?D"
    using D(7) [of t] p by auto
  have fr: "m' a = m a" if "a \<notin> sq_own L t" for a
    unfolding m' by (rule moved_frame) (use that P(1) in \<open>auto simp: owned_def vm_to_host_def\<close>)
  have h: "ctl0 L m' = ctl0 L m" "ctl4 L m' = ctl4 L m" "fixed_ok L m' = fixed_ok L m"
    by (rule header_cong [OF L], rule fr, use layout_disjoint(3) [OF L] in blast)+
  have cl: "cell L m' i = cell L m i" for i
    by (rule cells_cong [OF L], rule fr) (use layout_disjoint(2) [OF L] in blast)
  have "copying pc \<Longrightarrow> 1 \<le> lo24 (ctl4 L m)" using flags_of_pc(3) [OF I] D(5) by simp
  then have "cell L m ?g = sent ! ?g" using D(10) [of ?g] P(3) by auto
  moreover have "?x = cell L m ?g"
    using sq_elem_cell [OF L D(1) P(4)] by (simp add: m' cell_def copy_moved vm_to_host_def)
  ultimately have x: "?x = sent ! ?g" by simp
  show "got @ [?x] = take (length (got @ [?x])) sent"
    using D(4) P(3) x by (simp add: take_Suc_conv_app_nth)
  have nt: "u \<noteq> t \<Longrightarrow> \<not> taking (pc u)" for u using uniqueD [OF D(9), of u t] p by auto
  show "queue_pc_ok L u m' sent (length (got @ [?x])) (?pc u)" for u
  proof (cases "u = t")
    case False
    have "queue_pc_ok L u m' sent ?g (pc u)"
      by (rule queue_pc_cong [where m = m]) (use D(7) h fr False layout_disjoint(4) [OF L, of _ u t] in auto)
    then show ?thesis using False nt [of u] by (cases "pc u") auto
  qed (use P h in simp)
  show "unique taking ?pc" by (rule unique_upd [OF D(9)]) (simp add: p)
  show "unique pushing ?pc" by (rule unique_upd [OF D(8)]) simp
  show "length (got @ [?x]) + lo24 (ctl4 L m') = length sent \<or>
      length (got @ [?x]) + 1 + lo24 (ctl4 L m') = length sent \<and> popping ?pc" using P(3) h by simp
  have "copying pc \<Longrightarrow> copying ?pc" by (erule copying_upd) (simp add: p)
  then show "cell L m' i = sent ! i \<or> i = length sent - 1 \<and> copying ?pc"
    if "length (got @ [?x]) \<le> i" "i < length sent" for i
    using D(10) [of i] that cl by auto
  show "fixed_ok L m'" "lo24 (ctl0 L m') = length sent mod ?D" "hi8 (ctl4 L m') \<le> lo24 (ctl4 L m')"
    "length sent \<le> length (got @ [?x]) + ?D"
    using D(1,2,3,5) h by simp_all
qed

lemma ok_run:
  assumes L: "layout_ok L" and I: "sq_inv L s"
  shows "sq_inv L (sq_run L t s)"
proof -
  let ?m = "sq_mem s"
  have I': "sq_ok L ?m (sq_pc s) (sq_sent s) (sq_got s)" using I by (simp add: sq_inv_def)
  note D = sq_invD [OF I'] and quiet = ok_quiet [OF L I', where t = t]
  have sz: "read_be32 ?m (sq_q L + 8) = sq_size L" using D(1) by (simp add: fixed_ok_def)
  have ok: "queue_pc_ok L t ?m (sq_sent s) (length (sq_got s)) (sq_pc s t)" by (rule D(7))
  show ?thesis
  proof (cases "sq_pc s t")
    case (Push_Begin spin d)
    obtain r m' where a: "sq_apply (sq_q L) sq_push_begin ?m = (r, m')" by fastforce
    show ?thesis
    proof (cases r)
      case None
      have "sq_ok L ?m ((sq_pc s)(t := if spin then Push_Begin spin d else Ready CELL_SYNC_ERROR_BUSY)) (sq_sent s) (sq_got s)"
        by (rule quiet) (use ok in \<open>auto simp: Push_Begin split: if_splits\<close>)
      moreover have "m' = ?m" using a None by (auto dest: sq_apply_None)
      ultimately show ?thesis using a None Push_Begin by (cases spin) (simp_all add: sq_run_def sq_inv_def)
    next
      case (Some pos)
      then show ?thesis using ok_push_begin [OF L I' Push_Begin] a Push_Begin by (simp add: sq_run_def sq_inv_def)
    qed
  next
    case (Push_Copy d pos)
    then show ?thesis using ok_push_copy [OF L I' Push_Copy] sz by (simp add: sq_run_def sq_inv_def)
  next
    case Push_End
    then show ?thesis using ok_push_end [OF L I' Push_End] by (simp add: sq_run_def sq_inv_def)
  next
    case (Take_Begin k spin d)
    obtain r m' where a: "sq_apply (sq_q L) (take_op k) ?m = (r, m')" by fastforce
    show ?thesis
    proof (cases r)
      case None
      have "sq_ok L ?m ((sq_pc s)(t := if spin then Take_Begin k spin d else Ready CELL_SYNC_ERROR_BUSY)) (sq_sent s) (sq_got s)"
        by (rule quiet) (use ok in \<open>auto simp: Take_Begin split: if_splits\<close>)
      moreover have "m' = ?m" using a None by (auto dest: sq_apply_None)
      ultimately show ?thesis using a None Take_Begin by (cases spin) (simp_all add: sq_run_def sq_inv_def)
    next
      case (Some pos)
      then show ?thesis using ok_take_begin [OF L I' Take_Begin] a Take_Begin by (simp add: sq_run_def sq_inv_def)
    qed
  next
    case (Take_Copy k d pos)
    let ?m' = "move_bytes (vm_to_host d) (vm_to_host (sq_elem (sq_q L) pos ?m)) (unat (sq_size L)) ?m"
    show ?thesis
    proof (cases k)
      case Pop
      then show ?thesis using ok_pop_copy [OF L I'] Take_Copy sz by (simp add: sq_run_def sq_inv_def)
    next
      case Peek
      have "owned L t d" "hi8 (ctl0 L ?m) = 1" using ok Take_Copy by auto
      then have fr: "\<And>a. a \<notin> sq_own L t \<Longrightarrow> ?m' a = ?m a"
        by (intro moved_frame) (auto simp: owned_def vm_to_host_def)
      then have "ctl0 L ?m' = ctl0 L ?m"
        by (intro header_cong(1) [OF L]) (use layout_disjoint(3) [OF L] in blast)
      then have "sq_ok L ?m' ((sq_pc s)(t := Take_End)) (sq_sent s) (sq_got s)"
        by (intro quiet fr) (use \<open>hi8 (ctl0 L ?m) = 1\<close> in \<open>auto simp: Take_Copy Peek\<close>)
      then show ?thesis using Take_Copy Peek sz by (simp add: sq_run_def sq_inv_def)
    qed
  next
    case Take_End
    then show ?thesis using ok_take_end [OF L I' Take_End] by (simp add: sq_run_def sq_inv_def)
  next
    case (Ready r)
    then have "(sq_pc s)(t := Ready r) = sq_pc s" by (simp add: fun_eq_iff)
    then show ?thesis using I Ready by (simp add: sq_run_def sq_inv_def)
  qed
qed

lemma ok_trans:
  assumes L: "layout_ok L" and I: "sq_inv L s" and "queue_trans L s s'"
  shows "sq_inv L s'"
  using assms(3)
proof cases
  case (enter t r d p)
  have I': "sq_ok L (sq_mem s) (sq_pc s) (sq_sent s) (sq_got s)" using I by (simp add: sq_inv_def)
  have "sq_ok L (sq_mem s) ((sq_pc s)(t := p)) (sq_sent s) (sq_got s)"
    by (rule ok_quiet [OF L I', where t = t])
       (use enter in \<open>auto simp: cellSyncQueuePush_def cellSyncQueueTryPush_def cellSyncQueuePop_def
          cellSyncQueueTryPop_def cellSyncQueuePeek_def sq_take_def split: if_splits\<close>)
  then show ?thesis using enter by (simp add: sq_inv_def)
next
  case (own_write t r m')
  have I': "sq_ok L (sq_mem s) (sq_pc s) (sq_sent s) (sq_got s)" using I by (simp add: sq_inv_def)
  have "sq_ok L m' ((sq_pc s)(t := Ready r)) (sq_sent s) (sq_got s)"
    by (rule ok_quiet [OF L I', where t = t]) (use own_write in auto)
  moreover have "(sq_pc s)(t := Ready r) = sq_pc s" using own_write by (simp add: fun_eq_iff)
  ultimately show ?thesis using own_write by (simp add: sq_inv_def)
next
  case (run t)
  then show ?thesis using ok_run [OF L I] by simp
qed

lemma read_zeroed: "read_be32 (write_be64 m a 0) a = 0"
    "unat (a + 4) = unat a + 4 \<Longrightarrow> read_be32 (write_be64 m a 0) (a + 4) = 0"
proof -
  have z: "bswap64 0 = 0" "bswap32 0 = 0" by (simp_all add: bswap64_def bswap32_def)
  show "read_be32 (write_be64 m a 0) a = 0"
    by (simp add: read_be32_def write_be64_def host_store64_def host_load_store32_other host_load_store32 z)
  show "unat (a + 4) = unat a + 4 \<Longrightarrow> read_be32 (write_be64 m a 0) (a + 4) = 0"
    by (simp add: read_be32_def write_be64_def host_store64_def host_load_store32 z vm_to_host_def)
qed

lemma ok_start:
  assumes L: "layout_ok L" and "queue_start L m0 s"
  shows "sq_inv L s"
proof -
  note u = header_unat [OF L]
  define q where "q = sq_q L"
  define m1 where "m1 = write_be64 (write_be64 (write_be32 (write_be32 m0 (q + 8) (sq_size L)) (q + 0x0C) (sq_depth L))
                   (q + 0x10) (ucast (sq_buf L))) (q + 0x18) 0"
  have m: "sq_mem s = write_be64 m1 q 0"
    and r: "sq_pc s = (\<lambda>t. Ready CELL_OK)" "sq_sent s = []" "sq_got s = []"
    using assms(2) by (auto simp: queue_start_def cellSyncQueueInitialize_def Let_def q_def m1_def
        sync_codes CELL_OK_def split: if_splits)
  have z: "ctl0 L (sq_mem s) = 0" "ctl4 L (sq_mem s) = 0"
    using read_zeroed [where m = m1 and a = q] u(1) by (simp_all add: ctl0_def ctl4_def m q_def)
  have "read_be32 (sq_mem s) (q + 8) = read_be32 (write_be32 m0 (q + 8) (sq_size L)) (q + 8)"
    by (rule read_be32_cong) (simp add: m m1_def write_be64_frame write_be32_frame u [folded q_def])
  moreover have "read_be32 (sq_mem s) (q + 0x0C) = read_be32 (write_be32 (write_be32 m0 (q + 8) (sq_size L)) (q + 0x0C) (sq_depth L)) (q + 0x0C)"
    by (rule read_be32_cong) (simp add: m m1_def write_be64_frame u [folded q_def])
  moreover have "read_be64 (sq_mem s) (q + 0x10) = read_be64 (write_be64 (write_be32 (write_be32 m0 (q + 8) (sq_size L)) (q + 0x0C) (sq_depth L))
                   (q + 0x10) (ucast (sq_buf L))) (q + 0x10)"
    by (rule read_be64_cong) (simp add: m m1_def write_be64_frame u [folded q_def])
  moreover have "(ucast (ucast (sq_buf L) :: u64) :: u32) = sq_buf L" by (rule bit_word_eqI) (simp add: bit_simps)
  ultimately have "fixed_ok L (sq_mem s)" by (simp add: fixed_ok_def q_def)
  then show ?thesis unfolding sq_inv_def r
    by (intro sq_okI) (simp_all add: z lo24_def hi8_def unique_def)
qed

lemma reach_inv: "queue_reach L s s' \<Longrightarrow> layout_ok L \<Longrightarrow> sq_inv L s \<Longrightarrow> sq_inv L s'"
  by (induction rule: queue_reach.induct) (auto intro: ok_trans)

text \<open>
  C4. The bounded queue of cellSync is first-in first-out under every interleaving of push,
  try-push, pop, try-pop and peek from any number of threads: what pops have delivered is a
  prefix of what pushes have accepted, byte for byte, and at most depth elements are in the
  queue. The depth must fit in the 24 bits of the control words, and header, buffer and the
  threads' elements must not overlap.
\<close>

theorem sync_queue_fifo:
  assumes "layout_ok L" and "queue_start L m0 s" and "queue_reach L s s'"
  shows "prefix (sq_got s') (sq_sent s') \<and> length (sq_sent s') \<le> length (sq_got s') + unat (sq_depth L)"
proof -
  have "sq_inv L s'" using reach_inv [OF assms(3,1)] ok_start [OF assms(1,2)] by blast
  then have "sq_ok L (sq_mem s') (sq_pc s') (sq_sent s') (sq_got s')" by (simp add: sq_inv_def)
  from sq_invD(3,4) [OF this] show ?thesis by (metis take_is_prefix)
qed

text \<open>A run of two threads: one pushes sixteen bytes, the other pops them.\<close>

definition two_layout :: sq_layout where
  "two_layout = \<lparr>sq_q = 0x20, sq_buf = 0x40, sq_size = 16, sq_depth = 2,
                 sq_own = (\<lambda>t. {0x60 + 16 * t ..< 0x70 + 16 * t})\<rparr>"

definition two_start :: sq_state where
  "two_start = \<lparr>sq_mem = snd (cellSyncQueueInitialize 0x20 0x40 16 2 (\<lambda>a. of_nat a)),
                sq_pc = (\<lambda>t. Ready CELL_OK), sq_sent = [], sq_got = []\<rparr>"

definition two_called :: sq_state where
  "two_called = two_start\<lparr>sq_pc := (\<lambda>t. Ready CELL_OK)(0 := Push_Begin True 0x60, 1 := Take_Begin Pop True 0x70)\<rparr>"

lemma two_layout_ok: "layout_ok two_layout"
  by (auto simp: layout_ok_def two_layout_def sq_header_def sq_cells_def)

lemma two_queue_start: "queue_start two_layout (\<lambda>a. of_nat a) two_start"
  by (simp add: queue_start_def two_layout_def two_start_def cellSyncQueueInitialize_def Let_def)

lemma two_calls: "queue_reach two_layout two_start two_called"
proof -
  let ?s = "two_start\<lparr>sq_pc := (sq_pc two_start)(0 := Push_Begin True 0x60)\<rparr>"
  have "queue_trans two_layout two_start ?s"
    by (rule queue_trans.enter [where d = "0x60"])
       (auto simp: two_start_def two_layout_def owned_def cellSyncQueuePush_def)
  moreover have "queue_trans two_layout ?s (?s\<lparr>sq_pc := (sq_pc ?s)(1 := Take_Begin Pop True 0x70)\<rparr>)"
    by (rule queue_trans.enter [where d = "0x70"])
       (auto simp: two_start_def two_layout_def owned_def cellSyncQueuePop_def sq_take_def)
  ultimately show ?thesis
    by (simp add: two_called_def two_start_def) (meson queue_reach.intros)
qed

lemma reach_runs: "queue_reach L s s' \<Longrightarrow> queue_reach L s (fold (sq_run L) ts s')"
  by (induction ts arbitrary: s') (auto intro: queue_reach.step queue_trans.run)

lemma two_delivered:
  "sq_got (fold (sq_run two_layout) [0, 1, 0, 0, 1, 1] two_called) = [map of_nat [0x60..<0x70]]"
  by code_simp

theorem sync_queue_fifo_witness:
  "prefix (sq_got (fold (sq_run two_layout) [0, 1, 0, 0, 1, 1] two_called))
          (sq_sent (fold (sq_run two_layout) [0, 1, 0, 0, 1, 1] two_called)) \<and>
   sq_got (fold (sq_run two_layout) [0, 1, 0, 0, 1, 1] two_called) = [map of_nat [0x60..<0x70]]"
  using sync_queue_fifo [OF two_layout_ok two_queue_start reach_runs [OF two_calls]] two_delivered by blast

end
