(* ===== verification/CheckedArray.thy ===== *)
theory CheckedArray
  imports Prelude
begin

text \<open>
  Code that works on arrays, with every access checked: a computation gives \<open>Inl\<close> an error or
  \<open>Inr\<close> a result, and an index outside an array is an error. That a piece of code never
  gives that error is its memory safety.
\<close>

section \<open>Computations\<close>

definition andthen :: "'e + 'a \<Rightarrow> ('a \<Rightarrow> 'e + 'b) \<Rightarrow> 'e + 'b" where
  "andthen r f = (case r of Inl e \<Rightarrow> Inl e | Inr x \<Rightarrow> f x)"

fun for_each :: "'i list \<Rightarrow> ('i \<Rightarrow> 's \<Rightarrow> 'e + 's) \<Rightarrow> 's \<Rightarrow> 'e + 's" where
  "for_each [] body s = Inr s"
| "for_each (i # is) body s = andthen (body i s) (for_each is body)"

definition rd_or :: "'e \<Rightarrow> 'a list \<Rightarrow> nat \<Rightarrow> 'e + 'a" where
  "rd_or e xs i = (if i < length xs then Inr (xs ! i) else Inl e)"

definition wr_or :: "'e \<Rightarrow> 'a list \<Rightarrow> nat \<Rightarrow> 'a \<Rightarrow> 'e + 'a list" where
  "wr_or e xs i v = (if i < length xs then Inr (xs[i := v]) else Inl e)"

section \<open>Reasoning about them\<close>

lemma andthen_Inr: "andthen r f = Inr y \<longleftrightarrow> (\<exists>x. r = Inr x \<and> f x = Inr y)"
  by (auto simp: andthen_def split: sum.splits)

lemma andthen_Inl: "andthen r f = Inl e \<longleftrightarrow> r = Inl e \<or> (\<exists>x. r = Inr x \<and> f x = Inl e)"
  by (auto simp: andthen_def split: sum.splits)

lemma rd_Inr: "rd_or e xs i = Inr x \<longleftrightarrow> i < length xs \<and> x = xs ! i"
  by (auto simp: rd_or_def)

lemma wr_Inr: "wr_or e xs i v = Inr ys \<longleftrightarrow> i < length xs \<and> ys = xs[i := v]"
  by (auto simp: wr_or_def)

lemmas res_Inr = andthen_Inr rd_Inr wr_Inr

lemma for_each_append: "for_each (xs @ ys) b s = andthen (for_each xs b s) (for_each ys b)"
  by (induction xs arbitrary: s) (auto simp: andthen_def split: sum.splits)

text \<open>A loop invariant for a counted loop that does not fail.\<close>

lemma for_each_inv:
  assumes "P m s" "m \<le> n" "\<And>i s. m \<le> i \<Longrightarrow> i < n \<Longrightarrow> P i s \<Longrightarrow> \<exists>s'. body i s = Inr s' \<and> P (Suc i) s'"
  shows "\<exists>s'. for_each [m..<n] body s = Inr s' \<and> P n s'"
proof -
  have "\<exists>s'. for_each [m..<m + k] body s = Inr s' \<and> P (m + k) s'" if "m + k \<le> n" for k
    using that
  proof (induction k)
    case (Suc k)
    then obtain s1 where "for_each [m..<m + k] body s = Inr s1" "P (m + k) s1" by auto
    moreover obtain s2 where "body (m + k) s1 = Inr s2" "P (Suc (m + k)) s2"
      using assms(3) [of "m + k" s1] calculation Suc.prems by auto
    ultimately show ?case by (simp add: for_each_append andthen_def)
  qed (use assms(1) in simp)
  from this [of "n - m"] show ?thesis using assms(2) by simp
qed

text \<open>The same for a loop that may also end with one error.\<close>

lemma for_each_inv_or:
  assumes "P m s" "m \<le> n"
    "\<And>i s. m \<le> i \<Longrightarrow> i < n \<Longrightarrow> P i s \<Longrightarrow> body i s = Inl e \<or> (\<exists>s'. body i s = Inr s' \<and> P (Suc i) s')"
  shows "for_each [m..<n] body s = Inl e \<or> (\<exists>s'. for_each [m..<n] body s = Inr s' \<and> P n s')"
proof -
  have "for_each [m..<m + k] body s = Inl e \<or> (\<exists>s'. for_each [m..<m + k] body s = Inr s' \<and> P (m + k) s')"
    if "m + k \<le> n" for k
    using that
  proof (induction k)
    case (Suc k)
    then consider "for_each [m..<m + k] body s = Inl e"
      | s1 where "for_each [m..<m + k] body s = Inr s1" "P (m + k) s1" by auto
    then show ?case
    proof cases
      case 2
      then show ?thesis using assms(3) [of "m + k" s1] Suc.prems by (auto simp: for_each_append andthen_def)
    qed (simp add: for_each_append andthen_def)
  qed (use assms(1) in simp)
  from this [of "n - m"] show ?thesis using assms(2) by simp
qed

end
