(* ===== verification/SpuHuffman.thy ===== *)
theory SpuHuffman
  imports CheckedArray
begin

unbundle bit_operations_syntax

text \<open>
  The bit reader and the Huffman tables of the raw DEFLATE decoder, runtime/spu/spu_inflate.c.

  Every array access of the code is checked here: reading or writing outside an array gives
  the result \<open>Oob\<close>, which no return value of the code stands for, so that memory safety is
  the theorem that \<open>Oob\<close> does not occur. Unsigned counters that stay small are natural
  numbers; \<open>fake\<close>, which grows with the output, wraps at 32 bits.
\<close>

section \<open>Results\<close>

text \<open>\<open>Ok\<close>, \<open>Bad\<close> and \<open>Full\<close> are the return values 0, -1 and -2.\<close>

datatype rc = Ok | Bad | Full | Oob | No_Fuel

abbreviation rd :: "'a list \<Rightarrow> nat \<Rightarrow> rc + 'a" where "rd \<equiv> rd_or Oob"
abbreviation wr :: "'a list \<Rightarrow> nat \<Rightarrow> 'a \<Rightarrow> rc + 'a list" where "wr \<equiv> wr_or Oob"

section \<open>Bits\<close>

definition FAST_BITS :: nat where "FAST_BITS = 10"
definition MAX_BITS :: nat where "MAX_BITS = 15"

text \<open>\<open>bi_in\<close> is the offset of the next byte of the source.\<close>

record bitin =
  bi_in :: nat
  bits :: u64
  nbits :: nat
  fake :: nat

definition refill_byte :: "u8 list \<Rightarrow> bitin \<Rightarrow> bitin" where
  "refill_byte src s =
     (if bi_in s < length src
      then s\<lparr>bits := bits s OR push_bit (nbits s) (ucast (src ! bi_in s)), bi_in := bi_in s + 1,
             nbits := nbits s + 8\<rparr>
      else s\<lparr>fake := (fake s + 8) mod 2 ^ 32, nbits := nbits s + 8\<rparr>)"

function refill :: "u8 list \<Rightarrow> bitin \<Rightarrow> bitin" where
  "refill src s = (if nbits s \<le> 56 then refill src (refill_byte src s) else s)"
  by pat_completeness auto
termination
  by (relation "measure (\<lambda>(src, s). 64 - nbits s)") (auto simp: refill_byte_def)

declare refill.simps [simp del]

definition getbits :: "u8 list \<Rightarrow> nat \<Rightarrow> bitin \<Rightarrow> nat \<times> bitin" where
  "getbits src n s =
     (let s = if nbits s < n then refill src s else s
      in (unat (bits s AND (push_bit n 1 - 1)), s\<lparr>bits := drop_bit n (bits s), nbits := nbits s - n\<rparr>))"

section \<open>Huffman tables\<close>

record huff =
  fast :: "nat list"
  count :: "nat list"
  sym :: "nat list"

definition count_lengths :: "nat list \<Rightarrow> nat \<Rightarrow> rc + nat list" where
  "count_lengths len n =
     for_each [0..<n] (\<lambda>i c. andthen (rd len i) (\<lambda>l. andthen (rd c l) (\<lambda>v. wr c l (v + 1))))
       (replicate (MAX_BITS + 1) 0)"

definition check_lengths :: "nat list \<Rightarrow> rc + int" where
  "check_lengths c =
     for_each [1..<MAX_BITS + 1]
       (\<lambda>l left. andthen (rd c l) (\<lambda>v. let left = left * 2 - int v in if left < 0 then Inl Bad else Inr left)) 1"

definition symbol_offsets :: "nat list \<Rightarrow> rc + nat list" where
  "symbol_offsets c =
     for_each [1..<MAX_BITS + 1]
       (\<lambda>l offs. andthen (rd offs l) (\<lambda>a. andthen (rd c l) (\<lambda>v. wr offs (l + 1) (a + v))))
       (replicate (MAX_BITS + 2) 0)"

definition sort_symbols :: "nat list \<Rightarrow> nat \<Rightarrow> nat list \<Rightarrow> nat list \<Rightarrow> rc + nat list \<times> nat list" where
  "sort_symbols len n offs sm =
     for_each [0..<n]
       (\<lambda>i (offs, sm). andthen (rd len i) (\<lambda>l.
          if l = 0 then Inr (offs, sm)
          else andthen (rd offs l) (\<lambda>o'. andthen (wr sm o' i) (\<lambda>sm. andthen (wr offs l (o' + 1)) (\<lambda>offs.
               Inr (offs, sm)))))) (offs, sm)"

definition reverse_code :: "nat \<Rightarrow> nat \<Rightarrow> nat" where
  "reverse_code code l = fold (\<lambda>b rev. rev OR push_bit (l - 1 - b) (drop_bit b code AND 1)) [0..<l] 0"

function fill_fast :: "nat \<Rightarrow> nat \<Rightarrow> nat \<Rightarrow> nat list \<Rightarrow> rc + nat list" where
  "fill_fast l v j f =
     (if j < 2 ^ FAST_BITS then andthen (wr f j v) (fill_fast l v (j + 2 ^ l)) else Inr f)"
  by pat_completeness auto
termination
  by (relation "measure (\<lambda>(l, v, j, f). 2 ^ FAST_BITS - j)") (auto simp: diff_less_mono2)

declare fill_fast.simps [simp del]

definition fast_code :: "nat list \<Rightarrow> nat \<Rightarrow> nat \<Rightarrow> nat \<times> nat \<times> nat list \<Rightarrow> rc + nat \<times> nat \<times> nat list" where
  "fast_code sm l c st =
     (case st of (code, k, f) \<Rightarrow>
        if l > FAST_BITS then Inr (code + 1, k + 1, f)
        else andthen (rd sm k) (\<lambda>v.
             andthen (fill_fast l (push_bit 9 l OR v) (reverse_code code l) f) (\<lambda>f.
             Inr (code + 1, k + 1, f))))"

definition fast_length :: "nat list \<Rightarrow> nat list \<Rightarrow> nat \<Rightarrow> nat \<times> nat \<times> nat list \<Rightarrow> rc + nat \<times> nat \<times> nat list" where
  "fast_length c sm l st =
     andthen (rd c l) (\<lambda>v. andthen (for_each [0..<v] (fast_code sm l) st) (\<lambda>(code, k, f).
     Inr (push_bit 1 code, k, f)))"

definition build_fast :: "nat list \<Rightarrow> nat list \<Rightarrow> rc + nat \<times> nat \<times> nat list" where
  "build_fast c sm = for_each [1..<MAX_BITS + 1] (fast_length c sm) (0, 0, replicate (2 ^ FAST_BITS) 0)"

text \<open>\<open>build\<close> leaves the symbols of \<open>h\<close> that it does not write as they were.\<close>

definition build :: "huff \<Rightarrow> nat list \<Rightarrow> nat \<Rightarrow> rc + huff" where
  "build h len n =
     andthen (count_lengths len n) (\<lambda>c. let c = c[0 := 0] in
     andthen (check_lengths c) (\<lambda>_.
     andthen (symbol_offsets c) (\<lambda>offs.
     andthen (sort_symbols len n offs (sym h)) (\<lambda>(offs, sm).
     andthen (build_fast c sm) (\<lambda>(code, k, f). Inr \<lparr>fast = f, count = c, sym = sm\<rparr>)))))"

section \<open>Decoding a symbol\<close>

definition take_one :: "bitin \<Rightarrow> bitin" where
  "take_one s = s\<lparr>bits := drop_bit 1 (bits s), nbits := nbits s - 1\<rparr>"

function walk :: "huff \<Rightarrow> nat \<Rightarrow> int \<Rightarrow> int \<Rightarrow> int \<Rightarrow> bitin \<Rightarrow> rc + int \<times> bitin" where
  "walk h l code first index s =
     (if l \<le> MAX_BITS
      then let code = code OR int (unat (bits s AND 1)); s = take_one s
           in andthen (rd (count h) l) (\<lambda>c.
              if code - int c < first
              then if index + (code - first) < 0 then Inl Oob
                   else andthen (rd (sym h) (nat (index + (code - first)))) (\<lambda>v. Inr (int v, s))
              else walk h (l + 1) (push_bit 1 code) (push_bit 1 (first + int c)) (index + int c) s)
      else Inr (-1, s))"
  by pat_completeness auto
termination
  by (relation "measure (\<lambda>(h, l, _). MAX_BITS + 1 - l)") auto

declare walk.simps [simp del]

definition decode :: "u8 list \<Rightarrow> bitin \<Rightarrow> huff \<Rightarrow> rc + int \<times> bitin" where
  "decode src s h =
     (let s = if nbits s < MAX_BITS then refill src s else s
      in andthen (rd (fast h) (unat (bits s AND (push_bit FAST_BITS 1 - 1)))) (\<lambda>e.
         if drop_bit 9 e \<noteq> 0
         then Inr (int (e AND 511), s\<lparr>bits := drop_bit (drop_bit 9 e) (bits s), nbits := nbits s - drop_bit 9 e\<rparr>)
         else walk h 1 0 0 0 s))"

section \<open>Bit accounting\<close>

text \<open>
  \<open>avail\<close> counts the bits of the source not yet consumed, less those consumed beyond its end;
  \<open>debt\<close> is how far the padding exceeds the buffer.
\<close>

definition wf_in :: "u8 list \<Rightarrow> bitin \<Rightarrow> bool" where
  "wf_in src s \<longleftrightarrow> nbits s \<le> 64 \<and> bi_in s \<le> length src"

definition debt :: "bitin \<Rightarrow> int" where "debt s = int (fake s) - int (nbits s)"

definition avail :: "u8 list \<Rightarrow> bitin \<Rightarrow> int" where
  "avail src s = 8 * (int (length src) - int (bi_in s)) - debt s"

definition LIMIT :: int where "LIMIT = 2 ^ 32 - 100"

lemma refill_step_bits:
  assumes "wf_in src s" "debt s \<le> LIMIT" "nbits s \<le> 56"
  shows "wf_in src (refill_byte src s)" "debt (refill_byte src s) \<le> debt s"
    "avail src (refill_byte src s) = avail src s" "nbits (refill_byte src s) = nbits s + 8"
proof -
  have "(fake s + 8) mod 2 ^ 32 = fake s + 8" using assms by (simp add: debt_def LIMIT_def)
  then show "wf_in src (refill_byte src s)" "debt (refill_byte src s) \<le> debt s"
    "avail src (refill_byte src s) = avail src s" "nbits (refill_byte src s) = nbits s + 8"
    using assms by (auto simp: refill_byte_def wf_in_def debt_def avail_def)
qed

lemma refill_bits:
  "wf_in src s \<Longrightarrow> debt s \<le> LIMIT \<Longrightarrow>
   wf_in src (refill src s) \<and> debt (refill src s) \<le> debt s \<and> avail src (refill src s) = avail src s \<and>
   56 < nbits (refill src s)"
proof (induction src s rule: refill.induct)
  case (1 src s)
  show ?case
  proof (cases "nbits s \<le> 56")
    case True
    note b = refill_step_bits [OF 1(2,3) True]
    then have "debt (refill_byte src s) \<le> LIMIT" using 1(3) by simp
    with 1(1) [OF True b(1)] b show ?thesis using True by (subst (1 2 3 4) refill.simps) simp
  qed (use 1 in \<open>simp add: refill.simps [of src s]\<close>)
qed

text \<open>\<open>s'\<close> comes from \<open>s\<close> by consuming at most \<open>k\<close> bits.\<close>

definition spends :: "u8 list \<Rightarrow> nat \<Rightarrow> bitin \<Rightarrow> bitin \<Rightarrow> bool" where
  "spends src k s s' \<longleftrightarrow> (wf_in src s \<longrightarrow> debt s + int k \<le> LIMIT \<longrightarrow>
     wf_in src s' \<and> avail src s' \<le> avail src s \<and> debt s' \<le> debt s + int k)"

lemma spends_refl [simp]: "spends src k s s"
  by (simp add: spends_def)

lemma spends_trans: "spends src j s s' \<Longrightarrow> spends src k s' s'' \<Longrightarrow> j + k \<le> n \<Longrightarrow> spends src n s s''"
  unfolding spends_def by (intro impI) force

lemma spends_mono: "spends src j s s' \<Longrightarrow> j \<le> n \<Longrightarrow> spends src n s s'"
  by (erule spends_trans [where k = 0]) simp_all

lemma getbits_bound: "getbits src n s = (v, s') \<Longrightarrow> v < 2 ^ n"
proof -
  assume g: "getbits src n s = (v, s')"
  define t where "t = (if nbits s < n then refill src s else s)"
  have "push_bit n 1 - 1 = (mask n :: u64)" by (simp add: mask_eq_exp_minus_1 push_bit_eq_mult)
  then have "v = unat (take_bit n (bits t))" using g by (auto simp: getbits_def Let_def take_bit_eq_mask t_def)
  also have "\<dots> = take_bit n (unat (bits t))" by (simp add: unsigned_take_bit_eq)
  finally show "v < 2 ^ n" using take_bit_nat_less_exp by metis
qed

lemma getbits_exact:
  assumes "wf_in src s" "debt s + int n \<le> LIMIT" "n \<le> 57" "getbits src n s = (v, s')"
  shows "wf_in src s'" "avail src s' = avail src s - int n" "debt s' \<le> debt s + int n"
proof -
  define t where "t = (if nbits s < n then refill src s else s)"
  have r: "wf_in src t" "debt t \<le> debt s" "avail src t = avail src s" "n \<le> nbits t"
    using assms refill_bits [OF assms(1)] by (auto simp: not_less t_def)
  have s': "s' = t\<lparr>bits := drop_bit n (bits t), nbits := nbits t - n\<rparr>"
    using assms(4) by (auto simp: getbits_def Let_def t_def)
  show "wf_in src s'" using r by (auto simp: s' wf_in_def)
  show "avail src s' = avail src s - int n" "debt s' \<le> debt s + int n"
    using r by (simp_all add: s' avail_def debt_def of_nat_diff)
qed

lemma getbits_spends: "getbits src n s = (v, s') \<Longrightarrow> n \<le> 57 \<Longrightarrow> spends src n s s'"
  unfolding spends_def using getbits_exact [of src s n v s'] by auto

section \<open>Building a table\<close>

text \<open>
  The canonical code: \<open>first_code c l\<close> is the first code of length \<open>l\<close>, \<open>first_index c l\<close> the
  place of its symbol.
\<close>

fun first_code :: "nat list \<Rightarrow> nat \<Rightarrow> nat" where
  "first_code c 0 = 0"
| "first_code c (Suc l) = (if l = 0 then 0 else 2 * (first_code c l + c ! l))"

definition first_index :: "nat list \<Rightarrow> nat \<Rightarrow> nat" where
  "first_index c l = (\<Sum>k = 1..<l. c ! k)"

lemma first_index_Suc: "0 < l \<Longrightarrow> first_index c (Suc l) = first_index c l + c ! l"
  by (simp add: first_index_def)

lemma first_index_1 [simp]: "first_index c (Suc 0) = 0"
  by (simp add: first_index_def)

lemma first_index_mono: "a \<le> b \<Longrightarrow> first_index c a \<le> first_index c b"
  unfolding first_index_def by (intro sum_mono2) auto

definition num_len :: "nat list \<Rightarrow> nat \<Rightarrow> nat \<Rightarrow> nat" where
  "num_len len n l = card {i. i < n \<and> len ! i = l}"

lemma num_len_0 [simp]: "num_len len 0 l = 0"
  by (simp add: num_len_def)

lemma num_len_Suc: "num_len len (Suc n) l = num_len len n l + (if len ! n = l then 1 else 0)"
proof -
  have "{i. i < Suc n \<and> len ! i = l} = (if len ! n = l then insert n {i. i < n \<and> len ! i = l} else {i. i < n \<and> len ! i = l})"
    by (auto simp: less_Suc_eq)
  then show ?thesis by (simp add: num_len_def)
qed

lemma count_lengths_ok:
  assumes "n \<le> length len" "\<And>i. i < n \<Longrightarrow> len ! i \<le> MAX_BITS"
  shows "\<exists>c. count_lengths len n = Inr c \<and> length c = MAX_BITS + 1 \<and> (\<forall>l\<le>MAX_BITS. c ! l = num_len len n l)"
  unfolding count_lengths_def
proof (rule for_each_inv [where P = "\<lambda>i c. length c = MAX_BITS + 1 \<and> (\<forall>l\<le>MAX_BITS. c ! l = num_len len i l)"], goal_cases)
  case (3 i c)
  then have "i < length len" "len ! i < MAX_BITS + 1" using assms by (auto simp: less_Suc_eq_le)
  then show ?case using 3 by (auto simp: andthen_def rd_or_def wr_or_def num_len_Suc nth_list_update)
qed (simp_all add: MAX_BITS_def nth_replicate del: replicate.simps)

definition kraft :: "nat list \<Rightarrow> bool" where
  "kraft c \<longleftrightarrow> (\<forall>l. 1 \<le> l \<longrightarrow> l \<le> MAX_BITS \<longrightarrow> first_code c l + c ! l \<le> 2 ^ l)"

lemma check_lengths_ok:
  assumes "length c = MAX_BITS + 1"
  shows "check_lengths c = Inl Bad \<or> (\<exists>x. check_lengths c = Inr x \<and> kraft c)"
proof -
  let ?P = "\<lambda>m left. 2 * left = 2 ^ m - int (first_code c m) \<and> (\<forall>l. 1 \<le> l \<longrightarrow> l < m \<longrightarrow> first_code c l + c ! l \<le> 2 ^ l)"
  have "check_lengths c = Inl Bad \<or> (\<exists>x. check_lengths c = Inr x \<and> ?P (MAX_BITS + 1) x)"
    unfolding check_lengths_def
  proof (rule for_each_inv_or [where P = ?P], goal_cases)
    case (3 i left)
    let ?x = "left * 2 - int (c ! i)"
    have "first_code c i + c ! i \<le> 2 ^ i" if "\<not> ?x < 0"
    proof -
      have "int (first_code c i + c ! i) \<le> int (2 ^ i)" using 3 that by simp
      then show ?thesis by (simp only: of_nat_le_iff)
    qed
    then show ?case using 3 assms by (auto simp: andthen_def rd_or_def Let_def less_Suc_eq)
  qed (auto simp: MAX_BITS_def)
  then show ?thesis by (auto simp: kraft_def less_Suc_eq_le)
qed

lemma kraft_checked: "length c = MAX_BITS + 1 \<Longrightarrow> kraft c \<Longrightarrow> \<exists>x. check_lengths c = Inr x"
proof -
  assume c: "length c = MAX_BITS + 1" "kraft c"
  let ?P = "\<lambda>m left. 2 * left = 2 ^ m - int (first_code c m)"
  have "\<exists>x. check_lengths c = Inr x \<and> ?P (MAX_BITS + 1) x"
    unfolding check_lengths_def
  proof (rule for_each_inv [where P = ?P], goal_cases)
    case (3 i left)
    have "int (first_code c i + c ! i) \<le> int (2 ^ i)" using c(2) 3 by (simp only: of_nat_le_iff kraft_def)
    then show ?case using 3 c by (auto simp: andthen_def rd_or_def Let_def)
  qed (auto simp: MAX_BITS_def)
  then show ?thesis by auto
qed

lemma symbol_offsets_ok:
  assumes "length c = MAX_BITS + 1"
  shows "\<exists>offs. symbol_offsets c = Inr offs \<and> length offs = MAX_BITS + 2 \<and>
           (\<forall>l. 1 \<le> l \<longrightarrow> l \<le> MAX_BITS + 1 \<longrightarrow> offs ! l = first_index c l)"
proof -
  let ?P = "\<lambda>m offs. length offs = MAX_BITS + 2 \<and> (\<forall>l. 1 \<le> l \<longrightarrow> l \<le> m \<longrightarrow> offs ! l = first_index c l)"
  show ?thesis unfolding symbol_offsets_def
  proof (rule for_each_inv [where P = ?P], goal_cases)
    case (3 i offs)
    then show ?case using assms
      by (auto simp: andthen_def rd_or_def wr_or_def nth_list_update first_index_Suc le_Suc_eq)
  qed (auto simp: MAX_BITS_def le_Suc_eq simp del: replicate.simps)
qed

lemma first_index_num:
  assumes "\<And>l. 1 \<le> l \<Longrightarrow> l \<le> MAX_BITS \<Longrightarrow> c ! l = num_len len n l"
  shows "m \<le> MAX_BITS + 1 \<Longrightarrow> first_index c m = card {i. i < n \<and> 1 \<le> len ! i \<and> len ! i < m}"
proof (induction m)
  case (Suc m)
  show ?case
  proof (cases "m = 0")
    case False
    have "{i. i < n \<and> 1 \<le> len ! i \<and> len ! i < Suc m} = {i. i < n \<and> 1 \<le> len ! i \<and> len ! i < m} \<union> {i. i < n \<and> len ! i = m}"
      using False by auto
    moreover have "card ({i. i < n \<and> 1 \<le> len ! i \<and> len ! i < m} \<union> {i. i < n \<and> len ! i = m})
        = card {i. i < n \<and> 1 \<le> len ! i \<and> len ! i < m} + card {i. i < n \<and> len ! i = m}"
      by (rule card_Un_disjoint) auto
    ultimately show ?thesis using Suc False assms [of m] by (simp add: first_index_Suc num_len_def)
  qed (auto simp: first_index_def)
qed (simp add: first_index_def)

text \<open>The symbols in use lie below the number of lengths.\<close>

lemma first_index_bound:
  assumes "\<And>l. 1 \<le> l \<Longrightarrow> l \<le> MAX_BITS \<Longrightarrow> c ! l = num_len len n l" "l \<le> MAX_BITS + 1"
  shows "first_index c l \<le> n"
proof -
  have "card {i. i < n \<and> 1 \<le> len ! i \<and> len ! i < l} \<le> card {i. i < n}" by (rule card_mono) auto
  then show ?thesis using first_index_num [OF assms(1) assms(2)] by simp
qed

lemma num_len_mono: "i \<le> n \<Longrightarrow> num_len len i l \<le> num_len len n l"
  unfolding num_len_def by (rule card_mono) auto

lemma first_index_block:
  assumes "first_index c a \<le> k" "k < first_index c a + c ! a" "first_index c b \<le> k" "k < first_index c b + c ! b" "0 < a" "0 < b"
  shows "a = b"
proof -
  have "\<not> a < b" using first_index_mono [of "Suc a" b c] first_index_Suc [of a c] assms by force
  moreover have "\<not> b < a" using first_index_mono [of "Suc b" a c] first_index_Suc [of b c] assms by force
  ultimately show ?thesis by simp
qed

text \<open>The place of symbol \<open>i\<close>: after the shorter codes and the smaller symbols of its length.\<close>

definition place :: "nat list \<Rightarrow> nat list \<Rightarrow> nat \<Rightarrow> nat" where
  "place c len i = first_index c (len ! i) + num_len len i (len ! i)"

lemma num_len_less: "i < n \<Longrightarrow> num_len len i (len ! i) < num_len len n (len ! i)"
  using num_len_mono [of "Suc i" n len "len ! i"] by (simp add: num_len_Suc)

lemma place_block:
  assumes "\<And>l. 1 \<le> l \<Longrightarrow> l \<le> MAX_BITS \<Longrightarrow> c ! l = num_len len n l" "i < n" "1 \<le> len ! i" "len ! i \<le> MAX_BITS"
  shows "first_index c (len ! i) \<le> place c len i" "place c len i < first_index c (len ! i) + c ! (len ! i)"
    "place c len i < n"
proof -
  show "first_index c (len ! i) \<le> place c len i" by (simp add: place_def)
  show lt: "place c len i < first_index c (len ! i) + c ! (len ! i)"
    using num_len_less [OF assms(2), of len] assms(1,3,4) by (simp add: place_def)
  also have "\<dots> = first_index c (Suc (len ! i))" using assms(3) by (simp add: first_index_Suc)
  also have "\<dots> \<le> n" by (rule first_index_bound [OF assms(1)]) (use assms(4) in auto)
  finally show "place c len i < n" .
qed

lemma place_inj:
  assumes c: "\<And>l. 1 \<le> l \<Longrightarrow> l \<le> MAX_BITS \<Longrightarrow> c ! l = num_len len n l"
    and "i < n" "1 \<le> len ! i" "len ! i \<le> MAX_BITS" "j < i" "1 \<le> len ! j" "len ! j \<le> MAX_BITS"
  shows "place c len j \<noteq> place c len i"
proof
  assume eq: "place c len j = place c len i"
  note b = place_block [OF c, of i] place_block [OF c, of j]
  have "len ! j = len ! i"
    by (rule first_index_block [where k = "place c len i"]) (use b eq assms in auto)
  then show False using num_len_less [of j i len] eq assms(5) by (simp add: place_def)
qed

lemma sort_symbols_ok:
  assumes len: "n \<le> length len" "\<And>i. i < n \<Longrightarrow> len ! i \<le> MAX_BITS" and n: "n \<le> length sm"
    and c: "\<And>l. 1 \<le> l \<Longrightarrow> l \<le> MAX_BITS \<Longrightarrow> c ! l = num_len len n l"
    and offs: "length offs = MAX_BITS + 2" "\<And>l. 1 \<le> l \<Longrightarrow> l \<le> MAX_BITS + 1 \<Longrightarrow> offs ! l = first_index c l"
  shows "\<exists>offs' sm'. sort_symbols len n offs sm = Inr (offs', sm') \<and> length sm' = length sm \<and>
           (\<forall>i<n. 1 \<le> len ! i \<longrightarrow> sm' ! place c len i = i)"
proof -
  let ?P = "\<lambda>i (f, m). length f = MAX_BITS + 2 \<and> length m = length sm \<and>
     (\<forall>l. 1 \<le> l \<longrightarrow> l \<le> MAX_BITS \<longrightarrow> f ! l = first_index c l + num_len len i l) \<and>
     (\<forall>j<i. 1 \<le> len ! j \<longrightarrow> m ! place c len j = j)"
  have "\<exists>s. sort_symbols len n offs sm = Inr s \<and> ?P n s"
    unfolding sort_symbols_def
  proof (rule for_each_inv [where P = ?P], goal_cases)
    case (3 i s)
    obtain f m where s: "s = (f, m)" by (cases s)
    let ?l = "len ! i"
    have i: "i < length len" "?l \<le> MAX_BITS" using 3 len by auto
    show ?case
    proof (cases "?l = 0")
      case True
      then show ?thesis using 3 i s by (auto simp: andthen_def rd_or_def num_len_Suc less_Suc_eq)
    next
      case False
      then have l: "1 \<le> ?l" by simp
      have fl: "f ! ?l = place c len i" using 3 s l i by (auto simp: place_def)
      then have step: "f ! ?l < length m" "?l < length f"
        using place_block(3) [OF c _ l i(2)] 3 s n i by auto
      have old: "length f = MAX_BITS + 2" "length m = length sm" "\<And>j. j < i \<Longrightarrow> 1 \<le> len ! j \<Longrightarrow> m ! place c len j = j"
        "\<And>a. 1 \<le> a \<Longrightarrow> a \<le> MAX_BITS \<Longrightarrow> f ! a = first_index c a + num_len len i a" using 3 s by auto
      have "m[f ! ?l := i] ! place c len j = j" if "j < Suc i" "1 \<le> len ! j" for j
      proof (cases "j = i")
        case True
        then show ?thesis using fl step by simp
      next
        case False
        then have "place c len j \<noteq> place c len i"
          using place_inj [OF c _ l i(2)] that 3 len by simp
        then show ?thesis using fl old(3) [of j] that False by simp
      qed
      moreover have "f[?l := f ! ?l + 1] ! a = first_index c a + num_len len (Suc i) a" if "1 \<le> a" "a \<le> MAX_BITS" for a
        using old(4) [OF that] step by (cases "a = ?l") (simp_all add: num_len_Suc)
      ultimately have "?P (Suc i) (f[?l := f ! ?l + 1], m[f ! ?l := i])" using old by auto
      then show ?thesis using i step False s by (auto simp: andthen_def rd_or_def wr_or_def)
    qed
  qed (use offs in auto)
  then show ?thesis by auto
qed

text \<open>Every place in use is the place of a symbol.\<close>

lemma places_used:
  assumes c: "\<And>l. 1 \<le> l \<Longrightarrow> l \<le> MAX_BITS \<Longrightarrow> c ! l = num_len len n l" and len: "\<And>i. i < n \<Longrightarrow> len ! i \<le> MAX_BITS"
    and k: "k < first_index c (MAX_BITS + 1)"
  shows "\<exists>i<n. 1 \<le> len ! i \<and> place c len i = k"
proof -
  let ?U = "{i. i < n \<and> 1 \<le> len ! i}"
  have "?U = {i. i < n \<and> 1 \<le> len ! i \<and> len ! i < MAX_BITS + 1}" using len by (auto simp: less_Suc_eq_le)
  then have card: "card ?U = first_index c (MAX_BITS + 1)" using first_index_num [OF c] by simp
  have "inj_on (place c len) ?U"
  proof (rule inj_onI)
    fix i j assume "i \<in> ?U" "j \<in> ?U" "place c len i = place c len j"
    then show "i = j" using place_inj [OF c, of i j] place_inj [OF c, of j i] len [of i] len [of j]
      by (cases i j rule: linorder_cases) auto
  qed
  moreover have sub: "place c len ` ?U \<subseteq> {..<first_index c (MAX_BITS + 1)}"
  proof
    fix x assume "x \<in> place c len ` ?U"
    then obtain i where i: "i < n" "1 \<le> len ! i" "x = place c len i" by auto
    have "x < first_index c (Suc (len ! i))" using place_block(2) [OF c i(1,2)] len i by (simp add: first_index_Suc)
    also have "\<dots> \<le> first_index c (MAX_BITS + 1)" by (rule first_index_mono) (use len i in auto)
    finally show "x \<in> {..<first_index c (MAX_BITS + 1)}" by simp
  qed
  ultimately have "place c len ` ?U = {..<first_index c (MAX_BITS + 1)}"
    using card by (intro card_subset_eq) (auto simp: card_image)
  then have "k \<in> place c len ` ?U" using k by simp
  then show ?thesis by auto
qed

subsection \<open>The lookup table\<close>

lemma bit_reverse_code: "bit (reverse_code code l) i \<longleftrightarrow> i < l \<and> bit code (l - 1 - i)"
proof -
  define F where "F = (\<lambda>b rev. rev OR push_bit (l - 1 - b) (drop_bit b code AND 1))"
  have one: "bit (drop_bit b code AND 1) j \<longleftrightarrow> j = 0 \<and> bit code b" for b j :: nat
    by (cases j) (simp_all add: bit_and_iff bit_drop_bit_eq bit_1_iff bit_iff_odd_drop_bit [symmetric])
  have F: "bit (F b r) i \<longleftrightarrow> bit r i \<or> i = l - 1 - b \<and> bit code b" for b r
    unfolding F_def bit_or_iff bit_push_bit_iff one by auto
  have "bit (fold F [0..<m] 0) i \<longleftrightarrow> l - m \<le> i \<and> i < l \<and> bit code (l - 1 - i)" if "m \<le> l" for m
    using that
  proof (induction m)
    case (Suc m)
    have IH: "bit (fold F [0..<m] 0) i \<longleftrightarrow> l - m \<le> i \<and> i < l \<and> bit code (l - 1 - i)" using Suc by simp
    have "bit (fold F [0..<Suc m] 0) i \<longleftrightarrow> bit (fold F [0..<m] 0) i \<or> i = l - 1 - m \<and> bit code m" by (simp add: F)
    also have "\<dots> \<longleftrightarrow> l - Suc m \<le> i \<and> i < l \<and> bit code (l - 1 - i)"
    proof (cases "i = l - 1 - m")
      case True
      then show ?thesis using IH Suc.prems by auto
    next
      case False
      then have "l - Suc m \<le> i \<longleftrightarrow> l - m \<le> i" using Suc.prems by auto
      then show ?thesis using IH False by simp
    qed
    finally show ?case .
  qed simp
  from this [of l] show ?thesis by (simp add: reverse_code_def F_def)
qed

lemma reverse_code_less: "reverse_code code l < 2 ^ l"
proof -
  have "take_bit l (reverse_code code l) = reverse_code code l"
    by (rule bit_eqI) (auto simp: bit_take_bit_iff bit_reverse_code)
  then show ?thesis using take_bit_nat_less_exp [of l "reverse_code code l"] by simp
qed

definition entry_ok :: "nat list \<Rightarrow> nat list \<Rightarrow> nat \<Rightarrow> nat \<Rightarrow> bool" where
  "entry_ok c sm j e \<longleftrightarrow> e = 0 \<or> (\<exists>l k. 1 \<le> l \<and> l \<le> FAST_BITS \<and> k < c ! l \<and>
     e = push_bit 9 l OR sm ! (first_index c l + k) \<and> j mod 2 ^ l = reverse_code (first_code c l + k) l)"

definition fast_ok :: "nat list \<Rightarrow> nat list \<Rightarrow> nat list \<Rightarrow> bool" where
  "fast_ok c sm f \<longleftrightarrow> length f = 2 ^ FAST_BITS \<and> (\<forall>j < 2 ^ FAST_BITS. entry_ok c sm j (f ! j))"

lemma fill_fast_ok:
  "length f = 2 ^ FAST_BITS \<Longrightarrow>
   \<exists>f'. fill_fast l v j f = Inr f' \<and> length f' = 2 ^ FAST_BITS \<and>
        (\<forall>i < 2 ^ FAST_BITS. f' ! i = f ! i \<or> f' ! i = v \<and> i mod 2 ^ l = j mod 2 ^ l)"
proof (induction l v j f rule: fill_fast.induct)
  case (1 l v j f)
  show ?case
  proof (cases "j < 2 ^ FAST_BITS")
    case True
    have w: "wr f j v = Inr (f[j := v])" using True 1(2) by (simp add: wr_or_def)
    obtain f' where "fill_fast l v (j + 2 ^ l) (f[j := v]) = Inr f'" "length f' = 2 ^ FAST_BITS"
      and F: "\<forall>i < 2 ^ FAST_BITS. f' ! i = f[j := v] ! i \<or> f' ! i = v \<and> i mod 2 ^ l = (j + 2 ^ l) mod 2 ^ l"
      using 1(1) [OF True, of "f[j := v]"] 1(2) by auto
    moreover have "\<forall>i < 2 ^ FAST_BITS. f' ! i = f ! i \<or> f' ! i = v \<and> i mod 2 ^ l = j mod 2 ^ l"
      using F 1(2) by (metis mod_add_self2 nth_list_update_eq nth_list_update_neq)
    ultimately show ?thesis using True w by (subst fill_fast.simps) (simp add: andthen_def)
  qed (use 1 in \<open>simp add: fill_fast.simps [of l v j f]\<close>)
qed

lemma fast_code_ok:
  assumes l: "1 \<le> l" "l \<le> MAX_BITS" and x: "x < c ! l" and n: "first_index c (MAX_BITS + 1) \<le> length sm"
    and f: "fast_ok c sm f"
  shows "\<exists>f'. fast_code sm l x (first_code c l + x, first_index c l + x, f)
             = Inr (first_code c l + Suc x, first_index c l + Suc x, f') \<and> fast_ok c sm f'"
proof (cases "l > FAST_BITS")
  case True
  then show ?thesis using f by (simp add: fast_code_def)
next
  case False
  let ?v = "push_bit 9 l OR sm ! (first_index c l + x)" and ?r = "reverse_code (first_code c l + x) l"
  have "first_index c l + x < first_index c (Suc l)" using l x by (simp add: first_index_Suc)
  also have "\<dots> \<le> first_index c (MAX_BITS + 1)" by (rule first_index_mono) (use l in simp)
  finally have k: "first_index c l + x < length sm" using n by simp
  obtain f' where f': "fill_fast l ?v ?r f = Inr f'" "length f' = 2 ^ FAST_BITS"
    and F: "\<forall>i < 2 ^ FAST_BITS. f' ! i = f ! i \<or> f' ! i = ?v \<and> i mod 2 ^ l = ?r mod 2 ^ l"
    using fill_fast_ok [of f l ?v ?r] f by (auto simp: fast_ok_def)
  have "entry_ok c sm i (f' ! i)" if i: "i < 2 ^ FAST_BITS" for i
  proof -
    consider "f' ! i = f ! i" | "f' ! i = ?v" "i mod 2 ^ l = ?r" using F i reverse_code_less by force
    then show ?thesis
    proof cases
      case 1
      then show ?thesis using f i by (simp add: fast_ok_def)
    next
      case 2
      then show ?thesis unfolding entry_ok_def using l x False by (intro disjI2 exI [of _ l] exI [of _ x]) simp
    qed
  qed
  then have "fast_ok c sm f'" using f' by (simp add: fast_ok_def)
  then show ?thesis using False k f' by (simp add: fast_code_def andthen_def rd_or_def)
qed

lemma build_fast_ok:
  assumes len: "length c = MAX_BITS + 1" and n: "first_index c (MAX_BITS + 1) \<le> length sm"
  shows "\<exists>code k f. build_fast c sm = Inr (code, k, f) \<and> fast_ok c sm f"
proof -
  let ?P = "\<lambda>l (code, k, f). code = first_code c l \<and> k = first_index c l \<and> fast_ok c sm f"
  have "\<exists>s. build_fast c sm = Inr s \<and> ?P (MAX_BITS + 1) s"
    unfolding build_fast_def
  proof (rule for_each_inv [where P = ?P], goal_cases)
    case (3 l s)
    then have l: "1 \<le> l" "l \<le> MAX_BITS" by auto
    let ?Q = "\<lambda>x (code, k, f). code = first_code c l + x \<and> k = first_index c l + x \<and> fast_ok c sm f"
    have "\<exists>s'. for_each [0..<c ! l] (fast_code sm l) s = Inr s' \<and> ?Q (c ! l) s'"
    proof (rule for_each_inv [where P = ?Q], goal_cases)
      case (3 x s)
      then show ?case using fast_code_ok [OF l, of x c sm "snd (snd s)"] n by (cases s) auto
    qed (use 3 in auto)
    then show ?case using l len by (auto simp: fast_length_def andthen_def rd_or_def push_bit_eq_mult first_index_Suc split: prod.splits)
  next
    case 1
    show ?case by (auto simp: fast_ok_def entry_ok_def simp del: replicate.simps)
  qed (simp add: MAX_BITS_def)
  then show ?thesis by auto
qed

subsection \<open>What a successful build gives\<close>

definition huff_ok :: "nat \<Rightarrow> huff \<Rightarrow> bool" where
  "huff_ok n h \<longleftrightarrow> length (count h) = MAX_BITS + 1 \<and> length (sym h) = 288 \<and> n \<le> 288 \<and>
     fast_ok (count h) (sym h) (fast h) \<and> kraft (count h) \<and> first_index (count h) (MAX_BITS + 1) \<le> n \<and>
     (\<forall>k < first_index (count h) (MAX_BITS + 1). sym h ! k < n)"

text \<open>The table \<open>h\<close> is the canonical code of the lengths \<open>len\<close>.\<close>

definition canonical :: "nat list \<Rightarrow> nat \<Rightarrow> huff \<Rightarrow> bool" where
  "canonical len n h \<longleftrightarrow> (\<forall>l. 1 \<le> l \<longrightarrow> l \<le> MAX_BITS \<longrightarrow> count h ! l = num_len len n l) \<and>
     (\<forall>i<n. 1 \<le> len ! i \<longrightarrow> sym h ! place (count h) len i = i)"

lemma build_cases:
  assumes n: "n \<le> length len" "n \<le> 288" and len: "\<And>i. i < n \<Longrightarrow> len ! i \<le> MAX_BITS" and h: "length (sym h) = 288"
  shows "\<exists>c. (\<forall>l. 1 \<le> l \<longrightarrow> l \<le> MAX_BITS \<longrightarrow> c ! l = num_len len n l) \<and>
     (if kraft c then \<exists>h'. build h len n = Inr h' \<and> huff_ok n h' \<and> canonical len n h' else build h len n = Inl Bad)"
proof -
  obtain c0 where c0: "count_lengths len n = Inr c0" "length c0 = MAX_BITS + 1" "\<forall>l\<le>MAX_BITS. c0 ! l = num_len len n l"
    using count_lengths_ok [OF n(1) len] by auto
  define c where "c = c0[0 := 0]"
  have c: "length c = MAX_BITS + 1" "\<And>l. 1 \<le> l \<Longrightarrow> l \<le> MAX_BITS \<Longrightarrow> c ! l = num_len len n l"
    using c0 by (simp_all add: c_def)
  have "if kraft c then \<exists>h'. build h len n = Inr h' \<and> huff_ok n h' \<and> canonical len n h' else build h len n = Inl Bad"
  proof (cases "kraft c")
    case False
    then have "check_lengths c = Inl Bad" using check_lengths_ok [OF c(1)] by auto
    then show ?thesis using c0 False by (simp add: build_def andthen_def Let_def c_def)
  next
    case True
    then obtain x where x: "check_lengths c = Inr x" "kraft c" using kraft_checked [OF c(1)] by auto
    obtain offs where o: "symbol_offsets c = Inr offs" "length offs = MAX_BITS + 2"
      "\<forall>l. 1 \<le> l \<longrightarrow> l \<le> MAX_BITS + 1 \<longrightarrow> offs ! l = first_index c l" using symbol_offsets_ok [OF c(1)] by auto
    have "n \<le> length (sym h)" using n h by simp
    then obtain offs' sm where s: "sort_symbols len n offs (sym h) = Inr (offs', sm)" "length sm = length (sym h)"
      "\<forall>i<n. 1 \<le> len ! i \<longrightarrow> sm ! place c len i = i"
      using sort_symbols_ok [OF n(1) len _ c(2) o(2)] o(3) by metis
    have fi: "first_index c (MAX_BITS + 1) \<le> n" by (rule first_index_bound [OF c(2)]) auto
    then have "first_index c (MAX_BITS + 1) \<le> length sm" using s n h by simp
    then obtain code k f where f: "build_fast c sm = Inr (code, k, f)" "fast_ok c sm f"
      using build_fast_ok [OF c(1)] by blast
    let ?h = "\<lparr>fast = f, count = c, sym = sm\<rparr>"
    have b: "build h len n = Inr ?h"
      using c0 x o s f by (simp add: build_def andthen_def Let_def c_def)
    have "sm ! k < n" if k: "k < first_index c (MAX_BITS + 1)" for k
      using places_used [OF c(2) len k] s(3) by auto
    then have "huff_ok n ?h" using c x f s h n fi by (simp add: huff_ok_def)
    moreover have "canonical len n ?h" using c s by (simp add: canonical_def)
    ultimately show ?thesis using b True by auto
  qed
  then show ?thesis using c(2) by blast
qed

lemma build_ok:
  assumes "n \<le> length len" "n \<le> 288" "\<And>i. i < n \<Longrightarrow> len ! i \<le> MAX_BITS" "length (sym h) = 288"
  shows "build h len n = Inl Bad \<or> (\<exists>h'. build h len n = Inr h' \<and> huff_ok n h' \<and> canonical len n h')"
  using build_cases [OF assms] by (auto split: if_splits)

section \<open>What a decoded symbol is\<close>

text \<open>
  The first \<open>l\<close> bits of the buffer read as a code, most significant bit first, and the buffer
  after \<open>k\<close> bits.
\<close>

fun prefix_code :: "u64 \<Rightarrow> nat \<Rightarrow> nat" where
  "prefix_code w 0 = 0"
| "prefix_code w (Suc l) = 2 * prefix_code w l + of_bool (bit w l)"

definition skip :: "nat \<Rightarrow> bitin \<Rightarrow> bitin" where
  "skip k s = s\<lparr>bits := drop_bit k (bits s), nbits := nbits s - k\<rparr>"

definition in_code :: "huff \<Rightarrow> u64 \<Rightarrow> nat \<Rightarrow> bool" where
  "in_code h w l \<longleftrightarrow> prefix_code w l < first_code (count h) l + count h ! l"

definition code_symbol :: "huff \<Rightarrow> u64 \<Rightarrow> nat \<Rightarrow> nat" where
  "code_symbol h w l = sym h ! (first_index (count h) l + (prefix_code w l - first_code (count h) l))"

lemma next_bit: "int (unat (drop_bit k w AND 1)) = of_bool (bit (w :: u64) k)"
proof -
  have "drop_bit k w AND 1 = of_bool (bit w k)" by (simp add: and_one_eq mod_2_eq_odd bit_iff_odd_drop_bit)
  then show ?thesis by simp
qed

lemma skip_sel: "bits (skip k s) = drop_bit k (bits s)"
  by (simp add: skip_def)

lemma add_bit: "2 * int p OR of_bool b = int (2 * p + of_bool b)"
  by (cases b) (simp_all add: or_one_eq)

lemma symbol_in_table:
  assumes h: "huff_ok n h" and l: "1 \<le> l" "l \<le> MAX_BITS" and lo: "first_code (count h) l \<le> prefix_code w l"
    and m: "in_code h w l"
  shows "first_index (count h) l + (prefix_code w l - first_code (count h) l) < length (sym h)" "code_symbol h w l < n"
proof -
  have "first_index (count h) l + (prefix_code w l - first_code (count h) l) < first_index (count h) (Suc l)"
    using l lo m by (simp add: in_code_def first_index_Suc)
  also have "\<dots> \<le> first_index (count h) (MAX_BITS + 1)" by (rule first_index_mono) (use l in simp)
  finally show "first_index (count h) l + (prefix_code w l - first_code (count h) l) < length (sym h)" "code_symbol h w l < n"
    using h by (auto simp: huff_ok_def code_symbol_def)
qed

lemma walk_finds:
  assumes h: "huff_ok n h"
  shows "1 \<le> l \<Longrightarrow> l \<le> MAX_BITS + 1 \<Longrightarrow> first_code (count h) l \<le> 2 * prefix_code (bits s) (l - 1) \<Longrightarrow>
    walk h l (2 * int (prefix_code (bits s) (l - 1))) (int (first_code (count h) l)) (int (first_index (count h) l)) (skip (l - 1) s)
      = Inr (case find (in_code h (bits s)) [l..<MAX_BITS + 1] of
               None \<Rightarrow> (-1, skip MAX_BITS s) | Some k \<Rightarrow> (int (code_symbol h (bits s) k), skip k s))"
proof (induction "MAX_BITS + 1 - l" arbitrary: l)
  case 0
  then have "l = MAX_BITS + 1" by simp
  then show ?case by (simp add: walk.simps)
next
  case (Suc d)
  then have l: "1 \<le> l" "l \<le> MAX_BITS" by auto
  let ?w = "bits s" and ?c = "count h"
  have p: "prefix_code ?w l = 2 * prefix_code ?w (l - 1) + of_bool (bit ?w (l - 1))" using l by (cases l) simp_all
  have code: "2 * int (prefix_code ?w (l - 1)) OR int (unat (bits (skip (l - 1) s) AND 1)) = int (prefix_code ?w l)"
    by (simp only: p add_bit [symmetric] skip_sel next_bit)
  have st: "take_one (skip (l - 1) s) = skip l s" using l by (simp add: take_one_def skip_def)
  have rd: "rd ?c l = Inr (?c ! l)" using h l by (simp add: rd_or_def huff_ok_def)
  have lo: "first_code ?c l \<le> prefix_code ?w l" using Suc.prems(3) p by simp
  have up: "[l..<MAX_BITS + 1] = l # [Suc l..<MAX_BITS + 1]" using l by (simp add: upt_conv_Cons)
  show ?case
  proof (cases "in_code h ?w l")
    case True
    have nn: "nat (int (first_index ?c l) + (int (prefix_code ?w l) - int (first_code ?c l)))
          = first_index ?c l + prefix_code ?w l - first_code ?c l" using lo by simp
    show ?thesis
      unfolding walk.simps [of h l] up using True l code st rd lo symbol_in_table [OF h l lo True]
      by (simp add: Let_def andthen_def in_code_def code_symbol_def rd_or_def nn)
  next
    case False
    have fc: "first_code ?c (Suc l) = 2 * (first_code ?c l + ?c ! l)" using l by simp
    have "walk h (Suc l) (2 * int (prefix_code ?w l)) (int (first_code ?c (Suc l))) (int (first_index ?c (Suc l))) (skip l s)
      = Inr (case find (in_code h ?w) [Suc l..<MAX_BITS + 1] of
               None \<Rightarrow> (-1, skip MAX_BITS s) | Some k \<Rightarrow> (int (code_symbol h ?w k), skip k s))"
      using Suc(1) [of "Suc l"] Suc.hyps(2) l False fc by (simp add: in_code_def)
    moreover have "push_bit 1 (int (prefix_code ?w l)) = 2 * int (prefix_code ?w l)"
      "push_bit 1 (int (first_code ?c l) + int (?c ! l)) = int (first_code ?c (Suc l))"
      "int (first_index ?c l) + int (?c ! l) = int (first_index ?c (Suc l))"
      using l fc by (simp_all add: push_bit_eq_mult first_index_Suc)
    moreover have "\<not> int (prefix_code ?w l) - int (?c ! l) < int (first_code ?c l)" using False by (simp add: in_code_def)
    ultimately show ?thesis
      unfolding walk.simps [of h l] up using False l code st rd
      by (simp add: Let_def andthen_def mult.commute del: upt_Suc)
  qed
qed

text \<open>The bit-by-bit walk from the start.\<close>

lemma walk_start:
  assumes "huff_ok n h"
  shows "walk h 1 0 0 0 s
      = Inr (case find (in_code h (bits s)) [1..<MAX_BITS + 1] of
               None \<Rightarrow> (-1, skip MAX_BITS s) | Some k \<Rightarrow> (int (code_symbol h (bits s) k), skip k s))"
  using walk_finds [OF assms, of 1 s] by (simp add: MAX_BITS_def skip_def)

subsection \<open>The lookup table agrees with the walk\<close>

lemma bit_prefix_code: "bit (prefix_code w l) i \<longleftrightarrow> i < l \<and> bit w (l - 1 - i)"
proof (induction l arbitrary: i)
  case (Suc l)
  then show ?case by (cases i) (auto simp: bit_Suc bit_0)
qed simp

text \<open>A code of fewer bits is a prefix of one of more bits.\<close>

lemma prefix_code_drop: "a \<le> b \<Longrightarrow> prefix_code w a = prefix_code w b div 2 ^ (b - a)"
proof -
  assume "a \<le> b"
  then have "prefix_code w a = drop_bit (b - a) (prefix_code w b)"
    by (intro bit_eqI) (auto simp: bit_drop_bit_eq bit_prefix_code)
  then show ?thesis by (simp add: drop_bit_eq_div)
qed

lemma first_code_grows: "1 \<le> a \<Longrightarrow> a < b \<Longrightarrow> (first_code c a + c ! a) * 2 ^ (b - a) \<le> first_code c b"
proof (induction "b - a" arbitrary: b)
  case (Suc d)
  obtain b' where b: "b = Suc b'" using Suc.prems by (cases b) auto
  show ?case
  proof (cases "a = b'")
    case True
    then show ?thesis using Suc.prems b by simp
  next
    case False
    then have "a < b'" using Suc.prems b by simp
    then have "(first_code c a + c ! a) * 2 ^ (b' - a) \<le> first_code c b'" using Suc.hyps b Suc.prems by auto
    then have "2 * ((first_code c a + c ! a) * 2 ^ (b' - a)) \<le> first_code c b" using b \<open>a < b'\<close> by simp
    moreover have "b - a = Suc (b' - a)" using b \<open>a < b'\<close> by simp
    ultimately show ?thesis by (simp add: ac_simps)
  qed
qed simp

text \<open>A code that is in the table has no shorter code in the table as its prefix.\<close>

lemma no_shorter_code:
  assumes "1 \<le> a" "a < l" "first_code (count h) l \<le> prefix_code w l"
  shows "\<not> in_code h w a"
proof -
  have "(first_code (count h) a + count h ! a) * 2 ^ (l - a) \<le> prefix_code w l"
    using first_code_grows [OF assms(1,2), of "count h"] assms(3) by simp
  then have "first_code (count h) a + count h ! a \<le> prefix_code w l div 2 ^ (l - a)"
    by (simp add: less_eq_div_iff_mult_less_eq)
  then show ?thesis using prefix_code_drop [of a l w] assms(2) by (simp add: in_code_def)
qed

lemma find_first:
  assumes "m \<le> l" "l < n" "P l" "\<And>a. m \<le> a \<Longrightarrow> a < l \<Longrightarrow> \<not> P a"
  shows "find P [m..<n] = Some l"
proof -
  have "[m..<n] = [m..<l] @ l # [Suc l..<n]"
    using upt_add_eq_append [of m l "n - l"] assms(1,2) by (simp add: upt_conv_Cons)
  moreover have "find P (xs @ ys) = (case find P xs of None \<Rightarrow> find P ys | r \<Rightarrow> r)" for xs ys
    by (induction xs) auto
  moreover have "find P [m..<l] = None" using assms(4) by (simp add: find_None_iff)
  ultimately show ?thesis using assms(3) by simp
qed

lemma walk_code:
  assumes "huff_ok n h" "1 \<le> l" "l \<le> MAX_BITS" "first_code (count h) l \<le> prefix_code (bits s) l" "in_code h (bits s) l"
  shows "walk h 1 0 0 0 s = Inr (int (code_symbol h (bits s) l), skip l s)"
proof -
  have "find (in_code h (bits s)) [1..<MAX_BITS + 1] = Some l"
    by (rule find_first) (use assms no_shorter_code [of _ l h "bits s"] in auto)
  then show ?thesis using walk_start [OF assms(1), of s] by simp
qed

lemma fast_window: "unat (w AND (2 ^ FAST_BITS - 1) :: u64) = take_bit FAST_BITS (unat w)"
proof -
  have "2 ^ FAST_BITS - 1 = (mask FAST_BITS :: u64)" by (simp add: mask_eq_exp_minus_1)
  then show ?thesis by (simp add: take_bit_eq_mask [symmetric] unsigned_take_bit_eq)
qed

lemma window_code:
  assumes "take_bit FAST_BITS (unat w) mod 2 ^ l = reverse_code code l" "l \<le> FAST_BITS" "code < 2 ^ l"
  shows "prefix_code w l = code"
proof (rule bit_eqI)
  fix i
  have t: "take_bit l (unat w) = reverse_code code l"
    using assms(1,2) by (simp add: take_bit_eq_mod [symmetric] min_absorb1)
  have "bit code i \<Longrightarrow> i < l"
  proof -
    assume "bit code i"
    moreover have "take_bit l code = code" using assms(3) by (simp add: take_bit_nat_eq_self_iff)
    ultimately show "i < l" by (metis bit_take_bit_iff)
  qed
  moreover have "i < l \<Longrightarrow> bit w (l - 1 - i) \<longleftrightarrow> bit code i"
  proof -
    assume i: "i < l"
    have "bit w (l - 1 - i) \<longleftrightarrow> bit (take_bit l (unat w)) (l - 1 - i)"
      using i assms(2) by (auto simp: bit_take_bit_iff bit_unsigned_iff FAST_BITS_def)
    also have "\<dots> \<longleftrightarrow> bit code i" using i by (simp add: t bit_reverse_code)
    finally show ?thesis .
  qed
  ultimately show "bit (prefix_code w l) i \<longleftrightarrow> bit code i" by (auto simp: bit_prefix_code)
qed

lemma fast_entry_fields: "v < 512 \<Longrightarrow> drop_bit 9 (push_bit 9 l OR v) = l \<and> (push_bit 9 l OR v) AND 511 = (v :: nat)"
proof -
  assume v: "v < 512"
  have b: "bit v i \<Longrightarrow> i < 9" for i
  proof -
    assume "bit v i"
    moreover have "take_bit 9 v = v" using v by (simp add: take_bit_nat_eq_self_iff)
    ultimately show "i < 9" by (metis bit_take_bit_iff)
  qed
  have m: "(511 :: nat) = mask 9" by (simp add: mask_eq_exp_minus_1)
  show ?thesis unfolding m
    by (auto intro!: bit_eqI simp: bit_simps dest: b)
qed

lemma decode_eq_walk:
  assumes h: "huff_ok n h" and t: "t = (if nbits s < MAX_BITS then refill src s else s)"
  shows "decode src s h = walk h 1 0 0 0 t"
proof -
  let ?j = "take_bit FAST_BITS (unat (bits t))" and ?c = "count h"
  have j: "?j < 2 ^ FAST_BITS" by (rule take_bit_nat_less_exp)
  have "length (fast h) = 2 ^ FAST_BITS" "entry_ok ?c (sym h) ?j (fast h ! ?j)" using h j by (auto simp: huff_ok_def fast_ok_def)
  then have d: "decode src s h = (if drop_bit 9 (fast h ! ?j) \<noteq> 0
      then Inr (int (fast h ! ?j AND 511), skip (drop_bit 9 (fast h ! ?j)) t) else walk h 1 0 0 0 t)"
    and e: "entry_ok ?c (sym h) ?j (fast h ! ?j)"
    using j by (simp_all add: decode_def Let_def t [symmetric] fast_window rd_or_def andthen_def skip_def)
  show ?thesis
  proof (cases "fast h ! ?j = 0")
    case False
    then obtain l k where l: "1 \<le> l" "l \<le> FAST_BITS" "k < ?c ! l" and v: "fast h ! ?j = push_bit 9 l OR sym h ! (first_index ?c l + k)"
      and r: "?j mod 2 ^ l = reverse_code (first_code ?c l + k) l" using e by (auto simp: entry_ok_def)
    have lm: "l \<le> MAX_BITS" using l by (simp add: FAST_BITS_def MAX_BITS_def)
    have "first_code ?c l + ?c ! l \<le> 2 ^ l" using h l lm by (simp add: huff_ok_def kraft_def)
    then have p: "prefix_code (bits t) l = first_code ?c l + k"
      using window_code [OF r l(2)] l(3) by simp
    have "sym h ! (first_index ?c l + k) = code_symbol h (bits t) l" by (simp add: code_symbol_def p)
    moreover have in': "in_code h (bits t) l" using p l by (simp add: in_code_def)
    moreover have "code_symbol h (bits t) l < 512"
      using symbol_in_table(2) [OF h l(1) lm _ in'] p h by (simp add: huff_ok_def)
    ultimately have "decode src s h = Inr (int (code_symbol h (bits t) l), skip l t)"
      using d v l fast_entry_fields [of "sym h ! (first_index ?c l + k)" l] by simp
    then show ?thesis using walk_code [OF h l(1) lm _ in'] p by simp
  qed (use d in simp)
qed

lemma decode_ok:
  assumes h: "huff_ok n h"
  shows "\<exists>v s'. decode src s h = Inr (v, s') \<and> -1 \<le> v \<and> v < int n \<and> spends src MAX_BITS s s'"
proof -
  define t where "t = (if nbits s < MAX_BITS then refill src s else s)"
  have sk: "spends src MAX_BITS s (skip k t)" if k: "k \<le> MAX_BITS" for k
    unfolding spends_def
  proof (intro impI)
    assume a: "wf_in src s" "debt s + int MAX_BITS \<le> LIMIT"
    then have "wf_in src t" "debt t \<le> debt s" "avail src t = avail src s" "MAX_BITS \<le> nbits t"
      using refill_bits [of src s] by (auto simp: t_def MAX_BITS_def not_less)
    then show "wf_in src (skip k t) \<and> avail src (skip k t) \<le> avail src s \<and> debt (skip k t) \<le> debt s + int MAX_BITS"
      using k by (auto simp: skip_def wf_in_def avail_def debt_def of_nat_diff)
  qed
  have d: "decode src s h = Inr (case find (in_code h (bits t)) [1..<MAX_BITS + 1] of
               None \<Rightarrow> (-1, skip MAX_BITS t) | Some k \<Rightarrow> (int (code_symbol h (bits t) k), skip k t))"
    using decode_eq_walk [OF h t_def] walk_start [OF h, of t] by simp
  show ?thesis
  proof (cases "find (in_code h (bits t)) [1..<MAX_BITS + 1]")
    case None
    then show ?thesis using d sk [of MAX_BITS] by auto
  next
    case (Some k)
    then obtain i where "i < length [1..<MAX_BITS + 1]" "in_code h (bits t) ([1..<MAX_BITS + 1] ! i)" "k = [1..<MAX_BITS + 1] ! i"
      and first: "\<forall>j<i. \<not> in_code h (bits t) ([1..<MAX_BITS + 1] ! j)" by (auto simp: find_Some_iff)
    then have k: "1 \<le> k" "k \<le> MAX_BITS" "in_code h (bits t) k" by (auto simp del: upt_Suc)
    have lo: "first_code (count h) k \<le> prefix_code (bits t) k"
    proof (cases "k = 1")
      case False
      have i: "k = 1 + i" using \<open>k = [1..<MAX_BITS + 1] ! i\<close> \<open>i < length [1..<MAX_BITS + 1]\<close> by (simp del: upt_Suc)
      with False have "0 < i" by simp
      then have "\<not> in_code h (bits t) ([1..<MAX_BITS + 1] ! (i - 1))" using first by (simp del: upt_Suc)
      then have "\<not> in_code h (bits t) i" using i k \<open>0 < i\<close> by (simp del: upt_Suc)
      then show ?thesis using i \<open>0 < i\<close> by (simp add: in_code_def)
    qed simp
    have "code_symbol h (bits t) k < n" by (rule symbol_in_table(2) [OF h k(1,2) lo k(3)])
    then show ?thesis using d Some sk [OF k(2)] by auto
  qed
qed

section \<open>Properties of the tables\<close>

lemma built_table:
  assumes "n \<le> length len" "n \<le> 288" "\<And>i. i < n \<Longrightarrow> len ! i \<le> MAX_BITS" "length (sym h) = 288" "build h len n = Inr h'"
  shows "huff_ok n h'" "canonical len n h'"
  using build_ok [OF assms(1,2,3,4)] assms(5) by auto

text \<open>
  C40. Every table that \<open>build\<close> returns is well formed: its arrays have their declared sizes,
  every entry of the lookup table is empty or holds a code length from 1 to 10 and a symbol of the
  alphabet, the symbols in use are symbols of the alphabet, and no code has more bits than its
  length allows.
\<close>

theorem build_well_formed:
  assumes "n \<le> length len" "n \<le> 288" "\<And>i. i < n \<Longrightarrow> len ! i \<le> MAX_BITS" "length (sym h) = 288" "build h len n = Inr h'"
  shows "length (fast h') = 1024 \<and> length (count h') = 16 \<and> length (sym h') = 288 \<and>
    (\<forall>e\<in>set (fast h'). e = 0 \<or> 1 \<le> drop_bit 9 e \<and> drop_bit 9 e \<le> FAST_BITS \<and> e AND 511 < n) \<and>
    (\<forall>k<first_index (count h') (MAX_BITS + 1). sym h' ! k < n) \<and>
    (\<forall>l\<in>{1..MAX_BITS}. first_code (count h') l + count h' ! l \<le> 2 ^ l)"
proof -
  note h = built_table(1) [OF assms]
  have len: "length (fast h') = 1024" using h by (simp add: huff_ok_def fast_ok_def FAST_BITS_def)
  have "e = 0 \<or> 1 \<le> drop_bit 9 e \<and> drop_bit 9 e \<le> FAST_BITS \<and> e AND 511 < n" if e: "e \<in> set (fast h')" for e
  proof -
    obtain j where "j < length (fast h')" "fast h' ! j = e" using e by (auto simp: in_set_conv_nth)
    then have "entry_ok (count h') (sym h') j e" using h by (auto simp: huff_ok_def fast_ok_def)
    then consider "e = 0" | l k where "1 \<le> l" "l \<le> FAST_BITS" "k < count h' ! l" "e = push_bit 9 l OR sym h' ! (first_index (count h') l + k)"
      by (auto simp: entry_ok_def)
    then show ?thesis
    proof cases
      case 2
      have "first_index (count h') l + k < first_index (count h') (Suc l)" using 2 by (simp add: first_index_Suc)
      also have "\<dots> \<le> first_index (count h') (MAX_BITS + 1)"
        by (rule first_index_mono) (use 2 in \<open>simp add: MAX_BITS_def FAST_BITS_def\<close>)
      finally have "sym h' ! (first_index (count h') l + k) < n" using h by (simp add: huff_ok_def)
      then show ?thesis using 2 assms(2) fast_entry_fields [of "sym h' ! (first_index (count h') l + k)" l] by simp
    qed simp
  qed
  then have "\<forall>e\<in>set (fast h'). e = 0 \<or> 1 \<le> drop_bit 9 e \<and> drop_bit 9 e \<le> FAST_BITS \<and> e AND 511 < n" by blast
  moreover have "length (count h') = 16" "length (sym h') = 288" using h by (simp_all add: huff_ok_def MAX_BITS_def)
  moreover have "\<forall>k<first_index (count h') (MAX_BITS + 1). sym h' ! k < n" using h by (simp add: huff_ok_def)
  moreover have "\<forall>l\<in>{1..MAX_BITS}. first_code (count h') l + count h' ! l \<le> 2 ^ l" using h by (simp add: huff_ok_def kraft_def)
  ultimately show ?thesis using len by blast
qed

text \<open>
  C9. The 10-bit lookup table is an optimisation only: for every table that \<open>build\<close> accepts,
  decoding a symbol through the lookup table gives the same symbol, and leaves the same bits, as
  reading the code bit by bit.
\<close>

theorem decode_fast_exact:
  assumes "n \<le> length len" "n \<le> 288" "\<And>i. i < n \<Longrightarrow> len ! i \<le> MAX_BITS" "length (sym h) = 288" "build h len n = Inr h'"
  shows "decode src s h' = walk h' 1 0 0 0 (if nbits s < MAX_BITS then refill src s else s)"
  using decode_eq_walk [OF built_table(1) [OF assms] refl] by simp

text \<open>The canonical code of RFC 1951, section 3.2.2, for symbol \<open>i\<close> of the lengths \<open>len\<close>.\<close>

definition rfc_code :: "nat list \<Rightarrow> nat \<Rightarrow> nat \<Rightarrow> nat" where
  "rfc_code len n i = first_code (map (num_len len n) [0..<MAX_BITS + 1]) (len ! i) + num_len len i (len ! i)"

lemma first_code_cong: "(\<And>k. 1 \<le> k \<Longrightarrow> k < l \<Longrightarrow> c ! k = c' ! k) \<Longrightarrow> first_code c l = first_code c' l"
  by (induction l) auto

text \<open>
  C26. A table decodes the code it was built for: if the next bits are the canonical code of
  RFC 1951 for symbol \<open>i\<close>, then decoding gives \<open>i\<close> and consumes exactly its length.
\<close>

theorem decode_canonical:
  assumes "n \<le> length len" "n \<le> 288" "\<And>i. i < n \<Longrightarrow> len ! i \<le> MAX_BITS" "length (sym h) = 288" "build h len n = Inr h'"
    and "MAX_BITS \<le> nbits s" "i < n" "0 < len ! i" "prefix_code (bits s) (len ! i) = rfc_code len n i"
  shows "decode src s h' = Inr (int i, skip (len ! i) s)"
proof -
  note h = built_table(1) [OF assms(1-5)]
  have c: "\<And>l. 1 \<le> l \<Longrightarrow> l \<le> MAX_BITS \<Longrightarrow> count h' ! l = num_len len n l" and sy: "sym h' ! place (count h') len i = i"
    using built_table(2) [OF assms(1-5)] assms(7,8) by (auto simp: canonical_def)
  let ?l = "len ! i"
  have l: "1 \<le> ?l" "?l \<le> MAX_BITS" using assms(3,7,8) by auto
  have "first_code (map (num_len len n) [0..<MAX_BITS + 1]) ?l = first_code (count h') ?l"
  proof (rule first_code_cong)
    fix k assume k: "1 \<le> k" "k < ?l"
    then have "k < MAX_BITS + 1" using l by simp
    then show "map (num_len len n) [0..<MAX_BITS + 1] ! k = count h' ! k" using c [of k] k l by (simp del: upt_Suc)
  qed
  then have p: "prefix_code (bits s) ?l = first_code (count h') ?l + num_len len i ?l"
    using assms(9) by (simp add: rfc_code_def)
  have "in_code h' (bits s) ?l" using p num_len_less [OF assms(7), of len] c [OF l] by (simp add: in_code_def)
  from walk_code [OF h l _ this] p have "walk h' 1 0 0 0 s = Inr (int (code_symbol h' (bits s) ?l), skip ?l s)" by simp
  moreover have "code_symbol h' (bits s) ?l = i" using sy by (simp add: code_symbol_def p place_def)
  ultimately show ?thesis using decode_eq_walk [OF h refl, of src s] assms(6) by simp
qed

lemma first_code_sum: "1 \<le> l \<Longrightarrow> first_code c l + c ! l = (\<Sum>k = 1..l. c ! k * 2 ^ (l - k))"
proof (induction l)
  case (Suc l)
  show ?case
  proof (cases "l = 0")
    case False
    have "(\<Sum>k = 1..l. c ! k * 2 ^ (Suc l - k)) = 2 * (\<Sum>k = 1..l. c ! k * 2 ^ (l - k))"
      by (auto simp: sum_distrib_left Suc_diff_le intro!: sum.cong)
    then show ?thesis using Suc False by simp
  qed simp
qed simp

lemma kraft_iff: "kraft c \<longleftrightarrow> (\<Sum>k = 1..MAX_BITS. c ! k * 2 ^ (MAX_BITS - k)) \<le> 2 ^ MAX_BITS"
proof -
  have "first_code c l + c ! l \<le> 2 ^ l" if k: "first_code c MAX_BITS + c ! MAX_BITS \<le> 2 ^ MAX_BITS" and l: "1 \<le> l" "l \<le> MAX_BITS" for l
  proof (cases "l = MAX_BITS")
    case False
    then have "(first_code c l + c ! l) * 2 ^ (MAX_BITS - l) \<le> first_code c MAX_BITS" using l by (intro first_code_grows) auto
    also have "\<dots> \<le> 2 ^ l * 2 ^ (MAX_BITS - l)" using k l by (simp add: power_add [symmetric])
    finally show ?thesis by simp
  qed (use k in simp)
  then have "kraft c \<longleftrightarrow> first_code c MAX_BITS + c ! MAX_BITS \<le> 2 ^ MAX_BITS"
    by (auto simp: kraft_def MAX_BITS_def)
  then show ?thesis using first_code_sum [of MAX_BITS c] by (simp add: MAX_BITS_def)
qed

lemma weights_by_length:
  assumes "\<And>i. i < n \<Longrightarrow> len ! i \<le> MAX_BITS"
  shows "(\<Sum>i | i < n \<and> 0 < len ! i. 2 ^ (MAX_BITS - len ! i)) = (\<Sum>k = 1..MAX_BITS. num_len len n k * 2 ^ (MAX_BITS - k))"
proof -
  have "(\<Sum>i | i < n \<and> 0 < len ! i. 2 ^ (MAX_BITS - len ! i) :: nat)
        = (\<Sum>k = 1..MAX_BITS. \<Sum>i | i \<in> {i. i < n \<and> 0 < len ! i} \<and> len ! i = k. 2 ^ (MAX_BITS - len ! i))"
    by (rule sum.group [symmetric]) (use assms in auto)
  also have "\<dots> = (\<Sum>k = 1..MAX_BITS. num_len len n k * 2 ^ (MAX_BITS - k))"
  proof (rule sum.cong [OF refl])
    fix k assume "k \<in> {1..MAX_BITS}"
    then have "{i. i \<in> {i. i < n \<and> 0 < len ! i} \<and> len ! i = k} = {i. i < n \<and> len ! i = k}" by auto
    then show "(\<Sum>i | i \<in> {i. i < n \<and> 0 < len ! i} \<and> len ! i = k. 2 ^ (MAX_BITS - len ! i)) = num_len len n k * 2 ^ (MAX_BITS - k)"
      by (simp add: num_len_def)
  qed
  finally show ?thesis .
qed

lemma build_if_kraft:
  assumes "n \<le> length len" "n \<le> 288" "\<And>i. i < n \<Longrightarrow> len ! i \<le> MAX_BITS" "length (sym h) = 288"
  shows "if (\<Sum>k = 1..MAX_BITS. num_len len n k * 2 ^ (MAX_BITS - k)) \<le> 2 ^ MAX_BITS
         then \<exists>h'. build h len n = Inr h' else build h len n = Inl Bad"
proof -
  obtain c where c: "\<forall>l. 1 \<le> l \<longrightarrow> l \<le> MAX_BITS \<longrightarrow> c ! l = num_len len n l"
    and b: "if kraft c then \<exists>h'. build h len n = Inr h' \<and> huff_ok n h' \<and> canonical len n h' else build h len n = Inl Bad"
    using build_cases [OF assms] by blast
  have "kraft c \<longleftrightarrow> (\<Sum>k = 1..MAX_BITS. num_len len n k * 2 ^ (MAX_BITS - k)) \<le> 2 ^ MAX_BITS"
    using c by (simp add: kraft_iff)
  then show ?thesis using b by (auto split: if_splits)
qed

text \<open>
  C33. \<open>build\<close> refuses exactly the over-subscribed sets of lengths, those that violate the Kraft
  inequality, and accepts every other set, incomplete ones included.
\<close>

theorem build_refuses_oversubscribed:
  assumes "n \<le> length len" "n \<le> 288" "\<And>i. i < n \<Longrightarrow> len ! i \<le> MAX_BITS" "length (sym h) = 288"
  shows "if (\<Sum>i | i < n \<and> 0 < len ! i. 2 ^ (MAX_BITS - len ! i)) > (2 ^ MAX_BITS :: nat)
         then build h len n = Inl Bad else \<exists>h'. build h len n = Inr h'"
proof -
  have w: "(\<Sum>i | i < n \<and> 0 < len ! i. 2 ^ (MAX_BITS - len ! i)) = (\<Sum>k = 1..MAX_BITS. num_len len n k * 2 ^ (MAX_BITS - k))"
    by (rule weights_by_length) (rule assms(3))
  show ?thesis unfolding w using build_if_kraft [OF assms] by (auto split: if_splits)
qed

section \<open>Examples\<close>

text \<open>Three symbols with the codes 0, 10 and 11, and one length too many.\<close>

definition ex_huff :: huff where
  "ex_huff = \<lparr>fast = [], count = [], sym = replicate 288 0\<rparr>"

definition ex_bits :: bitin where
  "ex_bits = \<lparr>bi_in = 0, bits = 3, nbits = 16, fake = 0\<rparr>"

lemma num_len_take: "n \<le> length len \<Longrightarrow> num_len len n l = count_list (take n len) l"
  by (induction n) (simp_all add: num_len_Suc take_Suc_conv_app_nth)

lemma ex_lengths: "i < 3 \<Longrightarrow> [1, 2, 2] ! i \<le> MAX_BITS" "i < 3 \<Longrightarrow> [1, 1, 2] ! i \<le> MAX_BITS"
  by (auto simp: MAX_BITS_def less_Suc_eq numeral_3_eq_3)

lemma ex_sym: "length (sym ex_huff) = 288"
  by (simp add: ex_huff_def)

lemma sum_lengths: "(\<Sum>k = 1..MAX_BITS. f k) = sum_list (map f [1, 2, 3, 4, 5, 6, 7, 8, 9, 10, 11, 12, 13, 14, 15 :: nat]) " for f :: "nat \<Rightarrow> nat"
proof -
  have "{1..MAX_BITS} = set [1..<16]" by (auto simp: MAX_BITS_def)
  also have "[1..<16] = [1, 2, 3, 4, 5, 6, 7, 8, 9, 10, 11, 12, 13, 14, 15]" by code_simp
  finally show ?thesis by (simp add: sum_list_distinct_conv_sum_set)
qed

lemma ex_kraft: "(\<Sum>k = 1..MAX_BITS. num_len [1, 2, 2] 3 k * 2 ^ (MAX_BITS - k)) \<le> 2 ^ MAX_BITS"
  "\<not> (\<Sum>k = 1..MAX_BITS. num_len [1, 1, 2] 3 k * 2 ^ (MAX_BITS - k)) \<le> 2 ^ MAX_BITS"
  unfolding sum_lengths by (simp_all add: num_len_take MAX_BITS_def)

theorem build_refuses_oversubscribed_witness:
  "build ex_huff [1, 1, 2] 3 = Inl Bad \<and> (\<exists>h'. build ex_huff [1, 2, 2] 3 = Inr h')"
proof -
  have w: "(\<Sum>i | i < 3 \<and> 0 < l ! i. 2 ^ (MAX_BITS - l ! i)) = (\<Sum>k = 1..MAX_BITS. num_len l 3 k * 2 ^ (MAX_BITS - k))"
    if "l = [1, 2, 2] \<or> l = [1, 1, 2]" for l by (rule weights_by_length) (use that ex_lengths in auto)
  show ?thesis
    using build_refuses_oversubscribed [of 3 "[1, 1, 2]", OF _ _ ex_lengths(2) ex_sym]
      build_refuses_oversubscribed [of 3 "[1, 2, 2]", OF _ _ ex_lengths(1) ex_sym] w ex_kraft
    by (auto split: if_splits)
qed

lemma ex_built: "\<exists>h'. build ex_huff [1, 2, 2] 3 = Inr h'"
  using build_if_kraft [of 3 "[1, 2, 2]", OF _ _ ex_lengths(1) ex_sym] ex_kraft by auto

theorem build_well_formed_witness:
  "\<exists>h'. build ex_huff [1, 2, 2] 3 = Inr h' \<and> length (fast h') = 1024 \<and> (\<forall>e\<in>set (fast h'). e = 0 \<or> e AND 511 < 3)"
proof -
  obtain h' where h': "build ex_huff [1, 2, 2] 3 = Inr h'" using ex_built by auto
  then show ?thesis using build_well_formed [of 3 "[1, 2, 2]", OF _ _ ex_lengths(1) ex_sym h'] by auto
qed

theorem decode_fast_exact_witness:
  "\<exists>h'. build ex_huff [1, 2, 2] 3 = Inr h' \<and> decode [] ex_bits h' = walk h' 1 0 0 0 ex_bits"
proof -
  obtain h' where h': "build ex_huff [1, 2, 2] 3 = Inr h'" using ex_built by auto
  have "decode [] ex_bits h' = walk h' 1 0 0 0 ex_bits"
    using decode_fast_exact [of 3 "[1, 2, 2]", OF _ _ ex_lengths(1) ex_sym h', of "[]" ex_bits]
    by (simp add: ex_bits_def MAX_BITS_def)
  with h' show ?thesis by blast
qed

theorem decode_canonical_witness:
  "\<exists>h'. build ex_huff [1, 2, 2] 3 = Inr h' \<and> decode [] ex_bits h' = Inr (2, skip 2 ex_bits)"
proof -
  obtain h' where h': "build ex_huff [1, 2, 2] 3 = Inr h'" using ex_built by auto
  have "prefix_code (bits ex_bits) ([1, 2, 2] ! 2) = rfc_code [1, 2, 2] 3 2"
    by (simp add: ex_bits_def rfc_code_def numeral_2_eq_2 num_len_take MAX_BITS_def nth_Cons' bit_1_iff)
  then have "decode [] ex_bits h' = Inr (int 2, skip 2 ex_bits)"
    using decode_canonical [of 3 "[1, 2, 2]", OF _ _ ex_lengths(1) ex_sym h', of ex_bits 2 "[]"]
    by (simp add: ex_bits_def MAX_BITS_def)
  with h' show ?thesis by auto
qed

end
