(* ===== verification/SpuChannel.thy ===== *)
theory SpuChannel
  imports Fifo
begin

text \<open>
  The channels between an SPU and the rest of the machine, \<^verbatim>\<open>spu_channel\<close>,
  \<^verbatim>\<open>spu_channel_write\<close>, \<^verbatim>\<open>spu_channel_read\<close> and \<^verbatim>\<open>spu_channel_has_data\<close> of
  \<^verbatim>\<open>src/runtime/spu/spu_context.h\<close>. The producer and the consumer are different host
  threads and each operation is one critical section of the channel's spin lock, so it is one
  step here; the lock word is not modelled. The head of the queue is cached in
  \<open>chan_value\<close>, which is what a read returns, also from an empty channel.
\<close>

text \<open>The size of the local store, of the same file.\<close>

definition SPU_LS_SIZE :: nat where "SPU_LS_SIZE = 0x40000"

section \<open>Channels\<close>

definition SPU_CHANNEL_CAP :: nat where "SPU_CHANNEL_CAP = 64"

record spu_channel =
  chan_value :: u32
  chan_count :: nat
  chan_q :: "nat \<Rightarrow> u32"
  chan_head :: nat

definition spu_channel_write :: "spu_channel \<Rightarrow> u32 \<Rightarrow> spu_channel" where
  "spu_channel_write c val =
     (if chan_count c \<ge> SPU_CHANNEL_CAP then c
      else let q = (chan_q c)((chan_head c + chan_count c) mod SPU_CHANNEL_CAP := val)
           in c\<lparr>chan_q := q, chan_value := q (chan_head c), chan_count := chan_count c + 1\<rparr>)"

definition spu_channel_read :: "spu_channel \<Rightarrow> u32 \<times> spu_channel" where
  "spu_channel_read c =
     (let val = chan_value c
      in if chan_count c \<noteq> 0
         then let h = (chan_head c + 1) mod SPU_CHANNEL_CAP
              in (val, c\<lparr>chan_head := h, chan_value := (if chan_count c > 1 then chan_q c h else val),
                        chan_count := chan_count c - 1\<rparr>)
         else (val, c))"

definition spu_channel_has_data :: "spu_channel \<Rightarrow> bool" where
  "spu_channel_has_data c \<longleftrightarrow> chan_count c > 0"

text \<open>The zeroed channel of a new context.\<close>

definition empty_channel :: spu_channel where
  "empty_channel = \<lparr>chan_value = 0, chan_count = 0, chan_q = \<lambda>_. 0, chan_head = 0\<rparr>"

section \<open>A channel is a queue\<close>

text \<open>
  What holds of every channel: the indices are in the array, and the cached value is the oldest
  entry.
\<close>

definition channel_ok :: "spu_channel \<Rightarrow> bool" where
  "channel_ok c \<longleftrightarrow> chan_head c < SPU_CHANNEL_CAP \<and> chan_count c \<le> SPU_CHANNEL_CAP \<and>
     (chan_count c > 0 \<longrightarrow> chan_value c = chan_q c (chan_head c))"

definition channel_items :: "spu_channel \<Rightarrow> u32 list" where
  "channel_items c = ring_items (chan_q c) (chan_head c) (chan_count c) SPU_CHANNEL_CAP"

definition channel_put :: "u32 \<Rightarrow> spu_channel \<Rightarrow> bool \<times> spu_channel" where
  "channel_put x c = (chan_count c < SPU_CHANNEL_CAP, spu_channel_write c x)"

definition channel_get :: "spu_channel \<Rightarrow> u32 option \<times> spu_channel" where
  "channel_get c = (if spu_channel_has_data c then Some (fst (spu_channel_read c)) else None, snd (spu_channel_read c))"

lemma length_channel_items [simp]: "length (channel_items c) = chan_count c"
  by (simp add: channel_items_def)

lemma channel_ok_write: "channel_ok c \<Longrightarrow> channel_ok (spu_channel_write c x)"
  by (simp add: channel_ok_def spu_channel_write_def Let_def)

lemma channel_ok_read: "channel_ok c \<Longrightarrow> channel_ok (snd (spu_channel_read c))"
  by (auto simp: channel_ok_def spu_channel_read_def Let_def SPU_CHANNEL_CAP_def)

lemma items_write:
  "chan_count c < SPU_CHANNEL_CAP \<Longrightarrow> channel_items (spu_channel_write c x) = channel_items c @ [x]"
  by (simp add: channel_items_def spu_channel_write_def Let_def ring_push)

lemma items_write_full: "\<not> chan_count c < SPU_CHANNEL_CAP \<Longrightarrow> spu_channel_write c x = c"
  by (simp add: spu_channel_write_def)

lemma items_read:
  assumes "channel_ok c" "chan_count c > 0"
  shows "channel_items c = fst (spu_channel_read c) # channel_items (snd (spu_channel_read c))"
  using assms by (simp add: channel_ok_def channel_items_def spu_channel_read_def Let_def ring_pop)

lemma read_empty: "chan_count c = 0 \<Longrightarrow> spu_channel_read c = (chan_value c, c)"
  by (simp add: spu_channel_read_def)

interpretation chan: bounded_fifo channel_ok "\<lambda>_. SPU_CHANNEL_CAP" channel_items channel_put channel_get
proof unfold_locales
  fix c x xs
  assume ok: "channel_ok c" and "channel_items c = x # xs"
  moreover from this have "chan_count c > 0" using length_channel_items [of c] by simp
  ultimately show "fst (channel_get c) = Some x \<and> channel_items (snd (channel_get c)) = xs"
    using items_read [of c] by (simp add: channel_get_def spu_channel_has_data_def)
next
  fix c
  assume "channel_ok c" "channel_items c = []"
  then have "chan_count c = 0" using length_channel_items [of c] by simp
  then show "fst (channel_get c) = None \<and> channel_items (snd (channel_get c)) = []"
    using \<open>channel_items c = []\<close> by (simp add: channel_get_def spu_channel_has_data_def read_empty)
qed (auto simp: channel_put_def channel_get_def channel_ok_write channel_ok_read items_write items_write_full,
    auto simp: channel_ok_def)



end
