(* ===== verification/SpuInflate.thy ===== *)
theory SpuInflate
  imports SpuHuffman SpuChannel
begin

unbundle bit_operations_syntax

text \<open>
  The blocks of the raw DEFLATE decoder, runtime/spu/spu_inflate.c, over the tables of
  SpuHuffman. The loop over blocks takes fuel and answers \<open>No_Fuel\<close> when it runs out; the
  other loops end by themselves.
\<close>

section \<open>Blocks\<close>

definition len_base :: "nat list" where
  "len_base = [3, 4, 5, 6, 7, 8, 9, 10, 11, 13, 15, 17, 19, 23, 27, 31,
               35, 43, 51, 59, 67, 83, 99, 115, 131, 163, 195, 227, 258]"

definition len_extra :: "nat list" where
  "len_extra = [0, 0, 0, 0, 0, 0, 0, 0, 1, 1, 1, 1, 2, 2, 2, 2,
                3, 3, 3, 3, 4, 4, 4, 4, 5, 5, 5, 5, 0]"

definition dist_base :: "nat list" where
  "dist_base = [1, 2, 3, 4, 5, 7, 9, 13, 17, 25, 33, 49, 65, 97, 129, 193,
                257, 385, 513, 769, 1025, 1537, 2049, 3073, 4097, 6145,
                8193, 12289, 16385, 24577]"

definition dist_extra :: "nat list" where
  "dist_extra = [0, 0, 0, 0, 1, 1, 2, 2, 3, 3, 4, 4, 5, 5, 6, 6,
                 7, 7, 8, 8, 9, 9, 10, 10, 11, 11, 12, 12, 13, 13]"

text \<open>\<open>memcpy\<close> for a distance of at least the length, the byte loop for an overlapping run.\<close>

definition copy_match :: "nat \<Rightarrow> nat \<Rightarrow> nat \<Rightarrow> u8 list \<Rightarrow> rc + u8 list" where
  "copy_match from to n dst =
     (if to - from \<ge> n
      then if to + n \<le> length dst
           then Inr (take to dst @ take n (drop from dst) @ drop (to + n) dst) else Inl Oob
      else for_each [0..<n] (\<lambda>i dst. andthen (rd dst (from + i)) (wr dst (to + i))) dst)"

text \<open>The length and distance after a length symbol, with their extra bits.\<close>

definition read_match :: "u8 list \<Rightarrow> huff \<Rightarrow> nat \<Rightarrow> bitin \<Rightarrow> rc + nat \<times> nat \<times> bitin" where
  "read_match src dist sm s =
     andthen (rd len_base sm) (\<lambda>lb. andthen (rd len_extra sm) (\<lambda>le.
     let (x, s) = getbits src le s; n = lb + x
     in andthen (decode src s dist) (\<lambda>(ds, s).
        if ds < 0 \<or> ds \<ge> 30 then Inl Bad
        else andthen (rd dist_base (nat ds)) (\<lambda>db. andthen (rd dist_extra (nat ds)) (\<lambda>de.
             let (y, s) = getbits src de s in Inr (n, db + y, s))))))"

text \<open>
  One turn of the loop of \<open>codes\<close>: \<open>Inl\<close> leaves the loop, with the result.
\<close>

definition codes_turn :: "u8 list \<Rightarrow> huff \<Rightarrow> huff \<Rightarrow> nat \<Rightarrow> bitin \<times> u8 list \<times> nat \<Rightarrow>
    rc \<times> bitin \<times> u8 list \<times> nat + bitin \<times> u8 list \<times> nat" where
  "codes_turn src lit dist cap st =
     (case st of (s, dst, o') \<Rightarrow>
      case decode src s lit of
        Inl e \<Rightarrow> Inl (e, s, dst, o')
      | Inr (sm, s) \<Rightarrow>
          if sm < 256 then
            if sm < 0 then Inl (Bad, s, dst, o')
            else if o' \<ge> cap then Inl (Full, s, dst, o')
            else (case wr dst o' (word_of_int sm) of
                    Inl e \<Rightarrow> Inl (e, s, dst, o')
                  | Inr dst \<Rightarrow> Inr (s, dst, o' + 1))
          else if sm = 256 then Inl (Ok, s, dst, o')
          else if sm - 257 \<ge> 29 then Inl (Bad, s, dst, o')
          else (case read_match src dist (nat (sm - 257)) s of
                  Inl e \<Rightarrow> Inl (e, s, dst, o')
                | Inr (n, d, s) \<Rightarrow>
                    if d > o' then Inl (Bad, s, dst, o')
                    else if n > cap - o' then Inl (Full, s, dst, o')
                    else (case copy_match (o' - d) o' n dst of
                            Inl e \<Rightarrow> Inl (e, s, dst, o')
                          | Inr dst \<Rightarrow> Inr (s, dst, o' + n))))"

lemma len_base_pos: "i < length len_base \<Longrightarrow> 3 \<le> len_base ! i"
proof -
  have "list_all (\<lambda>x. 3 \<le> x) len_base" by (simp add: len_base_def)
  then show "i < length len_base \<Longrightarrow> 3 \<le> len_base ! i" by (simp add: list_all_length)
qed

lemma read_match_pos: "read_match src dist sm s = Inr (n, d, s') \<Longrightarrow> 3 \<le> n"
  by (auto simp: read_match_def res_Inr Let_def split: prod.splits if_splits
      dest!: len_base_pos)

lemma codes_turn_progress:
  assumes "codes_turn src lit dist cap (s, dst, p) = Inr (s', dst', p')"
  shows "p < p' \<and> p' \<le> cap"
  using assms by (auto simp: codes_turn_def split: sum.splits prod.splits if_splits dest!: read_match_pos)

function codes :: "u8 list \<Rightarrow> huff \<Rightarrow> huff \<Rightarrow> nat \<Rightarrow> bitin \<times> u8 list \<times> nat \<Rightarrow> rc \<times> bitin \<times> u8 list \<times> nat" where
  "codes src lit dist cap st =
     (case codes_turn src lit dist cap st of Inl r \<Rightarrow> r | Inr st' \<Rightarrow> codes src lit dist cap st')"
  by pat_completeness auto
termination
  by (relation "measure (\<lambda>(src, lit, dist, cap, s, dst, p). cap - p)") (auto dest!: codes_turn_progress )

declare codes.simps [simp del]

definition fixed_tables :: "huff \<Rightarrow> huff \<Rightarrow> rc + huff \<times> huff" where
  "fixed_tables lit dist =
     (let l = replicate 144 8 @ replicate 112 9 @ replicate 24 7 @ replicate 8 8
      in andthen (build lit l 288) (\<lambda>lit.
         let l = replicate 30 5 @ drop 30 l
         in andthen (build dist l 30) (\<lambda>dist. Inr (lit, dist))))"

definition code_order :: "nat list" where
  "code_order = [16, 17, 18, 0, 8, 7, 9, 6, 10, 5, 11, 4, 12, 3, 13, 2, 14, 1, 15]"

text \<open>\<open>while (rep--) l[i++] = v\<close>\<close>

definition repeat_length :: "nat \<Rightarrow> nat \<Rightarrow> nat \<Rightarrow> nat list \<Rightarrow> rc + nat list" where
  "repeat_length i rep v l = for_each [i..<i + rep] (\<lambda>j l. wr l j v) l"

definition read_repeat :: "u8 list \<Rightarrow> int \<Rightarrow> nat \<Rightarrow> nat list \<Rightarrow> bitin \<Rightarrow> rc + nat \<times> nat \<times> bitin" where
  "read_repeat src sm i l s =
     (if sm = 16
      then if i = 0 then Inl Bad
           else andthen (rd l (i - 1)) (\<lambda>v. case getbits src 2 s of (x, s) \<Rightarrow> Inr (v, 3 + x, s))
      else if sm = 17 then (case getbits src 3 s of (x, s) \<Rightarrow> Inr (0, 3 + x, s))
      else (case getbits src 7 s of (x, s) \<Rightarrow> Inr (0, 11 + x, s)))"

lemma read_repeat_pos: "read_repeat src sm i l s = Inr (v, rep, s') \<Longrightarrow> 0 < rep"
  by (auto simp: read_repeat_def res_Inr split: prod.splits if_splits)

definition lengths_turn :: "u8 list \<Rightarrow> huff \<Rightarrow> nat \<Rightarrow> nat \<Rightarrow> nat list \<Rightarrow> bitin \<Rightarrow> rc + nat \<times> nat list \<times> bitin" where
  "lengths_turn src lc nl i l s =
     andthen (decode src s lc) (\<lambda>(sm, s).
       if sm < 0 then Inl Bad
       else if sm < 16 then andthen (wr l i (nat sm)) (\<lambda>l. Inr (i + 1, l, s))
       else andthen (read_repeat src sm i l s) (\<lambda>(v, rep, s). if i + rep > nl then Inl Bad
                           else andthen (repeat_length i rep v l) (\<lambda>l. Inr (i + rep, l, s))))"

lemma lengths_turn_progress: "lengths_turn src lc nl i l s = Inr (i', l', s') \<Longrightarrow> i < i'"
  by (auto simp: lengths_turn_def andthen_Inr split: prod.splits if_splits dest!: read_repeat_pos)

function read_lengths :: "u8 list \<Rightarrow> huff \<Rightarrow> nat \<Rightarrow> nat \<Rightarrow> nat list \<Rightarrow> bitin \<Rightarrow> rc + nat list \<times> bitin" where
  "read_lengths src lc nl i l s =
     (if i < nl
      then case lengths_turn src lc nl i l s of
             Inl e \<Rightarrow> Inl e
           | Inr (i', l', s') \<Rightarrow> read_lengths src lc nl i' l' s'
      else Inr (l, s))"
  by pat_completeness auto
termination
  by (relation "measure (\<lambda>(src, lc, nl, i, l, s). nl - i)") (auto dest!: lengths_turn_progress )

declare read_lengths.simps [simp del]

text \<open>
  The local arrays of the decoder start with unspecified contents, which \<open>inflate_locals\<close>
  holds: both tables, the table of code lengths \<open>lc\<close>, and the lengths \<open>l\<close>.
\<close>

record inflate_locals =
  lo_lit :: huff
  lo_dist :: huff
  lo_lc :: huff
  lo_l :: "nat list"

definition read_code_lengths :: "u8 list \<Rightarrow> nat \<Rightarrow> nat list \<Rightarrow> bitin \<Rightarrow> rc + nat list \<times> bitin" where
  "read_code_lengths src ncode l s =
     for_each [0..<ncode] (\<lambda>i (l, s). andthen (rd code_order i) (\<lambda>k.
        let (x, s) = getbits src 3 s in andthen (wr l k x) (\<lambda>l. Inr (l, s)))) (l, s)"

definition dynamic_tables :: "u8 list \<Rightarrow> inflate_locals \<Rightarrow> bitin \<Rightarrow> rc + huff \<times> huff \<times> bitin" where
  "dynamic_tables src lo s =
     (let (x, s) = getbits src 5 s; nlen = x + 257;
          (y, s) = getbits src 5 s; ndist = y + 1;
          (z, s) = getbits src 4 s; ncode = z + 4
      in if nlen > 286 \<or> ndist > 30 then Inl Bad
         else andthen (read_code_lengths src ncode (replicate 19 0 @ drop 19 (lo_l lo)) s) (\<lambda>(l, s).
              andthen (build (lo_lc lo) l 19) (\<lambda>lc.
              andthen (read_lengths src lc (nlen + ndist) 0 l s) (\<lambda>(l, s).
              andthen (rd l 256) (\<lambda>eob.
              if eob = 0 then Inl Bad
              else andthen (build (lo_lit lo) l nlen) (\<lambda>lit.
                   andthen (build (lo_dist lo) (drop nlen l) ndist) (\<lambda>dist. Inr (lit, dist, s))))))))"

text \<open>The two length fields at offset \<open>i\<close>, and the bytes after them.\<close>

definition stored_copy :: "u8 list \<Rightarrow> nat \<Rightarrow> nat \<Rightarrow> u8 list \<Rightarrow> nat \<Rightarrow> rc + bitin \<times> u8 list \<times> nat" where
  "stored_copy src cap i dst p =
     (if length src - i < 4 then Inl Bad
      else andthen (rd src i) (\<lambda>b0. andthen (rd src (i + 1)) (\<lambda>b1.
           andthen (rd src (i + 2)) (\<lambda>b2. andthen (rd src (i + 3)) (\<lambda>b3.
           let n = unat b0 OR push_bit 8 (unat b1)
           in if n XOR (unat b2 OR push_bit 8 (unat b3)) \<noteq> 0xFFFF then Inl Bad
              else if length src - (i + 4) < n then Inl Bad
              else if n > cap - p then Inl Full
              else if p + n > length dst \<or> i + 4 + n > length src then Inl Oob
              else Inr (\<lparr>bi_in = i + 4 + n, bits = 0, nbits = 0, fake = 0\<rparr>,
                        take p dst @ take n (drop (i + 4) src) @ drop (p + n) dst, p + n))))))"

definition stored_block :: "u8 list \<Rightarrow> nat \<Rightarrow> bitin \<Rightarrow> u8 list \<Rightarrow> nat \<Rightarrow> rc + bitin \<times> u8 list \<times> nat" where
  "stored_block src cap s dst p =
     (let (_, s) = getbits src (nbits s AND 7) s
      in if fake s > nbits s then Inl Bad
         else if (nbits s - fake s) div 8 > bi_in s then Inl Oob
         else stored_copy src cap (bi_in s - (nbits s - fake s) div 8) dst p)"

text \<open>
  One turn of the loop over blocks. \<open>Inl\<close> returns, with the value, the destination and what
  \<open>*out_len\<close> holds; \<open>Inr\<close> goes on.
\<close>

definition block_turn :: "u8 list \<Rightarrow> nat \<Rightarrow> nat \<Rightarrow> inflate_locals \<Rightarrow> bitin \<Rightarrow> u8 list \<Rightarrow> nat \<Rightarrow>
    rc \<times> u8 list \<times> nat + inflate_locals \<times> bitin \<times> u8 list \<times> nat" where
  "block_turn src cap type lo s dst p =
     (if type = 0 then
        (case stored_block src cap s dst p of
           Inl e \<Rightarrow> Inl (e, dst, 0)
         | Inr (s, dst, p) \<Rightarrow> Inr (lo, s, dst, p))
      else if type = 1 \<or> type = 2 then
        (case (if type = 1 then andthen (fixed_tables (lo_lit lo) (lo_dist lo)) (\<lambda>(lit, dist). Inr (lit, dist, s))
               else dynamic_tables src lo s) of
           Inl e \<Rightarrow> Inl (e, dst, 0)
         | Inr (lit, dist, s) \<Rightarrow>
             (case codes src lit dist cap (s, dst, p) of
                (r, s, dst, p') \<Rightarrow> if r \<noteq> Ok then Inl (r, dst, p)
                                    else Inr (lo\<lparr>lo_lit := lit, lo_dist := dist\<rparr>, s, dst, p')))
      else Inl (Bad, dst, 0))"

fun inflate_blocks :: "nat \<Rightarrow> u8 list \<Rightarrow> nat \<Rightarrow> inflate_locals \<Rightarrow> bitin \<Rightarrow> u8 list \<Rightarrow> nat \<Rightarrow> rc \<times> u8 list \<times> nat" where
  "inflate_blocks 0 src cap lo s dst p = (No_Fuel, dst, 0)"
| "inflate_blocks (Suc fuel) src cap lo s dst p =
     (let (last', s) = getbits src 1 s; (type, s) = getbits src 2 s
      in case block_turn src cap type lo s dst p of
           Inl r \<Rightarrow> r
         | Inr (lo, s, dst, p) \<Rightarrow>
             if fake s > nbits s then (Bad, dst, 0)
             else if last' = 0 then inflate_blocks fuel src cap lo s dst p
             else (Ok, dst, p))"

definition ps3_inflate_raw :: "inflate_locals \<Rightarrow> u8 list \<Rightarrow> nat \<Rightarrow> u8 list \<Rightarrow> rc \<times> u8 list \<times> nat" where
  "ps3_inflate_raw lo dst cap src =
     inflate_blocks (8 * length src + 1) src cap lo \<lparr>bi_in = 0, bits = 0, nbits = 0, fake = 0\<rparr> dst 0"

section \<open>Memory\<close>

lemma nth_upd_if: "xs[i := v] ! j = (if i = j \<and> j < length xs then v else xs ! j)"
  by (cases "i = j"; cases "j < length xs") (auto simp: list_update_beyond)

text \<open>The destination keeps its size and every byte from \<open>cap\<close> on.\<close>

definition within :: "nat \<Rightarrow> u8 list \<Rightarrow> u8 list \<Rightarrow> bool" where
  "within cap dst dst' \<longleftrightarrow> length dst' = length dst \<and> (\<forall>j. cap \<le> j \<longrightarrow> j < length dst \<longrightarrow> dst' ! j = dst ! j)"

lemma within_refl [simp]: "within cap dst dst"
  by (simp add: within_def)

lemma within_trans: "within cap a b \<Longrightarrow> within cap b c \<Longrightarrow> within cap a c"
  by (simp add: within_def)

lemma within_update: "p < cap \<Longrightarrow> within cap dst (dst[p := v])"
  by (simp add: within_def)

lemma within_splice:
  assumes "p + n \<le> cap" "cap \<le> length dst" "length xs = n"
  shows "within cap dst (take p dst @ xs @ drop (p + n) dst)"
  using assms by (auto simp: within_def nth_append)

lemma copy_match_ok:
  assumes "from \<le> to" "to + n \<le> cap" "cap \<le> length dst"
  shows "\<exists>dst'. copy_match from to n dst = Inr dst' \<and> within cap dst dst'"
proof (cases "to - from \<ge> n")
  case True
  then show ?thesis using assms within_splice [of to n cap dst "take n (drop from dst)"] by (simp add: copy_match_def)
next
  case False
  have "\<exists>dst'. for_each [0..<n] (\<lambda>i dst. andthen (rd dst (from + i)) (wr dst (to + i))) dst = Inr dst' \<and> within cap dst dst'"
  proof (rule for_each_inv [where P = "\<lambda>i. within cap dst"], goal_cases)
    case (3 i x)
    then have "length x = length dst" by (simp add: within_def)
    then have "within cap x (x[to + i := x ! (from + i)])" "from + i < length x" "to + i < length x"
      using 3 assms by (auto intro: within_update)
    then show ?case using 3 by (auto simp: andthen_def rd_or_def wr_or_def intro: within_trans)
  qed simp_all
  then show ?thesis using False by (simp add: copy_match_def)
qed

lemma extra_bits: "i < 29 \<Longrightarrow> len_extra ! i \<le> 5" "i < 30 \<Longrightarrow> dist_extra ! i \<le> 13"
proof -
  have "list_all (\<lambda>x. x \<le> 5) len_extra" "list_all (\<lambda>x. x \<le> 13) dist_extra" "length len_extra = 29" "length dist_extra = 30"
    by (simp_all add: len_extra_def dist_extra_def)
  then show "i < 29 \<Longrightarrow> len_extra ! i \<le> 5" "i < 30 \<Longrightarrow> dist_extra ! i \<le> 13" by (simp_all add: list_all_length)
qed

lemma read_match_ok:
  assumes h: "huff_ok k dist" and sm: "sm < 29"
  shows "read_match src dist sm s = Inl Bad \<or> (\<exists>n d s'. read_match src dist sm s = Inr (n, d, s') \<and> spends src 33 s s')"
proof -
  have L: "length len_base = 29" "length len_extra = 29" "length dist_base = 30" "length dist_extra = 30"
    by (simp_all add: len_base_def len_extra_def dist_base_def dist_extra_def)
  obtain x s1 where g: "getbits src (len_extra ! sm) s = (x, s1)" by fastforce
  obtain ds s2 where d: "decode src s1 dist = Inr (ds, s2)" "spends src MAX_BITS s1 s2" using decode_ok [OF h] by blast
  have s1: "spends src 5 s s1" using getbits_spends [OF g] extra_bits(1) [OF sm] by (auto intro: spends_mono)
  show ?thesis
  proof (cases "ds < 0 \<or> ds \<ge> 30")
    case True
    then show ?thesis using L sm g d by (simp add: read_match_def rd_or_def andthen_def)
  next
    case False
    obtain y s3 where g3: "getbits src (dist_extra ! nat ds) s2 = (y, s3)" by fastforce
    have "nat ds < 30" using False by linarith
    then have "spends src 13 s2 s3" using getbits_spends [OF g3] extra_bits(2) [of "nat ds"] by (auto intro: spends_mono)
    then have "spends src 28 s1 s3" using spends_trans [OF d(2)] by (simp add: MAX_BITS_def)
    then have "spends src 33 s s3" using spends_trans [OF s1] by simp
    then show ?thesis using L sm g d g3 False by (auto simp: read_match_def rd_or_def andthen_def)
  qed
qed

lemma codes_turn_ok:
  assumes lit: "huff_ok k lit" and dist: "huff_ok k' dist" and cap: "p \<le> cap" "cap \<le> length dst"
  shows "case codes_turn src lit dist cap (s, dst, p) of
           Inl (r, s', dst', p') \<Rightarrow> r \<noteq> Oob \<and> r \<noteq> No_Fuel \<and> dst' = dst \<and> p' = p \<and> spends src 48 s s'
         | Inr (s', dst', p') \<Rightarrow> within cap dst dst' \<and> p < p' \<and> p' \<le> cap \<and> spends src 48 s s'"
proof -
  obtain v s1 where d: "decode src s lit = Inr (v, s1)" "spends src MAX_BITS s s1" using decode_ok [OF lit] by blast
  have s1: "spends src 48 s s1" using d(2) by (rule spends_mono) (simp add: MAX_BITS_def)
  consider "v < 256" | "v = 256" | "v \<ge> 286" | "257 \<le> v" "v < 286" by linarith
  then show ?thesis
  proof cases
    case 4
    let ?sm = "nat (v - 257)"
    have "?sm < 29" using 4 by simp
    from read_match_ok [OF dist this, of src s1] consider "read_match src dist ?sm s1 = Inl Bad"
      | n m s2 where "read_match src dist ?sm s1 = Inr (n, m, s2)" "spends src 33 s1 s2" by auto
    then show ?thesis
    proof cases
      case 1
      then show ?thesis using d s1 4 by (simp add: codes_turn_def)
    next
      case 2
      have s2: "spends src 48 s s2" using spends_trans [OF d(2) 2(2)] by (simp add: MAX_BITS_def)
      have n: "3 \<le> n" using 2(1) by (rule read_match_pos)
      show ?thesis
      proof (cases "m > p \<or> n > cap - p")
        case True
        then show ?thesis using d 2 4 s2 by (auto simp: codes_turn_def)
      next
        case False
        then have "p + n \<le> cap" using cap by linarith
        then obtain dst' where "copy_match (p - m) p n dst = Inr dst'" "within cap dst dst'"
          using copy_match_ok [of "p - m" p n cap dst] cap by auto
        then show ?thesis using False d 2 4 s2 n cap by (auto simp: codes_turn_def)
      qed
    qed
  qed (use d s1 cap in \<open>auto simp: codes_turn_def wr_or_def intro: within_update\<close>)
qed

lemma codes_ok:
  assumes "huff_ok k lit" "huff_ok k' dist" "p \<le> cap" "cap \<le> length dst" "codes src lit dist cap (s, dst, p) = (r, s', dst', p')"
  shows "r \<noteq> Oob \<and> r \<noteq> No_Fuel \<and> within cap dst dst' \<and> p \<le> p' \<and> p' \<le> cap \<and> spends src (48 * (cap - p) + 48) s s'"
  using assms
proof (induction "cap - p" arbitrary: s dst p rule: less_induct)
  case less
  note T = codes_turn_ok [OF less(2,3,4,5), of src s]
  show ?case
  proof (cases "codes_turn src lit dist cap (s, dst, p)")
    case (Inl x)
    then have x: "x = (r, s', dst', p')" using less(6) by (simp add: codes.simps)
    then show ?thesis using T Inl less(4) spends_mono [of src 48 s s' "48 * (cap - p) + 48"] by simp
  next
    case (Inr y)
    obtain s1 dst1 p1 where y: "y = (s1, dst1, p1)" by (metis prod_cases3)
    have t: "within cap dst dst1" "p < p1" "p1 \<le> cap" "spends src 48 s s1" using T Inr y by auto
    have c: "codes src lit dist cap (s1, dst1, p1) = (r, s', dst', p')" using less(6) Inr y by (simp add: codes.simps)
    have "cap - p1 < cap - p" "cap \<le> length dst1" using t less(5) by (auto simp: within_def)
    from less(1) [OF this(1) less(2,3) t(3) this(2) c]
    have R: "r \<noteq> Oob \<and> r \<noteq> No_Fuel \<and> within cap dst1 dst' \<and> p1 \<le> p' \<and> p' \<le> cap \<and> spends src (48 * (cap - p1) + 48) s1 s'" .
    moreover have "spends src (48 * (cap - p) + 48) s s'"
      by (rule spends_trans [OF t(4)]) (use R t in auto)
    ultimately show ?thesis using t by (auto intro: within_trans)
  qed
qed

section \<open>Tables of a block\<close>

definition locals_ok :: "inflate_locals \<Rightarrow> bool" where
  "locals_ok lo \<longleftrightarrow> length (sym (lo_lit lo)) = 288 \<and> length (sym (lo_dist lo)) = 288 \<and>
     length (sym (lo_lc lo)) = 288 \<and> length (lo_l lo) = 320"

lemma huff_ok_sym: "huff_ok n h \<Longrightarrow> length (sym h) = 288"
  by (simp add: huff_ok_def)

definition fixed_lit :: "nat list" where
  "fixed_lit = replicate 144 8 @ replicate 112 9 @ replicate 24 7 @ replicate 8 8"

definition fixed_dist :: "nat list" where
  "fixed_dist = replicate 30 5 @ drop 30 fixed_lit"

lemma fixed_lengths:
  "length fixed_lit = 288" "length fixed_dist = 288" "i < 288 \<Longrightarrow> fixed_lit ! i \<le> MAX_BITS" "i < 30 \<Longrightarrow> fixed_dist ! i \<le> MAX_BITS"
proof -
  show l: "length fixed_lit = 288" "length fixed_dist = 288" by (simp_all add: fixed_lit_def fixed_dist_def del: replicate.simps)
  have "\<forall>x\<in>set fixed_lit. x \<le> MAX_BITS" by (auto simp: fixed_lit_def MAX_BITS_def simp del: replicate.simps)
  then show "i < 288 \<Longrightarrow> fixed_lit ! i \<le> MAX_BITS" using l by (metis nth_mem)
  show "i < 30 \<Longrightarrow> fixed_dist ! i \<le> MAX_BITS" by (simp add: fixed_dist_def nth_append MAX_BITS_def del: replicate.simps)
qed

lemma fixed_kraft:
  "(\<Sum>k = 1..MAX_BITS. num_len fixed_lit 288 k * 2 ^ (MAX_BITS - k)) \<le> 2 ^ MAX_BITS"
  "(\<Sum>k = 1..MAX_BITS. num_len fixed_dist 30 k * 2 ^ (MAX_BITS - k)) \<le> 2 ^ MAX_BITS"
proof -
  have c: "count_list (replicate n x) k = (if x = k then n else 0)" for n and x k :: nat by (induction n) auto
  have "num_len fixed_lit 288 k = count_list fixed_lit k" for k
    using num_len_take [of 288 fixed_lit k] fixed_lengths(1) by simp
  then show "(\<Sum>k = 1..MAX_BITS. num_len fixed_lit 288 k * 2 ^ (MAX_BITS - k)) \<le> 2 ^ MAX_BITS"
    unfolding sum_lengths by (simp add: fixed_lit_def c MAX_BITS_def del: replicate.simps)
  have "take 30 fixed_dist = replicate 30 5" by (simp add: fixed_dist_def del: replicate.simps)
  then have "num_len fixed_dist 30 k = (if 5 = k then 30 else 0)" for k
    using num_len_take [of 30 fixed_dist k] fixed_lengths(2) c [of 30 5 k] by simp
  then show "(\<Sum>k = 1..MAX_BITS. num_len fixed_dist 30 k * 2 ^ (MAX_BITS - k)) \<le> 2 ^ MAX_BITS"
    unfolding sum_lengths by (simp add: MAX_BITS_def)
qed

text \<open>The fixed tables are always accepted, so that ignoring the result of \<open>build\<close> is harmless.\<close>

lemma fixed_tables_ok:
  assumes "length (sym lit) = 288" "length (sym dist) = 288"
  shows "\<exists>lit' dist'. fixed_tables lit dist = Inr (lit', dist') \<and> huff_ok 288 lit' \<and> huff_ok 30 dist'"
proof -
  have n: "288 \<le> length fixed_lit" "30 \<le> length fixed_dist" using fixed_lengths by simp_all
  obtain lit' where l: "build lit fixed_lit 288 = Inr lit'"
    using build_if_kraft [OF n(1) _ fixed_lengths(3) assms(1)] fixed_kraft(1) by auto
  obtain dist' where d: "build dist fixed_dist 30 = Inr dist'"
    using build_if_kraft [OF n(2) _ fixed_lengths(4) assms(2)] fixed_kraft(2) by auto
  have "huff_ok 288 lit'" by (rule built_table(1) [OF n(1) _ fixed_lengths(3) assms(1) l]) auto
  moreover have "huff_ok 30 dist'" by (rule built_table(1) [OF n(2) _ fixed_lengths(4) assms(2) d]) auto
  ultimately show ?thesis using l d by (simp add: fixed_tables_def fixed_dist_def fixed_lit_def andthen_def Let_def del: replicate.simps)
qed

lemma read_code_lengths_ok:
  assumes "n \<le> 19" "19 \<le> length l" "\<forall>i<19. l ! i \<le> MAX_BITS"
  shows "\<exists>l' s'. read_code_lengths src n l s = Inr (l', s') \<and> length l' = length l \<and> (\<forall>i<19. l' ! i \<le> MAX_BITS) \<and> spends src 57 s s'"
proof -
  have ord: "i < 19 \<Longrightarrow> code_order ! i < 19" "length code_order = 19" for i
  proof -
    have "list_all (\<lambda>x. x < 19) code_order" "length code_order = 19" by (simp_all add: code_order_def)
    then show "i < 19 \<Longrightarrow> code_order ! i < 19" "length code_order = 19" by (simp_all add: list_all_length)
  qed
  let ?P = "\<lambda>i (l', s'). length l' = length l \<and> (\<forall>i<19. l' ! i \<le> MAX_BITS) \<and> spends src (3 * i) s s'"
  have "\<exists>r. read_code_lengths src n l s = Inr r \<and> ?P n r"
    unfolding read_code_lengths_def
  proof (rule for_each_inv [where P = ?P], goal_cases)
    case (3 i st)
    obtain l1 s1 where st: "st = (l1, s1)" by (cases st)
    obtain x s2 where g: "getbits src 3 s1 = (x, s2)" by fastforce
    have x: "x \<le> MAX_BITS" using getbits_bound [OF g] by (simp add: MAX_BITS_def)
    have "spends src (3 * Suc i) s s2" using 3 st getbits_spends [OF g] by (auto intro: spends_trans)
    moreover have "\<forall>j<19. l1[code_order ! i := x] ! j \<le> MAX_BITS"
      using 3 st x by (auto simp: nth_upd_if)
    ultimately show ?case using 3 st g ord(1) [of i] ord(2) assms by (auto simp: andthen_def rd_or_def wr_or_def)
  qed (use assms in auto)
  then obtain l' s' where "read_code_lengths src n l s = Inr (l', s')" "?P n (l', s')" by auto
  moreover have "spends src 57 s s'" by (rule spends_mono [of src "3 * n"]) (use calculation assms in auto)
  ultimately show ?thesis by auto
qed

lemma repeat_length_ok:
  assumes "i + rep \<le> length l"
  shows "\<exists>l'. repeat_length i rep v l = Inr l' \<and> length l' = length l \<and> (\<forall>j<i. l' ! j = l ! j) \<and> (\<forall>j. i \<le> j \<longrightarrow> j < i + rep \<longrightarrow> l' ! j = v)"
  unfolding repeat_length_def
proof (rule for_each_inv [where P = "\<lambda>k l'. length l' = length l \<and> (\<forall>j<i. l' ! j = l ! j) \<and> (\<forall>j. i \<le> j \<longrightarrow> j < k \<longrightarrow> l' ! j = v)"], goal_cases)
  case (3 k x)
  then show ?case using assms by (auto simp: wr_or_def nth_upd_if less_Suc_eq)
qed auto

lemma read_repeat_ok:
  assumes "i \<le> length l" "\<forall>j<i. l ! j \<le> MAX_BITS"
  shows "read_repeat src sm i l s = Inl Bad \<or>
    (\<exists>v rep s'. read_repeat src sm i l s = Inr (v, rep, s') \<and> v \<le> MAX_BITS \<and> spends src 7 s s')"
proof -
  have "spends src 7 s s'" if "getbits src n s = (x, s')" "n \<le> 7" for n x s'
    using getbits_spends [OF that(1)] that(2) by (auto intro: spends_mono)
  then show ?thesis using assms by (auto simp: read_repeat_def andthen_def rd_or_def split: prod.splits)
qed

lemma lengths_turn_ok:
  assumes h: "huff_ok 19 lc" and i: "i < nl" "nl \<le> length l" and l: "\<forall>j<i. l ! j \<le> MAX_BITS"
  shows "lengths_turn src lc nl i l s = Inl Bad \<or> (\<exists>i' l' s'. lengths_turn src lc nl i l s = Inr (i', l', s') \<and>
    i < i' \<and> i' \<le> nl \<and> length l' = length l \<and> (\<forall>j<i'. l' ! j \<le> MAX_BITS) \<and> spends src 22 s s')"
proof -
  obtain v s1 where d: "decode src s lc = Inr (v, s1)" "v < 19" "spends src MAX_BITS s s1"
    using decode_ok [OF h, of src s] by auto
  consider "v < 0" | "0 \<le> v" "v < 16" | "16 \<le> v" by linarith
  then show ?thesis
  proof cases
    case 1
    then show ?thesis using d by (simp add: lengths_turn_def andthen_def)
  next
    case 2
    have "spends src 22 s s1" using d(3) by (rule spends_mono) (simp add: MAX_BITS_def)
    moreover have "\<forall>j<i + 1. l[i := nat v] ! j \<le> MAX_BITS" using 2 l i by (auto simp: nth_upd_if MAX_BITS_def)
    ultimately show ?thesis using d 2 i by (simp add: lengths_turn_def andthen_def wr_or_def)
  next
    case 3
    from read_repeat_ok [of i l src v s1] i l consider "read_repeat src v i l s1 = Inl Bad"
      | x rep s2 where "read_repeat src v i l s1 = Inr (x, rep, s2)" "x \<le> MAX_BITS" "spends src 7 s1 s2" by auto
    then show ?thesis
    proof cases
      case 1
      then show ?thesis using d 3 by (simp add: lengths_turn_def andthen_def)
    next
      case 2
      have sp: "spends src 22 s s2" using spends_trans [OF d(3) 2(3)] by (simp add: MAX_BITS_def)
      have pos: "0 < rep" using 2(1) by (rule read_repeat_pos)
      show ?thesis
      proof (cases "i + rep > nl")
        case True
        then show ?thesis using d 3 2 by (simp add: lengths_turn_def andthen_def)
      next
        case False
        then obtain l' where r: "repeat_length i rep x l = Inr l'" "length l' = length l" "\<forall>j<i. l' ! j = l ! j"
          "\<forall>j. i \<le> j \<longrightarrow> j < i + rep \<longrightarrow> l' ! j = x" using repeat_length_ok [of i rep l x] i by auto
        have "l' ! j \<le> MAX_BITS" if "j < i + rep" for j using r l 2(2) that by (cases "j < i") auto
        then show ?thesis using False r d 3 2 sp pos by (simp add: lengths_turn_def andthen_def)
      qed
    qed
  qed
qed

lemma read_lengths_ok:
  assumes h: "huff_ok 19 lc"
  shows "i \<le> nl \<Longrightarrow> nl \<le> length l \<Longrightarrow> \<forall>j<i. l ! j \<le> MAX_BITS \<Longrightarrow>
    read_lengths src lc nl i l s = Inl Bad \<or> (\<exists>l' s'. read_lengths src lc nl i l s = Inr (l', s') \<and>
      length l' = length l \<and> (\<forall>j<nl. l' ! j \<le> MAX_BITS) \<and> spends src (22 * (nl - i)) s s')"
proof (induction "nl - i" arbitrary: i l s rule: less_induct)
  case less
  show ?case
  proof (cases "i < nl")
    case True
    from lengths_turn_ok [OF h True less(3,4), of src s] consider "lengths_turn src lc nl i l s = Inl Bad"
      | i' l' s' where "lengths_turn src lc nl i l s = Inr (i', l', s')" "i < i'" "i' \<le> nl" "length l' = length l"
        "\<forall>j<i'. l' ! j \<le> MAX_BITS" "spends src 22 s s'" by auto
    then show ?thesis
    proof cases
      case 1
      then show ?thesis using True by (simp add: read_lengths.simps)
    next
      case 2
      have sp: "spends src (22 * (nl - i)) s s2" if "spends src (22 * (nl - i')) s' s2" for s2
        by (rule spends_trans [OF 2(6) that]) (use 2 in simp)
      have eq: "read_lengths src lc nl i l s = read_lengths src lc nl i' l' s'"
        using True 2(1) by (simp add: read_lengths.simps [of src lc nl i])
      from less(1) [of i' l' s'] 2 less(3) True show ?thesis unfolding eq using sp by fastforce
    qed
  qed (use less in \<open>simp add: read_lengths.simps\<close>)
qed

lemma dynamic_tables_ok:
  assumes lo: "locals_ok lo"
  shows "dynamic_tables src lo s = Inl Bad \<or> (\<exists>lit dist s' m k. dynamic_tables src lo s = Inr (lit, dist, s') \<and>
    huff_ok m lit \<and> huff_ok k dist \<and> spends src 8000 s s')"
proof -
  obtain x s1 y s2 z s3 where g: "getbits src 5 s = (x, s1)" "getbits src 5 s1 = (y, s2)" "getbits src 4 s2 = (z, s3)"
    by (metis surj_pair)
  have z: "z + 4 \<le> 19" using getbits_bound [OF g(3)] by simp
  have s3: "spends src 14 s s3"
    using spends_trans [OF getbits_spends [OF g(1)] spends_trans [OF getbits_spends [OF g(2)] getbits_spends [OF g(3)]], of 9 14] by simp
  let ?l0 = "replicate 19 0 @ drop 19 (lo_l lo)" and ?nl = "x + 257" and ?nd = "y + 1"
  show ?thesis
  proof (cases "?nl > 286 \<or> ?nd > 30")
    case True
    then show ?thesis using g by (simp add: dynamic_tables_def)
  next
    case False
    have "19 \<le> length ?l0" "\<forall>i<19. ?l0 ! i \<le> MAX_BITS" by (auto simp: nth_append simp del: replicate.simps)
    from read_code_lengths_ok [OF z this, of src s3] obtain l1 s4 where
      r: "read_code_lengths src (z + 4) ?l0 s3 = Inr (l1, s4)" "length l1 = length ?l0" "\<forall>i<19. l1 ! i \<le> MAX_BITS" "spends src 57 s3 s4"
      by blast
    have ll: "length l1 = 320" using r(2) lo by (simp add: locals_ok_def del: replicate.simps)
    have n19: "19 \<le> length l1" using ll by simp
    show ?thesis
    proof (cases "build (lo_lc lo) l1 19")
      case (Inl e)
      then have "e = Bad" using build_ok [OF n19, of "lo_lc lo"] r(3) lo by (auto simp: locals_ok_def)
      then show ?thesis using False g r Inl by (simp add: dynamic_tables_def andthen_def del: replicate.simps)
    next
      case (Inr lc)
      have lc: "huff_ok 19 lc" by (rule built_table(1) [OF n19 _ _ _ Inr]) (use r(3) lo in \<open>auto simp: locals_ok_def\<close>)
      have "?nl + ?nd \<le> length l1" using False ll by simp
      from read_lengths_ok [OF lc le0 this] consider "read_lengths src lc (?nl + ?nd) 0 l1 s4 = Inl Bad"
        | l2 s5 where "read_lengths src lc (?nl + ?nd) 0 l1 s4 = Inr (l2, s5)" "length l2 = length l1"
          "\<forall>j<?nl + ?nd. l2 ! j \<le> MAX_BITS" "spends src (22 * (?nl + ?nd)) s4 s5" by fastforce
      then show ?thesis
      proof cases
        case 1
        then show ?thesis using False g r Inr by (simp add: dynamic_tables_def andthen_def del: replicate.simps)
      next
        case 2
        note nine = g r Inr 2
        have n1: "?nl \<le> length l2" "?nl \<le> 288" "\<And>i. i < ?nl \<Longrightarrow> l2 ! i \<le> MAX_BITS" "length (sym (lo_lit lo)) = 288"
          using 2 ll False lo by (auto simp: locals_ok_def)
        have n2: "?nd \<le> length (drop ?nl l2)" "?nd \<le> 288" "\<And>i. i < ?nd \<Longrightarrow> drop ?nl l2 ! i \<le> MAX_BITS" "length (sym (lo_dist lo)) = 288"
          using 2 ll False lo by (auto simp: locals_ok_def)
        have "spends src (57 + 22 * (?nl + ?nd)) s3 s5" by (rule spends_trans [OF r(4) 2(4)]) simp
        then have sp: "spends src 8000 s s5" by (rule spends_trans [OF s3]) (use False in simp)
        have b: "rd l2 256 = Inr (l2 ! 256)" using 2 ll by (simp add: rd_or_def)
        show ?thesis
        proof (cases "l2 ! 256 = 0")
          case True
          then show ?thesis using False nine b by (simp add: dynamic_tables_def andthen_def del: replicate.simps)
        next
          case eob: False
          from build_ok [OF n1] build_ok [OF n2] show ?thesis
            using False nine b eob sp by (auto simp: dynamic_tables_def andthen_def simp del: replicate.simps)
        qed
      qed
    qed
  qed
qed

section \<open>The loop over blocks\<close>

definition stored_len :: "u8 list \<Rightarrow> nat \<Rightarrow> nat" where
  "stored_len src i = unat (src ! i) OR push_bit 8 (unat (src ! (i + 1)))"

lemma stored_copy_eq:
  assumes "\<not> length src - i < 4"
  shows "stored_copy src cap i dst p =
    (if stored_len src i XOR stored_len src (i + 2) \<noteq> 0xFFFF then Inl Bad
     else if length src - (i + 4) < stored_len src i then Inl Bad
     else if stored_len src i > cap - p then Inl Full
     else if p + stored_len src i > length dst \<or> i + 4 + stored_len src i > length src then Inl Oob
     else Inr (\<lparr>bi_in = i + 4 + stored_len src i, bits = 0, nbits = 0, fake = 0\<rparr>,
               take p dst @ take (stored_len src i) (drop (i + 4) src) @ drop (p + stored_len src i) dst,
               p + stored_len src i))"
proof -
  have r: "rd src i = Inr (src ! i)" "rd src (i + 1) = Inr (src ! (i + 1))" "rd src (i + 2) = Inr (src ! (i + 2))"
    "rd src (i + 3) = Inr (src ! (i + 3))" using assms by (auto simp: rd_or_def)
  have two: "stored_len src (i + 2) = unat (src ! (i + 2)) OR push_bit 8 (unat (src ! (i + 3)))"
  proof -
    have "i + 2 + 1 = i + 3" by simp
    then show ?thesis by (simp only: stored_len_def)
  qed
  show ?thesis unfolding stored_copy_def r two stored_len_def [of src i] andthen_def sum.case Let_def if_not_P [OF assms] ..
qed

lemma stored_copy_ok:
  assumes cap: "p \<le> cap" "cap \<le> length dst"
  shows "stored_copy src cap i dst p = Inl Bad \<or> stored_copy src cap i dst p = Inl Full \<or>
    (\<exists>n dst'. stored_copy src cap i dst p = Inr (\<lparr>bi_in = i + 4 + n, bits = 0, nbits = 0, fake = 0\<rparr>, dst', p + n) \<and>
      i + 4 + n \<le> length src \<and> within cap dst dst' \<and> p + n \<le> cap)"
proof (cases "length src - i < 4")
  case False
  let ?n = "stored_len src i"
  have w: "within cap dst (take p dst @ take ?n (drop (i + 4) src) @ drop (p + ?n) dst)"
    if "?n \<le> cap - p" "i + 4 + ?n \<le> length src" by (rule within_splice) (use that cap in auto)
  have len: "i + 4 + ?n \<le> length src" if "\<not> length src - (i + 4) < ?n" using that False by linarith
  have cp: "p + ?n \<le> cap" "p + ?n \<le> length dst" if "\<not> ?n > cap - p" using that cap by auto
  show ?thesis
  proof (cases "length src - (i + 4) < ?n \<or> ?n > cap - p")
    case True
    then show ?thesis unfolding stored_copy_eq [OF False] by auto
  next
    case fits: False
    then have "i + 4 + ?n \<le> length src" "?n \<le> cap - p" using len by auto
    moreover from this have "within cap dst (take p dst @ take ?n (drop (i + 4) src) @ drop (p + ?n) dst)"
      "p + ?n \<le> cap" "p + ?n \<le> length dst" using w cp by auto
    ultimately show ?thesis unfolding stored_copy_eq [OF False] using fits by simp
  qed
qed (simp add: stored_copy_def)

lemma stored_block_ok:
  assumes wf: "wf_in src s" "debt s \<le> 3" "avail src s \<le> 8 * int (length src)" and cap: "p \<le> cap" "cap \<le> length dst"
  shows "stored_block src cap s dst p = Inl Bad \<or> stored_block src cap s dst p = Inl Full \<or>
    (\<exists>s' dst' p'. stored_block src cap s dst p = Inr (s', dst', p') \<and> wf_in src s' \<and>
      avail src s' \<le> avail src s \<and> within cap dst dst' \<and> p' \<le> cap)"
proof -
  obtain x s1 where g: "getbits src (nbits s AND 7) s = (x, s1)" by fastforce
  have "nbits s AND 7 = take_bit 3 (nbits s)" by (simp add: take_bit_eq_mask mask_eq_exp_minus_1)
  then have k: "nbits s AND 7 \<le> 7" using take_bit_nat_less_exp [of 3 "nbits s"] by simp
  have s1: "wf_in src s1" "avail src s1 \<le> avail src s"
    using getbits_exact [OF wf(1) _ _ g] wf(2) k by (auto simp: LIMIT_def)
  show ?thesis
  proof (cases "fake s1 > nbits s1")
    case True
    then show ?thesis using g by (simp add: stored_block_def)
  next
    case False
    define q where "q = (nbits s1 - fake s1) div 8"
    define i where "i = bi_in s1 - q"
    have q: "8 * int q \<le> int (nbits s1) - int (fake s1)" using False by (simp add: q_def zdiv_int of_nat_diff)
    have "int (nbits s1) - int (fake s1) \<le> 8 * int (bi_in s1)" using s1 wf(3) by (simp add: avail_def debt_def)
    then have qi: "q \<le> bi_in s1" using q by linarith
    have e: "stored_block src cap s dst p = stored_copy src cap i dst p"
      using g False qi by (simp add: stored_block_def q_def i_def)
    have a: "avail src \<lparr>bi_in = i + 4 + n, bits = 0, nbits = 0, fake = 0\<rparr> \<le> avail src s" for n
    proof -
      have "int i = int (bi_in s1) - int q" using qi by (simp add: i_def)
      then show ?thesis using q s1(2) by (simp add: avail_def debt_def)
    qed
    have wfn: "wf_in src \<lparr>bi_in = i + 4 + n, bits = 0, nbits = 0, fake = 0\<rparr>" if "i + 4 + n \<le> length src" for n
      using that by (simp add: wf_in_def)
    show ?thesis using stored_copy_ok [OF cap, of src i] a wfn unfolding e by blast
  qed
qed

lemma block_turn_ok:
  assumes wf: "wf_in src s" "debt s \<le> 3" "avail src s \<le> 8 * int (length src)"
    and cap: "p \<le> cap" "cap \<le> length dst" "cap < 2 ^ 26" and lo: "locals_ok lo"
  shows "case block_turn src cap type lo s dst p of
           Inl (r, dst', out) \<Rightarrow> r \<noteq> Oob \<and> r \<noteq> No_Fuel \<and> within cap dst dst' \<and> out \<le> cap
         | Inr (lo', s', dst', p') \<Rightarrow> locals_ok lo' \<and> wf_in src s' \<and> avail src s' \<le> avail src s \<and> within cap dst dst' \<and> p' \<le> cap"
proof -
  let ?T = "if type = 1 then andthen (fixed_tables (lo_lit lo) (lo_dist lo)) (\<lambda>(lit, dist). Inr (lit, dist, s))
            else dynamic_tables src lo s"
  have T: "?T = Inl Bad \<or> (\<exists>lit dist s' m k. ?T = Inr (lit, dist, s') \<and> huff_ok m lit \<and> huff_ok k dist \<and> spends src 8000 s s')"
  proof (cases "type = 1")
    case True
    obtain lit dist where "fixed_tables (lo_lit lo) (lo_dist lo) = Inr (lit, dist)" "huff_ok 288 lit" "huff_ok 30 dist"
      using fixed_tables_ok [of "lo_lit lo" "lo_dist lo"] lo by (auto simp: locals_ok_def)
    then show ?thesis using True by (auto simp: andthen_def)
  qed (use dynamic_tables_ok [OF lo, of src s] in simp)
  consider "type = 0" | "type = 1 \<or> type = 2" | "type \<noteq> 0" "type \<noteq> 1" "type \<noteq> 2" by blast
  then show ?thesis
  proof cases
    case 1
    then show ?thesis using stored_block_ok [OF wf cap(1,2)] lo by (auto simp: block_turn_def)
  next
    case 2
    from T show ?thesis
    proof
      assume "?T = Inl Bad"
      then show ?thesis using 2 by (auto simp: block_turn_def)
    next
      assume "\<exists>lit dist s' m k. ?T = Inr (lit, dist, s') \<and> huff_ok m lit \<and> huff_ok k dist \<and> spends src 8000 s s'"
      then obtain lit dist s1 m k where t: "?T = Inr (lit, dist, s1)" "huff_ok m lit" "huff_ok k dist" "spends src 8000 s s1" by blast
      obtain r s2 dst' p' where c: "codes src lit dist cap (s1, dst, p) = (r, s2, dst', p')" by (metis prod_cases4)
      note C = codes_ok [OF t(2,3) cap(1,2) c]
      have "spends src (8000 + (48 * (cap - p) + 48)) s s2" using spends_trans [OF t(4)] C by blast
      moreover have "debt s + int (8000 + (48 * (cap - p) + 48)) \<le> LIMIT" using wf(2) cap(3) by (simp add: LIMIT_def)
      ultimately have s2: "wf_in src s2" "avail src s2 \<le> avail src s" using wf(1) by (auto simp: spends_def)
      have "block_turn src cap type lo s dst p =
          (if r \<noteq> Ok then Inl (r, dst', p) else Inr (lo\<lparr>lo_lit := lit, lo_dist := dist\<rparr>, s2, dst', p'))"
        using 2 t(1) c by (auto simp: block_turn_def)
      then show ?thesis using C s2 lo cap t(2,3) by (auto simp: locals_ok_def huff_ok_sym)
    qed
  qed (simp add: block_turn_def)
qed

lemma inflate_blocks_ok:
  assumes "wf_in src s" "debt s \<le> 0" "avail src s \<le> 8 * int (length src)" "avail src s < int fuel"
    "p \<le> cap" "cap \<le> length dst" "cap < 2 ^ 26" "locals_ok lo" "inflate_blocks fuel src cap lo s dst p = (r, dst', out)"
  shows "r \<noteq> Oob \<and> r \<noteq> No_Fuel \<and> within cap dst dst' \<and> out \<le> cap"
  using assms
proof (induction fuel arbitrary: lo s dst p)
  case 0
  then show ?case by (simp add: avail_def wf_in_def)
next
  case (Suc fuel)
  obtain lst s1 where g1: "getbits src 1 s = (lst, s1)" by fastforce
  obtain ty s2 where g2: "getbits src 2 s1 = (ty, s2)" by fastforce
  have s1: "wf_in src s1" "avail src s1 = avail src s - 1" "debt s1 \<le> 1"
    using getbits_exact [OF Suc.prems(1) _ _ g1] Suc.prems(2) by (auto simp: LIMIT_def)
  have s2: "wf_in src s2" "avail src s2 = avail src s - 3" "debt s2 \<le> 3"
    using getbits_exact [OF s1(1) _ _ g2] s1 by (auto simp: LIMIT_def)
  have a2: "avail src s2 \<le> 8 * int (length src)" using s2(2) Suc.prems(3) by simp
  note B = block_turn_ok [OF s2(1,3) a2 Suc.prems(5-8), of ty]
  show ?case
  proof (cases "block_turn src cap ty lo s2 dst p")
    case (Inl x)
    then show ?thesis using B Suc.prems(9) g1 g2 by (auto simp: Let_def)
  next
    case (Inr y)
    obtain lo' s' dst1 p1 where y: "y = (lo', s', dst1, p1)" by (metis prod_cases4)
    have t: "locals_ok lo'" "wf_in src s'" "avail src s' \<le> avail src s2" "within cap dst dst1" "p1 \<le> cap" using B Inr y by auto
    show ?thesis
    proof (cases "fake s' > nbits s' \<or> lst \<noteq> 0")
      case True
      then show ?thesis using Suc.prems(9) g1 g2 Inr y t by (auto simp: Let_def split: if_splits)
    next
      case False
      have "debt s' \<le> 0" using False by (simp add: debt_def)
      moreover have "inflate_blocks fuel src cap lo' s' dst1 p1 = (r, dst', out)"
        using Suc.prems(9) g1 g2 Inr y False by (simp add: Let_def)
      moreover have "avail src s' \<le> 8 * int (length src)" "avail src s' < int fuel" using t(3) s2(2) Suc.prems(3,4) by auto
      moreover have "cap \<le> length dst1" using t(4) Suc.prems(6) by (simp add: within_def)
      ultimately have "r \<noteq> Oob \<and> r \<noteq> No_Fuel \<and> within cap dst1 dst' \<and> out \<le> cap"
        using Suc.IH [OF t(2) _ _ _ t(5) _ Suc.prems(7) t(1)] by blast
      then show ?thesis using within_trans [OF t(4)] by blast
    qed
  qed
qed

lemma inflate_blocks_mono:
  "fst (inflate_blocks fuel src cap lo s dst p) \<noteq> No_Fuel \<Longrightarrow> fuel \<le> fuel' \<Longrightarrow>
   inflate_blocks fuel' src cap lo s dst p = inflate_blocks fuel src cap lo s dst p"
proof (induction fuel arbitrary: fuel' lo s dst p)
  case (Suc fuel)
  obtain f where f: "fuel' = Suc f" "fuel \<le> f" using Suc.prems(2) by (cases fuel') auto
  show ?case using Suc.prems(1) Suc.IH [OF _ f(2)]
    by (auto simp: f(1) Let_def split: prod.splits sum.splits if_splits)
qed simp

section \<open>Properties of the decoder\<close>

definition start_bits :: bitin where
  "start_bits = \<lparr>bi_in = 0, bits = 0, nbits = 0, fake = 0\<rparr>"

lemma start_ok: "wf_in src start_bits" "debt start_bits \<le> 0" "avail src start_bits = 8 * int (length src)"
  by (simp_all add: start_bits_def wf_in_def debt_def avail_def)

lemma inflate_raw_ok:
  assumes "locals_ok lo" "cap \<le> length dst" "cap < 2 ^ 26" "ps3_inflate_raw lo dst cap src = (r, dst', out)"
  shows "r \<noteq> Oob \<and> r \<noteq> No_Fuel \<and> within cap dst dst' \<and> out \<le> cap"
proof (rule inflate_blocks_ok [OF start_ok(1,2)])
  show "inflate_blocks (8 * length src + 1) src cap lo start_bits dst 0 = (r, dst', out)"
    using assms(4) by (simp only: ps3_inflate_raw_def start_bits_def)
qed (use assms start_ok in simp_all)

text \<open>
  C25. The decoder returns on every input, well-formed or not: the loop over blocks needs at most
  one turn per bit of the source, and more fuel changes nothing. (The inner loops are total
  functions.) The bound on the destination keeps the 32-bit count of padding bits from wrapping.
\<close>

theorem inflate_terminates:
  assumes "locals_ok lo" "cap \<le> length dst" "cap < 2 ^ 26" "8 * length src < fuel"
  shows "inflate_blocks fuel src cap lo start_bits dst 0 = ps3_inflate_raw lo dst cap src \<and>
    fst (ps3_inflate_raw lo dst cap src) \<in> {Ok, Bad, Full}"
proof -
  obtain r dst' out where e: "ps3_inflate_raw lo dst cap src = (r, dst', out)" by (metis prod_cases3)
  have r: "r \<noteq> Oob \<and> r \<noteq> No_Fuel" using inflate_raw_ok [OF assms(1-3) e] by simp
  then have "fst (ps3_inflate_raw lo dst cap src) \<in> {Ok, Bad, Full}" using e by (cases r) simp_all
  moreover have "inflate_blocks fuel src cap lo start_bits dst 0 = ps3_inflate_raw lo dst cap src"
    unfolding ps3_inflate_raw_def start_bits_def [symmetric]
    by (rule inflate_blocks_mono) (use e r assms(4) in \<open>auto simp: ps3_inflate_raw_def start_bits_def\<close>)
  ultimately show ?thesis by blast
qed

text \<open>
  C2. The decoder is memory safe on every input: no access to the source, the destination or a
  table is out of bounds, whatever the local tables hold at first, the destination is written
  only below its capacity, and the reported length is at most the capacity.
\<close>

theorem inflate_memory_safe:
  assumes "locals_ok lo" "cap \<le> length dst" "cap < 2 ^ 26" "ps3_inflate_raw lo dst cap src = (r, dst', out)"
  shows "r \<noteq> Oob \<and> length dst' = length dst \<and> drop cap dst' = drop cap dst \<and> out \<le> cap"
proof -
  have w: "within cap dst dst'" and "r \<noteq> Oob" "out \<le> cap" using inflate_raw_ok [OF assms] by auto
  moreover have "drop cap dst' = drop cap dst" by (rule nth_equalityI) (use w in \<open>auto simp: within_def\<close>)
  ultimately show ?thesis by (simp add: within_def)
qed

section \<open>Stored data\<close>

text \<open>An encoder without compression: one stored block per chunk, the last one marked.\<close>

fun store_blocks :: "u8 list list \<Rightarrow> u8 list" where
  "store_blocks [] = []"
| "store_blocks (c # cs) =
     (if cs = [] then 1 else 0) # of_nat (length c) # of_nat (length c div 256) #
     NOT (of_nat (length c)) # NOT (of_nat (length c div 256)) # c @ store_blocks cs"

lemma unat_bytes: "n < 65536 \<Longrightarrow> unat (of_nat n :: u8) = take_bit 8 n" "n < 65536 \<Longrightarrow> unat (of_nat (n div 256) :: u8) = drop_bit 8 n"
  by (simp_all add: unat_of_nat take_bit_eq_mod drop_bit_eq_div)

lemma high_bits: "n < 2 ^ k \<Longrightarrow> bit n i \<Longrightarrow> i < k" for n :: nat
  by (metis bit_take_bit_iff take_bit_nat_eq_self_iff)

lemma length_fields:
  assumes "n < 65536"
  shows "unat (of_nat n :: u8) OR push_bit 8 (unat (of_nat (n div 256) :: u8)) = n"
    and "n XOR (unat (NOT (of_nat n) :: u8) OR push_bit 8 (unat (NOT (of_nat (n div 256)) :: u8))) = 65535"
proof -
  have hb: "bit n i \<Longrightarrow> i < 16" for i using high_bits [of n 16 i] assms by simp
  show "unat (of_nat n :: u8) OR push_bit 8 (unat (of_nat (n div 256) :: u8)) = n"
  proof (unfold unat_bytes [OF assms], rule bit_eqI)
    fix i
    show "bit (take_bit 8 n OR push_bit 8 (drop_bit 8 n)) i \<longleftrightarrow> bit n i"
      by (cases "i < 8") (auto simp: bit_simps)
  qed
  have lo: "bit (unat (NOT (of_nat n) :: u8)) i \<longleftrightarrow> i < 8 \<and> \<not> bit n i" for i
    by (auto simp: bit_unsigned_iff bit_not_iff bit_of_nat_iff)
  have "bit (unat (NOT (of_nat (n div 256)) :: u8)) i \<longleftrightarrow> i < 8 \<and> \<not> bit (drop_bit 8 n) i" for i
    by (auto simp: bit_unsigned_iff bit_not_iff bit_of_nat_iff drop_bit_eq_div)
  then have hi: "bit (unat (NOT (of_nat (n div 256)) :: u8)) i \<longleftrightarrow> i < 8 \<and> \<not> bit n (8 + i)" for i
    by (simp add: bit_drop_bit_eq)
  have m: "(65535 :: nat) = mask 16" by (simp add: mask_eq_exp_minus_1)
  show "n XOR (unat (NOT (of_nat n) :: u8) OR push_bit 8 (unat (NOT (of_nat (n div 256)) :: u8))) = 65535"
  proof (unfold m, rule bit_eqI)
    fix i
    show "bit (n XOR (unat (NOT (of_nat n) :: u8) OR push_bit 8 (unat (NOT (of_nat (n div 256)) :: u8)))) i \<longleftrightarrow> bit (mask 16 :: nat) i"
      unfolding bit_xor_iff bit_or_iff bit_push_bit_iff lo hi bit_mask_iff using hb [of i] by auto
  qed
qed

lemma refill_keeps_byte:
  "nbits s \<le> 64 \<Longrightarrow> nbits s mod 8 = 0 \<Longrightarrow> 8 \<le> nbits s \<Longrightarrow> i < bi_in s \<Longrightarrow> fake s + 8 \<le> nbits s \<Longrightarrow>
   nbits (refill src s) = 64 \<and> i < bi_in (refill src s) \<and> fake (refill src s) + 8 \<le> 64 \<and>
   take_bit 8 (bits (refill src s)) = take_bit 8 (bits s)"
proof (induction src s rule: refill.induct)
  case (1 src s)
  show ?case
  proof (cases "nbits s \<le> 56")
    case True
    let ?t = "refill_byte src s"
    have "(fake s + 8) mod 2 ^ 32 = fake s + 8" using 1 by simp
    then have t: "nbits ?t = nbits s + 8" "i < bi_in ?t" "fake ?t + 8 \<le> nbits ?t"
      using 1 by (auto simp: refill_byte_def)
    have "take_bit 8 (bits ?t) = take_bit 8 (bits s)"
      by (rule bit_word_eqI) (use 1 in \<open>auto simp: refill_byte_def bit_simps\<close>)
    moreover have "(nbits s + 8) mod 8 = 0" using 1 by presburger
    ultimately show ?thesis using 1(1) [OF True] t True by (subst (1 2 3 4) refill.simps) simp
  next
    case False
    then have "nbits s = 64" using 1 by presburger
    then show ?thesis using 1 False by (simp add: refill.simps [of src s])
  qed
qed

definition at_byte :: "nat \<Rightarrow> bitin" where
  "at_byte i = \<lparr>bi_in = i, bits = 0, nbits = 0, fake = 0\<rparr>"

lemma refill_at_byte:
  assumes "i < length src"
  shows "nbits (refill src (at_byte i)) = 64" "i < bi_in (refill src (at_byte i))" "fake (refill src (at_byte i)) + 8 \<le> 64"
    "take_bit 8 (bits (refill src (at_byte i))) = ucast (src ! i)"
    "8 * int (bi_in (refill src (at_byte i))) + int (fake (refill src (at_byte i))) = 8 * int i + 64"
proof -
  let ?t = "refill_byte src (at_byte i)"
  have t: "?t = \<lparr>bi_in = i + 1, bits = ucast (src ! i), nbits = 8, fake = 0\<rparr>"
    using assms by (simp add: refill_byte_def at_byte_def)
  have r: "refill src (at_byte i) = refill src ?t" by (subst refill.simps) (simp add: at_byte_def)
  have b: "take_bit 8 (ucast (src ! i) :: u64) = ucast (src ! i)" by (rule bit_word_eqI) (auto simp: bit_simps dest: bit_imp_le_length)
  show n: "nbits (refill src (at_byte i)) = 64" and "i < bi_in (refill src (at_byte i))" "fake (refill src (at_byte i)) + 8 \<le> 64"
    "take_bit 8 (bits (refill src (at_byte i))) = ucast (src ! i)"
    using refill_keeps_byte [of ?t i src] b unfolding r by (simp_all add: t)
  have "wf_in src (at_byte i)" "debt (at_byte i) \<le> LIMIT" using assms by (simp_all add: at_byte_def wf_in_def debt_def LIMIT_def)
  from refill_bits [OF this] show "8 * int (bi_in (refill src (at_byte i))) + int (fake (refill src (at_byte i))) = 8 * int i + 64"
    using n by (simp add: avail_def debt_def at_byte_def)
qed

text \<open>Reading the header of a stored block and finding its length fields.\<close>

lemma getbits_value: "n \<le> nbits s \<Longrightarrow> getbits src n s = (unat (take_bit n (bits s)), skip n s)"
proof -
  have "push_bit n 1 - 1 = (mask n :: u64)" by (simp add: mask_eq_exp_minus_1 push_bit_eq_mult)
  then show "n \<le> nbits s \<Longrightarrow> ?thesis" by (simp add: getbits_def Let_def skip_def take_bit_eq_mask)
qed

lemma stored_header:
  assumes "i < length src" "src ! i = of_bool b"
  shows "\<exists>s1 s2. getbits src 1 (at_byte i) = (of_bool b, s1) \<and> getbits src 2 s1 = (0, s2) \<and>
    stored_block src cap s2 dst p = stored_copy src cap (i + 1) dst p"
proof -
  define t where "t = refill src (at_byte i)"
  note T = refill_at_byte [OF assms(1), folded t_def]
  have "getbits src 1 (at_byte i) = getbits src 1 t" using T(1) by (simp add: getbits_def at_byte_def t_def)
  then have g1: "getbits src 1 (at_byte i) = (unat (take_bit 1 (bits t)), skip 1 t)" using getbits_value [of 1 t src] T(1) by simp
  have g2: "getbits src 2 (skip 1 t) = (unat (take_bit 2 (drop_bit 1 (bits t))), skip 2 (skip 1 t))"
    using getbits_value [of 2 "skip 1 t" src] T(1) by (simp add: skip_def)
  have b: "bit (bits t) k \<longleftrightarrow> k = 0 \<and> b" if "k < 8" for k
  proof -
    have "bit (take_bit 8 (bits t)) k \<longleftrightarrow> bit (ucast (of_bool b :: u8) :: u64) k" using T(4) assms(2) by simp
    then show ?thesis using that by (cases b) (auto simp: bit_simps)
  qed
  have "take_bit 1 (bits t) = of_bool b" using b [of 0] by (simp add: take_bit_Suc bit_0 mod_2_eq_odd)
  moreover have "take_bit 2 (drop_bit 1 (bits t)) = 0" by (rule bit_word_eqI) (use b in \<open>auto simp: bit_simps\<close>)
  ultimately have v: "unat (take_bit 1 (bits t)) = of_bool b" "unat (take_bit 2 (drop_bit 1 (bits t))) = 0" by simp_all
  let ?s2 = "skip 2 (skip 1 t)"
  have n2: "nbits ?s2 = 61" using T(1) by (simp add: skip_def)
  have "nbits ?s2 AND 7 = 5" unfolding n2 by code_simp
  then have g3: "getbits src (nbits ?s2 AND 7) ?s2 = (unat (take_bit 5 (bits ?s2)), skip 5 ?s2)"
    using getbits_value [of 5 ?s2 src] n2 by simp
  have f: "nbits (skip 5 ?s2) = 56" "fake (skip 5 ?s2) = fake t" "bi_in (skip 5 ?s2) = bi_in t" using T(1) by (simp_all add: skip_def)
  have "56 - fake t = 8 * (bi_in t - i - 1)" using T(2,3,5) by linarith
  then have "(56 - fake t) div 8 = bi_in t - i - 1" by simp
  then have "stored_block src cap ?s2 dst p = stored_copy src cap (i + 1) dst p"
    using g3 f T(2,3) leD [OF diff_le_self, of "bi_in t" "Suc i"] by (simp add: stored_block_def)
  then show ?thesis using g1 g2 v by auto
qed

lemma store_blocks_append:
  assumes "cs \<noteq> []" "\<forall>c\<in>set cs. length c < 65536" "length cs \<le> fuel"
    "src = pre @ store_blocks cs" "dst = out @ rest" "length out + length (concat cs) \<le> cap" "cap \<le> length dst"
  shows "inflate_blocks fuel src cap lo (at_byte (length pre)) dst (length out)
    = (Ok, out @ concat cs @ drop (length (concat cs)) rest, length out + length (concat cs))"
  using assms
proof (induction cs arbitrary: fuel pre out rest dst)
  case (Cons c cs)
  let ?i = "length pre" and ?n = "length c"
  obtain f where f: "fuel = Suc f" "length cs \<le> f" using Cons.prems(3) by (cases fuel) auto
  have one: "(if cs = [] then 1 else 0) = (of_bool (cs = []) :: u8)" by simp
  have src: "src = pre @ [of_bool (cs = []), of_nat ?n, of_nat (?n div 256), NOT (of_nat ?n), NOT (of_nat (?n div 256))] @ c @ store_blocks cs"
    unfolding Cons.prems(4) store_blocks.simps one by simp
  have n: "?n < 65536" using Cons.prems(2) by simp
  have at: "?i < length src" "src ! ?i = of_bool (cs = [])" by (simp_all add: src nth_append)
  have len: "\<not> length src - (?i + 1) < 4" by (simp add: src)
  have fields: "src ! (?i + 1) = of_nat ?n" "src ! (?i + 2) = of_nat (?n div 256)" "src ! (?i + 3) = NOT (of_nat ?n)"
    "src ! (?i + 4) = NOT (of_nat (?n div 256))" unfolding src nth_append_length_plus by simp_all
  have sl: "stored_len src (?i + 1) = ?n" "stored_len src (?i + 1 + 2) = (unat (NOT (of_nat ?n) :: u8) OR push_bit 8 (unat (NOT (of_nat (?n div 256)) :: u8)))"
  proof -
    have k: "?i + 1 + 1 = ?i + 2" "?i + 1 + 2 = ?i + 3" "?i + 3 + 1 = ?i + 4" by simp_all
    show "stored_len src (?i + 1) = ?n" unfolding stored_len_def k fields by (rule length_fields(1) [OF n])
    show "stored_len src (?i + 1 + 2) = (unat (NOT (of_nat ?n) :: u8) OR push_bit 8 (unat (NOT (of_nat (?n div 256)) :: u8)))"
      unfolding stored_len_def k fields ..
  qed
  have body: "take ?n (drop (?i + 1 + 4) src) = c" by (simp add: src)
  have cap: "?n \<le> cap - length out" "length out + ?n \<le> length dst" "?i + 1 + 4 + ?n \<le> length src" "\<not> length src - (?i + 1 + 4) < ?n"
    using Cons.prems(6,7) by (auto simp: src)
  have dst: "take (length out) dst @ c @ drop (length out + ?n) dst = (out @ c) @ drop ?n rest"
    using Cons.prems(5) by simp
  have copy: "stored_copy src cap (?i + 1) dst (length out) = Inr (at_byte (?i + 1 + 4 + ?n), (out @ c) @ drop ?n rest, length (out @ c))"
    unfolding stored_copy_eq [OF len] sl body dst length_fields(2) [OF n] using cap by (simp add: at_byte_def)
  obtain s1 s2 where h: "getbits src 1 (at_byte ?i) = (of_bool (cs = []), s1)" "getbits src 2 s1 = (0, s2)"
    "stored_block src cap s2 dst (length out) = stored_copy src cap (?i + 1) dst (length out)"
    using stored_header [OF at, of cap dst "length out"] by blast
  have turn: "block_turn src cap 0 lo s2 dst (length out) = Inr (lo, at_byte (?i + 1 + 4 + ?n), (out @ c) @ drop ?n rest, length (out @ c))"
    using h(3) copy by (simp add: block_turn_def)
  have z: "\<not> nbits (at_byte k) < fake (at_byte k)" for k by (simp add: at_byte_def)
  show ?case
  proof (cases "cs = []")
    case True
    then show ?thesis using h(1,2) turn z f(1) by simp
  next
    case False
    let ?pre = "pre @ [of_bool (cs = []), of_nat ?n, of_nat (?n div 256), NOT (of_nat ?n), NOT (of_nat (?n div 256))] @ c"
    have IH: "inflate_blocks f src cap lo (at_byte (length ?pre)) ((out @ c) @ drop ?n rest) (length (out @ c))
      = (Ok, (out @ c) @ concat cs @ drop (length (concat cs)) (drop ?n rest), length (out @ c) + length (concat cs))"
      by (rule Cons.IH [OF False _ f(2)]) (use Cons.prems src in auto)
    have "length ?pre = ?i + 1 + 4 + ?n" by simp
    then have turn': "block_turn src cap 0 lo s2 dst (length out) = Inr (lo, at_byte (length ?pre), (out @ c) @ drop ?n rest, length (out @ c))"
      using turn by (simp only:)
    have "inflate_blocks fuel src cap lo (at_byte ?i) dst (length out)
        = inflate_blocks f src cap lo (at_byte (length ?pre)) ((out @ c) @ drop ?n rest) (length (out @ c))"
      using h(1,2) turn' z f(1) False by (simp del: length_append append_assoc)
    then show ?thesis unfolding IH by (simp add: add.commute)
  qed
qed simp

lemma stored_value:
  assumes "cs \<noteq> []" "\<forall>c\<in>set cs. length c < 65536" "length (concat cs) \<le> cap" "cap \<le> length dst"
  shows "ps3_inflate_raw lo dst cap (store_blocks cs) = (Ok, concat cs @ drop (length (concat cs)) dst, length (concat cs))"
proof -
  have "length cs \<le> length (store_blocks cs)" by (induction cs) auto
  then have "length cs \<le> 8 * length (store_blocks cs) + 1" by simp
  from store_blocks_append [OF assms(1,2) this, of "store_blocks cs" "[]" dst "[]" dst cap lo] assms(3,4)
  show ?thesis by (simp add: ps3_inflate_raw_def at_byte_def)
qed

text \<open>
  C35. Data stored without compression comes back: decoding the stored blocks of any list of
  chunks gives their concatenation, with the right length, and leaves the rest of the destination
  as it was.
\<close>

theorem stored_roundtrip:
  assumes "cs \<noteq> []" "\<forall>c\<in>set cs. length c < 65536" "length (concat cs) \<le> cap" "cap \<le> length dst"
  shows "ps3_inflate_raw lo dst cap (store_blocks cs) = (Ok, concat cs @ drop (length (concat cs)) dst, length (concat cs))"
  by (rule stored_value [OF assms])

section \<open>The hook of lifted SPU code\<close>

text \<open>
  \<open>spu_hook_inflate_ls\<close> of runtime/spu/spu_inflate_hook.c, over the local store and the first
  words of registers 3 to 6. \<open>on\<close> is the setting SPU_NATIVE_INFLATE. The result says whether the
  hook did the work; register 3 is then cleared.
\<close>

definition spu_hook_inflate_ls :: "bool \<Rightarrow> inflate_locals \<Rightarrow> u8 list \<Rightarrow> u32 \<Rightarrow> u32 \<Rightarrow> u32 \<Rightarrow> u32 \<Rightarrow> rc + bool \<times> u8 list" where
  "spu_hook_inflate_ls on lo ls r3 r4 r5 r6 =
     (if \<not> on then Inr (False, ls)
      else let dst = unat r3; dst_len = unat r4; src = unat r5; src_len = unat r6
           in if dst \<ge> SPU_LS_SIZE \<or> dst_len > SPU_LS_SIZE - dst \<or> src \<ge> SPU_LS_SIZE \<or> src_len > SPU_LS_SIZE - src
              then Inr (False, ls)
              else if dst < src + src_len \<and> src < dst + dst_len then Inr (False, ls)
              else case ps3_inflate_raw lo (take dst_len (drop dst ls)) dst_len (take src_len (drop src ls)) of
                     (r, out, got) \<Rightarrow>
                       if r = Oob \<or> r = No_Fuel then Inl r
                       else Inr (r = Ok \<and> got = dst_len, take dst ls @ out @ drop (dst + dst_len) ls))"

text \<open>
  The hook is confined to its destination: for any registers and any contents of the local
  store it finishes without an access out of bounds and changes no byte of the local store
  outside the dst_len bytes at dst.
\<close>

theorem hook_confined:
  assumes "locals_ok lo" "length ls = SPU_LS_SIZE"
  shows "\<exists>ok ls'. spu_hook_inflate_ls on lo ls r3 r4 r5 r6 = Inr (ok, ls') \<and> length ls' = SPU_LS_SIZE \<and>
    (\<forall>i<SPU_LS_SIZE. i < unat r3 \<or> unat r3 + unat r4 \<le> i \<longrightarrow> ls' ! i = ls ! i)"
proof (cases "on \<and> unat r3 < SPU_LS_SIZE \<and> unat r4 \<le> SPU_LS_SIZE - unat r3 \<and> unat r5 < SPU_LS_SIZE \<and> unat r6 \<le> SPU_LS_SIZE - unat r5 \<and>
             \<not> (unat r3 < unat r5 + unat r6 \<and> unat r5 < unat r3 + unat r4)")
  case False
  then have "spu_hook_inflate_ls on lo ls r3 r4 r5 r6 = Inr (False, ls)"
    by (auto simp: spu_hook_inflate_ls_def Let_def)
  then show ?thesis using assms(2) by (intro exI [of _ False] exI [of _ ls]) simp
next
  case True
  let ?d = "take (unat r4) (drop (unat r3) ls)" and ?s = "take (unat r6) (drop (unat r5) ls)"
  obtain r out got where e: "ps3_inflate_raw lo ?d (unat r4) ?s = (r, out, got)" by (metis prod_cases3)
  have d: "length ?d = unat r4" using True assms(2) by simp
  then have "unat r4 \<le> length ?d" "unat r4 < 2 ^ 26" using True by (auto simp: SPU_LS_SIZE_def)
  from inflate_raw_ok [OF assms(1) this e] have R: "r \<noteq> Oob" "r \<noteq> No_Fuel" "length out = unat r4" using d by (auto simp: within_def)
  let ?ls = "take (unat r3) ls @ out @ drop (unat r3 + unat r4) ls"
  have "spu_hook_inflate_ls on lo ls r3 r4 r5 r6 = Inr (r = Ok \<and> got = unat r4, ?ls)"
    using True e R by (auto simp: spu_hook_inflate_ls_def Let_def)
  moreover have "length ?ls = SPU_LS_SIZE" using True R assms(2) by auto
  moreover have "?ls ! i = ls ! i" if "i < SPU_LS_SIZE" "i < unat r3 \<or> unat r3 + unat r4 \<le> i" for i
    using that True R assms(2) by (auto simp: nth_append)
  ultimately show ?thesis by blast
qed

section \<open>Examples\<close>

definition ex_locals :: inflate_locals where
  "ex_locals = \<lparr>lo_lit = ex_huff, lo_dist = ex_huff, lo_lc = ex_huff, lo_l = replicate 320 0\<rparr>"

lemma ex_locals_ok: "locals_ok ex_locals"
  by (simp add: locals_ok_def ex_locals_def ex_huff_def del: replicate.simps)

theorem stored_roundtrip_witness:
  "ps3_inflate_raw ex_locals [0, 0, 0, 9] 3 (store_blocks [[1, 2], [3]]) = (Ok, [1, 2, 3, 9], 3)"
  using stored_roundtrip [of "[[1, 2], [3]]" 3 "[0, 0, 0, 9]" ex_locals] by simp

lemma ex_stored: "ps3_inflate_raw ex_locals [0, 0, 0, 9] 3 (store_blocks [[1, 2], [3]]) = (Ok, [1, 2, 3, 9], 3)"
  using stored_value [of "[[1, 2], [3]]" 3 "[0, 0, 0, 9]" ex_locals] by simp

theorem inflate_terminates_witness:
  "inflate_blocks 200 (store_blocks [[1, 2], [3]]) 3 ex_locals start_bits [0, 0, 0, 9] 0 = (Ok, [1, 2, 3, 9], 3)"
  using inflate_terminates [of ex_locals 3 "[0, 0, 0, 9]" "store_blocks [[1, 2], [3]]" 200] ex_locals_ok
  unfolding ex_stored by simp

theorem inflate_memory_safe_witness:
  "\<exists>r dst' out. ps3_inflate_raw ex_locals [0, 0, 0, 9] 3 (store_blocks [[1, 2], [3]]) = (r, dst', out) \<and>
     r \<noteq> Oob \<and> drop 3 dst' = [9] \<and> out \<le> 3"
  using inflate_memory_safe [OF ex_locals_ok _ _ ex_stored] ex_stored by simp

theorem hook_confined_witness:
  "\<exists>ok ls'. spu_hook_inflate_ls True ex_locals (replicate SPU_LS_SIZE 7) 16 8 64 32 = Inr (ok, ls') \<and> ls' ! 24 = 7"
proof -
  have "length (replicate SPU_LS_SIZE (7 :: u8)) = SPU_LS_SIZE" by simp
  from hook_confined [OF ex_locals_ok this, of True 16 8 64 32] obtain ok ls' where
    h: "spu_hook_inflate_ls True ex_locals (replicate SPU_LS_SIZE 7) 16 8 64 32 = Inr (ok, ls')"
    "\<forall>i<SPU_LS_SIZE. i < unat (16 :: u32) \<or> unat (16 :: u32) + unat (8 :: u32) \<le> i \<longrightarrow> ls' ! i = replicate SPU_LS_SIZE 7 ! i" by blast
  have "24 < SPU_LS_SIZE" by (simp add: SPU_LS_SIZE_def)
  with h(2) have "ls' ! 24 = 7" by simp
  with h(1) show ?thesis by blast
qed

end
