(* ===== verification/SpuReg.thy ===== *)
theory SpuReg
  imports Prelude
begin

text \<open>
  The 128-bit register of the runtime, the union \<^verbatim>\<open>u128\<close> of
  \<^verbatim>\<open>src/include/ps3emu/ps3types.h\<close>, on a little-endian host: its memory image is a
  128-bit word, \<open>lane v i\<close> the \<open>i\<close>-th element of the array view whose element type
  the context gives (\<open>_u8\<close>, \<open>_u16\<close>, \<open>_u32\<close>, \<open>_u64\<close>), and
  \<open>lanes f\<close> the register whose elements are \<open>f 0, f 1, \<dots>\<close>. A signed view reads
  the same lane through \<open>sint\<close>.
\<close>

type_synonym u128 = "128 word"

definition lane :: "u128 \<Rightarrow> nat \<Rightarrow> 'a::len word" where
  "lane v i = ucast (drop_bit (LENGTH('a) * i) v)"

definition lanes :: "(nat \<Rightarrow> 'a::len word) \<Rightarrow> u128" where
  "lanes f = foldr (\<lambda>i v. push_bit LENGTH('a) v OR ucast (f i)) [0..<128 div LENGTH('a)] 0"

section \<open>Bits of lanes\<close>

lemma bit_lane: "bit (lane v i :: 'a::len word) n \<longleftrightarrow> n < LENGTH('a) \<and> bit v (LENGTH('a) * i + n)"
  by (auto simp: lane_def bit_simps)

lemma bit_foldr_lanes:
  fixes f :: "nat \<Rightarrow> 'a::len word"
  shows "bit (foldr (\<lambda>i v. push_bit LENGTH('a) v OR ucast (f i)) [k..<k + m] 0 :: u128) n \<longleftrightarrow>
    n < 128 \<and> n div LENGTH('a) < m \<and> bit (f (k + n div LENGTH('a))) (n mod LENGTH('a))"
proof (induction m arbitrary: k n)
  case (Suc m)
  have "[k..<k + Suc m] = k # [Suc k..<Suc k + m]" by (simp add: upt_conv_Cons)
  moreover have "bit (push_bit LENGTH('a) v OR ucast (f k) :: u128) n \<longleftrightarrow>
      n < 128 \<and> (if n < LENGTH('a) then bit (f k) n else bit v (n - LENGTH('a)))" for v
    by (auto simp: bit_simps dest: bit_imp_le_length)
  ultimately show ?case
    using Suc.IH [of "Suc k" "n - LENGTH('a)"] by (auto simp: le_div_geq le_mod_geq not_less)
qed simp

definition divides_128 :: "'a::len word itself \<Rightarrow> bool" where
  "divides_128 _ \<longleftrightarrow> LENGTH('a) dvd 128"

lemma divides_128_lengths [simp]:
  "divides_128 TYPE(8 word)" "divides_128 TYPE(16 word)" "divides_128 TYPE(32 word)" "divides_128 TYPE(64 word)"
  by (simp_all add: divides_128_def)

lemma bit_lanes:
  fixes f :: "nat \<Rightarrow> 'a::len word"
  assumes "divides_128 TYPE('a word)"
  shows "bit (lanes f) n \<longleftrightarrow> n < 128 \<and> bit (f (n div LENGTH('a))) (n mod LENGTH('a))"
proof -
  have "n div LENGTH('a) < 128 div LENGTH('a)" if "n < 128"
    using that assms by (intro less_mult_imp_div_less) (simp add: divides_128_def)
  then show ?thesis using bit_foldr_lanes [of f 0 "128 div LENGTH('a)" n] by (auto simp: lanes_def)
qed

lemma lane_lanes:
  fixes f :: "nat \<Rightarrow> 'a::len word"
  assumes "divides_128 TYPE('a word)" "i < 128 div LENGTH('a)"
  shows "lane (lanes f) i = f i"
proof (rule bit_word_eqI)
  fix n
  assume n: "n < LENGTH('a)"
  have "LENGTH('a) * i + n < LENGTH('a) * (128 div LENGTH('a))"
  proof -
    have "LENGTH('a) * Suc i \<le> LENGTH('a) * (128 div LENGTH('a))" using assms(2) by (intro mult_le_mono2) simp
    then show ?thesis using n by simp
  qed
  also have "\<dots> = 128" using assms(1) by (simp add: divides_128_def)
  finally show "bit (lane (lanes f) i :: 'a word) n = bit (f i) n"
    using n assms(1) by (simp add: bit_lane bit_lanes)
qed

lemma lane_lanes8 [simp]: "i < 16 \<Longrightarrow> lane (lanes f) i = (f i :: u8)"
  by (simp add: lane_lanes)

lemma lane_lanes16 [simp]: "i < 8 \<Longrightarrow> lane (lanes f) i = (f i :: u16)"
  by (simp add: lane_lanes)

lemma lane_lanes32 [simp]: "i < 4 \<Longrightarrow> lane (lanes f) i = (f i :: u32)"
  by (simp add: lane_lanes)

lemma lane_lanes64 [simp]: "i < 2 \<Longrightarrow> lane (lanes f) i = (f i :: u64)"
  by (simp add: lane_lanes)

lemma lanes_lane: "divides_128 TYPE('a word) \<Longrightarrow> lanes (lane v :: nat \<Rightarrow> 'a::len word) = v"
  by (rule bit_word_eqI) (simp add: bit_lanes bit_lane)

text \<open>A register is determined by its elements, in any of the views.\<close>

lemma lanes_cong:
  fixes f g :: "nat \<Rightarrow> 'a::len word"
  assumes "\<And>i. i < 128 div LENGTH('a) \<Longrightarrow> f i = g i"
  shows "lanes f = lanes g"
  unfolding lanes_def by (rule foldr_cong) (use assms in auto)

lemma lane8_eqI:
  assumes "\<And>i. i < 16 \<Longrightarrow> (lane v i :: u8) = lane w i"
  shows "v = w"
  using lanes_cong [of "lane v :: nat \<Rightarrow> u8" "lane w"] assms by (simp add: lanes_lane)

lemma lane32_eqI:
  assumes "\<And>i. i < 4 \<Longrightarrow> (lane v i :: u32) = lane w i"
  shows "v = w"
  using lanes_cong [of "lane v :: nat \<Rightarrow> u32" "lane w"] assms by (simp add: lanes_lane)

lemma less_4_cases: "i < 4 \<longleftrightarrow> i = 0 \<or> i = 1 \<or> i = 2 \<or> i = (3 :: nat)"
  by auto

section \<open>The quadword of the guest\<close>

text \<open>
  What the register means to the guest: a big-endian 128-bit value whose most significant word
  is element 0 of the word view. Byte \<open>p\<close> of the guest, counted from the most significant
  end, is element \<open>SPU_W p\<close> of the byte view.
\<close>

definition SPU_W :: "nat \<Rightarrow> nat" where
  "SPU_W p = p div 4 * 4 + (3 - p mod 4)"

definition quad :: "u128 \<Rightarrow> 128 word" where
  "quad v = lanes (\<lambda>i. lane v (3 - i) :: u32)"

lemma bit_quad: "bit (quad v) n \<longleftrightarrow> n < 128 \<and> bit v (32 * (3 - n div 32) + n mod 32)"
  by (auto simp: quad_def bit_lanes bit_lane)

lemma quad_quad: "quad (quad v) = v"
  by (rule lane32_eqI) (simp add: quad_def)

lemma quad_inj: "quad v = quad w \<Longrightarrow> v = w"
  by (metis quad_quad)

lemma SPU_W_split: "r < 4 \<Longrightarrow> SPU_W (4 * q + r) = 4 * q + (3 - r)"
  by (simp add: SPU_W_def)

lemma split_4: obtains q r where "p = 4 * q + r" "r < (4 :: nat)"
  by (rule that [of "p div 4" "p mod 4"]) simp_all

lemma SPU_W_less: "p < 16 \<Longrightarrow> SPU_W p < 16"
proof -
  assume "p < 16"
  moreover obtain q r where "p = 4 * q + r" "r < 4" by (rule split_4)
  moreover from calculation have "q \<le> 3" by simp
  ultimately show ?thesis by (simp add: SPU_W_split)
qed

lemma SPU_W_W [simp]: "SPU_W (SPU_W p) = p"
proof -
  obtain q r where "p = 4 * q + r" "r < 4" by (rule split_4)
  then show ?thesis using SPU_W_split [of r q] SPU_W_split [of "3 - r" q] by simp
qed

text \<open>Byte \<open>p\<close> of the guest quadword.\<close>

definition gbyte :: "u128 \<Rightarrow> nat \<Rightarrow> u8" where
  "gbyte v p = lane v (SPU_W p)"

lemma gbyte_quad: "p < 16 \<Longrightarrow> gbyte v p = byte (15 - p) (quad v)"
proof (rule bit_word_eqI)
  fix n
  assume p: "p < 16" and n: "n < LENGTH(8)"
  obtain q r where q: "p = 4 * q + r" "r < 4" by (rule split_4)
  then have "8 * (15 - p) + n = 32 * (3 - q) + (8 * (3 - r) + n)" "8 * (3 - r) + n < 32" using p n by auto
  moreover from this have "(8 * (15 - p) + n) div 32 = 3 - q" "(8 * (15 - p) + n) mod 32 = 8 * (3 - r) + n"
    by (simp_all only: mod_mult_self4 div_mult_self4 mod_less div_less)
  moreover have "8 * (15 - p) + n < 128" "q \<le> 3" using p n q by auto
  moreover have "8 * SPU_W p + n = 32 * q + (8 * (3 - r) + n)" using q by (simp add: SPU_W_split)
  ultimately show "bit (gbyte v p) n = bit (byte (15 - p) (quad v)) n"
    using n by (simp add: gbyte_def bit_lane bit_byte bit_quad add.assoc)
qed

lemma gbyte_eqI:
  assumes "\<And>p. p < 16 \<Longrightarrow> gbyte v p = gbyte w p"
  shows "v = w"
proof (rule lane8_eqI)
  fix i :: nat
  assume "i < 16"
  then show "(lane v i :: u8) = lane w i" using assms [of "SPU_W i"] by (simp add: gbyte_def SPU_W_less)
qed

text \<open>A register given by its guest bytes, as the loops over \<^verbatim>\<open>r._u8[SPU_W(i)]\<close> build it.\<close>

definition gbytes :: "(nat \<Rightarrow> u8) \<Rightarrow> u128" where
  "gbytes f = lanes (\<lambda>i. f (SPU_W i))"

lemma gbyte_gbytes [simp]: "p < 16 \<Longrightarrow> gbyte (gbytes f) p = f p"
  by (simp add: gbyte_def gbytes_def SPU_W_less)

end
