(* ===== verification/SpuHelpers.thy ===== *)
theory SpuHelpers
  imports SpuReg
begin

text \<open>
  The instruction semantics lifted and interpreted SPU code shares:
  \<^verbatim>\<open>src/runtime/spu/spu_helpers.h\<close>, one definition for each integer helper, in the order of
  the file. An \<^verbatim>\<open>int\<close> parameter is an \<open>int\<close>, its cast to an unsigned type \<open>of_int\<close>.
  Where the header has a byte loop and an SSE version of a helper, the loop is the definition
  that has \<open>_ref\<close> in its name and the SSE version the one without; the SSE operations are
  modelled from their documented meaning on the byte image of a register. The helpers that
  compute with floats (\<open>fa\<close>, \<open>fma\<close>, the conversions, the double precision family)
  are not modelled; the estimates \<open>frest\<close>, \<open>frsqest\<close> and \<open>fi\<close> are integer code
  and are.
\<close>

section \<open>Constructors\<close>

definition spu_clz32 :: "u32 \<Rightarrow> nat" where
  "spu_clz32 x = (case find (\<lambda>k. bit x (31 - k)) [0..<32] of Some k \<Rightarrow> k | None \<Rightarrow> 32)"

definition spu_splat_u32 :: "u32 \<Rightarrow> u128" where "spu_splat_u32 v = lanes (\<lambda>_. v)"

definition spu_link :: "u32 \<Rightarrow> u128" where "spu_link addr = lanes (\<lambda>i. if i = 0 then addr else 0)"

definition spu_pref_u32 :: "u32 \<Rightarrow> u128" where "spu_pref_u32 v = lanes (\<lambda>i. if i = 0 then v else 0)"

definition spu_splat_u16 :: "u16 \<Rightarrow> u128" where "spu_splat_u16 v = lanes (\<lambda>_. v)"

definition spu_splat_u8 :: "u8 \<Rightarrow> u128" where "spu_splat_u8 v = lanes (\<lambda>_. v)"

definition spu_zero :: u128 where "spu_zero = 0"

section \<open>Integer arithmetic\<close>

definition spu_a :: "u128 \<Rightarrow> u128 \<Rightarrow> u128" where
  "spu_a a b = lanes (\<lambda>i. lane a i + lane b i :: u32)"

definition spu_sf :: "u128 \<Rightarrow> u128 \<Rightarrow> u128" where
  "spu_sf a b = lanes (\<lambda>i. lane b i - lane a i :: u32)"

definition spu_ah :: "u128 \<Rightarrow> u128 \<Rightarrow> u128" where
  "spu_ah a b = lanes (\<lambda>i. lane a i + lane b i :: u16)"

definition spu_sfh :: "u128 \<Rightarrow> u128 \<Rightarrow> u128" where
  "spu_sfh a b = lanes (\<lambda>i. lane b i - lane a i :: u16)"

definition spu_ai :: "u128 \<Rightarrow> int \<Rightarrow> u128" where
  "spu_ai a imm = lanes (\<lambda>i. lane a i + of_int imm :: u32)"

definition spu_ahi :: "u128 \<Rightarrow> int \<Rightarrow> u128" where
  "spu_ahi a imm = lanes (\<lambda>i. lane a i + of_int imm :: u16)"

definition spu_sfi :: "u128 \<Rightarrow> int \<Rightarrow> u128" where
  "spu_sfi a imm = lanes (\<lambda>i. of_int imm - lane a i :: u32)"

definition spu_sfhi :: "u128 \<Rightarrow> int \<Rightarrow> u128" where
  "spu_sfhi a imm = lanes (\<lambda>i. of_int imm - lane a i :: u16)"

text \<open>The signed products of halfwords, written through the signed word view.\<close>

definition s16 :: "u128 \<Rightarrow> nat \<Rightarrow> int" where
  "s16 v i = sint (lane v i :: u16)"

definition spu_mpy :: "u128 \<Rightarrow> u128 \<Rightarrow> u128" where
  "spu_mpy a b = lanes (\<lambda>i. of_int (s16 a (i * 2) * s16 b (i * 2)) :: u32)"

definition spu_mpya :: "u128 \<Rightarrow> u128 \<Rightarrow> u128 \<Rightarrow> u128" where
  "spu_mpya a b c = lanes (\<lambda>i. of_int (s16 a (i * 2) * s16 b (i * 2)) + lane c i :: u32)"

definition spu_sfx :: "u128 \<Rightarrow> u128 \<Rightarrow> u128 \<Rightarrow> u128" where
  "spu_sfx a b t = lanes (\<lambda>i. lane b i + NOT (lane a i) + (lane t i AND 1) :: u32)"

definition spu_fi :: "u128 \<Rightarrow> u128 \<Rightarrow> u128" where
  "spu_fi a b = lanes (\<lambda>i.
     let rb = lane b i :: u32; ra = lane a i;
         base = push_bit 9 (rb AND 0x007FFC00);
         ymul = (rb AND 0x3FF) * (ra AND 0x7FFFF);
         adj = (if ymul > base then 1 else 0 :: nat);
         bnew = drop_bit (9 - adj) (base - ymul);
         expo = (rb AND 0xFF800000) - push_bit 23 (of_nat adj);
         expo = (if expo AND 0x7F800000 = 0x7F800000 then expo AND 0x80000000 OR 0x7F7FFFFF else expo)
     in expo OR (bnew AND 0x007FFFFF))"

definition spu_mpyu :: "u128 \<Rightarrow> u128 \<Rightarrow> u128" where
  "spu_mpyu a b = lanes (\<lambda>i. ucast (lane a (i * 2) :: u16) * ucast (lane b (i * 2) :: u16) :: u32)"

definition spu_mpyi :: "u128 \<Rightarrow> int \<Rightarrow> u128" where
  "spu_mpyi a imm = lanes (\<lambda>i. of_int (s16 a (i * 2) * sint (of_int imm :: u16)) :: u32)"

section \<open>Bitwise logic\<close>

definition spu_and :: "u128 \<Rightarrow> u128 \<Rightarrow> u128" where
  "spu_and a b = lanes (\<lambda>i. lane a i AND lane b i :: u64)"

definition spu_or :: "u128 \<Rightarrow> u128 \<Rightarrow> u128" where
  "spu_or a b = lanes (\<lambda>i. lane a i OR lane b i :: u64)"

definition spu_xor :: "u128 \<Rightarrow> u128 \<Rightarrow> u128" where
  "spu_xor a b = lanes (\<lambda>i. lane a i XOR lane b i :: u64)"

definition spu_nand :: "u128 \<Rightarrow> u128 \<Rightarrow> u128" where
  "spu_nand a b = lanes (\<lambda>i. NOT (lane a i AND lane b i) :: u64)"

definition spu_nor :: "u128 \<Rightarrow> u128 \<Rightarrow> u128" where
  "spu_nor a b = lanes (\<lambda>i. NOT (lane a i OR lane b i) :: u64)"

definition spu_andc :: "u128 \<Rightarrow> u128 \<Rightarrow> u128" where
  "spu_andc a b = lanes (\<lambda>i. lane a i AND NOT (lane b i) :: u64)"

definition spu_orc :: "u128 \<Rightarrow> u128 \<Rightarrow> u128" where
  "spu_orc a b = lanes (\<lambda>i. lane a i OR NOT (lane b i) :: u64)"

definition spu_andi :: "u128 \<Rightarrow> int \<Rightarrow> u128" where
  "spu_andi a imm = lanes (\<lambda>i. lane a i AND of_int imm :: u32)"

definition spu_ori :: "u128 \<Rightarrow> int \<Rightarrow> u128" where
  "spu_ori a imm = lanes (\<lambda>i. lane a i OR of_int imm :: u32)"

definition spu_xori :: "u128 \<Rightarrow> int \<Rightarrow> u128" where
  "spu_xori a imm = lanes (\<lambda>i. lane a i XOR of_int imm :: u32)"

section \<open>Counting\<close>

definition spu_clz :: "u128 \<Rightarrow> u128" where
  "spu_clz a = lanes (\<lambda>i. of_nat (spu_clz32 (lane a i)) :: u32)"

function count_ones :: "u8 \<Rightarrow> u8 \<Rightarrow> u8" where
  "count_ones v c = (if v \<noteq> 0 then count_ones (drop_bit 1 v) (c + (v AND 1)) else c)"
  by pat_completeness auto
termination
  by (relation "measure (\<lambda>(v, c). unat v)") (simp_all add: drop_bit_eq_div unat_div unat_gt_0 div_less_dividend)

declare count_ones.simps [simp del]

definition spu_cntb :: "u128 \<Rightarrow> u128" where
  "spu_cntb a = lanes (\<lambda>i. count_ones (lane a i) 0)"

section \<open>Compares\<close>

definition spu_ceq :: "u128 \<Rightarrow> u128 \<Rightarrow> u128" where
  "spu_ceq a b = lanes (\<lambda>i. if (lane a i :: u32) = lane b i then 0xFFFFFFFF else 0 :: u32)"

definition spu_ceqh :: "u128 \<Rightarrow> u128 \<Rightarrow> u128" where
  "spu_ceqh a b = lanes (\<lambda>i. if (lane a i :: u16) = lane b i then 0xFFFF else 0 :: u16)"

definition spu_ceqb :: "u128 \<Rightarrow> u128 \<Rightarrow> u128" where
  "spu_ceqb a b = lanes (\<lambda>i. if (lane a i :: u8) = lane b i then 0xFF else 0 :: u8)"

definition spu_cgt :: "u128 \<Rightarrow> u128 \<Rightarrow> u128" where
  "spu_cgt a b = lanes (\<lambda>i. if sint (lane a i :: u32) > sint (lane b i :: u32) then 0xFFFFFFFF else 0 :: u32)"

definition spu_cgth :: "u128 \<Rightarrow> u128 \<Rightarrow> u128" where
  "spu_cgth a b = lanes (\<lambda>i. if s16 a i > s16 b i then 0xFFFF else 0 :: u16)"

definition spu_cgtb :: "u128 \<Rightarrow> u128 \<Rightarrow> u128" where
  "spu_cgtb a b = lanes (\<lambda>i. if sint (lane a i :: u8) > sint (lane b i :: u8) then 0xFF else 0 :: u8)"

definition spu_clgt :: "u128 \<Rightarrow> u128 \<Rightarrow> u128" where
  "spu_clgt a b = lanes (\<lambda>i. if (lane a i :: u32) > lane b i then 0xFFFFFFFF else 0 :: u32)"

definition spu_clgth :: "u128 \<Rightarrow> u128 \<Rightarrow> u128" where
  "spu_clgth a b = lanes (\<lambda>i. if (lane a i :: u16) > lane b i then 0xFFFF else 0 :: u16)"

definition spu_clgtb :: "u128 \<Rightarrow> u128 \<Rightarrow> u128" where
  "spu_clgtb a b = lanes (\<lambda>i. if (lane a i :: u8) > lane b i then 0xFF else 0 :: u8)"

definition spu_ceqi :: "u128 \<Rightarrow> int \<Rightarrow> u128" where
  "spu_ceqi a imm = lanes (\<lambda>i. if sint (lane a i :: u32) = imm then 0xFFFFFFFF else 0 :: u32)"

definition spu_cgti :: "u128 \<Rightarrow> int \<Rightarrow> u128" where
  "spu_cgti a imm = lanes (\<lambda>i. if sint (lane a i :: u32) > imm then 0xFFFFFFFF else 0 :: u32)"

definition spu_clgti :: "u128 \<Rightarrow> int \<Rightarrow> u128" where
  "spu_clgti a imm = lanes (\<lambda>i. if (lane a i :: u32) > of_int imm then 0xFFFFFFFF else 0 :: u32)"

section \<open>Select and shuffle\<close>

definition spu_selb :: "u128 \<Rightarrow> u128 \<Rightarrow> u128 \<Rightarrow> u128" where
  "spu_selb a b c = lanes (\<lambda>i. (lane a i AND NOT (lane c i)) OR (lane b i AND lane c i) :: u64)"

text \<open>The byte operations of the SSE build, on the byte, halfword, word and doubleword views.\<close>

definition mm_setr_epi8 :: "u8 list \<Rightarrow> u128" where
  "mm_setr_epi8 bs = lanes (\<lambda>i. bs ! i)"

definition mm_set1_epi8 :: "u8 \<Rightarrow> u128" where
  "mm_set1_epi8 b = lanes (\<lambda>_. b)"

definition mm_and_si128 :: "u128 \<Rightarrow> u128 \<Rightarrow> u128" where "mm_and_si128 a b = a AND b"

definition mm_or_si128 :: "u128 \<Rightarrow> u128 \<Rightarrow> u128" where "mm_or_si128 a b = a OR b"

definition mm_xor_si128 :: "u128 \<Rightarrow> u128 \<Rightarrow> u128" where "mm_xor_si128 a b = a XOR b"

definition mm_add_epi8 :: "u128 \<Rightarrow> u128 \<Rightarrow> u128" where
  "mm_add_epi8 a b = lanes (\<lambda>i. lane a i + lane b i :: u8)"

definition mm_sub_epi8 :: "u128 \<Rightarrow> u128 \<Rightarrow> u128" where
  "mm_sub_epi8 a b = lanes (\<lambda>i. lane a i - lane b i :: u8)"

definition mm_cmpgt_epi8 :: "u128 \<Rightarrow> u128 \<Rightarrow> u128" where
  "mm_cmpgt_epi8 a b = lanes (\<lambda>i. if sint (lane a i :: u8) > sint (lane b i :: u8) then 0xFF else 0 :: u8)"

definition mm_slli_epi16 :: "u128 \<Rightarrow> nat \<Rightarrow> u128" where
  "mm_slli_epi16 a n = lanes (\<lambda>i. push_bit n (lane a i :: u16))"

definition mm_srli_epi16 :: "u128 \<Rightarrow> nat \<Rightarrow> u128" where
  "mm_srli_epi16 a n = lanes (\<lambda>i. drop_bit n (lane a i :: u16))"

definition mm_shuffle_epi8 :: "u128 \<Rightarrow> u128 \<Rightarrow> u128" where
  "mm_shuffle_epi8 a idx = lanes (\<lambda>i. let k = lane idx i :: u8
     in if bit k 7 then 0 else lane a (unat (k AND 0x0F)) :: u8)"

definition mm_blendv_epi8 :: "u128 \<Rightarrow> u128 \<Rightarrow> u128 \<Rightarrow> u128" where
  "mm_blendv_epi8 a b m = lanes (\<lambda>i. if bit (lane m i :: u8) 7 then lane b i else lane a i :: u8)"

definition spu_shufb :: "u128 \<Rightarrow> u128 \<Rightarrow> u128 \<Rightarrow> u128" where
  "spu_shufb a b c =
     (let idx = mm_xor_si128 (mm_and_si128 c (mm_set1_epi8 0x0F)) (mm_set1_epi8 0x03);
          r = mm_blendv_epi8 (mm_shuffle_epi8 a idx) (mm_shuffle_epi8 b idx) (mm_slli_epi16 c 3);
          lut = mm_setr_epi8 [0, 0, 0, 0, 0, 0, 0, 0, 0, 0, 0, 0, 0xFF, 0xFF, 0x80, 0x80];
          special = mm_shuffle_epi8 lut (mm_and_si128 (mm_srli_epi16 c 4) (mm_set1_epi8 0x0F))
      in mm_blendv_epi8 r special c)"

definition spu_shufb_ref :: "u128 \<Rightarrow> u128 \<Rightarrow> u128 \<Rightarrow> u128" where
  "spu_shufb_ref a b c =
     (let cat = map (gbyte a) [0..<16] @ map (gbyte b) [0..<16]
      in gbytes (\<lambda>t. let s = gbyte c t
           in if s AND 0xE0 = 0xE0 then 0x80
              else if s AND 0xC0 = 0xC0 then 0xFF
              else if s AND 0xC0 = 0x80 then 0x00
              else cat ! unat (s AND 0x1F)))"

section \<open>Shifts and rotates by an immediate\<close>

text \<open>A shift count taken modulo a power of two, \<^verbatim>\<open>sh &= mask\<close>, as a number.\<close>

definition sh_mask :: "int \<Rightarrow> nat \<Rightarrow> nat" where
  "sh_mask sh m = nat (sh mod int m)"

definition shl_or_0 :: "nat \<Rightarrow> 'a::len word \<Rightarrow> 'a word" where
  "shl_or_0 sh v = (if sh > LENGTH('a) - 1 then 0 else push_bit sh v)"

definition shr_or_0 :: "nat \<Rightarrow> 'a::len word \<Rightarrow> 'a word" where
  "shr_or_0 sh v = (if sh > LENGTH('a) - 1 then 0 else drop_bit sh v)"

definition sar_or_sign :: "nat \<Rightarrow> 'a::len word \<Rightarrow> 'a word" where
  "sar_or_sign sh v = (if sh > LENGTH('a) - 1 then signed_drop_bit (LENGTH('a) - 1) v else signed_drop_bit sh v)"

definition rot_left :: "nat \<Rightarrow> 'a::len word \<Rightarrow> 'a word" where
  "rot_left sh v = (if sh \<noteq> 0 then push_bit sh v OR drop_bit (LENGTH('a) - sh) v else v)"

definition spu_shli :: "u128 \<Rightarrow> int \<Rightarrow> u128" where
  "spu_shli a sh = lanes (\<lambda>i. shl_or_0 (sh_mask sh 64) (lane a i :: u32))"

definition spu_shlhi :: "u128 \<Rightarrow> int \<Rightarrow> u128" where
  "spu_shlhi a sh = lanes (\<lambda>i. shl_or_0 (sh_mask sh 32) (lane a i :: u16))"

definition spu_roti :: "u128 \<Rightarrow> int \<Rightarrow> u128" where
  "spu_roti a sh = lanes (\<lambda>i. rot_left (sh_mask sh 32) (lane a i :: u32))"

definition spu_rothi :: "u128 \<Rightarrow> int \<Rightarrow> u128" where
  "spu_rothi a sh = lanes (\<lambda>i. let s = sh_mask sh 16; v = lane a i :: u16 in push_bit s v OR drop_bit (16 - s) v)"

definition spu_rotmi :: "u128 \<Rightarrow> int \<Rightarrow> u128" where
  "spu_rotmi a i7 = lanes (\<lambda>i. shr_or_0 (sh_mask (0 - i7) 64) (lane a i :: u32))"

definition spu_rotmai :: "u128 \<Rightarrow> int \<Rightarrow> u128" where
  "spu_rotmai a i7 = lanes (\<lambda>i. sar_or_sign (sh_mask (0 - i7) 64) (lane a i :: u32))"

definition spu_rotmhi :: "u128 \<Rightarrow> int \<Rightarrow> u128" where
  "spu_rotmhi a i7 = lanes (\<lambda>i. shr_or_0 (sh_mask (0 - i7) 32) (lane a i :: u16))"

text \<open>Byte shifts and rotates of the quadword: the SSE versions, then the loops.\<close>

definition spu_qb_jx3 :: u128 where
  "spu_qb_jx3 = mm_setr_epi8 [3, 2, 1, 0, 7, 6, 5, 4, 11, 10, 9, 8, 15, 14, 13, 12]"

definition spu_qb_shuf :: "u128 \<Rightarrow> u128 \<Rightarrow> u128" where
  "spu_qb_shuf a idx = mm_shuffle_epi8 a idx"

definition spu_qb_rot :: "u128 \<Rightarrow> nat \<Rightarrow> u128" where
  "spu_qb_rot a sh =
     (let t = mm_and_si128 (mm_add_epi8 spu_qb_jx3 (mm_set1_epi8 (of_nat sh))) (mm_set1_epi8 0x0F)
      in spu_qb_shuf a (mm_xor_si128 t (mm_set1_epi8 3)))"

definition spu_qb_shl :: "u128 \<Rightarrow> nat \<Rightarrow> u128" where
  "spu_qb_shl a sh =
     (let t = mm_add_epi8 spu_qb_jx3 (mm_set1_epi8 (of_nat sh));
          over = mm_and_si128 (mm_cmpgt_epi8 t (mm_set1_epi8 15)) (mm_set1_epi8 0x80)
      in spu_qb_shuf a (mm_or_si128 (mm_xor_si128 t (mm_set1_epi8 3)) over))"

definition spu_qb_shr :: "u128 \<Rightarrow> nat \<Rightarrow> u128" where
  "spu_qb_shr a sh =
     (let t = mm_sub_epi8 spu_qb_jx3 (mm_set1_epi8 (of_nat sh))
      in spu_qb_shuf a (mm_xor_si128 t (mm_set1_epi8 3)))"

definition qb_rot_ref :: "u128 \<Rightarrow> nat \<Rightarrow> u128" where
  "qb_rot_ref a sh = gbytes (\<lambda>i. gbyte a ((i + sh) mod 16))"

definition qb_shl_ref :: "u128 \<Rightarrow> nat \<Rightarrow> u128" where
  "qb_shl_ref a sh = gbytes (\<lambda>i. if i + sh < 16 then gbyte a (i + sh) else 0)"

definition qb_shr_ref :: "u128 \<Rightarrow> nat \<Rightarrow> u128" where
  "qb_shr_ref a sh = gbytes (\<lambda>i. if sh \<le> i then gbyte a (i - sh) else 0)"

definition spu_shlqbyi :: "u128 \<Rightarrow> int \<Rightarrow> u128" where
  "spu_shlqbyi a sh = spu_qb_shl a (sh_mask sh 32)"

definition spu_rotqbyi :: "u128 \<Rightarrow> int \<Rightarrow> u128" where
  "spu_rotqbyi a sh = spu_qb_rot a (sh_mask sh 16)"

text \<open>Bit shifts and rotates of the quadword by 0 to 7.\<close>

definition hi64 :: "u128 \<Rightarrow> u64" where
  "hi64 a = push_bit 32 (ucast (lane a 0 :: u32)) OR ucast (lane a 1 :: u32)"

definition lo64 :: "u128 \<Rightarrow> u64" where
  "lo64 a = push_bit 32 (ucast (lane a 2 :: u32)) OR ucast (lane a 3 :: u32)"

definition from_halves :: "u64 \<Rightarrow> u64 \<Rightarrow> u128" where
  "from_halves nhi nlo = lanes (\<lambda>i. if i = 0 then ucast (drop_bit 32 nhi) else if i = 1 then ucast nhi
     else if i = 2 then ucast (drop_bit 32 nlo) else ucast nlo :: u32)"

definition q_shl :: "u128 \<Rightarrow> nat \<Rightarrow> u128" where
  "q_shl a sh = (if sh = 0 then a
     else from_halves (push_bit sh (hi64 a) OR drop_bit (64 - sh) (lo64 a)) (push_bit sh (lo64 a)))"

definition q_rot :: "u128 \<Rightarrow> nat \<Rightarrow> u128" where
  "q_rot a sh = (if sh = 0 then a
     else from_halves (push_bit sh (hi64 a) OR drop_bit (64 - sh) (lo64 a))
            (push_bit sh (lo64 a) OR drop_bit (64 - sh) (hi64 a)))"

definition q_shr :: "u128 \<Rightarrow> nat \<Rightarrow> u128" where
  "q_shr a sh = (if sh = 0 then a
     else from_halves (drop_bit sh (hi64 a)) (drop_bit sh (lo64 a) OR push_bit (64 - sh) (hi64 a)))"

definition spu_shlqbii :: "u128 \<Rightarrow> int \<Rightarrow> u128" where
  "spu_shlqbii a sh = q_shl a (sh_mask sh 8)"

definition spu_rotqbii :: "u128 \<Rightarrow> int \<Rightarrow> u128" where
  "spu_rotqbii a sh = q_rot a (sh_mask sh 8)"

section \<open>Extended arithmetic and the rest of the bytewise operations\<close>

definition spu_mpyhhu :: "u128 \<Rightarrow> u128 \<Rightarrow> u128" where
  "spu_mpyhhu a b = lanes (\<lambda>i. ucast (lane a (2 * i + 1) :: u16) * ucast (lane b (2 * i + 1) :: u16) :: u32)"

definition spu_cgx :: "u128 \<Rightarrow> u128 \<Rightarrow> u128 \<Rightarrow> u128" where
  "spu_cgx a b t = lanes (\<lambda>i.
     ucast (drop_bit 32 (ucast (lane t i AND 1 :: u32) + ucast (lane a i :: u32) + ucast (lane b i :: u32) :: u64)) :: u32)"

definition spu_eqv :: "u128 \<Rightarrow> u128 \<Rightarrow> u128" where
  "spu_eqv a b = lanes (\<lambda>i. NOT (lane a i XOR lane b i) :: u32)"

definition spu_xorbi :: "u128 \<Rightarrow> int \<Rightarrow> u128" where
  "spu_xorbi a imm = lanes (\<lambda>i. lane a i XOR of_int imm :: u8)"

definition spu_absdb :: "u128 \<Rightarrow> u128 \<Rightarrow> u128" where
  "spu_absdb a b = lanes (\<lambda>i. let x = lane a i :: u8; y = lane b i in if x > y then x - y else y - x)"

definition spu_avgb :: "u128 \<Rightarrow> u128 \<Rightarrow> u128" where
  "spu_avgb a b = lanes (\<lambda>i. ucast (drop_bit 1 (ucast (lane a i :: u8) + ucast (lane b i :: u8) + 1 :: u32)) :: u8)"

definition spu_mpyhha :: "u128 \<Rightarrow> u128 \<Rightarrow> u128 \<Rightarrow> u128" where
  "spu_mpyhha a b t = lanes (\<lambda>i. lane t i + of_int (s16 a (2 * i + 1) * s16 b (2 * i + 1)) :: u32)"

definition spu_mpyhhau :: "u128 \<Rightarrow> u128 \<Rightarrow> u128 \<Rightarrow> u128" where
  "spu_mpyhhau a b t = lanes (\<lambda>i.
     lane t i + ucast (lane a (2 * i + 1) :: u16) * ucast (lane b (2 * i + 1) :: u16) :: u32)"

definition spu_dftsv :: "u128 \<Rightarrow> int \<Rightarrow> u128" where
  "spu_dftsv a imm = 0"

section \<open>Shifts and rotates by a register\<close>

definition spu_shl :: "u128 \<Rightarrow> u128 \<Rightarrow> u128" where
  "spu_shl a b = lanes (\<lambda>i. shl_or_0 (unat (lane b i AND 0x3F :: u32)) (lane a i :: u32))"

definition spu_shlh :: "u128 \<Rightarrow> u128 \<Rightarrow> u128" where
  "spu_shlh a b = lanes (\<lambda>i. shl_or_0 (unat (lane b i AND 0x1F :: u16)) (lane a i :: u16))"

definition spu_rot :: "u128 \<Rightarrow> u128 \<Rightarrow> u128" where
  "spu_rot a b = lanes (\<lambda>i. rot_left (unat (lane b i AND 31 :: u32)) (lane a i :: u32))"

definition spu_roth :: "u128 \<Rightarrow> u128 \<Rightarrow> u128" where
  "spu_roth a b = lanes (\<lambda>i. rot_left (unat (lane b i AND 15 :: u16)) (lane a i :: u16))"

definition spu_shlqbi :: "u128 \<Rightarrow> u128 \<Rightarrow> u128" where
  "spu_shlqbi a b = q_shl a (unat (lane b 0 AND 7 :: u32))"

definition spu_rotqbi :: "u128 \<Rightarrow> u128 \<Rightarrow> u128" where
  "spu_rotqbi a b = q_rot a (unat (lane b 0 AND 7 :: u32))"

definition spu_shlqby :: "u128 \<Rightarrow> u128 \<Rightarrow> u128" where
  "spu_shlqby a b = spu_qb_shl a (unat (lane b 0 AND 0x1F :: u32))"

definition spu_rotqby :: "u128 \<Rightarrow> u128 \<Rightarrow> u128" where
  "spu_rotqby a b = spu_qb_rot a (unat (lane b 0 AND 0x0F :: u32))"

definition spu_shlqbybi :: "u128 \<Rightarrow> u128 \<Rightarrow> u128" where
  "spu_shlqbybi a b = spu_qb_shl a (unat (drop_bit 3 (lane b 0) AND 0x1F :: u32))"

definition spu_rotqbybi :: "u128 \<Rightarrow> u128 \<Rightarrow> u128" where
  "spu_rotqbybi a b = spu_qb_rot a (unat (drop_bit 3 (lane b 0) AND 0x0F :: u32))"

definition spu_rotmahi :: "u128 \<Rightarrow> int \<Rightarrow> u128" where
  "spu_rotmahi a i7 = lanes (\<lambda>i. sar_or_sign (sh_mask (0 - i7) 32) (lane a i :: u16))"

section \<open>Byte and halfword compares with an immediate\<close>

definition spu_ceqbi :: "u128 \<Rightarrow> int \<Rightarrow> u128" where
  "spu_ceqbi a imm = lanes (\<lambda>i. if (lane a i :: u8) = of_int imm then 0xFF else 0 :: u8)"

definition spu_ceqhi :: "u128 \<Rightarrow> int \<Rightarrow> u128" where
  "spu_ceqhi a imm = lanes (\<lambda>i. if s16 a i = sint (of_int imm :: u16) then 0xFFFF else 0 :: u16)"

definition spu_clgtbi :: "u128 \<Rightarrow> int \<Rightarrow> u128" where
  "spu_clgtbi a imm = lanes (\<lambda>i. if (lane a i :: u8) > of_int imm then 0xFF else 0 :: u8)"

definition spu_clgthi :: "u128 \<Rightarrow> int \<Rightarrow> u128" where
  "spu_clgthi a imm = lanes (\<lambda>i. if (lane a i :: u16) > of_int imm then 0xFFFF else 0 :: u16)"

definition spu_cgthi :: "u128 \<Rightarrow> int \<Rightarrow> u128" where
  "spu_cgthi a imm = lanes (\<lambda>i. if s16 a i > sint (of_int imm :: u16) then 0xFFFF else 0 :: u16)"

definition spu_cgtbi :: "u128 \<Rightarrow> int \<Rightarrow> u128" where
  "spu_cgtbi a imm = lanes (\<lambda>i. if sint (lane a i :: u8) > sint (of_int imm :: u8) then 0xFF else 0 :: u8)"

section \<open>Gathering bits, sums and carries\<close>

definition spu_fscrrd :: "u128 \<Rightarrow> u128" where "spu_fscrrd a = spu_zero"

definition spu_gb :: "u128 \<Rightarrow> u128" where
  "spu_gb a = spu_pref_u32 (push_bit 3 (lane a 0 AND 1) OR push_bit 2 (lane a 1 AND 1) OR
     push_bit 1 (lane a 2 AND 1) OR (lane a 3 AND 1))"

definition spu_gbh :: "u128 \<Rightarrow> u128" where
  "spu_gbh a = spu_pref_u32 (foldr (\<lambda>i v. v OR push_bit (7 - i) (ucast (lane a (i XOR 1) AND 1 :: u16))) [0..<8] 0)"

definition spu_gbb :: "u128 \<Rightarrow> u128" where
  "spu_gbb a = spu_pref_u32 (foldr (\<lambda>i v. v OR push_bit (15 - i) (ucast (lane a (SPU_W i) AND 1 :: u8))) [0..<16] 0)"

definition spu_cg :: "u128 \<Rightarrow> u128 \<Rightarrow> u128" where
  "spu_cg a b = lanes (\<lambda>i. ucast (drop_bit 32 (ucast (lane a i :: u32) + ucast (lane b i :: u32) :: u64)) :: u32)"

definition spu_sumb :: "u128 \<Rightarrow> u128 \<Rightarrow> u128" where
  "spu_sumb a b = lanes (\<lambda>i.
     let wa = lane a i :: u32; wb = lane b i;
         sa = (drop_bit 24 wa AND 0xFF) + (drop_bit 16 wa AND 0xFF) + (drop_bit 8 wa AND 0xFF) + (wa AND 0xFF);
         sb = (drop_bit 24 wb AND 0xFF) + (drop_bit 16 wb AND 0xFF) + (drop_bit 8 wb AND 0xFF) + (wb AND 0xFF)
     in push_bit 16 sb OR sa)"

definition spu_bg :: "u128 \<Rightarrow> u128 \<Rightarrow> u128" where
  "spu_bg a b = lanes (\<lambda>i.
     ucast (drop_bit 32 (ucast (lane b i :: u32) + ucast (NOT (lane a i) :: u32) + 1 :: u64)) :: u32)"

definition spu_addx :: "u128 \<Rightarrow> u128 \<Rightarrow> u128 \<Rightarrow> u128" where
  "spu_addx a b t = lanes (\<lambda>i. lane a i + lane b i + (lane t i AND 1) :: u32)"

definition spu_mpyh :: "u128 \<Rightarrow> u128 \<Rightarrow> u128" where
  "spu_mpyh a b = lanes (\<lambda>i. push_bit 16 (of_int (s16 a (2 * i + 1) * s16 b (2 * i))) :: u32)"

definition spu_mpyhh :: "u128 \<Rightarrow> u128 \<Rightarrow> u128" where
  "spu_mpyhh a b = lanes (\<lambda>i. of_int (s16 a (2 * i + 1) * s16 b (2 * i + 1)) :: u32)"

definition spu_mpys :: "u128 \<Rightarrow> u128 \<Rightarrow> u128" where
  "spu_mpys a b = lanes (\<lambda>i. of_int (sint (of_int (s16 a (2 * i) * s16 b (2 * i) div 2 ^ 16) :: u16)) :: u32)"

definition spu_mpyui :: "u128 \<Rightarrow> int \<Rightarrow> u128" where
  "spu_mpyui a imm = lanes (\<lambda>i. ucast (lane a (2 * i) :: u16) * ucast (of_int imm :: u16) :: u32)"

section \<open>Estimates\<close>

definition spu_frest_fraction_lut :: "u32 list" where
  "spu_frest_fraction_lut =
    [0x7FFBE0, 0x7F87A6, 0x70EF72, 0x708B40, 0x638B12, 0x633AEA, 0x5792C4, 0x574AA0,
     0x4CCA7E, 0x4C9262, 0x430A44, 0x42D62A, 0x3A2E12, 0x39FDFA, 0x3215E4, 0x31F1D2,
     0x2AA9BE, 0x2A85AC, 0x23D59A, 0x23BD8E, 0x1D8576, 0x1D8576, 0x17AD5A, 0x17AD5A,
     0x124543, 0x124543, 0x0D392D, 0x0D392D, 0x08851A, 0x08851A, 0x041D07, 0x041D07]"

definition spu_frsqest_fraction_lut :: "u32 list" where
  "spu_frsqest_fraction_lut =
    [0x350160, 0x34E954, 0x2F993D, 0x2F993D, 0x2AA523, 0x2AA523, 0x26190D, 0x26190D,
     0x21E4F9, 0x21E4F9, 0x1E00E9, 0x1E00E9, 0x1A5CD9, 0x1A5CD9, 0x16F8CB, 0x16F8CB,
     0x13CCC0, 0x13CCC0, 0x10CCB3, 0x10CCB3, 0x0E00AA, 0x0E00AA, 0x0B58A1, 0x0B58A1,
     0x08D498, 0x08D498, 0x067491, 0x067491, 0x043089, 0x043089, 0x020C83, 0x020C83,
     0x7FFDF4, 0x7FD1DE, 0x7859C8, 0x783DBA, 0x71559C, 0x71559C, 0x6AE57C, 0x6AE57C,
     0x64F561, 0x64F561, 0x5F7149, 0x5F7149, 0x5A4D33, 0x5A4D33, 0x55811F, 0x55811F,
     0x51050F, 0x51050F, 0x4CC8FE, 0x4CC8FE, 0x48D0F0, 0x48D0F0, 0x4510E4, 0x4510E4,
     0x4180D7, 0x4180D7, 0x3E24CC, 0x3E24CC, 0x3AF4C3, 0x3AF4C3, 0x37E8BA, 0x37E8BA]"

definition spu_frsqest :: "u128 \<Rightarrow> u128" where
  "spu_frsqest a = lanes (\<lambda>i.
     let bits = lane a i :: u32;
         exp = drop_bit 23 bits AND 0xFF;
         frac_idx = drop_bit 18 bits AND 0x3F;
         rexp = (if exp = 0 then 0xFF else 190 - (exp + 1) div 2);
         fraction = spu_frsqest_fraction_lut ! unat frac_idx
     in push_bit 23 rexp OR (fraction AND 0x7FFFFF))"

definition spu_frest :: "u128 \<Rightarrow> u128" where
  "spu_frest a = lanes (\<lambda>i.
     let bits = lane a i :: u32;
         sign = bits AND 0x80000000;
         exp = drop_bit 23 bits AND 0xFF;
         frac_idx = drop_bit 18 bits AND 0x1F
     in if exp = 0 then sign OR 0x7FFFFFFF
        else let rexp = (if exp \<ge> 253 then 0 else 253 - exp);
                 fraction = spu_frest_fraction_lut ! unat frac_idx
             in sign OR push_bit 23 rexp OR (fraction AND 0x7FFFFF))"

section \<open>Sign extension, masks and insertion controls\<close>

definition spu_xsbh :: "u128 \<Rightarrow> u128" where
  "spu_xsbh a = lanes (\<lambda>i. scast (lane a (2 * i) :: u8) :: u16)"

definition spu_xshw :: "u128 \<Rightarrow> u128" where
  "spu_xshw a = lanes (\<lambda>i. scast (lane a (2 * i) :: u16) :: u32)"

definition spu_xswd :: "u128 \<Rightarrow> u128" where
  "spu_xswd a = lanes (\<lambda>i. let v = lane a (2 * (i div 2) + 1) :: u32
     in if even i then signed_drop_bit 31 v else v)"

definition spu_orx :: "u128 \<Rightarrow> u128" where
  "spu_orx a = spu_pref_u32 (lane a 0 OR lane a 1 OR lane a 2 OR lane a 3)"

definition spu_fsm :: "u128 \<Rightarrow> u128" where
  "spu_fsm a = (let v = lane a 0 AND 0xF :: u32
     in lanes (\<lambda>i. if drop_bit (3 - i) v AND 1 \<noteq> 0 then 0xFFFFFFFF else 0 :: u32))"

definition spu_fsmh :: "u128 \<Rightarrow> u128" where
  "spu_fsmh a = (let v = lane a 0 AND 0xFF :: u32
     in lanes (\<lambda>j. let i = j XOR 1 in if drop_bit (7 - i) v AND 1 \<noteq> 0 then 0xFFFF else 0 :: u16))"

definition fsmb_of :: "u32 \<Rightarrow> u128" where
  "fsmb_of v = gbytes (\<lambda>i. if drop_bit (15 - i) v AND 1 \<noteq> 0 then 0xFF else 0)"

definition spu_fsmb :: "u128 \<Rightarrow> u128" where
  "spu_fsmb a = fsmb_of (lane a 0 AND 0xFFFF)"

definition spu_fsmbi :: "int \<Rightarrow> u128" where
  "spu_fsmbi imm = fsmb_of (of_int imm AND 0xFFFF)"

text \<open>The insertion controls: the SSE versions, then the loops.\<close>

definition mm_cmpeq_epi8 :: "u128 \<Rightarrow> u128 \<Rightarrow> u128" where
  "mm_cmpeq_epi8 a b = lanes (\<lambda>i. if (lane a i :: u8) = lane b i then - 1 else 0 :: u8)"

definition mm_cmpeq_epi16 :: "u128 \<Rightarrow> u128 \<Rightarrow> u128" where
  "mm_cmpeq_epi16 a b = lanes (\<lambda>i. if (lane a i :: u16) = lane b i then - 1 else 0 :: u16)"

definition mm_cmpeq_epi32 :: "u128 \<Rightarrow> u128 \<Rightarrow> u128" where
  "mm_cmpeq_epi32 a b = lanes (\<lambda>i. if (lane a i :: u32) = lane b i then - 1 else 0 :: u32)"

definition mm_cmpeq_epi64 :: "u128 \<Rightarrow> u128 \<Rightarrow> u128" where
  "mm_cmpeq_epi64 a b = lanes (\<lambda>i. if (lane a i :: u64) = lane b i then - 1 else 0 :: u64)"

definition spu_c_base :: u128 where
  "spu_c_base = mm_setr_epi8 [0x13, 0x12, 0x11, 0x10, 0x17, 0x16, 0x15, 0x14,
     0x1B, 0x1A, 0x19, 0x18, 0x1F, 0x1E, 0x1D, 0x1C]"

definition spu_c_blend :: "u128 \<Rightarrow> u128 \<Rightarrow> u128" where
  "spu_c_blend ins sel = mm_blendv_epi8 spu_c_base ins sel"

definition spu_cbd_pos :: "u32 \<Rightarrow> u128" where
  "spu_cbd_pos pos =
     (let sel = mm_cmpeq_epi8 (mm_setr_epi8 [0, 1, 2, 3, 4, 5, 6, 7, 8, 9, 10, 11, 12, 13, 14, 15])
                  (mm_set1_epi8 (ucast ((pos AND 0xF) XOR 3)))
      in spu_c_blend (mm_set1_epi8 0x03) sel)"

definition spu_chd_pos :: "u32 \<Rightarrow> u128" where
  "spu_chd_pos pos =
     (let sel = mm_cmpeq_epi16 (lanes (\<lambda>i. of_nat i :: u16)) (lanes (\<lambda>_. ucast (drop_bit 1 (pos AND 0xF) XOR 1) :: u16))
      in spu_c_blend (lanes (\<lambda>_. 0x0203 :: u16)) sel)"

definition spu_cwd_pos :: "u32 \<Rightarrow> u128" where
  "spu_cwd_pos pos =
     (let sel = mm_cmpeq_epi32 (lanes (\<lambda>i. of_nat i :: u32)) (lanes (\<lambda>_. drop_bit 2 (pos AND 0xF) :: u32))
      in spu_c_blend (lanes (\<lambda>_. 0x00010203 :: u32)) sel)"

definition spu_cdd_pos :: "u32 \<Rightarrow> u128" where
  "spu_cdd_pos pos =
     (let sel = mm_cmpeq_epi64 (lanes (\<lambda>i. of_nat i :: u64)) (lanes (\<lambda>_. ucast (drop_bit 3 (pos AND 0xF)) :: u64))
      in spu_c_blend (lanes (\<lambda>_. 0x0405060700010203 :: u64)) sel)"

text \<open>
  The loops: the base selects byte \<open>t\<close> of the second source at place \<open>t\<close>, then
  \<open>n\<close> bytes from \<open>p\<close> on, the position rounded down to a multiple of \<open>n\<close>,
  select the bytes of the first source from \<open>k\<close> on.
\<close>

definition insert_ref :: "nat \<Rightarrow> nat \<Rightarrow> u32 \<Rightarrow> u128" where
  "insert_ref n k pos =
     (let p = unat (pos AND 0xF) div n * n
      in gbytes (\<lambda>t. if p \<le> t \<and> t < p + n then of_nat (k + (t - p)) else 0x10 + of_nat t))"

definition spu_cbd_ref :: "u32 \<Rightarrow> u128" where "spu_cbd_ref = insert_ref 1 3"

definition spu_chd_ref :: "u32 \<Rightarrow> u128" where "spu_chd_ref = insert_ref 2 2"

definition spu_cwd_ref :: "u32 \<Rightarrow> u128" where "spu_cwd_ref = insert_ref 4 0"

definition spu_cdd_ref :: "u32 \<Rightarrow> u128" where "spu_cdd_ref = insert_ref 8 0"

definition spu_cbd :: "u128 \<Rightarrow> int \<Rightarrow> u128" where "spu_cbd a i7 = spu_cbd_pos (lane a 0 + of_int i7)"

definition spu_chd :: "u128 \<Rightarrow> int \<Rightarrow> u128" where "spu_chd a i7 = spu_chd_pos (lane a 0 + of_int i7)"

definition spu_cwd :: "u128 \<Rightarrow> int \<Rightarrow> u128" where "spu_cwd a i7 = spu_cwd_pos (lane a 0 + of_int i7)"

definition spu_cdd :: "u128 \<Rightarrow> int \<Rightarrow> u128" where "spu_cdd a i7 = spu_cdd_pos (lane a 0 + of_int i7)"

definition spu_cbx :: "u128 \<Rightarrow> u128 \<Rightarrow> u128" where "spu_cbx a b = spu_cbd_pos (lane a 0 + lane b 0)"

definition spu_chx :: "u128 \<Rightarrow> u128 \<Rightarrow> u128" where "spu_chx a b = spu_chd_pos (lane a 0 + lane b 0)"

definition spu_cwx :: "u128 \<Rightarrow> u128 \<Rightarrow> u128" where "spu_cwx a b = spu_cwd_pos (lane a 0 + lane b 0)"

definition spu_cdx :: "u128 \<Rightarrow> u128 \<Rightarrow> u128" where "spu_cdx a b = spu_cdd_pos (lane a 0 + lane b 0)"

section \<open>Rotate and mask\<close>

definition spu_rotm :: "u128 \<Rightarrow> u128 \<Rightarrow> u128" where
  "spu_rotm a b = lanes (\<lambda>i. shr_or_0 (unat ((0 - lane b i) AND 0x3F :: u32)) (lane a i :: u32))"

definition spu_rotma :: "u128 \<Rightarrow> u128 \<Rightarrow> u128" where
  "spu_rotma a b = lanes (\<lambda>i. sar_or_sign (unat ((0 - lane b i) AND 0x3F :: u32)) (lane a i :: u32))"

definition spu_rothm :: "u128 \<Rightarrow> u128 \<Rightarrow> u128" where
  "spu_rothm a b = lanes (\<lambda>i. shr_or_0 (unat ((0 - ucast (lane b i :: u16)) AND 0x1F :: u32)) (lane a i :: u16))"

definition spu_rothma :: "u128 \<Rightarrow> u128 \<Rightarrow> u128" where
  "spu_rothma a b = lanes (\<lambda>i. sar_or_sign (unat ((0 - ucast (lane b i :: u16)) AND 0x1F :: u32)) (lane a i :: u16))"

definition spu_rothmi :: "u128 \<Rightarrow> int \<Rightarrow> u128" where
  "spu_rothmi a i7 = lanes (\<lambda>i. shr_or_0 (sh_mask (0 - i7) 32) (lane a i :: u16))"

definition spu_rotqmbi :: "u128 \<Rightarrow> u128 \<Rightarrow> u128" where
  "spu_rotqmbi a b = q_shr a (unat ((0 - lane b 0) AND 7 :: u32))"

definition spu_rotqmby :: "u128 \<Rightarrow> u128 \<Rightarrow> u128" where
  "spu_rotqmby a b = spu_qb_shr a (unat ((0 - lane b 0) AND 0x1F :: u32))"

definition spu_rotqmbybi :: "u128 \<Rightarrow> u128 \<Rightarrow> u128" where
  "spu_rotqmbybi a b = spu_qb_shr a (unat ((0 - signed_drop_bit 3 (lane b 0)) AND 0x1F :: u32))"

definition spu_rotqmbii :: "u128 \<Rightarrow> int \<Rightarrow> u128" where
  "spu_rotqmbii a i7 = q_shr a (sh_mask (0 - i7) 8)"

definition spu_rotqmbyi :: "u128 \<Rightarrow> int \<Rightarrow> u128" where
  "spu_rotqmbyi a i7 = spu_qb_shr a (sh_mask (0 - i7) 32)"

section \<open>Halfword and byte logic with an immediate, loaders\<close>

definition spu_andhi :: "u128 \<Rightarrow> int \<Rightarrow> u128" where
  "spu_andhi a imm = lanes (\<lambda>i. lane a i AND of_int imm :: u16)"

definition spu_andbi :: "u128 \<Rightarrow> int \<Rightarrow> u128" where
  "spu_andbi a imm = lanes (\<lambda>i. lane a i AND of_int imm :: u8)"

definition spu_orhi :: "u128 \<Rightarrow> int \<Rightarrow> u128" where
  "spu_orhi a imm = lanes (\<lambda>i. lane a i OR of_int imm :: u16)"

definition spu_orbi :: "u128 \<Rightarrow> int \<Rightarrow> u128" where
  "spu_orbi a imm = lanes (\<lambda>i. lane a i OR of_int imm :: u8)"

definition spu_xorhi :: "u128 \<Rightarrow> int \<Rightarrow> u128" where
  "spu_xorhi a imm = lanes (\<lambda>i. lane a i XOR of_int imm :: u16)"

definition spu_bgx :: "u128 \<Rightarrow> u128 \<Rightarrow> u128 \<Rightarrow> u128" where
  "spu_bgx a b t = lanes (\<lambda>i.
     ucast (drop_bit 32 (ucast (lane b i :: u32) + ucast (NOT (lane a i) :: u32) + ucast (lane t i AND 1 :: u32) :: u64)) :: u32)"

definition spu_mfspr :: "u128 \<Rightarrow> u128" where "spu_mfspr a = spu_zero"

definition spu_il :: "int \<Rightarrow> u128" where "spu_il imm = spu_splat_u32 (of_int imm)"

definition spu_ila :: "u32 \<Rightarrow> u128" where "spu_ila i18 = spu_splat_u32 (i18 AND 0x3FFFF)"

definition spu_ilh :: "u16 \<Rightarrow> u128" where "spu_ilh imm = spu_splat_u16 imm"

definition spu_ilhu :: "u16 \<Rightarrow> u128" where "spu_ilhu imm = spu_splat_u32 (push_bit 16 (ucast imm))"

definition spu_iohl :: "u128 \<Rightarrow> u16 \<Rightarrow> u128" where
  "spu_iohl a imm = lanes (\<lambda>i. lane a i OR ucast imm :: u32)"

end
