(* ===== verification/SpuDecode.thy ===== *)
theory SpuDecode
  imports SpuReg
begin

text \<open>
  The decoder of the SPU interpreter: the operations and the opcode tables of
  \<^verbatim>\<open>src/runtime/spu/spu_interp_tables.inc\<close> and \<open>sx\<close> and \<open>spu_decode1\<close> of
  \<^verbatim>\<open>src/runtime/spu/spu_interp.c\<close>. The members of the enumeration \<open>spu_op\<close> are the
  constructors below, grouped by the way the interpreter executes them; a \<^verbatim>\<open>switch\<close> of a
  decoder function is the list of its cases.
\<close>

section \<open>Operations\<close>

text \<open>
  In this order: two registers; shifts, rotates and insertion controls by a register; two
  registers and the old target; the four-register forms; a register and an immediate; shifts and
  controls by an immediate; one register; an immediate only; loads and stores; floating point;
  channels; hints; branches; stops and halts; and those the interpreter does not implement.
\<close>

datatype op_ab =
    SPU_a | SPU_sf | SPU_ah | SPU_sfh | SPU_cg | SPU_and | SPU_or | SPU_xor | SPU_nand | SPU_nor | SPU_andc |
    SPU_orc | SPU_eqv | SPU_ceq | SPU_ceqh | SPU_ceqb | SPU_cgt | SPU_cgth | SPU_cgtb | SPU_clgt |
    SPU_clgth | SPU_clgtb | SPU_mpy | SPU_mpyu | SPU_mpyh | SPU_mpys | SPU_mpyhh | SPU_mpyhhu | SPU_bg |
    SPU_absdb | SPU_avgb | SPU_sumb | SPU_fi

datatype op_shift =
    SPU_shl | SPU_shlh | SPU_rot | SPU_rotm | SPU_rotma | SPU_roth | SPU_rothm | SPU_shlqbi | SPU_shlqby |
    SPU_shlqbybi | SPU_rotqbi | SPU_rotqby | SPU_rotqbybi | SPU_rotqmbi | SPU_rotqmby | SPU_rotqmbybi |
    SPU_cbx | SPU_chx | SPU_cwx | SPU_cdx

datatype op_abt =
    SPU_addx | SPU_sfx | SPU_cgx

datatype op_rrr =
    SPU_selb | SPU_shufb | SPU_mpya | SPU_mpyhha

datatype op_ai =
    SPU_ai | SPU_sfi | SPU_ahi | SPU_sfhi | SPU_mpyi | SPU_andi | SPU_ori | SPU_xori | SPU_andbi |
    SPU_andhi | SPU_orhi | SPU_orbi | SPU_xorhi | SPU_xorbi | SPU_ceqi | SPU_cgti | SPU_clgti | SPU_ceqbi |
    SPU_cgtbi | SPU_clgtbi | SPU_ceqhi | SPU_cgthi | SPU_clgthi

datatype op_shifti =
    SPU_shli | SPU_shlhi | SPU_roti | SPU_rotmi | SPU_rotmai | SPU_rothi | SPU_shlqbii | SPU_shlqbyi |
    SPU_rotqbii | SPU_rotqbyi | SPU_rotqmbii | SPU_rotqmbyi | SPU_cbd | SPU_chd | SPU_cwd | SPU_cdd

datatype op_a =
    SPU_orx | SPU_fsm | SPU_fsmb | SPU_fsmh | SPU_gb | SPU_gbb | SPU_gbh | SPU_clz | SPU_cntb | SPU_xsbh |
    SPU_xshw | SPU_xswd | SPU_frest | SPU_frsqest

datatype op_imm =
    SPU_il | SPU_ilh | SPU_ilhu | SPU_ila | SPU_iohl | SPU_fsmbi

datatype op_mem =
    SPU_lqd | SPU_lqx | SPU_lqa | SPU_lqr | SPU_stqd | SPU_stqx | SPU_stqa | SPU_stqr

datatype op_float =
    SPU_fa | SPU_fs | SPU_fm | SPU_fcgt | SPU_fceq | SPU_fcmgt | SPU_fcmeq | SPU_cflts | SPU_cfltu |
    SPU_csflt | SPU_cuflt | SPU_fesd | SPU_frds | SPU_dfa | SPU_dfs | SPU_dfm | SPU_dfma | SPU_dfms |
    SPU_dfnms | SPU_dfnma | SPU_dfceq | SPU_dfcmeq | SPU_dfcgt | SPU_dfcmgt | SPU_fma | SPU_fms | SPU_fnms

datatype op_chan =
    SPU_wrch | SPU_rdch | SPU_rchcnt

datatype op_nop =
    SPU_nop | SPU_lnop | SPU_sync | SPU_dsync | SPU_hbr | SPU_hbra | SPU_hbrr | SPU_mtspr | SPU_mfspr |
    SPU_fscrrd | SPU_fscrwr

datatype op_branch =
    SPU_br | SPU_bra | SPU_brsl | SPU_brasl | SPU_brz | SPU_brnz | SPU_brhz | SPU_brhnz | SPU_bi | SPU_bisl |
    SPU_iret | SPU_biz | SPU_binz | SPU_bihz | SPU_bihnz

datatype op_stop =
    SPU_stop | SPU_stopd | SPU_heq | SPU_heqi | SPU_hgt | SPU_hgti | SPU_hlgt | SPU_hlgti

datatype op_other =
    SPU_word | SPU_bgx | SPU_bisled | SPU_dftsv | SPU_mpyhhau | SPU_mpyui | SPU_rothmi | SPU_rotmah |
    SPU_rotmahi

datatype spu_op =
    AB op_ab | Shift op_shift | ABT op_abt | RRR op_rrr | AI op_ai | ShiftI op_shifti | Unary op_a |
    Imm op_imm | Mem op_mem | Float op_float | Chan op_chan | Nop op_nop | Branch op_branch | Stop op_stop |
    Other op_other

abbreviation SPU_illegal :: spu_op where "SPU_illegal \<equiv> Other SPU_word"

section \<open>Opcode tables\<close>

definition decode_in :: "(u32 \<times> spu_op) list \<Rightarrow> u32 \<Rightarrow> spu_op" where
  "decode_in t k = (case map_of t k of Some op \<Rightarrow> op | None \<Rightarrow> SPU_illegal)"

definition rrr_table :: "(u32 \<times> spu_op) list" where
  "rrr_table = [
    (0x8, RRR SPU_selb), (0xB, RRR SPU_shufb), (0xC, RRR SPU_mpya), (0xD, Float SPU_fnms),
    (0xE, Float SPU_fma), (0xF, Float SPU_fms)]"

definition spu_dec_rrr :: "u32 \<Rightarrow> spu_op" where
  "spu_dec_rrr = decode_in rrr_table"

definition ri18_table :: "(u32 \<times> spu_op) list" where
  "ri18_table = [
    (0x8, Nop SPU_hbra), (0x9, Nop SPU_hbrr), (0x21, Imm SPU_ila)]"

definition spu_dec_ri18 :: "u32 \<Rightarrow> spu_op" where
  "spu_dec_ri18 = decode_in ri18_table"

definition ri16_table :: "(u32 \<times> spu_op) list" where
  "ri16_table = [
    (0x40, Branch SPU_brz), (0x41, Mem SPU_stqa), (0x42, Branch SPU_brnz), (0x44, Branch SPU_brhz),
    (0x46, Branch SPU_brhnz), (0x47, Mem SPU_stqr), (0x60, Branch SPU_bra), (0x61, Mem SPU_lqa),
    (0x62, Branch SPU_brasl), (0x64, Branch SPU_br), (0x65, Imm SPU_fsmbi), (0x66, Branch SPU_brsl),
    (0x67, Mem SPU_lqr), (0x81, Imm SPU_il), (0x82, Imm SPU_ilhu), (0x83, Imm SPU_ilh), (0xC1, Imm SPU_iohl)]"

definition spu_dec_ri16 :: "u32 \<Rightarrow> spu_op" where
  "spu_dec_ri16 = decode_in ri16_table"

definition ri10_table :: "(u32 \<times> spu_op) list" where
  "ri10_table = [
    (0x4, AI SPU_ori), (0x5, AI SPU_orhi), (0x6, AI SPU_orbi), (0xC, AI SPU_sfi), (0xD, AI SPU_sfhi),
    (0x14, AI SPU_andi), (0x15, AI SPU_andhi), (0x16, AI SPU_andbi), (0x1C, AI SPU_ai), (0x1D, AI SPU_ahi),
    (0x24, Mem SPU_stqd), (0x34, Mem SPU_lqd), (0x44, AI SPU_xori), (0x45, AI SPU_xorhi),
    (0x46, AI SPU_xorbi), (0x4C, AI SPU_cgti), (0x4D, AI SPU_cgthi), (0x4E, AI SPU_cgtbi),
    (0x4F, Stop SPU_hgti), (0x5C, AI SPU_clgti), (0x5D, AI SPU_clgthi), (0x5E, AI SPU_clgtbi),
    (0x5F, Stop SPU_hlgti), (0x74, AI SPU_mpyi), (0x75, Other SPU_mpyui), (0x7C, AI SPU_ceqi),
    (0x7D, AI SPU_ceqhi), (0x7E, AI SPU_ceqbi), (0x7F, Stop SPU_heqi)]"

definition spu_dec_ri10 :: "u32 \<Rightarrow> spu_op" where
  "spu_dec_ri10 = decode_in ri10_table"

definition ri8_table :: "(u32 \<times> spu_op) list" where
  "ri8_table = [
    (0x1D8, Float SPU_cflts), (0x1D9, Float SPU_cfltu), (0x1DA, Float SPU_csflt), (0x1DB, Float SPU_cuflt)]"

definition spu_dec_ri8 :: "u32 \<Rightarrow> spu_op" where
  "spu_dec_ri8 = decode_in ri8_table"

definition rr_table :: "(u32 \<times> spu_op) list" where
  "rr_table = [
    (0x0, Stop SPU_stop), (0x1, Nop SPU_lnop), (0x2, Nop SPU_sync), (0x3, Nop SPU_dsync),
    (0xC, Nop SPU_mfspr), (0xD, Chan SPU_rdch), (0xF, Chan SPU_rchcnt), (0x40, AB SPU_sf), (0x41, AB SPU_or),
    (0x42, AB SPU_bg), (0x48, AB SPU_sfh), (0x49, AB SPU_nor), (0x53, AB SPU_absdb), (0x58, Shift SPU_rot),
    (0x59, Shift SPU_rotm), (0x5A, Shift SPU_rotma), (0x5B, Shift SPU_shl), (0x5C, Shift SPU_roth),
    (0x5D, Shift SPU_rothm), (0x5E, Other SPU_rotmah), (0x5F, Shift SPU_shlh), (0xC0, AB SPU_a),
    (0xC1, AB SPU_and), (0xC2, AB SPU_cg), (0xC8, AB SPU_ah), (0xC9, AB SPU_nand), (0xD3, AB SPU_avgb),
    (0x10C, Nop SPU_mtspr), (0x10D, Chan SPU_wrch), (0x128, Branch SPU_biz), (0x129, Branch SPU_binz),
    (0x12A, Branch SPU_bihz), (0x12B, Branch SPU_bihnz), (0x140, Stop SPU_stopd), (0x144, Mem SPU_stqx),
    (0x1A8, Branch SPU_bi), (0x1A9, Branch SPU_bisl), (0x1AA, Branch SPU_iret), (0x1AB, Other SPU_bisled),
    (0x1AC, Nop SPU_hbr), (0x1B0, Unary SPU_gb), (0x1B1, Unary SPU_gbh), (0x1B2, Unary SPU_gbb),
    (0x1B4, Unary SPU_fsm), (0x1B5, Unary SPU_fsmh), (0x1B6, Unary SPU_fsmb), (0x1B8, Unary SPU_frest),
    (0x1B9, Unary SPU_frsqest), (0x1C4, Mem SPU_lqx), (0x1CC, Shift SPU_rotqbybi),
    (0x1CD, Shift SPU_rotqmbybi), (0x1CF, Shift SPU_shlqbybi), (0x1D4, Shift SPU_cbx),
    (0x1D5, Shift SPU_chx), (0x1D6, Shift SPU_cwx), (0x1D7, Shift SPU_cdx), (0x1D8, Shift SPU_rotqbi),
    (0x1D9, Shift SPU_rotqmbi), (0x1DB, Shift SPU_shlqbi), (0x1DC, Shift SPU_rotqby),
    (0x1DD, Shift SPU_rotqmby), (0x1DF, Shift SPU_shlqby), (0x1F0, Unary SPU_orx), (0x201, Nop SPU_nop),
    (0x240, AB SPU_cgt), (0x241, AB SPU_xor), (0x248, AB SPU_cgth), (0x249, AB SPU_eqv),
    (0x250, AB SPU_cgtb), (0x253, AB SPU_sumb), (0x258, Stop SPU_hgt), (0x2A5, Unary SPU_clz),
    (0x2A6, Unary SPU_xswd), (0x2AE, Unary SPU_xshw), (0x2B4, Unary SPU_cntb), (0x2B6, Unary SPU_xsbh),
    (0x2C0, AB SPU_clgt), (0x2C1, AB SPU_andc), (0x2C2, Float SPU_fcgt), (0x2C3, Float SPU_dfcgt),
    (0x2C4, Float SPU_fa), (0x2C5, Float SPU_fs), (0x2C6, Float SPU_fm), (0x2C8, AB SPU_clgth),
    (0x2C9, AB SPU_orc), (0x2CA, Float SPU_fcmgt), (0x2CB, Float SPU_dfcmgt), (0x2CC, Float SPU_dfa),
    (0x2CD, Float SPU_dfs), (0x2CE, Float SPU_dfm), (0x2D0, AB SPU_clgtb), (0x2D8, Stop SPU_hlgt),
    (0x340, ABT SPU_addx), (0x341, ABT SPU_sfx), (0x342, ABT SPU_cgx), (0x343, Other SPU_bgx),
    (0x346, RRR SPU_mpyhha), (0x34E, Other SPU_mpyhhau), (0x35C, Float SPU_dfma), (0x35D, Float SPU_dfms),
    (0x35E, Float SPU_dfnms), (0x35F, Float SPU_dfnma), (0x398, Nop SPU_fscrrd), (0x3B8, Float SPU_fesd),
    (0x3B9, Float SPU_frds), (0x3BA, Nop SPU_fscrwr), (0x3BF, Other SPU_dftsv), (0x3C0, AB SPU_ceq),
    (0x3C2, Float SPU_fceq), (0x3C3, Float SPU_dfceq), (0x3C4, AB SPU_mpy), (0x3C5, AB SPU_mpyh),
    (0x3C6, AB SPU_mpyhh), (0x3C7, AB SPU_mpys), (0x3C8, AB SPU_ceqh), (0x3CA, Float SPU_fcmeq),
    (0x3CB, Float SPU_dfcmeq), (0x3CC, AB SPU_mpyu), (0x3CE, AB SPU_mpyhhu), (0x3D0, AB SPU_ceqb),
    (0x3D4, AB SPU_fi), (0x3D8, Stop SPU_heq)]"

definition spu_dec_rr :: "u32 \<Rightarrow> spu_op" where
  "spu_dec_rr = decode_in rr_table"

definition ri7_table :: "(u32 \<times> spu_op) list" where
  "ri7_table = [
    (0x78, ShiftI SPU_roti), (0x79, ShiftI SPU_rotmi), (0x7A, ShiftI SPU_rotmai), (0x7B, ShiftI SPU_shli),
    (0x7C, ShiftI SPU_rothi), (0x7D, Other SPU_rothmi), (0x7E, Other SPU_rotmahi), (0x7F, ShiftI SPU_shlhi),
    (0x1F4, ShiftI SPU_cbd), (0x1F5, ShiftI SPU_chd), (0x1F6, ShiftI SPU_cwd), (0x1F7, ShiftI SPU_cdd),
    (0x1F8, ShiftI SPU_rotqbii), (0x1F9, ShiftI SPU_rotqmbii), (0x1FB, ShiftI SPU_shlqbii),
    (0x1FC, ShiftI SPU_rotqbyi), (0x1FD, ShiftI SPU_rotqmbyi), (0x1FF, ShiftI SPU_shlqbyi)]"

definition spu_dec_ri7 :: "u32 \<Rightarrow> spu_op" where
  "spu_dec_ri7 = decode_in ri7_table"

definition lsx_table :: "(u32 \<times> spu_op) list" where
  "lsx_table = [
    (0x144, Mem SPU_stqx), (0x1C4, Mem SPU_lqx)]"

definition spu_dec_lsx :: "u32 \<Rightarrow> spu_op" where
  "spu_dec_lsx = decode_in lsx_table"

definition spu_ri7_unsigned :: "spu_op \<Rightarrow> bool" where
  "spu_ri7_unsigned op \<longleftrightarrow> op = ShiftI SPU_cbd \<or> op = ShiftI SPU_cdd \<or> op = ShiftI SPU_chd \<or> op = ShiftI SPU_cwd"

section \<open>Decoding\<close>

text \<open>A decoded instruction. The register numbers are seven bits wide.\<close>

record spu_ins =
  op :: spu_op
  rt :: nat
  ra :: nat
  rb :: nat
  rc :: nat
  ch :: u32
  imm :: int
  tgt :: u32

definition sx :: "u32 \<Rightarrow> nat \<Rightarrow> int" where
  "sx v bits = (let m = push_bit (bits - 1) 1 in sint ((v XOR m) - m))"

definition ri16_ins :: "spu_ins \<Rightarrow> int \<Rightarrow> u32 \<Rightarrow> spu_ins" where
  "ri16_ins d i16 pc =
     (case op d of
        Mem m \<Rightarrow>
          if m = SPU_lqa \<or> m = SPU_stqa then d\<lparr>tgt := push_bit 2 (of_int i16 AND 0xFFFF) AND 0x3FFF0\<rparr>
          else d\<lparr>tgt := (of_int (i16 * 4) + pc) AND 0x3FFF0\<rparr>
      | Branch b \<Rightarrow>
          if b = SPU_bra \<or> b = SPU_brasl then d\<lparr>tgt := of_int (i16 * 4) AND 0x3FFFF\<rparr>
          else d\<lparr>tgt := (of_int (i16 * 4) + pc) AND 0x3FFFF\<rparr>
      | Imm SPU_il \<Rightarrow> d\<lparr>imm := i16\<rparr>
      | _ \<Rightarrow> d\<lparr>imm := uint (of_int i16 AND 0xFFFF :: u32)\<rparr>)"

definition spu_decode1 :: "u32 \<Rightarrow> u32 \<Rightarrow> spu_ins" where
  "spu_decode1 insn pc =
     (let op4 = drop_bit 28 insn AND 0xF; op7 = drop_bit 25 insn AND 0x7F;
          op8 = drop_bit 24 insn AND 0xFF; op9 = drop_bit 23 insn AND 0x1FF;
          op10 = drop_bit 22 insn AND 0x3FF; op11 = drop_bit 21 insn AND 0x7FF;
          rb = drop_bit 14 insn AND 0x7F;
          d = \<lparr>op = SPU_illegal, rt = unat (insn AND 0x7F), ra = unat (drop_bit 7 insn AND 0x7F),
               rb = unat rb, rc = unat (drop_bit 21 insn AND 0x7F),
               ch = drop_bit 7 insn AND 0x7F, imm = 0, tgt = 0\<rparr>;
          i10 = sx (drop_bit 14 insn AND 0x3FF) 10;
          i16 = sx (drop_bit 7 insn AND 0xFFFF) 16;
          i18 = drop_bit 7 insn AND 0x3FFFF
      in if spu_dec_rrr op4 \<noteq> SPU_illegal then d\<lparr>op := spu_dec_rrr op4\<rparr>
         else if spu_dec_ri18 op7 \<noteq> SPU_illegal then
           d\<lparr>op := spu_dec_ri18 op7,
             imm := (if spu_dec_ri18 op7 = Imm SPU_ila then uint i18 else uint (i18 AND 0xFFFF))\<rparr>
         else if spu_dec_ri16 op9 \<noteq> SPU_illegal then ri16_ins (d\<lparr>op := spu_dec_ri16 op9\<rparr>) i16 pc
         else if op11 = 0x00D then d\<lparr>op := Chan SPU_rdch\<rparr>
         else if op11 = 0x10D then d\<lparr>op := Chan SPU_wrch\<rparr>
         else if op11 = 0x00F then d\<lparr>op := Chan SPU_rchcnt\<rparr>
         else if spu_dec_ri10 op8 \<noteq> SPU_illegal then
           d\<lparr>op := spu_dec_ri10 op8,
             imm := (if spu_dec_ri10 op8 = Mem SPU_lqd \<or> spu_dec_ri10 op8 = Mem SPU_stqd then i10 * 16 else i10)\<rparr>
         else if spu_dec_ri8 op10 \<noteq> SPU_illegal then
           d\<lparr>op := spu_dec_ri8 op10, imm := uint (drop_bit 14 insn AND 0xFF)\<rparr>
         else if spu_dec_rr op11 \<noteq> SPU_illegal then
           d\<lparr>op := spu_dec_rr op11, imm := (if spu_dec_rr op11 = Stop SPU_stop then uint (insn AND 0x3FFF) else 0)\<rparr>
         else if spu_dec_ri7 op11 \<noteq> SPU_illegal then
           d\<lparr>op := spu_dec_ri7 op11, imm := (if spu_ri7_unsigned (spu_dec_ri7 op11) then uint rb else sx rb 7)\<rparr>
         else d\<lparr>op := spu_dec_lsx op11\<rparr>)"

section \<open>No instruction word is in two tables\<close>

text \<open>\<open>clash s t u\<close>: an opcode of \<open>u\<close> without its last \<open>s\<close> bits is an opcode of \<open>t\<close>.\<close>

definition clash :: "nat \<Rightarrow> (u32 \<times> spu_op) list \<Rightarrow> (u32 \<times> spu_op) list \<Rightarrow> bool" where
  "clash s t u \<longleftrightarrow> list_ex (\<lambda>(k, _). drop_bit s k \<in> set (map fst t)) u"

lemma clashD:
  assumes "\<not> clash s t u" "decode_in u k \<noteq> SPU_illegal"
  shows "decode_in t (drop_bit s k) = SPU_illegal"
proof -
  obtain oq where "map_of u k = Some oq" using assms(2) by (auto simp: decode_in_def split: option.splits)
  then have "(k, oq) \<in> set u" by (rule map_of_SomeD)
  then have "drop_bit s k \<notin> set (map fst t)" using assms(1) by (auto simp: clash_def list_ex_iff)
  then have "map_of t (drop_bit s k) = None" by (simp add: map_of_eq_None_iff)
  then show ?thesis by (simp add: decode_in_def)
qed

lemma rrr_free: "\<not> clash 3 rrr_table ri18_table" "\<not> clash 5 rrr_table ri16_table" "\<not> clash 4 rrr_table ri10_table"
  "\<not> clash 6 rrr_table ri8_table" "\<not> clash 7 rrr_table rr_table" "\<not> clash 7 rrr_table ri7_table"
  by (simp_all add: clash_def rrr_table_def ri18_table_def ri16_table_def ri10_table_def ri8_table_def rr_table_def
      ri7_table_def)

lemma ri18_free: "\<not> clash 2 ri18_table ri16_table" "\<not> clash 1 ri18_table ri10_table" "\<not> clash 3 ri18_table ri8_table"
  "\<not> clash 4 ri18_table rr_table" "\<not> clash 4 ri18_table ri7_table"
  by (simp_all add: clash_def ri18_table_def ri16_table_def ri10_table_def ri8_table_def rr_table_def ri7_table_def)

lemma ri16_free: "\<not> clash 1 ri10_table ri16_table" "\<not> clash 1 ri16_table ri8_table" "\<not> clash 2 ri16_table rr_table"
  "\<not> clash 2 ri16_table ri7_table"
  by (simp_all add: clash_def ri16_table_def ri10_table_def ri8_table_def rr_table_def ri7_table_def)

lemma ri10_free: "\<not> clash 2 ri10_table ri8_table" "\<not> clash 3 ri10_table rr_table" "\<not> clash 3 ri10_table ri7_table"
  by (simp_all add: clash_def ri10_table_def ri8_table_def rr_table_def ri7_table_def)

lemma ri8_free: "\<not> clash 1 ri8_table rr_table" "\<not> clash 1 ri8_table ri7_table" "\<not> clash 0 rr_table ri7_table"
  by (simp_all add: clash_def ri8_table_def rr_table_def ri7_table_def)

text \<open>The opcode fields of an instruction word are prefixes of one another.\<close>

definition op_field :: "u32 \<Rightarrow> nat \<Rightarrow> u32" where
  "op_field insn n = drop_bit (32 - n) insn AND mask n"

lemma op_field_prefix: "n \<le> m \<Longrightarrow> m \<le> 32 \<Longrightarrow> op_field insn n = drop_bit (m - n) (op_field insn m)"
  by (rule bit_word_eqI) (auto simp: op_field_def bit_simps)

lemma op_fields:
  "drop_bit 28 insn AND 0xF = op_field insn 4" "drop_bit 25 insn AND 0x7F = op_field insn 7"
  "drop_bit 24 insn AND 0xFF = op_field insn 8" "drop_bit 23 insn AND 0x1FF = op_field insn 9"
  "drop_bit 22 insn AND 0x3FF = op_field insn 10" "drop_bit 21 insn AND 0x7FF = op_field insn 11"
  by (simp_all add: op_field_def mask_eq_exp_minus_1)

lemma field_free:
  assumes "\<not> clash s t u" "decode_in u (op_field insn m) \<noteq> SPU_illegal" "m = n + s" "m \<le> 32"
  shows "decode_in t (op_field insn n) = SPU_illegal"
  using clashD [OF assms(1,2)] assms(3,4) by (simp add: op_field_prefix [of n m insn])

lemmas dec_defs = spu_dec_rrr_def spu_dec_ri18_def spu_dec_ri16_def spu_dec_ri10_def spu_dec_ri8_def spu_dec_rr_def
  spu_dec_ri7_def spu_dec_lsx_def

text \<open>The channel instructions and the indexed loads are in the register table too.\<close>

lemma rr_channels: "spu_dec_rr 0x00D = Chan SPU_rdch" "spu_dec_rr 0x10D = Chan SPU_wrch" "spu_dec_rr 0x00F = Chan SPU_rchcnt"
  by (simp_all add: dec_defs decode_in_def rr_table_def)

lemma lsx_in_rr: "spu_dec_lsx k \<noteq> SPU_illegal \<Longrightarrow> spu_dec_rr k = spu_dec_lsx k"
proof -
  assume "spu_dec_lsx k \<noteq> SPU_illegal"
  then have "k = 0x144 \<or> k = 0x1C4" by (simp add: dec_defs decode_in_def lsx_table_def split: if_splits)
  moreover have "spu_dec_rr 0x144 = spu_dec_lsx 0x144" "spu_dec_rr 0x1C4 = spu_dec_lsx 0x1C4"
    by (simp_all add: dec_defs decode_in_def lsx_table_def rr_table_def)
  ultimately show ?thesis by auto
qed

lemma op_ri16_ins: "op (ri16_ins d i pc) = op d"
  by (simp add: ri16_ins_def split: spu_op.splits op_imm.splits)

lemma op_decode1:
  "op (spu_decode1 insn pc) =
     (if spu_dec_rrr (op_field insn 4) \<noteq> SPU_illegal then spu_dec_rrr (op_field insn 4)
      else if spu_dec_ri18 (op_field insn 7) \<noteq> SPU_illegal then spu_dec_ri18 (op_field insn 7)
      else if spu_dec_ri16 (op_field insn 9) \<noteq> SPU_illegal then spu_dec_ri16 (op_field insn 9)
      else if op_field insn 11 = 0x00D then Chan SPU_rdch
      else if op_field insn 11 = 0x10D then Chan SPU_wrch
      else if op_field insn 11 = 0x00F then Chan SPU_rchcnt
      else if spu_dec_ri10 (op_field insn 8) \<noteq> SPU_illegal then spu_dec_ri10 (op_field insn 8)
      else if spu_dec_ri8 (op_field insn 10) \<noteq> SPU_illegal then spu_dec_ri8 (op_field insn 10)
      else if spu_dec_rr (op_field insn 11) \<noteq> SPU_illegal then spu_dec_rr (op_field insn 11)
      else if spu_dec_ri7 (op_field insn 11) \<noteq> SPU_illegal then spu_dec_ri7 (op_field insn 11)
      else spu_dec_lsx (op_field insn 11))"
  unfolding spu_decode1_def Let_def op_fields by (simp only: if_distrib [of op] op_ri16_ins spu_ins.simps)

lemma fields_free:
  shows "spu_dec_ri18 (op_field insn 7) \<noteq> SPU_illegal \<Longrightarrow> spu_dec_rrr (op_field insn 4) = SPU_illegal"
    and "spu_dec_ri16 (op_field insn 9) \<noteq> SPU_illegal \<Longrightarrow> spu_dec_rrr (op_field insn 4) = SPU_illegal"
    and "spu_dec_ri10 (op_field insn 8) \<noteq> SPU_illegal \<Longrightarrow> spu_dec_rrr (op_field insn 4) = SPU_illegal"
    and "spu_dec_ri8 (op_field insn 10) \<noteq> SPU_illegal \<Longrightarrow> spu_dec_rrr (op_field insn 4) = SPU_illegal"
    and "spu_dec_rr (op_field insn 11) \<noteq> SPU_illegal \<Longrightarrow> spu_dec_rrr (op_field insn 4) = SPU_illegal"
    and "spu_dec_ri7 (op_field insn 11) \<noteq> SPU_illegal \<Longrightarrow> spu_dec_rrr (op_field insn 4) = SPU_illegal"
    and "spu_dec_ri16 (op_field insn 9) \<noteq> SPU_illegal \<Longrightarrow> spu_dec_ri18 (op_field insn 7) = SPU_illegal"
    and "spu_dec_ri10 (op_field insn 8) \<noteq> SPU_illegal \<Longrightarrow> spu_dec_ri18 (op_field insn 7) = SPU_illegal"
    and "spu_dec_ri8 (op_field insn 10) \<noteq> SPU_illegal \<Longrightarrow> spu_dec_ri18 (op_field insn 7) = SPU_illegal"
    and "spu_dec_rr (op_field insn 11) \<noteq> SPU_illegal \<Longrightarrow> spu_dec_ri18 (op_field insn 7) = SPU_illegal"
    and "spu_dec_ri7 (op_field insn 11) \<noteq> SPU_illegal \<Longrightarrow> spu_dec_ri18 (op_field insn 7) = SPU_illegal"
    and "spu_dec_ri16 (op_field insn 9) \<noteq> SPU_illegal \<Longrightarrow> spu_dec_ri10 (op_field insn 8) = SPU_illegal"
    and "spu_dec_ri8 (op_field insn 10) \<noteq> SPU_illegal \<Longrightarrow> spu_dec_ri16 (op_field insn 9) = SPU_illegal"
    and "spu_dec_rr (op_field insn 11) \<noteq> SPU_illegal \<Longrightarrow> spu_dec_ri16 (op_field insn 9) = SPU_illegal"
    and "spu_dec_ri7 (op_field insn 11) \<noteq> SPU_illegal \<Longrightarrow> spu_dec_ri16 (op_field insn 9) = SPU_illegal"
    and "spu_dec_ri8 (op_field insn 10) \<noteq> SPU_illegal \<Longrightarrow> spu_dec_ri10 (op_field insn 8) = SPU_illegal"
    and "spu_dec_rr (op_field insn 11) \<noteq> SPU_illegal \<Longrightarrow> spu_dec_ri10 (op_field insn 8) = SPU_illegal"
    and "spu_dec_ri7 (op_field insn 11) \<noteq> SPU_illegal \<Longrightarrow> spu_dec_ri10 (op_field insn 8) = SPU_illegal"
    and "spu_dec_rr (op_field insn 11) \<noteq> SPU_illegal \<Longrightarrow> spu_dec_ri8 (op_field insn 10) = SPU_illegal"
    and "spu_dec_ri7 (op_field insn 11) \<noteq> SPU_illegal \<Longrightarrow> spu_dec_ri8 (op_field insn 10) = SPU_illegal"
    and "spu_dec_ri7 (op_field insn 11) \<noteq> SPU_illegal \<Longrightarrow> spu_dec_rr (op_field insn 11) = SPU_illegal"
  unfolding dec_defs
                      apply (rule field_free [OF rrr_free(1)], assumption, simp, simp)
                     apply (rule field_free [OF rrr_free(2)], assumption, simp, simp)
                    apply (rule field_free [OF rrr_free(3)], assumption, simp, simp)
                   apply (rule field_free [OF rrr_free(4)], assumption, simp, simp)
                  apply (rule field_free [OF rrr_free(5)], assumption, simp, simp)
                 apply (rule field_free [OF rrr_free(6)], assumption, simp, simp)
                apply (rule field_free [OF ri18_free(1)], assumption, simp, simp)
               apply (rule field_free [OF ri18_free(2)], assumption, simp, simp)
              apply (rule field_free [OF ri18_free(3)], assumption, simp, simp)
             apply (rule field_free [OF ri18_free(4)], assumption, simp, simp)
            apply (rule field_free [OF ri18_free(5)], assumption, simp, simp)
           apply (rule field_free [OF ri16_free(1)], assumption, simp, simp)
          apply (rule field_free [OF ri16_free(2)], assumption, simp, simp)
         apply (rule field_free [OF ri16_free(3)], assumption, simp, simp)
        apply (rule field_free [OF ri16_free(4)], assumption, simp, simp)
       apply (rule field_free [OF ri10_free(1)], assumption, simp, simp)
      apply (rule field_free [OF ri10_free(2)], assumption, simp, simp)
     apply (rule field_free [OF ri10_free(3)], assumption, simp, simp)
    apply (rule field_free [OF ri8_free(1)], assumption, simp, simp)
   apply (rule field_free [OF ri8_free(2)], assumption, simp, simp)
  apply (rule field_free [OF ri8_free(3)], assumption, simp, simp)
  done



text \<open>The register numbers of a decoded instruction are below 128: no access leaves the register file.\<close>

lemma seven_bits: "unat (x AND 0x7F :: u32) < 128"
proof -
  have "x AND 0x7F = take_bit 7 x" by (simp add: take_bit_eq_mask mask_eq_exp_minus_1)
  then show ?thesis by (simp add: take_bit_eq_mod unat_mod)
qed

lemma regs_ri16_ins: "rt (ri16_ins d i pc) = rt d" "ra (ri16_ins d i pc) = ra d" "rb (ri16_ins d i pc) = rb d" "rc (ri16_ins d i pc) = rc d"
  by (simp_all add: ri16_ins_def split: spu_op.splits op_imm.splits)

lemma decode_fields:
  "rt (spu_decode1 insn pc) = unat (insn AND 0x7F)" "ra (spu_decode1 insn pc) = unat (drop_bit 7 insn AND 0x7F)"
  "rb (spu_decode1 insn pc) = unat (drop_bit 14 insn AND 0x7F)" "rc (spu_decode1 insn pc) = unat (drop_bit 21 insn AND 0x7F)"
  unfolding spu_decode1_def Let_def by (simp_all only: if_distrib [of rt] if_distrib [of ra] if_distrib [of rb] if_distrib [of rc]
      regs_ri16_ins spu_ins.simps if_cancel)

lemma decode_regs_bound:
  "rt (spu_decode1 insn pc) < 128 \<and> ra (spu_decode1 insn pc) < 128 \<and> rb (spu_decode1 insn pc) < 128 \<and> rc (spu_decode1 insn pc) < 128"
  by (simp add: decode_fields seven_bits)

end
