(* ===== verification/SpuInterp.thy ===== *)
theory SpuInterp
  imports SpuHelpers SpuDecode SpuChannel
begin

text \<open>
  The SPU interpreter, \<^verbatim>\<open>src/runtime/spu/spu_interp.c\<close>: the execution of one instruction,
  \<open>spu_step\<close>, the loop \<open>spu_interp_run_until\<close> around it and \<open>spu_dispatch\<close>,
  with the accesses to the local store of \<^verbatim>\<open>src/runtime/spu/spu_context.h\<close>.

  The context is a record with the fields the interpreter reads or writes; a context may have
  more of them. The local store is a function of the address, and every access names the cell
  it reads or writes: an access at or above \<open>SPU_LS_SIZE\<close> is the result
  \<open>Out_of_bounds\<close>. What the interpreter calls in other files is a record of functions: the
  channel instructions (\<open>None\<close> when they leave by the \<^verbatim>\<open>longjmp\<close> of
  \<^verbatim>\<open>spu_halt\<close>), the floating point helpers, the taskset system call and the table of lifted
  functions. The call trace, the step counters and the traces that environment variables turn
  on are not modelled.
\<close>

section \<open>Context and local store\<close>

definition SPU_LS_MASK :: u32 where "SPU_LS_MASK = 0x3FFFF"

definition SPU_STATUS_RUNNING :: u32 where "SPU_STATUS_RUNNING = 0x1"

definition SPU_STATUS_STOPPED_BY_STOP :: u32 where "SPU_STATUS_STOPPED_BY_STOP = 0x2"

definition SPU_STATUS_STOPPED_BY_HALT :: u32 where "SPU_STATUS_STOPPED_BY_HALT = 0x4"

record spu_context =
  gpr :: "nat \<Rightarrow> u128"
  ls :: "nat \<Rightarrow> u8"
  pc :: u32
  status :: u32
  stop_code :: u32
  image_id :: int
  srr0 :: u32
  policy_mode :: int
  ch_out_mbox :: spu_channel
  rcv_evt :: "u32 list"
  rcv_evt_n :: nat
  rcv_evt_i :: nat

definition ls_get :: "'x spu_context_scheme \<Rightarrow> nat \<Rightarrow> u8 option" where
  "ls_get ctx n = (if n < SPU_LS_SIZE then Some (ls ctx n) else None)"

text \<open>Four bytes, most significant first.\<close>

definition ls_get32 :: "'x spu_context_scheme \<Rightarrow> nat \<Rightarrow> u32 option" where
  "ls_get32 ctx n =
     (case (ls_get ctx n, ls_get ctx (n + 1), ls_get ctx (n + 2), ls_get ctx (n + 3)) of
        (Some b0, Some b1, Some b2, Some b3) \<Rightarrow>
          Some (push_bit 24 (ucast b0) OR push_bit 16 (ucast b1) OR push_bit 8 (ucast b2) OR ucast b3)
      | _ \<Rightarrow> None)"

fun ls_puts :: "'x spu_context_scheme \<Rightarrow> (nat \<times> u8) list \<Rightarrow> 'x spu_context_scheme option" where
  "ls_puts ctx [] = Some ctx"
| "ls_puts ctx ((n, b) # bs) = (if n < SPU_LS_SIZE then ls_puts (ctx\<lparr>ls := (ls ctx)(n := b)\<rparr>) bs else None)"

definition quad_addr :: "u32 \<Rightarrow> nat" where
  "quad_addr lsa = unat (lsa AND (SPU_LS_MASK AND NOT 0xF))"

definition spu_ls_read128 :: "'x spu_context_scheme \<Rightarrow> u32 \<Rightarrow> u128 option" where
  "spu_ls_read128 ctx lsa =
     (let p = quad_addr lsa
      in case (ls_get32 ctx p, ls_get32 ctx (p + 4), ls_get32 ctx (p + 8), ls_get32 ctx (p + 12)) of
           (Some w0, Some w1, Some w2, Some w3) \<Rightarrow> Some (lanes (\<lambda>i. [w0, w1, w2, w3] ! i))
         | _ \<Rightarrow> None)"

definition spu_ls_write128 :: "'x spu_context_scheme \<Rightarrow> u32 \<Rightarrow> u128 \<Rightarrow> 'x spu_context_scheme option" where
  "spu_ls_write128 ctx lsa val =
     (let p = quad_addr lsa
      in ls_puts ctx (map (\<lambda>k. (p + k, byte (3 - k mod 4) (lane val (k div 4) :: u32))) [0..<16]))"

text \<open>
  The accesses of a little-endian host: the words are copied from and to memory with
  \<^verbatim>\<open>memcpy\<close>, least significant byte first, and their bytes swapped.
\<close>

definition SPU_BSWAP32 :: "u32 \<Rightarrow> u32" where
  "SPU_BSWAP32 w = push_bit 24 (ucast (byte 0 w)) OR push_bit 16 (ucast (byte 1 w)) OR push_bit 8 (ucast (byte 2 w)) OR ucast (byte 3 w)"

definition ls_memcpy32 :: "'x spu_context_scheme \<Rightarrow> nat \<Rightarrow> u32 option" where
  "ls_memcpy32 ctx n =
     (case (ls_get ctx n, ls_get ctx (n + 1), ls_get ctx (n + 2), ls_get ctx (n + 3)) of
        (Some b0, Some b1, Some b2, Some b3) \<Rightarrow>
          Some (push_bit 24 (ucast b3) OR push_bit 16 (ucast b2) OR push_bit 8 (ucast b1) OR ucast b0)
      | _ \<Rightarrow> None)"

definition spu_ls_read128_fast :: "'x spu_context_scheme \<Rightarrow> u32 \<Rightarrow> u128 option" where
  "spu_ls_read128_fast ctx lsa =
     (let p = quad_addr lsa
      in case (ls_memcpy32 ctx p, ls_memcpy32 ctx (p + 4), ls_memcpy32 ctx (p + 8), ls_memcpy32 ctx (p + 12)) of
           (Some w0, Some w1, Some w2, Some w3) \<Rightarrow>
             Some (lanes (\<lambda>i. [SPU_BSWAP32 w0, SPU_BSWAP32 w1, SPU_BSWAP32 w2, SPU_BSWAP32 w3] ! i))
         | _ \<Rightarrow> None)"

definition spu_ls_write128_fast :: "'x spu_context_scheme \<Rightarrow> u32 \<Rightarrow> u128 \<Rightarrow> 'x spu_context_scheme option" where
  "spu_ls_write128_fast ctx lsa val =
     (let p = quad_addr lsa
      in ls_puts ctx (map (\<lambda>k. (p + k, byte (k mod 4) (SPU_BSWAP32 (lane val (k div 4))))) [0..<16]))"

section \<open>Execution of one instruction\<close>

text \<open>What other files provide, and what a step can come to.\<close>

record 'c spu_env =
  wrch :: "'c \<Rightarrow> u32 \<Rightarrow> u128 \<Rightarrow> 'c option"
  rdch :: "'c \<Rightarrow> u32 \<Rightarrow> (u128 \<times> 'c) option"
  rchcnt :: "'c \<Rightarrow> u32 \<Rightarrow> (u32 \<times> 'c) option"
  float_op :: "op_float \<Rightarrow> u128 \<Rightarrow> u128 \<Rightarrow> u128 \<Rightarrow> int \<Rightarrow> u128"
  taskset_syscall :: "'c \<Rightarrow> 'c"
  lifted :: "'c \<Rightarrow> u32 \<Rightarrow> ('c \<Rightarrow> 'c) option"

datatype 'c step_result = Continue 'c | Halted 'c | Unwound | Out_of_bounds

definition exec_ab :: "op_ab \<Rightarrow> u128 \<Rightarrow> u128 \<Rightarrow> u128" where
  "exec_ab f = (case f of
     SPU_a \<Rightarrow> spu_a | SPU_sf \<Rightarrow> spu_sf | SPU_ah \<Rightarrow> spu_ah | SPU_sfh \<Rightarrow> spu_sfh | SPU_cg \<Rightarrow> spu_cg
   | SPU_and \<Rightarrow> spu_and | SPU_or \<Rightarrow> spu_or | SPU_xor \<Rightarrow> spu_xor | SPU_nand \<Rightarrow> spu_nand | SPU_nor \<Rightarrow> spu_nor
   | SPU_andc \<Rightarrow> spu_andc | SPU_orc \<Rightarrow> spu_orc | SPU_eqv \<Rightarrow> spu_eqv
   | SPU_ceq \<Rightarrow> spu_ceq | SPU_ceqh \<Rightarrow> spu_ceqh | SPU_ceqb \<Rightarrow> spu_ceqb
   | SPU_cgt \<Rightarrow> spu_cgt | SPU_cgth \<Rightarrow> spu_cgth | SPU_cgtb \<Rightarrow> spu_cgtb
   | SPU_clgt \<Rightarrow> spu_clgt | SPU_clgth \<Rightarrow> spu_clgth | SPU_clgtb \<Rightarrow> spu_clgtb
   | SPU_mpy \<Rightarrow> spu_mpy | SPU_mpyu \<Rightarrow> spu_mpyu | SPU_mpyh \<Rightarrow> spu_mpyh | SPU_mpys \<Rightarrow> spu_mpys
   | SPU_mpyhh \<Rightarrow> spu_mpyhh | SPU_mpyhhu \<Rightarrow> spu_mpyhhu
   | SPU_bg \<Rightarrow> spu_bg | SPU_absdb \<Rightarrow> spu_absdb | SPU_avgb \<Rightarrow> spu_avgb | SPU_sumb \<Rightarrow> spu_sumb | SPU_fi \<Rightarrow> spu_fi)"

definition exec_shift :: "op_shift \<Rightarrow> u128 \<Rightarrow> u128 \<Rightarrow> u128" where
  "exec_shift f = (case f of
     SPU_shl \<Rightarrow> spu_shl | SPU_shlh \<Rightarrow> spu_shlh | SPU_rot \<Rightarrow> spu_rot | SPU_rotm \<Rightarrow> spu_rotm | SPU_rotma \<Rightarrow> spu_rotma
   | SPU_roth \<Rightarrow> spu_roth | SPU_rothm \<Rightarrow> spu_rothm
   | SPU_shlqbi \<Rightarrow> spu_shlqbi | SPU_shlqby \<Rightarrow> spu_shlqby | SPU_shlqbybi \<Rightarrow> spu_shlqbybi
   | SPU_rotqbi \<Rightarrow> spu_rotqbi | SPU_rotqby \<Rightarrow> spu_rotqby | SPU_rotqbybi \<Rightarrow> spu_rotqbybi
   | SPU_rotqmbi \<Rightarrow> spu_rotqmbi | SPU_rotqmby \<Rightarrow> spu_rotqmby | SPU_rotqmbybi \<Rightarrow> spu_rotqmbybi
   | SPU_cbx \<Rightarrow> spu_cbx | SPU_chx \<Rightarrow> spu_chx | SPU_cwx \<Rightarrow> spu_cwx | SPU_cdx \<Rightarrow> spu_cdx)"

definition exec_abt :: "op_abt \<Rightarrow> u128 \<Rightarrow> u128 \<Rightarrow> u128 \<Rightarrow> u128" where
  "exec_abt f = (case f of SPU_addx \<Rightarrow> spu_addx | SPU_sfx \<Rightarrow> spu_sfx | SPU_cgx \<Rightarrow> spu_cgx)"

definition exec_rrr :: "op_rrr \<Rightarrow> u128 \<Rightarrow> u128 \<Rightarrow> u128 \<Rightarrow> u128" where
  "exec_rrr f = (case f of
     SPU_selb \<Rightarrow> spu_selb | SPU_shufb \<Rightarrow> spu_shufb | SPU_mpya \<Rightarrow> spu_mpya | SPU_mpyhha \<Rightarrow> spu_mpyhha)"

definition exec_ai :: "op_ai \<Rightarrow> u128 \<Rightarrow> int \<Rightarrow> u128" where
  "exec_ai f = (case f of
     SPU_ai \<Rightarrow> spu_ai | SPU_sfi \<Rightarrow> spu_sfi | SPU_ahi \<Rightarrow> spu_ahi | SPU_sfhi \<Rightarrow> spu_sfhi | SPU_mpyi \<Rightarrow> spu_mpyi
   | SPU_andi \<Rightarrow> spu_andi | SPU_ori \<Rightarrow> spu_ori | SPU_xori \<Rightarrow> spu_xori | SPU_andbi \<Rightarrow> spu_andbi | SPU_andhi \<Rightarrow> spu_andhi
   | SPU_orhi \<Rightarrow> spu_orhi | SPU_orbi \<Rightarrow> spu_orbi | SPU_xorhi \<Rightarrow> spu_xorhi | SPU_xorbi \<Rightarrow> spu_xorbi
   | SPU_ceqi \<Rightarrow> spu_ceqi | SPU_cgti \<Rightarrow> spu_cgti | SPU_clgti \<Rightarrow> spu_clgti
   | SPU_ceqbi \<Rightarrow> spu_ceqbi | SPU_cgtbi \<Rightarrow> spu_cgtbi | SPU_clgtbi \<Rightarrow> spu_clgtbi
   | SPU_ceqhi \<Rightarrow> spu_ceqhi | SPU_cgthi \<Rightarrow> spu_cgthi | SPU_clgthi \<Rightarrow> spu_clgthi)"

definition exec_shifti :: "op_shifti \<Rightarrow> u128 \<Rightarrow> int \<Rightarrow> u128" where
  "exec_shifti f = (case f of
     SPU_shli \<Rightarrow> spu_shli | SPU_shlhi \<Rightarrow> spu_shlhi | SPU_roti \<Rightarrow> spu_roti | SPU_rotmi \<Rightarrow> spu_rotmi
   | SPU_rotmai \<Rightarrow> spu_rotmai | SPU_rothi \<Rightarrow> spu_rothi | SPU_shlqbii \<Rightarrow> spu_shlqbii | SPU_shlqbyi \<Rightarrow> spu_shlqbyi
   | SPU_rotqbii \<Rightarrow> spu_rotqbii | SPU_rotqbyi \<Rightarrow> spu_rotqbyi | SPU_rotqmbii \<Rightarrow> spu_rotqmbii | SPU_rotqmbyi \<Rightarrow> spu_rotqmbyi
   | SPU_cbd \<Rightarrow> spu_cbd | SPU_chd \<Rightarrow> spu_chd | SPU_cwd \<Rightarrow> spu_cwd | SPU_cdd \<Rightarrow> spu_cdd)"

definition exec_a :: "op_a \<Rightarrow> u128 \<Rightarrow> u128" where
  "exec_a f = (case f of
     SPU_orx \<Rightarrow> spu_orx | SPU_fsm \<Rightarrow> spu_fsm | SPU_fsmb \<Rightarrow> spu_fsmb | SPU_fsmh \<Rightarrow> spu_fsmh
   | SPU_gb \<Rightarrow> spu_gb | SPU_gbb \<Rightarrow> spu_gbb | SPU_gbh \<Rightarrow> spu_gbh | SPU_clz \<Rightarrow> spu_clz | SPU_cntb \<Rightarrow> spu_cntb
   | SPU_xsbh \<Rightarrow> spu_xsbh | SPU_xshw \<Rightarrow> spu_xshw | SPU_xswd \<Rightarrow> spu_xswd | SPU_frest \<Rightarrow> spu_frest | SPU_frsqest \<Rightarrow> spu_frsqest)"

definition exec_imm :: "op_imm \<Rightarrow> int \<Rightarrow> u128 \<Rightarrow> u128" where
  "exec_imm f i dst = (case f of
     SPU_il \<Rightarrow> spu_splat_u32 (of_int i)
   | SPU_ilh \<Rightarrow> spu_ilh (of_int i)
   | SPU_ilhu \<Rightarrow> spu_splat_u32 (push_bit 16 (of_int i))
   | SPU_ila \<Rightarrow> spu_splat_u32 (of_int i AND 0x3FFFF)
   | SPU_iohl \<Rightarrow> spu_ori dst (uint (of_int i AND 0xFFFF :: u32))
   | SPU_fsmbi \<Rightarrow> spu_fsmbi i)"

definition set_gpr :: "nat \<Rightarrow> u128 \<Rightarrow> 'x spu_context_scheme \<Rightarrow> 'x spu_context_scheme" where
  "set_gpr r v ctx = ctx\<lparr>gpr := (gpr ctx)(r := v)\<rparr>"

text \<open>The preferred word of a register.\<close>

definition PREF :: "u128 \<Rightarrow> u32" where "PREF v = lane v 0"

text \<open>The effective address of a load or store.\<close>

definition mem_addr :: "op_mem \<Rightarrow> spu_ins \<Rightarrow> 'x spu_context_scheme \<Rightarrow> u32" where
  "mem_addr f d ctx =
     (if f = SPU_lqd \<or> f = SPU_stqd then PREF (gpr ctx (ra d)) + of_int (imm d)
      else if f = SPU_lqx \<or> f = SPU_stqx then PREF (gpr ctx (ra d)) + PREF (gpr ctx (rb d))
      else tgt d)"

definition exec_mem :: "op_mem \<Rightarrow> spu_ins \<Rightarrow> 'x spu_context_scheme \<Rightarrow> 'x spu_context_scheme option" where
  "exec_mem f d ctx =
     (let a = mem_addr f d ctx
      in if f = SPU_lqd \<or> f = SPU_lqx \<or> f = SPU_lqa \<or> f = SPU_lqr
         then map_option (\<lambda>v. set_gpr (rt d) v ctx) (spu_ls_read128 ctx a)
         else spu_ls_write128 ctx a (gpr ctx (rt d)))"

text \<open>
  A branch: the context with the link register written, and the next program counter. The
  link is written before the target register is read.
\<close>

definition exec_branch :: "op_branch \<Rightarrow> spu_ins \<Rightarrow> 'x spu_context_scheme \<Rightarrow> 'x spu_context_scheme \<times> u32" where
  "exec_branch f d ctx =
     (let seq = pc ctx + 4;
          t = PREF (gpr ctx (rt d));
          reg = PREF (gpr ctx (ra d)) AND 0x3FFFC;
          linked = set_gpr (rt d) (spu_link (pc ctx + 4)) ctx
      in case f of
           SPU_br \<Rightarrow> (ctx, tgt d)
         | SPU_bra \<Rightarrow> (ctx, tgt d)
         | SPU_brsl \<Rightarrow> (linked, tgt d)
         | SPU_brasl \<Rightarrow> (linked, tgt d)
         | SPU_brz \<Rightarrow> (ctx, if t = 0 then tgt d else seq)
         | SPU_brnz \<Rightarrow> (ctx, if t \<noteq> 0 then tgt d else seq)
         | SPU_brhz \<Rightarrow> (ctx, if t AND 0xFFFF = 0 then tgt d else seq)
         | SPU_brhnz \<Rightarrow> (ctx, if t AND 0xFFFF \<noteq> 0 then tgt d else seq)
         | SPU_bi \<Rightarrow> (ctx, reg)
         | SPU_bisl \<Rightarrow> (linked, PREF (gpr linked (ra d)) AND 0x3FFFC)
         | SPU_iret \<Rightarrow> (ctx, srr0 ctx AND 0x3FFFC)
         | SPU_biz \<Rightarrow> (ctx, if t = 0 then reg else seq)
         | SPU_binz \<Rightarrow> (ctx, if t \<noteq> 0 then reg else seq)
         | SPU_bihz \<Rightarrow> (ctx, if t AND 0xFFFF = 0 then reg else seq)
         | SPU_bihnz \<Rightarrow> (ctx, if t AND 0xFFFF \<noteq> 0 then reg else seq))"

text \<open>Whether a conditional halt holds.\<close>

definition halt_hit :: "op_stop \<Rightarrow> spu_ins \<Rightarrow> 'x spu_context_scheme \<Rightarrow> bool" where
  "halt_hit f d ctx =
     (let a = PREF (gpr ctx (ra d));
          rhs = (if f = SPU_heq \<or> f = SPU_hgt \<or> f = SPU_hlgt then PREF (gpr ctx (rb d)) else of_int (imm d))
      in if f = SPU_heq \<or> f = SPU_heqi then a = rhs
         else if f = SPU_hgt \<or> f = SPU_hgti then sint a > sint rhs
         else a > rhs)"

definition goto :: "u32 \<Rightarrow> 'x spu_context_scheme \<Rightarrow> 'x spu_context_scheme step_result" where
  "goto next ctx = Continue (ctx\<lparr>pc := next\<rparr>)"

definition exec_stop :: "op_stop \<Rightarrow> spu_ins \<Rightarrow> 'x spu_context_scheme \<Rightarrow> 'x spu_context_scheme step_result" where
  "exec_stop f d ctx =
     (if f = SPU_stop \<or> f = SPU_stopd
      then Halted (ctx\<lparr>pc := pc ctx + 4, stop_code := of_int (imm d), status := SPU_STATUS_STOPPED_BY_STOP\<rparr>)
      else if halt_hit f d ctx
      then Halted (ctx\<lparr>stop_code := 0x1000, status := SPU_STATUS_STOPPED_BY_HALT\<rparr>)
      else goto (pc ctx + 4) ctx)"

definition exec_chan ::
  "'x spu_context_scheme spu_env \<Rightarrow> op_chan \<Rightarrow> spu_ins \<Rightarrow> 'x spu_context_scheme \<Rightarrow> 'x spu_context_scheme option" where
  "exec_chan env f d ctx =
     (case f of
        SPU_wrch \<Rightarrow> wrch env ctx (ch d) (gpr ctx (rt d))
      | SPU_rdch \<Rightarrow> map_option (\<lambda>(v, c). set_gpr (rt d) v c) (rdch env ctx (ch d))
      | SPU_rchcnt \<Rightarrow> map_option (\<lambda>(n, c). set_gpr (rt d) (spu_splat_u32 n) c) (rchcnt env ctx (ch d)))"

text \<open>The register a floating point instruction writes: the four-register forms write \<open>rc\<close>.\<close>

definition float_dst :: "op_float \<Rightarrow> spu_ins \<Rightarrow> nat" where
  "float_dst f d = (if f = SPU_fma \<or> f = SPU_fms \<or> f = SPU_fnms then rc d else rt d)"

definition spu_exec ::
  "'x spu_context_scheme spu_env \<Rightarrow> spu_ins \<Rightarrow> 'x spu_context_scheme \<Rightarrow> 'x spu_context_scheme step_result" where
  "spu_exec env d ctx =
     (let A = gpr ctx (ra d); B = gpr ctx (rb d); T = gpr ctx (rt d);
          next = pc ctx + 4
      in case op d of
           AB f \<Rightarrow> goto next (set_gpr (rt d) (exec_ab f A B) ctx)
         | Shift f \<Rightarrow> goto next (set_gpr (rt d) (exec_shift f A B) ctx)
         | ABT f \<Rightarrow> goto next (set_gpr (rt d) (exec_abt f A B T) ctx)
         | RRR f \<Rightarrow> goto next (set_gpr (rc d) (exec_rrr f A B T) ctx)
         | AI f \<Rightarrow> goto next (set_gpr (rt d) (exec_ai f A (imm d)) ctx)
         | ShiftI f \<Rightarrow> goto next (set_gpr (rt d) (exec_shifti f A (imm d)) ctx)
         | Unary f \<Rightarrow> goto next (set_gpr (rt d) (exec_a f A) ctx)
         | Imm f \<Rightarrow> goto next (set_gpr (rt d) (exec_imm f (imm d) T) ctx)
         | Mem f \<Rightarrow> (case exec_mem f d ctx of None \<Rightarrow> Out_of_bounds | Some c \<Rightarrow> goto next c)
         | Float f \<Rightarrow> goto next (set_gpr (float_dst f d) (float_op env f A B T (imm d)) ctx)
         | Chan f \<Rightarrow> (case exec_chan env f d ctx of None \<Rightarrow> Unwound | Some c \<Rightarrow> goto next c)
         | Nop f \<Rightarrow> goto next ctx
         | Branch f \<Rightarrow> (let (c, n) = exec_branch f d ctx in goto n c)
         | Stop f \<Rightarrow> exec_stop f d ctx
         | Other f \<Rightarrow> Halted (ctx\<lparr>status := SPU_STATUS_STOPPED_BY_HALT\<rparr>))"

definition spu_step ::
  "'x spu_context_scheme spu_env \<Rightarrow> 'x spu_context_scheme \<Rightarrow> 'x spu_context_scheme step_result" where
  "spu_step env ctx =
     (case ls_get32 ctx (unat (pc ctx AND SPU_LS_MASK)) of
        None \<Rightarrow> Out_of_bounds
      | Some insn \<Rightarrow> spu_exec env (spu_decode1 insn (pc ctx)) ctx)"

section \<open>The loop\<close>

text \<open>
  The pending event of the stop \<open>0x110\<close> is the pair of \<^verbatim>\<open>g_spu_pending_evt_valid\<close> and
  \<^verbatim>\<open>g_spu_pending_evt\<close>. A run that returns gives the value returned, the context and the
  pending event; \<open>None\<close> is a run that has not returned within the fuel.
\<close>

datatype 'c run_result = Returned u32 'c "u32 list option" | Run_unwound | Run_out_of_bounds

definition syscall_here :: "'x spu_context_scheme \<Rightarrow> bool option" where
  "syscall_here ctx =
     (if pc ctx = 0xA70
      then map_option (\<lambda>sc. image_id ctx = 22 \<or> policy_mode ctx \<noteq> 0 \<and> sc = 0xA70) (ls_get32 ctx 0x27C4)
      else Some False)"

definition do_syscall :: "'x spu_context_scheme spu_env \<Rightarrow> 'x spu_context_scheme \<Rightarrow> 'x spu_context_scheme" where
  "do_syscall env ctx =
     (let c = (taskset_syscall env (ctx\<lparr>image_id := 22\<rparr>))\<lparr>image_id := image_id ctx\<rparr>
      in c\<lparr>pc := PREF (gpr c 0) AND SPU_LS_MASK\<rparr>)"

definition deliver_event :: "u32 list \<Rightarrow> 'x spu_context_scheme \<Rightarrow> 'x spu_context_scheme" where
  "deliver_event evt ctx =
     ctx\<lparr>ch_out_mbox := snd (spu_channel_read (ch_out_mbox ctx)),
         rcv_evt := [0, evt ! 0, evt ! 1, evt ! 2], rcv_evt_n := 4, rcv_evt_i := 0,
         status := SPU_STATUS_RUNNING\<rparr>"

fun run_loop ::
  "'x spu_context_scheme spu_env \<Rightarrow> u32 \<Rightarrow> nat \<Rightarrow> u32 list option \<Rightarrow> 'x spu_context_scheme \<Rightarrow>
     'x spu_context_scheme run_result option" where
  "run_loop env stop_lsa 0 evt ctx = None"
| "run_loop env stop_lsa (Suc n) evt ctx =
     (case syscall_here ctx of
        None \<Rightarrow> Some Run_out_of_bounds
      | Some True \<Rightarrow> run_loop env stop_lsa n evt (do_syscall env ctx)
      | Some False \<Rightarrow>
          if image_id ctx \<ge> 0 \<and> (stop_lsa \<noteq> 0 \<and> pc ctx = stop_lsa \<or> lifted env ctx (pc ctx) \<noteq> None)
          then Some (Returned (pc ctx) ctx evt)
          else (case spu_step env ctx of
                  Continue c \<Rightarrow> run_loop env stop_lsa n evt c
                | Halted c \<Rightarrow>
                    (case evt of
                       Some e \<Rightarrow>
                         if stop_code c = 0x110 then run_loop env stop_lsa n None (deliver_event e c)
                         else Some (Returned (stop_code c) c evt)
                     | None \<Rightarrow> Some (Returned (stop_code c) c evt))
                | Unwound \<Rightarrow> Some Run_unwound
                | Out_of_bounds \<Rightarrow> Some Run_out_of_bounds))"

definition spu_interp_run_until ::
  "'x spu_context_scheme spu_env \<Rightarrow> nat \<Rightarrow> u32 list option \<Rightarrow> 'x spu_context_scheme \<Rightarrow> u32 \<Rightarrow> u32 \<Rightarrow>
     'x spu_context_scheme run_result option" where
  "spu_interp_run_until env fuel evt ctx start_lsa stop_lsa =
     run_loop env stop_lsa fuel evt (ctx\<lparr>pc := start_lsa AND 0x3FFFC, status := SPU_STATUS_RUNNING\<rparr>)"

definition spu_interp_run ::
  "'x spu_context_scheme spu_env \<Rightarrow> nat \<Rightarrow> u32 list option \<Rightarrow> 'x spu_context_scheme \<Rightarrow> u32 \<Rightarrow>
     'x spu_context_scheme run_result option" where
  "spu_interp_run env fuel evt ctx start_lsa = spu_interp_run_until env fuel evt ctx start_lsa 0"

text \<open>The dispatcher, with fuel for its own loop and for each run of the interpreter.\<close>

fun spu_dispatch ::
  "'x spu_context_scheme spu_env \<Rightarrow> nat \<Rightarrow> nat \<Rightarrow> u32 list option \<Rightarrow> 'x spu_context_scheme \<Rightarrow> u32 \<Rightarrow>
     'x spu_context_scheme run_result option" where
  "spu_dispatch env 0 fuel evt ctx target = None"
| "spu_dispatch env (Suc n) fuel evt ctx target =
     (let target = target AND 0x3FFFC
      in case lifted env ctx target of
           Some fn \<Rightarrow> Some (Returned 0 (fn (ctx\<lparr>pc := target\<rparr>)) evt)
         | None \<Rightarrow>
             (case spu_interp_run env fuel evt ctx target of
                Some (Returned next c evt') \<Rightarrow>
                  if status c AND (SPU_STATUS_STOPPED_BY_STOP OR SPU_STATUS_STOPPED_BY_HALT) \<noteq> 0
                  then Some (Returned 0 c evt')
                  else if next AND 0x3FFFC = target then Some (Returned 0 c evt')
                  else spu_dispatch env n fuel evt' c next
              | r \<Rightarrow> r))"

end
