(* ===== verification/SpuRun.thy ===== *)
theory SpuRun
  imports SpuInterp
begin

text \<open>
  What the SPU interpreter does with the local store and the program counter: a quadword that
  is stored is loaded again, an instruction changes only the register and the store line it
  names, and from an aligned program counter the interpreter never reads or writes outside the
  local store.
\<close>

section \<open>Alignment\<close>

definition aligned4 :: "u32 \<Rightarrow> bool" where
  "aligned4 w \<longleftrightarrow> w AND 3 = 0"

lemma aligned4_take_bit: "aligned4 w \<longleftrightarrow> take_bit 2 w = 0"
  by (simp add: aligned4_def take_bit_eq_mask mask_eq_exp_minus_1)

lemma aligned4_dvd: "aligned4 w \<longleftrightarrow> 4 dvd unat w"
proof -
  have "unat (take_bit 2 w) = unat w mod 4" by (simp only: unsigned_take_bit_eq) (simp add: take_bit_eq_mod)
  then show ?thesis by (simp add: aligned4_take_bit dvd_eq_mod_eq_0 flip: unat_eq_zero)
qed

lemma aligned4_add: "aligned4 v \<Longrightarrow> aligned4 w \<Longrightarrow> aligned4 (v + w)"
  by (simp add: aligned4_dvd unat_word_ariths dvd_mod)

lemma aligned4_and: "aligned4 v \<Longrightarrow> aligned4 (v AND w)"
  by (simp add: aligned4_take_bit)

lemma aligned4_and_mask: "aligned4 (v AND 0x3FFFC)" "aligned4 (v AND 0x3FFF0)"
  by (simp_all add: aligned4_def and.assoc)

lemma aligned4_simps [simp]: "aligned4 0" "aligned4 4"
  by (simp_all add: aligned4_def)

lemma aligned4_times: "aligned4 (of_int i * 4)"
proof -
  have "of_int i * 4 = (push_bit 2 (of_int i) :: u32)" by (simp add: push_bit_eq_mult)
  then show ?thesis by (simp add: aligned4_take_bit take_bit_push_bit)
qed

lemma aligned4_push: "aligned4 (push_bit 2 w)"
  by (simp add: aligned4_take_bit take_bit_push_bit)

lemma tgt_ri16_ins: "aligned4 p \<Longrightarrow> aligned4 (tgt d) \<Longrightarrow> aligned4 (tgt (ri16_ins d i p))"
  by (auto simp: ri16_ins_def aligned4_and_mask aligned4_times intro!: aligned4_and aligned4_add split: spu_op.splits op_imm.splits)

lemma tgt_aligned: "aligned4 p \<Longrightarrow> aligned4 (tgt (spu_decode1 insn p))"
  unfolding spu_decode1_def Let_def by (auto intro!: tgt_ri16_ins)

section \<open>The local store\<close>

lemma unat_mask18: "unat (w AND SPU_LS_MASK) = unat w mod 2 ^ 18"
proof -
  have "w AND SPU_LS_MASK = take_bit 18 w" by (simp add: SPU_LS_MASK_def take_bit_eq_mask mask_eq_exp_minus_1)
  then show ?thesis by (simp only: unsigned_take_bit_eq) (simp add: take_bit_eq_mod)
qed

lemma ls_get32_Some: "n + 3 < SPU_LS_SIZE \<Longrightarrow>
  ls_get32 ctx n = Some (push_bit 24 (ucast (ls ctx n)) OR push_bit 16 (ucast (ls ctx (n + 1))) OR
    push_bit 8 (ucast (ls ctx (n + 2))) OR ucast (ls ctx (n + 3)))"
  by (simp add: ls_get32_def ls_get_def)

lemma fetch_in_bounds: "aligned4 w \<Longrightarrow> unat (w AND SPU_LS_MASK) + 3 < SPU_LS_SIZE"
proof -
  assume "aligned4 w"
  then have "4 dvd unat w mod 2 ^ 18" by (simp add: aligned4_dvd dvd_mod)
  then obtain k where "unat w mod 2 ^ 18 = 4 * k" by blast
  moreover have "unat w mod 2 ^ 18 < 2 ^ 18" by simp
  ultimately show ?thesis by (simp add: unat_mask18 SPU_LS_SIZE_def)
qed

lemma quad_addr_eq: "quad_addr a = unat a mod 2 ^ 18 div 16 * 16"
proof -
  have "a AND (SPU_LS_MASK AND NOT 0xF) = (a AND SPU_LS_MASK) AND NOT (mask 4)" by (simp add: mask_eq_exp_minus_1 and.assoc)
  then show ?thesis unfolding quad_addr_def by (simp only: unat_and_not_mask unat_mask18) simp
qed

lemma quad_addr_bound: "quad_addr a + 15 < SPU_LS_SIZE"
proof -
  have "unat a mod 2 ^ 18 < 16 * 2 ^ 14" by simp
  then have "unat a mod 2 ^ 18 div 16 < 2 ^ 14" by (intro less_mult_imp_div_less) (simp add: mult.commute)
  then show ?thesis by (simp add: quad_addr_eq SPU_LS_SIZE_def)
qed

lemma quad_addr_dvd: "16 dvd quad_addr a"
  by (simp add: quad_addr_eq)

lemma quad_addr_apart: "quad_addr a \<noteq> quad_addr b \<Longrightarrow> i < 16 \<Longrightarrow> j < 16 \<Longrightarrow> quad_addr a + i \<noteq> quad_addr b + j"
proof
  assume ne: "quad_addr a \<noteq> quad_addr b" and ij: "i < 16" "j < 16" and eq: "quad_addr a + i = quad_addr b + j"
  obtain k l where "quad_addr a = 16 * k" "quad_addr b = 16 * l" using quad_addr_dvd by (metis dvdE)
  moreover from this eq have "(16 * k + i) div 16 = (16 * l + j) div 16" by simp
  ultimately show False using ne ij by simp
qed

text \<open>A sequence of stores to different cells.\<close>

lemma ls_puts_Some:
  "\<forall>(n, b) \<in> set bs. n < SPU_LS_SIZE \<Longrightarrow>
     ls_puts ctx bs = Some (ctx\<lparr>ls := foldl (\<lambda>f (n, b). f(n := b)) (ls ctx) bs\<rparr>)"
  by (induction ctx bs rule: ls_puts.induct) auto

lemma foldl_puts:
  "foldl (\<lambda>f (n, b). f(n := b)) f (map (\<lambda>k. (p + k, g k)) [0..<m]) n =
     (if p \<le> n \<and> n < p + m then g (n - p) else f n)"
  by (induction m) auto

lemma write128_Some:
  "spu_ls_write128 ctx a v = Some (ctx\<lparr>ls := (\<lambda>n. if quad_addr a \<le> n \<and> n < quad_addr a + 16
      then byte (3 - (n - quad_addr a) mod 4) (lane v ((n - quad_addr a) div 4) :: u32) else ls ctx n)\<rparr>)"
proof -
  let ?bs = "map (\<lambda>k. (quad_addr a + k, byte (3 - k mod 4) (lane v (k div 4) :: u32))) [0..<16]"
  have "\<forall>(n, b) \<in> set ?bs. n < SPU_LS_SIZE" using quad_addr_bound [of a] by auto
  then have "ls_puts ctx ?bs = Some (ctx\<lparr>ls := foldl (\<lambda>f (n, b). f(n := b)) (ls ctx) ?bs\<rparr>)" by (rule ls_puts_Some)
  moreover have "foldl (\<lambda>f (n, b). f(n := b)) (ls ctx) ?bs = (\<lambda>n. if quad_addr a \<le> n \<and> n < quad_addr a + 16
      then byte (3 - (n - quad_addr a) mod 4) (lane v ((n - quad_addr a) div 4) :: u32) else ls ctx n)"
    by (rule ext) (rule foldl_puts)
  ultimately show ?thesis by (simp only: spu_ls_write128_def Let_def)
qed

lemma read128_Some:
  "spu_ls_read128 ctx a = Some (lanes (\<lambda>i. let p = quad_addr a + 4 * i in
      push_bit 24 (ucast (ls ctx p)) OR push_bit 16 (ucast (ls ctx (p + 1))) OR
      push_bit 8 (ucast (ls ctx (p + 2))) OR ucast (ls ctx (p + 3)) :: u32))"
  using quad_addr_bound [of a]
  by (auto simp: spu_ls_read128_def Let_def ls_get32_Some add.assoc less_4_cases intro!: lanes_cong)

lemma quad_addr_line: "quad_addr a = quad_addr b \<longleftrightarrow> unat a div 16 mod 2 ^ 14 = unat b div 16 mod 2 ^ 14"
proof -
  have "unat w mod 2 ^ 18 div 16 = unat w div 16 mod 2 ^ 14" for w :: u32
    using mod_mult2_eq [of "unat w" 16 "2 ^ 14"] by simp
  then show ?thesis by (simp add: quad_addr_eq)
qed

lemma join_bytes:
  "push_bit 24 (ucast (byte 3 w)) OR push_bit 16 (ucast (byte 2 w)) OR push_bit 8 (ucast (byte 1 w)) OR ucast (byte 0 w) = (w :: u32)"
proof (rule u32_bytes_eqI)
qed (rule bit_word_eqI, auto simp: bit_byte bit_simps)+

text \<open>The accesses with \<^verbatim>\<open>memcpy\<close> are the accesses byte by byte.\<close>

lemma byte_join:
  fixes b0 b1 b2 b3 :: u8
  defines "w \<equiv> push_bit 24 (ucast b3) OR push_bit 16 (ucast b2) OR push_bit 8 (ucast b1) OR ucast b0 :: u32"
  shows "byte 0 w = b0" "byte 1 w = b1" "byte 2 w = b2" "byte 3 w = b3"
  unfolding w_def by (rule bit_word_eqI, auto simp: bit_byte bit_simps dest: bit_imp_le_length)+

lemma byte_bswap: "byte 0 (SPU_BSWAP32 w) = byte 3 w" "byte 1 (SPU_BSWAP32 w) = byte 2 w"
  "byte 2 (SPU_BSWAP32 w) = byte 1 w" "byte 3 (SPU_BSWAP32 w) = byte 0 w"
  unfolding SPU_BSWAP32_def by (rule byte_join)+

lemma bswap_memcpy32: "map_option SPU_BSWAP32 (ls_memcpy32 ctx n) = ls_get32 ctx n"
proof -
  have "SPU_BSWAP32 (push_bit 24 (ucast b3) OR push_bit 16 (ucast b2) OR push_bit 8 (ucast b1) OR ucast b0) =
      push_bit 24 (ucast b0) OR push_bit 16 (ucast b1) OR push_bit 8 (ucast b2) OR ucast b3" for b0 b1 b2 b3 :: u8
    unfolding SPU_BSWAP32_def byte_join ..
  then show ?thesis by (simp add: ls_memcpy32_def ls_get32_def split: option.splits)
qed

lemma fast_accesses: "spu_ls_read128_fast ctx a = spu_ls_read128 ctx a" "spu_ls_write128_fast ctx a v = spu_ls_write128 ctx a v"
proof -
  show "spu_ls_read128_fast ctx a = spu_ls_read128 ctx a"
    by (simp add: spu_ls_read128_fast_def spu_ls_read128_def Let_def bswap_memcpy32 [symmetric] split: option.splits)
  show "spu_ls_write128_fast ctx a v = spu_ls_write128 ctx a v"
  proof -
    have "byte (k mod 4) (SPU_BSWAP32 w) = byte (3 - k mod 4) w" for k w
      using less_4_cases [of "k mod 4"] byte_bswap [of w] by auto
    then show ?thesis by (simp add: spu_ls_write128_fast_def spu_ls_write128_def)
  qed
qed

text \<open>
  What is stored is loaded again: a quadword store succeeds at every address, a load from the
  same line of 16 bytes gives the value back, and a load from every other line gives what it gave
  before. Addresses wrap at 256 KB and their low four bits are ignored.
\<close>

theorem local_store_roundtrip:
  "\<exists>c. spu_ls_write128 ctx a v = Some c \<and>
     spu_ls_read128 c b = (if unat a div 16 mod 2 ^ 14 = unat b div 16 mod 2 ^ 14 then Some v else spu_ls_read128 ctx b)"
proof -
  obtain c where c: "spu_ls_write128 ctx a v = Some c" "ls c = (\<lambda>n. if quad_addr a \<le> n \<and> n < quad_addr a + 16
      then byte (3 - (n - quad_addr a) mod 4) (lane v ((n - quad_addr a) div 4) :: u32) else ls ctx n)"
    by (simp add: write128_Some)
  show ?thesis
  proof (cases "quad_addr a = quad_addr b")
    case True
    have "ls c (quad_addr b + (4 * i + j)) = byte (3 - j) (lane v i :: u32)" if "i < 4" "j < 4" for i j
      using that True by (simp add: c(2))
    from this [where j = 0] this [where j = 1] this [where j = 2] this [where j = 3]
    have "spu_ls_read128 c b = Some (lanes (lane v :: nat \<Rightarrow> u32))"
      unfolding read128_Some by (intro arg_cong [where f = Some] lanes_cong) (simp add: add.assoc join_bytes [unfolded One_nat_def])
    then have "spu_ls_read128 c b = Some v" by (simp add: lanes_lane)
    with c True quad_addr_line show ?thesis by simp
  next
    case False
    have same: "ls c (quad_addr b + k) = ls ctx (quad_addr b + k)" if "k < 16" for k
    proof (rule ccontr)
      assume "ls c (quad_addr b + k) \<noteq> ls ctx (quad_addr b + k)"
      then have "quad_addr a \<le> quad_addr b + k" "quad_addr b + k < quad_addr a + 16" by (auto simp: c(2) split: if_splits)
      then show False using quad_addr_apart [OF False, of "quad_addr b + k - quad_addr a" k] that by linarith
    qed
    from same [of "4 * i" for i] same [of "4 * i + 1" for i] same [of "4 * i + 2" for i] same [of "4 * i + 3" for i]
    have "spu_ls_read128 c b = spu_ls_read128 ctx b"
      unfolding read128_Some by (intro arg_cong [where f = Some] lanes_cong) (simp add: Let_def add.assoc)
    with c False quad_addr_line show ?thesis by simp
  qed
qed

section \<open>Every access is inside the local store\<close>

lemma exec_mem_Some: "\<exists>c. exec_mem f d ctx = Some c \<and> pc c = pc ctx"
  by (auto simp: exec_mem_def Let_def read128_Some write128_Some set_gpr_def)

lemma exec_branch_aligned:
  assumes "aligned4 (pc ctx)" "aligned4 (tgt d)"
  shows "aligned4 (snd (exec_branch f d ctx))"
  using assms by (cases f) (auto simp: exec_branch_def Let_def aligned4_and_mask intro: aligned4_add)

lemma goto_simps [simp]: "goto n c \<noteq> Out_of_bounds" "goto n c \<noteq> Halted c'" "goto n c = Continue c' \<longleftrightarrow> c' = c\<lparr>pc := n\<rparr>"
  by (auto simp: goto_def)

lemma exec_stop_safe:
  assumes "aligned4 (pc ctx)"
  shows "exec_stop f d ctx \<noteq> Out_of_bounds \<and>
    (\<forall>c. exec_stop f d ctx = Continue c \<or> exec_stop f d ctx = Halted c \<longrightarrow> aligned4 (pc c))"
  using assms aligned4_add [of "pc ctx" 4] by (auto simp: exec_stop_def)

lemma spu_exec_safe:
  assumes "aligned4 (pc ctx)" "aligned4 (tgt d)"
  shows "spu_exec env d ctx \<noteq> Out_of_bounds \<and>
    (\<forall>c. spu_exec env d ctx = Continue c \<or> spu_exec env d ctx = Halted c \<longrightarrow> aligned4 (pc c))"
proof -
  have seq: "aligned4 (pc ctx + 4)" using assms(1) by (simp add: aligned4_add)
  show ?thesis
  proof (cases "op d")
    case (Mem f)
    then show ?thesis using exec_mem_Some [of f d ctx] seq by (auto simp: spu_exec_def)
  next
    case (Branch f)
    then show ?thesis using exec_branch_aligned [OF assms, of f] by (auto simp: spu_exec_def split: prod.splits)
  next
    case (Stop f)
    then show ?thesis using exec_stop_safe [OF assms(1), of f d] by (simp add: spu_exec_def)
  qed (use assms(1) seq in \<open>auto simp: spu_exec_def Let_def split: option.splits\<close>)
qed

lemma spu_step_safe:
  assumes "aligned4 (pc ctx)"
  shows "spu_step env ctx \<noteq> Out_of_bounds \<and>
    (\<forall>c. spu_step env ctx = Continue c \<or> spu_step env ctx = Halted c \<longrightarrow> aligned4 (pc c))"
  using spu_exec_safe [OF assms tgt_aligned [OF assms]] fetch_in_bounds [OF assms]
  by (simp add: spu_step_def ls_get32_Some)

lemma syscall_here_Some: "\<exists>b. syscall_here ctx = Some b"
  by (auto simp: syscall_here_def ls_get32_Some SPU_LS_SIZE_def)

lemma run_loop_safe:
  assumes link: "\<And>c. aligned4 (PREF (gpr (taskset_syscall env c) 0))"
  shows "aligned4 (pc ctx) \<Longrightarrow> run_loop env stop_lsa n evt ctx \<noteq> Some Run_out_of_bounds"
proof (induction n arbitrary: evt ctx)
  case (Suc n)
  have sys: "aligned4 (pc (do_syscall env ctx))" by (simp add: do_syscall_def Let_def aligned4_and link)
  have evt: "aligned4 (pc c) \<Longrightarrow> aligned4 (pc (deliver_event e c))" for e and c :: "'a spu_context_scheme"
    by (simp add: deliver_event_def)
  show ?case
    using syscall_here_Some [of ctx] spu_step_safe [OF Suc.prems, of env] Suc.IH sys evt
    by (auto split: option.splits bool.splits step_result.splits)
qed simp



section \<open>What an instruction changes\<close>

text \<open>The register an instruction may write, and the cells of the local store.\<close>

definition writes_reg :: "spu_ins \<Rightarrow> nat option" where
  "writes_reg d =
     (case op d of
        RRR f \<Rightarrow> Some (rc d)
      | Float f \<Rightarrow> Some (float_dst f d)
      | Mem f \<Rightarrow> if f = SPU_lqd \<or> f = SPU_lqx \<or> f = SPU_lqa \<or> f = SPU_lqr then Some (rt d) else None
      | Branch f \<Rightarrow> if f = SPU_brsl \<or> f = SPU_brasl \<or> f = SPU_bisl then Some (rt d) else None
      | Nop f \<Rightarrow> None
      | Stop f \<Rightarrow> None
      | Other f \<Rightarrow> None
      | _ \<Rightarrow> Some (rt d))"

definition writes_line :: "spu_ins \<Rightarrow> 'x spu_context_scheme \<Rightarrow> nat option" where
  "writes_line d ctx =
     (case op d of
        Mem f \<Rightarrow> if f = SPU_lqd \<or> f = SPU_lqx \<or> f = SPU_lqa \<or> f = SPU_lqr then None else Some (quad_addr (mem_addr f d ctx))
      | _ \<Rightarrow> None)"

text \<open>Everything of a context but registers, local store, program counter, status and stop code.\<close>

definition others :: "'x spu_context_scheme \<Rightarrow> int \<times> u32 \<times> int \<times> spu_channel \<times> u32 list \<times> nat \<times> nat \<times> 'x" where
  "others c = (image_id c, srr0 c, policy_mode c, ch_out_mbox c, rcv_evt c, rcv_evt_n c, rcv_evt_i c, spu_context.more c)"

text \<open>
  An instruction that is not a channel instruction changes at most one register, the one its
  form names, and at most one line of 16 bytes of the local store, the one a store addresses;
  every other register, every other byte and every other field of the context keeps its value.
\<close>

theorem instruction_frame:
  assumes "spu_exec env d ctx = Continue c \<or> spu_exec env d ctx = Halted c" and "\<And>f. op d \<noteq> Chan f"
  shows "(\<forall>r. writes_reg d \<noteq> Some r \<longrightarrow> gpr c r = gpr ctx r) \<and>
    (\<forall>n. (\<forall>p. writes_line d ctx = Some p \<longrightarrow> \<not> (p \<le> n \<and> n < p + 16)) \<longrightarrow> ls c n = ls ctx n) \<and>
    others c = others ctx"
proof (cases "op d")
  case (Mem f)
  then show ?thesis using assms
    by (auto simp: spu_exec_def exec_mem_def Let_def read128_Some write128_Some set_gpr_def writes_reg_def writes_line_def others_def
        split: if_splits)
next
  case (Branch f)
  then show ?thesis using assms
    by (cases f) (auto simp: spu_exec_def exec_branch_def Let_def set_gpr_def writes_reg_def others_def)
next
  case (Stop f)
  then show ?thesis using assms by (auto simp: spu_exec_def exec_stop_def others_def split: if_splits)
qed (use assms in \<open>auto simp: spu_exec_def Let_def set_gpr_def writes_reg_def others_def\<close>)

theorem instruction_frame_witness:
  "\<forall>(env :: spu_context spu_env) ctx. \<exists>c.
     spu_exec env \<lparr>op = RRR SPU_selb, rt = 2, ra = 3, rb = 4, rc = 9, ch = 0, imm = 0, tgt = 0\<rparr> ctx = Continue c \<and> gpr c 2 = gpr ctx 2"
proof (intro allI)
  fix env :: "spu_context spu_env" and ctx
  let ?d = "\<lparr>op = RRR SPU_selb, rt = 2, ra = 3, rb = 4, rc = 9, ch = 0, imm = 0, tgt = 0\<rparr>"
  obtain c where "spu_exec env ?d ctx = Continue c" by (simp add: spu_exec_def goto_def)
  then show "\<exists>c. spu_exec env ?d ctx = Continue c \<and> gpr c 2 = gpr ctx 2"
    using instruction_frame [of env ?d ctx c] by (simp add: writes_reg_def)
qed

section \<open>Where the interpreter departs from the instruction set\<close>

text \<open>
  The multiply-add of the high halfwords names its target in \<open>rt\<close>, which it also adds; the
  interpreter writes the register whose number is in the bits of the four-register forms, which
  are the low bits of the opcode: always register 70.
\<close>

theorem mpyhha_writes_70:
  assumes "op d = RRR SPU_mpyhha" "d = spu_decode1 insn p" "op_field insn 11 = 0x346"
  shows "spu_exec env d ctx = Continue ((set_gpr 70 (spu_mpyhha (gpr ctx (ra d)) (gpr ctx (rb d)) (gpr ctx (rt d))) ctx)\<lparr>pc := pc ctx + 4\<rparr>)"
proof -
  have "drop_bit 21 insn AND 0x7F = op_field insn 11 AND 0x7F"
    by (simp add: op_field_def mask_eq_exp_minus_1 and.assoc)
  then have "rc d = 70" using assms(2,3) by (simp add: decode_fields)
  then show ?thesis using assms(1) by (simp add: spu_exec_def goto_def exec_rrr_def)
qed

text \<open>
  A branch and link through a register that is also the link register goes to the next
  instruction: the link is written before the target is read.
\<close>

theorem bisl_through_link_falls_through:
  assumes "op d = Branch SPU_bisl" "ra d = rt d" "aligned4 (pc ctx)"
  shows "\<exists>c. spu_exec env d ctx = Continue c \<and> pc c = (pc ctx + 4) AND 0x3FFFC"
  using assms by (simp add: spu_exec_def exec_branch_def Let_def set_gpr_def goto_def PREF_def spu_link_def)

text \<open>
  The run loop resumes after a taskset system call at the link register masked with the size of
  the store but not with the alignment: from a link of \<open>0x3FFFE\<close> the fetch reads past the
  end of the local store.
\<close>

theorem unaligned_link_reads_past_store:
  assumes "PREF (gpr (taskset_syscall env (ctx\<lparr>image_id := 22\<rparr>)) 0) = 0x3FFFE" "pc ctx = 0xA70" "image_id ctx = 22"
    "lifted env = (\<lambda>_ _. None)"
  shows "run_loop env 0 (Suc (Suc n)) evt ctx = Some Run_out_of_bounds"
  using assms
  by (simp add: syscall_here_def ls_get32_Some SPU_LS_SIZE_def do_syscall_def Let_def spu_step_def SPU_LS_MASK_def
      ls_get32_def ls_get_def)

end
