(* ===== verification/SpuSimd.thy ===== *)
theory SpuSimd
  imports SpuHelpers
begin

text \<open>
  The SSE versions of the SPU instruction helpers against their byte loops, and the insertion
  controls with the shuffle that uses them.
\<close>

section \<open>Elements of bytewise operations\<close>

lemma lane_and: "lane (a AND b) i = (lane a i AND lane b i :: 'a::len word)"
  by (rule bit_word_eqI) (simp add: bit_lane bit_simps)

lemma lane_or: "lane (a OR b) i = (lane a i OR lane b i :: 'a::len word)"
  by (rule bit_word_eqI) (simp add: bit_lane bit_simps)

lemma lane_xor: "lane (a XOR b) i = (lane a i XOR lane b i :: 'a::len word)"
  by (rule bit_word_eqI) (simp add: bit_lane bit_simps)

lemmas mm_defs = mm_setr_epi8_def mm_set1_epi8_def mm_and_si128_def mm_or_si128_def mm_xor_si128_def
  mm_add_epi8_def mm_sub_epi8_def mm_cmpgt_epi8_def mm_shuffle_epi8_def mm_blendv_epi8_def Let_def
  lane_and lane_or lane_xor

text \<open>Byte \<open>i\<close> of a halfword view.\<close>

lemma bit_lane8_lanes16:
  fixes f :: "nat \<Rightarrow> u16"
  assumes "i < 16" "n < 8"
  shows "bit (lane (lanes f) i :: u8) n \<longleftrightarrow> bit (f (i div 2)) (8 * (i mod 2) + n)"
proof -
  have "8 * i + n = 16 * (i div 2) + (8 * (i mod 2) + n)" using mult_div_mod_eq [of 2 i] by linarith
  moreover have "8 * (i mod 2) + n < 16" using assms by (cases "even i") (auto simp: mod_2_eq_odd)
  ultimately have "(8 * i + n) div 16 = i div 2" "(8 * i + n) mod 16 = 8 * (i mod 2) + n"
    by (simp_all only: mod_mult_self4 div_mult_self4 mod_less div_less)
  then show ?thesis using assms by (simp add: bit_lane bit_lanes)
qed

lemma bit_lane16_of_8: "n < 8 \<Longrightarrow> bit (lane v (i div 2) :: u16) (8 * (i mod 2) + n) = bit (lane v i :: u8) n"
proof -
  assume n: "n < 8"
  have "16 * (i div 2) + (8 * (i mod 2) + n) = 8 * i + n" using mult_div_mod_eq [of 2 i] by linarith
  moreover have "8 * (i mod 2) + n < 16" using n by (cases "even i") (auto simp: mod_2_eq_odd)
  ultimately show ?thesis using n by (simp add: bit_lane add.assoc [symmetric])
qed

lemma slli_top_bit: "i < 16 \<Longrightarrow> bit (lane (mm_slli_epi16 c 3) i :: u8) 7 \<longleftrightarrow> bit (lane c i :: u8) 4"
  using bit_lane8_lanes16 [of i 7 "\<lambda>i. push_bit 3 (lane c i)"] bit_lane16_of_8 [of 4 c i]
  by (cases "even i") (auto simp: mm_slli_epi16_def bit_simps mod_2_eq_odd)

lemma srli_nibble: "i < 16 \<Longrightarrow> lane (mm_srli_epi16 c 4) i AND 0x0F = (drop_bit 4 (lane c i) :: u8)"
proof (rule bit_word_eqI)
  fix n
  assume i: "i < 16" and "n < LENGTH(8)"
  have "(0x0F :: u8) = mask 4" by (simp add: mask_eq_exp_minus_1)
  moreover have "bit (mask 4 :: u8) n \<longleftrightarrow> n < 4" by (auto simp: bit_mask_iff)
  ultimately have m: "bit (0x0F :: u8) n \<longleftrightarrow> n < 4" by (simp only:)
  show "bit (lane (mm_srli_epi16 c 4) i AND 0x0F :: u8) n = bit (drop_bit 4 (lane c i) :: u8) n"
  proof (cases "n < 4")
    case True
    then show ?thesis
      using bit_lane8_lanes16 [of i n "\<lambda>i. drop_bit 4 (lane c i)"] bit_lane16_of_8 [of "4 + n" c i] i m
      by (cases "even i") (auto simp: mm_srli_epi16_def bit_simps mod_2_eq_odd algebra_simps)
  next
    case False
    then show ?thesis using m by (auto simp: bit_simps dest: bit_imp_le_length)
  qed
qed

section \<open>The shuffle\<close>

lemma u8_eq_bits: "(v :: u8) = w \<longleftrightarrow> (bit v 0 = bit w 0 \<and> bit v 1 = bit w 1 \<and> bit v 2 = bit w 2 \<and> bit v 3 = bit w 3 \<and>
   bit v 4 = bit w 4 \<and> bit v 5 = bit w 5 \<and> bit v 6 = bit w 6 \<and> bit v 7 = bit w 7)"
proof
  assume eq: "bit v 0 = bit w 0 \<and> bit v 1 = bit w 1 \<and> bit v 2 = bit w 2 \<and> bit v 3 = bit w 3 \<and>
   bit v 4 = bit w 4 \<and> bit v 5 = bit w 5 \<and> bit v 6 = bit w 6 \<and> bit v 7 = bit w 7"
  show "v = w"
  proof (rule bit_word_eqI)
    fix n
    assume "n < LENGTH(8)"
    then have "n = 0 \<or> n = 1 \<or> n = 2 \<or> n = 3 \<or> n = 4 \<or> n = 5 \<or> n = 6 \<or> n = 7" by auto
    then show "bit v n = bit w n" using eq by auto
  qed
qed simp

lemma shufb_special:
  "(s :: u8) AND 0xE0 = 0xE0 \<longleftrightarrow> bit s 7 \<and> bit s 6 \<and> bit s 5"
  "s AND 0xC0 = 0xC0 \<longleftrightarrow> bit s 7 \<and> bit s 6"
  "s AND 0xC0 = 0x80 \<longleftrightarrow> bit s 7 \<and> \<not> bit s 6"
  by (auto simp: u8_eq_bits bit_and_iff)

lemma high_nibble:
  "bit (s :: u8) 7 \<Longrightarrow> drop_bit 4 s = 8 + (if bit s 6 then 4 else 0) + (if bit s 5 then 2 else 0) + (if bit s 4 then 1 else 0)"
  by (auto simp: u8_eq_bits bit_drop_bit_eq dest: bit_imp_le_length)

lemma shufb_lut:
  "bit (s :: u8) 7 \<Longrightarrow>
   [0, 0, 0, 0, 0, 0, 0, 0, 0, 0, 0, 0, 0xFF, 0xFF, 0x80, 0x80] ! unat (drop_bit 4 s) =
   (if s AND 0xE0 = 0xE0 then 0x80 else if s AND 0xC0 = 0xC0 then 0xFF else 0x00 :: u8)"
  by (simp add: high_nibble shufb_special)

lemma less_16_cases: "m < 16 \<Longrightarrow> m = 0 \<or> m = 1 \<or> m = 2 \<or> m = 3 \<or> m = 4 \<or> m = 5 \<or> m = 6 \<or> m = 7 \<or> m = 8 \<or>
    m = 9 \<or> m = 10 \<or> m = 11 \<or> m = 12 \<or> m = 13 \<or> m = 14 \<or> m = (15 :: nat)"
  by presburger

lemma unat_and_15: "unat ((k :: u8) AND 15) < 16"
proof -
  have "k AND 15 = take_bit 4 k" by (simp add: take_bit_eq_mask mask_eq_exp_minus_1)
  then show ?thesis by (simp add: take_bit_eq_mod unat_mod)
qed

lemma SPU_W_xor: "m < 16 \<Longrightarrow> of_nat (SPU_W m) = (of_nat m :: u8) XOR 3"
  by (drule less_16_cases) (elim disjE; simp add: SPU_W_def)

lemma SPU_W_xor_nat: "m < 16 \<Longrightarrow> unat ((of_nat m :: u8) XOR 3) = SPU_W m"
  using SPU_W_less [of m] by (simp add: unat_of_nat take_bit_nat_eq_self flip: SPU_W_xor)

lemma unat_xor_3: "unat (((k :: u8) AND 15) XOR 3) = SPU_W (unat (k AND 15))"
  using SPU_W_xor_nat [OF unat_and_15 [of k]] by simp

lemma and_31_split: "unat ((k :: u8) AND 31) = (if bit k 4 then 16 else 0) + unat (k AND 15)"
proof -
  have "k AND 31 = (if bit k 4 then 16 else 0) OR (k AND 15)"
    by (auto simp: u8_eq_bits bit_and_iff bit_or_iff)
  moreover have "(16 :: u8) OR (k AND 15) = 16 + (k AND 15)"
    by (rule disjunctive_add_eq_or [symmetric]) (auto simp: u8_eq_bits bit_and_iff)
  ultimately show ?thesis using unat_and_15 [of k] by (simp add: unat_word_ariths)
qed

lemma shuffle_xor3:
  "i < 16 \<Longrightarrow> lane (mm_shuffle_epi8 a (mm_xor_si128 (mm_and_si128 c (mm_set1_epi8 0x0F)) (mm_set1_epi8 0x03))) i =
     gbyte a (unat (lane c i AND 15 :: u8))"
proof -
  assume i: "i < 16"
  let ?k = "lane c i :: u8"
  have "\<not> bit ((?k AND 15) XOR 3) 7" by (simp add: bit_xor_iff bit_and_iff)
  moreover have "((?k AND 15) XOR 3) AND 15 = (?k AND 15) XOR 3" by (auto simp: u8_eq_bits bit_and_iff bit_xor_iff)
  ultimately show ?thesis using i by (simp add: mm_defs gbyte_def unat_xor_3)
qed

lemma lane_blendv: "i < 16 \<Longrightarrow> lane (mm_blendv_epi8 a b m) i = (if bit (lane m i :: u8) 7 then lane b i else lane a i :: u8)"
  by (simp add: mm_blendv_epi8_def)

lemma shufb_sse_exact: "spu_shufb a b c = spu_shufb_ref a b c"
proof (rule gbyte_eqI)
  fix t :: nat
  assume t: "t < 16"
  let ?j = "SPU_W t"
  have j: "?j < 16" using t by (rule SPU_W_less)
  let ?s = "lane c ?j :: u8"
  have n: "\<not> bit (drop_bit 4 ?s) 7" by (auto simp: bit_drop_bit_eq dest: bit_imp_le_length)
  have nib: "drop_bit 4 ?s AND 15 = drop_bit 4 ?s" by (auto simp: u8_eq_bits bit_and_iff bit_drop_bit_eq dest: bit_imp_le_length)
  have lut: "lane (mm_shuffle_epi8 (mm_setr_epi8 [0, 0, 0, 0, 0, 0, 0, 0, 0, 0, 0, 0, 0xFF, 0xFF, 0x80, 0x80])
      (mm_and_si128 (mm_srli_epi16 c 4) (mm_set1_epi8 0x0F))) ?j =
      [0 :: u8, 0, 0, 0, 0, 0, 0, 0, 0, 0, 0, 0, 0xFF, 0xFF, 0x80, 0x80] ! unat (drop_bit 4 ?s)"
    using j n nib srli_nibble [OF j, of c] unat_and_15 [of "drop_bit 4 ?s"] by (simp add: mm_defs)
  have "lane (spu_shufb a b c) ?j =
      (if bit ?s 7 then [0 :: u8, 0, 0, 0, 0, 0, 0, 0, 0, 0, 0, 0, 0xFF, 0xFF, 0x80, 0x80] ! unat (drop_bit 4 ?s)
       else if bit ?s 4 then gbyte b (unat (?s AND 15)) else gbyte a (unat (?s AND 15)))"
    using j lut slli_top_bit [OF j, of c] shuffle_xor3 [OF j, of a c] shuffle_xor3 [OF j, of b c]
    by (simp add: spu_shufb_def Let_def lane_blendv)
  moreover have "(map (gbyte a) [0..<16] @ map (gbyte b) [0..<16]) ! unat (?s AND 31) =
      (if bit ?s 4 then gbyte b (unat (?s AND 15)) else gbyte a (unat (?s AND 15)))"
    using unat_and_15 [of ?s] by (simp add: and_31_split nth_append)
  ultimately show "gbyte (spu_shufb a b c) t = gbyte (spu_shufb_ref a b c) t"
    using t shufb_lut [of ?s] by (simp add: spu_shufb_ref_def Let_def gbyte_def [of c] gbyte_def [of "spu_shufb a b c"] shufb_special)
qed

section \<open>Byte shifts and rotates of the quadword\<close>

lemma unat_u8: "n < 256 \<Longrightarrow> unat (of_nat n :: u8) = n"
  by (simp add: unat_of_nat take_bit_nat_eq_self)

lemma lane_jx3: "i < 16 \<Longrightarrow> lane spu_qb_jx3 i = (of_nat (SPU_W i) :: u8)"
  by (drule less_16_cases) (elim disjE; simp add: spu_qb_jx3_def mm_setr_epi8_def SPU_W_def)

lemma gbyte_shuf:
  "i < 16 \<Longrightarrow> gbyte (spu_qb_shuf a idx) i =
     (let k = gbyte idx i in if bit k 7 then 0 else lane a (unat (k AND 15)))"
  by (simp add: gbyte_def spu_qb_shuf_def mm_shuffle_epi8_def Let_def SPU_W_less)

lemma gbyte_jx3: "i < 16 \<Longrightarrow> gbyte spu_qb_jx3 i = of_nat i"
  by (simp add: gbyte_def lane_jx3 SPU_W_less)

lemma gbyte_mm:
  assumes "i < 16"
  shows "gbyte (mm_add_epi8 v w) i = gbyte v i + gbyte w i" "gbyte (mm_sub_epi8 v w) i = gbyte v i - gbyte w i"
    "gbyte (mm_and_si128 v w) i = gbyte v i AND gbyte w i" "gbyte (mm_or_si128 v w) i = gbyte v i OR gbyte w i"
    "gbyte (mm_xor_si128 v w) i = gbyte v i XOR gbyte w i" "gbyte (mm_set1_epi8 b) i = b"
    "gbyte (mm_cmpgt_epi8 v w) i = (if sint (gbyte v i) > sint (gbyte w i) then 0xFF else 0)"
  using assms by (simp_all add: gbyte_def mm_defs SPU_W_less)

lemma low_nibble: "unat ((of_nat n :: u8) AND 15) = n mod 16"
proof -
  have "(of_nat n :: u8) AND 15 = take_bit 4 (of_nat n)" by (simp add: take_bit_eq_mask mask_eq_exp_minus_1)
  also have "\<dots> = of_nat (take_bit 4 n)" by (simp only: take_bit_of_nat)
  finally show ?thesis by (simp add: unat_u8 take_bit_eq_mod)
qed

lemma and_15_u8: "m < 16 \<Longrightarrow> (of_nat m :: u8) AND 15 = of_nat m"
  by (rule word_unat_eq_iff [THEN iffD2]) (simp add: low_nibble unat_u8)

lemma xor_3_u8: "m < 16 \<Longrightarrow> \<not> bit ((of_nat m :: u8) XOR 3) 7 \<and> unat (((of_nat m :: u8) XOR 3) AND 15) = SPU_W m"
proof -
  assume m: "m < 16"
  have "SPU_W m < 16" using m by (rule SPU_W_less)
  moreover have "\<not> bit (of_nat n :: u8) 7" if "n < 16" for n
    using less_16_cases [OF that] by (elim disjE) simp_all
  ultimately show ?thesis using m by (simp add: and_15_u8 unat_u8 flip: SPU_W_xor)
qed

lemma qb_rot_exact: "sh < 16 \<Longrightarrow> spu_qb_rot a sh = qb_rot_ref a sh"
proof (rule gbyte_eqI)
  fix i :: nat
  assume i: "i < 16" and "sh < 16"
  let ?k = "of_nat i + of_nat sh :: u8"
  have k: "unat (?k AND 15) = (i + sh) mod 16" using low_nibble [of "i + sh"] by simp
  have "?k AND 15 = of_nat ((i + sh) mod 16)" by (rule word_unat_eq_iff [THEN iffD2]) (simp add: k unat_u8)
  then show "gbyte (spu_qb_rot a sh) i = gbyte (qb_rot_ref a sh) i"
    using i xor_3_u8 [of "(i + sh) mod 16"]
    by (simp add: spu_qb_rot_def qb_rot_ref_def gbyte_shuf gbyte_mm gbyte_jx3 Let_def gbyte_def [of a])
qed

lemma qb_shl_exact: "sh < 32 \<Longrightarrow> spu_qb_shl a sh = qb_shl_ref a sh"
proof (rule gbyte_eqI)
  fix i :: nat
  assume i: "i < 16" and sh: "sh < 32"
  let ?k = "of_nat (i + sh) :: u8"
  have "sint ?k = int (i + sh)" using i sh by (simp add: signed_of_nat signed_take_bit_int_eq_self_iff del: of_nat_add)
  then have gt: "sint ?k > sint (15 :: u8) \<longleftrightarrow> \<not> i + sh < 16" by auto
  show "gbyte (spu_qb_shl a sh) i = gbyte (qb_shl_ref a sh) i"
  proof (cases "i + sh < 16")
    case True
    then show ?thesis using i gt xor_3_u8 [of "i + sh"]
      by (simp add: spu_qb_shl_def qb_shl_ref_def gbyte_shuf gbyte_mm gbyte_jx3 Let_def gbyte_def [of a])
  next
    case False
    then show ?thesis using i gt
      by (simp add: spu_qb_shl_def qb_shl_ref_def gbyte_shuf gbyte_mm gbyte_jx3 Let_def bit_or_iff)
  qed
qed

lemma qb_shr_exact: "sh < 32 \<Longrightarrow> spu_qb_shr a sh = qb_shr_ref a sh"
proof (rule gbyte_eqI)
  fix i :: nat
  assume i: "i < 16" and sh: "sh < 32"
  show "gbyte (spu_qb_shr a sh) i = gbyte (qb_shr_ref a sh) i"
  proof (cases "sh \<le> i")
    case True
    then have "(of_nat i :: u8) - of_nat sh = of_nat (i - sh)" by (simp add: of_nat_diff)
    then show ?thesis using i True xor_3_u8 [of "i - sh"]
      by (simp add: spu_qb_shr_def qb_shr_ref_def gbyte_shuf gbyte_mm gbyte_jx3 Let_def gbyte_def [of a])
  next
    case False
    have "(of_nat i :: u8) - of_nat sh = of_nat (256 + i - sh)"
    proof -
      have "(of_nat (256 + i - sh) :: u8) = of_nat (256 + i) - of_nat sh" using sh by (intro of_nat_diff) simp
      then show ?thesis by simp
    qed
    moreover have "bit (of_nat (256 + i - sh) :: u8) 7"
    proof -
      have "128 \<le> 256 + i - sh" "256 + i - sh < 256" using False sh by auto
      then have "(256 + i - sh) div 128 = 1" by (intro div_nat_eqI) auto
      moreover have "unat (of_nat (256 + i - sh) :: u8) = 256 + i - sh" by (rule unat_u8) (use False in simp)
      ultimately have "bit (unat (of_nat (256 + i - sh) :: u8)) 7" by (simp only: bit_iff_odd) simp
      then show ?thesis by (simp add: bit_unsigned_iff)
    qed
    ultimately show ?thesis using i False
      by (simp add: spu_qb_shr_def qb_shr_ref_def gbyte_shuf gbyte_mm gbyte_jx3 Let_def bit_xor_iff)
  qed
qed

section \<open>Insertion controls\<close>

lemma lane8_lanes:
  fixes f :: "nat \<Rightarrow> 'a::len word"
  assumes L: "LENGTH('a) = 8 * k" and d: "divides_128 TYPE('a word)" and i: "i < 16"
  shows "lane (lanes f) i = byte (i mod k) (f (i div k))"
proof (rule bit_word_eqI)
  fix n
  assume "n < LENGTH(8)"
  then have n: "n < 8" by simp
  have k: "0 < k" using L by (cases k) auto
  have "8 * i + n = 8 * k * (i div k) + (8 * (i mod k) + n)"
  proof -
    have "8 * i = 8 * (k * (i div k) + i mod k)" by simp
    then show ?thesis by (simp only: distrib_left mult.assoc add.assoc)
  qed
  moreover have "8 * (i mod k) + n < 8 * k"
  proof -
    have "Suc (i mod k) \<le> k" using mod_less_divisor [OF k, of i] by simp
    then have "8 * Suc (i mod k) \<le> 8 * k" by (intro mult_le_mono2)
    then show ?thesis using n by simp
  qed
  ultimately have "(8 * i + n) div (8 * k) = i div k" "(8 * i + n) mod (8 * k) = 8 * (i mod k) + n"
    using k by (simp_all only: mod_mult_self4 div_mult_self4 mod_less div_less)
  then show "bit (lane (lanes f) i :: u8) n = bit (byte (i mod k) (f (i div k))) n"
    using n i L d by (simp add: bit_lane bit_lanes bit_byte)
qed

lemma gbyte_lanes16: "t < 16 \<Longrightarrow> gbyte (lanes (f :: nat \<Rightarrow> u16)) t = byte (SPU_W t mod 2) (f (SPU_W t div 2))"
  unfolding gbyte_def by (rule lane8_lanes) (simp_all add: SPU_W_less)

lemma gbyte_lanes32: "t < 16 \<Longrightarrow> gbyte (lanes (f :: nat \<Rightarrow> u32)) t = byte (SPU_W t mod 4) (f (SPU_W t div 4))"
  unfolding gbyte_def by (rule lane8_lanes) (simp_all add: SPU_W_less)

lemma gbyte_lanes64: "t < 16 \<Longrightarrow> gbyte (lanes (f :: nat \<Rightarrow> u64)) t = byte (SPU_W t mod 8) (f (SPU_W t div 8))"
  unfolding gbyte_def by (rule lane8_lanes) (simp_all add: SPU_W_less)

lemma gbyte_lanes8: "t < 16 \<Longrightarrow> gbyte (lanes f) t = f (SPU_W t)"
  by (simp add: gbyte_def SPU_W_less)

lemma gbyte_c_blend:
  assumes "t < 16"
  shows "gbyte (spu_c_blend ins sel) t = (if bit (gbyte sel t) 7 then gbyte ins t else 0x10 + of_nat t)"
proof -
  have "gbyte spu_c_base t = 0x10 + of_nat t"
    using less_16_cases [OF assms]
    by (elim disjE) (simp_all add: spu_c_base_def mm_setr_epi8_def gbyte_def SPU_W_def)
  then show ?thesis
    using assms by (simp add: spu_c_blend_def mm_blendv_epi8_def gbyte_lanes8) (simp add: gbyte_def)
qed

lemma bit_byte_all: "j < LENGTH('a) div 8 \<Longrightarrow> bit (byte j (if c then - 1 else 0 :: 'a::len word)) 7 \<longleftrightarrow> c"
  by (auto simp: bit_byte bit_simps)

text \<open>The low four bits of a position.\<close>

lemma pos_low:
  fixes pos :: u32
  obtains m where "m < 16" "pos AND 0xF = of_nat m" "unat (pos AND 0xF) = m"
proof -
  have "pos AND 0xF = take_bit 4 pos" by (simp add: take_bit_eq_mask mask_eq_exp_minus_1)
  then have "unat (pos AND 0xF) < 16" by (simp add: take_bit_eq_mod unat_mod)
  then show thesis using that [of "unat (pos AND 0xF)"] by simp
qed

lemma in_block: "0 < n \<Longrightarrow> (m div n * n \<le> t \<and> t < m div n * n + n) \<longleftrightarrow> t div n = (m div n :: nat)"
proof
  assume "0 < n" "m div n * n \<le> t \<and> t < m div n * n + n"
  then show "t div n = m div n" by (intro div_nat_eqI) (auto simp: mult.commute)
next
  assume n: "0 < n" and eq: "t div n = m div n"
  show "m div n * n \<le> t \<and> t < m div n * n + n"
    using div_times_less_eq_dividend [of t n] dividend_less_div_times [OF n, of t] by (simp add: eq [symmetric])
qed

lemma in_block_diff: "t div n = m div n \<Longrightarrow> t - m div n * n = t mod (n :: nat)"
  by (metis minus_div_mult_eq_mod)

lemma gbyte_insert_ref:
  assumes "t < 16" "0 < n" "unat (pos AND 0xF) = m"
  shows "gbyte (insert_ref n k pos) t = (if t div n = m div n then of_nat (k + t mod n) else 0x10 + of_nat t)"
  using assms in_block [of n m t] in_block_diff [of t n m] by (auto simp: insert_ref_def Let_def)

lemma of_nat_u8_inj: "m < 256 \<Longrightarrow> n < 256 \<Longrightarrow> (of_nat m :: u8) = of_nat n \<longleftrightarrow> m = n"
  by (metis unat_u8)

lemma xor_cancel: "(a :: 'a::len word) XOR c = b XOR c \<longleftrightarrow> a = b"
  by (metis xor.assoc xor_self_eq xor.right_neutral)

lemma cbd_exact: "spu_cbd_pos pos = spu_cbd_ref pos"
proof (rule gbyte_eqI)
  fix t :: nat
  assume t: "t < 16"
  obtain m where m: "m < 16" "pos AND 0xF = of_nat m" "unat (pos AND 0xF) = m" by (rule pos_low)
  have "mm_setr_epi8 [0, 1, 2, 3, 4, 5, 6, 7, 8, 9, 10, 11, 12, 13, 14, 15] = lanes (\<lambda>i. of_nat i :: u8)"
    unfolding mm_setr_epi8_def by (rule lanes_cong) (drule less_16_cases [simplified] | simp | elim disjE)+
  moreover have "ucast (of_nat m XOR 3 :: u32) = (of_nat m :: u8) XOR 3"
    using less_16_cases [OF m(1)] by (elim disjE) simp_all
  moreover have "(of_nat t XOR 3 :: u8) = of_nat m XOR 3 \<longleftrightarrow> t = m"
    using t m(1) by (simp add: xor_cancel of_nat_u8_inj)
  ultimately show "gbyte (spu_cbd_pos pos) t = gbyte (spu_cbd_ref pos) t"
    using t m SPU_W_less [OF t]
    by (simp add: spu_cbd_pos_def Let_def gbyte_c_blend mm_cmpeq_epi8_def mm_set1_epi8_def gbyte_lanes8
        SPU_W_xor spu_cbd_ref_def gbyte_insert_ref)
qed

lemma of_nat_small_inj: "m < 256 \<Longrightarrow> n < 256 \<Longrightarrow> 8 \<le> LENGTH('a) \<Longrightarrow> (of_nat m :: 'a::len word) = of_nat n \<longleftrightarrow> m = n"
  using power_increasing [of 8 "LENGTH('a)" "2 :: nat"] by (simp add: word_of_nat_eq_iff take_bit_nat_eq_self)

lemma chd_exact: "spu_chd_pos pos = spu_chd_ref pos"
proof (rule gbyte_eqI)
  fix t :: nat
  assume t: "t < 16"
  obtain m where m: "m < 16" "pos AND 0xF = of_nat m" "unat (pos AND 0xF) = m" by (rule pos_low)
  have "of_nat (SPU_W t div 2) = (of_nat (t div 2) :: u16) XOR 1 \<and> byte (SPU_W t mod 2) (0x0203 :: u16) = 2 + of_nat (t mod 2)"
    using less_16_cases [OF t] by (elim disjE) (simp_all add: SPU_W_def byte_def)
  moreover have "ucast (drop_bit 1 (of_nat m :: u32) XOR 1) = (of_nat (m div 2) :: u16) XOR 1"
    using less_16_cases [OF m(1)] by (elim disjE) simp_all
  moreover have "(of_nat (t div 2) :: u16) = of_nat (m div 2) \<longleftrightarrow> t div 2 = m div 2"
    using t m(1) by (intro of_nat_small_inj) simp_all
  ultimately show "gbyte (spu_chd_pos pos) t = gbyte (spu_chd_ref pos) t"
    using t m SPU_W_less [OF t]
    by (simp add: spu_chd_pos_def Let_def gbyte_c_blend mm_cmpeq_epi16_def gbyte_lanes16 bit_byte_all
        xor_cancel spu_chd_ref_def gbyte_insert_ref)
qed

lemma cwd_exact: "spu_cwd_pos pos = spu_cwd_ref pos"
proof (rule gbyte_eqI)
  fix t :: nat
  assume t: "t < 16"
  obtain m where m: "m < 16" "pos AND 0xF = of_nat m" "unat (pos AND 0xF) = m" by (rule pos_low)
  have "SPU_W t div 4 = t div 4 \<and> byte (SPU_W t mod 4) (0x00010203 :: u32) = of_nat (t mod 4)"
    using less_16_cases [OF t] by (elim disjE) (simp_all add: SPU_W_def byte_def)
  moreover have "drop_bit 2 (of_nat m :: u32) = of_nat (m div 4)"
    using less_16_cases [OF m(1)] by (elim disjE) simp_all
  moreover have "(of_nat (t div 4) :: u32) = of_nat (m div 4) \<longleftrightarrow> t div 4 = m div 4"
    using t m(1) by (intro of_nat_small_inj) simp_all
  ultimately show "gbyte (spu_cwd_pos pos) t = gbyte (spu_cwd_ref pos) t"
    using t m SPU_W_less [OF t]
    by (simp add: spu_cwd_pos_def Let_def gbyte_c_blend mm_cmpeq_epi32_def gbyte_lanes32 bit_byte_all
        spu_cwd_ref_def gbyte_insert_ref)
qed

lemma cdd_exact: "spu_cdd_pos pos = spu_cdd_ref pos"
proof (rule gbyte_eqI)
  fix t :: nat
  assume t: "t < 16"
  obtain m where m: "m < 16" "pos AND 0xF = of_nat m" "unat (pos AND 0xF) = m" by (rule pos_low)
  have "SPU_W t div 8 = t div 8 \<and> byte (SPU_W t mod 8) (0x0405060700010203 :: u64) = of_nat (t mod 8)"
    using less_16_cases [OF t] by (elim disjE) (simp_all add: SPU_W_def byte_def)
  moreover have "ucast (drop_bit 3 (of_nat m :: u32)) = (of_nat (m div 8) :: u64)"
    using less_16_cases [OF m(1)] by (elim disjE) simp_all
  moreover have "(of_nat (t div 8) :: u64) = of_nat (m div 8) \<longleftrightarrow> t div 8 = m div 8"
    using t m(1) by (intro of_nat_small_inj) simp_all
  ultimately show "gbyte (spu_cdd_pos pos) t = gbyte (spu_cdd_ref pos) t"
    using t m SPU_W_less [OF t]
    by (simp add: spu_cdd_pos_def Let_def gbyte_c_blend mm_cmpeq_epi64_def gbyte_lanes64 bit_byte_all
        spu_cdd_ref_def gbyte_insert_ref)
qed

text \<open>
  C22. The SSE versions of the helpers compute what the byte loops compute, for every operand:
  the shuffle, the byte shifts and rotates of the quadword and the four insertion controls.
\<close>

theorem sse_matches_loops:
  "spu_shufb a b c = spu_shufb_ref a b c \<and>
   (sh < 16 \<longrightarrow> spu_qb_rot a sh = qb_rot_ref a sh) \<and>
   (sh < 32 \<longrightarrow> spu_qb_shl a sh = qb_shl_ref a sh \<and> spu_qb_shr a sh = qb_shr_ref a sh) \<and>
   spu_cbd_pos pos = spu_cbd_ref pos \<and> spu_chd_pos pos = spu_chd_ref pos \<and>
   spu_cwd_pos pos = spu_cwd_ref pos \<and> spu_cdd_pos pos = spu_cdd_ref pos"
  by (simp add: shufb_sse_exact qb_rot_exact qb_shl_exact qb_shr_exact cbd_exact chd_exact cwd_exact cdd_exact)

theorem sse_matches_loops_witness:
  "spu_qb_rot 1 5 = qb_rot_ref 1 5 \<and> spu_qb_shl 1 5 = qb_shl_ref 1 5 \<and> spu_qb_shr 1 5 = qb_shr_ref 1 5"
  using sse_matches_loops [of 1 0 0 5 0] by simp

text \<open>Storing a scalar: an insertion control makes the shuffle replace one element of a quadword.\<close>

lemma gbyte_shufb_insert:
  assumes t: "t < 16" and n: "0 < n" "n + k \<le> 16" and pos: "unat (pos AND 0xF) = m"
  shows "gbyte (spu_shufb s q (insert_ref n k pos)) t =
    (if t div n = m div n then gbyte s (k + t mod n) else gbyte q t)"
proof -
  define x where "x = (if t div n = m div n then k + t mod n else 16 + t)"
  have r: "t mod n < n" using n(1) by simp
  have x: "x < 32" using t r n(2) by (auto simp: x_def)
  have sel: "gbyte (insert_ref n k pos) t = of_nat x"
    using gbyte_insert_ref [OF t n(1) pos, of k] by (simp add: x_def)
  have "unat (of_nat x AND 0x1F :: u8) = x"
  proof -
    have "(of_nat x AND 0x1F :: u8) = take_bit 5 (of_nat x)" by (simp add: take_bit_eq_mask mask_eq_exp_minus_1)
    also have "\<dots> = of_nat (take_bit 5 x)" by (simp only: take_bit_of_nat)
    finally show ?thesis using x by (simp add: unat_u8 take_bit_nat_eq_self)
  qed
  moreover have "\<not> bit (of_nat x :: u8) 7"
  proof -
    have "\<not> bit (unat (of_nat x :: u8)) 7" using x by (simp add: unat_u8 bit_iff_odd)
    then show ?thesis by (simp add: bit_unsigned_iff)
  qed
  ultimately have "gbyte (spu_shufb s q (insert_ref n k pos)) t =
      (map (gbyte s) [0..<16] @ map (gbyte q) [0..<16]) ! x"
    using t sel by (simp add: shufb_sse_exact spu_shufb_ref_def Let_def shufb_special)
  also have "\<dots> = (if t div n = m div n then gbyte s (k + t mod n) else gbyte q t)"
    using t r n(2) by (auto simp: x_def nth_append)
  finally show ?thesis .
qed

text \<open>
  A scalar store inserts its element and nothing else: shuffling a register with a quadword
  through the control for an address replaces the byte, halfword, word or doubleword of the
  quadword that contains the address by the preferred element of the register (byte 3, bytes
  2 and 3, bytes 0 to 3, bytes 0 to 7) and keeps every other byte.
\<close>

theorem insertion_exact:
  assumes "t < 16" and "m = unat ((lane a 0 + of_int i7 :: u32) AND 0xF)"
  shows "gbyte (spu_shufb s q (spu_cbd a i7)) t = (if t = m then gbyte s 3 else gbyte q t) \<and>
    gbyte (spu_shufb s q (spu_chd a i7)) t = (if t div 2 = m div 2 then gbyte s (2 + t mod 2) else gbyte q t) \<and>
    gbyte (spu_shufb s q (spu_cwd a i7)) t = (if t div 4 = m div 4 then gbyte s (t mod 4) else gbyte q t) \<and>
    gbyte (spu_shufb s q (spu_cdd a i7)) t = (if t div 8 = m div 8 then gbyte s (t mod 8) else gbyte q t)"
  using gbyte_shufb_insert [OF assms(1) _ _ assms(2) [symmetric], of 1 3 s q]
    gbyte_shufb_insert [OF assms(1) _ _ assms(2) [symmetric], of 2 2 s q]
    gbyte_shufb_insert [OF assms(1) _ _ assms(2) [symmetric], of 4 0 s q]
    gbyte_shufb_insert [OF assms(1) _ _ assms(2) [symmetric], of 8 0 s q]
  by (simp add: spu_cbd_def spu_chd_def spu_cwd_def spu_cdd_def cbd_exact chd_exact cwd_exact cdd_exact
      spu_cbd_ref_def spu_chd_ref_def spu_cwd_ref_def spu_cdd_ref_def)

theorem insertion_exact_witness:
  "gbyte (spu_shufb 7 9 (spu_cwd 0 5)) 6 = gbyte 7 2 \<and> gbyte (spu_shufb 7 9 (spu_cwd 0 5)) 2 = gbyte 9 2"
  using insertion_exact [of 6 5 0 5 7 9] insertion_exact [of 2 5 0 5 7 9] by (simp add: lane_def)

end
