(* ===== verification/SpuQuad.thy ===== *)
theory SpuQuad
  imports SpuSimd
begin

text \<open>
  The quadword as a number: the shift instructions shift and rotate one 128-bit value, the carry
  instructions add, and gathering bits undoes forming a mask.
\<close>

section \<open>Shifts of the quadword as one number\<close>

lemma bit_hi64: "bit (hi64 a) n \<longleftrightarrow> n < 64 \<and> bit (quad a) (64 + n)"
proof (cases "n < 32")
  case True
  then have "(64 + n) div 32 = 2" "(64 + n) mod 32 = n" by (auto simp: div_nat_eqI mod_nat_eqI)
  then show ?thesis using True by (auto simp: hi64_def bit_simps bit_lane bit_quad)
next
  case False
  show ?thesis
  proof (cases "n < 64")
    case True
    with False have "(64 + n) div 32 = 3" "(64 + n) mod 32 = n - 32" by (auto simp: div_nat_eqI mod_nat_eqI)
    then show ?thesis using True False by (auto simp: hi64_def bit_simps bit_lane bit_quad)
  qed (auto dest: bit_imp_le_length)
qed

lemma bit_lo64: "bit (lo64 a) n \<longleftrightarrow> n < 64 \<and> bit (quad a) n"
proof (cases "n < 32")
  case True
  then show ?thesis by (auto simp: lo64_def bit_simps bit_lane bit_quad)
next
  case False
  show ?thesis
  proof (cases "n < 64")
    case True
    with False have "n div 32 = 1" "n mod 32 = n - 32" by (auto simp: div_nat_eqI mod_nat_eqI)
    then show ?thesis using True False by (auto simp: lo64_def bit_simps bit_lane bit_quad)
  qed (auto dest: bit_imp_le_length)
qed

lemma bit_from_halves: "bit (quad (from_halves h l)) n \<longleftrightarrow> (if n < 64 then bit l n else bit h (n - 64))"
proof -
  consider "n < 32" | "32 \<le> n" "n < 64" | "64 \<le> n" "n < 96" | "96 \<le> n" "n < 128" | "128 \<le> n" by linarith
  then show ?thesis
  proof cases
    case 2
    then have "n div 32 = 1" "n mod 32 = n - 32" by (auto simp: div_nat_eqI mod_nat_eqI)
    then show ?thesis using 2 by (auto simp: quad_def from_halves_def bit_lanes bit_simps)
  next
    case 3
    then have "n div 32 = 2" "n mod 32 = n - 64" by (auto simp: div_nat_eqI mod_nat_eqI)
    then show ?thesis using 3 by (auto simp: quad_def from_halves_def bit_lanes bit_simps)
  next
    case 4
    then have "n div 32 = 3" "n mod 32 = n - 96" by (auto simp: div_nat_eqI mod_nat_eqI)
    then show ?thesis using 4 by (auto simp: quad_def from_halves_def bit_lanes bit_simps)
  next
    case 5
    then show ?thesis by (auto dest: bit_imp_le_length)
  qed (simp add: quad_def from_halves_def bit_lanes bit_simps)
qed

lemma quad_q_shl:
  assumes "sh < 64"
  shows "quad (q_shl a sh) = push_bit sh (quad a)"
proof (cases "sh = 0")
  case False
  show ?thesis
    by (rule bit_word_eqI)
      (use assms False in \<open>auto simp: q_shl_def bit_from_halves bit_simps bit_hi64 bit_lo64\<close>)
qed (simp add: q_shl_def)

lemma quad_q_shr:
  assumes "sh < 64"
  shows "quad (q_shr a sh) = drop_bit sh (quad a)"
proof (cases "sh = 0")
  case False
  show ?thesis
    by (rule bit_word_eqI)
      (use assms False in \<open>auto simp: q_shr_def bit_from_halves bit_simps bit_hi64 bit_lo64 add.commute dest: bit_imp_le_length\<close>)
qed (simp add: q_shr_def)

lemma word_rotl_0: "word_rotl 0 w = (w :: 'a::len word)"
  by (rule bit_word_eqI) (simp add: bit_word_rotl_iff)

lemma word_rotl_word_rotl: "word_rotl m (word_rotl n w) = word_rotl (m + n) (w :: 'a::len word)"
  by (metis word_rot_gal word_rotr_word_rotr_eq add.commute)

lemma quad_q_rot:
  assumes "sh < 64"
  shows "quad (q_rot a sh) = word_rotl sh (quad a)"
proof (cases "sh = 0")
  case False
  show ?thesis
  proof (rule bit_word_eqI)
    fix n
    assume "n < LENGTH(128)"
    then have n: "n < 128" by simp
    have rot: "bit (word_rotl sh (quad a)) n = bit (quad a) (if n < sh then 128 + n - sh else n - sh)"
      using n assms by (auto simp: bit_word_rotl_iff le_mod_geq intro!: arg_cong [where f = "bit (quad a)"])
    show "bit (quad (q_rot a sh)) n = bit (word_rotl sh (quad a)) n"
      unfolding rot using assms False n
      by (auto simp: q_rot_def bit_from_halves bit_simps bit_hi64 bit_lo64 intro!: arg_cong [where f = "bit (quad a)"])
  qed
qed (simp add: q_rot_def word_rotl_0)

lemma quad_bytes_eqI:
  assumes "\<And>p. p < 16 \<Longrightarrow> gbyte v p = byte (15 - p) w"
  shows "quad v = w"
proof (rule word_bytes_eqI)
  fix k :: nat
  assume "8 * k < LENGTH(128)"
  then have "15 - k < 16" "15 - (15 - k) = k" by auto
  then show "byte k (quad v) = byte k w" using assms [of "15 - k"] gbyte_quad [of "15 - k" v] by simp
qed

lemma byte_push: "k < 16 \<Longrightarrow> byte k (push_bit (8 * sh) (w :: u128)) = (if sh \<le> k then byte (k - sh) w else 0)"
  by (rule bit_word_eqI) (auto simp: bit_byte bit_simps diff_mult_distrib2)

lemma byte_drop: "k < 16 \<Longrightarrow> byte k (drop_bit (8 * sh) (w :: u128)) = (if k + sh < 16 then byte (k + sh) w else 0)"
  by (rule bit_word_eqI) (auto simp: bit_byte bit_simps algebra_simps dest: bit_imp_le_length)

lemma quad_qb_shl: "sh < 32 \<Longrightarrow> quad (spu_qb_shl a sh) = push_bit (8 * sh) (quad a)"
  by (rule quad_bytes_eqI) (auto simp: qb_shl_exact qb_shl_ref_def byte_push gbyte_quad [of _ a])

lemma quad_qb_shr: "sh < 32 \<Longrightarrow> quad (spu_qb_shr a sh) = drop_bit (8 * sh) (quad a)"
  by (rule quad_bytes_eqI) (auto simp: qb_shr_exact qb_shr_ref_def byte_drop gbyte_quad [of _ a])

lemma quad_qb_rot:
  assumes "sh < 16"
  shows "quad (spu_qb_rot a sh) = word_rotl (8 * sh) (quad a)"
proof (rule quad_bytes_eqI)
  fix p :: nat
  assume p: "p < 16"
  define k where "k = 15 - (p + sh) mod 16"
  have k: "k < 16" by (simp add: k_def)
  have g: "gbyte (spu_qb_rot a sh) p = byte k (quad a)"
    using p assms by (simp add: qb_rot_exact qb_rot_ref_def gbyte_quad [of _ a] k_def)
  have idx: "(8 * (15 - p) + n + (128 - 8 * sh)) mod 128 = 8 * k + n" if "n < 8" for n
  proof (cases "p + sh < 16")
    case True
    then have "8 * (15 - p) + n + (128 - 8 * sh) = 128 + (8 * k + n)" using p assms by (simp add: k_def)
    moreover have "8 * k + n < 128" using k that by simp
    ultimately show ?thesis by (metis mod_add_self1 mod_less)
  next
    case False
    then have "(p + sh) mod 16 = p + sh - 16" using p assms by (simp add: le_mod_geq)
    then have "8 * (15 - p) + n + (128 - 8 * sh) = 8 * k + n" using False p assms by (simp add: k_def)
    moreover have "8 * k + n < 128" using k that by simp
    ultimately show ?thesis by simp
  qed
  have "byte k (quad a) = byte (15 - p) (word_rotl (8 * sh) (quad a))"
    by (rule bit_word_eqI) (use p idx assms in \<open>auto simp: bit_byte bit_word_rotl_iff\<close>)
  with g show "gbyte (spu_qb_rot a sh) p = byte (15 - p) (word_rotl (8 * sh) (quad a))" by simp
qed

lemma unat_and_mask: "unat ((x :: u32) AND mask k) = unat x mod 2 ^ k"
proof -
  have "x AND mask k = take_bit k x" by (simp add: take_bit_eq_mask)
  then show ?thesis by (simp only: unsigned_take_bit_eq) (simp add: take_bit_eq_mod)
qed

lemma u32_masks: "(7 :: u32) = mask 3" "(0x0F :: u32) = mask 4" "(0x1F :: u32) = mask 5" "(0x7F :: u32) = mask 7"
  "(0xFF :: u32) = mask 8"
  by (simp_all add: mask_eq_exp_minus_1)

lemma count_low: "unat ((x :: u32) AND 7) = unat x mod 8"
  by (simp only: u32_masks unat_and_mask) simp

lemma count_bytes: "unat (drop_bit 3 (x :: u32) AND 0x1F) = unat x div 8 mod 32"
proof -
  have "unat (drop_bit 3 x) = unat x div 8" by (simp add: drop_bit_eq_div unat_div)
  then show ?thesis by (simp only: u32_masks unat_and_mask) simp
qed

lemma count_bytes_rot: "unat (drop_bit 3 (x :: u32) AND 0x0F) = unat x div 8 mod 16"
proof -
  have "unat (drop_bit 3 x) = unat x div 8" by (simp add: drop_bit_eq_div unat_div)
  then show ?thesis by (simp only: u32_masks unat_and_mask) simp
qed


lemma push_split: "push_bit (c mod 8) (push_bit (8 * (c div 8 mod 32)) w) = push_bit (c mod 256) w"
proof -
  have "c mod 8 + 8 * (c div 8 mod 32) = c mod 256" using mod_mult2_eq [of c 8 32] by simp
  then show ?thesis by (simp only: push_bit_push_bit)
qed

lemma drop_split: "drop_bit (c mod 8) (drop_bit (8 * (c div 8 mod 32)) w) = drop_bit (c mod 256) w"
proof -
  have "c mod 8 + 8 * (c div 8 mod 32) = c mod 256" using mod_mult2_eq [of c 8 32] by simp
  then show ?thesis by (simp only: drop_bit_drop_bit)
qed

lemma rotl_split: "word_rotl (c mod 8) (word_rotl (8 * (c div 8 mod 16)) w) = word_rotl (c mod 128) w"
proof -
  have "c mod 8 + 8 * (c div 8 mod 16) = c mod 128" using mod_mult2_eq [of c 8 16] by simp
  then show ?thesis by (simp only: word_rotl_word_rotl)
qed


text \<open>The count \<^verbatim>\<open>7 - n\<close> of the right shift by bytes: shifted right arithmetically by 3 it is minus the number of bytes.\<close>

lemma neg_count_bytes:
  fixes x :: u32
  assumes "unat x < 2 ^ 31"
  shows "0 - signed_drop_bit 3 (7 - x) = drop_bit 3 x"
proof -
  define c where "c = int (unat x)"
  have x: "x = of_int c" "0 \<le> c" by (simp_all add: c_def)
  have lt: "c < 2 ^ 31" using of_nat_less_iff [where ?'a = int, THEN iffD2, OF assms] by (simp add: c_def)
  have "sint (of_int (7 - c) :: u32) = 7 - c"
    using x(2) lt by (subst signed_of_int) (simp add: signed_take_bit_int_eq_self_iff)
  then have "sint (7 - x) = 7 - c" by (simp add: x(1))
  then have "sint (signed_drop_bit 3 (7 - x)) = (7 - c) div 8"
    by (simp add: sint_signed_drop_bit_eq drop_bit_eq_div)
  also have "\<dots> = - (c div 8)"
    by (rule int_div_pos_eq [where r = "7 - c mod 8"]) (use mult_div_mod_eq [of 8 c] pos_mod_bound [of 8 c] in linarith)+
  finally have "signed_drop_bit 3 (7 - x) = of_int (- (c div 8))"
    using of_int_sint [of "signed_drop_bit 3 (7 - x)", where ?'a = "32 word"] by (simp only: scast_id)
  moreover have "drop_bit 3 x = of_int (c div 8)"
    by (simp add: drop_bit_eq_div word_div_def c_def)
  ultimately show ?thesis by simp
qed

text \<open>
  C30. The quadword is one 128-bit number to the shift instructions: the shift by the bytes of a
  count followed by the shift by its remaining bits shifts the number left by the count modulo
  256, the rotate pair rotates it by the count modulo 128, and the pair of right shifts with the
  counts \<^verbatim>\<open>7 - n\<close> and \<^verbatim>\<open>-n\<close> that the instruction set prescribes shifts it right
  by \<^verbatim>\<open>n\<close> modulo 256.
\<close>

theorem quadword_shifts:
  assumes "c = unat (lane b 0 :: u32)" and "c < 2 ^ 31"
  shows "quad (spu_shlqbi (spu_shlqbybi a b) b) = push_bit (c mod 256) (quad a) \<and>
    quad (spu_rotqbi (spu_rotqbybi a b) b) = word_rotl (c mod 128) (quad a) \<and>
    quad (spu_rotqmbi (spu_rotqmbybi a (spu_sfi b 7)) (spu_sfi b 0)) = drop_bit (c mod 256) (quad a)"
proof (intro conjI)
  let ?x = "lane b 0 :: u32"
  show "quad (spu_shlqbi (spu_shlqbybi a b) b) = push_bit (c mod 256) (quad a)"
    by (simp add: spu_shlqbi_def spu_shlqbybi_def count_low count_bytes quad_q_shl quad_qb_shl push_split assms(1)
        del: push_bit_push_bit)
  show "quad (spu_rotqbi (spu_rotqbybi a b) b) = word_rotl (c mod 128) (quad a)"
    by (simp add: spu_rotqbi_def spu_rotqbybi_def count_low count_bytes_rot quad_q_rot quad_qb_rot rotl_split assms(1))
  have "lane (spu_sfi b 7) 0 = 7 - ?x" "lane (spu_sfi b 0) 0 = 0 - ?x" by (simp_all add: spu_sfi_def)
  then show "quad (spu_rotqmbi (spu_rotqmbybi a (spu_sfi b 7)) (spu_sfi b 0)) = drop_bit (c mod 256) (quad a)"
    using neg_count_bytes [of ?x] assms
    by (simp add: spu_rotqmbi_def spu_rotqmbybi_def count_low count_bytes quad_q_shr quad_qb_shr drop_split del: drop_bit_drop_bit)
qed

theorem quadword_shifts_witness:
  "quad (spu_shlqbi (spu_shlqbybi 5 (spu_splat_u32 13)) (spu_splat_u32 13)) = push_bit 13 (quad 5)"
  using quadword_shifts [of 13 "spu_splat_u32 13" 5] by (simp add: spu_splat_u32_def)

section \<open>Arithmetic of the quadword with the carry instructions\<close>

lemma push_or_add: "push_bit 32 v OR ucast (w :: u32) = 2 ^ 32 * v + (ucast w :: u128)"
proof -
  have "push_bit 32 v AND ucast w = (0 :: u128)"
    by (rule bit_word_eqI) (auto simp: bit_simps dest: bit_imp_le_length)
  then have "push_bit 32 v OR ucast w = push_bit 32 v + (ucast w :: u128)" by (simp add: disjunctive_add_eq_or)
  then show ?thesis by (simp add: push_bit_eq_mult mult.commute)
qed

abbreviation word_of :: "u128 \<Rightarrow> nat \<Rightarrow> nat" where
  "word_of v i \<equiv> unat (lane v i :: u32)"

lemma quad_words:
  "quad v = of_nat (word_of v 3) + 2 ^ 32 * (of_nat (word_of v 2) + 2 ^ 32 * (of_nat (word_of v 1) + 2 ^ 32 * of_nat (word_of v 0)))"
proof -
  have "[0..<128 div LENGTH(32)] = [0, 1, 2, 3]" by (simp add: upt_rec)
  then have "quad v = 2 ^ 32 * (2 ^ 32 * (2 ^ 32 * ucast (lane v 0 :: u32) + ucast (lane v 1 :: u32)) + ucast (lane v 2 :: u32)) + ucast (lane v 3 :: u32)"
    by (simp add: quad_def lanes_def push_or_add [of _ "lane v k" for k])
  then show ?thesis by (simp add: add.commute)
qed

lemma lane_shlqbyi4: "i < 4 \<Longrightarrow> lane (spu_shlqbyi c 4) i = (if i < 3 then lane c (Suc i) else 0 :: u32)"
proof -
  assume i: "i < 4"
  have push: "lane (push_bit 32 q) j = (if j = 0 then 0 else lane q (j - 1) :: u32)" if "j < 4" for q and j
    by (rule bit_word_eqI) (use that in \<open>auto simp: bit_lane bit_simps diff_mult_distrib2\<close>)
  have quad: "lane (quad v) (3 - i) = (lane v i :: u32)" for v
    using i diff_diff_cancel [of i 3] by (simp add: quad_def)
  have "lane (spu_shlqbyi c 4) i = (lane (push_bit 32 (quad c)) (3 - i) :: u32)"
    by (simp add: spu_shlqbyi_def sh_mask_def quad_qb_shl flip: quad)
  also have "\<dots> = (if i < 3 then lane c (Suc i) else 0 :: u32)" using i by (auto simp: push quad_def)
  finally show ?thesis .
qed

lemma carry_out:
  fixes x y z :: u32
  assumes "unat z \<le> 1"
  shows "unat (ucast (drop_bit 32 (ucast z + ucast x + ucast y :: u64)) :: u32) = (unat x + unat y + unat z) div 2 ^ 32"
proof -
  have "unat x < 2 ^ 32" "unat y < 2 ^ 32" using unsigned_less [of x] unsigned_less [of y] by simp_all
  then have s: "unat x + unat y + unat z < 2 * 2 ^ 32" using assms by simp
  have "(ucast z + ucast x + ucast y :: u64) = of_nat (unat x + unat y + unat z)" by simp
  moreover have "unat (of_nat (unat x + unat y + unat z) :: u64) = unat x + unat y + unat z"
    using s by (simp only: unat_of_nat) (simp add: take_bit_nat_eq_self)
  ultimately have u: "unat (ucast z + ucast x + ucast y :: u64) = unat x + unat y + unat z" by (simp only:)
  have "(unat x + unat y + unat z) div 2 ^ 32 < 2" using s by (intro less_mult_imp_div_less) simp
  then show ?thesis
    unfolding unsigned_ucast_eq unat_drop_bit_eq u
    by (simp add: drop_bit_eq_div take_bit_nat_eq_self del: of_nat_add)
qed

lemma bit0_small: "unat (z :: u32) \<le> 1 \<Longrightarrow> z AND 1 = z"
proof -
  assume "unat z \<le> 1"
  then have "z = of_nat 0 \<or> z = of_nat 1" by (metis One_nat_def le_Suc_eq le_zero_eq of_nat_unat ucast_id)
  then show ?thesis by auto
qed


lemma carry_word:
  fixes x y z :: u32
  shows "of_nat (unat (x + y + z)) + 2 ^ 32 * of_nat ((unat x + unat y + unat z) div 2 ^ 32) =
    (of_nat (unat x) + of_nat (unat y) + of_nat (unat z) :: u128)"
proof -
  let ?n = "unat x + unat y + unat z"
  have "unat (x + y + z) = ?n mod 2 ^ 32" by (simp add: unat_word_ariths mod_simps)
  moreover have "?n mod 2 ^ 32 + 2 ^ 32 * (?n div 2 ^ 32) = ?n" by (rule mod_mult_div_eq)
  ultimately have "(of_nat (unat (x + y + z) + 2 ^ 32 * (?n div 2 ^ 32)) :: u128) = of_nat ?n" by (simp only:)
  then show ?thesis by (simp only: of_nat_add of_nat_mult of_nat_power of_nat_numeral)
qed

lemma carries_add:
  fixes M :: "'a::comm_ring_1"
  assumes "s3 + M * k3 = a3 + b3" "s2 + M * k2 = a2 + b2 + k3" "s1 + M * k1 = a1 + b1 + k2"
    "s0 + M * k0 = a0 + b0 + k1" "M * (M * (M * M)) = 0"
  shows "s3 + M * (s2 + M * (s1 + M * s0)) = a3 + M * (a2 + M * (a1 + M * a0)) + (b3 + M * (b2 + M * (b1 + M * b0)))"
proof -
  have "s3 = a3 + b3 - M * k3" "s2 = a2 + b2 + k3 - M * k2" "s1 = a1 + b1 + k2 - M * k1" "s0 = a0 + b0 + k1 - M * k0"
    using assms by (simp_all only: eq_diff_eq)
  moreover have "M * (M * (M * (M * k0))) = 0" using assms(5) by (metis mult.assoc mult_zero_left)
  ultimately show ?thesis by (simp only:) (simp add: algebra_simps)
qed

text \<open>One round of the carry chain on the words of the two numbers, \<open>carry a b i\<close> the carry out of word \<open>i\<close>.\<close>

function carry :: "u128 \<Rightarrow> u128 \<Rightarrow> nat \<Rightarrow> nat" where
  "carry a b i = (word_of a i + word_of b i + (if i < 3 then carry a b (Suc i) else 0)) div 2 ^ 32"
  by pat_completeness auto
termination
  by (relation "measure (\<lambda>(a, b, i). 3 - i)") auto

declare carry.simps [simp del]

lemma carry_le: "carry a b i \<le> 1"
proof (induction "3 - i" arbitrary: i)
  case 0
  have "word_of a i < 2 ^ 32" "word_of b i < 2 ^ 32"
    using unsigned_less [of "lane a i :: u32"] unsigned_less [of "lane b i :: u32"] by simp_all
  then have "(word_of a i + word_of b i) div 2 ^ 32 < 2" by (intro less_mult_imp_div_less) simp
  with 0 show ?case by (simp add: carry.simps [of a b i])
next
  case (Suc n)
  then have "carry a b (Suc i) \<le> 1" "i < 3" by auto
  moreover have "word_of a i < 2 ^ 32" "word_of b i < 2 ^ 32"
    using unsigned_less [of "lane a i :: u32"] unsigned_less [of "lane b i :: u32"] by simp_all
  ultimately have "(word_of a i + word_of b i + carry a b (Suc i)) div 2 ^ 32 < 2" by (intro less_mult_imp_div_less) simp
  with Suc show ?case by (simp add: carry.simps [of a b i])
qed

lemma cg_3: "word_of (spu_cg a b) 3 = carry a b 3"
  using carry_out [of 0 "lane a 3" "lane b 3"] by (simp add: spu_cg_def carry.simps)

lemma cgx_3: "word_of (spu_cgx a b (spu_shlqbyi c 4)) 3 = carry a b 3"
  using carry_out [of 0 "lane a 3" "lane b 3"] by (simp add: spu_cgx_def lane_shlqbyi4 carry.simps)

lemma cgx_step:
  assumes "i < 3" "word_of c (Suc i) = carry a b (Suc i)"
  shows "word_of (spu_cgx a b (spu_shlqbyi c 4)) i = carry a b i"
proof -
  have c: "word_of c (Suc i) \<le> 1" using assms(2) carry_le [of a b "Suc i"] by simp
  show ?thesis
    using carry_out [OF c, of "lane a i" "lane b i"] assms
    by (simp add: spu_cgx_def lane_shlqbyi4 bit0_small [OF c] carry.simps [of a b i])
qed

lemma addx_step:
  assumes "i < 4" "i < 3 \<Longrightarrow> word_of c (Suc i) = carry a b (Suc i)"
  shows "of_nat (word_of (spu_addx a b (spu_shlqbyi c 4)) i) + 2 ^ 32 * of_nat (carry a b i) =
    (of_nat (word_of a i) + of_nat (word_of b i) + of_nat (if i < 3 then carry a b (Suc i) else 0) :: u128)"
proof (cases "i < 3")
  case True
  have c: "word_of c (Suc i) \<le> 1" using assms(2) [OF True] carry_le [of a b "Suc i"] by simp
  show ?thesis
    using carry_word [of "lane a i" "lane b i" "lane c (Suc i)"] True assms
    by (simp add: spu_addx_def lane_shlqbyi4 bit0_small [OF c] carry.simps [of a b i])
next
  case False
  with assms(1) have "i = 3" by simp
  then show ?thesis
    using carry_word [of "lane a 3" "lane b 3" 0] by (simp add: spu_addx_def lane_shlqbyi4 carry.simps)
qed

text \<open>
  Three rounds of \<^verbatim>\<open>cgx\<close> after a \<^verbatim>\<open>cg\<close>, the carries moved one word up each time,
  and one \<^verbatim>\<open>addx\<close> add two quadwords as 128-bit numbers; no carry is lost between words.
\<close>

lemma quadword_add:
  "let c1 = spu_cg a b; c2 = spu_cgx a b (spu_shlqbyi c1 4); c3 = spu_cgx a b (spu_shlqbyi c2 4)
   in quad (spu_addx a b (spu_shlqbyi c3 4)) = quad a + quad b"
proof -
  define c2 where "c2 = spu_cgx a b (spu_shlqbyi (spu_cg a b) 4)"
  define c3 where "c3 = spu_cgx a b (spu_shlqbyi c2 4)"
  have "word_of c2 (Suc 1) = carry a b (Suc 1)"
    using cgx_step [of 2 "spu_cg a b" a b] cg_3 [of a b] by (simp add: c2_def numeral_eq_Suc)
  moreover have "word_of c2 3 = carry a b 3" by (simp add: c2_def cgx_3)
  ultimately have c3: "word_of c3 (Suc 0) = carry a b (Suc 0)" "word_of c3 2 = carry a b 2" "word_of c3 3 = carry a b 3"
    using cgx_step [of 1 c2 a b] cgx_step [of 2 c2 a b] by (simp_all add: c3_def cgx_3)
  have "quad (spu_addx a b (spu_shlqbyi c3 4)) = quad a + quad b"
    unfolding quad_words
    by (rule carries_add [where ?k3.0 = "of_nat (carry a b 3)" and ?k2.0 = "of_nat (carry a b 2)"
          and ?k1.0 = "of_nat (carry a b 1)" and ?k0.0 = "of_nat (carry a b 0)"])
      (use addx_step [of 0 c3 a b] addx_step [of 1 c3 a b] addx_step [of 2 c3 a b] addx_step [of 3 c3 a b] c3
        in \<open>simp_all add: numeral_2_eq_2 [symmetric]\<close>)
  then show ?thesis by (simp only: Let_def c2_def c3_def)
qed

section \<open>Masks\<close>

lemma bit_and_1: "bit (x AND 1 :: 'a::len word) n \<longleftrightarrow> n = 0 \<and> bit x 0"
  by (auto simp: bit_simps)

lemma bit_gather:
  fixes g :: "nat \<Rightarrow> 'b::len word"
  assumes "m \<le> N" "N \<le> 32"
  shows "bit (foldr (\<lambda>i v. v OR push_bit (N - 1 - i) (ucast (g i AND 1))) [m..<N] 0 :: u32) n \<longleftrightarrow>
    n < N - m \<and> bit (g (N - 1 - n)) 0"
  using assms(1)
proof (induction "N - m" arbitrary: m)
  case (Suc d)
  then have m: "m < N" "[m..<N] = m # [Suc m..<N]" by (auto simp: upt_conv_Cons)
  have "bit (push_bit (N - 1 - m) (ucast (g m AND 1)) :: u32) n \<longleftrightarrow> n = N - 1 - m \<and> bit (g m) 0"
    using m(1) assms(2) by (auto simp: bit_simps bit_and_1)
  moreover have "bit (foldr (\<lambda>i v. v OR push_bit (N - 1 - i) (ucast (g i AND 1))) [Suc m..<N] 0 :: u32) n \<longleftrightarrow>
      n < N - Suc m \<and> bit (g (N - 1 - n)) 0"
    using Suc m by simp
  moreover have "n = N - 1 - m \<or> n < N - Suc m \<longleftrightarrow> n < N - m" "n = N - 1 - m \<Longrightarrow> N - 1 - n = m" using m(1) by auto
  ultimately show ?case using m(2) by (auto simp: bit_or_iff)
qed simp

lemma bit_ones:
  "bit (if c then 0xFF else 0 :: u8) 0 \<longleftrightarrow> c" "bit (if c then 0xFFFF else 0 :: u16) 0 \<longleftrightarrow> c"
  by simp_all

lemma drop_and_1: "drop_bit k (v :: 'a::len word) AND 1 \<noteq> 0 \<longleftrightarrow> bit v k"
  by (simp add: bit_iff_odd_drop_bit and_one_eq odd_iff_mod_2_eq_one)

lemma low_and_mask: "bit (x AND mask k :: u32) n \<longleftrightarrow> n < k \<and> bit x n"
  by (auto simp: bit_simps dest: bit_imp_le_length)

lemma bit_and_lows:
  "bit (x AND 0xF :: u32) n \<longleftrightarrow> n < 4 \<and> bit x n" "bit (x AND 0xFF :: u32) n \<longleftrightarrow> n < 8 \<and> bit x n"
  "bit (x AND 0xFFFF :: u32) n \<longleftrightarrow> n < 16 \<and> bit x n"
  using low_and_mask [of x 4 n] low_and_mask [of x 8 n] low_and_mask [of x 16 n] by (simp_all add: mask_eq_exp_minus_1)

lemma bit_fsmb: "i < 16 \<Longrightarrow> bit (lane (fsmb_of v) (SPU_W i) :: u8) 0 = bit v (15 - i)"
  by (simp only: gbyte_def [symmetric] fsmb_of_def gbyte_gbytes bit_ones drop_and_1)

lemma less_8_cases: "i < 8 \<longleftrightarrow> i = 0 \<or> i = 1 \<or> i = 2 \<or> i = 3 \<or> i = 4 \<or> i = 5 \<or> i = 6 \<or> i = (7 :: nat)"
  by auto

lemma bit_fsmh: "i < 8 \<Longrightarrow> bit (lane (spu_fsmh a) (i XOR 1) :: u16) 0 = bit (lane a 0 AND 0xFF :: u32) (7 - i)"
proof -
  assume i: "i < 8"
  have "i XOR 1 < 8" "(i XOR 1) XOR 1 = i" using i unfolding less_8_cases by auto
  then show ?thesis by (simp only: spu_fsmh_def Let_def lane_lanes16 bit_ones drop_and_1)
qed

lemma bit_fsm: "i < 4 \<Longrightarrow> lane (spu_fsm a) i AND 1 = (if bit (lane a 0 AND 0xF :: u32) (3 - i) then 1 else 0 :: u32)"
  by (simp only: spu_fsm_def Let_def lane_lanes32 drop_and_1) simp

lemma gb_fsm: "spu_gb (spu_fsm a) = spu_pref_u32 (lane a 0 AND 0xF)"
proof -
  have "bit (push_bit 3 (if b3 then 1 else 0) OR push_bit 2 (if b2 then 1 else 0) OR push_bit 1 (if b1 then 1 else 0) OR
      (if b0 then 1 else 0) :: u32) n \<longleftrightarrow> n = 3 \<and> b3 \<or> n = 2 \<and> b2 \<or> n = 1 \<and> b1 \<or> n = 0 \<and> b0" for b3 b2 b1 b0 n
    by (auto simp: bit_simps)
  then show ?thesis unfolding spu_gb_def
    by (intro arg_cong [where f = spu_pref_u32] bit_word_eqI) (auto simp: bit_fsm bit_and_lows less_4_cases)
qed

text \<open>
  Gathering the low bits of the elements undoes forming a select mask: from words, halfwords
  and bytes the gather instruction gives back the 4, 8 or 16 bits the mask was formed from, in the
  preferred word, the rest of the register zero.
\<close>

theorem gather_undoes_mask:
  "spu_gb (spu_fsm a) = spu_pref_u32 (lane a 0 AND 0xF) \<and>
   spu_gbh (spu_fsmh a) = spu_pref_u32 (lane a 0 AND 0xFF) \<and>
   spu_gbb (spu_fsmb a) = spu_pref_u32 (lane a 0 AND 0xFFFF)"
proof (intro conjI)
  have "bit (foldr (\<lambda>i v. v OR push_bit (8 - 1 - i) (ucast (lane (spu_fsmh a) (i XOR 1) AND 1 :: u16))) [0..<8] 0 :: u32) n \<longleftrightarrow>
      bit (lane a 0 AND 0xFF :: u32) n" for n
    using bit_fsmh [of "7 - n" a] by (subst bit_gather) (auto simp: bit_and_lows)
  then show "spu_gbh (spu_fsmh a) = spu_pref_u32 (lane a 0 AND 0xFF)"
    unfolding spu_gbh_def by (intro arg_cong [where f = spu_pref_u32] bit_word_eqI) simp
  have "bit (foldr (\<lambda>i v. v OR push_bit (16 - 1 - i) (ucast (lane (fsmb_of w) (SPU_W i) AND 1 :: u8))) [0..<16] 0 :: u32) n \<longleftrightarrow>
      n < 16 \<and> bit w n" for w n
    using bit_fsmb [of "15 - n" w] by (subst bit_gather) auto
  then show "spu_gbb (spu_fsmb a) = spu_pref_u32 (lane a 0 AND 0xFFFF)"
    unfolding spu_gbb_def spu_fsmb_def by (intro arg_cong [where f = spu_pref_u32] bit_word_eqI) (simp add: bit_and_lows)
qed (rule gb_fsm)

end
