(* ===== verification/SpuProg.thy ===== *)
theory SpuProg
  imports SpuRun SpuQuad
begin

text \<open>
  A program for the SPU interpreter, from its instruction words to the number it computes: the
  addition of two quadwords.
\<close>

section \<open>Instruction words\<close>

lemmas decode_words = spu_decode1_def Let_def dec_defs decode_in_def rrr_table_def ri18_table_def ri16_table_def ri10_table_def
  ri8_table_def rr_table_def ri7_table_def spu_ri7_unsigned_def sx_def

lemma decode_cg: "spu_decode1 0x18410185 p =
  \<lparr>op = AB SPU_cg, rt = 5, ra = 3, rb = 4, rc = 66, ch = 3, imm = 0, tgt = 0\<rparr>"
  by (simp add: decode_words)

lemma decode_cgx: "spu_decode1 0x68410185 p =
  \<lparr>op = ABT SPU_cgx, rt = 5, ra = 3, rb = 4, rc = 66, ch = 3, imm = 0, tgt = 0\<rparr>"
  by (simp add: decode_words)

lemma decode_addx: "spu_decode1 0x68010185 p =
  \<lparr>op = ABT SPU_addx, rt = 5, ra = 3, rb = 4, rc = 64, ch = 3, imm = 0, tgt = 0\<rparr>"
  by (simp add: decode_words)

lemma decode_stop: "spu_decode1 0 p =
  \<lparr>op = Stop SPU_stop, rt = 0, ra = 0, rb = 0, rc = 0, ch = 0, imm = 0, tgt = 0\<rparr>"
  by (simp add: decode_words)

lemma decode_shlqbyi: "spu_decode1 0x3FE10285 p =
  \<lparr>op = ShiftI SPU_shlqbyi, rt = 5, ra = 5, rb = 4, rc = 127, ch = 5, imm = 4, tgt = 0\<rparr>"
  by (simp add: decode_words)

section \<open>A program\<close>

text \<open>The sum of registers 3 and 4 into register 5, as the instruction set's manual adds quadwords.\<close>

definition add_program :: "u32 list" where
  "add_program = [0x18410185, 0x3FE10285, 0x68410185, 0x3FE10285, 0x68410185, 0x3FE10285, 0x68010185, 0]"

definition loaded :: "u32 list \<Rightarrow> 'x spu_context_scheme \<Rightarrow> bool" where
  "loaded prog ctx \<longleftrightarrow> (\<forall>k < length prog. ls_get32 ctx (4 * k) = Some (prog ! k))"

lemma loaded_frame: "ls c = ls ctx \<Longrightarrow> loaded prog c = loaded prog ctx"
  by (simp add: loaded_def ls_get32_def ls_get_def)

lemma unat_pc: "k < 0x10000 \<Longrightarrow> unat (of_nat (4 * k) :: u32) = 4 * k"
  by (simp only: unat_of_nat) (simp add: take_bit_nat_eq_self)

lemma step_loaded:
  assumes "loaded prog ctx" "pc ctx = of_nat (4 * k)" "k < length prog" "length prog \<le> 0x10000"
  shows "spu_step env ctx = spu_exec env (spu_decode1 (prog ! k) (pc ctx)) ctx"
proof -
  have "unat (pc ctx) = 4 * k" unfolding assms(2) by (rule unat_pc) (use assms(3,4) in simp)
  then have "unat (pc ctx AND SPU_LS_MASK) = 4 * k" using assms(3,4) by (simp add: unat_mask18)
  then show ?thesis using assms(1,3) by (simp add: spu_step_def loaded_def)
qed

lemma run_loop_step:
  assumes "image_id ctx < 0" "pc ctx \<noteq> 0xA70" "spu_step env ctx = Continue c"
  shows "run_loop env 0 (Suc n) evt ctx = run_loop env 0 n evt c"
  using assms by (simp add: syscall_here_def)

definition at_pc :: "nat \<Rightarrow> u128 \<Rightarrow> 'x spu_context_scheme \<Rightarrow> 'x spu_context_scheme" where
  "at_pc k v ctx = ctx\<lparr>gpr := (gpr ctx)(5 := v), pc := of_nat (4 * k)\<rparr>"

lemma at_pc_sel [simp]: "pc (at_pc k v ctx) = of_nat (4 * k)" "gpr (at_pc k v ctx) = (gpr ctx)(5 := v)" "ls (at_pc k v ctx) = ls ctx"
  "image_id (at_pc k v ctx) = image_id ctx"
  by (simp_all add: at_pc_def)

lemma run_add_step:
  assumes "loaded add_program ctx" "image_id ctx < 0" "k < 7"
    "spu_exec env (spu_decode1 (add_program ! k) (of_nat (4 * k))) (at_pc k v ctx) = Continue (at_pc (Suc k) w ctx)"
  shows "run_loop env 0 (Suc n) evt (at_pc k v ctx) = run_loop env 0 n evt (at_pc (Suc k) w ctx)"
proof (rule run_loop_step)
  have "loaded add_program (at_pc k v ctx)" using assms(1) by (simp add: loaded_frame [of "at_pc k v ctx" ctx])
  then show "spu_step env (at_pc k v ctx) = Continue (at_pc (Suc k) w ctx)"
    using step_loaded [of add_program "at_pc k v ctx" k env] assms(3,4) by (simp add: add_program_def)
  show "pc (at_pc k v ctx) \<noteq> 0xA70" 
  proof
    assume "pc (at_pc k v ctx) = 0xA70"
    then have "unat (of_nat (4 * k) :: u32) = 0xA70" by simp
    then show False using unat_pc [of k] assms(3) by simp
  qed
qed (use assms in simp)

lemma exec_add_program:
  "spu_exec env (spu_decode1 (add_program ! 0) 0) (at_pc 0 v ctx) = Continue (at_pc 1 (spu_cg (gpr ctx 3) (gpr ctx 4)) ctx)"
  "k \<in> {1, 3, 5} \<Longrightarrow> spu_exec env (spu_decode1 (add_program ! k) (of_nat (4 * k))) (at_pc k v ctx) = Continue (at_pc (Suc k) (spu_shlqbyi v 4) ctx)"
  "k \<in> {2, 4} \<Longrightarrow> spu_exec env (spu_decode1 (add_program ! k) (of_nat (4 * k))) (at_pc k v ctx) =
     Continue (at_pc (Suc k) (spu_cgx (gpr ctx 3) (gpr ctx 4) v) ctx)"
  "spu_exec env (spu_decode1 (add_program ! 6) (of_nat (4 * 6))) (at_pc 6 v ctx) = Continue (at_pc 7 (spu_addx (gpr ctx 3) (gpr ctx 4) v) ctx)"
  by (auto simp: add_program_def decode_cg decode_cgx decode_addx decode_shlqbyi spu_exec_def Let_def exec_ab_def exec_abt_def
      exec_shifti_def set_gpr_def goto_def at_pc_def)

lemma run_add_steps:
  assumes "loaded add_program ctx" "image_id ctx < 0" "m \<le> 7"
    and "\<And>k. k < m \<Longrightarrow> spu_exec env (spu_decode1 (add_program ! k) (of_nat (4 * k))) (at_pc k (f k) ctx) =
      Continue (at_pc (Suc k) (f (Suc k)) ctx)"
  shows "run_loop env 0 (m + n) evt (at_pc 0 (f 0) ctx) = run_loop env 0 n evt (at_pc m (f m) ctx)"
  using assms(3,4)
proof (induction m arbitrary: n)
  case (Suc m)
  then have "run_loop env 0 (Suc m + n) evt (at_pc 0 (f 0) ctx) = run_loop env 0 (Suc n) evt (at_pc m (f m) ctx)"
    using Suc.IH [of "Suc n"] by simp
  also have "\<dots> = run_loop env 0 n evt (at_pc (Suc m) (f (Suc m)) ctx)"
    by (rule run_add_step [OF assms(1,2)]) (use Suc.prems in auto)
  finally show ?case .
qed simp

lemma run_add_stop:
  assumes "loaded add_program ctx" "image_id ctx < 0"
  shows "run_loop env 0 (Suc n) None (at_pc 7 s ctx) =
    Some (Returned 0 ((at_pc 7 s ctx)\<lparr>pc := 32, stop_code := 0, status := SPU_STATUS_STOPPED_BY_STOP\<rparr>) None)"
proof -
  have "loaded add_program (at_pc 7 s ctx)" using assms(1) loaded_frame [of "at_pc 7 s ctx" ctx] by simp
  then have "spu_step env (at_pc 7 s ctx) = spu_exec env (spu_decode1 0 (of_nat (4 * 7))) (at_pc 7 s ctx)"
    using step_loaded [of add_program "at_pc 7 s ctx" 7 env] by (simp add: add_program_def)
  then have "spu_step env (at_pc 7 s ctx) = Halted ((at_pc 7 s ctx)\<lparr>pc := 32, stop_code := 0, status := SPU_STATUS_STOPPED_BY_STOP\<rparr>)"
    by (simp add: decode_stop spu_exec_def exec_stop_def)
  then show ?thesis using assms(2) by (simp add: syscall_here_def)
qed

text \<open>
  C10. The interpreter adds quadwords: with the eight instructions of the addition program at the
  start of the local store, a run of the interpreter returns after eight steps with the 128-bit
  sum of registers 3 and 4 in register 5, the program counter behind the stop, the other registers
  and the local store as they were. The run goes through the decoder, the loop and the helpers of
  all six instructions.
\<close>

theorem interpreter_adds:
  assumes "loaded add_program ctx" "image_id ctx < 0" "8 \<le> fuel"
  shows "\<exists>c. spu_interp_run env fuel None ctx 0 = Some (Returned 0 c None) \<and>
    quad (gpr c 5) = quad (gpr ctx 3) + quad (gpr ctx 4) \<and> (\<forall>r. r \<noteq> 5 \<longrightarrow> gpr c r = gpr ctx r) \<and>
    ls c = ls ctx \<and> pc c = 32 \<and> status c = SPU_STATUS_STOPPED_BY_STOP"
proof -
  obtain n where "fuel = 8 + n" using assms(3) le_Suc_ex by blast
  then have n: "fuel = 7 + Suc n" by simp
  define c0 where "c0 = ctx\<lparr>status := SPU_STATUS_RUNNING\<rparr>"
  have c0: "loaded add_program c0" "image_id c0 < 0" using assms loaded_frame [of c0 ctx] by (simp_all add: c0_def)
  let ?a = "gpr ctx 3" and ?b = "gpr ctx 4"
  define c1 where "c1 = spu_cg ?a ?b"
  define c2 where "c2 = spu_cgx ?a ?b (spu_shlqbyi c1 4)"
  define c3 where "c3 = spu_cgx ?a ?b (spu_shlqbyi c2 4)"
  define s where "s = spu_addx ?a ?b (spu_shlqbyi c3 4)"
  define f where "f = (!) [gpr ctx 5, c1, spu_shlqbyi c1 4, c2, spu_shlqbyi c2 4, c3, spu_shlqbyi c3 4, s]"
  have g: "gpr c0 3 = ?a" "gpr c0 4 = ?b" by (simp_all add: c0_def)
  have "spu_exec env (spu_decode1 (add_program ! k) (of_nat (4 * k))) (at_pc k (f k) c0) = Continue (at_pc (Suc k) (f (Suc k)) c0)"
    if k: "k < 7" for k
  proof -
    consider "k = 0" | "k \<in> {1, 3, 5}" | "k \<in> {2, 4}" | "k = 6" using k by force
    then show ?thesis
      using exec_add_program [where ctx = c0 and env = env] by cases (auto simp: f_def g c1_def c2_def c3_def s_def)
  qed
  then have "run_loop env 0 fuel None (at_pc 0 (f 0) c0) = run_loop env 0 (Suc n) None (at_pc 7 (f 7) c0)"
    unfolding n by (rule run_add_steps [OF c0 order_refl])
  moreover have "ctx\<lparr>pc := 0, status := SPU_STATUS_RUNNING\<rparr> = at_pc 0 (f 0) c0" "f 7 = s"
    by (cases ctx, simp add: at_pc_def c0_def f_def) (simp add: f_def)
  ultimately have "spu_interp_run env fuel None ctx 0 =
      Some (Returned 0 ((at_pc 7 s c0)\<lparr>pc := 32, stop_code := 0, status := SPU_STATUS_STOPPED_BY_STOP\<rparr>) None)"
    by (simp add: spu_interp_run_def spu_interp_run_until_def run_add_stop [OF c0] del: run_loop.simps)
  moreover have "quad s = quad ?a + quad ?b"
    using quadword_add [of ?a ?b] by (simp only: Let_def s_def c1_def c2_def c3_def)
  ultimately show ?thesis by (intro exI conjI) (assumption, auto simp: c0_def)
qed

definition add_context :: "u128 \<Rightarrow> u128 \<Rightarrow> spu_context" where
  "add_context a b =
     \<lparr>gpr = (\<lambda>_. 0)(3 := a, 4 := b), ls = (\<lambda>n. byte (3 - n mod 4) (add_program ! (n div 4))), pc = 0, status = 0, stop_code = 0,
      image_id = -1, srr0 = 0, policy_mode = 0, ch_out_mbox = empty_channel, rcv_evt = [], rcv_evt_n = 0, rcv_evt_i = 0\<rparr>"

theorem interpreter_adds_witness:
  "\<exists>c env. spu_interp_run env 8 None (add_context 5 7) 0 = Some (Returned 0 c None) \<and> quad (gpr c 5) = quad 5 + quad 7"
proof -
  have "ls_get32 (add_context 5 7) (4 * k) = Some (add_program ! k)" if "k < 8" for k
  proof -
    have "ls (add_context 5 7) (4 * k + j) = byte (3 - j) (add_program ! k)" if "j < 4" for j
      using that by (simp add: add_context_def)
    from this [of 0] this [of 1] this [of 2] this [of 3] show ?thesis
      using that by (simp add: ls_get32_Some SPU_LS_SIZE_def join_bytes [unfolded One_nat_def])
  qed
  then have "loaded add_program (add_context 5 7)" by (simp add: loaded_def add_program_def)
  moreover have "image_id (add_context 5 7) < 0" "gpr (add_context 5 7) 3 = 5" "gpr (add_context 5 7) 4 = 7"
    by (simp_all add: add_context_def)
  ultimately show ?thesis using interpreter_adds [of "add_context 5 7" 8] by (simp, blast)
qed

end
