(* ===== verification/RsxTexture.thy ===== *)
theory RsxTexture
  imports CheckedArray
begin

text \<open>
  The shape of a guest texture and its conversion to host rows:
  \<^verbatim>\<open>src/libs/video/rsx_texture_layout.c\<close> and its header. Sizes and offsets of the layout
  are 32-bit words that wrap as in the code. The decoder works on the byte arrays \<open>src\<close> and
  \<open>dst\<close>; an access outside one of them is the error \<open>Tex_Oob\<close>, a shift by 32 or
  more, undefined in C, the error \<open>Tex_Shift\<close>. The \<^verbatim>\<open>TEX_RGBA\<close> setting that
  \<^verbatim>\<open>rsx_texture_argb_is_rgba\<close> reads is the argument \<open>argb_as_rgba\<close>, as it is for
  the decoder itself, and the arrays stand for pointers that are not null.
\<close>

section \<open>Formats and layouts\<close>

datatype tex_error = Tex_Oob | Tex_Shift

datatype rsx_texfmt = RSX_TEXFMT_R8 | RSX_TEXFMT_R8G8 | RSX_TEXFMT_R8G8B8A8
  | RSX_TEXFMT_BC1 | RSX_TEXFMT_BC2 | RSX_TEXFMT_BC3
  | RSX_TEXFMT_R16 | RSX_TEXFMT_R16G16 | RSX_TEXFMT_R16G16F | RSX_TEXFMT_R16G16B16A16F
  | RSX_TEXFMT_R32F | RSX_TEXFMT_R32G32B32A32F

record rsx_tex_layout =
  tl_fmt :: rsx_texfmt
  tl_base_format :: u32
  tl_compressed :: bool
  tl_swizzled :: bool
  tl_bytes_per_texel :: u32
  tl_block_bytes :: u32
  tl_row_bytes :: u32
  tl_rows :: u32
  tl_face_bytes :: u32
  tl_dst_bytes_per_texel :: u32
  tl_dst_row_bytes :: u32

text \<open>
  The switch on the base format: the format class, the block size of a compressed format
  (0 for the others), the bytes of a source texel and of a decoded one.
\<close>

definition format_class :: "u32 \<Rightarrow> rsx_texfmt \<times> u32 \<times> u32 \<times> u32" where
  "format_class basef =
     (if basef = 0x85 \<or> basef = 0x9E then (RSX_TEXFMT_R8G8B8A8, 0, 4, 4)
      else if basef = 0x8B \<or> basef = 0x8C \<or> basef = 0x8D then (RSX_TEXFMT_R8G8, 0, 2, 2)
      else if basef = 0x82 \<or> basef = 0x83 \<or> basef = 0x84 \<or> basef = 0x97 \<or> basef = 0x9D
      then (RSX_TEXFMT_R8G8B8A8, 0, 2, 4)
      else if basef = 0x86 then (RSX_TEXFMT_BC1, 8, 1, 1)
      else if basef = 0x87 then (RSX_TEXFMT_BC2, 16, 1, 1)
      else if basef = 0x88 then (RSX_TEXFMT_BC3, 16, 1, 1)
      else if basef = 0x90 then (RSX_TEXFMT_R32F, 0, 4, 4)
      else if basef = 0x92 \<or> basef = 0x94 then (RSX_TEXFMT_R16, 0, 2, 2)
      else if basef = 0x95 then (RSX_TEXFMT_R16G16, 0, 4, 4)
      else if basef = 0x9A then (RSX_TEXFMT_R16G16B16A16F, 0, 8, 8)
      else if basef = 0x9B then (RSX_TEXFMT_R32G32B32A32F, 0, 16, 16)
      else if basef = 0x9C then (RSX_TEXFMT_R32F, 0, 4, 4)
      else if basef = 0x9F then (RSX_TEXFMT_R16G16F, 0, 4, 4)
      else (RSX_TEXFMT_R8, 0, 1, 1))"

definition rsx_texture_layout_pitched :: "u32 \<Rightarrow> u32 \<Rightarrow> u32 \<Rightarrow> u32 \<Rightarrow> rsx_tex_layout" where
  "rsx_texture_layout_pitched rsx_fmt w h pitch =
     (let basef = rsx_fmt AND 0x9F;
          (fmt, block, src_bpp, dst_bpp) = format_class basef
      in if block \<noteq> 0
         then let row = (w + 3) div 4 * block; rows = (h + 3) div 4
              in \<lparr>tl_fmt = fmt, tl_base_format = basef, tl_compressed = True, tl_swizzled = False,
                  tl_bytes_per_texel = 0, tl_block_bytes = block, tl_row_bytes = row, tl_rows = rows,
                  tl_face_bytes = row * rows, tl_dst_bytes_per_texel = 0, tl_dst_row_bytes = row\<rparr>
         else let row = w * src_bpp;
                  row = (if pitch > row \<and> rsx_fmt AND 0x20 \<noteq> 0 then pitch else row)
              in \<lparr>tl_fmt = fmt, tl_base_format = basef, tl_compressed = False,
                  tl_swizzled = (rsx_fmt AND 0x20 = 0 \<and> w \<noteq> 0 \<and> h \<noteq> 0 \<and>
                                 w AND (w - 1) = 0 \<and> h AND (h - 1) = 0),
                  tl_bytes_per_texel = src_bpp, tl_block_bytes = 0, tl_row_bytes = row, tl_rows = h,
                  tl_face_bytes = row * h, tl_dst_bytes_per_texel = dst_bpp,
                  tl_dst_row_bytes = w * dst_bpp\<rparr>)"

definition rsx_texture_layout :: "u32 \<Rightarrow> u32 \<Rightarrow> u32 \<Rightarrow> rsx_tex_layout" where
  "rsx_texture_layout rsx_fmt w h = rsx_texture_layout_pitched rsx_fmt w h 0"

section \<open>Mip chains and cube faces\<close>

definition RSX_MAX_TEXTURE_LEVELS :: u32 where
  "RSX_MAX_TEXTURE_LEVELS = 14"

record rsx_tex_level =
  lv_w :: u32
  lv_h :: u32
  lv_offset :: u32
  lv_tl :: rsx_tex_layout

text \<open>The loop over the levels; the list holds the entries of \<^verbatim>\<open>out\<close> it writes.\<close>

function mip_loop :: "u32 \<Rightarrow> u32 \<Rightarrow> nat \<Rightarrow> u32 \<Rightarrow> u32 \<Rightarrow> u32 \<Rightarrow> nat \<Rightarrow> rsx_tex_level list" where
  "mip_loop rsx_fmt pitch levels mw mh off n =
     (if n < levels
      then let lay = rsx_texture_layout_pitched rsx_fmt mw mh (if n = 0 then pitch else 0)
           in \<lparr>lv_w = mw, lv_h = mh, lv_offset = off, lv_tl = lay\<rparr> #
              (if mw = 1 \<and> mh = 1 then []
               else mip_loop rsx_fmt pitch levels (if mw > 1 then drop_bit 1 mw else mw)
                      (if mh > 1 then drop_bit 1 mh else mh) (off + tl_face_bytes lay) (n + 1))
      else [])"
  by pat_completeness auto
termination by (relation "measure (\<lambda>(f, p, levels, w, h, off, n). levels - n)") auto

declare mip_loop.simps [simp del]

definition rsx_texture_mip_chain :: "u32 \<Rightarrow> u32 \<Rightarrow> u32 \<Rightarrow> u32 \<Rightarrow> u32 \<Rightarrow> rsx_tex_level list" where
  "rsx_texture_mip_chain rsx_fmt w h levels pitch =
     (if w = 0 \<or> h = 0 then []
      else let levels = (if levels = 0 then 1 else levels);
               levels = (if levels > RSX_MAX_TEXTURE_LEVELS then RSX_MAX_TEXTURE_LEVELS else levels)
           in mip_loop rsx_fmt pitch (unat levels) w h 0 0)"

definition rsx_texture_cube_face_stride :: "u32 \<Rightarrow> u32 \<Rightarrow> u32 \<Rightarrow> u32 \<Rightarrow> u32 \<Rightarrow> u32" where
  "rsx_texture_cube_face_stride rsx_fmt w h levels pitch =
     (let lv = rsx_texture_mip_chain rsx_fmt w h levels pitch
      in if lv = [] then 0
         else let total_bytes = lv_offset (last lv) + tl_face_bytes (lv_tl (last lv))
              in (total_bytes + 127) AND NOT 127)"

section \<open>Swizzled addresses\<close>

function log2_loop :: "u32 \<Rightarrow> nat \<Rightarrow> tex_error + nat" where
  "log2_loop v l =
     (if l \<ge> 32 then Inl Tex_Shift
      else if push_bit l 1 < v then log2_loop v (l + 1) else Inr l)"
  by pat_completeness auto
termination by (relation "measure (\<lambda>(v, l). 32 - l)") auto

declare log2_loop.simps [simp del]

definition rsx_log2_ceil :: "u32 \<Rightarrow> tex_error + nat" where
  "rsx_log2_ceil v = log2_loop v 0"

fun swizzle_loop :: "u32 \<Rightarrow> u32 \<Rightarrow> nat \<Rightarrow> nat \<Rightarrow> u32 \<Rightarrow> nat \<Rightarrow> tex_error + u32" where
  "swizzle_loop x y (Suc log2w) (Suc log2h) off shift =
     (if shift + 1 \<ge> 32 then Inl Tex_Shift
      else swizzle_loop (drop_bit 1 x) (drop_bit 1 y) log2w log2h
             (off OR push_bit shift (x AND 1) OR push_bit (shift + 1) (y AND 1)) (shift + 2))"
| "swizzle_loop x y log2w log2h off shift =
     (if shift \<ge> 32 then Inl Tex_Shift else Inr (off OR push_bit shift (x OR y)))"

definition rsx_swizzle_offset :: "u32 \<Rightarrow> u32 \<Rightarrow> nat \<Rightarrow> nat \<Rightarrow> tex_error + u32" where
  "rsx_swizzle_offset x y log2w log2h = swizzle_loop x y log2w log2h 0 0"

section \<open>Texels\<close>

definition expand5 :: "u32 \<Rightarrow> u8" where "expand5 v = ucast (v * 255 div 31)"

definition expand6 :: "u32 \<Rightarrow> u8" where "expand6 v = ucast (v * 255 div 63)"

definition expand4 :: "u32 \<Rightarrow> u8" where "expand4 v = ucast (v * 17)"

text \<open>
  Byte accesses relative to a pointer: \<open>picks\<close> reads the bytes at the given offsets from
  \<open>s\<close>, \<open>puts\<close> writes consecutive bytes from \<open>d\<close>, \<open>copy_span\<close> is
  \<^verbatim>\<open>memcpy\<close>.
\<close>

fun picks :: "u8 list \<Rightarrow> nat \<Rightarrow> nat list \<Rightarrow> tex_error + u8 list" where
  "picks src s [] = Inr []"
| "picks src s (i # is) =
     andthen (rd_or Tex_Oob src (s + i)) (\<lambda>b. andthen (picks src s is) (\<lambda>bs. Inr (b # bs)))"

fun puts :: "u8 list \<Rightarrow> nat \<Rightarrow> u8 list \<Rightarrow> tex_error + u8 list" where
  "puts dst d [] = Inr dst"
| "puts dst d (b # bs) = andthen (wr_or Tex_Oob dst d b) (\<lambda>dst. puts dst (d + 1) bs)"

definition copy_span :: "u8 list \<Rightarrow> nat \<Rightarrow> u8 list \<Rightarrow> nat \<Rightarrow> nat \<Rightarrow> tex_error + u8 list" where
  "copy_span dst d src s n = andthen (picks src s [0..<n]) (puts dst d)"

definition be16 :: "u8 list \<Rightarrow> nat \<Rightarrow> tex_error + u32" where
  "be16 src s =
     andthen (picks src s [0, 1]) (\<lambda>p. Inr (push_bit 8 (ucast (p ! 0)) OR ucast (p ! 1)))"

definition be32 :: "u8 list \<Rightarrow> nat \<Rightarrow> tex_error + u32" where
  "be32 src s =
     andthen (picks src s [0, 1, 2, 3])
       (\<lambda>p. Inr (push_bit 24 (ucast (p ! 0)) OR push_bit 16 (ucast (p ! 1)) OR
                 push_bit 8 (ucast (p ! 2)) OR ucast (p ! 3)))"

definition swap_components ::
  "u8 list \<Rightarrow> nat \<Rightarrow> u8 list \<Rightarrow> nat \<Rightarrow> nat \<Rightarrow> nat \<Rightarrow> tex_error + u8 list" where
  "swap_components dst d src s n width =
     andthen (picks src s (concat (map (\<lambda>c. map (\<lambda>b. c * width + (width - 1 - b)) [0..<width]) [0..<n])))
       (puts dst d)"

text \<open>
  The quotient \<open>v / 16777215\<close> of two floats as its binary32 representation, rounded to
  nearest: the numerator has at most 24 bits, so its conversion is exact. \<open>depth_exp\<close> is
  the number of binary places for which the quotient has a mantissa of 24 bits. No tie to even
  arises since the divisor is odd, and no subnormal since the quotient is at least
  \<open>2 ^ - 24\<close>.
\<close>

definition depth_exp :: "nat \<Rightarrow> nat" where
  "depth_exp v = (case find (\<lambda>e. v * 2 ^ e \<ge> 2 ^ 23 * 16777215) [23..<48] of Some e \<Rightarrow> e | None \<Rightarrow> 48)"

definition depth_mantissa :: "nat \<Rightarrow> nat" where
  "depth_mantissa v = (2 * v * 2 ^ depth_exp v + 16777215) div (2 * 16777215)"

definition depth_float :: "nat \<Rightarrow> nat" where
  "depth_float v = (if v = 0 then 0 else (149 - depth_exp v) * 2 ^ 23 + depth_mantissa v)"

definition le_bytes :: "u32 \<Rightarrow> u8 list" where
  "le_bytes v = [ucast v, ucast (drop_bit 8 v), ucast (drop_bit 16 v), ucast (drop_bit 24 v)]"

definition decode_texel ::
  "rsx_tex_layout \<Rightarrow> u8 list \<Rightarrow> nat \<Rightarrow> u8 list \<Rightarrow> nat \<Rightarrow> bool \<Rightarrow> tex_error + u8 list" where
  "decode_texel lay src s dst d argb_as_rgba =
     (let base = tl_base_format lay
      in if base = 0x85 \<or> base = 0x9E
         then andthen (picks src s (if argb_as_rgba then [0, 1, 2, 3] else [1, 2, 3, 0]))
                (\<lambda>p. puts dst d (if base = 0x9E then p[3 := 255] else p))
         else if base = 0x82 \<or> base = 0x9D
         then andthen (be16 src s) (\<lambda>v. puts dst d
                [expand5 (drop_bit 10 v AND 0x1F), expand5 (drop_bit 5 v AND 0x1F), expand5 (v AND 0x1F),
                 if base = 0x9D then 255 else if v AND 0x8000 \<noteq> 0 then 255 else 0])
         else if base = 0x83
         then andthen (be16 src s) (\<lambda>v. puts dst d
                [expand4 (drop_bit 8 v AND 0xF), expand4 (drop_bit 4 v AND 0xF), expand4 (v AND 0xF),
                 expand4 (drop_bit 12 v AND 0xF)])
         else if base = 0x84
         then andthen (be16 src s) (\<lambda>v. puts dst d
                [expand5 (drop_bit 11 v AND 0x1F), expand6 (drop_bit 5 v AND 0x3F), expand5 (v AND 0x1F), 255])
         else if base = 0x97
         then andthen (be16 src s) (\<lambda>v. puts dst d
                [expand5 (drop_bit 11 v AND 0x1F), expand5 (drop_bit 6 v AND 0x1F),
                 expand5 (drop_bit 1 v AND 0x1F), if v AND 1 \<noteq> 0 then 255 else 0])
         else if base = 0x90
         then andthen (be32 src s) (\<lambda>v. puts dst d (le_bytes (of_nat (depth_float (unat (drop_bit 8 v))))))
         else case tl_fmt lay of
                RSX_TEXFMT_R16 \<Rightarrow> swap_components dst d src s 1 2
              | RSX_TEXFMT_R16G16 \<Rightarrow> swap_components dst d src s 2 2
              | RSX_TEXFMT_R16G16F \<Rightarrow> swap_components dst d src s 2 2
              | RSX_TEXFMT_R16G16B16A16F \<Rightarrow> swap_components dst d src s 4 2
              | RSX_TEXFMT_R32F \<Rightarrow> swap_components dst d src s 1 4
              | RSX_TEXFMT_R32G32B32A32F \<Rightarrow> swap_components dst d src s 4 4
              | _ \<Rightarrow> copy_span dst d src s (unat (tl_dst_bytes_per_texel lay)))"

section \<open>The decoder\<close>

text \<open>The three loops of the decoder: block rows, rows copied as they are, and texels.\<close>

definition copy_rows :: "nat \<Rightarrow> nat \<Rightarrow> nat \<Rightarrow> nat \<Rightarrow> u8 list \<Rightarrow> u8 list \<Rightarrow> tex_error + u8 list" where
  "copy_rows rows dst_pitch row_bytes n src =
     for_each [0..<rows] (\<lambda>y dst. copy_span dst (y * dst_pitch) src (y * row_bytes) n)"

definition texel_source :: "rsx_tex_layout \<Rightarrow> nat \<Rightarrow> nat \<Rightarrow> nat \<Rightarrow> nat \<Rightarrow> tex_error + nat" where
  "texel_source lay l2w l2h x y =
     (let sbpp = unat (tl_bytes_per_texel lay)
      in if tl_swizzled lay
         then andthen (rsx_swizzle_offset (of_nat x) (of_nat y) l2w l2h) (\<lambda>off. Inr (unat off * sbpp))
         else Inr (y * unat (tl_row_bytes lay) + x * sbpp))"

definition texel_rows ::
  "rsx_tex_layout \<Rightarrow> nat \<Rightarrow> nat \<Rightarrow> nat \<Rightarrow> nat \<Rightarrow> nat \<Rightarrow> u8 list \<Rightarrow> bool \<Rightarrow> u8 list \<Rightarrow> tex_error + u8 list" where
  "texel_rows lay w h l2w l2h dst_pitch src argb_as_rgba =
     for_each [0..<h] (\<lambda>y. for_each [0..<w] (\<lambda>x dst.
       andthen (texel_source lay l2w l2h x y) (\<lambda>s.
         decode_texel lay src s dst (y * dst_pitch + x * unat (tl_dst_bytes_per_texel lay)) argb_as_rgba)))"

definition rsx_texture_decode ::
  "u8 list \<Rightarrow> u32 \<Rightarrow> u8 list \<Rightarrow> u32 \<Rightarrow> u32 \<Rightarrow> rsx_tex_layout \<Rightarrow> bool \<Rightarrow> tex_error + u8 list" where
  "rsx_texture_decode dst dst_pitch src w h lay argb_as_rgba =
     (if w = 0 \<or> h = 0 then Inr dst
      else if tl_compressed lay
      then copy_rows (unat (tl_rows lay)) (unat dst_pitch) (unat (tl_row_bytes lay))
             (unat (tl_row_bytes lay)) src dst
      else andthen (rsx_log2_ceil w) (\<lambda>l2w. andthen (rsx_log2_ceil h) (\<lambda>l2h.
             if (tl_fmt lay = RSX_TEXFMT_R8 \<or> tl_fmt lay = RSX_TEXFMT_R8G8) \<and> \<not> tl_swizzled lay
             then copy_rows (unat h) (unat dst_pitch) (unat (tl_row_bytes lay))
                    (unat w * unat (tl_bytes_per_texel lay)) src dst
             else texel_rows lay (unat w) (unat h) l2w l2h (unat dst_pitch) src argb_as_rgba dst)))"

section \<open>The component crossbar\<close>

definition RSX_REMAP_ZERO :: u8 where "RSX_REMAP_ZERO = 4"

definition RSX_REMAP_ONE :: u8 where "RSX_REMAP_ONE = 5"

definition remap_lanes :: "u32 \<Rightarrow> u8 list" where
  "remap_lanes base =
     (if base = 0x8B then [1, 0, 1, 0]
      else if base = 0x81 then [RSX_REMAP_ONE, 0, 0, 0] else [3, 0, 1, 2])"

definition rsx_texture_component_remap :: "u32 \<Rightarrow> u32 \<Rightarrow> u8 list" where
  "rsx_texture_component_remap control1 rsx_fmt =
     (let src2res = remap_lanes (rsx_fmt AND 0x9F);
          control1 = (if control1 AND 0xFFFF = 0 then 0xAAE4 else control1)
      in map (\<lambda>i. let s = drop_bit (i * 2) control1 AND 3; op = drop_bit (8 + i * 2) control1 AND 3
                  in if op = 0 then RSX_REMAP_ZERO else if op = 1 then RSX_REMAP_ONE
                     else src2res ! unat s) [0..<4])"

section \<open>Swizzled addresses are a bijection\<close>

text \<open>
  The reference: bits of both coordinates in turn, then the coordinate that has bits left.
\<close>

fun morton :: "nat \<Rightarrow> nat \<Rightarrow> nat \<Rightarrow> nat \<Rightarrow> nat" where
  "morton x y (Suc a) (Suc b) = x mod 2 + 2 * (y mod 2) + 4 * morton (x div 2) (y div 2) a b"
| "morton x y 0 b = y"
| "morton x y (Suc a) 0 = x"

lemma morton_less: "x < 2 ^ a \<Longrightarrow> y < 2 ^ b \<Longrightarrow> morton x y a b < 2 ^ (a + b)"
proof (induction x y a b rule: morton.induct)
  case (1 x y a b)
  then have "morton (x div 2) (y div 2) a b < 2 ^ (a + b)" by simp
  moreover have "x mod 2 \<le> 1" "y mod 2 \<le> 1" by auto
  ultimately have "x mod 2 + 2 * (y mod 2) + 4 * morton (x div 2) (y div 2) a b < 4 * 2 ^ (a + b)" by linarith
  then show ?case by simp
qed auto

lemma morton_inj:
  "\<lbrakk>x < 2 ^ a; y < 2 ^ b; x' < 2 ^ a; y' < 2 ^ b; morton x y a b = morton x' y' a b\<rbrakk> \<Longrightarrow> x = x' \<and> y = y'"
proof (induction x y a b arbitrary: x' y' rule: morton.induct)
  case (1 x y a b)
  have digits: "p < 2 \<Longrightarrow> q < 2 \<Longrightarrow> p' < 2 \<Longrightarrow> q' < 2 \<Longrightarrow> p + 2 * q + 4 * m = p' + 2 * q' + 4 * m' \<Longrightarrow>
      p = p' \<and> q = q' \<and> m = m'" for p q p' q' m m' :: nat
    by (cases "p = 0"; cases "q = 0"; cases "p' = 0"; cases "q' = 0"; simp; presburger)
  from digits [OF _ _ _ _ 1(6) [unfolded morton.simps]]
  have eq: "x mod 2 = x' mod 2" "y mod 2 = y' mod 2"
    "morton (x div 2) (y div 2) a b = morton (x' div 2) (y' div 2) a b" by auto
  have "x div 2 = x' div 2 \<and> y div 2 = y' div 2"
    by (rule 1(1)) (use 1(2-5) eq in auto)
  with eq show ?case by (metis div_mult_mod_eq)
qed auto

lemma unat_or_push_bit:
  fixes v z :: u32
  assumes "unat v < 2 ^ s" "2 ^ s * unat z < 2 ^ 32" "s < 32"
  shows "unat (v OR push_bit s z) = unat v + 2 ^ s * unat z"
proof -
  have "bit (unat v) n \<Longrightarrow> n < s" for n
    using assms(1) by (metis bit_take_bit_iff take_bit_nat_eq_self)
  then have "bit v n \<Longrightarrow> n < s" for n by (simp add: bit_unsigned_iff)
  then have "v AND push_bit s z = 0" by (intro bit_word_eqI) (fastforce simp: bit_simps)
  then have "v OR push_bit s z = v + push_bit s z" by (simp add: disjunctive_add_eq_or)
  moreover have "unat (push_bit s z) = 2 ^ s * unat z"
    using assms(2) by (simp add: push_bit_eq_mult unat_word_ariths unat_pow2 assms(3) mult.commute take_bit_nat_eq_self)
  moreover have "unat v + 2 ^ s * unat z < 2 ^ 32"
  proof -
    have "2 ^ s * (unat z + 1) \<le> 2 ^ 32"
    proof -
      have "(2 :: nat) ^ 32 = 2 ^ s * 2 ^ (32 - s)" using assms(3) by (simp flip: power_add)
      with assms(2) have "2 ^ s * unat z < 2 ^ s * 2 ^ (32 - s)" by (simp only:)
      then have "unat z < 2 ^ (32 - s)" by simp
      then have "2 ^ s * (unat z + 1) \<le> 2 ^ s * 2 ^ (32 - s)" by (intro mult_le_mono2) simp
      also have "\<dots> = 2 ^ 32" using assms(3) by (simp flip: power_add)
      finally show ?thesis .
    qed
    then show ?thesis using assms(1) by (simp add: algebra_simps)
  qed
  ultimately show ?thesis by (simp add: unat_word_ariths)
qed

lemma unat_drop_1: "unat (drop_bit 1 (x :: u32)) = unat x div 2"
  by (simp add: drop_bit_eq_div unat_div)

lemma unat_and_1: "unat ((x :: u32) AND 1) = unat x mod 2"
  by (metis unsigned_and_eq unsigned_1 and_one_eq)

lemma swizzle_loop_end:
  assumes "a = 0 \<or> b = 0" "shift + a + b < 32" "unat off < 2 ^ shift" "unat x < 2 ^ a" "unat y < 2 ^ b"
  shows "\<exists>w. swizzle_loop x y a b off shift = Inr w \<and>
    unat w = unat off + 2 ^ shift * morton (unat x) (unat y) a b"
proof -
  have zero: "x = 0 \<or> y = 0" using assms(1,4,5) by (auto simp: unat_eq_0)
  have m: "unat (x OR y) = morton (unat x) (unat y) a b"
  proof (cases "a = 0")
    case True then show ?thesis using assms(4) by (simp add: unat_eq_0)
  next
    case False
    then have "b = 0" "y = 0" using assms(1,5) by (auto simp: unat_eq_0)
    then show ?thesis using False by (cases a) auto
  qed
  have "unat (x OR y) < 2 ^ (a + b)" unfolding m by (rule morton_less) (use assms in auto)
  then have "2 ^ shift * unat (x OR y) < 2 ^ shift * 2 ^ (a + b)" by simp
  also have "\<dots> \<le> (2 :: nat) ^ 32" unfolding power_add [symmetric] by (rule power_increasing) (use assms(2) in auto)
  finally have "unat (off OR push_bit shift (x OR y)) = unat off + 2 ^ shift * unat (x OR y)"
    using assms by (intro unat_or_push_bit) auto
  moreover have "swizzle_loop x y a b off shift = Inr (off OR push_bit shift (x OR y))"
    using assms(1,2) by (cases a; cases b) auto
  ultimately show ?thesis by (simp add: m)
qed

lemma swizzle_loop_morton:
  assumes "shift + a + b < 32" "unat off < 2 ^ shift" "unat x < 2 ^ a" "unat y < 2 ^ b"
  shows "\<exists>w. swizzle_loop x y a b off shift = Inr w \<and>
    unat w = unat off + 2 ^ shift * morton (unat x) (unat y) a b"
  using assms
proof (induction a arbitrary: b x y off shift)
  case 0
  then show ?case by (intro swizzle_loop_end) auto
next
  case (Suc a)
  show ?case
  proof (cases b)
    case 0
    then show ?thesis using Suc.prems by (intro swizzle_loop_end) auto
  next
    case b: (Suc b')
    define off1 where "off1 = off OR push_bit shift (x AND 1)"
    define off2 where "off2 = off1 OR push_bit (shift + 1) (y AND 1)"
    have p: "(2 :: nat) ^ shift * 4 \<le> 2 ^ 32"
      using power_increasing [of "shift + 2" 32 "2 :: nat"] Suc.prems(1) b by simp
    have 1: "unat off1 = unat off + 2 ^ shift * (unat x mod 2)"
      unfolding off1_def using Suc.prems(1,2) p
      by (subst unat_or_push_bit) (auto simp: unat_and_1 mod_2_eq_odd)
    have l1: "unat off1 < 2 ^ (shift + 1)" using 1 Suc.prems(2) by (cases "even (unat x)") (auto simp: mod_2_eq_odd)
    have 2: "unat off2 = unat off1 + 2 ^ (shift + 1) * (unat y mod 2)"
      unfolding off2_def using Suc.prems(1) p b l1
      by (subst unat_or_push_bit) (auto simp: unat_and_1 mod_2_eq_odd)
    have l2: "unat off2 < 2 ^ (shift + 2)" using 2 l1 by (cases "even (unat y)") (auto simp: mod_2_eq_odd)
    have half: "unat x div 2 < 2 ^ a" "unat y div 2 < 2 ^ b'"
      using Suc.prems(3,4) b by (simp_all add: less_mult_imp_div_less mult.commute)
    obtain w where w: "swizzle_loop (drop_bit 1 x) (drop_bit 1 y) a b' off2 (shift + 2) = Inr w"
      "unat w = unat off2 + 2 ^ (shift + 2) * morton (unat (drop_bit 1 x)) (unat (drop_bit 1 y)) a b'"
      using Suc.IH [of "shift + 2" b' off2 "drop_bit 1 x" "drop_bit 1 y"] Suc.prems b l2 half
      by (auto simp: unat_drop_1 [simplified])
    have "swizzle_loop x y (Suc a) b off shift = Inr w"
      using w(1) Suc.prems(1) b by (simp add: off1_def off2_def or.assoc)
    moreover have "unat w = unat off + 2 ^ shift * morton (unat x) (unat y) (Suc a) b"
      using w(2) 1 2 b by (simp add: unat_drop_1 [simplified] algebra_simps)
    ultimately show ?thesis by blast
  qed
qed

lemma swizzle_offset_morton:
  assumes "a + b < 32" "x < 2 ^ a" "y < 2 ^ b"
  shows "\<exists>w. rsx_swizzle_offset (of_nat x) (of_nat y) a b = Inr w \<and> unat w = morton x y a b"
proof -
  have "x < 2 ^ 32" "y < 2 ^ 32"
    using assms power_strict_increasing [of a 32 "2 :: nat"] power_strict_increasing [of b 32 "2 :: nat"] by auto
  then have "unat (of_nat x :: u32) = x" "unat (of_nat y :: u32) = y"
    by (simp_all add: unat_of_nat take_bit_nat_eq_self)
  then show ?thesis
    using swizzle_loop_morton [of 0 a b 0 "of_nat x" "of_nat y"] assms by (simp add: rsx_swizzle_offset_def)
qed

lemma morton_bij: "bij_betw (\<lambda>(x, y). morton x y a b) ({..<2 ^ a} \<times> {..<2 ^ b}) {..<2 ^ (a + b)}"
proof -
  let ?A = "{..<2 ^ a} \<times> {..<2 ^ b} :: (nat \<times> nat) set"
  let ?f = "\<lambda>(x, y). morton x y a b"
  have inj: "inj_on ?f ?A" by (rule inj_onI) (use morton_inj in fastforce)
  have sub: "?f ` ?A \<subseteq> {..<2 ^ (a + b)}" using morton_less by auto
  have "card (?f ` ?A) = card {..<(2 :: nat) ^ (a + b)}"
    using inj by (simp add: card_image card_cartesian_product power_add)
  with sub have "?f ` ?A = {..<2 ^ (a + b)}" by (intro card_subset_eq) auto
  with inj show ?thesis by (simp add: bij_betw_def)
qed

text \<open>
  C34. For power-of-two dimensions below \<open>2 ^ 32\<close> texels in all, the swizzled address is
  defined for every texel and is a bijection from the texels of the image onto the addresses
  \<open>0\<close> to \<open>w * h - 1\<close>: no two texels share an address and no address is unused.
\<close>

theorem swizzle_bijective:
  assumes "a + b < 32"
  shows "bij_betw (\<lambda>(x, y). rsx_swizzle_offset (of_nat x) (of_nat y) a b)
    ({..<2 ^ a} \<times> {..<2 ^ b}) ((\<lambda>n. Inr (of_nat n)) ` {..<2 ^ (a + b)})"
proof -
  let ?A = "{..<2 ^ a} \<times> {..<2 ^ b} :: (nat \<times> nat) set"
  have small: "(2 :: nat) ^ (a + b) < 2 ^ 32" by (rule power_strict_increasing) (use assms in auto)
  have inj: "inj_on (\<lambda>n. Inr (of_nat n) :: tex_error + u32) {..<2 ^ (a + b)}"
  proof (rule inj_onI)
    fix m n assume mn: "m \<in> {..<2 ^ (a + b)}" "n \<in> {..<(2 :: nat) ^ (a + b)}"
      "Inr (of_nat m) = (Inr (of_nat n) :: tex_error + u32)"
    then have "unat (of_nat m :: u32) = unat (of_nat n :: u32)" by simp
    then show "m = n" using mn(1,2) small by (simp add: unat_of_nat take_bit_nat_eq_self)
  qed
  have "rsx_swizzle_offset (of_nat (fst p)) (of_nat (snd p)) a b = Inr (of_nat (morton (fst p) (snd p) a b))"
    if p: "p \<in> ?A" for p
  proof -
    obtain w where w: "rsx_swizzle_offset (of_nat (fst p)) (of_nat (snd p)) a b = Inr w"
      "unat w = morton (fst p) (snd p) a b"
      using swizzle_offset_morton [of a b "fst p" "snd p"] assms p by (auto simp: mem_Times_iff)
    show ?thesis by (simp add: w(1) flip: w(2))
  qed
  then have "bij_betw (\<lambda>(x, y). rsx_swizzle_offset (of_nat x) (of_nat y) a b) ?A ((\<lambda>n. Inr (of_nat n)) ` {..<2 ^ (a + b)})
    \<longleftrightarrow> bij_betw ((\<lambda>n. Inr (of_nat n) :: tex_error + u32) \<circ> (\<lambda>(x, y). morton x y a b)) ?A
      ((\<lambda>n. Inr (of_nat n)) ` {..<2 ^ (a + b)})"
    by (intro bij_betw_cong) auto
  then show ?thesis
    using bij_betw_trans [OF morton_bij inj_on_imp_bij_betw [OF inj]] by simp
qed

theorem swizzle_bijective_witness:
  "bij_betw (\<lambda>(x, y). rsx_swizzle_offset (of_nat x) (of_nat y) 2 1)
     ({..<2 ^ 2} \<times> {..<2 ^ 1}) ((\<lambda>n. Inr (of_nat n)) ` {..<2 ^ (2 + 1)})"
  by (rule swizzle_bijective) simp

section \<open>Logarithms of the dimensions\<close>

lemma log2_loop_bounds:
  assumes "l \<le> 31" "unat v \<le> 2 ^ 31" "l > 0 \<Longrightarrow> 2 ^ (l - 1) < unat v"
  shows "\<exists>k\<le>31. log2_loop v l = Inr k \<and> unat v \<le> 2 ^ k \<and> (k > 0 \<longrightarrow> 2 ^ (k - 1) < unat v)"
  using assms
proof (induction v l rule: log2_loop.induct)
  case (1 v l)
  have less: "push_bit l 1 < v \<longleftrightarrow> 2 ^ l < unat v"
    using 1(2) by (simp add: word_less_nat_alt push_bit_eq_mult unat_pow2)
  show ?case
  proof (cases "2 ^ l < unat v")
    case True
    then have "(2 :: nat) ^ l < 2 ^ 31" using 1(3) by linarith
    then have "l < 31" by (rule power_less_imp_less_exp [rotated]) simp
    moreover have "\<exists>k\<le>31. log2_loop v (l + 1) = Inr k \<and> unat v \<le> 2 ^ k \<and> (k > 0 \<longrightarrow> 2 ^ (k - 1) < unat v)"
      by (rule 1(1)) (use 1(2,3) True less calculation in auto)
    ultimately show ?thesis using True less by (subst log2_loop.simps) simp
  next
    case False
    then show ?thesis using 1(2,4) less by (subst log2_loop.simps) auto
  qed
qed

lemma log2_ceil_bounds:
  assumes "unat v \<le> 2 ^ 31"
  obtains k where "k \<le> 31" "rsx_log2_ceil v = Inr k" "unat v \<le> 2 ^ k" "k > 0 \<Longrightarrow> 2 ^ (k - 1) < unat v"
  using log2_loop_bounds [of 0 v] assms by (auto simp: rsx_log2_ceil_def)

lemma top_bit: "(2 :: nat) ^ k \<le> n \<Longrightarrow> n < 2 ^ (k + 1) \<Longrightarrow> bit n k"
proof -
  assume "2 ^ k \<le> n" "n < 2 ^ (k + 1)"
  then have "n div 2 ^ k = 1" by (intro div_nat_eqI) auto
  then show ?thesis by (simp add: bit_iff_odd)
qed

lemma log2_ceil_pow2:
  assumes "v \<noteq> 0" "v AND (v - 1) = 0" "unat v \<le> 2 ^ 31"
  shows "\<exists>k\<le>31. rsx_log2_ceil v = Inr k \<and> unat v = 2 ^ k"
proof -
  obtain k where k: "k \<le> 31" "rsx_log2_ceil v = Inr k" "unat v \<le> 2 ^ k" "k > 0 \<Longrightarrow> 2 ^ (k - 1) < unat v"
    using log2_ceil_bounds [OF assms(3)] by blast
  have "unat v = 2 ^ k"
  proof (rule ccontr)
    assume ne: "unat v \<noteq> 2 ^ k"
    moreover have "unat v \<noteq> 0" using assms(1) by (simp add: unat_eq_0)
    ultimately have "k > 0" using k(3) by (cases k) auto
    then obtain j where j: "k = Suc j" by (cases k) auto
    have "bit (unat v) j" using k(3,4) ne j by (intro top_bit) auto
    moreover have "unat (v - 1) = unat v - 1" using assms(1) by (simp add: unat_minus_one)
    then have "bit (unat (v - 1)) j" using k(3,4) ne j by (intro top_bit) auto
    ultimately have "bit (v AND (v - 1)) j" by (simp add: bit_and_iff bit_unsigned_iff)
    then show False using assms(2) by simp
  qed
  with k show ?thesis by auto
qed

section \<open>Rows written by a loop\<close>

definition put_span :: "'a list \<Rightarrow> nat \<Rightarrow> 'a list \<Rightarrow> 'a list" where
  "put_span dst d bs = take d dst @ bs @ drop (d + length bs) dst"

lemma length_put_span [simp]: "d + length bs \<le> length dst \<Longrightarrow> length (put_span dst d bs) = length dst"
  by (simp add: put_span_def)

lemma nth_put_span:
  "d + length bs \<le> length dst \<Longrightarrow> i < length dst \<Longrightarrow>
   put_span dst d bs ! i = (if d \<le> i \<and> i < d + length bs then bs ! (i - d) else dst ! i)"
  by (auto simp: put_span_def nth_append not_less)

lemma put_span_Nil [simp]: "put_span dst d [] = dst"
  by (simp add: put_span_def)

lemma put_put_span:
  "d + length xs + length ys \<le> length dst \<Longrightarrow>
   put_span (put_span dst d xs) (d + length xs) ys = put_span dst d (xs @ ys)"
  by (rule nth_equalityI) (auto simp: nth_put_span nth_append)

lemma length_blocks: "(\<And>x. x < k \<Longrightarrow> length (T x) = n) \<Longrightarrow> length (concat (map T [0..<k])) = k * n"
  by (induction k) auto

lemma for_each_put:
  assumes "\<And>x dst. x < w \<Longrightarrow> length dst = L \<Longrightarrow> body x dst = Inr (put_span dst (B + x * n) (T x))"
    and "\<And>x. x < w \<Longrightarrow> length (T x) = n" and "B + w * n \<le> L" and "length dst = L"
  shows "for_each [0..<w] body dst = Inr (put_span dst B (concat (map T [0..<w])))"
proof -
  have "for_each [0..<k] body dst = Inr (put_span dst B (concat (map T [0..<k])))" if "k \<le> w" for k
    using that
  proof (induction k)
    case (Suc k)
    have len: "length (concat (map T [0..<k])) = k * n"
      using Suc.prems assms(2) by (intro length_blocks) auto
    have "Suc k * n \<le> w * n" using Suc.prems by (intro mult_le_mono1) simp
    then have room: "B + k * n + n \<le> L" using assms(3) by simp
    show ?case
      using Suc.IH Suc.prems assms(1) [of k] assms(2) [of k] room put_put_span [of B "concat (map T [0..<k])" "T k" dst, unfolded len] len assms(4)
      by (simp add: for_each_append andthen_def)
  qed simp
  then show ?thesis by simp
qed

lemma for_each_rows:
  assumes body: "\<And>y dst. y < h \<Longrightarrow> length dst = L \<Longrightarrow> body y dst = Inr (put_span dst (y * P) (R y))"
    and len: "\<And>y. y < h \<Longrightarrow> length (R y) = N" and "N \<le> P" and "h * P \<le> L" and "length dst = L"
  shows "\<exists>dst'. for_each [0..<h] body dst = Inr dst' \<and> length dst' = L \<and>
    (\<forall>y<h. take N (drop (y * P) dst') = R y) \<and>
    (\<forall>i<L. h \<le> i div P \<or> N \<le> i mod P \<longrightarrow> dst' ! i = dst ! i)"
proof -
  define Q where "Q k s \<longleftrightarrow> length s = L \<and> (\<forall>y<k. take N (drop (y * P) s) = R y) \<and>
    (\<forall>i<L. k \<le> i div P \<or> N \<le> i mod P \<longrightarrow> s ! i = dst ! i)" for k and s
  have step: "\<exists>s'. body k s = Inr s' \<and> Q (Suc k) s'" if k: "k < h" and Q: "Q k s" for k s
  proof -
    have room: "y * P + N \<le> Suc y * P" "Suc y * P \<le> L" if "y \<le> k" for y
      using \<open>N \<le> P\<close> mult_le_mono1 [of "Suc y" h P] that k \<open>h * P \<le> L\<close> by auto
    let ?s = "put_span s (k * P) (R k)"
    have L: "length s = L" using Q by (simp add: Q_def)
    have l: "length ?s = L" using L room [of k] len [OF k] by simp
    have nth: "?s ! i = (if k * P \<le> i \<and> i < k * P + N then R k ! (i - k * P) else s ! i)" if "i < L" for i
      using nth_put_span [of "k * P" "R k" s i] that L room [of k] len [OF k] by simp
    have span: "i div P = k \<and> i mod P < N" if "k * P \<le> i" "i < k * P + N" for i
    proof -
      have "i = k * P + (i - k * P)" "i - k * P < N" "i - k * P < P" using that \<open>N \<le> P\<close> by auto
      then show ?thesis by (metis div_mult_self3 mod_mult_self3 div_less mod_less add.commute add_0 gr_implies_not0)
    qed
    have rows: "take N (drop (y * P) ?s) = R y" if y: "y < Suc k" for y
    proof (rule nth_equalityI)
      show "length (take N (drop (y * P) ?s)) = length (R y)" using l room [of y] y len [of y] k by simp
      fix i assume "i < length (take N (drop (y * P) ?s))"
      then have i: "i < N" "y * P + i < L" using l by auto
      show "take N (drop (y * P) ?s) ! i = R y ! i"
      proof (cases "y = k")
        case True
        then show ?thesis using i l nth by simp
      next
        case False
        then have "Suc y * P \<le> k * P" using y by (intro mult_le_mono1) simp
        then have "y * P + i < k * P" using i room(1) [of y] y by linarith
        then have "take N (drop (y * P) ?s) ! i = take N (drop (y * P) s) ! i" using i l nth L by simp
        also have "\<dots> = R y ! i" using Q False y by (simp add: Q_def)
        finally show ?thesis .
      qed
    qed
    have frame: "?s ! i = dst ! i" if "i < L" "Suc k \<le> i div P \<or> N \<le> i mod P" for i
      using nth [OF that(1)] span [of i] Q that by (auto simp: Q_def)
    show ?thesis using body [OF k L] l rows frame by (auto simp: Q_def)
  qed
  have "Q 0 dst" using assms(5) by (simp add: Q_def)
  then show ?thesis using for_each_inv [of Q 0 dst h body] step by (auto simp: Q_def)
qed

lemma concat_block:
  assumes "\<And>x. x < w \<Longrightarrow> length (T x) = n" "x < w"
  shows "take n (drop (x * n) (concat (map T [0..<w]))) = T x"
  using assms
proof (induction w)
  case (Suc w)
  have len: "length (concat (map T [0..<w])) = w * n" using Suc.prems(1) by (intro length_blocks) auto
  show ?case
  proof (cases "x = w")
    case True
    then show ?thesis using len Suc.prems by simp
  next
    case False
    then have "Suc x * n \<le> w * n" using Suc.prems(2) by (intro mult_le_mono1) simp
    then show ?thesis using Suc False len by simp
  qed
qed simp

section \<open>Texels read and write only their own bytes\<close>

lemma picks_local:
  assumes "set is \<subseteq> {..<n}" "s + n \<le> length src"
  shows "picks src s is = Inr (map ((!) (take n (drop s src))) is)"
  using assms by (induction "is") (auto simp: rd_or_def andthen_def)

lemma puts_span: "d + length bs \<le> length dst \<Longrightarrow> puts dst d bs = Inr (put_span dst d bs)"
proof (induction bs arbitrary: dst d)
  case (Cons b bs)
  then have "puts dst d (b # bs) = Inr (put_span (dst[d := b]) (d + 1) bs)"
    by (simp add: wr_or_def andthen_def)
  moreover have "put_span (dst[d := b]) (d + 1) bs = put_span dst d (b # bs)"
    using Cons.prems by (intro nth_equalityI) (auto simp: nth_put_span nth_list_update nth_Cons')
  ultimately show ?case by simp
qed simp

text \<open>What a texel of the bytes \<open>bs\<close> becomes.\<close>

definition texel_of :: "rsx_tex_layout \<Rightarrow> bool \<Rightarrow> u8 list \<Rightarrow> u8 list" where
  "texel_of lay argb bs =
     (case decode_texel lay bs 0 (replicate (unat (tl_dst_bytes_per_texel lay)) 0) 0 argb of
        Inr d \<Rightarrow> d | Inl _ \<Rightarrow> [])"

text \<open>
  A conversion that picks bytes at fixed offsets of the source texel and writes a function of
  them depends on nothing else.
\<close>

definition converts :: "rsx_tex_layout \<Rightarrow> bool \<Rightarrow> nat list \<Rightarrow> (u8 list \<Rightarrow> u8 list) \<Rightarrow> bool" where
  "converts lay argb is g \<longleftrightarrow>
     (\<forall>src s dst d. decode_texel lay src s dst d argb = andthen (picks src s is) (\<lambda>p. puts dst d (g p))) \<and>
     set is \<subseteq> {..<unat (tl_bytes_per_texel lay)} \<and>
     (\<forall>p. length p = length is \<longrightarrow> length (g p) = unat (tl_dst_bytes_per_texel lay))"

lemma put_span_all: "length bs = length dst \<Longrightarrow> put_span dst 0 bs = bs"
  by (simp add: put_span_def)

lemma converts_local:
  assumes "converts lay argb is g"
    and "s + unat (tl_bytes_per_texel lay) \<le> length src" and "d + unat (tl_dst_bytes_per_texel lay) \<le> length dst"
  shows "decode_texel lay src s dst d argb =
      Inr (put_span dst d (texel_of lay argb (take (unat (tl_bytes_per_texel lay)) (drop s src))))"
    and "length (texel_of lay argb (take (unat (tl_bytes_per_texel lay)) (drop s src))) =
      unat (tl_dst_bytes_per_texel lay)"
proof -
  let ?n = "unat (tl_bytes_per_texel lay)" and ?m = "unat (tl_dst_bytes_per_texel lay)"
  let ?bs = "take ?n (drop s src)"
  let ?t = "g (map ((!) ?bs) is)"
  have c: "decode_texel lay src s dst d argb = andthen (picks src s is) (\<lambda>p. puts dst d (g p))"
      "set is \<subseteq> {..<?n}" "length ?t = ?m" for src s dst d
    using assms(1) by (simp_all add: converts_def)
  have "decode_texel lay ?bs 0 (replicate ?m 0) 0 argb = Inr ?t"
    using c(2,3) assms(2) picks_local [of "is" ?n 0 ?bs] puts_span [of 0 ?t "replicate ?m 0"]
    by (simp add: c(1) andthen_def put_span_all)
  then have t: "texel_of lay argb ?bs = ?t" by (simp add: texel_of_def)
  show "decode_texel lay src s dst d argb = Inr (put_span dst d (texel_of lay argb ?bs))"
    using c(2,3) assms(2,3) picks_local [of "is" ?n s src] puts_span [of d ?t dst]
    by (simp add: c(1) andthen_def t)
  show "length (texel_of lay argb ?bs) = ?m" using c(3) t by simp
qed

lemma andthen_be16: "andthen (be16 src s) k = andthen (picks src s [0, 1])
    (\<lambda>p. k (push_bit 8 (ucast (p ! 0)) OR ucast (p ! 1)))"
  by (simp add: be16_def andthen_def split: sum.splits)

lemma andthen_be32: "andthen (be32 src s) k = andthen (picks src s [0, 1, 2, 3])
    (\<lambda>p. k (push_bit 24 (ucast (p ! 0)) OR push_bit 16 (ucast (p ! 1)) OR
            push_bit 8 (ucast (p ! 2)) OR ucast (p ! 3)))"
  by (simp add: be32_def andthen_def split: sum.splits)

definition layout_class :: "rsx_tex_layout \<Rightarrow> bool" where
  "layout_class lay \<longleftrightarrow> \<not> tl_compressed lay \<and>
     format_class (tl_base_format lay) = (tl_fmt lay, 0, tl_bytes_per_texel lay, tl_dst_bytes_per_texel lay)"

lemma converts_rgba:
  assumes "layout_class lay" "tl_base_format lay = 0x85 \<or> tl_base_format lay = 0x9E"
  shows "\<exists>is g. converts lay argb is g"
  using assms
  by (intro exI [of _ "if argb then [0, 1, 2, 3] else [1, 2, 3, 0]"]
      exI [of _ "\<lambda>p. if tl_base_format lay = 0x9E then p[3 := 255] else p"])
    (auto simp: converts_def layout_class_def format_class_def decode_texel_def)

lemma converts_halfword:
  assumes "\<And>src s dst d. decode_texel lay src s dst d argb = andthen (be16 src s) (\<lambda>v. puts dst d (f v))"
    and "\<And>v. length (f v) = unat (tl_dst_bytes_per_texel lay)" and "tl_bytes_per_texel lay = 2"
  shows "\<exists>is g. converts lay argb is g"
  using assms
  by (intro exI [of _ "[0, 1]"] exI [of _ "\<lambda>p. f (push_bit 8 (ucast (p ! 0)) OR ucast (p ! 1))"])
    (simp add: converts_def andthen_be16)

lemma converts_packed:
  assumes "layout_class lay" "tl_base_format lay \<in> {0x82, 0x83, 0x84, 0x97, 0x9D}"
  shows "\<exists>is g. converts lay argb is g"
proof -
  have two: "tl_bytes_per_texel lay = 2" "tl_dst_bytes_per_texel lay = 4"
    using assms by (auto simp: layout_class_def format_class_def)
  show ?thesis
    using assms(2) two(1)
    by (elim insertE emptyE)
      (rule converts_halfword, simp add: decode_texel_def del: puts.simps, simp add: two, simp)+
qed

lemma converts_depth:
  assumes "layout_class lay" "tl_base_format lay = 0x90"
  shows "\<exists>is g. converts lay argb is g"
  using assms
  by (intro exI [of _ "[0, 1, 2, 3]"] exI [of _ "\<lambda>p. le_bytes (of_nat (depth_float (unat (drop_bit 8
      (push_bit 24 (ucast (p ! 0)) OR push_bit 16 (ucast (p ! 1)) OR push_bit 8 (ucast (p ! 2)) OR ucast (p ! 3) :: u32)))))"])
    (auto simp: converts_def layout_class_def format_class_def decode_texel_def andthen_be32 le_bytes_def)

lemma converts_swap:
  assumes "\<And>src s dst d. decode_texel lay src s dst d argb = swap_components dst d src s n k"
    and "unat (tl_bytes_per_texel lay) = n * k" "unat (tl_dst_bytes_per_texel lay) = n * k"
  shows "\<exists>is g. converts lay argb is g"
proof -
  let ?is = "concat (map (\<lambda>c. map (\<lambda>b. c * k + (k - 1 - b)) [0..<k]) [0..<n])"
  have "c * k + (k - 1 - b) < n * k" if "c < n" "b < k" for c b
  proof -
    have "Suc c * k \<le> n * k" using that by (intro mult_le_mono1) simp
    then show ?thesis using that by simp
  qed
  moreover have "length ?is = n * k" by (intro length_blocks) simp
  ultimately have "converts lay argb ?is (\<lambda>p. p)"
    using assms by (auto simp: converts_def swap_components_def)
  then show ?thesis by blast
qed

lemma converts_copy:
  assumes "\<And>src s dst d. decode_texel lay src s dst d argb = copy_span dst d src s n"
    and "unat (tl_bytes_per_texel lay) = n" "unat (tl_dst_bytes_per_texel lay) = n"
  shows "\<exists>is g. converts lay argb is g"
  using assms by (intro exI [of _ "[0..<n]"] exI [of _ "\<lambda>p. p"]) (auto simp: converts_def copy_span_def)

lemma layout_converts:
  assumes "layout_class lay"
  shows "\<exists>is g. converts lay argb is g"
proof -
  consider "tl_base_format lay = 0x85 \<or> tl_base_format lay = 0x9E"
    | "tl_base_format lay \<in> {0x82, 0x83, 0x84, 0x97, 0x9D}" | "tl_base_format lay = 0x90"
    | (other) "tl_base_format lay \<notin> {0x85, 0x9E, 0x82, 0x83, 0x84, 0x97, 0x9D, 0x90}" by blast
  then show ?thesis
  proof cases
    case other
    note d = decode_texel_def Let_def
    show ?thesis
    proof (cases "tl_fmt lay")
      case RSX_TEXFMT_R16
      then show ?thesis using other assms
        by (intro converts_swap [of lay argb 1 2]) (auto simp: d layout_class_def format_class_def split: if_splits)
    next
      case RSX_TEXFMT_R16G16
      then show ?thesis using other assms
        by (intro converts_swap [of lay argb 2 2]) (auto simp: d layout_class_def format_class_def split: if_splits)
    next
      case RSX_TEXFMT_R16G16F
      then show ?thesis using other assms
        by (intro converts_swap [of lay argb 2 2]) (auto simp: d layout_class_def format_class_def split: if_splits)
    next
      case RSX_TEXFMT_R16G16B16A16F
      then show ?thesis using other assms
        by (intro converts_swap [of lay argb 4 2]) (auto simp: d layout_class_def format_class_def split: if_splits)
    next
      case RSX_TEXFMT_R32F
      then show ?thesis using other assms
        by (intro converts_swap [of lay argb 1 4]) (auto simp: d layout_class_def format_class_def split: if_splits)
    next
      case RSX_TEXFMT_R32G32B32A32F
      then show ?thesis using other assms
        by (intro converts_swap [of lay argb 4 4]) (auto simp: d layout_class_def format_class_def split: if_splits)
    qed (use other assms in \<open>intro converts_copy [of lay argb "unat (tl_dst_bytes_per_texel lay)"];
        auto simp: d layout_class_def format_class_def split: if_splits\<close>)+
  qed (use assms in \<open>auto intro: converts_rgba converts_packed converts_depth\<close>)
qed

section \<open>Layouts of textures the hardware takes\<close>

text \<open>
  The largest texture is 4096 texels wide and high, and the pitch register has 20 bits. Within
  these limits no size of a layout wraps.
\<close>

definition hw_limits :: "u32 \<Rightarrow> u32 \<Rightarrow> u32 \<Rightarrow> bool" where
  "hw_limits w h pitch \<longleftrightarrow> w \<le> 4096 \<and> h \<le> 4096 \<and> pitch < 0x100000"

lemma hw_limitsD:
  assumes "hw_limits w h pitch"
  shows "unat w \<le> 4096" "unat h \<le> 4096" "unat pitch < 1048576"
  using assms by (simp_all add: hw_limits_def word_le_nat_alt word_less_nat_alt)

lemma unat_mult_u32: "unat a * unat b < 4294967296 \<Longrightarrow> unat (a * b :: u32) = unat a * unat b"
  by (simp add: unat_word_ariths)

lemma unat_mult_bpp:
  assumes "unat (w :: u32) \<le> 4096" "unat b \<le> 16"
  shows "unat (w * b) = unat w * unat b" "unat w * unat b \<le> 65536"
proof -
  show "unat w * unat b \<le> 65536" using mult_le_mono [OF assms] by simp
  then show "unat (w * b) = unat w * unat b" by (intro unat_mult_u32) simp
qed

lemma format_class_bounds:
  assumes "format_class b = (f, k, sb, db)"
  shows "unat sb \<le> 16" "unat db \<le> 16" "unat k \<le> 16" "0 < unat sb" "0 < unat db"
    "f = RSX_TEXFMT_R8 \<or> f = RSX_TEXFMT_R8G8 \<Longrightarrow> sb = db \<and> b \<notin> {0x85, 0x9E, 0x82, 0x83, 0x84, 0x97, 0x9D, 0x90}"
  using assms by (auto simp: format_class_def split: if_splits)

lemma layout_plain:
  assumes lay: "lay = rsx_texture_layout_pitched rsx_fmt w h pitch" and "\<not> tl_compressed lay"
    and lim: "hw_limits w h pitch"
  shows "layout_class lay"
    and "unat (tl_dst_row_bytes lay) = unat w * unat (tl_dst_bytes_per_texel lay)"
    and "tl_rows lay = h"
    and "unat w * unat (tl_bytes_per_texel lay) \<le> unat (tl_row_bytes lay)"
    and "unat (tl_face_bytes lay) = unat (tl_row_bytes lay) * unat h"
    and "tl_swizzled lay \<Longrightarrow> unat (tl_row_bytes lay) = unat w * unat (tl_bytes_per_texel lay)"
    and "tl_swizzled lay \<Longrightarrow> w \<noteq> 0 \<and> h \<noteq> 0 \<and> w AND (w - 1) = 0 \<and> h AND (h - 1) = 0"
proof -
  obtain f k sb db where c: "format_class (rsx_fmt AND 0x9F) = (f, k, sb, db)" using prod_cases4 by blast
  note b = format_class_bounds [OF c] and l = hw_limitsD [OF lim]
  have k: "k = 0" using assms(2) by (auto simp: lay rsx_texture_layout_pitched_def c Let_def split: if_splits)
  note d = lay rsx_texture_layout_pitched_def c Let_def k
  show "layout_class lay" by (simp add: layout_class_def d c [unfolded k])
  show "unat (tl_dst_row_bytes lay) = unat w * unat (tl_dst_bytes_per_texel lay)"
    using unat_mult_bpp(1) [OF l(1) b(2)] by (simp add: d)
  show "tl_rows lay = h" by (simp add: d)
  have w: "unat (w * sb) = unat w * unat sb" "unat w * unat sb \<le> 65536" using unat_mult_bpp [OF l(1) b(1)] by auto
  then show row: "unat w * unat (tl_bytes_per_texel lay) \<le> unat (tl_row_bytes lay)"
    by (auto simp: d word_less_nat_alt)
  have "unat (tl_row_bytes lay) \<le> 1048575" using w l(3) by (auto simp: d)
  then have "unat (tl_row_bytes lay) * unat h \<le> 1048575 * 4096" using l(2) by (rule mult_le_mono)
  then show "unat (tl_face_bytes lay) = unat (tl_row_bytes lay) * unat h"
    using unat_mult_u32 [of "tl_row_bytes lay" h] by (simp add: d split: if_splits)
  show "tl_swizzled lay \<Longrightarrow> unat (tl_row_bytes lay) = unat w * unat (tl_bytes_per_texel lay)"
    using w by (auto simp: d)
  show "tl_swizzled lay \<Longrightarrow> w \<noteq> 0 \<and> h \<noteq> 0 \<and> w AND (w - 1) = 0 \<and> h AND (h - 1) = 0"
    by (auto simp: d)
qed

lemma layout_blocks:
  assumes lay: "lay = rsx_texture_layout_pitched rsx_fmt w h pitch" and "tl_compressed lay"
    and lim: "hw_limits w h pitch"
  shows "tl_dst_row_bytes lay = tl_row_bytes lay"
    and "unat (tl_face_bytes lay) = unat (tl_row_bytes lay) * unat (tl_rows lay)"
proof -
  obtain f k sb db where c: "format_class (rsx_fmt AND 0x9F) = (f, k, sb, db)" using prod_cases4 by blast
  note b = format_class_bounds [OF c] and l = hw_limitsD [OF lim]
  have k: "k \<noteq> 0" using assms(2) by (auto simp: lay rsx_texture_layout_pitched_def c Let_def split: if_splits)
  note d = lay rsx_texture_layout_pitched_def c Let_def k
  show "tl_dst_row_bytes lay = tl_row_bytes lay" by (simp add: d)
  have q: "unat ((v + 3) div 4) \<le> 4096" if "unat (v :: u32) \<le> 4096" for v
    using that by (simp add: unat_div unat_word_ariths)
  have r: "unat ((w + 3) div 4 * k) \<le> 65536" using unat_mult_bpp [OF q [OF l(1)] b(3)] by simp
  have "unat ((w + 3) div 4 * k) * unat ((h + 3) div 4) \<le> 65536 * 4096" using r q [OF l(2)] by (rule mult_le_mono)
  then show "unat (tl_face_bytes lay) = unat (tl_row_bytes lay) * unat (tl_rows lay)"
    using unat_mult_u32 [of "(w + 3) div 4 * k" "(h + 3) div 4"] by (simp add: d)
qed

section \<open>The decoder converts every texel\<close>

text \<open>Where the guest keeps texel \<open>(x, y)\<close> of an image of \<open>2 ^ a\<close> by \<open>2 ^ b\<close> texels when it is swizzled.\<close>

definition guest_address :: "rsx_tex_layout \<Rightarrow> nat \<Rightarrow> nat \<Rightarrow> nat \<Rightarrow> nat \<Rightarrow> nat" where
  "guest_address lay a b x y =
     (if tl_swizzled lay then morton x y a b * unat (tl_bytes_per_texel lay)
      else y * unat (tl_row_bytes lay) + x * unat (tl_bytes_per_texel lay))"

definition guest_texel :: "rsx_tex_layout \<Rightarrow> nat \<Rightarrow> nat \<Rightarrow> u8 list \<Rightarrow> nat \<Rightarrow> nat \<Rightarrow> u8 list" where
  "guest_texel lay a b src x y = take (unat (tl_bytes_per_texel lay)) (drop (guest_address lay a b x y) src)"

lemma last_texel_fits:
  fixes y h row x w n :: nat
  assumes "y < h" "x < w" "w * n \<le> row"
  shows "y * row + x * n + n \<le> row * h"
proof -
  have "Suc y * row \<le> h * row" "Suc x * n \<le> w * n" by (rule mult_le_mono1, use assms in simp)+
  then show ?thesis using assms by (simp add: mult.commute)
qed

lemma texel_source_address:
  assumes lay: "lay = rsx_texture_layout_pitched rsx_fmt w h pitch" "\<not> tl_compressed lay" "hw_limits w h pitch"
    and pow: "tl_swizzled lay \<Longrightarrow> unat w = 2 ^ a \<and> unat h = 2 ^ b"
    and xy: "x < unat w" "y < unat h"
  shows "texel_source lay a b x y = Inr (guest_address lay a b x y)"
    and "guest_address lay a b x y + unat (tl_bytes_per_texel lay) \<le> unat (tl_face_bytes lay)"
proof -
  note p = layout_plain [OF lay] and l = hw_limitsD [OF lay(3)]
  show "texel_source lay a b x y = Inr (guest_address lay a b x y)"
  proof (cases "tl_swizzled lay")
    case True
    have "(2 :: nat) ^ a < 2 ^ 13" "(2 :: nat) ^ b < 2 ^ 13" using pow [OF True] l by auto
    then have "a < 13" "b < 13" by (simp_all only: power_strict_increasing_iff)
    then show ?thesis
      using swizzle_offset_morton [of a b x y] xy pow [OF True] True
      by (auto simp: texel_source_def guest_address_def andthen_def)
  qed (simp add: texel_source_def guest_address_def)
  show "guest_address lay a b x y + unat (tl_bytes_per_texel lay) \<le> unat (tl_face_bytes lay)"
  proof (cases "tl_swizzled lay")
    case True
    have "morton x y a b < unat w * unat h"
      using morton_less [of x a y b] xy pow [OF True] by (simp add: power_add)
    then have "Suc (morton x y a b) * unat (tl_bytes_per_texel lay) \<le> unat w * unat h * unat (tl_bytes_per_texel lay)"
      by (intro mult_le_mono1) simp
    then show ?thesis using True p(5,6) by (simp add: guest_address_def ac_simps)
  next
    case False
    then show ?thesis using last_texel_fits [OF xy(2,1) p(4)] p(5) by (simp add: guest_address_def)
  qed
qed

definition texel_row :: "rsx_tex_layout \<Rightarrow> nat \<Rightarrow> nat \<Rightarrow> bool \<Rightarrow> u8 list \<Rightarrow> nat \<Rightarrow> nat \<Rightarrow> u8 list" where
  "texel_row lay a b argb src w y = concat (map (\<lambda>x. texel_of lay argb (guest_texel lay a b src x y)) [0..<w])"

lemma copy_span_span:
  assumes "s + n \<le> length src" "d + n \<le> length dst"
  shows "copy_span dst d src s n = Inr (put_span dst d (take n (drop s src)))"
proof -
  have "map ((!) (take n (drop s src))) [0..<n] = take n (drop s src)"
    using assms(1) by (intro nth_equalityI) auto
  then show ?thesis
    using assms picks_local [of "[0..<n]" n s src] puts_span [of d "take n (drop s src)" dst]
    by (simp add: copy_span_def andthen_def atLeast0LessThan)
qed

lemma row_fits:
  fixes P L N :: nat
  assumes "y < h" "h * P \<le> L" "N \<le> P"
  shows "y * P + N \<le> L"
proof -
  have "Suc y * P \<le> h * P" by (rule mult_le_mono1) (use assms in simp)
  then show ?thesis using assms by simp
qed

lemma copy_rows_rows:
  assumes "n \<le> P" "h * P \<le> length dst" "n \<le> row" "h * row \<le> length src"
  shows "\<exists>dst'. copy_rows h P row n src dst = Inr dst' \<and> length dst' = length dst \<and>
    (\<forall>y<h. take n (drop (y * P) dst') = take n (drop (y * row) src)) \<and>
    (\<forall>i<length dst. h \<le> i div P \<or> n \<le> i mod P \<longrightarrow> dst' ! i = dst ! i)"
  unfolding copy_rows_def
proof (rule for_each_rows)
  fix y and d :: "u8 list"
  assume "y < h"
  then have "y * row + n \<le> length src" using assms(3,4) by (intro row_fits)
  then show "length (take n (drop (y * row) src)) = n" by simp
  assume "length d = length dst"
  then show "copy_span d (y * P) src (y * row) n = Inr (put_span d (y * P) (take n (drop (y * row) src)))"
    using \<open>y < h\<close> assms \<open>y * row + n \<le> length src\<close> by (intro copy_span_span) (auto intro: row_fits)
qed (use assms in auto)

lemma texel_of_guest:
  assumes lay: "lay = rsx_texture_layout_pitched rsx_fmt w h pitch" "\<not> tl_compressed lay" "hw_limits w h pitch"
    and pow: "tl_swizzled lay \<Longrightarrow> unat w = 2 ^ a \<and> unat h = 2 ^ b"
    and xy: "x < unat w" "y < unat h" and src: "unat (tl_face_bytes lay) \<le> length src"
  shows "length (texel_of lay argb (guest_texel lay a b src x y)) = unat (tl_dst_bytes_per_texel lay)"
    and "d + unat (tl_dst_bytes_per_texel lay) \<le> length dst \<Longrightarrow>
      andthen (texel_source lay a b x y) (\<lambda>s. decode_texel lay src s dst d argb) =
      Inr (put_span dst d (texel_of lay argb (guest_texel lay a b src x y)))"
proof -
  obtain "is" g where conv: "converts lay argb is g" using layout_converts [OF layout_plain(1) [OF lay]] by blast
  note ts = texel_source_address [OF lay pow xy]
  have fits: "guest_address lay a b x y + unat (tl_bytes_per_texel lay) \<le> length src" using ts(2) src by simp
  have c: "\<And>dst :: u8 list. d + unat (tl_dst_bytes_per_texel lay) \<le> length dst \<Longrightarrow>
      decode_texel lay src (guest_address lay a b x y) dst d argb =
      Inr (put_span dst d (texel_of lay argb (guest_texel lay a b src x y)))" for d
    unfolding guest_texel_def by (rule converts_local(1) [OF conv fits])
  show "length (texel_of lay argb (guest_texel lay a b src x y)) = unat (tl_dst_bytes_per_texel lay)"
    using converts_local(2) [OF conv fits, of 0 "replicate (unat (tl_dst_bytes_per_texel lay)) 0"]
    by (simp add: guest_texel_def)
  show "andthen (texel_source lay a b x y) (\<lambda>s. decode_texel lay src s dst d argb) =
      Inr (put_span dst d (texel_of lay argb (guest_texel lay a b src x y)))"
    if "d + unat (tl_dst_bytes_per_texel lay) \<le> length dst"
    using ts(1) c [OF that] by (simp add: andthen_def)
qed

lemma length_texel_row:
  assumes "lay = rsx_texture_layout_pitched rsx_fmt w h pitch" "\<not> tl_compressed lay" "hw_limits w h pitch"
    and "tl_swizzled lay \<Longrightarrow> unat w = 2 ^ a \<and> unat h = 2 ^ b"
    and "y < unat h" "unat (tl_face_bytes lay) \<le> length src"
  shows "length (texel_row lay a b argb src (unat w) y) = unat w * unat (tl_dst_bytes_per_texel lay)"
  unfolding texel_row_def by (rule length_blocks) (use texel_of_guest(1) [OF assms(1-4) _ assms(5,6)] in blast)

lemma texel_rows_rows:
  assumes lay: "lay = rsx_texture_layout_pitched rsx_fmt w h pitch" "\<not> tl_compressed lay" "hw_limits w h pitch"
    and pow: "tl_swizzled lay \<Longrightarrow> unat w = 2 ^ a \<and> unat h = 2 ^ b"
    and src: "unat (tl_face_bytes lay) \<le> length src"
    and P: "unat w * unat (tl_dst_bytes_per_texel lay) \<le> P" and dst: "unat h * P \<le> length dst"
  shows "\<exists>dst'. texel_rows lay (unat w) (unat h) a b P src argb dst = Inr dst' \<and> length dst' = length dst \<and>
    (\<forall>y<unat h. take (unat w * unat (tl_dst_bytes_per_texel lay)) (drop (y * P) dst') =
       texel_row lay a b argb src (unat w) y) \<and>
    (\<forall>i<length dst. unat h \<le> i div P \<or> unat w * unat (tl_dst_bytes_per_texel lay) \<le> i mod P \<longrightarrow> dst' ! i = dst ! i)"
  unfolding texel_rows_def
proof (rule for_each_rows)
  fix y and d :: "u8 list"
  let ?m = "unat (tl_dst_bytes_per_texel lay)"
  assume y: "y < unat h"
  show "length (texel_row lay a b argb src (unat w) y) = unat w * ?m"
    using length_texel_row [OF lay pow y src] by blast
  assume d: "length d = length dst"
  show "for_each [0..<unat w] (\<lambda>x dst. andthen (texel_source lay a b x y)
      (\<lambda>s. decode_texel lay src s dst (y * P + x * ?m) argb)) d =
    Inr (put_span d (y * P) (texel_row lay a b argb src (unat w) y))"
    unfolding texel_row_def
  proof (rule for_each_put)
    fix x and d' :: "u8 list"
    assume x: "x < unat w"
    show "length (texel_of lay argb (guest_texel lay a b src x y)) = ?m"
      using texel_of_guest(1) [OF lay pow x y src] by blast
    assume "length d' = length dst"
    moreover have "x * ?m + ?m \<le> unat w * ?m" by (rule row_fits [OF x]) auto
    moreover have "y * P + unat w * ?m \<le> length dst" by (rule row_fits [OF y dst P])
    ultimately have "y * P + x * ?m + ?m \<le> length d'" by simp
    then show "andthen (texel_source lay a b x y) (\<lambda>s. decode_texel lay src s d' (y * P + x * ?m) argb) =
        Inr (put_span d' (y * P + x * ?m) (texel_of lay argb (guest_texel lay a b src x y)))"
      using texel_of_guest(2) [OF lay pow x y src] by blast
  qed (use row_fits [OF y dst P] d in auto)
qed (use P dst in auto)

text \<open>The row copy of the one-byte formats is the texel-by-texel conversion.\<close>

lemma take_blocks: "take (w * n) xs = concat (map (\<lambda>x. take n (drop (x * n) xs)) [0..<w])"
  by (induction w) (simp_all add: take_add add.commute [of n])

lemma texel_of_bytes:
  assumes "layout_class lay" "tl_fmt lay = RSX_TEXFMT_R8 \<or> tl_fmt lay = RSX_TEXFMT_R8G8"
    and "length bs = unat (tl_bytes_per_texel lay)"
  shows "texel_of lay argb bs = bs" and "tl_bytes_per_texel lay = tl_dst_bytes_per_texel lay"
proof -
  have c: "format_class (tl_base_format lay) = (tl_fmt lay, 0, tl_bytes_per_texel lay, tl_dst_bytes_per_texel lay)"
    using assms(1) by (simp add: layout_class_def)
  note b = format_class_bounds(6) [OF c assms(2)]
  then show eq: "tl_bytes_per_texel lay = tl_dst_bytes_per_texel lay" by simp
  have "decode_texel lay bs 0 dst 0 argb = copy_span dst 0 bs 0 (unat (tl_dst_bytes_per_texel lay))" for dst
    using b assms(2) by (auto simp: decode_texel_def Let_def)
  then show "texel_of lay argb bs = bs"
    using copy_span_span [of 0 "length bs" bs 0 "replicate (length bs) 0"] assms(3) eq
    by (simp add: texel_of_def put_span_all)
qed

lemma copied_row:
  assumes lay: "lay = rsx_texture_layout_pitched rsx_fmt w h pitch" "\<not> tl_compressed lay" "hw_limits w h pitch"
    and fmt: "tl_fmt lay = RSX_TEXFMT_R8 \<or> tl_fmt lay = RSX_TEXFMT_R8G8" "\<not> tl_swizzled lay"
    and src: "unat (tl_face_bytes lay) \<le> length src" and y: "y < unat h"
  shows "take (unat w * unat (tl_bytes_per_texel lay)) (drop (y * unat (tl_row_bytes lay)) src) =
    texel_row lay a b argb src (unat w) y"
proof -
  let ?n = "unat (tl_bytes_per_texel lay)"
  have "texel_of lay argb (guest_texel lay a b src x y) = take ?n (drop (x * ?n) (drop (y * unat (tl_row_bytes lay)) src))"
    if x: "x < unat w" for x
  proof -
    have "guest_address lay a b x y + ?n \<le> length src"
      using texel_source_address(2) [OF lay, of a b x y] fmt(2) x y src by simp
    then show ?thesis
      using texel_of_bytes(1) [OF layout_plain(1) [OF lay] fmt(1)] fmt(2)
      by (simp add: guest_texel_def guest_address_def add.commute)
  qed
  then show ?thesis
    unfolding texel_row_def take_blocks by (intro arg_cong [of _ _ concat] map_cong) auto
qed

lemma decode_rows:
  assumes lay: "lay = rsx_texture_layout_pitched rsx_fmt w h pitch" "hw_limits w h pitch"
    and wh: "w \<noteq> 0" "h \<noteq> 0" and src: "unat (tl_face_bytes lay) \<le> length src"
    and P: "unat (tl_dst_row_bytes lay) \<le> unat dst_pitch" and dst: "unat (tl_rows lay) * unat dst_pitch \<le> length dst"
  obtains a b dst' where "rsx_texture_decode dst dst_pitch src w h lay argb = Inr dst'" "length dst' = length dst"
    "tl_swizzled lay \<Longrightarrow> unat w = 2 ^ a \<and> unat h = 2 ^ b"
    "\<forall>y<unat (tl_rows lay). take (unat (tl_dst_row_bytes lay)) (drop (y * unat dst_pitch) dst') =
       (if tl_compressed lay then take (unat (tl_row_bytes lay)) (drop (y * unat (tl_row_bytes lay)) src)
        else texel_row lay a b argb src (unat w) y)"
    "\<forall>i<length dst. unat (tl_rows lay) \<le> i div unat dst_pitch \<or> unat (tl_dst_row_bytes lay) \<le> i mod unat dst_pitch
       \<longrightarrow> dst' ! i = dst ! i"
proof (cases "tl_compressed lay")
  case True
  note bl = layout_blocks [OF lay(1) True lay(2)]
  have "\<not> tl_swizzled lay" using True by (auto simp: lay(1) rsx_texture_layout_pitched_def Let_def split: prod.splits if_splits)
  moreover obtain dst' where "copy_rows (unat (tl_rows lay)) (unat dst_pitch) (unat (tl_row_bytes lay))
      (unat (tl_row_bytes lay)) src dst = Inr dst'" "length dst' = length dst"
      "\<forall>y<unat (tl_rows lay). take (unat (tl_row_bytes lay)) (drop (y * unat dst_pitch) dst') =
        take (unat (tl_row_bytes lay)) (drop (y * unat (tl_row_bytes lay)) src)"
      "\<forall>i<length dst. unat (tl_rows lay) \<le> i div unat dst_pitch \<or> unat (tl_row_bytes lay) \<le> i mod unat dst_pitch
        \<longrightarrow> dst' ! i = dst ! i"
    using copy_rows_rows [of "unat (tl_row_bytes lay)" "unat dst_pitch" "unat (tl_rows lay)" dst "unat (tl_row_bytes lay)" src]
      P dst src bl by (auto simp: mult.commute)
  ultimately show thesis using that [of dst' 0 0] True wh bl(1) by (auto simp: rsx_texture_decode_def)
next
  case False
  note p = layout_plain [OF lay(1) False lay(2)] and l = hw_limitsD [OF lay(2)]
  have w31: "unat w \<le> 2 ^ 31" "unat h \<le> 2 ^ 31" using l by simp_all
  obtain a where a: "rsx_log2_ceil w = Inr a" "tl_swizzled lay \<Longrightarrow> unat w = 2 ^ a"
    using log2_ceil_pow2 [OF _ _ w31(1)] log2_ceil_bounds [OF w31(1)] p(7) by (metis (no_types))
  obtain b where b: "rsx_log2_ceil h = Inr b" "tl_swizzled lay \<Longrightarrow> unat h = 2 ^ b"
    using log2_ceil_pow2 [OF _ _ w31(2)] log2_ceil_bounds [OF w31(2)] p(7) by (metis (no_types))
  have pow: "tl_swizzled lay \<Longrightarrow> unat w = 2 ^ a \<and> unat h = 2 ^ b" using a(2) b(2) by simp
  let ?fast = "(tl_fmt lay = RSX_TEXFMT_R8 \<or> tl_fmt lay = RSX_TEXFMT_R8G8) \<and> \<not> tl_swizzled lay"
  have dec: "rsx_texture_decode dst dst_pitch src w h lay argb =
      (if ?fast then copy_rows (unat h) (unat dst_pitch) (unat (tl_row_bytes lay)) (unat w * unat (tl_bytes_per_texel lay)) src dst
       else texel_rows lay (unat w) (unat h) a b (unat dst_pitch) src argb dst)"
    using False wh a(1) b(1) by (simp add: rsx_texture_decode_def andthen_def)
  have "\<exists>dst'. rsx_texture_decode dst dst_pitch src w h lay argb = Inr dst' \<and> length dst' = length dst \<and>
    (\<forall>y<unat h. take (unat (tl_dst_row_bytes lay)) (drop (y * unat dst_pitch) dst') = texel_row lay a b argb src (unat w) y) \<and>
    (\<forall>i<length dst. unat h \<le> i div unat dst_pitch \<or> unat (tl_dst_row_bytes lay) \<le> i mod unat dst_pitch \<longrightarrow> dst' ! i = dst ! i)"
  proof (cases ?fast)
    case True
    have same: "tl_bytes_per_texel lay = tl_dst_bytes_per_texel lay"
      using texel_of_bytes(2) [OF p(1), of "replicate (unat (tl_bytes_per_texel lay)) 0"] True by simp
    show ?thesis
      using copy_rows_rows [of "unat w * unat (tl_bytes_per_texel lay)" "unat dst_pitch" "unat h" dst "unat (tl_row_bytes lay)" src]
        copied_row [OF lay(1) False lay(2) _ _ src, of _ a b argb] True P dst src p same
      by (auto simp: dec mult.commute)
  next
    case fast: False
    have "rsx_texture_decode dst dst_pitch src w h lay argb =
        texel_rows lay (unat w) (unat h) a b (unat dst_pitch) src argb dst"
      unfolding dec using fast by (rule if_not_P)
    then show ?thesis
      using texel_rows_rows [OF lay(1) False lay(2) pow src, of "unat dst_pitch" dst argb] P dst p by simp
  qed
  then show thesis using that [of _ a b] pow False p(3) by auto
qed

text \<open>
  C11. The decoder stays inside its buffers: given the bytes of one face and a destination of
  \<open>dst_pitch * rows\<close> bytes with a pitch of at least one decoded row, it accesses no byte
  outside them and shifts by no undefined amount, in every format, and it changes no byte
  between the rows or after them.
\<close>

theorem texture_decode_safe:
  assumes "hw_limits w h pitch" "lay = rsx_texture_layout_pitched rsx_fmt w h pitch"
    and "unat (tl_face_bytes lay) \<le> length src" "tl_dst_row_bytes lay \<le> dst_pitch"
    and "unat (tl_rows lay) * unat dst_pitch \<le> length dst"
  shows "\<exists>dst'. rsx_texture_decode dst dst_pitch src w h lay argb = Inr dst' \<and> length dst' = length dst \<and>
    (\<forall>i<length dst. unat (tl_rows lay) \<le> i div unat dst_pitch \<or> unat (tl_dst_row_bytes lay) \<le> i mod unat dst_pitch
       \<longrightarrow> dst' ! i = dst ! i)"
proof (cases "w = 0 \<or> h = 0")
  case False
  with assms show ?thesis
    by (auto intro: decode_rows [of lay rsx_fmt w h pitch src dst_pitch dst argb] simp: word_le_nat_alt)
qed (simp add: rsx_texture_decode_def)

theorem texture_decode_safe_witness:
  "\<exists>dst'. rsx_texture_decode (replicate 20 7) 10 (map of_nat [0..<16]) 2 2 (rsx_texture_layout_pitched 0x85 2 2 0) False = Inr dst' \<and>
     length dst' = length (replicate 20 (7 :: u8)) \<and>
    (\<forall>i<length (replicate 20 (7 :: u8)). unat (tl_rows (rsx_texture_layout_pitched 0x85 2 2 0)) \<le> i div unat (10 :: u32) \<or>
       unat (tl_dst_row_bytes (rsx_texture_layout_pitched 0x85 2 2 0)) \<le> i mod unat (10 :: u32)
       \<longrightarrow> dst' ! i = replicate 20 (7 :: u8) ! i)"
  by (rule texture_decode_safe [OF _ refl]) (code_simp+)

text \<open>
  C15. Every texel of an uncompressed image is converted: the bytes at column \<open>x\<close> of decoded
  row \<open>y\<close> are the conversion of the texel the guest stores at \<open>(x, y)\<close>, in Morton order
  when the layout is swizzled and at its row pitch otherwise. In particular the row copy of the
  one-byte formats agrees with the texel-by-texel conversion.
\<close>

theorem texture_decode_texels:
  assumes "hw_limits w h pitch" "lay = rsx_texture_layout_pitched rsx_fmt w h pitch" "\<not> tl_compressed lay"
    and "w \<noteq> 0" "h \<noteq> 0" "unat (tl_face_bytes lay) \<le> length src" "tl_dst_row_bytes lay \<le> dst_pitch"
    and "unat h * unat dst_pitch \<le> length dst"
  shows "\<exists>dst' a b. rsx_texture_decode dst dst_pitch src w h lay argb = Inr dst' \<and>
    (tl_swizzled lay \<longrightarrow> unat w = 2 ^ a \<and> unat h = 2 ^ b) \<and>
    (\<forall>x<unat w. \<forall>y<unat h.
       decode_texel lay (guest_texel lay a b src x y) 0 (replicate (unat (tl_dst_bytes_per_texel lay)) 0) 0 argb =
       Inr (take (unat (tl_dst_bytes_per_texel lay))
              (drop (y * unat dst_pitch + x * unat (tl_dst_bytes_per_texel lay)) dst')))"
proof -
  note p = layout_plain [OF assms(2,3,1)]
  let ?m = "unat (tl_dst_bytes_per_texel lay)" and ?n = "unat (tl_bytes_per_texel lay)"
  have P: "unat (tl_dst_row_bytes lay) \<le> unat dst_pitch" using assms(7) by (simp add: word_le_nat_alt)
  have dst: "unat (tl_rows lay) * unat dst_pitch \<le> length dst" using assms(8) p(3) by simp
  obtain a b dst' where d: "rsx_texture_decode dst dst_pitch src w h lay argb = Inr dst'"
      "tl_swizzled lay \<Longrightarrow> unat w = 2 ^ a \<and> unat h = 2 ^ b"
      "\<forall>y<unat h. take (unat w * ?m) (drop (y * unat dst_pitch) dst') = texel_row lay a b argb src (unat w) y"
    by (rule decode_rows [OF assms(2,1,4,5,6) P dst, of argb]) (use assms(3) p(2,3) in auto)
  obtain "is" g where conv: "converts lay argb is g" using layout_converts [OF p(1)] by blast
  have "decode_texel lay (guest_texel lay a b src x y) 0 (replicate ?m 0) 0 argb =
      Inr (take ?m (drop (y * unat dst_pitch + x * ?m) dst'))" if x: "x < unat w" and y: "y < unat h" for x y
  proof -
    have len: "\<And>x. x < unat w \<Longrightarrow> length (texel_of lay argb (guest_texel lay a b src x y)) = ?m"
      using texel_of_guest(1) [OF assms(2,3,1) d(2) _ y assms(6)] by blast
    have "Suc x * ?m \<le> unat w * ?m" by (rule mult_le_mono1) (use x in simp)
    then have "take ?m (drop (y * unat dst_pitch + x * ?m) dst') =
        take ?m (drop (x * ?m) (take (unat w * ?m) (drop (y * unat dst_pitch) dst')))"
      by (simp add: drop_take add.commute min_def)
    also have "\<dots> = texel_of lay argb (guest_texel lay a b src x y)"
      using d(3) y by (simp add: texel_row_def concat_block [OF len x])
    finally have eq: "take ?m (drop (y * unat dst_pitch + x * ?m) dst') = texel_of lay argb (guest_texel lay a b src x y)" .
    have "length (guest_texel lay a b src x y) = ?n"
      using texel_source_address(2) [OF assms(2,3,1) d(2) x y] assms(6) by (simp add: guest_texel_def)
    then show ?thesis
      using converts_local(1) [OF conv, of 0 "guest_texel lay a b src x y" 0 "replicate ?m 0"] len [OF x]
      by (simp add: eq put_span_all)
  qed
  then show ?thesis using d(1,2) by blast
qed

theorem texture_decode_texels_witness:
  "\<exists>dst' a b. rsx_texture_decode (replicate 20 7) 10 (map of_nat [0..<16]) 2 2 (rsx_texture_layout_pitched 0x85 2 2 0) False = Inr dst' \<and>
    (tl_swizzled (rsx_texture_layout_pitched 0x85 2 2 0) \<longrightarrow> unat (2 :: u32) = 2 ^ a \<and> unat (2 :: u32) = 2 ^ b) \<and>
    (\<forall>x<unat (2 :: u32). \<forall>y<unat (2 :: u32).
       decode_texel (rsx_texture_layout_pitched 0x85 2 2 0)
         (guest_texel (rsx_texture_layout_pitched 0x85 2 2 0) a b (map of_nat [0..<16]) x y) 0
         (replicate (unat (tl_dst_bytes_per_texel (rsx_texture_layout_pitched 0x85 2 2 0))) 0) 0 False =
       Inr (take (unat (tl_dst_bytes_per_texel (rsx_texture_layout_pitched 0x85 2 2 0)))
              (drop (y * unat (10 :: u32) + x * unat (tl_dst_bytes_per_texel (rsx_texture_layout_pitched 0x85 2 2 0))) dst')))"
  by (rule texture_decode_texels [OF _ refl]) (code_simp+)

section \<open>Mip chains\<close>

text \<open>Within the limits and a pitch of at most one row of 4096 texels of 16 bytes a face has at most \<open>2 ^ 28\<close> bytes.\<close>

lemma face_bytes_bound:
  assumes "unat w \<le> 4096" "unat h \<le> 4096" "unat pitch \<le> 65536"
  shows "unat (tl_face_bytes (rsx_texture_layout_pitched rsx_fmt w h pitch)) \<le> 268435456"
proof -
  let ?lay = "rsx_texture_layout_pitched rsx_fmt w h pitch"
  have lim: "hw_limits w h pitch" using assms by (simp add: hw_limits_def word_le_nat_alt word_less_nat_alt)
  obtain f k sb db where c: "format_class (rsx_fmt AND 0x9F) = (f, k, sb, db)" using prod_cases4 by blast
  note b = format_class_bounds [OF c]
  have q: "unat ((v + 3) div 4) \<le> 4096" if "unat (v :: u32) \<le> 4096" for v
    using that by (simp add: unat_div unat_word_ariths)
  have "unat (tl_row_bytes ?lay) \<le> 65536"
    using unat_mult_bpp [OF q [OF assms(1)] b(3)] unat_mult_bpp [OF assms(1) b(1)] assms(3)
    by (auto simp: rsx_texture_layout_pitched_def c Let_def)
  moreover have "unat (tl_rows ?lay) \<le> 4096"
    using q assms(2) by (auto simp: rsx_texture_layout_pitched_def c Let_def)
  ultimately have "unat (tl_row_bytes ?lay) * unat (tl_rows ?lay) \<le> 65536 * 4096" by (rule mult_le_mono)
  moreover have "unat (tl_face_bytes ?lay) = unat (tl_row_bytes ?lay) * unat (tl_rows ?lay)"
    using layout_blocks(2) [OF refl _ lim, of rsx_fmt] layout_plain(3,5) [OF refl _ lim, of rsx_fmt]
    by (cases "tl_compressed ?lay") auto
  ultimately show ?thesis by simp
qed

text \<open>Level \<open>i\<close> of a chain, and the place of its bytes.\<close>

definition level_dim :: "nat \<Rightarrow> nat \<Rightarrow> nat" where
  "level_dim d i = max 1 (d div 2 ^ i)"

definition level_bytes :: "rsx_tex_level \<Rightarrow> nat" where
  "level_bytes lv = unat (tl_face_bytes (lv_tl lv))"

definition level_ok :: "u32 \<Rightarrow> nat \<Rightarrow> nat \<Rightarrow> u32 \<Rightarrow> nat \<Rightarrow> rsx_tex_level \<Rightarrow> bool" where
  "level_ok rsx_fmt w h pitch i lv \<longleftrightarrow> unat (lv_w lv) = level_dim w i \<and> unat (lv_h lv) = level_dim h i \<and>
     lv_tl lv = rsx_texture_layout_pitched rsx_fmt (lv_w lv) (lv_h lv) pitch"

lemma level_dim_0: "0 < d \<Longrightarrow> level_dim d 0 = d"
  by (simp add: level_dim_def)

lemma level_dim_Suc: "0 < d \<Longrightarrow> level_dim (max 1 (d div 2)) i = level_dim d (Suc i)"
proof (cases "d = 1")
  case True
  moreover have "(1 :: nat) div 2 ^ i \<le> 1" by (rule div_le_dividend)
  ultimately show ?thesis by (simp add: level_dim_def)
next
  case False
  moreover assume "0 < d"
  ultimately show ?thesis by (simp add: level_dim_def div_mult2_eq)
qed

lemma halved_dim:
  assumes "mw \<noteq> (0 :: u32)"
  shows "unat (if mw > 1 then drop_bit 1 mw else mw) = max 1 (unat mw div 2)"
proof (cases "mw > 1")
  case True
  then have "2 \<le> unat mw" by (simp add: word_less_nat_alt)
  then show ?thesis using True unat_drop_1 [of mw] by simp
next
  case False
  then have "unat mw = 1" using assms by (simp add: word_less_nat_alt unat_eq_0 flip: unat_eq_0)
  then show ?thesis using False by simp
qed

text \<open>
  What \<open>levels - n\<close> turns of the loop produce: dimensions halve, the levels are packed one
  after another, and the chain ends with the levels asked for or with the level of one texel.
\<close>

definition chain_ok :: "u32 \<Rightarrow> u32 \<Rightarrow> nat \<Rightarrow> nat \<Rightarrow> nat \<Rightarrow> nat \<Rightarrow> nat \<Rightarrow> rsx_tex_level list \<Rightarrow> bool" where
  "chain_ok rsx_fmt pitch levels w h off n ch \<longleftrightarrow>
     length ch \<le> levels - n \<and> (n < levels \<longrightarrow> ch \<noteq> []) \<and>
     (\<forall>i<length ch. level_ok rsx_fmt w h (if n + i = 0 then pitch else 0) i (ch ! i) \<and>
        unat (lv_offset (ch ! i)) = off + (\<Sum>j<i. level_bytes (ch ! j)) \<and>
        (Suc i < length ch \<longrightarrow> \<not> (lv_w (ch ! i) = 1 \<and> lv_h (ch ! i) = 1)) \<and>
        (Suc i = length ch \<longrightarrow> n + length ch = levels \<or> lv_w (ch ! i) = 1 \<and> lv_h (ch ! i) = 1))"

lemma mip_loop_levels:
  assumes "mw \<noteq> 0" "mh \<noteq> 0" "unat mw \<le> 4096" "unat mh \<le> 4096" "unat pitch \<le> 65536"
    and "unat off + (levels - n) * 268435456 \<le> 4026531840"
  shows "chain_ok rsx_fmt pitch levels (unat mw) (unat mh) (unat off) n (mip_loop rsx_fmt pitch levels mw mh off n)"
  using assms
proof (induction rsx_fmt pitch levels mw mh off n rule: mip_loop.induct)
  case (1 rsx_fmt pitch levels mw mh off n)
  show ?case
  proof (cases "n < levels")
    case n: True
    define lay where "lay = rsx_texture_layout_pitched rsx_fmt mw mh (if n = 0 then pitch else 0)"
    define w' h' where "w' = (if mw > 1 then drop_bit 1 mw else mw)" and "h' = (if mh > 1 then drop_bit 1 mh else mh)"
    define rest where "rest = (if mw = 1 \<and> mh = 1 then []
      else mip_loop rsx_fmt pitch levels w' h' (off + tl_face_bytes lay) (n + 1))"
    have face: "unat (tl_face_bytes lay) \<le> 268435456"
      using face_bytes_bound [OF 1(4,5)] 1(6) by (simp add: lay_def)
    have eq: "mip_loop rsx_fmt pitch levels mw mh off n = \<lparr>lv_w = mw, lv_h = mh, lv_offset = off, lv_tl = lay\<rparr> # rest"
      using n by (subst mip_loop.simps) (simp add: lay_def rest_def w'_def h'_def Let_def)
    have w': "unat w' = max 1 (unat mw div 2)" "unat h' = max 1 (unat mh div 2)"
      using halved_dim 1(2,3) by (simp_all add: w'_def h'_def)
    have d: "level_dim (unat w') i = level_dim (unat mw) (Suc i)" "level_dim (unat h') i = level_dim (unat mh) (Suc i)" for i
      using level_dim_Suc 1(2,3) by (simp_all add: w' unat_gt_0)
    obtain r where r: "levels - n = Suc r" using n by (cases "levels - n") auto
    have off': "unat (off + tl_face_bytes lay) = unat off + unat (tl_face_bytes lay)"
      using face 1(7) r by (simp add: unat_word_ariths)
    have IH: "chain_ok rsx_fmt pitch levels (unat w') (unat h') (unat (off + tl_face_bytes lay)) (n + 1) rest"
      if ne: "\<not> (mw = 1 \<and> mh = 1)"
    proof -
      have "unat w' \<noteq> 0" "unat h' \<noteq> 0" "unat w' \<le> 4096" "unat h' \<le> 4096" using w' 1(4,5) by auto
      moreover have "unat (off + tl_face_bytes lay) + (levels - (n + 1)) * 268435456 \<le> 4026531840"
        using face 1(7) r off' by (simp add: algebra_simps)
      ultimately show ?thesis
        using 1(1) [OF n lay_def ne] 1(6) unfolding rest_def if_not_P [OF ne] w'_def h'_def
        by (simp add: unat_eq_0 lay_def [symmetric])
    qed
    have zero: "level_ok rsx_fmt (unat mw) (unat mh) (if n + 0 = 0 then pitch else 0) 0
        \<lparr>lv_w = mw, lv_h = mh, lv_offset = off, lv_tl = lay\<rparr>"
      using 1(2,3) by (simp add: level_ok_def lay_def level_dim_0 unat_gt_0)
    show ?thesis
    proof (cases "mw = 1 \<and> mh = 1")
      case True
      then have "rest = []" by (simp add: rest_def)
      then show ?thesis using eq n zero True by (simp add: chain_ok_def)
    next
      case False
      have suc: "level_ok rsx_fmt (unat mw) (unat mh) (if n + Suc i = 0 then pitch else 0) (Suc i) (rest ! i)"
        if "i < length rest" for i
        using IH [OF False] that d by (simp add: level_ok_def chain_ok_def)
      have sums: "(\<Sum>j<Suc i. level_bytes ((\<lparr>lv_w = mw, lv_h = mh, lv_offset = off, lv_tl = lay\<rparr> # rest) ! j)) =
          unat (tl_face_bytes lay) + (\<Sum>j<i. level_bytes (rest ! j))" for i
        by (simp only: sum.lessThan_Suc_shift) (simp add: level_bytes_def)
      show ?thesis
        unfolding eq chain_ok_def
        using IH [OF False, unfolded chain_ok_def] zero suc sums False off' n
        by (auto simp: nth_Cons' less_Suc_eq_0_disj)
    qed
  qed (simp add: mip_loop.simps chain_ok_def)
qed

definition level_count :: "u32 \<Rightarrow> nat" where
  "level_count levels = min 14 (max 1 (unat levels))"

lemma mip_chain_loop:
  assumes "w \<noteq> 0" "h \<noteq> 0"
  shows "rsx_texture_mip_chain rsx_fmt w h levels pitch = mip_loop rsx_fmt pitch (level_count levels) w h 0 0"
proof -
  have "unat (let l = (if levels = 0 then 1 else levels)
      in if l > RSX_MAX_TEXTURE_LEVELS then RSX_MAX_TEXTURE_LEVELS else l) = level_count levels"
    by (auto simp: Let_def RSX_MAX_TEXTURE_LEVELS_def level_count_def word_less_nat_alt unat_gt_0 Suc_leI
        simp flip: unat_gt_0)
  then show ?thesis using assms by (simp add: rsx_texture_mip_chain_def Let_def)
qed

lemma mip_chain_ok:
  assumes "w \<noteq> 0" "h \<noteq> 0" "w \<le> 4096" "h \<le> 4096" "pitch \<le> 65536"
  shows "chain_ok rsx_fmt pitch (level_count levels) (unat w) (unat h) 0 0
    (rsx_texture_mip_chain rsx_fmt w h levels pitch)"
  using mip_loop_levels [of w h pitch 0 "level_count levels" 0 rsx_fmt] assms
  by (simp add: mip_chain_loop level_count_def word_le_nat_alt)

text \<open>
  C35. The mip chain of a texture within the hardware limits: the dimensions of level \<open>i\<close>
  are those of level 0 halved \<open>i\<close> times but at least one, only level 0 has the pitch, each
  level starts where the one before it ends, and the chain has the levels the texture format
  asks for (0 read as 1, at most 14) unless it reaches the level of one texel before.
\<close>

theorem mip_chain_packed:
  assumes "w \<noteq> 0" "h \<noteq> 0" "w \<le> 4096" "h \<le> 4096" "pitch \<le> 65536"
    and ch_def: "ch = rsx_texture_mip_chain rsx_fmt w h levels pitch"
  shows "ch \<noteq> [] \<and> length ch \<le> min 14 (max 1 (unat levels)) \<and>
    (length ch < min 14 (max 1 (unat levels)) \<longrightarrow> lv_w (last ch) = 1 \<and> lv_h (last ch) = 1) \<and>
    (\<forall>i<length ch. unat (lv_w (ch ! i)) = max 1 (unat w div 2 ^ i) \<and> unat (lv_h (ch ! i)) = max 1 (unat h div 2 ^ i) \<and>
       lv_tl (ch ! i) = rsx_texture_layout_pitched rsx_fmt (lv_w (ch ! i)) (lv_h (ch ! i)) (if i = 0 then pitch else 0) \<and>
       unat (lv_offset (ch ! i)) = (\<Sum>j<i. unat (tl_face_bytes (lv_tl (ch ! j)))) \<and>
       (Suc i < length ch \<longrightarrow> \<not> (lv_w (ch ! i) = 1 \<and> lv_h (ch ! i) = 1)))"
proof -
  have c: "chain_ok rsx_fmt pitch (level_count levels) (unat w) (unat h) 0 0 ch"
    unfolding ch_def using assms(1-5) by (rule mip_chain_ok)
  have pos: "0 < level_count levels" by (simp add: level_count_def)
  have ne: "ch \<noteq> []" using c pos by (simp add: chain_ok_def)
  then obtain n where n: "length ch = Suc n" by (cases ch) auto
  then have "length ch < level_count levels \<longrightarrow> lv_w (last ch) = 1 \<and> lv_h (last ch) = 1"
    using c ne by (auto simp: last_conv_nth chain_ok_def dest!: spec [where x = n])
  then show ?thesis
    using c ne by (auto simp: chain_ok_def level_ok_def level_dim_def level_bytes_def level_count_def)
qed

theorem mip_chain_packed_witness:
  "let ch = rsx_texture_mip_chain 0x85 4 2 9 0 in ch \<noteq> [] \<and> length ch \<le> min 14 (max 1 (unat (9 :: u32))) \<and>
    (length ch < min 14 (max 1 (unat (9 :: u32))) \<longrightarrow> lv_w (last ch) = 1 \<and> lv_h (last ch) = 1)"
  unfolding Let_def
  using mip_chain_packed [of 4 2 0 _ "0x85" 9, OF _ _ _ _ _ refl] by simp



section \<open>Depth keeps its order\<close>

lemma find_upt:
  assumes "k \<in> {m..<n}" "P k"
  obtains e where "find P [m..<n] = Some e" "e \<in> {m..<n}" "P e" "\<And>j. m \<le> j \<Longrightarrow> j < e \<Longrightarrow> \<not> P j"
proof -
  have "find P [m..<n] \<noteq> None" using assms by (auto simp: find_None_iff)
  then obtain e where e: "find P [m..<n] = Some e" by blast
  then obtain i where i: "i < n - m" "P (m + i)" "e = m + i" "\<forall>j<i. \<not> P (m + j)" by (auto simp: find_Some_iff)
  have "\<not> P j" if "m \<le> j" "j < e" for j
    using i(4) that i(3) by (metis add_less_cancel_left le_add_diff_inverse)
  then show thesis using that e i by auto
qed

lemma depth_exp_props:
  assumes "0 < v" "v \<le> 16777215"
  shows "depth_exp v \<in> {23..<48}" "v * 2 ^ depth_exp v \<ge> 2 ^ 23 * 16777215"
    "v * 2 ^ depth_exp v < 2 ^ 24 * 16777215 \<or> v = 16777215 \<and> depth_exp v = 23"
    "v < 16777215 \<Longrightarrow> 24 \<le> depth_exp v"
proof -
  let ?P = "\<lambda>e. v * 2 ^ e \<ge> 2 ^ 23 * 16777215"
  have "?P 47" using assms(1) by simp
  then obtain e where e: "find ?P [23..<48] = Some e" "e \<in> {23..<48}" "?P e" "\<And>j. 23 \<le> j \<Longrightarrow> j < e \<Longrightarrow> \<not> ?P j"
    by (rule find_upt [of 47 23 48 ?P, rotated]) auto
  have de: "depth_exp v = e" unfolding depth_exp_def e(1) by (rule option.case)
  show "depth_exp v \<in> {23..<48}" "?P (depth_exp v)" using de e(2,3) by simp_all
  show "v * 2 ^ depth_exp v < 2 ^ 24 * 16777215 \<or> v = 16777215 \<and> depth_exp v = 23"
  proof (cases "e = 23")
    case True
    then show ?thesis using de e(3) assms(2) by auto
  next
    case False
    then obtain k where k: "e = Suc k" "23 \<le> k" using e(2) by (cases e) auto
    then have "\<not> ?P k" using e(4) by simp
    then show ?thesis using de k(1) by simp
  qed
  show "24 \<le> depth_exp v" if "v < 16777215"
    using de e(2,3) that by (cases "e = 23") auto
qed

lemma depth_mantissa_bounds:
  assumes "0 < v" "v \<le> 16777215"
  shows "2 * 16777215 * depth_mantissa v \<le> 2 * v * 2 ^ depth_exp v + 16777215"
    and "2 * v * 2 ^ depth_exp v + 16777215 < 2 * 16777215 * depth_mantissa v + 2 * 16777215"
    and "2 ^ 23 \<le> depth_mantissa v" and "depth_mantissa v \<le> 2 ^ 24"
proof -
  let ?x = "2 * v * 2 ^ depth_exp v + 16777215"
  have d: "depth_mantissa v * (2 * 16777215) + ?x mod (2 * 16777215) = ?x"
    unfolding depth_mantissa_def by (rule div_mult_mod_eq)
  have m: "?x mod (2 * 16777215) < 2 * 16777215" by (rule mod_less_divisor) simp
  show 1: "2 * 16777215 * depth_mantissa v \<le> ?x" using d by linarith
  show 2: "?x < 2 * 16777215 * depth_mantissa v + 2 * 16777215" using d m by linarith
  show "2 ^ 23 \<le> depth_mantissa v" using 2 depth_exp_props(2) [OF assms] by simp
  show "depth_mantissa v \<le> 2 ^ 24" using 1 depth_exp_props(3) [OF assms] by auto
qed

lemma depth_exp_antimono:
  assumes "0 < u" "u < v" "v \<le> 16777215"
  shows "depth_exp v \<le> depth_exp u"
proof (rule ccontr)
  assume "\<not> depth_exp v \<le> depth_exp u"
  then have l: "Suc (depth_exp u) \<le> depth_exp v" by simp
  have "2 ^ 23 * 16777215 \<le> u * 2 ^ depth_exp u" using depth_exp_props(2) [of u] assms by simp
  also have "\<dots> < v * 2 ^ depth_exp u" using assms by simp
  finally have "2 ^ 24 * 16777215 < v * 2 ^ Suc (depth_exp u)" by simp
  also have "\<dots> \<le> v * 2 ^ depth_exp v" using l by (intro mult_le_mono2 power_increasing) auto
  finally show False using depth_exp_props(3) [of v] l depth_exp_props(1) [of u] assms by auto
qed

lemma depth_step:
  assumes "0 < u" "u < v" "v \<le> 16777215" "depth_exp v < depth_exp u"
  shows "depth_mantissa u < 2 ^ 24 \<or> 2 ^ 23 < depth_mantissa v \<or> Suc (depth_exp v) < depth_exp u"
proof (rule ccontr)
  assume "\<not> ?thesis"
  then have m: "2 ^ 24 \<le> depth_mantissa u" "depth_mantissa v \<le> 2 ^ 23" and e: "depth_exp u = Suc (depth_exp v)"
    using assms(4) by auto
  have u: "2 * 16777215 * 2 ^ 24 \<le> 2 * u * 2 ^ depth_exp u + 16777215"
    using depth_mantissa_bounds(1) [of u] m(1) assms by simp
  have v: "2 * v * 2 ^ depth_exp v + 16777215 < 2 * 16777215 * 2 ^ 23 + 2 * 16777215"
    using depth_mantissa_bounds(2) [of v] m(2) assms by linarith
  have s: "(u + 1) * 2 ^ depth_exp u \<le> v * 2 ^ depth_exp u" using assms(2) by (intro mult_le_mono1) simp
  show False
  proof (cases "depth_exp v = 23")
    case True
    then have "v = 16777215" using depth_exp_props(2) [of v] assms by simp
    then show False using u s e True by simp
  next
    case False
    then have "25 \<le> depth_exp u" using e depth_exp_props(1) [of v] assms by auto
    then have "(2 :: nat) ^ 25 \<le> 2 ^ depth_exp u" by (rule power_increasing) simp
    then show False using u v s by (simp add: e algebra_simps)
  qed
qed

text \<open>
  Converting a 24-bit depth to a float loses nothing: the binary32 value of a smaller depth
  is strictly smaller, so no two depths meet, and the ends of the range are 0.0 and 1.0.
\<close>

theorem depth_strict_mono:
  "depth_float 0 = 0 \<and> depth_float 16777215 = 0x3F800000 \<and>
   (\<forall>u v. u < v \<and> v \<le> 16777215 \<longrightarrow> depth_float u < depth_float v)"
proof (intro conjI allI impI)
  have one: "depth_exp 16777215 = 23"
  proof -
    have "[23..<48 :: nat] = 23 # [24..<48]" by (simp add: upt_conv_Cons)
    then show ?thesis by (simp add: depth_exp_def)
  qed
  then show "depth_float 16777215 = 0x3F800000" by (simp add: depth_float_def depth_mantissa_def)
  show "depth_float 0 = 0" by (simp add: depth_float_def)
  fix u v :: nat
  assume uv: "u < v \<and> v \<le> 16777215"
  note pv = depth_exp_props [of v] depth_mantissa_bounds [of v]
  show "depth_float u < depth_float v"
  proof (cases "u = 0")
    case True
    then show ?thesis using uv pv(7) by (simp add: depth_float_def)
  next
    case False
    note pu = depth_exp_props [of u] depth_mantissa_bounds [of u]
    have eu: "24 \<le> depth_exp u" "depth_exp u < 48" using pu uv False by auto
    have pow: "(16777216 :: nat) \<le> 2 ^ depth_exp u" using power_increasing [OF eu(1), of "2 :: nat"] by simp
    show ?thesis
    proof (cases "depth_exp v = depth_exp u")
      case True
      have "Suc u * 2 ^ depth_exp u \<le> v * 2 ^ depth_exp u" using uv by (intro mult_le_mono1) simp
      then have "u * 2 ^ depth_exp u + 16777216 \<le> v * 2 ^ depth_exp v" using pow True by simp
      then have "depth_mantissa u < depth_mantissa v" using pu(5) pv(6) uv False by linarith
      then show ?thesis using False uv True by (simp add: depth_float_def)
    next
      case ne: False
      then have less: "depth_exp v < depth_exp u" using depth_exp_antimono [of u v] uv False by simp
      have "depth_mantissa u < 2 ^ 24 \<or> 2 ^ 23 < depth_mantissa v \<or> Suc (depth_exp v) < depth_exp u"
        by (rule depth_step) (use uv False less in auto)
      moreover have "depth_mantissa u \<le> 2 ^ 24" "2 ^ 23 \<le> depth_mantissa v" using pu(8) pv(7) uv False by auto
      moreover obtain k where "149 - depth_exp v = (149 - depth_exp u) + Suc k" "Suc (depth_exp v) < depth_exp u \<longleftrightarrow> 0 < k"
        using less eu by (intro that [of "depth_exp u - depth_exp v - 1"]) auto
      ultimately show ?thesis using False uv by (auto simp: depth_float_def algebra_simps)
    qed
  qed
qed

theorem depth_strict_mono_witness: "depth_float 1 < depth_float 2"
  using depth_strict_mono by simp

section \<open>The crossbar\<close>

text \<open>
  The identity control word, and the unset one, pass each channel of a four-channel texture
  through, and no control word selects anything but a channel or a constant.
\<close>

lemma remap_identity:
  assumes "rsx_fmt AND 0x9F \<noteq> 0x8B" "rsx_fmt AND 0x9F \<noteq> 0x81"
  shows "rsx_texture_component_remap 0xAAE4 rsx_fmt = [3, 0, 1, 2]"
    and "rsx_texture_component_remap 0 rsx_fmt = [3, 0, 1, 2]"
  using assms by (simp_all add: rsx_texture_component_remap_def remap_lanes_def Let_def upt_rec)

end
