(* ===== verification/RsxDispatch.thy ===== *)
theory RsxDispatch
  imports Prelude "HOL-Library.Monad_Syntax"
begin

text \<open>
  The method dispatcher of the RSX, \<^verbatim>\<open>src/libs/video/rsx_dispatch.c\<close> and its header: the
  register file, the upload windows of the transform program and its constants, the inline vertex
  stream, and the getters that decode registers.

  The arrays of the structure are functions of the index, and every access is checked: \<open>None\<close>
  is an access outside an array. What the dispatcher calls in its sink is the list of events it
  gives out; a callback that is not set gives none. A float is its bit pattern; the three
  operations on floats the file uses are arguments (\<open>float_ops\<close>). The messages about
  dropped methods and the logging of constants are left out.
\<close>

section \<open>Registers and state\<close>

definition RSX_DSP_NUM_REGS :: nat where "RSX_DSP_NUM_REGS = 0x10000 div 4"

definition RSX_DSP_VP_INSTR :: nat where "RSX_DSP_VP_INSTR = 544"

definition RSX_DSP_VP_WORDS :: nat where "RSX_DSP_VP_WORDS = RSX_DSP_VP_INSTR * 4"

definition RSX_DSP_NUM_CONSTANTS :: nat where "RSX_DSP_NUM_CONSTANTS = 512"

definition RSX_DSP_NUM_VERTEX_ATTR :: u32 where "RSX_DSP_NUM_VERTEX_ATTR = 16"

definition RSX_DSP_NUM_TEXTURES :: u32 where "RSX_DSP_NUM_TEXTURES = 16"

definition RSX_DSP_NUM_VERTEX_TEXTURES :: u32 where "RSX_DSP_NUM_VERTEX_TEXTURES = 4"

definition RSX_DSP_INLINE_MAX_BYTES :: u32 where "RSX_DSP_INLINE_MAX_BYTES = 65536"

abbreviation "M_DMA_COLOR1 \<equiv> 0x018C :: u32"
abbreviation "M_DMA_COLOR0 \<equiv> 0x0194 :: u32"
abbreviation "M_DMA_ZETA \<equiv> 0x0198 :: u32"
abbreviation "M_DMA_COLOR2 \<equiv> 0x01B4 :: u32"
abbreviation "M_DMA_COLOR3 \<equiv> 0x01B8 :: u32"
abbreviation "M_RT_HORIZ \<equiv> 0x0200 :: u32"
abbreviation "M_RT_VERT \<equiv> 0x0204 :: u32"
abbreviation "M_RT_FORMAT \<equiv> 0x0208 :: u32"
abbreviation "M_COLOR0_PITCH \<equiv> 0x020C :: u32"
abbreviation "M_COLOR0_OFFSET \<equiv> 0x0210 :: u32"
abbreviation "M_ZETA_OFFSET \<equiv> 0x0214 :: u32"
abbreviation "M_COLOR1_OFFSET \<equiv> 0x0218 :: u32"
abbreviation "M_COLOR1_PITCH \<equiv> 0x021C :: u32"
abbreviation "M_RT_ENABLE \<equiv> 0x0220 :: u32"
abbreviation "M_ZETA_PITCH \<equiv> 0x022C :: u32"
abbreviation "M_COLOR2_PITCH \<equiv> 0x0280 :: u32"
abbreviation "M_COLOR3_PITCH \<equiv> 0x0284 :: u32"
abbreviation "M_COLOR2_OFFSET \<equiv> 0x0288 :: u32"
abbreviation "M_COLOR3_OFFSET \<equiv> 0x028C :: u32"
abbreviation "M_COLOR_MASK \<equiv> 0x0324 :: u32"
abbreviation "M_FP_ACTIVE_PROGRAM \<equiv> 0x08E4 :: u32"
abbreviation "M_VERTEX_TEXTURE \<equiv> 0x0900 :: u32"
abbreviation "M_VIEWPORT_HORIZ \<equiv> 0x0A00 :: u32"
abbreviation "M_VIEWPORT_VERT \<equiv> 0x0A04 :: u32"
abbreviation "M_VIEWPORT_TRANSLATE \<equiv> 0x0A20 :: u32"
abbreviation "M_VIEWPORT_SCALE \<equiv> 0x0A30 :: u32"
abbreviation "M_VP_UPLOAD_INST \<equiv> 0x0B80 :: u32"
abbreviation "M_VTXBUF_OFFSET \<equiv> 0x1680 :: u32"
abbreviation "M_VERTEX_DATA_BASE \<equiv> 0x1738 :: u32"
abbreviation "M_VB_ELEMENT_BASE \<equiv> 0x173C :: u32"
abbreviation "M_VTXFMT \<equiv> 0x1740 :: u32"
abbreviation "M_VERTEX_BEGIN_END \<equiv> 0x1808 :: u32"
abbreviation "M_VB_VERTEX_BATCH \<equiv> 0x1814 :: u32"
abbreviation "M_INLINE_ARRAY \<equiv> 0x1818 :: u32"
abbreviation "M_IDXBUF_OFFSET \<equiv> 0x181C :: u32"
abbreviation "M_IDXBUF_FORMAT \<equiv> 0x1820 :: u32"
abbreviation "M_VB_INDEX_BATCH \<equiv> 0x1824 :: u32"
abbreviation "M_FRONT_FACE \<equiv> 0x1834 :: u32"
abbreviation "M_TEX_SIZE1 \<equiv> 0x1840 :: u32"
abbreviation "M_TEX_OFFSET \<equiv> 0x1A00 :: u32"
abbreviation "M_VTX_ATTR_4F \<equiv> 0x1C00 :: u32"
abbreviation "M_FP_CONTROL \<equiv> 0x1D60 :: u32"
abbreviation "M_CLEAR_DEPTH_VALUE \<equiv> 0x1D8C :: u32"
abbreviation "M_CLEAR_COLOR_VALUE \<equiv> 0x1D90 :: u32"
abbreviation "M_CLEAR_BUFFERS \<equiv> 0x1D94 :: u32"
abbreviation "M_RESTART_INDEX_ENABLE \<equiv> 0x1DAC :: u32"
abbreviation "M_RESTART_INDEX \<equiv> 0x1DB0 :: u32"
abbreviation "M_VP_UPLOAD_FROM_ID \<equiv> 0x1E9C :: u32"
abbreviation "M_VP_START_FROM_ID \<equiv> 0x1EA0 :: u32"
abbreviation "M_VP_UPLOAD_CONST_ID \<equiv> 0x1EFC :: u32"
abbreviation "M_VP_UPLOAD_CONST \<equiv> 0x1F00 :: u32"
abbreviation "M_GCM_FLIP_HEAD_0 \<equiv> 0xE920 :: u32"
abbreviation "M_GCM_FLIP_HEAD_1 \<equiv> 0xE924 :: u32"
abbreviation "M_GCM_DRIVER_FLIP \<equiv> 0xE944 :: u32"

definition RSX_LOCATION_LOCAL :: u32 where "RSX_LOCATION_LOCAL = 0"

definition RSX_LOCATION_MAIN :: u32 where "RSX_LOCATION_MAIN = 1"

definition DMA_HANDLE_MAIN :: u32 where "DMA_HANDLE_MAIN = 0xFEED0001"

text \<open>Which callbacks the sink has, and what is called.\<close>

record rsx_dispatch_sink =
  has_clear :: bool
  has_begin :: bool
  has_end :: bool
  has_draw_arrays :: bool
  has_draw_index_array :: bool
  has_inline_array :: bool
  has_flip :: bool

datatype dsp_event =
    Clear u32
  | Begin u32
  | End
  | Draw_Arrays u32 u32
  | Draw_Index_Array u32 u32
  | Inline_Array "u8 list"
  | Flip u32

record rsx_dispatch =
  dsp_regs :: "nat \<Rightarrow> u32"
  dsp_vp :: "nat \<Rightarrow> u32"
  dsp_constants :: "nat \<Rightarrow> nat \<Rightarrow> u32"
  dsp_sink :: rsx_dispatch_sink
  dsp_in_begin_end :: bool
  dsp_current_primitive :: u32
  dsp_inline_len :: u32
  dsp_inline_dropped :: u32
  dsp_seen :: "nat \<Rightarrow> u32"
  dsp_klass :: "nat \<Rightarrow> u8"
  dsp_inline_data :: "nat \<Rightarrow> u8"

record float_ops =
  float_of_int :: "int \<Rightarrow> u32"
  float_add :: "u32 \<Rightarrow> u32 \<Rightarrow> u32"
  float_mul :: "u32 \<Rightarrow> u32 \<Rightarrow> u32"
  float_div :: "u32 \<Rightarrow> u32 \<Rightarrow> u32"

text \<open>Checked accesses.\<close>

definition get_reg :: "rsx_dispatch \<Rightarrow> u32 \<Rightarrow> u32 option" where
  "get_reg rsx i = (if unat i < RSX_DSP_NUM_REGS then Some (dsp_regs rsx (unat i)) else None)"

definition set_reg :: "rsx_dispatch \<Rightarrow> u32 \<Rightarrow> u32 \<Rightarrow> rsx_dispatch option" where
  "set_reg rsx i v =
     (if unat i < RSX_DSP_NUM_REGS then Some (rsx\<lparr>dsp_regs := (dsp_regs rsx)(unat i := v)\<rparr>) else None)"

definition set_klass :: "rsx_dispatch \<Rightarrow> nat \<Rightarrow> u8 \<Rightarrow> rsx_dispatch option" where
  "set_klass rsx i v = (if i < RSX_DSP_NUM_REGS then Some (rsx\<lparr>dsp_klass := (dsp_klass rsx)(i := v)\<rparr>) else None)"

definition set_vp :: "rsx_dispatch \<Rightarrow> u32 \<Rightarrow> u32 \<Rightarrow> rsx_dispatch option" where
  "set_vp rsx i v = (if unat i < RSX_DSP_VP_WORDS then Some (rsx\<lparr>dsp_vp := (dsp_vp rsx)(unat i := v)\<rparr>) else None)"

definition set_constant :: "rsx_dispatch \<Rightarrow> u32 \<Rightarrow> u32 \<Rightarrow> u32 \<Rightarrow> rsx_dispatch option" where
  "set_constant rsx s c v =
     (if unat s < RSX_DSP_NUM_CONSTANTS \<and> unat c < 4
      then Some (rsx\<lparr>dsp_constants := (dsp_constants rsx)(unat s := (dsp_constants rsx (unat s))(unat c := v))\<rparr>) else None)"

definition set_inline :: "rsx_dispatch \<Rightarrow> u32 \<Rightarrow> u8 \<Rightarrow> rsx_dispatch option" where
  "set_inline rsx i v =
     (if unat i < unat RSX_DSP_INLINE_MAX_BYTES
      then Some (rsx\<lparr>dsp_inline_data := (dsp_inline_data rsx)(unat i := v)\<rparr>) else None)"

section \<open>Initialisation\<close>

definition dma_to_location :: "u32 \<Rightarrow> u32" where
  "dma_to_location handle = (if handle = DMA_HANDLE_MAIN then RSX_LOCATION_MAIN else RSX_LOCATION_LOCAL)"

primrec mark_from :: "nat \<Rightarrow> nat \<Rightarrow> u8 \<Rightarrow> rsx_dispatch \<Rightarrow> rsx_dispatch option" where
  "mark_from i 0 klass rsx = Some rsx"
| "mark_from i (Suc n) klass rsx = do { rsx \<leftarrow> set_klass rsx i klass; mark_from (Suc i) n klass rsx }"

definition mark_class :: "u32 \<times> nat \<times> u8 \<Rightarrow> rsx_dispatch \<Rightarrow> rsx_dispatch option" where
  "mark_class e rsx = (case e of (method, count, klass) \<Rightarrow> mark_from (unat (drop_bit 2 method)) count klass rsx)"

primrec mark_classes :: "(u32 \<times> nat \<times> u8) list \<Rightarrow> rsx_dispatch \<Rightarrow> rsx_dispatch option" where
  "mark_classes [] rsx = Some rsx"
| "mark_classes (e # es) rsx = do { rsx \<leftarrow> mark_class e rsx; mark_classes es rsx }"

text \<open>The classes: 2 is \<^verbatim>\<open>RSX_DSP_CLASS_EXEC\<close> and 1 is \<^verbatim>\<open>RSX_DSP_CLASS_STATE\<close>.\<close>

definition method_classes :: "(u32 \<times> nat \<times> u8) list" where
  "method_classes =
    [(M_VERTEX_BEGIN_END, 1, 2), (M_VB_VERTEX_BATCH, 1, 2), (M_INLINE_ARRAY, 1, 2), (M_VB_INDEX_BATCH, 1, 2),
     (M_CLEAR_BUFFERS, 1, 2), (M_VP_UPLOAD_INST, 32, 2), (M_VP_UPLOAD_CONST, 32, 2), (M_GCM_FLIP_HEAD_0, 1, 2),
     (M_GCM_FLIP_HEAD_1, 1, 2), (M_GCM_DRIVER_FLIP, 1, 2),
     (M_DMA_COLOR1, 1, 1), (M_DMA_COLOR0, 2, 1), (M_DMA_COLOR2, 2, 1), (M_RT_HORIZ, 12, 1), (M_COLOR2_PITCH, 4, 1),
     (M_VIEWPORT_HORIZ, 2, 1), (M_VIEWPORT_TRANSLATE, 8, 1), (M_VTXBUF_OFFSET, 16, 1), (M_VERTEX_DATA_BASE, 2, 1),
     (M_VTXFMT, 16, 1), (M_IDXBUF_OFFSET, 2, 1), (M_TEX_SIZE1, 16, 1), (M_TEX_OFFSET, 16 * 8, 1),
     (M_CLEAR_DEPTH_VALUE, 2, 1), (M_VP_UPLOAD_FROM_ID, 1, 1), (M_RESTART_INDEX_ENABLE, 2, 1),
     (M_VP_UPLOAD_CONST_ID, 1, 1), (M_FP_ACTIVE_PROGRAM, 1, 1), (M_FP_CONTROL, 1, 1), (M_VP_START_FROM_ID, 1, 1),
     (M_VTX_ATTR_4F, 64, 1),
     (0x0304, 3, 1), (0x0310, 5, 1), (M_COLOR_MASK, 1, 1), (0x0370, 1, 1), (0x0A6C, 3, 1), (0x1830, 1, 1),
     (M_FRONT_FACE, 1, 1), (0x183C, 1, 1), (0x1FF0, 1, 1), (0x1FF4, 1, 1),
     (0x1714, 1, 2), (0x0100, 1, 2)]"

definition rsx_dispatch_init :: "rsx_dispatch_sink \<Rightarrow> rsx_dispatch option" where
  "rsx_dispatch_init sink = do {
     let rsx = \<lparr>dsp_regs = \<lambda>_. 0, dsp_vp = \<lambda>_. 0, dsp_constants = \<lambda>_ _. 0, dsp_sink = sink, dsp_in_begin_end = False,
       dsp_current_primitive = 0, dsp_inline_len = 0, dsp_inline_dropped = 0, dsp_seen = \<lambda>_. 0, dsp_klass = \<lambda>_. 0,
       dsp_inline_data = \<lambda>_. 0\<rparr>;
     rsx \<leftarrow> set_reg rsx (drop_bit 2 M_COLOR_MASK) 0x01010101;
     rsx \<leftarrow> set_reg rsx (drop_bit 2 M_FRONT_FACE) 0x0901;
     rsx \<leftarrow> set_reg rsx (drop_bit 2 0x1D8C) 0xFFFFFF00;
     mark_classes method_classes rsx
   }"

text \<open>Loading a captured state: \<open>ws\<close> is the array the caller passes.\<close>

primrec copy_words :: "u32 list \<Rightarrow> nat \<Rightarrow> (nat \<Rightarrow> u32) \<Rightarrow> (nat \<Rightarrow> u32) option" where
  "copy_words ws 0 f = Some f"
| "copy_words ws (Suc n) f = do { f \<leftarrow> copy_words ws n f; if n < length ws then Some (f(n := ws ! n)) else None }"

definition rsx_dispatch_seed_registers :: "rsx_dispatch \<Rightarrow> u32 list \<Rightarrow> u32 \<Rightarrow> rsx_dispatch option" where
  "rsx_dispatch_seed_registers rsx ws count =
     map_option (\<lambda>f. rsx\<lparr>dsp_regs := f\<rparr>) (copy_words ws (min (unat count) RSX_DSP_NUM_REGS) (dsp_regs rsx))"

definition rsx_dispatch_seed_transform_program :: "rsx_dispatch \<Rightarrow> u32 list \<Rightarrow> u32 \<Rightarrow> rsx_dispatch option" where
  "rsx_dispatch_seed_transform_program rsx ws count =
     map_option (\<lambda>f. rsx\<lparr>dsp_vp := f\<rparr>) (copy_words ws (min (unat count) RSX_DSP_VP_WORDS) (dsp_vp rsx))"

definition rsx_dispatch_seed_transform_constants :: "rsx_dispatch \<Rightarrow> u32 list \<Rightarrow> u32 \<Rightarrow> rsx_dispatch option" where
  "rsx_dispatch_seed_transform_constants rsx ws count =
     map_option (\<lambda>f. rsx\<lparr>dsp_constants := (\<lambda>s c. f (4 * s + c))\<rparr>)
       (copy_words ws (min (unat count) (RSX_DSP_NUM_CONSTANTS * 4)) (\<lambda>i. dsp_constants rsx (i div 4) (i mod 4)))"

section \<open>The constant attributes\<close>

definition ONE_F :: u32 where "ONE_F = 0x3F800000"

definition vtx_const_set :: "rsx_dispatch \<Rightarrow> u32 \<Rightarrow> u32 \<Rightarrow> u32 \<Rightarrow> rsx_dispatch option" where
  "vtx_const_set rsx attr c v = set_reg rsx (drop_bit 2 (M_VTX_ATTR_4F + attr * 0x10 + c * 4)) v"

definition vtx_const_fold :: "float_ops \<Rightarrow> rsx_dispatch \<Rightarrow> u32 \<Rightarrow> u32 \<Rightarrow> rsx_dispatch option" where
  "vtx_const_fold fo rsx m arg =
     (if m \<ge> 0x1E40 \<and> m < 0x1E80 then do {
        let attr = drop_bit 2 (m - 0x1E40);
        rsx \<leftarrow> vtx_const_set rsx attr 0 arg;
        rsx \<leftarrow> vtx_const_set rsx attr 1 0;
        rsx \<leftarrow> vtx_const_set rsx attr 2 0;
        vtx_const_set rsx attr 3 ONE_F
      }
      else if m \<ge> 0x1880 \<and> m < 0x1900 then do {
        let attr = drop_bit 3 (m - 0x1880);
        let word = drop_bit 2 (m - 0x1880) AND 1;
        rsx \<leftarrow> vtx_const_set rsx attr word arg;
        if word = 0 then do { rsx \<leftarrow> vtx_const_set rsx attr 2 0; vtx_const_set rsx attr 3 ONE_F } else Some rsx
      }
      else if m \<ge> 0x1500 \<and> m < 0x1600 then do {
        let attr = drop_bit 4 (m - 0x1500);
        let word = drop_bit 2 (m - 0x1500) AND 3;
        rsx \<leftarrow> (if word < 3 then vtx_const_set rsx attr word arg else Some rsx);
        if word = 0 then vtx_const_set rsx attr 3 ONE_F else Some rsx
      }
      else if m \<ge> 0x1900 \<and> m < 0x1940 then do {
        let attr = drop_bit 2 (m - 0x1900);
        rsx \<leftarrow> vtx_const_set rsx attr 0 (float_of_int fo (sint (ucast (arg AND 0xFFFF) :: u16)));
        rsx \<leftarrow> vtx_const_set rsx attr 1 (float_of_int fo (sint (ucast (drop_bit 16 arg) :: u16)));
        rsx \<leftarrow> vtx_const_set rsx attr 2 0;
        vtx_const_set rsx attr 3 ONE_F
      }
      else if m \<ge> 0x1940 \<and> m < 0x1980 then do {
        let attr = drop_bit 2 (m - 0x1940);
        let ub = (\<lambda>c. float_div fo (float_of_int fo (uint (drop_bit (8 * c) arg AND 0xFF))) (float_of_int fo 255));
        rsx \<leftarrow> vtx_const_set rsx attr 0 (ub 0);
        rsx \<leftarrow> vtx_const_set rsx attr 1 (ub 1);
        rsx \<leftarrow> vtx_const_set rsx attr 2 (ub 2);
        vtx_const_set rsx attr 3 (ub 3)
      }
      else if m \<ge> 0x1980 \<and> m < 0x1A00 \<or> m \<ge> 0x0A80 \<and> m < 0x0B00 then do {
        let base = (if m \<ge> 0x1980 then 0x1980 else 0x0A80);
        let sc = m < 0x1980;
        let attr = drop_bit 3 (m - base);
        let word = drop_bit 2 (m - base) AND 1;
        let val = (\<lambda>h. let x = float_of_int fo (sint (ucast (drop_bit (16 * h) arg) :: u16))
           in if sc then float_div fo (float_add fo (float_mul fo (float_of_int fo 2) x) ONE_F) (float_of_int fo 65535) else x);
        rsx \<leftarrow> vtx_const_set rsx attr (word * 2) (val 0);
        vtx_const_set rsx attr (word * 2 + 1) (val 1)
      }
      else Some rsx)"

section \<open>A method\<close>

text \<open>The upload windows.\<close>

definition upload_program :: "rsx_dispatch \<Rightarrow> u32 \<Rightarrow> u32 \<Rightarrow> rsx_dispatch option" where
  "upload_program rsx method arg = do {
     let lane = drop_bit 2 (method - M_VP_UPLOAD_INST) AND 3;
     load \<leftarrow> get_reg rsx (drop_bit 2 M_VP_UPLOAD_FROM_ID);
     let pos = load * 4 + lane;
     rsx \<leftarrow> (if pos < of_nat RSX_DSP_VP_WORDS then set_vp rsx pos arg else Some rsx);
     if lane = 3 then set_reg rsx (drop_bit 2 M_VP_UPLOAD_FROM_ID) (load + 1) else Some rsx
   }"

definition upload_constant :: "rsx_dispatch \<Rightarrow> u32 \<Rightarrow> u32 \<Rightarrow> rsx_dispatch option" where
  "upload_constant rsx method arg = do {
     let word = drop_bit 2 (method - M_VP_UPLOAD_CONST);
     load \<leftarrow> get_reg rsx (drop_bit 2 M_VP_UPLOAD_CONST_ID);
     let slot = load + drop_bit 2 word;
     if slot < of_nat RSX_DSP_NUM_CONSTANTS then set_constant rsx slot (word AND 3) arg else Some rsx
   }"

definition inline_bytes :: "rsx_dispatch \<Rightarrow> u8 list" where
  "inline_bytes rsx = map (dsp_inline_data rsx) [0..<unat (dsp_inline_len rsx)]"

definition begin_end :: "rsx_dispatch \<Rightarrow> u32 \<Rightarrow> rsx_dispatch \<times> dsp_event list" where
  "begin_end rsx arg =
     (if arg \<noteq> 0
      then (rsx\<lparr>dsp_in_begin_end := True, dsp_current_primitive := arg, dsp_inline_len := 0\<rparr>,
            if has_begin (dsp_sink rsx) then [Begin arg] else [])
      else (rsx\<lparr>dsp_in_begin_end := False, dsp_inline_len := 0\<rparr>,
            (if dsp_inline_len rsx \<noteq> 0 \<and> has_inline_array (dsp_sink rsx) then [Inline_Array (inline_bytes rsx)] else []) @
            (if has_end (dsp_sink rsx) then [End] else [])))"

definition inline_array :: "rsx_dispatch \<Rightarrow> u32 \<Rightarrow> rsx_dispatch option" where
  "inline_array rsx arg =
     (let n = dsp_inline_len rsx
      in if n + 4 \<le> RSX_DSP_INLINE_MAX_BYTES then do {
           rsx \<leftarrow> set_inline rsx n (ucast (drop_bit 24 arg));
           rsx \<leftarrow> set_inline rsx (n + 1) (ucast (drop_bit 16 arg));
           rsx \<leftarrow> set_inline rsx (n + 2) (ucast (drop_bit 8 arg));
           rsx \<leftarrow> set_inline rsx (n + 3) (ucast arg);
           Some (rsx\<lparr>dsp_inline_len := n + 4\<rparr>)
         }
         else if n \<noteq> 0 then Some (rsx\<lparr>dsp_inline_len := 0, dsp_inline_dropped := dsp_inline_dropped rsx + 1\<rparr>)
         else Some rsx)"

definition run_method :: "rsx_dispatch \<Rightarrow> u32 \<Rightarrow> u32 \<Rightarrow> (rsx_dispatch \<times> dsp_event list) option" where
  "run_method rsx method arg =
     (let s = dsp_sink rsx; ev = (\<lambda>b e. Some (rsx, if b then [e] else []))
      in if method = M_CLEAR_BUFFERS then ev (has_clear s) (Clear arg)
         else if method = M_VERTEX_BEGIN_END then Some (begin_end rsx arg)
         else if method = M_INLINE_ARRAY then map_option (\<lambda>r. (r, [])) (inline_array rsx arg)
         else if method = M_VB_VERTEX_BATCH then ev (has_draw_arrays s) (Draw_Arrays (arg AND 0xFFFFFF) (drop_bit 24 arg + 1))
         else if method = M_VB_INDEX_BATCH
         then ev (has_draw_index_array s) (Draw_Index_Array (arg AND 0xFFFFFF) (drop_bit 24 arg + 1))
         else if method = M_GCM_FLIP_HEAD_0 \<or> method = M_GCM_FLIP_HEAD_1 \<or> method = M_GCM_DRIVER_FLIP
         then ev (has_flip s) (Flip arg)
         else Some (rsx, []))"

definition rsx_dispatch_method ::
  "float_ops \<Rightarrow> rsx_dispatch \<Rightarrow> u32 \<Rightarrow> u32 \<Rightarrow> (rsx_dispatch \<times> dsp_event list) option" where
  "rsx_dispatch_method fo rsx method arg =
     (let method = method AND 0xFFFFC; idx = drop_bit 2 method
      in if unat idx \<ge> RSX_DSP_NUM_REGS then Some (rsx, [])
         else if method = M_COLOR_MASK \<and> arg AND 0xFEFEFEFE \<noteq> 0 then Some (rsx, [])
         else do {
           let rsx = rsx\<lparr>dsp_seen := (dsp_seen rsx)(unat idx := dsp_seen rsx (unat idx) + 1)\<rparr>;
           rsx \<leftarrow> set_reg rsx idx arg;
           rsx \<leftarrow> (if method \<ge> 0x1500 \<and> method < 0x1A00 \<or> method \<ge> 0x1E40 \<and> method < 0x1E80 \<or>
                     method \<ge> 0x0A80 \<and> method < 0x0B00
                   then vtx_const_fold fo rsx method arg else Some rsx);
           if method \<ge> M_VP_UPLOAD_INST \<and> method < M_VP_UPLOAD_INST + 32 * 4
           then map_option (\<lambda>r. (r, [])) (upload_program rsx method arg)
           else if method \<ge> M_VP_UPLOAD_CONST \<and> method < M_VP_UPLOAD_CONST + 32 * 4
           then map_option (\<lambda>r. (r, [])) (upload_constant rsx method arg)
           else run_method rsx method arg
         })"

text \<open>A command stream.\<close>

fun run_stream :: "float_ops \<Rightarrow> rsx_dispatch \<Rightarrow> (u32 \<times> u32) list \<Rightarrow> (rsx_dispatch \<times> dsp_event list) option" where
  "run_stream fo rsx [] = Some (rsx, [])"
| "run_stream fo rsx ((m, a) # ms) = do {
     (rsx, es) \<leftarrow> rsx_dispatch_method fo rsx m a;
     (rsx, es') \<leftarrow> run_stream fo rsx ms;
     Some (rsx, es @ es')
   }"

section \<open>The getters\<close>

definition rsx_dsp_reg :: "rsx_dispatch \<Rightarrow> u32 \<Rightarrow> u32 option" where
  "rsx_dsp_reg rsx method = get_reg rsx (drop_bit 2 (method AND 0xFFFFC))"

definition rsx_dsp_clear_color :: "rsx_dispatch \<Rightarrow> u32 option" where
  "rsx_dsp_clear_color rsx = rsx_dsp_reg rsx M_CLEAR_COLOR_VALUE"

definition rsx_dsp_clear_zstencil :: "rsx_dispatch \<Rightarrow> u32 option" where
  "rsx_dsp_clear_zstencil rsx = rsx_dsp_reg rsx M_CLEAR_DEPTH_VALUE"

record rsx_dsp_surface =
  sf_color_format :: u32
  sf_depth_format :: u32
  sf_raster_type :: u32
  sf_clip_x :: u32
  sf_clip_y :: u32
  sf_clip_w :: u32
  sf_clip_h :: u32
  sf_color_offset :: "u32 list"
  sf_color_pitch :: "u32 list"
  sf_color_location :: "u32 list"
  sf_color_target :: u32
  sf_zeta_offset :: u32
  sf_zeta_pitch :: u32
  sf_zeta_location :: u32

text \<open>Several registers, in the order given.\<close>

primrec dsp_regs_at :: "rsx_dispatch \<Rightarrow> u32 list \<Rightarrow> u32 list option" where
  "dsp_regs_at rsx [] = Some []"
| "dsp_regs_at rsx (m # ms) = do { v \<leftarrow> rsx_dsp_reg rsx m; vs \<leftarrow> dsp_regs_at rsx ms; Some (v # vs) }"

definition rsx_dsp_get_surface :: "rsx_dispatch \<Rightarrow> rsx_dsp_surface option" where
  "rsx_dsp_get_surface rsx = do {
     fmt \<leftarrow> rsx_dsp_reg rsx M_RT_FORMAT;
     h \<leftarrow> rsx_dsp_reg rsx M_RT_HORIZ;
     v \<leftarrow> rsx_dsp_reg rsx M_RT_VERT;
     offs \<leftarrow> dsp_regs_at rsx [M_COLOR0_OFFSET, M_COLOR1_OFFSET, M_COLOR2_OFFSET, M_COLOR3_OFFSET];
     pitches \<leftarrow> dsp_regs_at rsx [M_COLOR0_PITCH, M_COLOR1_PITCH, M_COLOR2_PITCH, M_COLOR3_PITCH];
     dmas \<leftarrow> dsp_regs_at rsx [M_DMA_COLOR0, M_DMA_COLOR1, M_DMA_COLOR2, M_DMA_COLOR3];
     target \<leftarrow> rsx_dsp_reg rsx M_RT_ENABLE;
     zoff \<leftarrow> rsx_dsp_reg rsx M_ZETA_OFFSET;
     zpitch \<leftarrow> rsx_dsp_reg rsx M_ZETA_PITCH;
     zdma \<leftarrow> rsx_dsp_reg rsx M_DMA_ZETA;
     Some \<lparr>sf_color_format = fmt AND 0x1F, sf_depth_format = drop_bit 5 fmt AND 7, sf_raster_type = drop_bit 8 fmt AND 0xF,
       sf_clip_x = h AND 0xFFFF, sf_clip_y = v AND 0xFFFF, sf_clip_w = drop_bit 16 h, sf_clip_h = drop_bit 16 v,
       sf_color_offset = offs, sf_color_pitch = pitches, sf_color_location = map dma_to_location dmas,
       sf_color_target = target, sf_zeta_offset = zoff, sf_zeta_pitch = zpitch, sf_zeta_location = dma_to_location zdma\<rparr>
   }"

record rsx_dsp_viewport =
  vw_x :: u32
  vw_y :: u32
  vw_w :: u32
  vw_h :: u32
  vw_scale :: "u32 list"
  vw_translate :: "u32 list"

definition rsx_dsp_get_viewport :: "rsx_dispatch \<Rightarrow> rsx_dsp_viewport option" where
  "rsx_dsp_get_viewport rsx = do {
     h \<leftarrow> rsx_dsp_reg rsx M_VIEWPORT_HORIZ;
     v \<leftarrow> rsx_dsp_reg rsx M_VIEWPORT_VERT;
     t \<leftarrow> dsp_regs_at rsx (map (\<lambda>i. M_VIEWPORT_TRANSLATE + of_nat i * 4) [0..<4]);
     s \<leftarrow> dsp_regs_at rsx (map (\<lambda>i. M_VIEWPORT_SCALE + of_nat i * 4) [0..<4]);
     Some \<lparr>vw_x = h AND 0xFFFF, vw_y = v AND 0xFFFF, vw_w = drop_bit 16 h, vw_h = drop_bit 16 v, vw_scale = s, vw_translate = t\<rparr>
   }"

record rsx_dsp_vertex_attr =
  va_type :: u32
  va_size :: u32
  va_stride :: u32
  va_frequency :: u32
  va_offset :: u32
  va_location :: u32

definition rsx_dsp_get_vertex_attr :: "rsx_dispatch \<Rightarrow> u32 \<Rightarrow> rsx_dsp_vertex_attr option" where
  "rsx_dsp_get_vertex_attr rsx index =
     (if index \<ge> RSX_DSP_NUM_VERTEX_ATTR
      then Some \<lparr>va_type = 0, va_size = 0, va_stride = 0, va_frequency = 0, va_offset = 0, va_location = 0\<rparr>
      else do {
        fmt \<leftarrow> rsx_dsp_reg rsx (M_VTXFMT + index * 4);
        off \<leftarrow> rsx_dsp_reg rsx (M_VTXBUF_OFFSET + index * 4);
        Some \<lparr>va_type = fmt AND 7, va_size = drop_bit 4 fmt AND 0xF, va_stride = drop_bit 8 fmt AND 0xFF,
          va_frequency = drop_bit 16 fmt, va_offset = off AND 0x7FFFFFFF, va_location = drop_bit 31 off\<rparr>
      })"

text \<open>A texture unit; a vertex texture has no \<open>remap\<close> word, and keeps its pitch in that place.\<close>

record rsx_dsp_vertex_texture =
  dt_enabled :: u32
  dt_offset :: u32
  dt_location :: u32
  dt_format :: u32
  dt_dimension :: u32
  dt_cubemap :: u32
  dt_mipmaps :: u32
  dt_width :: u32
  dt_height :: u32
  dt_pitch :: u32
  dt_depth :: u32
  dt_wrap :: u32
  dt_filter :: u32
  dt_control0 :: u32
  dt_border_color :: u32

record rsx_dsp_texture = rsx_dsp_vertex_texture +
  dt_remap :: u32

definition zero_texture :: rsx_dsp_vertex_texture where
  "zero_texture = \<lparr>dt_enabled = 0, dt_offset = 0, dt_location = 0, dt_format = 0, dt_dimension = 0, dt_cubemap = 0,
     dt_mipmaps = 0, dt_width = 0, dt_height = 0, dt_pitch = 0, dt_depth = 0, dt_wrap = 0, dt_filter = 0,
     dt_control0 = 0, dt_border_color = 0\<rparr>"

text \<open>The words the two kinds of unit decode alike: \<open>sz1\<close> is the word that holds the pitch.\<close>

definition decode_texture :: "u32 \<Rightarrow> u32 \<Rightarrow> u32 \<Rightarrow> u32 \<Rightarrow> u32 \<Rightarrow> u32 \<Rightarrow> u32 \<Rightarrow> u32 \<Rightarrow> rsx_dsp_vertex_texture" where
  "decode_texture offset fmt wrap control0 filt rect border sz1 =
     \<lparr>dt_enabled = drop_bit 31 control0, dt_offset = offset,
      dt_location = (if fmt AND 3 = 2 then RSX_LOCATION_MAIN else RSX_LOCATION_LOCAL),
      dt_format = drop_bit 8 fmt AND 0xFF, dt_dimension = drop_bit 4 fmt AND 0xF, dt_cubemap = drop_bit 2 fmt AND 1,
      dt_mipmaps = drop_bit 16 fmt, dt_width = drop_bit 16 rect, dt_height = rect AND 0xFFFF,
      dt_pitch = sz1 AND 0xFFFFF, dt_depth = drop_bit 20 sz1, dt_wrap = wrap, dt_filter = filt,
      dt_control0 = control0, dt_border_color = border\<rparr>"

definition rsx_dsp_get_texture :: "rsx_dispatch \<Rightarrow> u32 \<Rightarrow> rsx_dsp_texture option" where
  "rsx_dsp_get_texture rsx unit =
     (if unit \<ge> RSX_DSP_NUM_TEXTURES then Some (rsx_dsp_vertex_texture.extend zero_texture (rsx_dsp_texture.fields 0))
      else do {
        let base = M_TEX_OFFSET + unit * 0x20;
        fmt \<leftarrow> rsx_dsp_reg rsx (base + 0x04);
        off \<leftarrow> rsx_dsp_reg rsx base;
        wrap \<leftarrow> rsx_dsp_reg rsx (base + 0x08);
        control0 \<leftarrow> rsx_dsp_reg rsx (base + 0x0C);
        remap \<leftarrow> rsx_dsp_reg rsx (base + 0x10);
        filt \<leftarrow> rsx_dsp_reg rsx (base + 0x14);
        rect \<leftarrow> rsx_dsp_reg rsx (base + 0x18);
        border \<leftarrow> rsx_dsp_reg rsx (base + 0x1C);
        sz1 \<leftarrow> rsx_dsp_reg rsx (M_TEX_SIZE1 + unit * 4);
        Some (rsx_dsp_vertex_texture.extend (decode_texture off fmt wrap control0 filt rect border sz1)
          (rsx_dsp_texture.fields remap))
      })"

definition rsx_dsp_get_vertex_texture :: "rsx_dispatch \<Rightarrow> u32 \<Rightarrow> rsx_dsp_vertex_texture option" where
  "rsx_dsp_get_vertex_texture rsx unit =
     (if unit \<ge> RSX_DSP_NUM_VERTEX_TEXTURES then Some zero_texture
      else do {
        let base = M_VERTEX_TEXTURE + unit * 0x20;
        fmt \<leftarrow> rsx_dsp_reg rsx (base + 0x04);
        off \<leftarrow> rsx_dsp_reg rsx (base + 0x00);
        wrap \<leftarrow> rsx_dsp_reg rsx (base + 0x08);
        control0 \<leftarrow> rsx_dsp_reg rsx (base + 0x0C);
        ctl3 \<leftarrow> rsx_dsp_reg rsx (base + 0x10);
        filt \<leftarrow> rsx_dsp_reg rsx (base + 0x14);
        rect \<leftarrow> rsx_dsp_reg rsx (base + 0x18);
        border \<leftarrow> rsx_dsp_reg rsx (base + 0x1C);
        Some (decode_texture off fmt wrap control0 filt rect border ctl3)
      })"

definition rsx_dsp_vertex_data_base_offset :: "rsx_dispatch \<Rightarrow> u32 option" where
  "rsx_dsp_vertex_data_base_offset rsx = rsx_dsp_reg rsx M_VERTEX_DATA_BASE"

definition rsx_dsp_vertex_data_base_index :: "rsx_dispatch \<Rightarrow> u32 option" where
  "rsx_dsp_vertex_data_base_index rsx = rsx_dsp_reg rsx M_VB_ELEMENT_BASE"

definition rsx_dsp_resolve_vertex_index :: "u32 \<Rightarrow> u32 \<Rightarrow> u32" where
  "rsx_dsp_resolve_vertex_index index base_index = (index + base_index) AND 0x000FFFFF"

text \<open>The offset, and the location the caller may ask for.\<close>

definition rsx_dsp_fragment_program :: "rsx_dispatch \<Rightarrow> (u32 \<times> u32) option" where
  "rsx_dsp_fragment_program rsx = do {
     v \<leftarrow> rsx_dsp_reg rsx M_FP_ACTIVE_PROGRAM;
     Some (v AND NOT 3, if v AND 3 = 2 then RSX_LOCATION_MAIN else RSX_LOCATION_LOCAL)
   }"

definition rsx_dsp_shader_control :: "rsx_dispatch \<Rightarrow> u32 option" where
  "rsx_dsp_shader_control rsx = rsx_dsp_reg rsx M_FP_CONTROL"

definition rsx_dsp_vp_start :: "rsx_dispatch \<Rightarrow> u32 option" where
  "rsx_dsp_vp_start rsx = rsx_dsp_reg rsx M_VP_START_FROM_ID"

definition rsx_dsp_restart_index :: "rsx_dispatch \<Rightarrow> u32 option" where
  "rsx_dsp_restart_index rsx = rsx_dsp_reg rsx M_RESTART_INDEX"

definition rsx_dsp_restart_index_enabled :: "rsx_dispatch \<Rightarrow> bool \<Rightarrow> bool option" where
  "rsx_dsp_restart_index_enabled rsx index_is_u32 = do {
     en \<leftarrow> rsx_dsp_reg rsx M_RESTART_INDEX_ENABLE;
     if en = 0 then Some False
     else if \<not> index_is_u32 then do { v \<leftarrow> rsx_dsp_reg rsx M_RESTART_INDEX; Some (\<not> v > 0xFFFF) }
     else Some True
   }"

definition rsx_dsp_vertex_default :: "rsx_dispatch \<Rightarrow> u32 \<Rightarrow> u32 list option" where
  "rsx_dsp_vertex_default rsx index =
     (if index \<ge> RSX_DSP_NUM_VERTEX_ATTR then Some [0, 0, 0, ONE_F]
      else do {
        w \<leftarrow> dsp_regs_at rsx (map (\<lambda>i. M_VTX_ATTR_4F + index * 0x10 + of_nat i * 4) [0..<4]);
        Some (if foldl (OR) 0 w = 0 then [0, 0, 0, ONE_F] else w)
      })"

record rsx_dsp_index_array =
  ia_offset :: u32
  ia_location :: u32
  ia_is_u32 :: bool

definition rsx_dsp_get_index_array :: "rsx_dispatch \<Rightarrow> rsx_dsp_index_array option" where
  "rsx_dsp_get_index_array rsx = do {
     off \<leftarrow> rsx_dsp_reg rsx M_IDXBUF_OFFSET;
     fmt \<leftarrow> rsx_dsp_reg rsx M_IDXBUF_FORMAT;
     Some \<lparr>ia_offset = off, ia_location = fmt AND 0xF, ia_is_u32 = (drop_bit 4 fmt AND 0xFF = 0)\<rparr>
   }"

text \<open>The vector of a constant slot; a slot out of range reads slot 0.\<close>

definition rsx_dsp_constant :: "rsx_dispatch \<Rightarrow> u32 \<Rightarrow> u32 list" where
  "rsx_dsp_constant rsx slot =
     map (dsp_constants rsx (if slot < of_nat RSX_DSP_NUM_CONSTANTS then unat slot else 0)) [0..<4]"

end
