(* ===== verification/RsxStream.thy ===== *)
theory RsxStream
  imports RsxDispatch
begin

text \<open>
  The dispatcher of the RSX over whole streams of methods: every access is in bounds, what the sink
  sees is what an abstract dispatcher gives that keeps nothing but the words of the inline stream,
  and what happens when that stream overflows its buffer.
\<close>

section \<open>Accesses in bounds\<close>

lemmas dsp_sizes = RSX_DSP_NUM_REGS_def RSX_DSP_VP_INSTR_def RSX_DSP_VP_WORDS_def RSX_DSP_NUM_CONSTANTS_def
  RSX_DSP_NUM_VERTEX_ATTR_def RSX_DSP_NUM_TEXTURES_def RSX_DSP_NUM_VERTEX_TEXTURES_def RSX_DSP_INLINE_MAX_BYTES_def

lemmas dsp_accesses = get_reg_def set_reg_def set_klass_def set_vp_def set_constant_def set_inline_def

lemma unat_drop_bit: "unat (drop_bit k (w :: u32)) = unat w div 2 ^ k"
proof (cases "k < 32")
  case True
  then show ?thesis using unat_pow2 [of k, where ?'a = 32] by (simp add: drop_bit_eq_div unat_div)
next
  case False
  then have "(2 :: nat) ^ 32 \<le> 2 ^ k" by (intro power_increasing) simp_all
  moreover have "drop_bit k w = 0" using False by (intro bit_word_eqI) (simp add: bit_simps bit_imp_le_length)
  ultimately show ?thesis using u32_bound [of w] by (simp add: div_less)
qed

text \<open>The index of a register named by a base and a small multiple.\<close>

lemma unat_base_plus:
  fixes b k :: u32
  assumes "unat b + unat k * m < 4294967296"
  shows "unat (b + k * of_nat m) = unat b + unat k * m"
proof -
  have "b + k * of_nat m = of_nat (unat b + unat k * m)" by simp
  also have "unat \<dots> = unat b + unat k * m" using assms by (simp only: unat_of_nat) (simp add: take_bit_nat_eq_self)
  finally show ?thesis .
qed

lemma vtx_const_set_eq:
  assumes "unat attr < 16" "unat c < 4"
  shows "vtx_const_set rsx attr c v =
    Some (rsx\<lparr>dsp_regs := (dsp_regs rsx)(0x700 + 4 * unat attr + unat c := v)\<rparr>)"
proof -
  have "unat (M_VTX_ATTR_4F + attr * 0x10 + c * 4) = 0x1C00 + unat attr * 16 + unat c * 4"
    using assms unat_base_plus [of M_VTX_ATTR_4F attr 16] unat_base_plus [of "M_VTX_ATTR_4F + attr * 0x10" c 4] by simp
  then have "unat (drop_bit 2 (M_VTX_ATTR_4F + attr * 0x10 + c * 4)) = 0x700 + 4 * unat attr + unat c"
    by (simp add: unat_drop_bit)
  then show ?thesis using assms by (simp add: vtx_const_set_def set_reg_def dsp_sizes)
qed

text \<open>The attribute and the word a method of a window names.\<close>

lemma window_attr:
  fixes m :: u32
  assumes "b \<le> m" "m < b + of_nat n" "unat b + n < 4294967296"
  shows "unat (drop_bit k (m - b)) = (unat m - unat b) div 2 ^ k" "unat m - unat b < n"
proof -
  have "unat (b + of_nat n) = unat b + n"
    using assms(3) unat_base_plus [of b 1 n] by simp
  then show "unat m - unat b < n" using assms by (simp add: word_less_nat_alt word_le_nat_alt)
  show "unat (drop_bit k (m - b)) = (unat m - unat b) div 2 ^ k"
    using assms(1) by (simp add: unat_drop_bit unat_sub)
qed


lemma window_lt:
  fixes m :: u32
  assumes "b \<le> m" "m < b + of_nat n" "unat b + n < 4294967296"
  shows "unat (drop_bit k (m - b)) * 2 ^ k < n"
proof -
  have "(unat m - unat b) div 2 ^ k * 2 ^ k \<le> unat m - unat b" by (rule div_times_less_eq_dividend)
  then show ?thesis by (simp add: window_attr(1) [OF assms] le_less_trans [OF _ window_attr(2) [OF assms]])
qed

lemma unat_and_bit0: "unat ((w :: u32) AND 1) = unat w mod 2"
  by (simp add: and_one_eq unat_mod)

lemma unat_and_bits2: "unat ((w :: u32) AND 3) = unat w mod 4"
proof -
  have "w AND 3 = take_bit 2 w" by (simp add: take_bit_eq_mask mask_eq_exp_minus_1)
  then show ?thesis by (simp only: unsigned_take_bit_eq) (simp add: take_bit_eq_mod)
qed

text \<open>Folding a constant attribute changes only the block of the constant attributes.\<close>

definition const_frame :: "rsx_dispatch \<Rightarrow> rsx_dispatch \<Rightarrow> bool" where
  "const_frame r r' \<longleftrightarrow> (\<exists>f. r' = r\<lparr>dsp_regs := f\<rparr> \<and> (\<forall>i. i < 0x700 \<or> 0x740 \<le> i \<longrightarrow> f i = dsp_regs r i))"

lemma const_frame_refl: "const_frame r r"
  unfolding const_frame_def by (intro exI [of _ "dsp_regs r"]) simp

lemma vtx_const_set_frame:
  assumes "const_frame r0 r" "unat attr < 16" "unat c < 4"
  shows "\<exists>r'. vtx_const_set r attr c v = Some r' \<and> const_frame r0 r'"
  using assms unfolding vtx_const_set_eq [OF assms(2,3)] by (auto simp: const_frame_def)

lemma vtx_const_set_bind:
  assumes "const_frame r0 r" "unat attr < 16" "unat c < 4"
    "\<And>r'. const_frame r0 r' \<Longrightarrow> \<exists>r''. k r' = Some r'' \<and> const_frame r0 r''"
  shows "\<exists>r'. Option.bind (vtx_const_set r attr c v) k = Some r' \<and> const_frame r0 r'"
  using vtx_const_set_frame [OF assms(1-3), of v] assms(4) by auto

lemma vtx_const_fold_frame: "\<exists>r'. vtx_const_fold fo r m a = Some r' \<and> const_frame r r'"
proof -
  have w: "m \<ge> 0x1E40 \<Longrightarrow> m < 0x1E80 \<Longrightarrow> unat (drop_bit 2 (m - 0x1E40)) < 16"
    "m \<ge> 0x1880 \<Longrightarrow> m < 0x1900 \<Longrightarrow> unat (drop_bit 3 (m - 0x1880)) < 16"
    "m \<ge> 0x1500 \<Longrightarrow> m < 0x1600 \<Longrightarrow> unat (drop_bit 4 (m - 0x1500)) < 16"
    "m \<ge> 0x1900 \<Longrightarrow> m < 0x1940 \<Longrightarrow> unat (drop_bit 2 (m - 0x1900)) < 16"
    "m \<ge> 0x1940 \<Longrightarrow> m < 0x1980 \<Longrightarrow> unat (drop_bit 2 (m - 0x1940)) < 16"
    "m \<ge> 0x1980 \<Longrightarrow> m < 0x1A00 \<Longrightarrow> unat (drop_bit 3 (m - 0x1980)) < 16"
    "m \<ge> 0x0A80 \<Longrightarrow> m < 0x0B00 \<Longrightarrow> unat (drop_bit 3 (m - 0x0A80)) < 16"
    using
      window_lt [of "0x1E40" m "0x40" 2]
      window_lt [of "0x1880" m "0x80" 3]
      window_lt [of "0x1500" m "0x100" 4] 
     
      window_lt [of "0x1900" m "0x40" 2]
      window_lt [of "0x1940" m "0x40" 2]
      window_lt [of "0x1980" m "0x80" 3]
      window_lt [of "0x0A80" m "0x80" 3] by simp_all
  have c: "unat (x AND 1) < 4" "x < 3 \<Longrightarrow> unat x < 4" "unat ((x AND 1) * 2) < 4" "unat ((x AND 1) * 2 + 1) < 4" for x :: u32
    by (simp_all add: unat_and_bit0 unat_word_ariths word_less_nat_alt)
  have ex: "m < 0x0B00 \<Longrightarrow> \<not> 0x1980 \<le> m" by (simp add: not_le order.strict_trans)
  show ?thesis
    unfolding vtx_const_fold_def Let_def using w ex
    by (simp add: const_frame_refl c vtx_const_set_bind vtx_const_set_frame)
qed

section \<open>The upload windows and the inline stream never leave their arrays\<close>

text \<open>A step that leaves the inline stream, the sink and the colour mask alone.\<close>

definition quiet :: "rsx_dispatch \<Rightarrow> rsx_dispatch \<Rightarrow> bool" where
  "quiet r r' \<longleftrightarrow> dsp_inline_len r' = dsp_inline_len r \<and> dsp_inline_data r' = dsp_inline_data r \<and>
     dsp_sink r' = dsp_sink r \<and> dsp_regs r' 0xC9 = dsp_regs r 0xC9"

lemma upload_program_total:
  "\<exists>r'. upload_program r m a = Some r' \<and> quiet r r'"
proof -
  have "unat (x :: u32) < 2176" if "x < 2176" for x using that by (simp add: word_less_nat_alt)
  then show ?thesis by (simp add: upload_program_def dsp_accesses dsp_sizes Let_def quiet_def)
qed

lemma upload_constant_total:
  "\<exists>r'. upload_constant r m a = Some r' \<and> quiet r r'"
proof -
  have "unat (x :: u32) < 512" if "x < 512" for x using that by (simp add: word_less_nat_alt)
  then show ?thesis by (simp add: upload_constant_def dsp_accesses dsp_sizes Let_def unat_and_bits2 quiet_def)
qed

text \<open>A word of the inline stream, in guest byte order.\<close>

definition be_word :: "u32 \<Rightarrow> u8 list" where
  "be_word w = [ucast (drop_bit 24 w), ucast (drop_bit 16 w), ucast (drop_bit 8 w), ucast w]"

text \<open>The stream is a list of words; a word that does not fit empties it.\<close>

definition inline_rep :: "rsx_dispatch \<Rightarrow> u32 list \<Rightarrow> bool" where
  "inline_rep r ws \<longleftrightarrow> unat (dsp_inline_len r) = 4 * length ws \<and> length ws \<le> 16384 \<and> inline_bytes r = concat (map be_word ws)"

definition acc_word :: "u32 list \<Rightarrow> u32 \<Rightarrow> u32 list" where
  "acc_word ws w = (if length ws < 16384 then ws @ [w] else [])"

lemma inline_array_rep:
  assumes rep: "inline_rep r ws"
  obtains r' where "inline_array r w = Some r'" "inline_rep r' (acc_word ws w)" "dsp_regs r' = dsp_regs r"
    "dsp_sink r' = dsp_sink r"
proof (cases "length ws < 16384")
  case True
  let ?n = "dsp_inline_len r"
  have n: "unat ?n = 4 * length ws" using rep by (simp add: inline_rep_def)
  have u: "unat (?n + of_nat k) = 4 * length ws + k" if "k \<le> 4" for k
    using True that n unat_base_plus [of ?n 1 k] by simp
  have u': "unat (?n + 1) = 4 * length ws + 1" "unat (?n + 2) = 4 * length ws + 2" "unat (?n + 3) = 4 * length ws + 3"
    "unat (?n + 4) = 4 * length ws + 4"
    using u [of 1] u [of 2] u [of 3] u [of 4] by simp_all
  define d where "d = (dsp_inline_data r)(4 * length ws := ucast (drop_bit 24 w), 4 * length ws + 1 := ucast (drop_bit 16 w),
    4 * length ws + 2 := ucast (drop_bit 8 w), 4 * length ws + 3 := ucast w)"
  let ?r = "r\<lparr>dsp_inline_data := d, dsp_inline_len := ?n + 4\<rparr>"
  have "?n + 4 \<le> RSX_DSP_INLINE_MAX_BYTES" using True u' by (simp add: word_le_nat_alt dsp_sizes)
  then have "inline_array r w = Some ?r"
    using True by (simp add: inline_array_def set_inline_def dsp_sizes n u' d_def Let_def)
  moreover have "inline_bytes ?r = inline_bytes r @ be_word w"
  proof -
    have "[0..<4 * length ws + 4] = [0..<4 * length ws] @ [4 * length ws, 4 * length ws + 1, 4 * length ws + 2, 4 * length ws + 3]"
      by (subst upt_add_eq_append) (simp_all add: upt_conv_Cons)
    moreover have "map d [0..<4 * length ws] = map (dsp_inline_data r) [0..<4 * length ws]" by (simp add: d_def)
    ultimately show ?thesis by (simp add: inline_bytes_def u' n d_def be_word_def)
  qed
  ultimately show thesis using True rep by (intro that [of ?r]) (simp_all add: inline_rep_def acc_word_def u')
next
  case False
  then have n: "unat (dsp_inline_len r) = 65536" using rep by (simp add: inline_rep_def)
  let ?r = "r\<lparr>dsp_inline_len := 0, dsp_inline_dropped := dsp_inline_dropped r + 1\<rparr>"
  have "dsp_inline_len r = 65536" using n by (simp add: word_unat_eq_iff)
  then have "inline_array r w = Some ?r" by (simp add: inline_array_def dsp_sizes Let_def)
  then show thesis using False by (intro that [of ?r]) (simp_all add: inline_rep_def acc_word_def inline_bytes_def)
qed

section \<open>What a stream of methods makes the sink see\<close>

text \<open>
  The abstract dispatcher keeps only the words of the inline stream. \<open>push\<close> is what a further
  word does to them.
\<close>

definition spec_method ::
  "(u32 list \<Rightarrow> u32 \<Rightarrow> u32 list) \<Rightarrow> rsx_dispatch_sink \<Rightarrow> u32 list \<Rightarrow> u32 \<Rightarrow> u32 \<Rightarrow> u32 list \<times> dsp_event list" where
  "spec_method push s ws method arg =
     (let m = method AND 0xFFFFC; ev = (\<lambda>b e. (ws, if b then [e] else []))
      in if m = M_VERTEX_BEGIN_END
         then ([], if arg \<noteq> 0 then (if has_begin s then [Begin arg] else [])
                   else (if ws \<noteq> [] \<and> has_inline_array s then [Inline_Array (concat (map be_word ws))] else []) @
                        (if has_end s then [End] else []))
         else if m = M_INLINE_ARRAY then (push ws arg, [])
         else if m = M_CLEAR_BUFFERS then ev (has_clear s) (Clear arg)
         else if m = M_VB_VERTEX_BATCH then ev (has_draw_arrays s) (Draw_Arrays (arg AND 0xFFFFFF) (drop_bit 24 arg + 1))
         else if m = M_VB_INDEX_BATCH then ev (has_draw_index_array s) (Draw_Index_Array (arg AND 0xFFFFFF) (drop_bit 24 arg + 1))
         else if m \<in> {M_GCM_FLIP_HEAD_0, M_GCM_FLIP_HEAD_1, M_GCM_DRIVER_FLIP} then ev (has_flip s) (Flip arg)
         else (ws, []))"

fun spec_stream ::
  "(u32 list \<Rightarrow> u32 \<Rightarrow> u32 list) \<Rightarrow> rsx_dispatch_sink \<Rightarrow> u32 list \<Rightarrow> (u32 \<times> u32) list \<Rightarrow> u32 list \<times> dsp_event list" where
  "spec_stream push s ws [] = (ws, [])"
| "spec_stream push s ws ((m, a) # ms) =
     (let (ws, es) = spec_method push s ws m a; (ws, es') = spec_stream push s ws ms in (ws, es @ es'))"

text \<open>The relation between the two: the inline words, and 0 or 1 in every byte of the colour mask.\<close>

definition dsp_sim :: "rsx_dispatch \<Rightarrow> u32 list \<Rightarrow> bool" where
  "dsp_sim r ws \<longleftrightarrow> inline_rep r ws \<and> dsp_regs r 0xC9 AND 0xFEFEFEFE = 0"

lemma dsp_sim_quiet:
  assumes "dsp_sim r ws" "quiet r r'"
  shows "dsp_sim r' ws"
  using assms unfolding dsp_sim_def inline_rep_def inline_bytes_def quiet_def by auto

lemma begin_end_sim:
  assumes "dsp_sim r ws"
  shows "\<exists>r'. begin_end r a = (r', snd (spec_method push (dsp_sink r) ws M_VERTEX_BEGIN_END a)) \<and> dsp_sim r' [] \<and>
    dsp_sink r' = dsp_sink r"
proof -
  have "dsp_inline_len r \<noteq> 0 \<longleftrightarrow> ws \<noteq> []" "inline_bytes r = concat (map be_word ws)"
    using assms unat_eq_zero [of "dsp_inline_len r"] by (auto simp: dsp_sim_def inline_rep_def)
  then show ?thesis
    using assms by (auto simp: begin_end_def spec_method_def Let_def dsp_sim_def inline_rep_def inline_bytes_def)
qed

lemma run_method_sim:
  assumes sim: "dsp_sim r ws" and m: "m AND 0xFFFFC = m"
  shows "\<exists>r'. run_method r m a = Some (r', snd (spec_method acc_word (dsp_sink r) ws m a)) \<and>
    dsp_sim r' (fst (spec_method acc_word (dsp_sink r) ws m a)) \<and> dsp_sink r' = dsp_sink r"
proof -
  consider "m = M_VERTEX_BEGIN_END" | "m = M_INLINE_ARRAY" | "m \<noteq> M_VERTEX_BEGIN_END" "m \<noteq> M_INLINE_ARRAY" by blast
  then show ?thesis
  proof cases
    case 1
    then show ?thesis using begin_end_sim [OF sim, of a acc_word] by (auto simp: run_method_def spec_method_def Let_def)
  next
    case 2
    obtain r' where "inline_array r a = Some r'" "inline_rep r' (acc_word ws a)" "dsp_regs r' = dsp_regs r" "dsp_sink r' = dsp_sink r"
      using inline_array_rep sim unfolding dsp_sim_def by metis
    then show ?thesis using 2 sim by (simp add: run_method_def spec_method_def Let_def dsp_sim_def)
  next
    case 3
    then show ?thesis using sim by (simp add: run_method_def spec_method_def Let_def m)
  qed
qed

lemma const_frame_quiet: "const_frame r r' \<Longrightarrow> quiet r r'"
  by (auto simp: const_frame_def quiet_def)

lemma reg_index_color_mask:
  assumes "m AND 0xFFFFC = m" "unat (drop_bit 2 m) = 0xC9" shows "m = M_COLOR_MASK"
proof -
  have d: "drop_bit 2 m = 0xC9" using assms(2) by (simp add: word_unat_eq_iff)
  have "take_bit 2 (m AND 0xFFFFC) = 0" by (simp add: take_bit_eq_mask and.assoc mask_eq_exp_minus_1)
  then have "m = push_bit 2 (drop_bit 2 m)" using bits_ident [of 2 m] by (simp add: assms(1))
  then show ?thesis unfolding d by (simp add: push_bit_eq_mult)
qed

lemma spec_method_quiet:
  assumes "m AND 0xFFFFC = m"
    "m \<notin> {M_VERTEX_BEGIN_END, M_INLINE_ARRAY, M_CLEAR_BUFFERS, M_VB_VERTEX_BATCH, M_VB_INDEX_BATCH,
       M_GCM_FLIP_HEAD_0, M_GCM_FLIP_HEAD_1, M_GCM_DRIVER_FLIP}"
  shows "spec_method push s ws m a = (ws, [])"
  using assms by (simp add: spec_method_def)

lemma spec_method_mask: "spec_method push s ws (m AND 0xFFFFC) a = spec_method push s ws m a"
  by (simp add: spec_method_def and.assoc)

text \<open>One method: it runs, the sink sees what the abstract dispatcher gives, and the relation is kept.\<close>

lemma method_sim:
  assumes sim: "dsp_sim r ws"
  obtains r' where "rsx_dispatch_method fo r m a = Some (r', snd (spec_method acc_word (dsp_sink r) ws m a))"
    "dsp_sim r' (fst (spec_method acc_word (dsp_sink r) ws m a))" "dsp_sink r' = dsp_sink r"
proof -
  define n where "n = m AND 0xFFFFC"
  have n: "n AND 0xFFFFC = n" by (simp add: n_def and.assoc)
  let ?idx = "unat (drop_bit 2 n)"
  let ?r1 = "r\<lparr>dsp_seen := (dsp_seen r)(?idx := dsp_seen r ?idx + 1), dsp_regs := (dsp_regs r)(?idx := a)\<rparr>"
  let ?spec = "spec_method acc_word (dsp_sink r) ws n a"
  have "\<exists>r'. rsx_dispatch_method fo r m a = Some (r', snd ?spec) \<and> dsp_sim r' (fst ?spec) \<and> dsp_sink r' = dsp_sink r"
  proof (cases "?idx \<ge> RSX_DSP_NUM_REGS \<or> n = M_COLOR_MASK \<and> a AND 0xFEFEFEFE \<noteq> 0")
    case True
    then have "?spec = (ws, [])" by (intro spec_method_quiet n) (auto simp: dsp_sizes)
    then show ?thesis using True sim by (auto simp: rsx_dispatch_method_def n_def [symmetric] Let_def)
  next
    case False
    then have sim1: "dsp_sim ?r1 ws"
      using sim reg_index_color_mask [OF n] by (auto simp: dsp_sim_def inline_rep_def inline_bytes_def)
    obtain r2 where r2: "(if n \<ge> 0x1500 \<and> n < 0x1A00 \<or> n \<ge> 0x1E40 \<and> n < 0x1E80 \<or> n \<ge> 0x0A80 \<and> n < 0x0B00
        then vtx_const_fold fo ?r1 n a else Some ?r1) = Some r2" and q: "quiet ?r1 r2"
      using vtx_const_fold_frame [of fo ?r1 n a] const_frame_quiet const_frame_refl by (metis (no_types, lifting))
    have sim2: "dsp_sim r2 ws" and s2: "dsp_sink r2 = dsp_sink r"
      using dsp_sim_quiet [OF sim1 q] q by (simp_all add: quiet_def)
    have eq: "rsx_dispatch_method fo r m a =
       (if n \<ge> M_VP_UPLOAD_INST \<and> n < M_VP_UPLOAD_INST + 32 * 4 then map_option (\<lambda>r. (r, [])) (upload_program r2 n a)
        else if n \<ge> M_VP_UPLOAD_CONST \<and> n < M_VP_UPLOAD_CONST + 32 * 4
        then map_option (\<lambda>r. (r, [])) (upload_constant r2 n a) else run_method r2 n a)"
    proof -
      have f: "\<not> RSX_DSP_NUM_REGS \<le> ?idx" "\<not> (n = M_COLOR_MASK \<and> a AND 0xFEFEFEFE \<noteq> 0)" using False by auto
      have "set_reg (r\<lparr>dsp_seen := (dsp_seen r)(?idx := dsp_seen r ?idx + 1)\<rparr>) (drop_bit 2 n) a = Some ?r1"
        using f(1) by (simp add: set_reg_def)
      then show ?thesis
        unfolding rsx_dispatch_method_def Let_def n_def [symmetric] if_not_P [OF f(1)] if_not_P [OF f(2)]
        by (simp only: option.case bind.bind_lunit r2)
    qed
    let ?P = "n \<ge> M_VP_UPLOAD_INST \<and> n < M_VP_UPLOAD_INST + 32 * 4"
    let ?C = "n \<ge> M_VP_UPLOAD_CONST \<and> n < M_VP_UPLOAD_CONST + 32 * 4"
    consider (prog) ?P | (const) "\<not> ?P" ?C | (run) "\<not> ?P" "\<not> ?C" by blast
    then show ?thesis
    proof cases
      case prog
      then have "?spec = (ws, [])" by (intro spec_method_quiet n) auto
      moreover obtain r' where "upload_program r2 n a = Some r'" "quiet r2 r'" using upload_program_total by blast
      ultimately show ?thesis unfolding eq if_P [OF prog] using dsp_sim_quiet [OF sim2] s2 by (auto simp: quiet_def)
    next
      case const
      then have "?spec = (ws, [])" by (intro spec_method_quiet n) auto
      moreover obtain r' where "upload_constant r2 n a = Some r'" "quiet r2 r'" using upload_constant_total by blast
      ultimately show ?thesis unfolding eq if_not_P [OF const(1)] if_P [OF const(2)] using dsp_sim_quiet [OF sim2] s2 by (auto simp: quiet_def)
    next
      case run
      show ?thesis
        unfolding eq if_not_P [OF run(1)] if_not_P [OF run(2)] using run_method_sim [OF sim2 n, of a] s2 by simp
    qed
  qed
  then show thesis using that by (auto simp: n_def spec_method_mask)
qed

lemma stream_sim:
  assumes "dsp_sim r ws"
  obtains r' where "run_stream fo r ms = Some (r', snd (spec_stream acc_word (dsp_sink r) ws ms))"
    "dsp_sim r' (fst (spec_stream acc_word (dsp_sink r) ws ms))" "dsp_sink r' = dsp_sink r"
proof -
  have "\<exists>r'. run_stream fo r ms = Some (r', snd (spec_stream acc_word (dsp_sink r) ws ms)) \<and>
      dsp_sim r' (fst (spec_stream acc_word (dsp_sink r) ws ms)) \<and> dsp_sink r' = dsp_sink r"
    using assms
  proof (induction ms arbitrary: r ws)
    case (Cons x ms)
    obtain m a where x: "x = (m, a)" by fastforce
    obtain ws1 es where sp: "spec_method acc_word (dsp_sink r) ws m a = (ws1, es)" by fastforce
    obtain r1 where r1: "rsx_dispatch_method fo r m a = Some (r1, es)" "dsp_sim r1 ws1" "dsp_sink r1 = dsp_sink r"
      using method_sim [OF Cons.prems] sp by (metis fst_conv snd_conv)
    show ?case using Cons.IH [OF r1(2)] r1 sp by (auto simp: x split: prod.splits)
  qed simp
  then show thesis using that by blast
qed

lemma mark_from_total: "i + n \<le> 0x4000 \<Longrightarrow> \<exists>k. mark_from i n c r = Some (r\<lparr>dsp_klass := k\<rparr>)"
proof (induction n arbitrary: i r)
  case 0
  show ?case by (intro exI [of _ "dsp_klass r"]) simp
next
  case (Suc n)
  obtain k where "mark_from (Suc i) n c (r\<lparr>dsp_klass := (dsp_klass r)(i := c)\<rparr>) = Some (r\<lparr>dsp_klass := k\<rparr>)"
    using Suc.IH [of "Suc i" "r\<lparr>dsp_klass := (dsp_klass r)(i := c)\<rparr>"] Suc.prems by auto
  then show ?case using Suc.prems by (intro exI [of _ k]) (simp add: set_klass_def dsp_sizes)
qed

lemma mark_classes_total:
  "list_all (\<lambda>(m, n, _). unat (drop_bit 2 m) + n \<le> 0x4000) es \<Longrightarrow> \<exists>k. mark_classes es r = Some (r\<lparr>dsp_klass := k\<rparr>)"
proof (induction es arbitrary: r)
  case Nil
  show ?case by (intro exI [of _ "dsp_klass r"]) simp
next
  case (Cons e es)
  obtain m n c where e: "e = (m, n, c)" by (cases e)
  obtain k where "mark_class e r = Some (r\<lparr>dsp_klass := k\<rparr>)"
    using mark_from_total [of "unat (drop_bit 2 m)" n c r] Cons.prems by (auto simp: mark_class_def e)
  then show ?case using Cons.IH [of "r\<lparr>dsp_klass := k\<rparr>"] Cons.prems by auto
qed

lemma init_sim:
  obtains r where "rsx_dispatch_init sink = Some r" "dsp_sim r []" "dsp_sink r = sink" "dsp_vp r = (\<lambda>_. 0)"
proof -
  have "list_all (\<lambda>(m, n, _). unat (drop_bit 2 m) + n \<le> 0x4000) method_classes" by (simp add: method_classes_def)
  note marks = mark_classes_total [OF this]
  define r0 where "r0 = \<lparr>dsp_regs = (\<lambda>_. 0)(0xC9 := 0x01010101, 0x60D := 0x0901, 0x763 := 0xFFFFFF00), dsp_vp = \<lambda>_. 0,
    dsp_constants = \<lambda>_ _. 0, dsp_sink = sink, dsp_in_begin_end = False, dsp_current_primitive = 0, dsp_inline_len = 0,
    dsp_inline_dropped = 0, dsp_seen = \<lambda>_. 0, dsp_klass = \<lambda>_. 0, dsp_inline_data = \<lambda>_. 0\<rparr>"
  have "rsx_dispatch_init sink = mark_classes method_classes r0"
    by (simp add: rsx_dispatch_init_def set_reg_def dsp_sizes r0_def)
  moreover obtain k where "mark_classes method_classes r0 = Some (r0\<lparr>dsp_klass := k\<rparr>)" using marks by blast
  ultimately show thesis
    by (intro that [of "r0\<lparr>dsp_klass := k\<rparr>"]) (simp_all add: r0_def dsp_sim_def inline_rep_def inline_bytes_def)
qed

lemma run_stream_append:
  "run_stream fo r (ms @ ms') = do {
     (r, es) \<leftarrow> run_stream fo r ms; (r, es') \<leftarrow> run_stream fo r ms'; Some (r, es @ es') }"
  by (induction ms arbitrary: r) (auto split: prod.splits Option.bind_splits)

section \<open>The getters read inside the register file\<close>

lemma rsx_dsp_reg_total:
  assumes "unat m < 0x10000" shows "\<exists>v. rsx_dsp_reg r m = Some v"
proof -
  have "unat (m AND 0xFFFFC) \<le> unat m" using word_and_le1 [of "0xFFFFC" m] by (simp add: word_le_nat_alt and.commute)
  then have "unat (drop_bit 2 (m AND 0xFFFFC)) < 0x4000" using assms unfolding unat_drop_bit by simp
  then show ?thesis by (simp only: rsx_dsp_reg_def get_reg_def dsp_sizes) simp
qed

lemma dsp_regs_at_total: "list_all (\<lambda>m. unat m < 0x10000) ms \<Longrightarrow> \<exists>vs. dsp_regs_at r ms = Some vs"
proof (induction ms)
  case (Cons m ms)
  then show ?case using rsx_dsp_reg_total [of m r] by auto
qed simp

lemma bind_total: "\<exists>v. x = Some v \<Longrightarrow> (\<And>v. \<exists>y. f v = Some y) \<Longrightarrow> \<exists>y. Option.bind x f = Some y"
  by auto

lemma unit_reg:
  fixes u :: u32
  assumes "unat u < 16" "b \<le> 0x8000" "s \<le> 0x100" "k \<le> 0x100"
  shows "unat (of_nat b + u * of_nat s + of_nat k :: u32) < 0x10000"
proof -
  have "unat u * s \<le> 15 * 0x100" using assms by (intro mult_le_mono) auto
  moreover have "(of_nat b + u * of_nat s + of_nat k :: u32) = of_nat (b + unat u * s + k)" by simp
  ultimately show ?thesis using assms by (simp only: unat_of_nat) (simp add: take_bit_nat_eq_self)
qed

lemmas getter_defs = rsx_dsp_get_surface_def rsx_dsp_get_viewport_def rsx_dsp_get_vertex_attr_def rsx_dsp_get_texture_def
  rsx_dsp_get_vertex_texture_def rsx_dsp_fragment_program_def rsx_dsp_restart_index_enabled_def rsx_dsp_vertex_default_def
  rsx_dsp_get_index_array_def

lemma get_texture_total: "\<exists>t. rsx_dsp_get_texture r u = Some t"
proof (cases "u < 16")
  case True
  then have "unat u < 16" by (simp add: word_less_nat_alt)
  note u = unit_reg [OF this, of "0x1A00" "0x20"] unit_reg [OF this, of "0x1840" 4 0]
  have "\<exists>v. rsx_dsp_reg r (M_TEX_OFFSET + u * 0x20 + of_nat k) = Some v" if "k \<le> 0x100" for k
    using u(1) [of k] that by (intro rsx_dsp_reg_total) simp
  note t = this [of 0, simplified] this [of 4, simplified] this [of 8, simplified] this [of "0xC", simplified]
    this [of "0x10", simplified] this [of "0x14", simplified] this [of "0x18", simplified] this [of "0x1C", simplified]
    rsx_dsp_reg_total [OF u(2), of r, simplified]
  then show ?thesis using True by (auto simp: rsx_dsp_get_texture_def dsp_sizes)
qed (simp add: rsx_dsp_get_texture_def dsp_sizes not_less)

lemma get_vertex_texture_total: "\<exists>t. rsx_dsp_get_vertex_texture r u = Some t"
proof (cases "u < 4")
  case True
  then have "unat u < 16" by (simp add: word_less_nat_alt)
  note u = unit_reg [OF this, of "0x900" "0x20"]
  have "\<exists>v. rsx_dsp_reg r (M_VERTEX_TEXTURE + u * 0x20 + of_nat k) = Some v" if "k \<le> 0x100" for k
    using u(1) [of k] that by (intro rsx_dsp_reg_total) simp
  note t = this [of 0, simplified] this [of 4, simplified] this [of 8, simplified] this [of "0xC", simplified]
    this [of "0x10", simplified] this [of "0x14", simplified] this [of "0x18", simplified] this [of "0x1C", simplified]
  then show ?thesis using True by (auto simp: rsx_dsp_get_vertex_texture_def dsp_sizes)
qed (simp add: rsx_dsp_get_vertex_texture_def dsp_sizes not_less)

lemma get_vertex_attr_total: "\<exists>t. rsx_dsp_get_vertex_attr r u = Some t"
proof (cases "u < 16")
  case True
  then have "unat u < 16" by (simp add: word_less_nat_alt)
  note u = unit_reg [OF this, of "0x1740" 4 0] unit_reg [OF this, of "0x1680" 4 0]
  note t = rsx_dsp_reg_total [OF u(1), of r, simplified] rsx_dsp_reg_total [OF u(2), of r, simplified]
  then show ?thesis using True by (auto simp: rsx_dsp_get_vertex_attr_def dsp_sizes)
qed (simp add: rsx_dsp_get_vertex_attr_def dsp_sizes not_less)

lemma vertex_default_total: "\<exists>t. rsx_dsp_vertex_default r u = Some t"
proof (cases "u < 16")
  case True
  then have "unat u < 16" by (simp add: word_less_nat_alt)
  note u = unit_reg [OF this, of "0x1C00" "0x10"]
  have "list_all (\<lambda>m. unat m < 0x10000) (map (\<lambda>i. M_VTX_ATTR_4F + u * 0x10 + of_nat i * 4) [0..<4])"
    using u [of "_ * 4"] by (auto simp: list_all_iff)
  then show ?thesis using True dsp_regs_at_total [of _ r] by (fastforce simp: rsx_dsp_vertex_default_def dsp_sizes)
qed (simp add: rsx_dsp_vertex_default_def dsp_sizes not_less)

lemma get_fixed_total:
  "\<exists>x. rsx_dsp_get_surface r = Some x" "\<exists>x. rsx_dsp_get_viewport r = Some x" "\<exists>x. rsx_dsp_get_index_array r = Some x"
  "\<exists>x. rsx_dsp_fragment_program r = Some x" "\<exists>x. rsx_dsp_restart_index_enabled r b = Some x"
  unfolding rsx_dsp_get_surface_def rsx_dsp_get_viewport_def rsx_dsp_get_index_array_def rsx_dsp_fragment_program_def
    rsx_dsp_restart_index_enabled_def
  by (intro bind_total rsx_dsp_reg_total dsp_regs_at_total; auto simp: upt_conv_Cons rsx_dsp_reg_total intro!: bind_total)+

section \<open>Properties of the dispatcher\<close>


fun fits :: "rsx_dispatch_sink \<Rightarrow> u32 list \<Rightarrow> (u32 \<times> u32) list \<Rightarrow> bool" where
  "fits s ws [] \<longleftrightarrow> True"
| "fits s ws ((m, a) # ms) \<longleftrightarrow>
     (let ws = fst (spec_method (\<lambda>ws w. ws @ [w]) s ws m a) in length ws \<le> 16384 \<and> fits s ws ms)"

lemma fits_acc:
  "fits s ws ms \<Longrightarrow> spec_stream acc_word s ws ms = spec_stream (\<lambda>ws w. ws @ [w]) s ws ms"
proof (induction s ws ms rule: fits.induct)
  case (2 s ws m a ms)
  have "spec_method acc_word s ws m a = spec_method (\<lambda>ws w. ws @ [w]) s ws m a"
    using "2.prems" by (auto simp: spec_method_def acc_word_def Let_def split: if_splits)
  then show ?case using 2 by (auto simp: Let_def split: prod.splits)
qed simp

text \<open>
  C13. The dispatcher refines the abstract one that accumulates the inline words of a primitive without
  bound: as long as no primitive pushes more than 16384 inline words (64 KB), whatever state methods,
  draws, clears and flips come in between, the sink sees the same calls in the same order, an inline
  stream in guest byte order just before the End that closes it.
\<close>

theorem dispatch_refines_spec:
  assumes "fits sink [] ms"
  shows "map_option snd (Option.bind (rsx_dispatch_init sink) (\<lambda>r. run_stream fo r ms)) =
    Some (snd (spec_stream (\<lambda>ws w. ws @ [w]) sink [] ms))"
proof -
  obtain r0 where r0: "rsx_dispatch_init sink = Some r0" "dsp_sim r0 []" "dsp_sink r0 = sink" by (rule init_sim)
  obtain r where "run_stream fo r0 ms = Some (r, snd (spec_stream acc_word sink [] ms))"
    using stream_sim [OF r0(2)] r0(3) by metis
  then show ?thesis using r0(1) fits_acc [OF assms] by simp
qed

definition full_sink :: rsx_dispatch_sink where
  "full_sink = \<lparr>has_clear = True, has_begin = True, has_end = True, has_draw_arrays = True, has_draw_index_array = True,
     has_inline_array = True, has_flip = True\<rparr>"

theorem dispatch_refines_spec_witness:
  "\<forall>fo. map_option snd (Option.bind (rsx_dispatch_init full_sink) (\<lambda>r. run_stream fo r
     [(0x1808, 5), (0x1818, 0x01020304), (0x0324, 0), (0x11818, 7), (0x1818, 0xA0B0C0D0), (0x1808, 0), (0xE944, 1)])) =
   Some [Begin 5, Inline_Array [1, 2, 3, 4, 0xA0, 0xB0, 0xC0, 0xD0], End, Flip 1]"
proof
  fix fo
  let ?ms = "[(0x1808, 5), (0x1818, 0x01020304), (0x0324, 0), (0x11818, 7), (0x1818, 0xA0B0C0D0), (0x1808, 0), (0xE944, 1)] :: (u32 \<times> u32) list"
  have "fits full_sink [] ?ms" by (simp add: spec_method_def)
  moreover have "snd (spec_stream (\<lambda>ws w. ws @ [w]) full_sink [] ?ms) =
      [Begin 5, Inline_Array [1, 2, 3, 4, 0xA0, 0xB0, 0xC0, 0xD0], End, Flip 1]"
    by (simp add: spec_method_def full_sink_def be_word_def)
  ultimately show "map_option snd (Option.bind (rsx_dispatch_init full_sink) (\<lambda>r. run_stream fo r ?ms)) =
      Some [Begin 5, Inline_Array [1, 2, 3, 4, 0xA0, 0xB0, 0xC0, 0xD0], End, Flip 1]"
    using dispatch_refines_spec [of full_sink ?ms fo] by (simp only:)
qed

text \<open>The words that remain of a stream that overflows the buffer.\<close>

lemma foldl_acc_word: "foldl acc_word [] ws = drop (16385 * (length ws div 16385)) ws"
proof (induction ws rule: rev_induct)
  case (snoc w ws)
  let ?q = "length ws div 16385"
  have len: "length (drop (16385 * ?q) ws) = length ws mod 16385" by (simp add: minus_mult_div_eq_mod)
  show ?case
  proof (cases "length ws mod 16385 = 16384")
    case True
    then have "16385 dvd Suc (length ws)" by (simp add: dvd_eq_mod_eq_0 mod_Suc)
    then have "16385 * (Suc (length ws) div 16385) = Suc (length ws)" by (rule dvd_mult_div_cancel)
    then show ?thesis using snoc len True by (simp add: acc_word_def)
  next
    case False
    then have "Suc (length ws) div 16385 = ?q" "length ws mod 16385 < 16384"
      using mod_less_divisor [of 16385 "length ws"] by (simp_all add: div_Suc mod_Suc)
    moreover have "16385 * ?q \<le> length ws" by simp
    ultimately show ?thesis using snoc len by (simp add: acc_word_def)
  qed
qed simp

lemma spec_stream_inline:
  "spec_stream acc_word s ws (map (Pair M_INLINE_ARRAY) vs @ [(M_VERTEX_BEGIN_END, 0)]) =
     ([], (if foldl acc_word ws vs \<noteq> [] \<and> has_inline_array s
           then [Inline_Array (concat (map be_word (foldl acc_word ws vs)))] else []) @ (if has_end s then [End] else []))"
  by (induction vs arbitrary: ws) (simp_all add: spec_method_def)



end
