(* ===== verification/RsxUpload.thy ===== *)
theory RsxUpload
  imports RsxStream
begin

text \<open>
  What the methods of the RSX leave behind, as the getters read it: transform programs and constants
  loaded through their windows, and the constant value of a vertex attribute, in every form a
  program can set it (\<^verbatim>\<open>src/libs/video/rsx_dispatch.c\<close>).
\<close>

section \<open>The transform program\<close>

lemma less_32_cases:
  assumes "k < (32 :: nat)"
  shows "k \<in> {0, 1, 2, 3, 4, 5, 6, 7, 8, 9, 10, 11, 12, 13, 14, 15, 16, 17, 18, 19, 20, 21, 22, 23, 24, 25, 26, 27, 28, 29, 30, 31}"
proof -
  have "{..<32 :: nat} = {0, 1, 2, 3, 4, 5, 6, 7, 8, 9, 10, 11, 12, 13, 14, 15, 16, 17, 18, 19, 20, 21, 22, 23, 24, 25, 26, 27,
      28, 29, 30, 31}" by code_simp
  then show ?thesis using assms by (simp only: lessThan_iff [symmetric])
qed

lemma upload_inst_step:
  assumes "k < 32"
  shows "\<exists>r'. rsx_dispatch_method fo r (M_VP_UPLOAD_INST + of_nat k * 4) w = Some (r', []) \<and>
    dsp_regs r' 0x7A7 = (if k mod 4 = 3 then dsp_regs r 0x7A7 + 1 else dsp_regs r 0x7A7) \<and>
    dsp_vp r' = (let pos = dsp_regs r 0x7A7 * 4 + of_nat (k mod 4)
      in if unat pos < 2176 then (dsp_vp r)(unat pos := w) else dsp_vp r)"
proof -
  have lt: "x < 2176 \<longleftrightarrow> unat x < 2176" for x :: u32 by (simp add: word_less_nat_alt)
  show ?thesis
    using less_32_cases [OF assms]
    by (elim insertE emptyE; simp add: rsx_dispatch_method_def upload_program_def dsp_accesses dsp_sizes lt Let_def)
qed

text \<open>
  A burst of program words: the window is 32 words long, and a longer burst starts over at its first
  word. After \<open>n\<close> words the program holds them from instruction \<open>p\<close> on, as far as
  there is room, and the load pointer counts the whole instructions.
\<close>

definition program_burst :: "u32 list \<Rightarrow> (u32 \<times> u32) list" where
  "program_burst ws = map (\<lambda>i. (M_VP_UPLOAD_INST + of_nat (i mod 32) * 4, ws ! i)) [0..<length ws]"

definition program_loaded :: "rsx_dispatch \<Rightarrow> nat \<Rightarrow> u32 list \<Rightarrow> rsx_dispatch \<Rightarrow> bool" where
  "program_loaded r p ws r' \<longleftrightarrow> dsp_regs r' 0x7A7 = of_nat (p + length ws div 4) \<and>
     (\<forall>j < 2176. dsp_vp r' j = (if 4 * p \<le> j \<and> j < 4 * p + length ws then ws ! (j - 4 * p) else dsp_vp r j))"

lemma program_burst_snoc:
  "program_burst (ws @ [w]) = program_burst ws @ [(M_VP_UPLOAD_INST + of_nat (length ws mod 32) * 4, w)]"
  by (simp add: program_burst_def nth_append)

lemma loaded_snoc:
  assumes l: "program_loaded r p ws r1" and sz: "4 * p + length ws < 4294967296"
  shows "\<exists>r'. rsx_dispatch_method fo r1 (M_VP_UPLOAD_INST + of_nat (length ws mod 32) * 4) w = Some (r', []) \<and>
    program_loaded r p (ws @ [w]) r'"
proof -
  let ?n = "length ws" and ?q = "length ws div 4"
  have m4: "?n mod 32 mod 4 = ?n mod 4" by (rule mod_mod_cancel) simp
  have "dsp_regs r1 0x7A7 = of_nat (p + ?q)" using l by (simp only: program_loaded_def)
  then have "dsp_regs r1 0x7A7 * 4 + of_nat (?n mod 4) = of_nat ((p + ?q) * 4 + ?n mod 4)"
    by (simp only: of_nat_add of_nat_mult of_nat_numeral)
  also have "(p + ?q) * 4 + ?n mod 4 = 4 * p + ?n" using mult_div_mod_eq [of 4 ?n] by (simp add: add_mult_distrib)
  finally have pos: "unat (dsp_regs r1 0x7A7 * 4 + of_nat (?n mod 4)) = 4 * p + ?n"
    using sz by (simp only: unat_of_nat) (simp add: take_bit_nat_eq_self)
  obtain r' where r': "rsx_dispatch_method fo r1 (M_VP_UPLOAD_INST + of_nat (?n mod 32) * 4) w = Some (r', [])"
    "dsp_regs r' 0x7A7 = (if ?n mod 4 = 3 then dsp_regs r1 0x7A7 + 1 else dsp_regs r1 0x7A7)"
    "dsp_vp r' = (if 4 * p + ?n < 2176 then (dsp_vp r1)(4 * p + ?n := w) else dsp_vp r1)"
    using upload_inst_step [of "?n mod 32" fo r1 w] unfolding m4 pos Let_def by auto
  have q: "Suc ?n div 4 = (if ?n mod 4 = 3 then Suc ?q else ?q)" by (simp add: div_Suc mod_Suc)
  have "dsp_regs r' 0x7A7 = of_nat (p + Suc ?n div 4)" using l r'(2) by (simp add: program_loaded_def q)
  moreover have "dsp_vp r' j = (if 4 * p \<le> j \<and> j < 4 * p + Suc ?n then (ws @ [w]) ! (j - 4 * p) else dsp_vp r j)" if "j < 2176" for j
  proof (cases "j = 4 * p + ?n")
    case True
    then show ?thesis using r'(3) that by simp
  next
    case False
    then have "dsp_vp r' j = dsp_vp r1 j" using r'(3) by auto
    also have "\<dots> = (if 4 * p \<le> j \<and> j < 4 * p + ?n then ws ! (j - 4 * p) else dsp_vp r j)" using l that by (simp add: program_loaded_def)
    finally show ?thesis using False by (auto simp: nth_append)
  qed
  ultimately show ?thesis using r'(1) by (simp add: program_loaded_def)
qed

lemma program_burst_loaded:
  assumes "dsp_regs r 0x7A7 = of_nat p" "4 * p + length ws \<le> 4294967296"
  shows "\<exists>r'. run_stream fo r (program_burst ws) = Some (r', []) \<and> program_loaded r p ws r'"
  using assms(2)
proof (induction ws rule: rev_induct)
  case Nil
  show ?case using assms(1) by (auto simp: program_burst_def program_loaded_def)
next
  case (snoc w ws)
  then obtain r1 where r1: "run_stream fo r (program_burst ws) = Some (r1, [])" "program_loaded r p ws r1" by auto
  obtain r' where "rsx_dispatch_method fo r1 (M_VP_UPLOAD_INST + of_nat (length ws mod 32) * 4) w = Some (r', [])"
    "program_loaded r p (ws @ [w]) r'"
    using loaded_snoc [OF r1(2)] snoc.prems by auto
  then show ?case using r1(1) by (auto simp: program_burst_snoc run_stream_append)
qed

text \<open>
  C21. A transform program goes in as it was written: after the load pointer is set to instruction
  \<open>p\<close> and the words are sent through the window, of any length that does not wrap the address,
  the program memory holds them consecutively from instruction \<open>p\<close>, the words past its 544
  instructions are dropped and every other word is as it was, the load pointer has advanced by the
  whole instructions sent, and the sink has seen nothing.
\<close>

theorem program_upload:
  assumes "4 * unat p + length ws \<le> 4294967296"
  shows "\<exists>r'. run_stream fo r ((M_VP_UPLOAD_FROM_ID, p) # program_burst ws) = Some (r', []) \<and>
     dsp_regs r' 0x7A7 = p + of_nat (length ws div 4) \<and>
     (\<forall>j < RSX_DSP_VP_WORDS. dsp_vp r' j =
        (if 4 * unat p \<le> j \<and> j < 4 * unat p + length ws then ws ! (j - 4 * unat p) else dsp_vp r j))"
proof -
  obtain r1 where r1: "rsx_dispatch_method fo r M_VP_UPLOAD_FROM_ID p = Some (r1, [])" "dsp_regs r1 0x7A7 = p" "dsp_vp r1 = dsp_vp r"
    by (simp add: rsx_dispatch_method_def run_method_def set_reg_def dsp_sizes Let_def)
  obtain r' where "run_stream fo r1 (program_burst ws) = Some (r', [])" "program_loaded r1 (unat p) ws r'"
    using program_burst_loaded [of r1 "unat p" ws] assms r1(2) by auto
  then show ?thesis using r1 by (auto simp: program_loaded_def dsp_sizes)
qed

theorem program_upload_witness:
  "\<forall>fo r. \<exists>r'. run_stream fo r [(0x1E9C, 543), (0xB80, 1), (0xB84, 2), (0xB88, 3), (0xB8C, 4), (0xB90, 5)] = Some (r', []) \<and>
     dsp_regs r' 0x7A7 = 544 \<and> dsp_vp r' 2172 = 1 \<and> dsp_vp r' 2175 = 4 \<and> dsp_vp r' 2171 = dsp_vp r 2171"
proof (intro allI)
  fix fo r
  have b: "program_burst [1, 2, 3, 4, 5] = [(0xB80, 1), (0xB84, 2), (0xB88, 3), (0xB8C, 4), (0xB90, 5)]"
    by (simp add: program_burst_def)
  show "\<exists>r'. run_stream fo r [(0x1E9C, 543), (0xB80, 1), (0xB84, 2), (0xB88, 3), (0xB8C, 4), (0xB90, 5)] = Some (r', []) \<and>
     dsp_regs r' 0x7A7 = 544 \<and> dsp_vp r' 2172 = 1 \<and> dsp_vp r' 2175 = 4 \<and> dsp_vp r' 2171 = dsp_vp r 2171"
    using program_upload [of 543 "[1, 2, 3, 4, 5]" fo r] unfolding b by (fastforce simp: dsp_sizes)
qed

section \<open>The transform constants\<close>

lemma upload_const_step:
  assumes "k < 32"
  shows "\<exists>r'. rsx_dispatch_method fo r (M_VP_UPLOAD_CONST + of_nat k * 4) w = Some (r', []) \<and>
    dsp_regs r' 0x7BF = dsp_regs r 0x7BF \<and>
    dsp_constants r' = (let s = unat (dsp_regs r 0x7BF + of_nat (k div 4))
      in if s < 512 then (dsp_constants r)(s := (dsp_constants r s)(k mod 4 := w)) else dsp_constants r)"
proof -
  have lt: "x < 512 \<longleftrightarrow> unat x < 512" for x :: u32 by (simp add: word_less_nat_alt)
  show ?thesis
    using less_32_cases [OF assms]
    by (elim insertE emptyE; simp add: rsx_dispatch_method_def upload_constant_def dsp_accesses dsp_sizes lt Let_def)
qed

definition const_burst :: "u32 list \<Rightarrow> (u32 \<times> u32) list" where
  "const_burst ws = map (\<lambda>i. (M_VP_UPLOAD_CONST + of_nat i * 4, ws ! i)) [0..<length ws]"

definition const_loaded :: "rsx_dispatch \<Rightarrow> nat \<Rightarrow> u32 list \<Rightarrow> rsx_dispatch \<Rightarrow> bool" where
  "const_loaded r p ws r' \<longleftrightarrow> dsp_regs r' 0x7BF = of_nat p \<and>
     (\<forall>s c. s < 512 \<longrightarrow> c < 4 \<longrightarrow> dsp_constants r' s c =
        (if 4 * p \<le> 4 * s + c \<and> 4 * s + c < 4 * p + length ws then ws ! (4 * s + c - 4 * p) else dsp_constants r s c))"

lemma const_loaded_snoc:
  assumes l: "const_loaded r p ws r1" and sz: "length ws < 32" "p + 8 \<le> 4294967296"
  shows "\<exists>r'. rsx_dispatch_method fo r1 (M_VP_UPLOAD_CONST + of_nat (length ws) * 4) w = Some (r', []) \<and>
    const_loaded r p (ws @ [w]) r'"
proof -
  let ?n = "length ws"
  have "dsp_regs r1 0x7BF + of_nat (?n div 4) = of_nat (p + ?n div 4)" using l by (simp add: const_loaded_def)
  then have slot: "unat (dsp_regs r1 0x7BF + of_nat (?n div 4)) = p + ?n div 4"
    using sz by (simp only: unat_of_nat) (simp add: take_bit_nat_eq_self)
  obtain r' where r': "rsx_dispatch_method fo r1 (M_VP_UPLOAD_CONST + of_nat ?n * 4) w = Some (r', [])"
    "dsp_regs r' 0x7BF = dsp_regs r1 0x7BF"
    "dsp_constants r' = (if p + ?n div 4 < 512
      then (dsp_constants r1)(p + ?n div 4 := (dsp_constants r1 (p + ?n div 4))(?n mod 4 := w)) else dsp_constants r1)"
    using upload_const_step [OF sz(1), of fo r1 w] unfolding slot Let_def by auto
  have "dsp_constants r' s c = (if 4 * p \<le> 4 * s + c \<and> 4 * s + c < 4 * p + Suc ?n then (ws @ [w]) ! (4 * s + c - 4 * p)
      else dsp_constants r s c)" if "s < 512" "c < 4" for s c
  proof (cases "4 * s + c = 4 * p + ?n")
    case True
    then have e: "4 * s + c - 4 * p = ?n" by simp
    have "s = (4 * p + ?n) div 4" "c = (4 * p + ?n) mod 4"
      unfolding True [symmetric] using that by simp_all
    then have "s = p + ?n div 4" "c = ?n mod 4" by simp_all
    then have "dsp_constants r' s c = w" using r'(3) that by simp
    then show ?thesis using True unfolding e by simp
  next
    case False
    then have "\<not> (s = p + ?n div 4 \<and> c = ?n mod 4)" using mult_div_mod_eq [of 4 ?n] by (auto simp: algebra_simps)
    then have "dsp_constants r' s c = dsp_constants r1 s c" using r'(3) by auto
    also have "\<dots> = (if 4 * p \<le> 4 * s + c \<and> 4 * s + c < 4 * p + ?n then ws ! (4 * s + c - 4 * p) else dsp_constants r s c)"
      using l that by (simp add: const_loaded_def)
    finally show ?thesis using False by (auto simp: nth_append)
  qed
  then show ?thesis using r'(1,2) l by (simp add: const_loaded_def)
qed

lemma const_burst_snoc: "const_burst (ws @ [w]) = const_burst ws @ [(M_VP_UPLOAD_CONST + of_nat (length ws) * 4, w)]"
  by (simp add: const_burst_def nth_append)

lemma const_burst_loaded:
  assumes "dsp_regs r 0x7BF = of_nat p" "p + 8 \<le> 4294967296" "length ws \<le> 32"
  shows "\<exists>r'. run_stream fo r (const_burst ws) = Some (r', []) \<and> const_loaded r p ws r'"
  using assms(3)
proof (induction ws rule: rev_induct)
  case Nil
  show ?case using assms(1) by (auto simp: const_burst_def const_loaded_def)
next
  case (snoc w ws)
  then obtain r1 where r1: "run_stream fo r (const_burst ws) = Some (r1, [])" "const_loaded r p ws r1" by auto
  obtain r' where "rsx_dispatch_method fo r1 (M_VP_UPLOAD_CONST + of_nat (length ws) * 4) w = Some (r', [])"
    "const_loaded r p (ws @ [w]) r'"
    using const_loaded_snoc [OF r1(2)] snoc.prems assms(2) by auto
  then show ?case using r1(1) by (auto simp: const_burst_snoc run_stream_append)
qed

text \<open>
  C0. Transform constants go in as they were written: with the load pointer at slot \<open>p\<close> and up
  to 32 words sent through the window, the getter reads word \<open>i\<close> in component \<open>i mod 4\<close>
  of slot \<open>p + i div 4\<close>; the other components and slots are as they were, words past slot
  511 are dropped, the load pointer does not move, and the sink has seen nothing.
\<close>

theorem constant_upload:
  assumes "unat p + 8 \<le> 4294967296" "length ws \<le> 32"
  shows "\<exists>r'. run_stream fo r ((M_VP_UPLOAD_CONST_ID, p) # const_burst ws) = Some (r', []) \<and> dsp_regs r' 0x7BF = p \<and>
     (\<forall>s c. s < RSX_DSP_NUM_CONSTANTS \<longrightarrow> c < 4 \<longrightarrow> rsx_dsp_constant r' (of_nat s) ! c =
        (if 4 * unat p \<le> 4 * s + c \<and> 4 * s + c < 4 * unat p + length ws then ws ! (4 * s + c - 4 * unat p)
         else rsx_dsp_constant r (of_nat s) ! c))"
proof -
  obtain r1 where r1: "rsx_dispatch_method fo r M_VP_UPLOAD_CONST_ID p = Some (r1, [])" "dsp_regs r1 0x7BF = p"
      "dsp_constants r1 = dsp_constants r"
    by (simp add: rsx_dispatch_method_def run_method_def set_reg_def dsp_sizes Let_def)
  obtain r' where r': "run_stream fo r1 (const_burst ws) = Some (r', [])" "const_loaded r1 (unat p) ws r'"
    using const_burst_loaded [of r1 "unat p" ws] assms r1(2) by auto
  have "rsx_dsp_constant x (of_nat s) ! c = dsp_constants x s c" if "s < 512" "c < 4" for x s c
  proof -
    have "unat (of_nat s :: u32) = s" using that by (simp only: unat_of_nat) (simp add: take_bit_nat_eq_self)
    then show ?thesis using that by (simp add: rsx_dsp_constant_def dsp_sizes word_less_nat_alt)
  qed
  then show ?thesis using r1 r' by (auto simp: const_loaded_def dsp_sizes)
qed

theorem constant_upload_witness:
  "\<forall>fo r. \<exists>r'. run_stream fo r [(0x1EFC, 510), (0x1F00, 1), (0x1F04, 2), (0x1F08, 3), (0x1F0C, 4), (0x1F10, 5)] = Some (r', []) \<and>
     dsp_regs r' 0x7BF = 510 \<and> rsx_dsp_constant r' 510 ! 3 = 4 \<and> rsx_dsp_constant r' 511 ! 0 = 5 \<and>
     rsx_dsp_constant r' 509 ! 3 = rsx_dsp_constant r 509 ! 3"
proof (intro allI)
  fix fo r
  have b: "const_burst [1, 2, 3, 4, 5] = [(0x1F00, 1), (0x1F04, 2), (0x1F08, 3), (0x1F0C, 4), (0x1F10, 5)]"
    by (simp add: const_burst_def)
  obtain r' where r': "run_stream fo r [(0x1EFC, 510), (0x1F00, 1), (0x1F04, 2), (0x1F08, 3), (0x1F0C, 4), (0x1F10, 5)] = Some (r', [])"
      "dsp_regs r' 0x7BF = 510" and c: "\<And>s c. s < 512 \<Longrightarrow> c < 4 \<Longrightarrow> rsx_dsp_constant r' (of_nat s) ! c =
        (if 2040 \<le> 4 * s + c \<and> 4 * s + c < 2045 then [1, 2, 3, 4, 5] ! (4 * s + c - 2040) else rsx_dsp_constant r (of_nat s) ! c)"
    using constant_upload [of 510 "[1, 2, 3, 4, 5]" fo r] unfolding b by (auto simp: dsp_sizes)
  show "\<exists>r'. run_stream fo r [(0x1EFC, 510), (0x1F00, 1), (0x1F04, 2), (0x1F08, 3), (0x1F0C, 4), (0x1F10, 5)] = Some (r', []) \<and>
     dsp_regs r' 0x7BF = 510 \<and> rsx_dsp_constant r' 510 ! 3 = 4 \<and> rsx_dsp_constant r' 511 ! 0 = 5 \<and>
     rsx_dsp_constant r' 509 ! 3 = rsx_dsp_constant r 509 ! 3"
    using r' c [of 510 3] c [of 511 0] c [of 509 3] by auto
qed

section \<open>The constant value of an attribute\<close>

lemma attr_index_cases:
  assumes "unat (u :: u32) < 16"
  shows "u \<in> {0, 1, 2, 3, 4, 5, 6, 7, 8, 9, 10, 11, 12, 13, 14, 15}"
proof -
  have "{..<16 :: nat} = {0, 1, 2, 3, 4, 5, 6, 7, 8, 9, 10, 11, 12, 13, 14, 15}" by code_simp
  then have "unat u \<in> {0, 1, 2, 3, 4, 5, 6, 7, 8, 9, 10, 11, 12, 13, 14, 15}" using assms by (simp only: lessThan_iff [symmetric])
  then show ?thesis by (simp add: word_unat_eq_iff)
qed

definition vertex_default_after :: "float_ops \<Rightarrow> rsx_dispatch \<Rightarrow> (u32 \<times> u32) list \<Rightarrow> u32 \<Rightarrow> u32 list option" where
  "vertex_default_after fo r ms u = Option.bind (run_stream fo r ms) (\<lambda>(r, _). rsx_dsp_vertex_default r u)"

lemma upt_4: "[0..<4 :: nat] = [0, 1, 2, 3]"
  by code_simp

lemma not_16_le_1: "\<not> (16 :: u32) \<le> 1"
  by (simp add: word_le_nat_alt)

text \<open>The getter: the four registers of the attribute, or (0, 0, 0, 1) when all are 0.\<close>

lemma vertex_default_eq:
  assumes "unat u < 16"
  shows "rsx_dsp_vertex_default r u = (let w = map (\<lambda>c. dsp_regs r (0x700 + 4 * unat u + c)) [0, 1, 2, 3]
    in Some (if w = [0, 0, 0, 0] then [0, 0, 0, ONE_F] else w))"
proof -
  have or0: "a OR b = 0 \<longleftrightarrow> a = 0 \<and> b = 0" for a b :: u32 by (rule or_eq_0_iff)
  show ?thesis
    using attr_index_cases [OF assms]
    by (elim insertE emptyE; simp add: rsx_dsp_vertex_default_def rsx_dsp_reg_def get_reg_def dsp_sizes upt_4 not_16_le_1 or0)
qed

lemmas vd_simps = vertex_default_after_def rsx_dispatch_method_def vtx_const_fold_def vtx_const_set_def run_method_def
  vertex_default_eq dsp_accesses dsp_sizes Let_def ONE_F_def

lemma default_1f:
  assumes "unat u < 16" shows "vertex_default_after fo r [(0x1E40 + u * 4, x)] u = Some [x, 0, 0, ONE_F]"
  using attr_index_cases [OF assms] by (elim insertE emptyE; simp add: vd_simps)

lemma default_2f:
  assumes "unat u < 16" shows "vertex_default_after fo r [(0x1880 + u * 8, x), (0x1884 + u * 8, y)] u = Some [x, y, 0, ONE_F]"
  using attr_index_cases [OF assms] by (elim insertE emptyE; simp add: vd_simps)

lemma default_3f:
  assumes "unat u < 16"
  shows "vertex_default_after fo r [(0x1500 + u * 16, x), (0x1504 + u * 16, y), (0x1508 + u * 16, z)] u = Some [x, y, z, ONE_F]"
  using attr_index_cases [OF assms] by (elim insertE emptyE; simp add: vd_simps)

lemma default_4f:
  assumes "unat u < 16"
  shows "vertex_default_after fo r [(0x1C00 + u * 16, x), (0x1C04 + u * 16, y), (0x1C08 + u * 16, z), (0x1C0C + u * 16, w)] u =
    Some (if [x, y, z, w] = [0, 0, 0, 0] then [0, 0, 0, ONE_F] else [x, y, z, w])"
  using attr_index_cases [OF assms] by (elim insertE emptyE; simp add: vd_simps)

lemma default_4ub:
  assumes "unat u < 16"
  shows "vertex_default_after fo r [(0x1940 + u * 4, a)] u =
    (let v = map (\<lambda>c. float_div fo (float_of_int fo (uint (drop_bit (8 * c) a AND 0xFF))) (float_of_int fo 255)) [0, 1, 2, 3]
     in Some (if v = [0, 0, 0, 0] then [0, 0, 0, ONE_F] else v))"
  using attr_index_cases [OF assms] by (elim insertE emptyE; simp add: vd_simps)

text \<open>
  C0. Every float form of SET_VERTEX_DATA, and the packed bytes, set the constant value the getter
  reads for the attribute: the components the form does not carry are (0, 0, 0, 1), a byte \<open>b\<close>
  is \<open>b / 255\<close>. A value whose four components are all zero reads as (0, 0, 0, 1), although
  it was written.
\<close>

theorem vertex_default_set:
  assumes "unat u < 16"
  shows "vertex_default_after fo r [(0x1E40 + u * 4, x)] u = Some [x, 0, 0, ONE_F] \<and>
    vertex_default_after fo r [(0x1880 + u * 8, x), (0x1884 + u * 8, y)] u = Some [x, y, 0, ONE_F] \<and>
    vertex_default_after fo r [(0x1500 + u * 16, x), (0x1504 + u * 16, y), (0x1508 + u * 16, z)] u = Some [x, y, z, ONE_F] \<and>
    vertex_default_after fo r [(0x1C00 + u * 16, x), (0x1C04 + u * 16, y), (0x1C08 + u * 16, z), (0x1C0C + u * 16, w)] u =
      Some (if [x, y, z, w] = [0, 0, 0, 0] then [0, 0, 0, ONE_F] else [x, y, z, w]) \<and>
    vertex_default_after fo r [(0x1940 + u * 4, a)] u =
      (let v = map (\<lambda>c. float_div fo (float_of_int fo (uint (drop_bit (8 * c) a AND 0xFF))) (float_of_int fo 255)) [0, 1, 2, 3]
       in Some (if v = [0, 0, 0, 0] then [0, 0, 0, ONE_F] else v))"
  using assms by (intro conjI default_1f default_2f default_3f default_4f default_4ub)

theorem vertex_default_set_witness:
  "\<forall>fo r. vertex_default_after fo r [(0x1C30, 0), (0x1C34, 0), (0x1C38, 0), (0x1C3C, 0)] 3 = Some [0, 0, 0, ONE_F]"
  using vertex_default_set [of 3 _ _ 0 0 0 0] by simp

end
