(* ===== verification/OpenAddressing.thy ===== *)
theory OpenAddressing
  imports Main
begin

text \<open>
  Hash tables with linear probing, the interface a client needs of one: every key has a home below
  the capacity. A table is a function from slots to the key and value a slot holds. It is
  \<open>chained\<close> when every entry can be reached from the home of its key over full slots; a probe
  for a key stops at a slot that is empty or holds the key.
\<close>

definition chained :: "('k \<Rightarrow> nat) \<Rightarrow> nat \<Rightarrow> (nat \<Rightarrow> ('k \<times> 'v) option) \<Rightarrow> bool" where
  "chained home cap t \<longleftrightarrow> (\<forall>i < cap. \<forall>k v. t i = Some (k, v) \<longrightarrow>
     (\<exists>e < cap. i = (home k + e) mod cap \<and> (\<forall>d < e. t ((home k + d) mod cap) \<noteq> None)))"

definition stops :: "(nat \<Rightarrow> ('k \<times> 'v) option) \<Rightarrow> 'k \<Rightarrow> nat \<Rightarrow> bool" where
  "stops t k i \<longleftrightarrow> (case t i of None \<Rightarrow> True | Some (k', v) \<Rightarrow> k' = k)"

text \<open>\<open>d\<close> is the distance from \<open>h\<close> at which a probe for \<open>k\<close> stops.\<close>

definition first_stop :: "nat \<Rightarrow> (nat \<Rightarrow> ('k \<times> 'v) option) \<Rightarrow> 'k \<Rightarrow> nat \<Rightarrow> nat \<Rightarrow> bool" where
  "first_stop cap t k h d \<longleftrightarrow> stops t k ((h + d) mod cap) \<and> (\<forall>d' < d. \<not> stops t k ((h + d') mod cap))"

lemma chainedD:
  assumes "chained home cap t" "i < cap" "t i = Some (k, v)"
  obtains e where "e < cap" "i = (home k + e) mod cap" "\<forall>d < e. t ((home k + d) mod cap) \<noteq> None"
  using assms by (meson chained_def)

lemma chained_empty: "(\<And>i. i < cap \<Longrightarrow> t i = None) \<Longrightarrow> chained home cap t"
  by (simp add: chained_def)

locale open_addressing =
  fixes home :: "'k \<Rightarrow> nat" and cap :: nat
  assumes home_less: "home k < cap"
begin

text \<open>With an empty slot somewhere, a probe stops before it comes round.\<close>

lemma probe_stops:
  assumes "i < cap" "t i = None"
  obtains d where "d < cap" "first_stop cap t k (home k) d"
proof -
  let ?d = "(i + cap - home k) mod cap"
  let ?S = "\<lambda>d. stops t k ((home k + d) mod cap)"
  have "(home k + ?d) mod cap = (home k + (i + cap - home k)) mod cap" by (simp add: mod_add_right_eq)
  also have "\<dots> = i" using assms home_less [of k] by simp
  finally have stop: "?S ?d" using assms(2) by (simp add: stops_def)
  let ?l = "LEAST d. ?S d"
  have "?S ?l" using stop by (rule LeastI)
  moreover have "\<not> ?S d'" if "d' < ?l" for d' using not_less_Least [OF that] .
  moreover have "?l \<le> ?d" using stop by (rule Least_le)
  moreover have "?d < cap" using assms(1) by simp
  ultimately show thesis using that [of ?l] by (simp add: first_stop_def)
qed

text \<open>A probe that ends at an empty slot shows that the key is not in the table.\<close>

lemma absent:
  assumes ch: "chained home cap t" and fs: "first_stop cap t k (home k) d" and none: "t ((home k + d) mod cap) = None"
    and i: "i < cap"
  shows "t i \<noteq> Some (k, v)"
proof
  assume e: "t i = Some (k, v)"
  then obtain e where e: "i = (home k + e) mod cap" "\<forall>d < e. t ((home k + d) mod cap) \<noteq> None" "t i = Some (k, v)"
    using ch i by (auto simp: chained_def)
  have "\<not> d < e" using e(2) none by blast
  moreover have "\<not> e < d" using fs e by (auto simp: first_stop_def stops_def)
  ultimately have "d = e" by simp
  then show False using e none by simp
qed

text \<open>Filling the slot where the probe ended keeps the table chained.\<close>

lemma insert_chained:
  assumes ch: "chained home cap t" and fs: "first_stop cap t k (home k) d" and d: "d < cap"
  shows "chained home cap (t((home k + d) mod cap := Some (k, v)))"
proof -
  let ?t = "t((home k + d) mod cap := Some (k, v))"
  have full: "t ((home k + d') mod cap) \<noteq> None" if "d' < d" for d'
    using fs that by (metis first_stop_def stops_def option.simps(4))
  have "\<exists>e < cap. i = (home k' + e) mod cap \<and> (\<forall>d < e. ?t ((home k' + d) mod cap) \<noteq> None)"
    if i: "i < cap" and s: "?t i = Some (k', v')" for i k' v'
  proof (cases "i = (home k + d) mod cap")
    case True
    then show ?thesis using s d full by (intro exI [of _ d]) auto
  next
    case False
    then obtain e where "e < cap" "i = (home k' + e) mod cap" "\<forall>d < e. t ((home k' + d) mod cap) \<noteq> None"
      using chainedD [OF ch i, of k' v'] s by auto
    then show ?thesis by (intro exI [of _ e]) auto
  qed
  then show ?thesis by (simp add: chained_def)
qed

end

end
