(* ===== verification/RsxRemap.thy ===== *)
theory RsxRemap
  imports Prelude OpenAddressing "HOL-Library.Monad_Syntax"
begin

text \<open>
  Collapsing repeated vertex references, \<open>rsx_vertex_remap_build\<close> of
  \<^verbatim>\<open>src/libs/video/rsx_vertex_compact.c\<close>: a hash table with linear probing whose slots
  carry the generation in which they were filled, so that a new draw empties the table by
  counting up.

  The arrays are functions of the index beside the capacity the structure records; an access past
  the capacity, or past the caller's array, is \<open>None\<close>, and so is a probe that never ends. Whether
  the two reallocations succeed is an argument (\<open>occ_ok\<close>, \<open>slots_ok\<close>); what a grown
  array holds is the old content and then \<open>junk\<close>.
\<close>

section \<open>The model\<close>

record rsx_vertex_ref =
  vertex_id :: u32
  base_index :: u32

record rsx_vertex_remap_slot =
  slot_key :: u64
  slot_value :: u32
  slot_generation :: u32

record rsx_vertex_remap =
  occurrence_to_unique :: "nat \<Rightarrow> u32"
  occurrence_capacity :: u32
  rm_slots :: "nat \<Rightarrow> rsx_vertex_remap_slot"
  slot_capacity :: u32
  rm_generation :: u32

definition zero_slot :: rsx_vertex_remap_slot where
  "zero_slot = \<lparr>slot_key = 0, slot_value = 0, slot_generation = 0\<rparr>"

text \<open>A structure of zero bytes, as a client starts with and as \<open>rsx_vertex_remap_destroy\<close> leaves.\<close>

definition rsx_vertex_remap_destroy :: rsx_vertex_remap where
  "rsx_vertex_remap_destroy = \<lparr>occurrence_to_unique = \<lambda>_. 0, occurrence_capacity = 0, rm_slots = \<lambda>_. zero_slot,
     slot_capacity = 0, rm_generation = 0\<rparr>"

definition rsx_vertex_remap_hash :: "u64 \<Rightarrow> u64" where
  "rsx_vertex_remap_hash value =
     (let value = value XOR drop_bit 33 value;
          value = value * 0xff51afd7ed558ccd;
          value = value XOR drop_bit 33 value;
          value = value * 0xc4ceb9fe1a85ec53
      in value XOR drop_bit 33 value)"

definition UINT_MAX :: u32 where "UINT_MAX = 0xFFFFFFFF"

text \<open>The capacity loop: \<open>Some None\<close> is the return of 0.\<close>

partial_function (option) double_slots :: "u32 \<Rightarrow> u32 \<Rightarrow> u32 option option" where
  "double_slots cap required_slots =
     (if cap < required_slots
      then if cap > UINT_MAX div 2 then Some None else double_slots (cap * 2) required_slots
      else Some (Some cap))"

definition ref_key :: "rsx_vertex_ref \<Rightarrow> u64" where
  "ref_key ref = push_bit 32 (ucast (base_index ref)) OR ucast (vertex_id ref)"

text \<open>The inner loop: the first slot that is free in this generation or holds the key.\<close>

partial_function (option) probe :: "rsx_vertex_remap \<Rightarrow> u64 \<Rightarrow> u32 \<Rightarrow> u32 option" where
  "probe remap key slot_index =
     (if unat slot_index \<ge> unat (slot_capacity remap) then None
      else if slot_generation (rm_slots remap (unat slot_index)) \<noteq> rm_generation remap then Some slot_index
      else if slot_key (rm_slots remap (unat slot_index)) = key then Some slot_index
      else probe remap key ((slot_index + 1) AND (slot_capacity remap - 1)))"

definition set_ref :: "rsx_vertex_ref list \<Rightarrow> nat \<Rightarrow> rsx_vertex_ref \<Rightarrow> rsx_vertex_ref list option" where
  "set_ref refs i ref = (if i < length refs then Some (refs[i := ref]) else None)"

definition set_occurrence :: "rsx_vertex_remap \<Rightarrow> u32 \<Rightarrow> u32 \<Rightarrow> rsx_vertex_remap option" where
  "set_occurrence remap i v =
     (if i < occurrence_capacity remap
      then Some (remap\<lparr>occurrence_to_unique := (occurrence_to_unique remap)(unat i := v)\<rparr>) else None)"

text \<open>One turn of the outer loop.\<close>

definition remap_one ::
  "rsx_vertex_remap \<Rightarrow> rsx_vertex_ref list \<Rightarrow> u32 \<Rightarrow> u32 \<Rightarrow> (rsx_vertex_remap \<times> rsx_vertex_ref list \<times> u32) option" where
  "remap_one remap refs occurrence unique = do {
     ref \<leftarrow> (if unat occurrence < length refs then Some (refs ! unat occurrence) else None);
     let key = ref_key ref;
     let slot_index = ucast (rsx_vertex_remap_hash key) AND (slot_capacity remap - 1);
     i \<leftarrow> probe remap key slot_index;
     let slot = rm_slots remap (unat i);
     if slot_generation slot \<noteq> rm_generation remap then do {
       let slot = \<lparr>slot_key = key, slot_value = unique, slot_generation = rm_generation remap\<rparr>;
       let remap = remap\<lparr>rm_slots := (rm_slots remap)(unat i := slot)\<rparr>;
       refs \<leftarrow> set_ref refs (unat unique) ref;
       remap \<leftarrow> set_occurrence remap occurrence unique;
       Some (remap, refs, unique + 1)
     }
     else do { remap \<leftarrow> set_occurrence remap occurrence (slot_value slot); Some (remap, refs, unique) }
   }"

text \<open>\<open>n\<close> turns from an occurrence on.\<close>

primrec remap_loop ::
  "nat \<Rightarrow> rsx_vertex_remap \<Rightarrow> rsx_vertex_ref list \<Rightarrow> u32 \<Rightarrow> u32 \<Rightarrow> (rsx_vertex_remap \<times> rsx_vertex_ref list \<times> u32) option" where
  "remap_loop 0 remap refs occurrence unique = Some (remap, refs, unique)"
| "remap_loop (Suc n) remap refs occurrence unique = do {
     (remap, refs, unique) \<leftarrow> remap_one remap refs occurrence unique;
     remap_loop n remap refs (occurrence + 1) unique
   }"

definition grow_occurrences :: "(nat \<Rightarrow> u32) \<Rightarrow> rsx_vertex_remap \<Rightarrow> u32 \<Rightarrow> rsx_vertex_remap" where
  "grow_occurrences junk remap count =
     remap\<lparr>occurrence_to_unique :=
             (\<lambda>i. if i < unat (occurrence_capacity remap) then occurrence_to_unique remap i else junk i),
           occurrence_capacity := count\<rparr>"

definition clear_slots :: "rsx_vertex_remap \<Rightarrow> rsx_vertex_remap" where
  "clear_slots remap = remap\<lparr>rm_slots := \<lambda>_. zero_slot, rm_generation := 1\<rparr>"

definition new_generation :: "u32 \<Rightarrow> rsx_vertex_remap \<Rightarrow> rsx_vertex_remap" where
  "new_generation cap remap =
     (if cap > slot_capacity remap then clear_slots (remap\<lparr>slot_capacity := cap\<rparr>)
      else let remap = remap\<lparr>rm_generation := rm_generation remap + 1\<rparr>
           in if rm_generation remap = 0 then clear_slots remap else remap)"

text \<open>The result: the returned flag, the structure, the caller's references and the unique count.\<close>

definition rsx_vertex_remap_build ::
  "bool \<Rightarrow> bool \<Rightarrow> (nat \<Rightarrow> u32) \<Rightarrow> rsx_vertex_remap \<Rightarrow> rsx_vertex_ref list \<Rightarrow> u32 \<Rightarrow>
     (bool \<times> rsx_vertex_remap \<times> rsx_vertex_ref list \<times> u32) option" where
  "rsx_vertex_remap_build occ_ok slots_ok junk remap refs count =
     (if count = 0 then Some (True, remap, refs, count)
      else if count > occurrence_capacity remap \<and> \<not> occ_ok then Some (False, remap, refs, count)
      else do {
        let remap = (if count > occurrence_capacity remap then grow_occurrences junk remap count else remap);
        if count > UINT_MAX div 2 then Some (False, remap, refs, count)
        else do {
          r \<leftarrow> double_slots 16 (count * 2);
          case r of
            None \<Rightarrow> Some (False, remap, refs, count)
          | Some cap \<Rightarrow>
              if cap > slot_capacity remap \<and> \<not> slots_ok then Some (False, remap, refs, count)
              else do {
                (remap, refs, unique) \<leftarrow> remap_loop (unat count) (new_generation cap remap) refs 0 0;
                Some (True, remap, refs, unique)
              }
        }
      })"

definition rsx_vertex_remap_index :: "rsx_vertex_remap \<Rightarrow> u32 \<Rightarrow> u32" where
  "rsx_vertex_remap_index remap occurrence =
     (if occurrence < occurrence_capacity remap then occurrence_to_unique remap (unat occurrence) else occurrence)"

section \<open>The table\<close>

text \<open>What the slots hold in the current generation, and the home of a key in a table of \<open>2 ^ n\<close> slots.\<close>

definition table_of :: "rsx_vertex_remap \<Rightarrow> nat \<Rightarrow> (u64 \<times> u32) option" where
  "table_of r i = (let s = rm_slots r i in if slot_generation s = rm_generation r then Some (slot_key s, slot_value s) else None)"

definition home_slot :: "nat \<Rightarrow> u64 \<Rightarrow> nat" where
  "home_slot n key = unat (ucast (rsx_vertex_remap_hash key) :: u32) mod 2 ^ n"

interpretation remap_table: open_addressing "home_slot n" "2 ^ n" for n
  by unfold_locales (simp add: home_slot_def)

lemma unat_and_pow2: "unat ((w :: u32) AND (2 ^ n - 1)) = unat w mod 2 ^ n"
proof -
  have "w AND (2 ^ n - 1) = take_bit n w" by (simp add: take_bit_eq_mask mask_eq_exp_minus_1)
  then show ?thesis by (simp only: unsigned_take_bit_eq) (simp add: take_bit_eq_mod)
qed

lemma unat_small: "i < 4294967296 \<Longrightarrow> unat (of_nat i :: u32) = i"
  by (simp only: unat_of_nat) (simp add: take_bit_nat_eq_self)

lemma pow2_lt: "n < 32 \<Longrightarrow> (2 :: nat) ^ n < 4294967296"
  using power_strict_increasing [of n 32 "2 :: nat"] by simp

lemma unat_slot: "n < 32 \<Longrightarrow> i < 2 ^ n \<Longrightarrow> unat (of_nat i :: u32) = i"
  using pow2_lt [of n] by (intro unat_small) (rule less_trans)

lemma home_slot_start:
  assumes "n < 32" "slot_capacity r = 2 ^ n"
  shows "ucast (rsx_vertex_remap_hash key) AND (slot_capacity r - 1) = (of_nat (home_slot n key) :: u32)"
  unfolding word_unat_eq_iff unat_slot [OF assms(1) remap_table.home_less] assms(2) unat_and_pow2
  by (simp only: home_slot_def)

lemma next_slot:
  assumes "n < 32" "i < 2 ^ n"
  shows "(of_nat i + 1 :: u32) AND (2 ^ n - 1) = of_nat (Suc i mod 2 ^ n)"
proof -
  have "Suc i < 4294967296" using assms(2) pow2_lt [OF assms(1)] by linarith
  then have "unat (of_nat i + 1 :: u32) = Suc i" using unat_small [of "Suc i"] by (simp add: add.commute)
  then show ?thesis unfolding word_unat_eq_iff unat_and_pow2 by (simp add: unat_slot [OF assms(1)])
qed

text \<open>The probe ends, at the first slot that is free or holds the key.\<close>

lemma probe_first:
  assumes n: "n < 32" "slot_capacity r = 2 ^ n"
  shows "h < 2 ^ n \<Longrightarrow> first_stop (2 ^ n) (table_of r) key h d \<Longrightarrow> probe r key (of_nat h) = Some (of_nat ((h + d) mod 2 ^ n))"
proof (induction d arbitrary: h)
  case 0
  have u: "unat (of_nat h :: u32) = h" "unat (2 ^ n :: u32) = 2 ^ n"
    using unat_slot [OF n(1) 0(1)] unat_pow2 [of n, where ?'a = 32] n(1) by simp_all
  have "stops (table_of r) key h" using 0 by (simp add: first_stop_def)
  then show ?case
    using 0 by (subst probe.simps) (auto simp: n u stops_def table_of_def Let_def split: if_splits)
next
  case (Suc d)
  have u: "unat (of_nat h :: u32) = h" "unat (2 ^ n :: u32) = 2 ^ n"
    using unat_slot [OF n(1) Suc.prems(1)] unat_pow2 [of n, where ?'a = 32] n(1) by simp_all
  have "\<not> stops (table_of r) key ((h + 0) mod 2 ^ n)" using Suc.prems(2) by (simp only: first_stop_def) blast
  then have ns: "\<not> stops (table_of r) key h" using Suc.prems(1) by simp
  have "first_stop (2 ^ n) (table_of r) key (Suc h mod 2 ^ n) d"
    using Suc.prems(2) by (auto simp: first_stop_def mod_add_left_eq dest: spec [of _ "Suc _"])
  then have "probe r key (of_nat (Suc h mod 2 ^ n)) = Some (of_nat ((Suc h mod 2 ^ n + d) mod 2 ^ n))"
    by (intro Suc.IH) simp_all
  then show ?case
    using ns Suc.prems(1)
    by (subst probe.simps)
      (auto simp: n u stops_def table_of_def Let_def next_slot [OF n(1)] mod_add_left_eq split: if_splits)
qed

section \<open>The capacity loop\<close>

lemma double_slots_ends:
  assumes "k \<le> 31"
  shows "if unat req \<le> 2 ^ 31
    then \<exists>n \<le> 31. k \<le> n \<and> double_slots (2 ^ k) req = Some (Some (2 ^ n)) \<and> unat req \<le> 2 ^ n
    else double_slots (2 ^ k) req = Some None"
  using assms
proof (induction "31 - k" arbitrary: k)
  case 0
  then have k: "k = 31" by simp
  have c: "(2147483648 :: u32) < req \<longleftrightarrow> 2147483648 < unat req" by (simp add: word_less_nat_alt)
  show ?case
    unfolding k by (subst (1 2) double_slots.simps) (auto simp: c UINT_MAX_def)
next
  case (Suc m)
  then have k: "k < 31" "m = 31 - Suc k" "Suc k \<le> 31" by simp_all
  have c: "(2 ^ k :: u32) < req \<longleftrightarrow> 2 ^ k < unat req" using unat_pow2 [of k, where ?'a = 32] k by (simp add: word_less_nat_alt)
  have "(2 :: nat) ^ k \<le> 2 ^ 30" using k by (intro power_increasing) simp_all
  then have small: "\<not> UINT_MAX div 2 < (2 ^ k :: u32)"
    using unat_pow2 [of k, where ?'a = 32] k by (simp add: UINT_MAX_def word_less_nat_alt)
  have IH: "if unat req \<le> 2 ^ 31
    then \<exists>n \<le> 31. Suc k \<le> n \<and> double_slots (2 ^ Suc k) req = Some (Some (2 ^ n)) \<and> unat req \<le> 2 ^ n
    else double_slots (2 ^ Suc k) req = Some None"
    using Suc.hyps(1) [OF k(2,3)] .
  show ?case
  proof (cases "2 ^ k < unat req")
    case True
    then have "double_slots (2 ^ k) req = double_slots (2 ^ Suc k) req"
      by (subst double_slots.simps) (simp add: c small mult.commute)
    then show ?thesis using IH by (auto split: if_splits)
  next
    case False
    then have "double_slots (2 ^ k) req = Some (Some (2 ^ k))" by (subst double_slots.simps) (simp add: c)
    moreover have "unat req \<le> 2 ^ 31" using False \<open>2 ^ k \<le> 2 ^ 30\<close> by simp
    ultimately show ?thesis using False k by (auto intro!: exI [of _ k])
  qed
qed

section \<open>The loop over the references\<close>

text \<open>The distinct elements of a list in the order of their first use.\<close>

definition first_uses :: "'a list \<Rightarrow> 'a list" where
  "first_uses xs = fold (\<lambda>x us. if x \<in> set us then us else us @ [x]) xs []"

lemma first_uses_snoc:
  "first_uses (xs @ [x]) = (if x \<in> set (first_uses xs) then first_uses xs else first_uses xs @ [x])"
  by (simp add: first_uses_def)

lemma first_uses_Nil: "first_uses [] = []"
  by (simp add: first_uses_def)

lemma first_uses_set: "set (first_uses xs) = set xs \<and> distinct (first_uses xs) \<and> length (first_uses xs) \<le> length xs"
  by (induction xs rule: rev_induct) (auto simp: first_uses_snoc first_uses_Nil)

lemma ref_key_inj: "ref_key a = ref_key b \<longleftrightarrow> a = b"
proof
  assume "ref_key a = ref_key b"
  then have "ucast (ref_key a) = (ucast (ref_key b) :: u32)" "ucast (drop_bit 32 (ref_key a)) = (ucast (drop_bit 32 (ref_key b)) :: u32)"
    by simp_all
  moreover have "ucast (ref_key x) = vertex_id x" "ucast (drop_bit 32 (ref_key x)) = base_index x" for x
    by (rule bit_word_eqI; auto simp: ref_key_def bit_simps dest: bit_imp_le_length)+
  ultimately show "a = b" by simp
qed simp

text \<open>
  What holds after \<open>k\<close> references of \<open>xs\<close> (\<open>us\<close> are their distinct elements): the
  table maps every distinct reference to its position and nothing else, the caller's array starts
  with the distinct references and still has the references to come, and the occurrence map is
  right for those done.
\<close>

definition table_ok :: "nat \<Rightarrow> rsx_vertex_remap \<Rightarrow> rsx_vertex_ref list \<Rightarrow> bool" where
  "table_ok n r us \<longleftrightarrow> slot_capacity r = 2 ^ n \<and> chained (home_slot n) (2 ^ n) (table_of r) \<and>
     (\<forall>i key v. i < 2 ^ n \<longrightarrow> table_of r i = Some (key, v) \<longrightarrow> unat v < length us \<and> ref_key (us ! unat v) = key) \<and>
     (\<forall>j < length us. \<exists>i < 2 ^ n. table_of r i = Some (ref_key (us ! j), of_nat j)) \<and>
     card {i. i < 2 ^ n \<and> table_of r i \<noteq> None} \<le> length us \<and>
     (\<forall>i < 2 ^ n. slot_generation (rm_slots r i) \<le> rm_generation r)"

definition loop_inv :: "nat \<Rightarrow> rsx_vertex_ref list \<Rightarrow> nat \<Rightarrow> nat \<Rightarrow> rsx_vertex_remap \<Rightarrow> rsx_vertex_ref list \<Rightarrow> bool" where
  "loop_inv n xs c k r refs \<longleftrightarrow>
     (let us = first_uses (take k xs)
      in table_ok n r us \<and> length refs = length xs \<and> take (length us) refs = us \<and>
         (\<forall>j. k \<le> j \<longrightarrow> j < length xs \<longrightarrow> refs ! j = xs ! j) \<and> c \<le> unat (occurrence_capacity r) \<and>
         (\<forall>m < k. unat (occurrence_to_unique r m) < length us \<and> us ! unat (occurrence_to_unique r m) = xs ! m))"

text \<open>Inserting a reference in the slot the probe found.\<close>

lemma table_ok_insert:
  assumes ok: "table_ok n r us" and new: "table_of r i = None" and fs: "first_stop (2 ^ n) (table_of r) (ref_key x) (home_slot n (ref_key x)) d"
    and d: "d < 2 ^ n" and i: "i = (home_slot n (ref_key x) + d) mod 2 ^ n" and len: "length us < 4294967296"
    and r': "r' = r\<lparr>rm_slots := (rm_slots r)(i := \<lparr>slot_key = ref_key x, slot_value = of_nat (length us), slot_generation = rm_generation r\<rparr>)\<rparr>"
  shows "table_ok n r' (us @ [x])"
proof -
  have t: "table_of r' = (table_of r)(i := Some (ref_key x, of_nat (length us)))"
    by (rule ext) (simp add: r' table_of_def)
  have lt: "i < 2 ^ n" by (simp add: i)
  have "chained (home_slot n) (2 ^ n) (table_of r')"
    unfolding t i using ok fs d by (intro remap_table.insert_chained) (simp_all add: table_ok_def)
  moreover have "unat v < length (us @ [x]) \<and> ref_key ((us @ [x]) ! unat v) = key" if "j < 2 ^ n" "table_of r' j = Some (key, v)" for j key v
    using that ok len by (auto simp: t table_ok_def nth_append unat_small split: if_splits)
  moreover have "\<exists>i' < 2 ^ n. table_of r' i' = Some (ref_key ((us @ [x]) ! j), of_nat j)" if j: "j < length (us @ [x])" for j
  proof (cases "j = length us")
    case True
    then show ?thesis using lt by (intro exI [of _ i]) (simp add: t)
  next
    case False
    then have jl: "j < length us" using j by simp
    then obtain i' where "i' < 2 ^ n" "table_of r i' = Some (ref_key (us ! j), of_nat j)" using ok unfolding table_ok_def by blast
    then show ?thesis using jl new by (intro exI [of _ i']) (auto simp: t nth_append)
  qed
  moreover have "card {j. j < 2 ^ n \<and> table_of r' j \<noteq> None} \<le> length (us @ [x])"
  proof -
    have "{j. j < 2 ^ n \<and> table_of r' j \<noteq> None} = insert i {j. j < 2 ^ n \<and> table_of r j \<noteq> None}" using lt by (auto simp: t)
    moreover have "finite {j :: nat. j < 2 ^ n \<and> table_of r j \<noteq> None}" by simp
    ultimately show ?thesis using ok card_insert_le_m1 by (simp add: table_ok_def card_insert_if)
  qed
  moreover have "\<forall>j < 2 ^ n. slot_generation (rm_slots r' j) \<le> rm_generation r'" using ok by (simp add: table_ok_def r')
  ultimately show ?thesis using ok by (simp add: table_ok_def r')
qed

lemma table_ok_frame:
  "table_ok n r us \<Longrightarrow> table_ok n (r\<lparr>occurrence_to_unique := f\<rparr>) us"
  by (simp add: table_ok_def table_of_def [abs_def])

text \<open>A table that is at most half full has an empty slot.\<close>

lemma table_ok_free:
  assumes "table_ok n r us" "length us < 2 ^ n"
  obtains i where "i < 2 ^ n" "table_of r i = None"
proof -
  have "card {i. i < 2 ^ n \<and> table_of r i \<noteq> None} < card {i :: nat. i < 2 ^ n}" using assms by (simp add: table_ok_def)
  then have "{i. i < 2 ^ n \<and> table_of r i \<noteq> None} \<noteq> {i :: nat. i < 2 ^ n}"
    by (rule contrapos_pn) (simp only: less_irrefl not_False_eq_True)
  then show thesis using that by blast
qed

lemma remap_one_step:
  assumes n: "n < 32" and inv: "loop_inv n xs c k r refs" and k: "k < c" "c \<le> length xs" "k < 2 ^ n" "c < 4294967296"
  shows "\<exists>r' refs'. remap_one r refs (of_nat k) (of_nat (length (first_uses (take k xs)))) =
      Some (r', refs', of_nat (length (first_uses (take (Suc k) xs)))) \<and> loop_inv n xs c (Suc k) r' refs'"
proof -
  let ?us = "first_uses (take k xs)" and ?x = "xs ! k"
  have xk: "take (Suc k) xs = take k xs @ [?x]" using k by (simp add: take_Suc_conv_app_nth)
  have us: "length ?us \<le> k" using first_uses_set [of "take k xs"] by simp
  have ok: "table_ok n r ?us" and refs: "length refs = length xs" "take (length ?us) refs = ?us" "refs ! k = ?x"
    "\<And>j. k \<le> j \<Longrightarrow> j < length xs \<Longrightarrow> refs ! j = xs ! j" and cap: "c \<le> unat (occurrence_capacity r)"
    and occ: "\<And>m. m < k \<Longrightarrow> unat (occurrence_to_unique r m) < length ?us \<and> ?us ! unat (occurrence_to_unique r m) = xs ! m"
    using inv k by (auto simp: loop_inv_def Let_def)
  have uk: "unat (of_nat k :: u32) = k" using k by (intro unat_small) simp
  have setocc: "set_occurrence s (of_nat k) v = Some (s\<lparr>occurrence_to_unique := (occurrence_to_unique s)(k := v)\<rparr>)"
    if "occurrence_capacity s = occurrence_capacity r" for s v
    using cap k that by (simp add: set_occurrence_def word_less_nat_alt uk)
  have "length ?us < 2 ^ n" using us k by linarith
  then obtain f where "f < 2 ^ n" "table_of r f = None" by (rule table_ok_free [OF ok])
  then obtain d where d: "d < 2 ^ n" "first_stop (2 ^ n) (table_of r) (ref_key ?x) (home_slot n (ref_key ?x)) d"
    by (rule remap_table.probe_stops)
  define i where "i = (home_slot n (ref_key ?x) + d) mod 2 ^ n"
  have i: "i < 2 ^ n" "unat (of_nat i :: u32) = i" using n by (simp_all add: i_def unat_slot)
  have probe: "probe r (ref_key ?x) (ucast (rsx_vertex_remap_hash (ref_key ?x)) AND (slot_capacity r - 1)) = Some (of_nat i)"
  proof -
    have c: "slot_capacity r = 2 ^ n" using ok by (simp add: table_ok_def)
    show ?thesis unfolding home_slot_start [OF n c] i_def by (rule probe_first [OF n c remap_table.home_less d(2)])
  qed
  show ?thesis
  proof (cases "table_of r i")
    case None
    let ?u = "length ?us"
    define r1 where "r1 = r\<lparr>rm_slots := (rm_slots r)(i := \<lparr>slot_key = ref_key ?x, slot_value = of_nat ?u, slot_generation = rm_generation r\<rparr>)\<rparr>"
    let ?r = "r1\<lparr>occurrence_to_unique := (occurrence_to_unique r)(k := of_nat ?u)\<rparr>"
    have uu: "unat (of_nat ?u :: u32) = ?u" "?u < length xs" using us k by (simp_all add: unat_small)
    have "?x \<notin> set ?us"
    proof
      assume "?x \<in> set ?us"
      then obtain j where "j < ?u" "?us ! j = ?x" by (auto simp: in_set_conv_nth)
      then obtain i' where "i' < 2 ^ n" "table_of r i' = Some (ref_key ?x, of_nat j)" using ok unfolding table_ok_def by metis
      then show False using remap_table.absent [OF _ d(2)] None ok by (auto simp: table_ok_def i_def)
    qed
    then have us': "first_uses (take (Suc k) xs) = ?us @ [?x]" by (simp add: xk first_uses_snoc)
    have g: "slot_generation (rm_slots r i) \<noteq> rm_generation r" using None by (auto simp: table_of_def Let_def split: if_splits)
    have "remap_one r refs (of_nat k) (of_nat ?u) = Some (?r, refs[?u := ?x], of_nat (length (first_uses (take (Suc k) xs))))"
      using refs k g uu setocc [of r1] probe
      by (simp add: remap_one_def uk i set_ref_def r1_def us' add.commute)
    moreover have "table_ok n ?r (?us @ [?x])"
      using table_ok_insert [OF ok None d(2,1) i_def _ r1_def] us k table_ok_frame by simp
    moreover have "take (Suc ?u) (refs[?u := ?x]) = ?us @ [?x]"
      using refs uu by (simp add: take_Suc_conv_app_nth)
    moreover have "refs[?u := ?x] ! j = xs ! j" if "Suc k \<le> j" "j < length xs" for j using that refs us by simp
    moreover have "unat (occurrence_to_unique ?r m) < Suc ?u \<and> (?us @ [?x]) ! unat (occurrence_to_unique ?r m) = xs ! m" if "m < Suc k" for m
      using that occ [of m] uu by (auto simp: nth_append less_Suc_eq)
    ultimately show ?thesis using refs(1) cap
      by (intro exI [of _ ?r] exI [of _ "refs[?u := ?x]"]) (simp add: loop_inv_def us' r1_def)
  next
    case (Some kv)
    then obtain v where v: "table_of r i = Some (ref_key ?x, v)"
      using d(2) by (cases kv) (auto simp: first_stop_def stops_def i_def)
    let ?r = "r\<lparr>occurrence_to_unique := (occurrence_to_unique r)(k := v)\<rparr>"
    have vu: "unat v < length ?us" "?us ! unat v = ?x" using ok i(1) v by (auto simp: table_ok_def ref_key_inj)
    then have "?x \<in> set ?us" by (metis nth_mem)
    then have us': "first_uses (take (Suc k) xs) = ?us" by (simp add: xk first_uses_snoc)
    have g: "slot_generation (rm_slots r i) = rm_generation r" "slot_value (rm_slots r i) = v"
      using v by (auto simp: table_of_def Let_def split: if_splits)
    have "remap_one r refs (of_nat k) (of_nat (length ?us)) = Some (?r, refs, of_nat (length (first_uses (take (Suc k) xs))))"
      using refs k g setocc [of r] probe by (simp add: remap_one_def uk i us')
    moreover have "unat (occurrence_to_unique ?r m) < length ?us \<and> ?us ! unat (occurrence_to_unique ?r m) = xs ! m" if "m < Suc k" for m
      using that occ [of m] vu by (auto simp: less_Suc_eq)
    ultimately show ?thesis using refs cap table_ok_frame [OF ok]
      by (intro exI [of _ ?r] exI [of _ refs]) (simp add: loop_inv_def us')
  qed
qed

lemma remap_loop_runs:
  assumes n: "n < 32" and c: "c \<le> length xs" "c \<le> 2 ^ n" "c < 4294967296"
  shows "k + m = c \<Longrightarrow> loop_inv n xs c k r refs \<Longrightarrow>
    \<exists>r' refs'. remap_loop m r refs (of_nat k) (of_nat (length (first_uses (take k xs)))) =
      Some (r', refs', of_nat (length (first_uses (take c xs)))) \<and> loop_inv n xs c c r' refs'"
proof (induction m arbitrary: k r refs)
  case (Suc m)
  obtain r1 refs1 where one: "remap_one r refs (of_nat k) (of_nat (length (first_uses (take k xs)))) =
      Some (r1, refs1, of_nat (length (first_uses (take (Suc k) xs))))" "loop_inv n xs c (Suc k) r1 refs1"
    using remap_one_step [OF n Suc.prems(2)] Suc.prems(1) c by auto
  have "of_nat k + 1 = (of_nat (Suc k) :: u32)" by simp
  then show ?case using Suc.IH [OF _ one(2)] Suc.prems(1) one(1) by (simp add: add.commute)
qed simp

section \<open>Calls\<close>

text \<open>What every call leaves: a capacity that is a power of two, and no slot of a later generation.\<close>

definition remap_inv :: "rsx_vertex_remap \<Rightarrow> bool" where
  "remap_inv r \<longleftrightarrow> (slot_capacity r = 0 \<or> (\<exists>n < 32. slot_capacity r = 2 ^ n)) \<and>
     (\<forall>i < unat (slot_capacity r). slot_generation (rm_slots r i) \<le> rm_generation r)"

lemma unat_pow2_32: "n < 32 \<Longrightarrow> unat (2 ^ n :: u32) = 2 ^ n"
  using unat_pow2 [of n, where ?'a = 32] by simp

lemma table_ok_inv: "n < 32 \<Longrightarrow> table_ok n r us \<Longrightarrow> remap_inv r"
  by (auto simp: table_ok_def remap_inv_def unat_pow2_32)

lemma table_ok_empty:
  assumes "slot_capacity r = 2 ^ n" "\<And>i. i < 2 ^ n \<Longrightarrow> slot_generation (rm_slots r i) < rm_generation r"
  shows "table_ok n r []"
proof -
  have none: "table_of r i = None" if "i < 2 ^ n" for i using assms(2) [OF that] by (simp add: table_of_def Let_def)
  then have "{i. i < 2 ^ n \<and> table_of r i \<noteq> None} = {}" by auto
  then show ?thesis using assms chained_empty [of "2 ^ n" "table_of r"] none by (auto simp: table_ok_def less_imp_le)
qed

lemma new_generation_ok:
  assumes inv: "remap_inv r" and n: "n < 32"
  obtains n' where "n \<le> n'" "n' < 32" "table_ok n' (new_generation (2 ^ n) r) []"
proof (cases "(2 ^ n :: u32) > slot_capacity r")
  case True
  then have "table_ok n (new_generation (2 ^ n) r) []"
    by (intro table_ok_empty) (simp_all add: new_generation_def clear_slots_def zero_slot_def)
  then show thesis using that [of n] n by simp
next
  case False
  have "(0 :: u32) < 2 ^ n" by (simp only: word_less_nat_alt unat_pow2_32 [OF n]) simp
  then obtain n' where n': "n' < 32" "slot_capacity r = 2 ^ n'" using inv False by (auto simp: remap_inv_def)
  have "(2 :: nat) ^ n \<le> 2 ^ n'" using False n n' by (simp add: word_le_nat_alt not_less unat_pow2_32)
  then have le: "n \<le> n'" by simp
  have "table_ok n' (new_generation (2 ^ n) r) []"
  proof (rule table_ok_empty)
    show "slot_capacity (new_generation (2 ^ n) r) = 2 ^ n'" using False n' by (simp add: new_generation_def clear_slots_def Let_def)
  next
    fix i :: nat
    assume i: "i < 2 ^ n'"
    have g: "slot_generation (rm_slots r i) \<le> rm_generation r" using inv i n' by (simp add: remap_inv_def unat_pow2_32)
    show "slot_generation (rm_slots (new_generation (2 ^ n) r) i) < rm_generation (new_generation (2 ^ n) r)"
    proof (cases "rm_generation r + 1 = 0")
      case True
      then show ?thesis using False by (simp add: new_generation_def clear_slots_def zero_slot_def Let_def)
    next
      case g0: False
      then have "rm_generation r < rm_generation r + 1"
        using unatSuc [of "rm_generation r"] by (simp add: word_less_nat_alt add.commute)
      then have "slot_generation (rm_slots r i) < rm_generation r + 1" using g by (rule order.strict_trans1 [rotated])
      then show ?thesis using False g0 by (simp add: new_generation_def Let_def)
    qed
  qed
  then show thesis using that [of n'] le n' by blast
qed

text \<open>A call on references: it returns, and what it returns.\<close>

lemma build_runs:
  assumes inv: "remap_inv r" and len: "unat count \<le> length refs" and nz: "count \<noteq> 0" and sz: "unat count \<le> 2 ^ 30"
    and ok: "count > occurrence_capacity r \<longrightarrow> occ_ok"
  obtains (built) r' refs' n where
      "rsx_vertex_remap_build occ_ok slots_ok junk r refs count = Some (True, r', refs', of_nat (length (first_uses (take (unat count) refs))))"
      "n < 32" "loop_inv n refs (unat count) (unat count) r' refs'"
    | (no_slots) r' where "\<not> slots_ok" "rsx_vertex_remap_build occ_ok slots_ok junk r refs count = Some (False, r', refs, count)" "remap_inv r'"
proof -
  define r1 where "r1 = (if count > occurrence_capacity r then grow_occurrences junk r count else r)"
  have r1: "remap_inv r1" "unat count \<le> unat (occurrence_capacity r1)"
    using inv by (auto simp: r1_def grow_occurrences_def remap_inv_def word_le_nat_alt [symmetric] not_less)
  have half: "\<not> count > UINT_MAX div 2" using sz by (simp add: UINT_MAX_def word_less_nat_alt)
  have c2: "unat (count * 2) = 2 * unat count" using sz by (simp add: unat_mult_lem [THEN iffD1] mult.commute)
  obtain n where n: "n \<le> 31" "double_slots 16 (count * 2) = Some (Some (2 ^ n))" "2 * unat count \<le> 2 ^ n"
    using double_slots_ends [of 4 "count * 2"] sz c2 by auto
  have build: "rsx_vertex_remap_build occ_ok slots_ok junk r refs count =
     (if 2 ^ n > slot_capacity r1 \<and> \<not> slots_ok then Some (False, r1, refs, count)
      else do { (remap, refs, unique) \<leftarrow> remap_loop (unat count) (new_generation (2 ^ n) r1) refs 0 0;
                Some (True, remap, refs, unique) })"
    using nz ok half n by (auto simp: rsx_vertex_remap_build_def r1_def Let_def)
  show thesis
  proof (cases "2 ^ n > slot_capacity r1 \<and> \<not> slots_ok")
    case True
    then show thesis using no_slots [of r1] build r1 by simp
  next
    case False
    obtain n' where n': "n \<le> n'" "n' < 32" "table_ok n' (new_generation (2 ^ n) r1) []"
      using new_generation_ok [OF r1(1), of n] n(1) by auto
    let ?c = "unat count"
    have cap: "occurrence_capacity (new_generation (2 ^ n) r1) = occurrence_capacity r1"
      by (simp add: new_generation_def clear_slots_def Let_def)
    have "loop_inv n' refs ?c 0 (new_generation (2 ^ n) r1) refs"
      using n'(3) r1(2) cap by (simp add: loop_inv_def first_uses_Nil)
    moreover have "(2 :: nat) ^ n \<le> 2 ^ n'" using n' by (intro power_increasing) simp_all
    then have "?c \<le> 2 ^ n'" using n(3) by linarith
    ultimately obtain r' refs' where "remap_loop ?c (new_generation (2 ^ n) r1) refs 0 0 =
        Some (r', refs', of_nat (length (first_uses (take ?c refs))))" "loop_inv n' refs ?c ?c r' refs'"
      using remap_loop_runs [OF n'(2) len _ u32_bound, of 0 ?c "new_generation (2 ^ n) r1" refs] by (auto simp: first_uses_Nil)
    then have "rsx_vertex_remap_build occ_ok slots_ok junk r refs count =
        Some (True, r', refs', of_nat (length (first_uses (take ?c refs))))"
      unfolding build if_not_P [OF False] by simp
    then show thesis using built [of r' refs' n'] n'(2) \<open>loop_inv n' refs ?c ?c r' refs'\<close> by blast
  qed
qed

lemma build_keeps_inv:
  assumes inv: "remap_inv r" and len: "unat count \<le> length refs"
  shows "\<exists>ok r' refs' u. rsx_vertex_remap_build occ_ok slots_ok junk r refs count = Some (ok, r', refs', u) \<and> remap_inv r' \<and>
    (\<not> ok \<longrightarrow> refs' = refs \<and> u = count) \<and> (\<not> ok \<longrightarrow> \<not> occ_ok \<or> \<not> slots_ok \<or> unat count > 2 ^ 30)"
proof -
  let ?b = "rsx_vertex_remap_build occ_ok slots_ok junk r refs count"
  consider "count = 0" | "count \<noteq> 0" "count > occurrence_capacity r" "\<not> occ_ok"
    | "count \<noteq> 0" "count > occurrence_capacity r \<longrightarrow> occ_ok" "unat count > 2 ^ 30"
    | "count \<noteq> 0" "count > occurrence_capacity r \<longrightarrow> occ_ok" "unat count \<le> 2 ^ 30" by linarith
  then show ?thesis
  proof cases
    case 1
    then show ?thesis using inv by (intro exI [of _ True] exI [of _ r]) (simp add: rsx_vertex_remap_build_def)
  next
    case 2
    then show ?thesis using inv by (intro exI [of _ False] exI [of _ r]) (simp add: rsx_vertex_remap_build_def)
  next
    case 3
    define r1 where "r1 = (if count > occurrence_capacity r then grow_occurrences junk r count else r)"
    have r1: "remap_inv r1" using inv by (auto simp: r1_def grow_occurrences_def remap_inv_def)
    have "?b = Some (False, r1, refs, count)"
    proof (cases "count > UINT_MAX div 2")
      case True
      then show ?thesis using 3 by (auto simp: rsx_vertex_remap_build_def r1_def)
    next
      case False
      then have "unat count \<le> 2147483647" by (simp add: UINT_MAX_def word_less_nat_alt)
      then have "unat (count * 2) = 2 * unat count" by (simp add: unat_mult_lem [THEN iffD1] mult.commute)
      then have "double_slots 16 (count * 2) = Some None" using double_slots_ends [of 4 "count * 2"] 3(3) by auto
      then show ?thesis using 3 False by (auto simp: rsx_vertex_remap_build_def r1_def Let_def)
    qed
    then show ?thesis using r1 3 by (intro exI [of _ False] exI [of _ r1]) simp
  next
    case 4
    show ?thesis
      by (rule build_runs [OF inv len 4(1,3,2), of slots_ok junk]) (auto simp: loop_inv_def Let_def dest: table_ok_inv)
  qed
qed

text \<open>The states a structure can be in: a fresh one, and what calls with any outcome make of it.\<close>

inductive remap_reachable :: "rsx_vertex_remap \<Rightarrow> bool" where
  start: "remap_reachable rsx_vertex_remap_destroy"
| call: "remap_reachable r \<Longrightarrow> unat count \<le> length refs \<Longrightarrow>
     rsx_vertex_remap_build occ_ok slots_ok junk r refs count = Some (ok, r', refs', u) \<Longrightarrow> remap_reachable r'"

lemma reachable_inv: "remap_reachable r \<Longrightarrow> remap_inv r"
proof (induction rule: remap_reachable.induct)
  case start
  show ?case by (simp add: rsx_vertex_remap_destroy_def remap_inv_def)
next
  case (call r count refs occ_ok slots_ok junk ok r' refs' u)
  then show ?case using build_keeps_inv [of r count refs occ_ok slots_ok junk] by auto
qed

section \<open>Properties of the remapping\<close>

text \<open>
  C17. A call on a structure in any state earlier calls have left returns: no probe runs for ever, no
  access leaves the table, the occurrence map or the caller's array. It fails only when a
  reallocation fails or there are more than \<open>2 ^ 30\<close> references, and then the references and
  the count are as they were.
\<close>

theorem remap_build_returns:
  assumes "remap_reachable r" "unat count \<le> length refs"
  shows "\<exists>ok r' refs' u. rsx_vertex_remap_build occ_ok slots_ok junk r refs count = Some (ok, r', refs', u) \<and>
    (ok \<or> refs' = refs \<and> u = count \<and> (\<not> occ_ok \<or> \<not> slots_ok \<or> unat count > 2 ^ 30))"
  using build_keeps_inv [OF reachable_inv [OF assms(1)] assms(2)] by metis

theorem remap_build_returns_witness:
  "\<forall>occ_ok slots_ok junk. \<exists>ok r' refs' u. rsx_vertex_remap_build occ_ok slots_ok junk rsx_vertex_remap_destroy
      [\<lparr>vertex_id = 1, base_index = 0\<rparr>] 1 = Some (ok, r', refs', u) \<and>
    (ok \<or> refs' = [\<lparr>vertex_id = 1, base_index = 0\<rparr>] \<and> u = 1 \<and> (\<not> occ_ok \<or> \<not> slots_ok))"
  using remap_build_returns [OF remap_reachable.start, of 1 "[\<lparr>vertex_id = 1, base_index = 0\<rparr>]"] by simp

text \<open>
  C16. A call whose reallocations succeed collapses the references as the comment of the header says:
  the array starts with the distinct references in the order of their first use, the count is their
  number, and through the occurrence map every reference finds its own copy; whatever earlier calls
  left in the table, and when the generation counter wraps around.
\<close>

theorem remap_build_dedups:
  assumes "remap_reachable r" "unat count \<le> length refs" "count \<noteq> 0" "unat count \<le> 2 ^ 30"
  shows "\<exists>r' refs'. rsx_vertex_remap_build True True junk r refs count =
      Some (True, r', refs', of_nat (length (first_uses (take (unat count) refs)))) \<and>
    take (length (first_uses (take (unat count) refs))) refs' = first_uses (take (unat count) refs) \<and>
    (\<forall>m < unat count. refs' ! unat (rsx_vertex_remap_index r' (of_nat m)) = refs ! m \<and>
       unat (rsx_vertex_remap_index r' (of_nat m)) < length (first_uses (take (unat count) refs)))"
proof -
  let ?us = "first_uses (take (unat count) refs)"
  obtain r' refs' n where b: "rsx_vertex_remap_build True True junk r refs count = Some (True, r', refs', of_nat (length ?us))"
      "loop_inv n refs (unat count) (unat count) r' refs'"
    using build_runs [OF reachable_inv [OF assms(1)] assms(2-4)] by metis
  then have li: "take (length ?us) refs' = ?us" "unat count \<le> unat (occurrence_capacity r')"
    "\<forall>m < unat count. unat (occurrence_to_unique r' m) < length ?us \<and> ?us ! unat (occurrence_to_unique r' m) = refs ! m"
    by (auto simp: loop_inv_def Let_def)
  have "rsx_vertex_remap_index r' (of_nat m) = occurrence_to_unique r' m" if "m < unat count" for m
    using that li(2) u32_bound [of count] by (simp add: rsx_vertex_remap_index_def word_less_nat_alt unat_small)
  moreover have "refs' ! j = ?us ! j" if "j < length ?us" for j using li(1) that by (metis nth_take)
  ultimately show ?thesis using b(1) li by auto
qed

theorem remap_build_dedups_witness:
  "\<forall>junk. \<exists>r' refs'. rsx_vertex_remap_build True True junk rsx_vertex_remap_destroy
      [\<lparr>vertex_id = 7, base_index = 0\<rparr>, \<lparr>vertex_id = 9, base_index = 0\<rparr>, \<lparr>vertex_id = 7, base_index = 0\<rparr>] 3 = Some (True, r', refs', 2) \<and>
    take 2 refs' = [\<lparr>vertex_id = 7, base_index = 0\<rparr>, \<lparr>vertex_id = 9, base_index = 0\<rparr>] \<and>
    refs' ! unat (rsx_vertex_remap_index r' 2) = \<lparr>vertex_id = 7, base_index = 0\<rparr>"
proof
  fix junk
  let ?xs = "[\<lparr>vertex_id = 7, base_index = 0\<rparr>, \<lparr>vertex_id = 9, base_index = 0\<rparr>, \<lparr>vertex_id = 7, base_index = 0\<rparr>]"
  have "first_uses (take (unat (3 :: u32)) ?xs) = [\<lparr>vertex_id = 7, base_index = 0\<rparr>, \<lparr>vertex_id = 9, base_index = 0\<rparr>]"
    by (simp add: first_uses_def)
  then obtain r' refs' where b: "rsx_vertex_remap_build True True junk rsx_vertex_remap_destroy ?xs 3 = Some (True, r', refs', 2)"
    "take (Suc (Suc 0)) refs' = [\<lparr>vertex_id = 7, base_index = 0\<rparr>, \<lparr>vertex_id = 9, base_index = 0\<rparr>]"
    and m: "\<And>m. m < 3 \<Longrightarrow> refs' ! unat (rsx_vertex_remap_index r' (of_nat m)) = ?xs ! m"
    using remap_build_dedups [OF remap_reachable.start, of 3 ?xs junk] by auto
  show "\<exists>r' refs'. rsx_vertex_remap_build True True junk rsx_vertex_remap_destroy ?xs 3 = Some (True, r', refs', 2) \<and>
    take 2 refs' = [\<lparr>vertex_id = 7, base_index = 0\<rparr>, \<lparr>vertex_id = 9, base_index = 0\<rparr>] \<and>
    refs' ! unat (rsx_vertex_remap_index r' 2) = \<lparr>vertex_id = 7, base_index = 0\<rparr>"
    using b m [of 2] by (intro exI [of _ r'] exI [of _ refs']) (simp add: numeral_2_eq_2 [symmetric])
qed

end
