(* ===== verification/RsxVertex.thy ===== *)
theory RsxVertex
  imports RsxStream RsxRemap
begin

text \<open>
  Vertex formats, the compact layout and the vertex fetch of the live renderer:
  \<^verbatim>\<open>rsx_vertex_formats.h\<close>, \<^verbatim>\<open>rsx_vertex_compact.c\<close>,
  \<^verbatim>\<open>rsx_primitives.h\<close> and \<^verbatim>\<open>rsx_restart_cuts.h\<close> of
  \<^verbatim>\<open>src/libs/video\<close>.

  A pointer to vertex data is the list of the bytes that can be read from it; a read past them is
  \<open>None\<close>. The resolver of guest addresses, which the renderer passes as a callback, is a
  function to such a list. Floats are bit patterns and the operations on them are arguments, as in
  the dispatcher.
\<close>

section \<open>Formats and primitives\<close>

definition rsx_vertex_type_size :: "u32 \<Rightarrow> u32" where
  "rsx_vertex_type_size type =
     (if type = 1 then 2 else if type = 2 then 4 else if type = 3 then 2 else if type = 4 then 1
      else if type = 5 then 2 else if type = 6 then 4 else if type = 7 then 1 else 0)"

definition rsx_vertex_attrib_size :: "u32 \<Rightarrow> u32 \<Rightarrow> u32" where
  "rsx_vertex_attrib_size type num_components =
     (if type = 6 then 4 else rsx_vertex_type_size type * num_components)"

definition rsx_vertex_element_index :: "u32 \<Rightarrow> u32 \<Rightarrow> u32 \<Rightarrow> u32 \<Rightarrow> u32" where
  "rsx_vertex_element_index vid base frequency by_modulo =
     (if frequency \<le> 1 then (vid + base) AND 0x000FFFFF
      else if by_modulo \<noteq> 0 then vid mod frequency
      else vid div frequency)"

definition rsx_to_dxgi_format :: "u32 \<Rightarrow> u32 \<Rightarrow> u32" where
  "rsx_to_dxgi_format type n =
     (if type = 2 then (if n = 1 then 41 else if n = 2 then 16 else if n = 3 then 6 else if n = 4 then 2 else 0)
      else if type = 3 then (if n = 1 then 54 else if n = 2 then 34 else if n = 4 then 10 else 0)
      else if type = 4 then (if n = 1 then 61 else if n = 2 then 49 else if n = 4 then 28 else 0)
      else if type = 7 then (if n = 1 then 62 else if n = 2 then 50 else if n = 4 then 30 else 0)
      else if type = 1 then (if n = 1 then 56 else if n = 2 then 36 else if n = 4 then 13 else 0)
      else 0)"

abbreviation "RSX_PRIMITIVE_POINTS \<equiv> 1 :: u32"
abbreviation "RSX_PRIMITIVE_LINES \<equiv> 2 :: u32"
abbreviation "RSX_PRIMITIVE_LINE_LOOP \<equiv> 3 :: u32"
abbreviation "RSX_PRIMITIVE_LINE_STRIP \<equiv> 4 :: u32"
abbreviation "RSX_PRIMITIVE_TRIANGLES \<equiv> 5 :: u32"
abbreviation "RSX_PRIMITIVE_TRIANGLE_STRIP \<equiv> 6 :: u32"
abbreviation "RSX_PRIMITIVE_TRIANGLE_FAN \<equiv> 7 :: u32"
abbreviation "RSX_PRIMITIVE_QUADS \<equiv> 8 :: u32"
abbreviation "RSX_PRIMITIVE_QUAD_STRIP \<equiv> 9 :: u32"
abbreviation "RSX_PRIMITIVE_POLYGON \<equiv> 10 :: u32"

datatype rsx_topology =
    RSX_TOPOLOGY_UNSUPPORTED
  | RSX_TOPOLOGY_POINTS
  | RSX_TOPOLOGY_LINES
  | RSX_TOPOLOGY_LINE_STRIP
  | RSX_TOPOLOGY_TRIANGLES
  | RSX_TOPOLOGY_TRIANGLE_STRIP

definition rsx_primitive_needs_expansion :: "u32 \<Rightarrow> bool" where
  "rsx_primitive_needs_expansion rsx_prim \<longleftrightarrow>
     rsx_prim = RSX_PRIMITIVE_QUADS \<or> rsx_prim = RSX_PRIMITIVE_QUAD_STRIP \<or>
     rsx_prim = RSX_PRIMITIVE_TRIANGLE_FAN \<or> rsx_prim = RSX_PRIMITIVE_POLYGON"

definition rsx_primitive_topology :: "u32 \<Rightarrow> rsx_topology" where
  "rsx_primitive_topology rsx_prim =
     (if rsx_prim = RSX_PRIMITIVE_POINTS then RSX_TOPOLOGY_POINTS
      else if rsx_prim = RSX_PRIMITIVE_LINES then RSX_TOPOLOGY_LINES
      else if rsx_prim = RSX_PRIMITIVE_LINE_LOOP \<or> rsx_prim = RSX_PRIMITIVE_LINE_STRIP then RSX_TOPOLOGY_LINE_STRIP
      else if rsx_prim = RSX_PRIMITIVE_TRIANGLE_STRIP then RSX_TOPOLOGY_TRIANGLE_STRIP
      else if rsx_prim = RSX_PRIMITIVE_TRIANGLES \<or> rsx_prim = RSX_PRIMITIVE_TRIANGLE_FAN \<or>
              rsx_prim = RSX_PRIMITIVE_QUADS \<or> rsx_prim = RSX_PRIMITIVE_QUAD_STRIP \<or>
              rsx_prim = RSX_PRIMITIVE_POLYGON then RSX_TOPOLOGY_TRIANGLES
      else RSX_TOPOLOGY_UNSUPPORTED)"

text \<open>The returned flag and \<open>indexed\<close>.\<close>

definition rsx_vertex_topology_plan :: "u32 \<Rightarrow> bool \<Rightarrow> bool \<times> bool" where
  "rsx_vertex_topology_plan primitive refs_remapped =
     (if primitive = RSX_PRIMITIVE_TRIANGLES then (True, refs_remapped)
      else if primitive = RSX_PRIMITIVE_TRIANGLE_STRIP \<or> primitive = RSX_PRIMITIVE_TRIANGLE_FAN \<or>
              primitive = RSX_PRIMITIVE_QUADS then (True, True)
      else (False, False))"

section \<open>Decoding an element\<close>

definition get_byte :: "u8 list \<Rightarrow> nat \<Rightarrow> u8 option" where
  "get_byte p i = (if i < length p then Some (p ! i) else None)"

definition be32_at :: "u8 list \<Rightarrow> nat \<Rightarrow> u32 option" where
  "be32_at p i = do {
     a \<leftarrow> get_byte p i; b \<leftarrow> get_byte p (i + 1); c \<leftarrow> get_byte p (i + 2); d \<leftarrow> get_byte p (i + 3);
     Some (push_bit 24 (ucast a) OR push_bit 16 (ucast b) OR push_bit 8 (ucast c) OR ucast d)
   }"

definition be16_at :: "u8 list \<Rightarrow> nat \<Rightarrow> u16 option" where
  "be16_at p i = do { a \<leftarrow> get_byte p i; b \<leftarrow> get_byte p (i + 1); Some (push_bit 8 (ucast a) OR ucast b) }"

definition rsx_compact_be_f32 :: "u8 list \<Rightarrow> nat \<Rightarrow> u32 option" where
  "rsx_compact_be_f32 p i = be32_at p i"

definition half_to_float :: "u16 \<Rightarrow> u32" where
  "half_to_float h =
     (let sign = push_bit 31 (ucast (drop_bit 15 h)); ex = ucast (drop_bit 10 h) AND 0x1F; man = ucast h AND 0x3FF
      in if ex = 0 then sign
         else if ex = 31 then sign OR 0x7F800000 OR push_bit 13 man
         else sign OR push_bit 23 (ex + 112) OR push_bit 13 man)"

definition rsx_compact_be_f16 :: "u8 list \<Rightarrow> nat \<Rightarrow> u32 option" where
  "rsx_compact_be_f16 p i = map_option half_to_float (be16_at p i)"

definition snorm16 :: "float_ops \<Rightarrow> int \<Rightarrow> u32" where
  "snorm16 fo v =
     float_div fo (float_add fo (float_mul fo (float_of_int fo 2) (float_of_int fo v)) ONE_F) (float_of_int fo 65535)"

definition cmp32 :: "float_ops \<Rightarrow> u32 \<Rightarrow> u32 list" where
  "cmp32 fo word =
     (let x = uint (word AND 0x7FF); y = uint (drop_bit 11 word AND 0x7FF); z = uint (drop_bit 22 word AND 0x3FF);
          x = (if x AND 0x400 \<noteq> 0 then x - 0x800 else x);
          y = (if y AND 0x400 \<noteq> 0 then y - 0x800 else y);
          z = (if z AND 0x200 \<noteq> 0 then z - 0x400 else z)
      in [float_div fo (float_of_int fo x) (float_of_int fo 1023), float_div fo (float_of_int fo y) (float_of_int fo 1023),
          float_div fo (float_of_int fo z) (float_of_int fo 511), ONE_F])"

text \<open>A component of the types that have one each.\<close>

definition decode_component :: "float_ops \<Rightarrow> u32 \<Rightarrow> u8 list \<Rightarrow> nat \<Rightarrow> u32 option" where
  "decode_component fo type source c =
     (if type = 2 then rsx_compact_be_f32 source (c * 4)
      else if type = 3 then rsx_compact_be_f16 source (c * 2)
      else if type = 4 then map_option (\<lambda>b. float_div fo (float_of_int fo (uint b)) (float_of_int fo 255)) (get_byte source c)
      else if type = 7 then map_option (\<lambda>b. float_of_int fo (uint b)) (get_byte source c)
      else if type = 1 then map_option (\<lambda>h. snorm16 fo (sint h)) (be16_at source (c * 2))
      else map_option (\<lambda>h. float_of_int fo (sint h)) (be16_at source (c * 2)))"

text \<open>The loop from component \<open>c\<close> on, \<open>n\<close> turns.\<close>

primrec decode_from :: "float_ops \<Rightarrow> u32 \<Rightarrow> u8 list \<Rightarrow> nat \<Rightarrow> nat \<Rightarrow> u32 list \<Rightarrow> (bool \<times> u32 list) option" where
  "decode_from fo type source c 0 out = Some (True, out)"
| "decode_from fo type source c (Suc n) out =
     (if type \<in> {1, 2, 3, 4, 5, 7} then do {
        v \<leftarrow> decode_component fo type source c;
        decode_from fo type source (Suc c) n (out[c := v])
      }
      else if type = 6 then do { w \<leftarrow> be32_at source 0; Some (True, cmp32 fo w) }
      else Some (False, out))"

definition rsx_vertex_decode_element :: "float_ops \<Rightarrow> u32 \<Rightarrow> u32 \<Rightarrow> u8 list \<Rightarrow> (bool \<times> u32 list) option" where
  "rsx_vertex_decode_element fo type sz source = decode_from fo type source 0 (min (unat sz) 4) [0, 0, 0, ONE_F]"

section \<open>The compact layout\<close>

record rsx_vertex_layout_plan =
  lp_mask :: u32
  lp_stride :: u32
  lp_count :: nat
  lp_attrs :: "nat list"
  lp_slot_by_attr :: "int list"

definition layout_attr :: "rsx_vertex_layout_plan \<Rightarrow> nat \<Rightarrow> rsx_vertex_layout_plan" where
  "layout_attr plan attr =
     (if \<not> bit (lp_mask plan) attr then plan
      else let slot = lp_count plan
           in plan\<lparr>lp_count := slot + 1, lp_attrs := (lp_attrs plan)[slot := attr],
                   lp_slot_by_attr := (lp_slot_by_attr plan)[attr := int slot]\<rparr>)"

definition rsx_vertex_layout_plan_init :: "u32 \<Rightarrow> rsx_vertex_layout_plan" where
  "rsx_vertex_layout_plan_init input_mask =
     (let plan = \<lparr>lp_mask = input_mask AND 0xFFFF, lp_stride = 0, lp_count = 0, lp_attrs = replicate 16 0,
            lp_slot_by_attr = replicate 16 (- 1)\<rparr>;
          plan = foldl layout_attr plan [0..<16]
      in plan\<lparr>lp_stride := of_nat (lp_count plan) * 16\<rparr>)"

section \<open>The fetch plan\<close>

text \<open>The resolver of the renderer: location, offset and length to the bytes there.\<close>

type_synonym guest_resolver = "u32 \<Rightarrow> u32 \<Rightarrow> u32 \<Rightarrow> u8 list option"

record rsx_vertex_fetch_attr =
  fa_desc :: rsx_dsp_vertex_attr
  fa_elem_size :: u32
  fa_stride :: u32
  fa_default :: "u32 list"
  stable_base :: "u8 list option"
  stable_first :: u32
  stable_last :: u32

record rsx_vertex_fetch_plan =
  fp_layout :: rsx_vertex_layout_plan
  fp_attr :: "nat \<Rightarrow> rsx_vertex_fetch_attr"
  fp_base_offset :: u32
  fp_divider_mask :: u32
  fp_guest_ptr :: "guest_resolver option"
  fp_inline_data :: "u8 list option"
  fp_inline_bytes :: u32
  fp_inline_off :: "nat \<Rightarrow> u32"
  fp_inline_stride :: u32

text \<open>Comparing a float with 0 and with 1: both zeros compare equal.\<close>

definition float_is_0 :: "u32 \<Rightarrow> bool" where
  "float_is_0 w \<longleftrightarrow> w = 0 \<or> w = 0x80000000"

definition white_default :: "u32 list \<Rightarrow> u32 list" where
  "white_default v =
     (if float_is_0 (v ! 0) \<and> float_is_0 (v ! 1) \<and> float_is_0 (v ! 2) \<and> v ! 3 = ONE_F then [ONE_F, ONE_F, ONE_F, v ! 3] else v)"

definition fetch_attr_init :: "rsx_dispatch \<Rightarrow> nat \<Rightarrow> rsx_vertex_fetch_attr option" where
  "fetch_attr_init rsx attr = do {
     desc \<leftarrow> rsx_dsp_get_vertex_attr rsx (of_nat attr);
     let elem_size = rsx_vertex_attrib_size (va_type desc) (va_size desc);
     v \<leftarrow> rsx_dsp_vertex_default rsx (of_nat attr);
     Some \<lparr>fa_desc = desc, fa_elem_size = elem_size, fa_stride = (if va_stride desc \<noteq> 0 then va_stride desc else elem_size),
       fa_default = (if attr = 3 then white_default v else v), stable_base = None, stable_first = 0, stable_last = 0\<rparr>
   }"

primrec fetch_attrs_init :: "rsx_dispatch \<Rightarrow> nat \<Rightarrow> (nat \<Rightarrow> rsx_vertex_fetch_attr) \<Rightarrow> (nat \<Rightarrow> rsx_vertex_fetch_attr) option" where
  "fetch_attrs_init rsx 0 f = Some f"
| "fetch_attrs_init rsx (Suc n) f = do {
     f \<leftarrow> fetch_attrs_init rsx n f;
     a \<leftarrow> fetch_attr_init rsx n;
     Some (f(n := a))
   }"

definition zero_attr :: rsx_vertex_fetch_attr where
  "zero_attr = \<lparr>fa_desc = \<lparr>va_type = 0, va_size = 0, va_stride = 0, va_frequency = 0, va_offset = 0, va_location = 0\<rparr>,
     fa_elem_size = 0, fa_stride = 0, fa_default = [0, 0, 0, 0], stable_base = None, stable_first = 0, stable_last = 0\<rparr>"

definition rsx_vertex_fetch_plan_init ::
  "rsx_dispatch \<Rightarrow> rsx_vertex_layout_plan \<Rightarrow> guest_resolver option \<Rightarrow> rsx_vertex_fetch_plan option" where
  "rsx_vertex_fetch_plan_init rsx layout guest_ptr = do {
     base \<leftarrow> rsx_dsp_vertex_data_base_offset rsx;
     divider \<leftarrow> rsx_dsp_reg rsx 0x1FC0;
     attrs \<leftarrow> fetch_attrs_init rsx 16 (\<lambda>_. zero_attr);
     Some \<lparr>fp_layout = layout, fp_attr = attrs, fp_base_offset = base, fp_divider_mask = divider, fp_guest_ptr = guest_ptr,
       fp_inline_data = None, fp_inline_bytes = 0, fp_inline_off = \<lambda>_. 0, fp_inline_stride = 0\<rparr>
   }"

text \<open>The inline layout: attributes from \<open>attr\<close> on, with the bytes packed and the stride declared so far.\<close>

primrec inline_layout_from ::
  "rsx_dispatch \<Rightarrow> nat \<Rightarrow> nat \<Rightarrow> (nat \<Rightarrow> u32) \<Rightarrow> u32 \<Rightarrow> u32 \<Rightarrow> ((nat \<Rightarrow> u32) \<times> u32) option" where
  "inline_layout_from rsx attr 0 offsets packed declared = Some (offsets, if declared \<noteq> 0 then declared else packed)"
| "inline_layout_from rsx attr (Suc n) offsets packed declared = do {
     desc \<leftarrow> rsx_dsp_get_vertex_attr rsx (of_nat attr);
     let offsets = offsets(attr := packed);
     if va_type desc = 0 \<or> va_size desc = 0 then inline_layout_from rsx (Suc attr) n offsets packed declared
     else inline_layout_from rsx (Suc attr) n offsets (packed + rsx_vertex_attrib_size (va_type desc) (va_size desc))
            (if va_stride desc > declared then va_stride desc else declared)
   }"

definition rsx_vertex_inline_layout :: "rsx_dispatch \<Rightarrow> (nat \<Rightarrow> u32) \<Rightarrow> ((nat \<Rightarrow> u32) \<times> u32) option" where
  "rsx_vertex_inline_layout rsx offsets = inline_layout_from rsx 0 16 offsets 0 0"

text \<open>\<open>data\<close> is the stream, of \<open>bytes\<close> bytes, or \<open>None\<close> for a null pointer.\<close>

definition rsx_vertex_fetch_plan_set_inline ::
  "rsx_vertex_fetch_plan \<Rightarrow> rsx_dispatch \<Rightarrow> u8 list option \<Rightarrow> u32 \<Rightarrow> rsx_vertex_fetch_plan option" where
  "rsx_vertex_fetch_plan_set_inline plan rsx data bytes =
     (let plan = plan\<lparr>fp_inline_data := None, fp_inline_bytes := 0\<rparr>
      in if data = None \<or> bytes = 0 then Some plan
         else do {
           (offs, stride) \<leftarrow> rsx_vertex_inline_layout rsx (fp_inline_off plan);
           Some (plan\<lparr>fp_inline_stride := stride, fp_inline_off := offs, fp_inline_data := data, fp_inline_bytes := bytes\<rparr>)
         })"

definition plan_element :: "rsx_vertex_fetch_plan \<Rightarrow> nat \<Rightarrow> rsx_vertex_ref \<Rightarrow> u32" where
  "plan_element plan attr ref =
     rsx_vertex_element_index (vertex_id ref) (base_index ref) (va_frequency (fa_desc (fp_attr plan attr)))
       (drop_bit attr (fp_divider_mask plan) AND 1)"

text \<open>The span of one attribute: hoisted when it is contiguous, otherwise left to the single fetches.\<close>

definition prepare_inline :: "rsx_vertex_fetch_plan \<Rightarrow> nat \<Rightarrow> rsx_vertex_fetch_attr \<Rightarrow> u8 list \<Rightarrow> rsx_vertex_fetch_attr" where
  "prepare_inline plan attr fetch data =
     (let stride = (if fp_inline_stride plan \<noteq> 0 then fp_inline_stride plan else fa_stride fetch);
          off = fp_inline_off plan attr
      in if stride = 0 \<or> off + fa_elem_size fetch > stride then fetch
         else let verts = fp_inline_bytes plan div stride
              in if verts = 0 then fetch
                 else fetch\<lparr>fa_stride := stride, stable_base := Some (drop (unat off) data), stable_first := 0,
                            stable_last := verts - 1\<rparr>)"

definition prepare_guest ::
  "rsx_vertex_fetch_plan \<Rightarrow> nat \<Rightarrow> rsx_vertex_fetch_attr \<Rightarrow> guest_resolver \<Rightarrow> rsx_vertex_ref list \<Rightarrow> rsx_vertex_fetch_attr" where
  "prepare_guest plan attr fetch guest_ptr refs =
     (let elements = map (plan_element plan attr) refs;
          first = foldl (\<lambda>f e. if e < f then e else f) UINT_MAX elements;
          last = foldl (\<lambda>l e. if e > l then e else l) 0 elements;
          prefix = ucast (fp_base_offset plan) + ucast (va_offset (fa_desc fetch)) :: u64;
          start = prefix + ucast first * ucast (fa_stride fetch);
          finish = prefix + ucast last * ucast (fa_stride fetch) + ucast (fa_elem_size fetch)
      in if start > 0xFFFFFFFF \<or> finish > 0x100000000 \<or> finish \<le> start \<or> finish - start > 0xFFFFFFFF then fetch
         else case guest_ptr (va_location (fa_desc fetch)) (ucast start) (ucast (finish - start)) of
                None \<Rightarrow> fetch
              | Some base \<Rightarrow> fetch\<lparr>stable_base := Some base, stable_first := first, stable_last := last\<rparr>)"

definition prepare_attr :: "rsx_vertex_ref list \<Rightarrow> rsx_vertex_fetch_plan \<Rightarrow> nat \<Rightarrow> rsx_vertex_fetch_plan" where
  "prepare_attr refs plan attr =
     (let fetch = (fp_attr plan attr)\<lparr>stable_base := None, stable_first := 0, stable_last := 0\<rparr>;
          desc = fa_desc fetch;
          fetch = (if refs = [] \<or> va_type desc = 0 \<or> va_size desc = 0 \<or> fa_elem_size fetch = 0 then fetch
                   else case fp_inline_data plan of
                     Some data \<Rightarrow> prepare_inline plan attr fetch data
                   | None \<Rightarrow>
                       (case fp_guest_ptr plan of
                          None \<Rightarrow> fetch
                        | Some guest_ptr \<Rightarrow> prepare_guest plan attr fetch guest_ptr refs))
      in plan\<lparr>fp_attr := (fp_attr plan)(attr := fetch)\<rparr>)"

text \<open>\<open>refs\<close> are the \<open>count\<close> references the caller passes.\<close>

definition rsx_vertex_fetch_plan_prepare :: "rsx_vertex_fetch_plan \<Rightarrow> rsx_vertex_ref list \<Rightarrow> rsx_vertex_fetch_plan" where
  "rsx_vertex_fetch_plan_prepare plan refs =
     foldl (prepare_attr refs) plan (take (lp_count (fp_layout plan)) (lp_attrs (fp_layout plan)))"

section \<open>Fetching a vertex\<close>

text \<open>Where an element is read from; \<open>None\<close> is a null pointer.\<close>

definition fetch_source :: "rsx_vertex_fetch_plan \<Rightarrow> nat \<Rightarrow> u32 \<Rightarrow> u8 list option" where
  "fetch_source plan attr element =
     (let fetch = fp_attr plan attr
      in if stable_base fetch \<noteq> None \<and> element \<ge> stable_first fetch \<and> element \<le> stable_last fetch
         then Some (drop (unat (element - stable_first fetch) * unat (fa_stride fetch)) (the (stable_base fetch)))
         else if fp_inline_data plan \<noteq> None then None
         else case fp_guest_ptr plan of
                None \<Rightarrow> None
              | Some guest_ptr \<Rightarrow>
                  guest_ptr (va_location (fa_desc fetch))
                    (fp_base_offset plan + va_offset (fa_desc fetch) + element * fa_stride fetch) (fa_elem_size fetch))"

text \<open>One slot: \<open>Inl ()\<close> is the return of 0.\<close>

definition fetch_slot :: "float_ops \<Rightarrow> rsx_vertex_fetch_plan \<Rightarrow> rsx_vertex_ref \<Rightarrow> nat \<Rightarrow> (unit + u32 list) option" where
  "fetch_slot fo plan ref attr =
     (let fetch = fp_attr plan attr; desc = fa_desc fetch
      in if va_type desc = 0 \<or> va_size desc = 0 then Some (Inr (fa_default fetch))
         else let fallback = (if attr = 0 then Inl () else Inr (fa_default fetch))
              in case fetch_source plan attr (plan_element plan attr ref) of
                   None \<Rightarrow> Some fallback
                 | Some source \<Rightarrow> do {
                     (ok, v) \<leftarrow> rsx_vertex_decode_element fo (va_type desc) (va_size desc) source;
                     Some (if ok then Inr v else fallback)
                   })"

primrec fetch_slots :: "float_ops \<Rightarrow> rsx_vertex_fetch_plan \<Rightarrow> rsx_vertex_ref \<Rightarrow> nat list \<Rightarrow> (unit + u32 list list) option" where
  "fetch_slots fo plan ref [] = Some (Inr [])"
| "fetch_slots fo plan ref (attr # attrs) = do {
     r \<leftarrow> fetch_slot fo plan ref attr;
     case r of
       Inl _ \<Rightarrow> Some (Inl ())
     | Inr v \<Rightarrow> do {
         rest \<leftarrow> fetch_slots fo plan ref attrs;
         Some (case rest of Inl _ \<Rightarrow> Inl () | Inr vs \<Rightarrow> Inr (v # vs))
       }
   }"

definition rsx_vertex_fetch_one :: "float_ops \<Rightarrow> rsx_vertex_fetch_plan \<Rightarrow> rsx_vertex_ref \<Rightarrow> (unit + u32 list list) option" where
  "rsx_vertex_fetch_one fo plan ref =
     fetch_slots fo plan ref (take (lp_count (fp_layout plan)) (lp_attrs (fp_layout plan)))"

section \<open>Restart cuts\<close>

text \<open>The cut list and its capacity; \<open>grow_ok\<close> is whether the reallocation succeeds.\<close>

definition rsx_restart_cut_push :: "bool \<Rightarrow> u32 list \<Rightarrow> u32 \<Rightarrow> u32 \<Rightarrow> (bool \<times> u32 list \<times> u32) option" where
  "rsx_restart_cut_push grow_ok cuts capacity vertex_offset =
     (let full = length cuts = unat capacity; grown = (if capacity \<noteq> 0 then capacity * 2 else 1024)
      in if full \<and> \<not> grow_ok then Some (False, cuts, capacity)
         else let capacity = (if full then grown else capacity)
              in if length cuts < unat capacity then Some (True, cuts @ [vertex_offset], capacity) else None)"

definition rsx_restart_segment_bounds :: "u32 list \<Rightarrow> u32 \<Rightarrow> nat \<Rightarrow> (u32 \<times> u32) option" where
  "rsx_restart_segment_bounds cuts vertex_count segment =
     (if segment > length cuts then None
      else let first = (if segment \<noteq> 0 then cuts ! (segment - 1) else 0);
               finish = (if segment < length cuts then cuts ! segment else vertex_count)
           in Some (first, if finish > first then finish - first else 0))"

end
