(* ===== verification/GcmIo.thy ===== *)
theory GcmIo
  imports Prelude
begin

text \<open>
  The address spaces of the RSX, \<^verbatim>\<open>src/libs/video/cellGcmSys.c\<close>: main memory a title maps
  into the IO space in pages of 1 MB, the list of the mappings, the two page tables between
  effective addresses and IO offsets, and the filter that answers most questions about an address
  without looking at the list.

  Of the state only what these calls use is modelled. A value stored through a guest pointer is
  part of the result (\<open>None\<close> when nothing is stored); the pointer is never null. The messages
  are left out.
\<close>

section \<open>State\<close>

definition CELL_GCM_ERROR_FAILURE :: u32 where "CELL_GCM_ERROR_FAILURE = 0x80210700 OR 0xFF"

definition CELL_GCM_ERROR_INVALID_VALUE :: u32 where "CELL_GCM_ERROR_INVALID_VALUE = 0x80210700 OR 0x03"

definition CELL_GCM_ERROR_INVALID_ALIGNMENT :: u32 where "CELL_GCM_ERROR_INVALID_ALIGNMENT = 0x80210700 OR 0x04"

definition CELL_GCM_ERROR_ADDRESS_OVERWRAP :: u32 where "CELL_GCM_ERROR_ADDRESS_OVERWRAP = 0x80210700 OR 0x05"

definition CELL_GCM_MAX_IO_MAPPINGS :: nat where "CELL_GCM_MAX_IO_MAPPINGS = 16"

record IoMapping =
  im_ea :: u32
  im_io :: u32
  im_size :: u32
  im_active :: bool

text \<open>
  The tables are functions of the page number (they have 65536 entries), the filter holds one bit
  for each of the 4096 pages.
\<close>

record gcm_io =
  gcm_initialized :: bool
  local_address :: u32
  local_size :: u32
  io_address :: u32
  io_size :: u32
  local_offset_page :: "nat \<Rightarrow> bool"
  io_address_table :: "nat \<Rightarrow> u16"
  ea_address_table :: "nat \<Rightarrow> u16"
  io_mappings :: "nat \<Rightarrow> IoMapping"
  io_mapping_count :: int
  io_pages :: "nat \<Rightarrow> bool"
  io_map_reserved :: u32
  io_alloc_next :: u32

definition no_mapping :: IoMapping where
  "no_mapping = \<lparr>im_ea = 0, im_io = 0, im_size = 0, im_active = False\<rparr>"

text \<open>The static initial values.\<close>

definition gcm_start :: gcm_io where
  "gcm_start = \<lparr>gcm_initialized = False, local_address = 0, local_size = 0, io_address = 0, io_size = 0,
     local_offset_page = \<lambda>_. False, io_address_table = \<lambda>_. 0, ea_address_table = \<lambda>_. 0,
     io_mappings = \<lambda>_. no_mapping, io_mapping_count = 0, io_pages = \<lambda>_. False, io_map_reserved = 0, io_alloc_next = 0\<rparr>"

section \<open>Pages\<close>

text \<open>The number of the 1 MB page of an address.\<close>

definition page :: "u32 \<Rightarrow> nat" where
  "page a = unat (drop_bit 20 a)"

text \<open>\<open>s_io_pages\<close>.\<close>

definition gcm_io_pages_mark :: "u32 \<Rightarrow> u32 \<Rightarrow> gcm_io \<Rightarrow> gcm_io" where
  "gcm_io_pages_mark ea sz s =
     (if sz = 0 then s
      else let finish = (ucast ea :: u64) + ucast sz;
               last = (if finish > 0x100000000 then 4095 else unat (ucast (drop_bit 20 (finish - 1)) :: u32))
           in s\<lparr>io_pages := (\<lambda>p. io_pages s p \<or> page ea \<le> p \<and> p \<le> last)\<rparr>)"

definition gcm_io_pages_clear :: "gcm_io \<Rightarrow> gcm_io" where
  "gcm_io_pages_clear s = s\<lparr>io_pages := \<lambda>_. False\<rparr>"

definition gcm_io_page_maybe :: "gcm_io \<Rightarrow> u32 \<Rightarrow> bool" where
  "gcm_io_page_maybe s ea = io_pages s (page ea)"

text \<open>The page tables.\<close>

definition populate_offset_table :: "u32 \<Rightarrow> u32 \<Rightarrow> u32 \<Rightarrow> gcm_io \<Rightarrow> gcm_io" where
  "populate_offset_table ea io sz s =
     (let pages = unat (drop_bit 20 (sz + 0xFFFFF)); ea_page = page ea; io_page = page io
      in fold (\<lambda>i s. if ea_page + i < 65536 \<and> io_page + i < 65536
                     then s\<lparr>io_address_table := (io_address_table s)(ea_page + i := of_nat (io_page + i)),
                            ea_address_table := (ea_address_table s)(io_page + i := of_nat (ea_page + i))\<rparr>
                     else s) [0..<pages] s)"

definition clear_offset_table :: "u32 \<Rightarrow> u32 \<Rightarrow> u32 \<Rightarrow> gcm_io \<Rightarrow> gcm_io" where
  "clear_offset_table ea io sz s =
     (let pages = unat (drop_bit 20 sz); ea_page = page ea; io_page = page io
      in fold (\<lambda>i s. if ea_page + i < 65536 \<and> io_page + i < 65536
                     then s\<lparr>io_address_table := (io_address_table s)(ea_page + i := 0xFFFF),
                            ea_address_table := (ea_address_table s)(io_page + i := 0xFFFF)\<rparr>
                     else s) [0..<pages] s)"

text \<open>The list of mappings.\<close>

definition find_mapping_by_ea :: "gcm_io \<Rightarrow> u32 \<Rightarrow> nat option" where
  "find_mapping_by_ea s ea =
     find_slot (\<lambda>i. im_active (io_mappings s i) \<and> im_ea (io_mappings s i) = ea) CELL_GCM_MAX_IO_MAPPINGS"

definition find_mapping_by_io :: "gcm_io \<Rightarrow> u32 \<Rightarrow> nat option" where
  "find_mapping_by_io s io =
     find_slot (\<lambda>i. im_active (io_mappings s i) \<and> im_io (io_mappings s i) = io) CELL_GCM_MAX_IO_MAPPINGS"

definition find_free_mapping :: "gcm_io \<Rightarrow> nat option" where
  "find_free_mapping s = find_slot (\<lambda>i. \<not> im_active (io_mappings s i)) CELL_GCM_MAX_IO_MAPPINGS"

text \<open>Filling a slot and marking its pages, in this order everywhere.\<close>

definition add_mapping :: "nat \<Rightarrow> u32 \<Rightarrow> u32 \<Rightarrow> u32 \<Rightarrow> gcm_io \<Rightarrow> gcm_io" where
  "add_mapping i ea io sz s =
     gcm_io_pages_mark ea sz
       (s\<lparr>io_mappings := (io_mappings s)(i := \<lparr>im_ea = ea, im_io = io, im_size = sz, im_active = True\<rparr>),
          io_mapping_count := io_mapping_count s + 1\<rparr>)"

section \<open>Starting and stopping\<close>

definition reset_maps :: "gcm_io \<Rightarrow> gcm_io" where
  "reset_maps s = gcm_io_pages_clear
     (s\<lparr>io_mappings := \<lambda>_. no_mapping, io_mapping_count := 0, io_map_reserved := 0,
        io_address_table := \<lambda>_. 0xFFFF, ea_address_table := \<lambda>_. 0xFFFF\<rparr>)"

definition cellGcmInit :: "u32 \<Rightarrow> u32 \<Rightarrow> gcm_io \<Rightarrow> u32 \<times> gcm_io" where
  "cellGcmInit ioSize ioAddress s =
     (if gcm_initialized s then (CELL_GCM_ERROR_FAILURE, s)
      else let s = (reset_maps s)\<lparr>local_address := 0xC0000000, local_size := 256 * 1024 * 1024,
                     io_address := ioAddress, io_size := ioSize\<rparr>;
               s = (if ioAddress \<noteq> 0 \<and> ioSize > 0
                    then add_mapping 0 ioAddress 0 ioSize (populate_offset_table ioAddress 0 ioSize s) else s)
           in (0, s\<lparr>gcm_initialized := True\<rparr>))"

definition cellGcmTerminate :: "gcm_io \<Rightarrow> gcm_io" where
  "cellGcmTerminate s =
     (reset_maps s)\<lparr>gcm_initialized := False, local_address := 0, local_size := 0, io_address := 0, io_size := 0\<rparr>"

section \<open>Mapping\<close>

definition gcm_io_alloc :: "u32 \<Rightarrow> gcm_io \<Rightarrow> u32 \<times> gcm_io" where
  "gcm_io_alloc sz s =
     (let n = io_alloc_next s;
          n = (if n = 0 then (io_size s + 0xFFFFF) AND NOT 0xFFFFF else n);
          n = (if n < 0x100000 then 0x100000 else n)
      in (n, s\<lparr>io_alloc_next := n + ((sz + 0xFFFFF) AND NOT 0xFFFFF)\<rparr>))"

text \<open>The result code, and the offset stored.\<close>

definition cellGcmMapMainMemory :: "u32 \<Rightarrow> u32 \<Rightarrow> gcm_io \<Rightarrow> u32 \<times> u32 option \<times> gcm_io" where
  "cellGcmMapMainMemory ea sz s =
     (if sz = 0 \<or> sz AND 0xFFFFF \<noteq> 0 then (CELL_GCM_ERROR_INVALID_ALIGNMENT, None, s)
      else if ea AND 0xFFFFF \<noteq> 0 then (CELL_GCM_ERROR_INVALID_ALIGNMENT, None, s)
      else let (io_offset, s) = gcm_io_alloc sz s
           in case find_free_mapping s of
                None \<Rightarrow> (CELL_GCM_ERROR_FAILURE, None, s)
              | Some i \<Rightarrow> (0, Some io_offset, populate_offset_table ea io_offset sz (add_mapping i ea io_offset sz s)))"

definition cellGcmMapEaIoAddress :: "u32 \<Rightarrow> u32 \<Rightarrow> u32 \<Rightarrow> gcm_io \<Rightarrow> u32 \<times> gcm_io" where
  "cellGcmMapEaIoAddress ea io sz s =
     (if ea AND 0xFFFFF \<noteq> 0 \<or> io AND 0xFFFFF \<noteq> 0 then (CELL_GCM_ERROR_INVALID_ALIGNMENT, s)
      else if sz = 0 \<or> sz AND 0xFFFFF \<noteq> 0 then (CELL_GCM_ERROR_INVALID_ALIGNMENT, s)
      else if find_mapping_by_ea s ea \<noteq> None then (CELL_GCM_ERROR_ADDRESS_OVERWRAP, s)
      else case find_free_mapping s of
             None \<Rightarrow> (CELL_GCM_ERROR_FAILURE, s)
           | Some i \<Rightarrow> (0, populate_offset_table ea io sz (add_mapping i ea io sz s)))"

definition remove_mapping :: "nat \<Rightarrow> gcm_io \<Rightarrow> gcm_io" where
  "remove_mapping i s =
     (let m = io_mappings s i;
          s = clear_offset_table (im_ea m) (im_io m) (im_size m) s
      in s\<lparr>io_mappings := (io_mappings s)(i := m\<lparr>im_active := False\<rparr>), io_mapping_count := io_mapping_count s - 1\<rparr>)"

definition cellGcmUnmapEaIoAddress :: "u32 \<Rightarrow> gcm_io \<Rightarrow> u32 \<times> gcm_io" where
  "cellGcmUnmapEaIoAddress ea s =
     (case find_mapping_by_ea s ea of None \<Rightarrow> (CELL_GCM_ERROR_FAILURE, s) | Some i \<Rightarrow> (0, remove_mapping i s))"

definition cellGcmUnmapIoAddress :: "u32 \<Rightarrow> gcm_io \<Rightarrow> u32 \<times> gcm_io" where
  "cellGcmUnmapIoAddress io s =
     (case find_mapping_by_io s io of None \<Rightarrow> (CELL_GCM_ERROR_FAILURE, s) | Some i \<Rightarrow> (0, remove_mapping i s))"

text \<open>The maps of the system call path.\<close>

definition cellGcm_syscall_iomap :: "u32 \<Rightarrow> u32 \<Rightarrow> u32 \<Rightarrow> gcm_io \<Rightarrow> gcm_io" where
  "cellGcm_syscall_iomap ea io sz s =
     (let s = populate_offset_table ea io sz s;
          s = (if io_mapping_count s < int CELL_GCM_MAX_IO_MAPPINGS
               then add_mapping (nat (io_mapping_count s)) ea io sz s else s)
      in if io_size s = 0 then s\<lparr>io_address := ea, io_size := sz\<rparr> else s)"

definition cellGcm_syscall_iounmap :: "u32 \<Rightarrow> u32 \<Rightarrow> gcm_io \<Rightarrow> gcm_io" where
  "cellGcm_syscall_iounmap io sz s =
     (let p = page io;
          ea = (if p < 65536 \<and> ea_address_table s p \<noteq> 0xFFFF then push_bit 20 (ucast (ea_address_table s p)) else 0)
      in if ea \<noteq> 0 then clear_offset_table ea io sz s else s)"

definition cellGcmGetMaxIoMapSize :: "gcm_io \<Rightarrow> u32" where
  "cellGcmGetMaxIoMapSize s =
     (let total_io = 256 * 1024 * 1024;
          used = sum_list (map (\<lambda>i. if im_active (io_mappings s i) then im_size (io_mappings s i) else 0) [0..<CELL_GCM_MAX_IO_MAPPINGS])
      in if used < total_io then total_io - used else 0)"

definition cellGcmReserveIoMapSize :: "u32 \<Rightarrow> gcm_io \<Rightarrow> u32 \<times> gcm_io" where
  "cellGcmReserveIoMapSize sz s =
     (if sz > cellGcmGetMaxIoMapSize s - io_map_reserved s then (CELL_GCM_ERROR_FAILURE, s)
      else (0, s\<lparr>io_map_reserved := io_map_reserved s + sz\<rparr>))"

definition cellGcmUnreserveIoMapSize :: "u32 \<Rightarrow> gcm_io \<Rightarrow> u32 \<times> gcm_io" where
  "cellGcmUnreserveIoMapSize sz s =
     (if sz > io_map_reserved s then (CELL_GCM_ERROR_FAILURE, s)
      else (0, s\<lparr>io_map_reserved := io_map_reserved s - sz\<rparr>))"

section \<open>Translation\<close>

definition with_page :: "u16 \<Rightarrow> u32 \<Rightarrow> u32" where
  "with_page p a = push_bit 20 (ucast p) OR (a AND 0xFFFFF)"

definition gcm_io2ea :: "gcm_io \<Rightarrow> u32 \<Rightarrow> u32" where
  "gcm_io2ea s io =
     (if page io \<ge> 65536 then 0
      else if ea_address_table s (page io) = 0xFFFF then 0 else with_page (ea_address_table s (page io)) io)"

definition gcm_ea2io :: "gcm_io \<Rightarrow> u32 \<Rightarrow> u32" where
  "gcm_ea2io s ea =
     (if page ea \<ge> 65536 then 0xFFFFFFFF
      else if io_address_table s (page ea) = 0xFFFF then 0xFFFFFFFF else with_page (io_address_table s (page ea)) ea)"

text \<open>The scan of the list; \<open>filter\<close> is the mode of the filter, \<open>room\<close> the second result.\<close>

fun scan_mappings :: "gcm_io \<Rightarrow> u32 \<Rightarrow> nat list \<Rightarrow> (u32 \<times> u32) option" where
  "scan_mappings s ea [] = None"
| "scan_mappings s ea (i # is) =
     (let m = io_mappings s i
      in if \<not> im_active m \<or> im_size m = 0 then scan_mappings s ea is
         else if ea \<ge> im_ea m \<and> ea < im_ea m + im_size m then Some (im_io m + (ea - im_ea m), im_ea m + im_size m - ea)
         else scan_mappings s ea is)"

definition gcm_ea2io_range :: "int \<Rightarrow> gcm_io \<Rightarrow> u32 \<Rightarrow> u32 \<times> u32 option" where
  "gcm_ea2io_range mode s ea =
     (let maybe = (if mode \<noteq> 0 then gcm_io_page_maybe s ea else True)
      in if \<not> maybe \<and> mode \<noteq> 2 then (0xFFFFFFFF, None)
         else case scan_mappings s ea [0..<CELL_GCM_MAX_IO_MAPPINGS] of
                None \<Rightarrow> (0xFFFFFFFF, None)
              | Some (io, room) \<Rightarrow> (io, Some room))"

definition cellGcmAddressToOffset :: "u32 \<Rightarrow> gcm_io \<Rightarrow> u32 \<times> u32 \<times> gcm_io" where
  "cellGcmAddressToOffset address s =
     (if address \<ge> local_address s \<and> address < local_address s + local_size s
      then let loff = address - local_address s
           in (0, loff, if page loff < 1024 then s\<lparr>local_offset_page := (local_offset_page s)(page loff := True)\<rparr> else s)
      else if page address < 65536 \<and> io_address_table s (page address) \<noteq> 0xFFFF
      then (0, with_page (io_address_table s (page address)) address, s)
      else if io_address s \<noteq> 0 \<and> address \<ge> io_address s \<and> address < io_address s + io_size s
      then (0, address - io_address s, s)
      else if address < 0x100000 then (CELL_GCM_ERROR_INVALID_VALUE, 0, s)
      else let auto_map_limit = (if local_address s \<noteq> 0 then local_address s else 0x40000000)
           in if address < auto_map_limit
              then let ea_page = address AND NOT 0xFFFFF;
                       (io, s) = gcm_io_alloc 0x100000 s;
                       s = populate_offset_table ea_page io 0x100000 s;
                       s = (case find_free_mapping s of None \<Rightarrow> s | Some i \<Rightarrow> add_mapping i ea_page io 0x100000 s)
                   in (0, io OR (address AND 0xFFFFF), s)
              else (CELL_GCM_ERROR_FAILURE, 0, s))"

definition cellGcmIoOffsetToAddress :: "gcm_io \<Rightarrow> u32 \<Rightarrow> u32 \<times> u32" where
  "cellGcmIoOffsetToAddress s ioOffset =
     (if page ioOffset < 65536 \<and> ea_address_table s (page ioOffset) \<noteq> 0xFFFF
      then (0, with_page (ea_address_table s (page ioOffset)) ioOffset)
      else (CELL_GCM_ERROR_FAILURE, 0))"

definition cellGcmResolveIO :: "gcm_io \<Rightarrow> u32 \<Rightarrow> u32" where
  "cellGcmResolveIO s offset =
     (if page offset < 65536 \<and> ea_address_table s (page offset) \<noteq> 0 \<and> ea_address_table s (page offset) \<noteq> 0xFFFF
      then with_page (ea_address_table s (page offset)) offset else 0)"

definition cellGcmResolveOffset :: "gcm_io \<Rightarrow> u32 \<Rightarrow> u32" where
  "cellGcmResolveOffset s offset =
     (if page offset < 1024 \<and> local_offset_page s (page offset) then local_address s + offset
      else if page offset < 65536 \<and> ea_address_table s (page offset) \<noteq> 0 \<and> ea_address_table s (page offset) \<noteq> 0xFFFF
      then with_page (ea_address_table s (page offset)) offset
      else local_address s + offset)"

definition cellGcmResolveLocated :: "bool \<Rightarrow> gcm_io \<Rightarrow> u32 \<Rightarrow> u32" where
  "cellGcmResolveLocated local s offset =
     (if local then local_address s + offset
      else let ea = cellGcmResolveIO s offset in if ea \<noteq> 0 then ea else cellGcmResolveOffset s offset)"

section \<open>The filter\<close>

lemma page_div: "page a = unat a div 1048576"
  using unat_div [of a "2 ^ 20"] by (simp add: page_def drop_bit_eq_div)

text \<open>Every address a mapping of the list holds has its page marked.\<close>

definition pages_inv :: "gcm_io \<Rightarrow> bool" where
  "pages_inv s \<longleftrightarrow> (\<forall>i ea. im_active (io_mappings s i) \<longrightarrow> im_ea (io_mappings s i) \<le> ea \<longrightarrow>
     ea < im_ea (io_mappings s i) + im_size (io_mappings s i) \<longrightarrow> io_pages s (page ea))"

lemma mark_covers:
  assumes "ea \<le> a" "a < ea + sz"
  shows "io_pages (gcm_io_pages_mark ea sz s) (page a)"
proof -
  have nz: "sz \<noteq> 0" using assms by auto
  have "unat a < unat (ea + sz)" "unat ea \<le> unat a" using assms by (simp_all add: word_less_nat_alt word_le_nat_alt)
  then have nowrap: "unat ea + unat sz < 4294967296" and lt: "unat a < unat ea + unat sz"
    using unat_plus_if' [of ea sz] u32_bound [of ea] u32_bound [of sz] by (auto split: if_splits)
  let ?f = "(ucast ea :: u64) + ucast sz"
  have f: "unat ?f = unat ea + unat sz" using nowrap by (simp add: unat_word_ariths)
  have "\<not> ?f > 0x100000000" using nowrap f by (simp add: word_less_nat_alt)
  moreover have "unat (?f - 1) = unat ea + unat sz - 1"
  proof -
    have "1 \<le> ?f" using f lt by (simp add: word_le_nat_alt)
    then show ?thesis by (simp add: unat_sub f)
  qed
  then have "unat (drop_bit 20 (?f - 1)) = (unat ea + unat sz - 1) div 1048576"
    using unat_div [of "?f - 1" "2 ^ 20"] by (simp add: drop_bit_eq_div)
  then have "unat (ucast (drop_bit 20 (?f - 1)) :: u32) = (unat ea + unat sz - 1) div 1048576"
    using nowrap by (simp add: unsigned_ucast_eq take_bit_nat_eq_self)
  moreover have "page a \<le> (unat ea + unat sz - 1) div 1048576" using lt unfolding page_div by (intro div_le_mono) simp
  moreover have "page ea \<le> page a" unfolding page_div using \<open>unat ea \<le> unat a\<close> by (rule div_le_mono)
  ultimately show ?thesis using nz by (simp add: gcm_io_pages_mark_def Let_def)
qed

lemma mark_mappings: "io_mappings (gcm_io_pages_mark ea sz s) = io_mappings s"
  "io_pages s p \<Longrightarrow> io_pages (gcm_io_pages_mark ea sz s) p"
  by (simp_all add: gcm_io_pages_mark_def Let_def)

lemma add_mapping_inv: "pages_inv s \<Longrightarrow> pages_inv (add_mapping i ea io sz s)"
  by (auto simp: pages_inv_def add_mapping_def mark_mappings mark_covers)

lemma pages_inv_frame: "pages_inv s \<Longrightarrow> io_mappings s' = io_mappings s \<Longrightarrow> io_pages s' = io_pages s \<Longrightarrow> pages_inv s'"
  by (simp add: pages_inv_def)

lemma fold_frame: "(\<And>i s. f (g i s) = f s) \<Longrightarrow> f (fold g xs s) = f s"
  by (induction xs arbitrary: s) simp_all

lemma populate_frame:
  "io_mappings (populate_offset_table ea io sz s) = io_mappings s" "io_pages (populate_offset_table ea io sz s) = io_pages s"
  "local_address (populate_offset_table ea io sz s) = local_address s" "local_size (populate_offset_table ea io sz s) = local_size s"
  "io_mapping_count (populate_offset_table ea io sz s) = io_mapping_count s" "io_size (populate_offset_table ea io sz s) = io_size s"
  "io_alloc_next (populate_offset_table ea io sz s) = io_alloc_next s"
  unfolding populate_offset_table_def Let_def by (simp_all add: fold_frame)

lemma clear_frame:
  "io_mappings (clear_offset_table ea io sz s) = io_mappings s" "io_pages (clear_offset_table ea io sz s) = io_pages s"
  unfolding clear_offset_table_def Let_def by (simp_all add: fold_frame)

lemma populate_inv: "pages_inv s \<Longrightarrow> pages_inv (populate_offset_table ea io sz s)"
  by (rule pages_inv_frame) (simp_all add: populate_frame)

lemma clear_inv: "pages_inv s \<Longrightarrow> pages_inv (clear_offset_table ea io sz s)"
  by (rule pages_inv_frame) (simp_all add: clear_frame)

lemma remove_mapping_inv: "pages_inv s \<Longrightarrow> pages_inv (remove_mapping i s)"
  by (auto simp: remove_mapping_def Let_def pages_inv_def clear_frame)

lemma alloc_frame: "io_mappings (snd (gcm_io_alloc sz s)) = io_mappings s" "io_pages (snd (gcm_io_alloc sz s)) = io_pages s"
  by (simp_all add: gcm_io_alloc_def Let_def)

lemma reset_maps_inv: "pages_inv (reset_maps s)"
  by (simp add: reset_maps_def gcm_io_pages_clear_def pages_inv_def no_mapping_def)

text \<open>The calls, in any order and with any arguments.\<close>

inductive gcm_reachable :: "gcm_io \<Rightarrow> bool" where
  start: "gcm_reachable gcm_start"
| init: "gcm_reachable s \<Longrightarrow> gcm_reachable (snd (cellGcmInit ioSize ioAddress s))"
| terminate: "gcm_reachable s \<Longrightarrow> gcm_reachable (cellGcmTerminate s)"
| map_main: "gcm_reachable s \<Longrightarrow> gcm_reachable (snd (snd (cellGcmMapMainMemory ea sz s)))"
| map_ea_io: "gcm_reachable s \<Longrightarrow> gcm_reachable (snd (cellGcmMapEaIoAddress ea io sz s))"
| unmap_ea: "gcm_reachable s \<Longrightarrow> gcm_reachable (snd (cellGcmUnmapEaIoAddress ea s))"
| unmap_io: "gcm_reachable s \<Longrightarrow> gcm_reachable (snd (cellGcmUnmapIoAddress io s))"
| iomap: "gcm_reachable s \<Longrightarrow> gcm_reachable (cellGcm_syscall_iomap ea io sz s)"
| iounmap: "gcm_reachable s \<Longrightarrow> gcm_reachable (cellGcm_syscall_iounmap io sz s)"
| to_offset: "gcm_reachable s \<Longrightarrow> gcm_reachable (snd (snd (cellGcmAddressToOffset ea s)))"
| reserve: "gcm_reachable s \<Longrightarrow> gcm_reachable (snd (cellGcmReserveIoMapSize sz s))"
| unreserve: "gcm_reachable s \<Longrightarrow> gcm_reachable (snd (cellGcmUnreserveIoMapSize sz s))"

lemmas gcm_inv_rules = add_mapping_inv populate_inv clear_inv remove_mapping_inv reset_maps_inv

lemma reachable_pages_inv: "gcm_reachable s \<Longrightarrow> pages_inv s"
proof (induction rule: gcm_reachable.induct)
  case start
  show ?case by (simp add: pages_inv_def gcm_start_def no_mapping_def)
next
  case (init s ioSize ioAddress)
  have "pages_inv ((reset_maps s)\<lparr>local_address := a, local_size := b, io_address := c, io_size := d\<rparr>)" for a b c d
    using reset_maps_inv [of s] by (rule pages_inv_frame) simp_all
  note add_mapping_inv [OF populate_inv [OF this]] this
  then show ?case using init by (auto simp: cellGcmInit_def Let_def pages_inv_def)
next
  case (terminate s)
  show ?case using reset_maps_inv [of s] by (rule pages_inv_frame) (simp_all add: cellGcmTerminate_def)
next
  case (map_main s ea sz)
  have "pages_inv (snd (gcm_io_alloc sz s))" using map_main.IH by (rule pages_inv_frame) (simp_all add: alloc_frame)
  then show ?case using map_main.IH by (auto simp: cellGcmMapMainMemory_def gcm_inv_rules split: option.splits prod.splits)
next
  case (map_ea_io s ea io sz)
  then show ?case by (auto simp: cellGcmMapEaIoAddress_def gcm_inv_rules split: option.splits)
next
  case (unmap_ea s ea)
  then show ?case by (auto simp: cellGcmUnmapEaIoAddress_def gcm_inv_rules split: option.splits)
next
  case (unmap_io s io)
  then show ?case by (auto simp: cellGcmUnmapIoAddress_def gcm_inv_rules split: option.splits)
next
  case (iomap s ea io sz)
  then have "pages_inv (add_mapping i ea io sz (populate_offset_table ea io sz s))" "pages_inv (populate_offset_table ea io sz s)" for i
    by (simp_all add: gcm_inv_rules)
  then show ?case by (auto simp: cellGcm_syscall_iomap_def Let_def pages_inv_def)
next
  case (iounmap s io sz)
  then show ?case by (simp add: cellGcm_syscall_iounmap_def Let_def gcm_inv_rules)
next
  case (to_offset s ea)
  have al: "pages_inv y" if "gcm_io_alloc z s = (x, y)" for x y z
    using to_offset.IH by (rule pages_inv_frame) (use that alloc_frame [of z s] in simp_all)
  have lo: "pages_inv (s\<lparr>local_offset_page := f\<rparr>)" for f using to_offset.IH by (rule pages_inv_frame) simp_all
  show ?case using to_offset.IH al lo
    by (auto simp: cellGcmAddressToOffset_def gcm_inv_rules Let_def split: option.splits prod.splits)
next
  case (reserve s sz)
  then show ?case by (auto simp: cellGcmReserveIoMapSize_def pages_inv_def)
next
  case (unreserve s sz)
  then show ?case by (auto simp: cellGcmUnreserveIoMapSize_def pages_inv_def)
qed

lemma scan_unmarked: "pages_inv s \<Longrightarrow> \<not> io_pages s (page ea) \<Longrightarrow> scan_mappings s ea is = None"
  by (induction "is") (auto simp: pages_inv_def Let_def)

text \<open>
  C18. The page filter of the SPU put path never changes an answer: whatever calls have mapped and
  unmapped memory, the lookup of an address that trusts the page bits gives the offset and the room
  the scan of the whole list gives, in every mode of the filter.
\<close>

theorem put_filter_exact:
  assumes "gcm_reachable s"
  shows "gcm_ea2io_range mode s ea = gcm_ea2io_range 0 s ea"
  using scan_unmarked [OF reachable_pages_inv [OF assms]]
  by (simp add: gcm_ea2io_range_def gcm_io_page_maybe_def Let_def split: option.splits)

theorem put_filter_exact_witness:
  "\<forall>ea. gcm_ea2io_range 1 (snd (cellGcmMapEaIoAddress 0x30000000 0x200000 0x100000 gcm_start)) ea =
     gcm_ea2io_range 0 (snd (cellGcmMapEaIoAddress 0x30000000 0x200000 0x100000 gcm_start)) ea"
  using put_filter_exact [OF gcm_reachable.map_ea_io [OF gcm_reachable.start]] by blast

section \<open>The page tables\<close>

lemma populate_tables:
  fixes ea io sz :: u32
  defines "n \<equiv> unat (drop_bit 20 (sz + 0xFFFFF))"
  assumes "page ea + n \<le> 65536" "page io + n \<le> 65536"
  shows "io_address_table (populate_offset_table ea io sz s) p =
      (if page ea \<le> p \<and> p < page ea + n then of_nat (page io + (p - page ea)) else io_address_table s p) \<and>
    ea_address_table (populate_offset_table ea io sz s) p =
      (if page io \<le> p \<and> p < page io + n then of_nat (page ea + (p - page io)) else ea_address_table s p)"
proof -
  let ?f = "\<lambda>i s. if page ea + i < 65536 \<and> page io + i < 65536
    then s\<lparr>io_address_table := (io_address_table s)(page ea + i := of_nat (page io + i)),
           ea_address_table := (ea_address_table s)(page io + i := of_nat (page ea + i))\<rparr> else s"
  have "page ea + k \<le> 65536 \<Longrightarrow> page io + k \<le> 65536 \<Longrightarrow>
    io_address_table (fold ?f [0..<k] s) p =
      (if page ea \<le> p \<and> p < page ea + k then of_nat (page io + (p - page ea)) else io_address_table s p) \<and>
    ea_address_table (fold ?f [0..<k] s) p =
      (if page io \<le> p \<and> p < page io + k then of_nat (page ea + (p - page io)) else ea_address_table s p)" for k
  proof (induction k)
    case (Suc k)
    then show ?case by (auto simp: less_Suc_eq)
  qed auto
  from this [OF assms(2,3)] show ?thesis unfolding populate_offset_table_def Let_def n_def .
qed

lemma page_lt: "page a < 4096"
  using u32_bound [of a] by (simp add: page_div less_mult_imp_div_less)

text \<open>An address is the number of its page and its place in it.\<close>

lemma unat_low: "unat ((a :: u32) AND 0xFFFFF) = unat a mod 1048576"
proof -
  have "a AND 0xFFFFF = take_bit 20 a" by (simp add: take_bit_eq_mask mask_eq_exp_minus_1)
  then show ?thesis by (simp only: unsigned_take_bit_eq) (simp add: take_bit_eq_mod)
qed

lemma unat_with_page:
  assumes "unat p < 4096" shows "unat (with_page p a) = unat p * 1048576 + unat a mod 1048576"
proof -
  have d: "push_bit 20 (ucast p) AND (a AND 0xFFFFF) = (0 :: u32)"
  proof -
    have "push_bit 20 w AND (a AND mask 20) = (0 :: u32)" for w by (rule bit_word_eqI) (auto simp: bit_simps)
    from this [of "ucast p"] show ?thesis by (simp add: mask_eq_exp_minus_1)
  qed
  have u: "unat (ucast p :: u32) = unat p" using assms by (simp add: unsigned_ucast_eq take_bit_nat_eq_self)
  have "unat (push_bit 20 (ucast p) :: u32) = unat p * 1048576"
    using assms u by (simp add: push_bit_eq_mult unat_word_ariths)
  moreover have "with_page p a = push_bit 20 (ucast p) + (a AND 0xFFFFF)"
    unfolding with_page_def by (rule disjunctive_add_eq_or [OF d, symmetric])
  moreover have "unat a mod 1048576 < 1048576" by simp
  ultimately show ?thesis using assms by (simp only: unat_word_ariths unat_low) simp
qed

text \<open>The offset of an address in a range of whole pages, either way.\<close>

lemma page_of_sum:
  fixes a :: u32
  assumes "1048576 dvd unat a" "unat a + d < 4294967296"
  shows "page (a + of_nat d) = page a + d div 1048576" "unat (a + of_nat d) mod 1048576 = d mod 1048576" "unat (a + of_nat d) = unat a + d"
proof -
  have "unat (of_nat d :: u32) = d" using assms(2) by (simp only: unat_of_nat) (simp add: take_bit_nat_eq_self)
  then show u: "unat (a + of_nat d) = unat a + d" using assms(2) by (simp add: unat_word_ariths)
  show "page (a + of_nat d) = page a + d div 1048576" unfolding page_div u using assms(1) by (auto simp: dvd_def)
  show "unat (a + of_nat d) mod 1048576 = d mod 1048576" unfolding u using assms(1) by (auto simp: dvd_def)
qed

lemma aligned_dvd: "(a :: u32) AND 0xFFFFF = 0 \<Longrightarrow> 1048576 dvd unat a"
  using unat_low [of a] by (simp add: dvd_eq_mod_eq_0)

lemma with_page_sum:
  fixes a b :: u32
  assumes "1048576 dvd unat a" "1048576 dvd unat b" "unat a + d < 4294967296" "unat b + d < 4294967296"
  shows "with_page (of_nat (page b + d div 1048576)) (a + of_nat d) = b + of_nat d" "(of_nat (page b + d div 1048576) :: u16) \<noteq> 0xFFFF"
proof -
  have "page (b + of_nat d) < 4096" by (rule page_lt)
  then have lt: "page b + d div 1048576 < 4096" using page_of_sum(1) [OF assms(2,4)] by simp
  then have u: "unat (of_nat (page b + d div 1048576) :: u16) = page b + d div 1048576"
    by (simp only: unat_of_nat) (simp add: take_bit_nat_eq_self)
  show "(of_nat (page b + d div 1048576) :: u16) \<noteq> 0xFFFF" using u lt by (auto simp: word_unat_eq_iff)
  have "unat (with_page (of_nat (page b + d div 1048576)) (a + of_nat d)) = (page b + d div 1048576) * 1048576 + d mod 1048576"
    using unat_with_page [of "of_nat (page b + d div 1048576)" "a + of_nat d"] u lt page_of_sum(2) [OF assms(1,3)] by simp
  also have "\<dots> = unat b + d"
    using assms(2) mult_div_mod_eq [of 1048576 d] by (auto simp: page_div dvd_def algebra_simps)
  finally show "with_page (of_nat (page b + d div 1048576)) (a + of_nat d) = b + of_nat d"
    using page_of_sum(3) [OF assms(2,4)] by (simp add: word_unat_eq_iff)
qed

lemma pages_of_size:
  fixes sz :: u32
  assumes "sz AND 0xFFFFF = 0" shows "unat (drop_bit 20 (sz + 0xFFFFF)) = unat sz div 1048576"
proof -
  obtain k where k: "unat sz = 1048576 * k" using aligned_dvd [OF assms] by (auto simp: dvd_def)
  then have "unat (sz + 0xFFFFF) = unat sz + 1048575" using u32_bound [of sz] by (simp add: unat_word_ariths)
  then show ?thesis using k page_div [of "sz + 0xFFFFF"] by (simp add: page_def)
qed

lemma populate_translates:
  fixes ea io sz :: u32 and s :: gcm_io
  assumes al: "ea AND 0xFFFFF = 0" "io AND 0xFFFFF = 0" "sz AND 0xFFFFF = 0"
    and fit: "unat ea + unat sz \<le> 4294967296" "unat io + unat sz \<le> 4294967296" and d: "d < unat sz"
  defines "s' \<equiv> populate_offset_table ea io sz s"
  shows "io_address_table s' (page (ea + of_nat d)) = of_nat (page io + d div 1048576)"
    "ea_address_table s' (page (io + of_nat d)) = of_nat (page ea + d div 1048576)"
proof -
  let ?n = "unat (drop_bit 20 (sz + 0xFFFFF))"
  note dv = aligned_dvd [OF al(1)] aligned_dvd [OF al(2)]
  have n: "?n = unat sz div 1048576" by (rule pages_of_size [OF al(3)])
  obtain k where k: "unat sz = 1048576 * k" using aligned_dvd [OF al(3)] by (auto simp: dvd_def)
  then have dn: "d div 1048576 < ?n" using d n by (simp add: less_mult_imp_div_less mult.commute)
  have bnd: "?n \<le> 4096" using n u32_bound [of sz] by (simp add: k)
  have pe: "page (ea + of_nat d) = page ea + d div 1048576" "page (io + of_nat d) = page io + d div 1048576"
    using page_of_sum(1) [OF dv(1), of d] page_of_sum(1) [OF dv(2), of d] d fit by simp_all
  have "page ea + ?n \<le> 65536" "page io + ?n \<le> 65536" using page_lt [of ea] page_lt [of io] bnd by simp_all
  note tab = populate_tables [OF this, of s]
  show "io_address_table s' (page (ea + of_nat d)) = of_nat (page io + d div 1048576)"
    using tab [of "page ea + d div 1048576"] dn unfolding pe s'_def by simp
  show "ea_address_table s' (page (io + of_nat d)) = of_nat (page ea + d div 1048576)"
    using tab [of "page io + d div 1048576"] dn unfolding pe s'_def by simp
qed

text \<open>The allocator of IO space hands out whole pages.\<close>

lemma alloc_next_frame:
  "io_alloc_next (add_mapping i ea io sz s) = io_alloc_next s" "io_alloc_next (reset_maps s) = io_alloc_next s"
  "io_alloc_next (clear_offset_table ea io sz s) = io_alloc_next s" "io_alloc_next (remove_mapping i s) = io_alloc_next s"
proof -
  show c: "io_alloc_next (clear_offset_table ea io sz s) = io_alloc_next s" for ea io sz s
    unfolding clear_offset_table_def Let_def by (simp add: fold_frame)
  show "io_alloc_next (remove_mapping i s) = io_alloc_next s" by (simp add: remove_mapping_def Let_def c)
qed (simp_all add: add_mapping_def gcm_io_pages_mark_def reset_maps_def gcm_io_pages_clear_def Let_def)

lemma low_iff: "(a :: u32) AND 0xFFFFF = 0 \<longleftrightarrow> 1048576 dvd unat a"
  by (simp only: word_unat_eq_iff unat_low dvd_eq_mod_eq_0 unat_0)

lemma low_plus:
  fixes a b :: u32
  assumes "1048576 dvd unat a" "1048576 dvd unat b" shows "1048576 dvd unat (a + b)"
proof -
  have "1048576 dvd (4294967296 :: nat)" by simp
  then show ?thesis using assms by (simp add: unat_word_ariths dvd_mod)
qed

lemma low_rounded: "1048576 dvd unat ((a :: u32) AND NOT 0xFFFFF)"
proof -
  have "(0xFFFFF :: u32) = mask 20" by (simp add: mask_eq_exp_minus_1)
  then have "unat (a AND NOT 0xFFFFF) = unat a div 2 ^ 20 * 2 ^ 20" by (simp only: unat_and_not_mask)
  then show ?thesis by simp
qed

lemma alloc_aligned:
  assumes "1048576 dvd unat (io_alloc_next s)"
  shows "1048576 dvd unat (fst (gcm_io_alloc sz s))" "1048576 dvd unat (io_alloc_next (snd (gcm_io_alloc sz s)))"
proof -
  have a: "1048576 dvd unat (fst (gcm_io_alloc sz s))" 
    unfolding gcm_io_alloc_def Let_def fst_conv using assms low_rounded [of "io_size s + 0xFFFFF"] by auto
  then show "1048576 dvd unat (fst (gcm_io_alloc sz s))" .
  have "io_alloc_next (snd (gcm_io_alloc sz s)) = fst (gcm_io_alloc sz s) + ((sz + 0xFFFFF) AND NOT 0xFFFFF)"
    by (simp add: gcm_io_alloc_def Let_def)
  then show "1048576 dvd unat (io_alloc_next (snd (gcm_io_alloc sz s)))" using low_plus [OF a low_rounded] by (simp only:)
qed

lemma reachable_alloc_aligned: "gcm_reachable s \<Longrightarrow> 1048576 dvd unat (io_alloc_next s)"
proof (induction rule: gcm_reachable.induct)
  case start
  show ?case by (simp add: gcm_start_def)
next
  case (map_main s ea sz)
  then show ?case using alloc_aligned [of s sz]
    by (auto simp: cellGcmMapMainMemory_def alloc_next_frame populate_frame split: option.splits prod.splits)
next
  case (to_offset s ea)
  have "1048576 dvd unat (io_alloc_next y)" if "gcm_io_alloc z s = (x, y)" for x y z
    using alloc_aligned [OF to_offset.IH, of z] that by simp
  then show ?case using to_offset.IH
    by (auto simp: cellGcmAddressToOffset_def alloc_next_frame populate_frame Let_def split: option.splits prod.splits)
next
  case (init s ioSize ioAddress)
  then show ?case by (simp add: cellGcmInit_def alloc_next_frame populate_frame Let_def)
next
  case (iomap s ea io sz)
  then show ?case by (simp add: cellGcm_syscall_iomap_def alloc_next_frame populate_frame Let_def)
qed (auto simp: cellGcmTerminate_def cellGcmMapEaIoAddress_def cellGcmUnmapEaIoAddress_def cellGcmUnmapIoAddress_def
    cellGcm_syscall_iounmap_def cellGcmReserveIoMapSize_def cellGcmUnreserveIoMapSize_def alloc_next_frame populate_frame Let_def
    split: option.splits)

lemma mapped_cases:
  assumes r: "gcm_reachable s"
    and m: "cellGcmMapMainMemory ea sz s = (0, Some io, s') \<or> cellGcmMapEaIoAddress ea io sz s = (0, s')"
  obtains t where "s' = populate_offset_table ea io sz t" "local_address t = local_address s" "local_size t = local_size s"
    "ea AND 0xFFFFF = 0" "io AND 0xFFFFF = 0" "sz AND 0xFFFFF = 0"
proof -
  have fr: "local_address (add_mapping i ea io sz s) = local_address s" "local_size (add_mapping i ea io sz s) = local_size s"
    "local_address (snd (gcm_io_alloc sz s)) = local_address s" "local_size (snd (gcm_io_alloc sz s)) = local_size s" for i io s
    by (simp_all add: add_mapping_def gcm_io_pages_mark_def gcm_io_alloc_def Let_def)
  from m show thesis
  proof
    assume a: "cellGcmMapMainMemory ea sz s = (0, Some io, s')"
    obtain x y where xy: "gcm_io_alloc sz s = (x, y)" by fastforce
    have g: "sz \<noteq> 0" "sz AND 0xFFFFF = 0" "ea AND 0xFFFFF = 0"
      using a by (simp_all add: cellGcmMapMainMemory_def split: if_splits)
    have eq: "(case find_free_mapping y of None \<Rightarrow> (CELL_GCM_ERROR_FAILURE, None, y)
        | Some i \<Rightarrow> (0, Some x, populate_offset_table ea x sz (add_mapping i ea x sz y))) = (0, Some io, s')"
      using a g xy by (simp add: cellGcmMapMainMemory_def)
    then have "find_free_mapping y \<noteq> None" by (intro notI) simp
    then obtain i where "find_free_mapping y = Some i" by blast
    with eq have i: "s' = populate_offset_table ea io sz (add_mapping i ea io sz y)" "io = x" by auto
    have "x AND 0xFFFFF = 0" unfolding low_iff using alloc_aligned(1) [OF reachable_alloc_aligned [OF r], of sz] xy by simp
    then show thesis using i g fr(1,2) [of i io y] fr(3,4) [of s] xy by (intro that [of "add_mapping i ea io sz y"]) simp_all
  next
    assume a: "cellGcmMapEaIoAddress ea io sz s = (0, s')"
    have err: "CELL_GCM_ERROR_ADDRESS_OVERWRAP \<noteq> 0" "CELL_GCM_ERROR_INVALID_ALIGNMENT \<noteq> 0" "CELL_GCM_ERROR_FAILURE \<noteq> 0"
      by (simp_all add: CELL_GCM_ERROR_ADDRESS_OVERWRAP_def CELL_GCM_ERROR_INVALID_ALIGNMENT_def CELL_GCM_ERROR_FAILURE_def)
    then have g: "sz \<noteq> 0" "sz AND 0xFFFFF = 0" "ea AND 0xFFFFF = 0" "io AND 0xFFFFF = 0" "find_mapping_by_ea s ea = None"
      using a by (simp_all add: cellGcmMapEaIoAddress_def split: if_splits)
    then have eq: "(case find_free_mapping s of None \<Rightarrow> (CELL_GCM_ERROR_FAILURE, s)
        | Some i \<Rightarrow> (0, populate_offset_table ea io sz (add_mapping i ea io sz s))) = (0, s')"
      using a by (simp add: cellGcmMapEaIoAddress_def)
    then have "find_free_mapping s \<noteq> None" using err by (intro notI) simp
    then obtain i where "find_free_mapping s = Some i" by blast
    with eq have "s' = populate_offset_table ea io sz (add_mapping i ea io sz s)" by simp
    with g show thesis using fr by (intro that [of "add_mapping i ea io sz s"]) simp_all
  qed
qed

text \<open>
  C20. A mapping translates both ways: after cellGcmMapMainMemory or cellGcmMapEaIoAddress has
  answered CELL_OK, in any state calls can lead to, every address of the range and its IO offset
  are translated into each other, by the translations of the command processor and by the calls a
  title makes (for main memory below the local memory of the RSX).
\<close>

theorem io_map_roundtrip:
  assumes "gcm_reachable s"
    and "cellGcmMapMainMemory ea sz s = (0, Some io, s') \<or> cellGcmMapEaIoAddress ea io sz s = (0, s')"
    and "unat ea + unat sz \<le> 4294967296" "unat io + unat sz \<le> 4294967296" "d < unat sz"
    and "unat ea + unat sz \<le> unat (local_address s)"
  shows "cellGcmIoOffsetToAddress s' (io + of_nat d) = (0, ea + of_nat d) \<and> gcm_io2ea s' (io + of_nat d) = ea + of_nat d \<and>
    gcm_ea2io s' (ea + of_nat d) = io + of_nat d \<and> cellGcmAddressToOffset (ea + of_nat d) s' = (0, io + of_nat d, s')"
proof -
  obtain t where t: "s' = populate_offset_table ea io sz t" "local_address t = local_address s"
      and al: "ea AND 0xFFFFF = 0" "io AND 0xFFFFF = 0" "sz AND 0xFFFFF = 0"
    using mapped_cases [OF assms(1,2)] by metis
  note tab = populate_translates [OF al assms(3,4,5), of t, folded t(1)]
  have lt: "unat ea + d < 4294967296" "unat io + d < 4294967296" using assms(3-5) by simp_all
  note dv = aligned_dvd [OF al(1)] aligned_dvd [OF al(2)]
  have pg: "\<not> 65536 \<le> page a" "page a < 65536" for a using page_lt [of a] by simp_all
  have "\<not> local_address s' \<le> ea + of_nat d"
    using page_of_sum(3) [OF dv(1) lt(1)] assms(5,6) t by (simp add: populate_frame word_le_nat_alt)
  then show ?thesis
    using tab with_page_sum [OF dv lt] with_page_sum [OF dv(2,1) lt(2,1)] pg
    by (simp add: cellGcmIoOffsetToAddress_def gcm_io2ea_def gcm_ea2io_def cellGcmAddressToOffset_def)
qed

lemma upt_16: "[0..<16 :: nat] = [0, 1, 2, 3, 4, 5, 6, 7, 8, 9, 10, 11, 12, 13, 14, 15]"
  by code_simp

lemma upt_2: "[0..<2 :: nat] = [0, 1]"
  by code_simp

lemmas gcm_eval = gcm_start_def cellGcmInit_def reset_maps_def gcm_io_pages_clear_def cellGcmMapEaIoAddress_def
  cellGcmMapMainMemory_def cellGcmUnmapEaIoAddress_def remove_mapping_def find_mapping_by_ea_def find_free_mapping_def
  add_mapping_def gcm_io_pages_mark_def populate_offset_table_def clear_offset_table_def no_mapping_def page_def
  CELL_GCM_MAX_IO_MAPPINGS_def find_slot_def upt_16 upt_2 Let_def

theorem io_map_roundtrip_witness:
  "gcm_io2ea (snd (cellGcmMapEaIoAddress 0x30000000 0x200000 0x100000 (snd (cellGcmInit 0 0 gcm_start)))) 0x2ABCDE = 0x300ABCDE"
proof -
  let ?s = "snd (cellGcmInit 0 0 gcm_start)"
  have "gcm_reachable ?s" by (intro gcm_reachable.init gcm_reachable.start)
  moreover have "local_address ?s = 0xC0000000" by (simp add: gcm_eval)
  moreover have "fst (cellGcmMapEaIoAddress 0x30000000 0x200000 0x100000 ?s) = 0" by (simp add: gcm_eval)
  then have "cellGcmMapEaIoAddress 0x30000000 0x200000 0x100000 ?s = (0, snd (cellGcmMapEaIoAddress 0x30000000 0x200000 0x100000 ?s))"
    by (metis prod.collapse)
  ultimately show ?thesis
    using io_map_roundtrip [of ?s "0x30000000" "0x100000" "0x200000" _ "0xABCDE"] by simp
qed

section \<open>Where the books go wrong\<close>

text \<open>Unmapping a range whose size is not a whole number of pages leaves its last page translated.\<close>

lemma unmap_leaves_last_page:
  "let s = snd (cellGcmUnmapEaIoAddress 0x10000000 (snd (cellGcmInit 0x180000 0x10000000 gcm_start)))
   in gcm_io2ea s 0 = 0 \<and> gcm_io2ea s 0x100000 = 0x10100000"
  by (simp add: gcm_eval gcm_io2ea_def with_page_def)

text \<open>
  A map of the system call path takes the slot the number of mappings names, which an earlier
  unmapping may have left in use: the mapping in it is lost, although it was never unmapped.
\<close>

lemma iomap_overwrites:
  "let s = cellGcm_syscall_iomap 0x20000000 0x100000 0x100000 (cellGcm_syscall_iomap 0x10000000 0 0x100000 gcm_start);
       s' = cellGcm_syscall_iomap 0x30000000 0x200000 0x100000 (snd (cellGcmUnmapEaIoAddress 0x10000000 s))
   in find_mapping_by_ea s 0x20000000 = Some 1 \<and> find_mapping_by_ea s' 0x20000000 = None"
  by (simp add: gcm_eval cellGcm_syscall_iomap_def)

text \<open>Reserving compares with a difference that wraps when more is reserved than is left to map.\<close>

lemma reserve_wraps:
  "let s = snd (cellGcmReserveIoMapSize 0x10000000 gcm_start);
       s' = snd (cellGcmMapEaIoAddress 0x10000000 0 0x100000 s)
   in fst (cellGcmReserveIoMapSize 1 s) \<noteq> 0 \<and> fst (cellGcmReserveIoMapSize 0xF0000000 s') = 0"
  by (simp add: gcm_eval cellGcmReserveIoMapSize_def cellGcmGetMaxIoMapSize_def CELL_GCM_ERROR_FAILURE_def)

lemma find_free_after_init:
  "find_free_mapping (snd (gcm_io_alloc sz (snd (cellGcmInit ioSize ioAddress (cellGcmTerminate s))))) \<noteq> None"
  unfolding find_free_mapping_def alloc_frame
  by (auto simp: slot_simps CELL_GCM_MAX_IO_MAPPINGS_def cellGcmInit_def cellGcmTerminate_def reset_maps_def
      gcm_io_pages_clear_def add_mapping_def mark_mappings populate_frame no_mapping_def Let_def intro!: exI [of _ 1])

text \<open>
  The allocator of IO space survives a shutdown: after cellGcmTerminate and a new cellGcmInit the
  first mapping of main memory gets the IO offset that was next before, whatever the size of the new
  command buffer; when the new buffer reaches that far, the offset of its own page now translates to
  the mapped memory.
\<close>

theorem io_alloc_survives_terminate:
  assumes "gcm_reachable s" "0x100000 \<le> io_alloc_next s" "ea AND 0xFFFFF = 0"
    "unat ea + 0x100000 \<le> 4294967296" "unat (io_alloc_next s) + 0x100000 \<le> 4294967296"
  shows "\<exists>s'. cellGcmMapMainMemory ea 0x100000 (snd (cellGcmInit ioSize ioAddress (cellGcmTerminate s))) =
     (0, Some (io_alloc_next s), s') \<and> gcm_io2ea s' (io_alloc_next s) = ea"
proof -
  let ?s = "snd (cellGcmInit ioSize ioAddress (cellGcmTerminate s))"
  let ?n = "io_alloc_next s"
  have r: "gcm_reachable ?s" using assms(1) by (intro gcm_reachable.init gcm_reachable.terminate)
  have "io_alloc_next ?s = ?n"
    by (simp add: cellGcmInit_def cellGcmTerminate_def alloc_next_frame populate_frame Let_def)
  moreover have "?n \<noteq> 0" "\<not> ?n < 0x100000" using assms(2) by auto
  ultimately have n: "fst (gcm_io_alloc 0x100000 ?s) = ?n" by (simp add: gcm_io_alloc_def Let_def)
  obtain y where y: "gcm_io_alloc 0x100000 ?s = (?n, y)" using n by (metis prod.collapse)
  obtain i where i: "find_free_mapping y = Some i" using find_free_after_init [of "0x100000" ioSize ioAddress s] y by auto
  let ?s' = "populate_offset_table ea ?n 0x100000 (add_mapping i ea ?n 0x100000 y)"
  have m: "cellGcmMapMainMemory ea 0x100000 ?s = (0, Some ?n, ?s')" using assms(3) y i by (simp add: cellGcmMapMainMemory_def)
  have al: "?n AND 0xFFFFF = 0" unfolding low_iff by (rule reachable_alloc_aligned [OF assms(1)])
  note tab = populate_translates [OF assms(3) al, of "0x100000" 0, simplified]
  have "ea_address_table ?s' (page ?n) = of_nat (page ea)" using tab(2) assms(4,5) by simp
  moreover have "(of_nat (page ea) :: u16) \<noteq> 0xFFFF" "with_page (of_nat (page ea)) ?n = ea"
    using with_page_sum [of ?n ea 0] assms(3-5) al by (simp_all add: low_iff)
  moreover have "\<not> 65536 \<le> page ?n" using page_lt [of ?n] by simp
  ultimately have "gcm_io2ea ?s' ?n = ea" by (simp add: gcm_io2ea_def)
  then show ?thesis using m by blast
qed

theorem io_alloc_survives_terminate_witness:
  "\<exists>s'. cellGcmMapMainMemory 0x40000000 0x100000 (snd (cellGcmInit 0x1000000 0x50000000 (cellGcmTerminate
      (snd (snd (cellGcmMapMainMemory 0x30000000 0x100000 (snd (cellGcmInit 0x100000 0x10000000 gcm_start)))))))) =
    (0, Some 0x200000, s') \<and> gcm_io2ea s' 0x200000 = 0x40000000"
proof -
  let ?s = "snd (snd (cellGcmMapMainMemory 0x30000000 0x100000 (snd (cellGcmInit 0x100000 0x10000000 gcm_start))))"
  have "gcm_reachable ?s" by (intro gcm_reachable.map_main gcm_reachable.init gcm_reachable.start)
  moreover have "io_alloc_next ?s = 0x200000" by (simp add: gcm_eval gcm_io_alloc_def)
  ultimately show ?thesis using io_alloc_survives_terminate [of ?s "0x40000000" "0x1000000" "0x50000000"] by simp
qed

section \<open>Guest memory for the draw engine\<close>

text \<open>
  \<open>eng_guest_ptr\<close> of \<^verbatim>\<open>src/libs/video/rsx_draw_engine.c\<close> with no reader installed: the
  effective address of a range of the guest's memory. \<open>vm_size\<close> is \<open>ppu_vm_size\<close>.
\<close>

definition eng_guest_ptr :: "u32 \<Rightarrow> gcm_io \<Rightarrow> u32 \<Rightarrow> u32 \<Rightarrow> u32 \<Rightarrow> u32 option" where
  "eng_guest_ptr vm_size s location offset min_bytes =
     (if min_bytes = 0 \<or> min_bytes > push_bit 20 256 then None
      else let ea = cellGcmResolveLocated (location = 0) s offset
           in if ea = 0 then None
              else if vm_size \<noteq> 0 \<and> (ucast ea :: u64) + ucast min_bytes > ucast vm_size then None
              else Some ea)"

text \<open>
  Two pages that follow each other in the IO space need not do so in memory. A range across their
  border is resolved by its first page alone: the address is not that of its second part.
\<close>

lemma guest_range_not_contiguous:
  "let s = snd (cellGcmMapEaIoAddress 0x30000000 0x200000 0x100000
             (snd (cellGcmMapEaIoAddress 0x10000000 0x100000 0x100000 (snd (cellGcmInit 0 0 gcm_start)))))
   in eng_guest_ptr 0xFFFFFFFF s 1 0x1FFFF0 0x20 = Some 0x100FFFF0 \<and> eng_guest_ptr 0xFFFFFFFF s 1 0x200000 0x10 = Some 0x30000000"
  by (simp add: gcm_eval eng_guest_ptr_def cellGcmResolveLocated_def cellGcmResolveIO_def with_page_def)

end
