(* ===== verification/RsxFetch.thy ===== *)
theory RsxFetch
  imports RsxVertex GcmIo
begin

text \<open>
  The vertex fetch: what is read of a source, that hoisting the address of a whole attribute does not
  change what single fetches read, that no fetch reads outside its source, what is fetched of an
  inline stream, and the segments of a draw with restart cuts.
\<close>

section \<open>Decoding\<close>

lemma get_byte_take: "i < n \<Longrightarrow> n \<le> length p \<Longrightarrow> get_byte (take n p) i = get_byte p i"
  "i < length p \<Longrightarrow> get_byte p i = Some (p ! i)"
  by (simp_all add: get_byte_def)

lemma be_at_take:
  "i + 4 \<le> n \<Longrightarrow> n \<le> length p \<Longrightarrow> be32_at (take n p) i = be32_at p i \<and> (\<exists>v. be32_at p i = Some v)"
  "i + 2 \<le> n \<Longrightarrow> n \<le> length p \<Longrightarrow> be16_at (take n p) i = be16_at p i \<and> (\<exists>v. be16_at p i = Some v)"
  by (simp_all add: be32_at_def be16_at_def get_byte_take)

lemma decode_component_take:
  assumes "type \<in> {1, 2, 3, 4, 5, 7}" "unat (rsx_vertex_type_size type) * Suc c \<le> n" "n \<le> length p"
  shows "decode_component fo type (take n p) c = decode_component fo type p c \<and> (\<exists>v. decode_component fo type p c = Some v)"
  using assms be_at_take(1) [of "c * 4" n p] be_at_take(2) [of "c * 2" n p] get_byte_take(1) [of c n p] get_byte_take(2) [of c p]
  by (elim insertE emptyE; simp add: rsx_vertex_type_size_def decode_component_def rsx_compact_be_f32_def rsx_compact_be_f16_def)

lemma decode_from_take:
  assumes "type \<in> {1, 2, 3, 4, 5, 7}" "n \<le> length p"
  shows "unat (rsx_vertex_type_size type) * (c + k) \<le> n \<Longrightarrow>
    \<exists>v. decode_from fo type (take n p) c k out = Some (True, v) \<and> decode_from fo type p c k out = Some (True, v)"
proof (induction k arbitrary: c out)
  case (Suc k)
  have "unat (rsx_vertex_type_size type) * Suc c \<le> unat (rsx_vertex_type_size type) * (c + Suc k)" by (intro mult_le_mono) simp_all
  then have "unat (rsx_vertex_type_size type) * Suc c \<le> n" using Suc.prems by linarith
  from decode_component_take [OF assms(1) this assms(2)] obtain v where
    v: "decode_component fo type (take n p) c = Some v" "decode_component fo type p c = Some v" by metis
  have "unat (rsx_vertex_type_size type) * (Suc c + k) \<le> n" using Suc.prems by simp
  from Suc.IH [OF this, of "out[c := v]"] show ?case using v assms(1) by simp
qed simp

lemma type_cases:
  assumes "unat (type :: u32) < 8" shows "type \<in> {0, 1, 2, 3, 4, 5, 6, 7}"
proof -
  have "{..<8 :: nat} = {0, 1, 2, 3, 4, 5, 6, 7}" by code_simp
  then have "unat type \<in> {0, 1, 2, 3, 4, 5, 6, 7}" using assms by (simp only: lessThan_iff [symmetric])
  then show ?thesis by (simp add: word_unat_eq_iff)
qed

text \<open>An element that is enabled decodes, and only its own bytes are read.\<close>

lemma decode_element_take:
  assumes "unat type < 8" "type \<noteq> 0" "unat sz < 16" "sz \<noteq> 0" "n = unat (rsx_vertex_attrib_size type sz)" "n \<le> length p"
  shows "\<exists>v. rsx_vertex_decode_element fo type sz (take n p) = Some (True, v) \<and> rsx_vertex_decode_element fo type sz p = Some (True, v)"
proof (cases "type = 6")
  case True
  have "unat sz \<noteq> 0" using assms(4) by (simp add: unat_eq_0)
  then obtain k where k: "min (unat sz) 4 = Suc k" by (metis min_def not0_implies_Suc zero_neq_numeral)
  have "n = 4" using assms(5) True by (simp add: rsx_vertex_attrib_size_def)
  then show ?thesis using be_at_take(1) [of 0 4 p] assms(6) True by (auto simp: rsx_vertex_decode_element_def k)
next
  case False
  then have t: "type \<in> {1, 2, 3, 4, 5, 7}" using type_cases [OF assms(1)] assms(2) by auto
  have "unat (rsx_vertex_type_size type) \<le> 4" using t by (elim insertE emptyE; simp add: rsx_vertex_type_size_def)
  then have "unat (rsx_vertex_type_size type) * unat sz \<le> 4 * 15" using assms(3) by (intro mult_le_mono) simp_all
  then have "n = unat (rsx_vertex_type_size type) * unat sz"
    using assms(5) False by (simp add: rsx_vertex_attrib_size_def unat_word_ariths)
  then have "unat (rsx_vertex_type_size type) * (0 + min (unat sz) 4) \<le> n" by (simp add: mult_le_mono)
  from decode_from_take [OF t assms(6) this] show ?thesis by (simp add: rsx_vertex_decode_element_def)
qed

section \<open>Hoisting\<close>

text \<open>
  A resolver that is contiguous at a location: a range it resolves can be read in parts, and the
  parts are those of the range.
\<close>

definition contiguous :: "guest_resolver \<Rightarrow> u32 \<Rightarrow> bool" where
  "contiguous gp loc \<longleftrightarrow> (\<forall>off n bs. gp loc off n = Some bs \<longrightarrow> unat off + unat n \<le> 4294967296 \<longrightarrow>
     length bs = unat n \<and>
     (\<forall>k m. 0 < m \<longrightarrow> k + m \<le> unat n \<longrightarrow> gp loc (off + of_nat k) (of_nat m) = Some (take m (drop k bs))))"

text \<open>What the fields of an attribute that come from registers are bounded by.\<close>

definition attr_ok :: "rsx_vertex_fetch_attr \<Rightarrow> bool" where
  "attr_ok f \<longleftrightarrow> unat (va_type (fa_desc f)) < 8 \<and> unat (va_size (fa_desc f)) < 16 \<and> unat (fa_stride f) < 4096 \<and>
     fa_elem_size f = rsx_vertex_attrib_size (va_type (fa_desc f)) (va_size (fa_desc f))"

text \<open>The address of an element of an attribute in guest memory.\<close>

definition element_offset :: "rsx_vertex_fetch_plan \<Rightarrow> rsx_vertex_fetch_attr \<Rightarrow> u32 \<Rightarrow> u32" where
  "element_offset plan f e = fp_base_offset plan + va_offset (fa_desc f) + e * fa_stride f"

lemma prepare_guest_hoists:
  assumes c: "contiguous gp (va_location (fa_desc f))" and st: "unat (fa_stride f) < 4096" and el: "fa_elem_size f \<noteq> 0"
    and f': "f' = prepare_guest plan attr f gp refs" and b: "stable_base f' = Some bs" "stable_base f = None"
    and e: "stable_first f' \<le> e" "e \<le> stable_last f'"
  shows "gp (va_location (fa_desc f)) (element_offset plan f e) (fa_elem_size f) =
      Some (take (unat (fa_elem_size f)) (drop (unat (e - stable_first f') * unat (fa_stride f)) bs)) \<and>
    unat (e - stable_first f') * unat (fa_stride f) + unat (fa_elem_size f) \<le> length bs"
proof -
  define first where "first = foldl (\<lambda>f e. if e < f then e else f) UINT_MAX (map (plan_element plan attr) refs)"
  define last where "last = foldl (\<lambda>l e. if e > l then e else l) 0 (map (plan_element plan attr) refs)"
  define P where "P = unat (fp_base_offset plan) + unat (va_offset (fa_desc f))"
  let ?st = "unat (fa_stride f)" and ?el = "unat (fa_elem_size f)"
  define start :: u64 where "start = ucast (fp_base_offset plan) + ucast (va_offset (fa_desc f)) + ucast first * ucast (fa_stride f)"
  define finish :: u64 where
    "finish = ucast (fp_base_offset plan) + ucast (va_offset (fa_desc f)) + ucast last * ucast (fa_stride f) + ucast (fa_elem_size f)"
  have m: "unat w * ?st < 17592186044416" for w :: u32
  proof -
    have "unat w * ?st \<le> 4294967295 * 4095" using u32_bound [of w] st by (intro mult_le_mono) simp_all
    then show ?thesis by simp
  qed
  have s: "unat start = P + unat first * ?st"
    using m [of first] u32_bound [of "fp_base_offset plan"] u32_bound [of "va_offset (fa_desc f)"]
    by (simp add: start_def P_def unat_word_ariths)
  have fi: "unat finish = P + unat last * ?st + ?el"
    using m [of last] u32_bound [of "fp_base_offset plan"] u32_bound [of "va_offset (fa_desc f)"] u32_bound [of "fa_elem_size f"]
    by (simp add: finish_def P_def unat_word_ariths)
  let ?bad = "start > 0xFFFFFFFF \<or> finish > 0x100000000 \<or> finish \<le> start \<or> finish - start > 0xFFFFFFFF"
  have def: "f' = (if ?bad then f else case gp (va_location (fa_desc f)) (ucast start) (ucast (finish - start)) of
      None \<Rightarrow> f | Some base \<Rightarrow> f\<lparr>stable_base := Some base, stable_first := first, stable_last := last\<rparr>)"
    unfolding f' prepare_guest_def Let_def first_def last_def start_def finish_def ..
  then have nb: "\<not> ?bad" using b by auto
  then have gp: "gp (va_location (fa_desc f)) (ucast start) (ucast (finish - start)) = Some bs" and fl: "stable_first f' = first" "stable_last f' = last"
    using def b by (auto split: option.splits)
  have le: "unat start \<le> 4294967295" "unat finish \<le> 4294967296" "unat start < unat finish" "unat (finish - start) \<le> 4294967295"
    using nb by (simp_all add: word_le_nat_alt word_less_nat_alt not_less not_le)
  have d: "unat (finish - start) = unat finish - unat start" using le(3) by (simp add: unat_sub word_le_nat_alt)
  have u: "unat (ucast start :: u32) = unat start" "unat (ucast (finish - start) :: u32) = unat (finish - start)"
    using le by (simp_all add: unsigned_ucast_eq take_bit_nat_eq_self)
  define k where "k = unat (e - first) * ?st"
  have ef: "unat (e - first) = unat e - unat first" using e fl by (simp add: unat_sub)
  have bound: "k + ?el \<le> unat (finish - start)"
  proof -
    have "(unat e - unat first) * ?st + unat first * ?st = unat e * ?st"
      using e fl by (simp add: word_le_nat_alt flip: add_mult_distrib)
    moreover have "unat e * ?st \<le> unat last * ?st" using e fl by (simp add: word_le_nat_alt)
    ultimately show ?thesis unfolding k_def ef d s fi by linarith
  qed
  have off: "ucast start + of_nat k = element_offset plan f e"
  proof -
    have "(ucast start :: u32) = of_nat (unat start)" by simp
    then show ?thesis unfolding s P_def k_def element_offset_def by (simp add: algebra_simps)
  qed
  have pos: "0 < ?el" using el by (simp add: unat_gt_0)
  have "unat (ucast start :: u32) + unat (ucast (finish - start) :: u32) \<le> 4294967296" using u d le by simp
  then have "length bs = unat (ucast (finish - start) :: u32)"
    "\<And>k m. 0 < m \<Longrightarrow> k + m \<le> unat (ucast (finish - start) :: u32) \<Longrightarrow>
      gp (va_location (fa_desc f)) (ucast start + of_nat k) (of_nat m) = Some (take m (drop k bs))"
    using c gp unfolding contiguous_def by blast+
  from this(2) [OF pos, of k] this(1) show ?thesis
    using bound unfolding fl off [symmetric] k_def [symmetric] u(2) by simp
qed

text \<open>A plan as it is before it is prepared, and one with some of its attributes prepared.\<close>

definition reset_attr :: "rsx_vertex_fetch_attr \<Rightarrow> rsx_vertex_fetch_attr" where
  "reset_attr f = f\<lparr>stable_base := None, stable_first := 0, stable_last := 0\<rparr>"

definition same_source :: "nat \<Rightarrow> u8 list option \<Rightarrow> u8 list option \<Rightarrow> bool" where
  "same_source n = rel_option (\<lambda>p q. take n p = take n q \<and> n \<le> length p \<and> n \<le> length q)"

definition enabled :: "rsx_vertex_fetch_attr \<Rightarrow> bool" where
  "enabled f \<longleftrightarrow> va_type (fa_desc f) \<noteq> 0 \<and> va_size (fa_desc f) \<noteq> 0"

definition fresh_plan :: "guest_resolver \<Rightarrow> rsx_vertex_fetch_plan \<Rightarrow> bool" where
  "fresh_plan gp plan \<longleftrightarrow> fp_inline_data plan = None \<and> fp_guest_ptr plan = Some gp \<and>
     (\<forall>a. attr_ok (fp_attr plan a) \<and> reset_attr (fp_attr plan a) = fp_attr plan a)"

definition hoisted :: "rsx_vertex_fetch_plan \<Rightarrow> (nat \<Rightarrow> rsx_vertex_fetch_attr) \<Rightarrow> bool" where
  "hoisted p A \<longleftrightarrow> (\<forall>a. reset_attr (A a) = fp_attr p a \<and>
     (\<forall>e. enabled (fp_attr p a) \<longrightarrow>
       same_source (unat (fa_elem_size (fp_attr p a))) (fetch_source (p\<lparr>fp_attr := A\<rparr>) a e) (fetch_source p a e)))"

text \<open>What a resolver gives: as many bytes as were asked for.\<close>

definition sized :: "guest_resolver \<Rightarrow> bool" where
  "sized gp \<longleftrightarrow> (\<forall>loc off n bs. gp loc off n = Some bs \<longrightarrow> length bs = unat n)"

lemma reset_attr_fields [simp]:
  "fa_desc (reset_attr f) = fa_desc f" "fa_elem_size (reset_attr f) = fa_elem_size f" "fa_stride (reset_attr f) = fa_stride f"
  "fa_default (reset_attr f) = fa_default f" "stable_base (reset_attr f) = None" "reset_attr (reset_attr f) = reset_attr f"
  by (simp_all add: reset_attr_def)

lemma elem_size_pos:
  assumes "attr_ok f" "enabled f" shows "fa_elem_size f \<noteq> 0"
proof (cases "va_type (fa_desc f) = 6")
  case False
  have t: "va_type (fa_desc f) \<in> {1, 2, 3, 4, 5, 6, 7}" using type_cases assms by (auto simp: attr_ok_def enabled_def)
  have z: "0 < unat (va_size (fa_desc f))" "unat (va_size (fa_desc f)) < 16" using assms by (auto simp: attr_ok_def enabled_def unat_gt_0)
  have "0 < unat (rsx_vertex_type_size (va_type (fa_desc f)))" "unat (rsx_vertex_type_size (va_type (fa_desc f))) \<le> 4"
    using t by (elim insertE emptyE; simp add: rsx_vertex_type_size_def)+
  then have "unat (rsx_vertex_type_size (va_type (fa_desc f))) * unat (va_size (fa_desc f)) \<le> 4 * 15"
    and "0 < unat (rsx_vertex_type_size (va_type (fa_desc f))) * unat (va_size (fa_desc f))"
    using z mult_le_mono [of "unat (rsx_vertex_type_size (va_type (fa_desc f)))" 4 "unat (va_size (fa_desc f))" 15] by simp_all
  then have "unat (rsx_vertex_type_size (va_type (fa_desc f)) * va_size (fa_desc f)) \<noteq> 0" by (simp add: unat_word_ariths)
  then show ?thesis using assms(1) False by (auto simp: attr_ok_def rsx_vertex_attrib_size_def)
qed (use assms in \<open>simp add: attr_ok_def rsx_vertex_attrib_size_def\<close>)

lemma fetch_source_fresh:
  assumes "fresh_plan gp p"
  shows "fetch_source p a e = gp (va_location (fa_desc (fp_attr p a))) (element_offset p (fp_attr p a) e) (fa_elem_size (fp_attr p a))"
proof -
  have "reset_attr (fp_attr p a) = fp_attr p a" using assms by (simp add: fresh_plan_def)
  from arg_cong [OF this, of stable_base] have "stable_base (fp_attr p a) = None" by simp
  then show ?thesis using assms by (simp add: fetch_source_def fresh_plan_def element_offset_def Let_def)
qed

lemma same_source_refl: "sized gp \<Longrightarrow> same_source (unat n) (gp loc off n) (gp loc off n)"
  by (auto simp: same_source_def sized_def option.rel_refl_strong intro!: option.rel_refl_strong)

lemma prepare_guest_cases:
  assumes "reset_attr f = f" "g = prepare_guest plan attr f gp refs"
  shows "reset_attr g = f" "stable_base g = None \<Longrightarrow> g = f"
  using assms by (auto simp: prepare_guest_def Let_def reset_attr_def split: option.splits)

lemma hoisted_step:
  assumes fr: "fresh_plan gp p" and sz: "sized gp"
    and co: "\<And>a. enabled (fp_attr p a) \<Longrightarrow> contiguous gp (va_location (fa_desc (fp_attr p a)))"
    and h: "hoisted p A"
  shows "\<exists>B. prepare_attr refs (p\<lparr>fp_attr := A\<rparr>) attr = p\<lparr>fp_attr := B\<rparr> \<and> hoisted p B"
proof -
  define f where "f = fp_attr p attr"
  have rf: "reset_attr (A attr) = f" "reset_attr f = f" "attr_ok f" using h fr by (simp_all add: hoisted_def fresh_plan_def f_def)
  define g where "g = (if refs = [] \<or> \<not> enabled f \<or> fa_elem_size f = 0 then f else prepare_guest (p\<lparr>fp_attr := A\<rparr>) attr f gp refs)"
  define B where "B = A(attr := g)"
  have "prepare_attr refs (p\<lparr>fp_attr := A\<rparr>) attr = p\<lparr>fp_attr := B\<rparr>"
    using fr rf(1) by (simp add: prepare_attr_def fresh_plan_def enabled_def B_def g_def reset_attr_def [symmetric])
  moreover have "hoisted p B" unfolding hoisted_def
  proof (intro allI conjI impI)
    fix a show "reset_attr (B a) = fp_attr p a"
      using h rf prepare_guest_cases(1) [OF rf(2)] by (auto simp: B_def g_def hoisted_def f_def)
  next
    fix a e assume en: "enabled (fp_attr p a)"
    show "same_source (unat (fa_elem_size (fp_attr p a))) (fetch_source (p\<lparr>fp_attr := B\<rparr>) a e) (fetch_source p a e)"
    proof (cases "a = attr")
      case False
      then have "fetch_source (p\<lparr>fp_attr := B\<rparr>) a e = fetch_source (p\<lparr>fp_attr := A\<rparr>) a e"
        using fr by (auto simp: fetch_source_def B_def Let_def fresh_plan_def)
      then show ?thesis using h en by (simp add: hoisted_def)
    next
      case True
      have src: "fetch_source (p\<lparr>fp_attr := B\<rparr>) attr e =
          (if stable_base g \<noteq> None \<and> stable_first g \<le> e \<and> e \<le> stable_last g
           then Some (drop (unat (e - stable_first g) * unat (fa_stride g)) (the (stable_base g)))
           else gp (va_location (fa_desc g)) (element_offset p g e) (fa_elem_size g))"
        using fr True by (auto simp: fetch_source_def B_def fresh_plan_def element_offset_def Let_def)
      have g: "reset_attr g = f" using rf prepare_guest_cases(1) [OF rf(2)] by (auto simp: g_def)
      have gf: "fa_desc g = fa_desc f" "fa_stride g = fa_stride f" "fa_elem_size g = fa_elem_size f"
        using arg_cong [OF g, of fa_desc] arg_cong [OF g, of fa_stride] arg_cong [OF g, of fa_elem_size] by simp_all
      show ?thesis
      proof (cases "stable_base g")
        case None
        then have "g = f" using prepare_guest_cases(2) [OF rf(2)] by (auto simp: g_def split: if_splits)
        then show ?thesis using None True same_source_refl [OF sz] by (simp add: src fetch_source_fresh [OF fr] f_def)
      next
        case (Some bs)
        have sf: "stable_base f = None" using arg_cong [OF rf(2), of stable_base] by simp
        then have gp: "g = prepare_guest (p\<lparr>fp_attr := A\<rparr>) attr f gp refs" and el: "fa_elem_size f \<noteq> 0"
          using Some by (auto simp: g_def split: if_splits)
        have st: "unat (fa_stride f) < 4096" using rf(3) by (simp add: attr_ok_def)
        have "contiguous gp (va_location (fa_desc f))" using co en True by (simp add: f_def)
        note hoists = prepare_guest_hoists [OF this st el gp Some sf, of e]
        have eo: "element_offset (p\<lparr>fp_attr := A\<rparr>) f e = element_offset p f e" by (simp add: element_offset_def)
        show ?thesis
        proof (cases "stable_first g \<le> e \<and> e \<le> stable_last g")
          case True
          then show ?thesis using hoists Some \<open>a = attr\<close>
            by (simp add: src fetch_source_fresh [OF fr] f_def [symmetric] eo gf same_source_def, linarith)
        next
          case False
          then have "fetch_source (p\<lparr>fp_attr := B\<rparr>) attr e = gp (va_location (fa_desc g)) (element_offset p g e) (fa_elem_size g)"
            unfolding src by (simp only: if_False simp_thms)
          then show ?thesis using same_source_refl [OF sz] \<open>a = attr\<close>
            by (simp add: fetch_source_fresh [OF fr] f_def [symmetric] gf element_offset_def)
        qed
      qed
    qed
  qed
  ultimately show ?thesis by blast
qed

lemma hoisted_prepare:
  assumes fr: "fresh_plan gp p" and sz: "sized gp"
    and co: "\<And>a. enabled (fp_attr p a) \<Longrightarrow> contiguous gp (va_location (fa_desc (fp_attr p a)))"
  shows "\<exists>B. rsx_vertex_fetch_plan_prepare p refs = p\<lparr>fp_attr := B\<rparr> \<and> hoisted p B"
proof -
  have "hoisted p A \<Longrightarrow> \<exists>B. foldl (prepare_attr refs) (p\<lparr>fp_attr := A\<rparr>) as = p\<lparr>fp_attr := B\<rparr> \<and> hoisted p B" for A as
  proof (induction as arbitrary: A)
    case (Cons a as)
    from hoisted_step [OF fr sz co Cons.prems, of refs a] obtain C
      where C: "prepare_attr refs (p\<lparr>fp_attr := A\<rparr>) a = p\<lparr>fp_attr := C\<rparr>" "hoisted p C" by blast
    from Cons.IH [OF C(2)] show ?case by (simp add: C(1))
  qed auto
  moreover have "hoisted p (fp_attr p)"
    using fr same_source_refl [OF sz] by (simp add: hoisted_def fresh_plan_def fetch_source_fresh [OF fr])
  moreover have "p\<lparr>fp_attr := fp_attr p\<rparr> = p" by simp
  ultimately show ?thesis unfolding rsx_vertex_fetch_plan_prepare_def by metis
qed

text \<open>A slot of a vertex is the same from either, and is always read within its source.\<close>

lemma fetch_slot_hoisted:
  assumes fr: "fresh_plan gp p" and h: "hoisted p A"
  shows "\<exists>r. fetch_slot fo (p\<lparr>fp_attr := A\<rparr>) ref a = Some r \<and> fetch_slot fo p ref a = Some r"
proof -
  define f where "f = fp_attr p a"
  let ?q = "p\<lparr>fp_attr := A\<rparr>"
  have Af: "reset_attr (A a) = f" and ok: "attr_ok f" using h fr by (simp_all add: hoisted_def fresh_plan_def f_def)
  have eq: "fa_desc (A a) = fa_desc f" "fa_default (A a) = fa_default f"
    using arg_cong [OF Af, of fa_desc] arg_cong [OF Af, of fa_default] by simp_all
  show ?thesis
  proof (cases "enabled f")
    case False
    then show ?thesis by (auto simp: fetch_slot_def enabled_def eq Let_def f_def [symmetric])
  next
    case True
    define n where "n = unat (fa_elem_size f)"
    define e where "e = plan_element p a ref"
    have e': "plan_element ?q a ref = e" by (simp add: plan_element_def e_def eq f_def [symmetric])
    have ss: "same_source n (fetch_source ?q a e) (fetch_source p a e)" using h True by (simp add: hoisted_def n_def f_def)
    have en: "va_type (fa_desc f) \<noteq> 0" "va_size (fa_desc f) \<noteq> 0" using True by (simp_all add: enabled_def)
    let ?D = "rsx_vertex_decode_element fo (va_type (fa_desc f)) (va_size (fa_desc f))"
    show ?thesis
    proof (cases "fetch_source ?q a e")
      case None
      then have "fetch_source p a e = None" using ss by (simp add: same_source_def)
      then show ?thesis using None en by (simp add: fetch_slot_def Let_def eq e' e_def [symmetric] f_def [symmetric])
    next
      case (Some s)
      then obtain t where t: "fetch_source p a e = Some t" "take n s = take n t" "n \<le> length s" "n \<le> length t"
        using ss by (auto simp: same_source_def option_rel_Some1)
      have nn: "n = unat (rsx_vertex_attrib_size (va_type (fa_desc f)) (va_size (fa_desc f)))" using ok by (simp add: n_def attr_ok_def)
      have bnd: "unat (va_type (fa_desc f)) < 8" "unat (va_size (fa_desc f)) < 16" using ok by (simp_all add: attr_ok_def)
      from decode_element_take [OF bnd(1) en(1) bnd(2) en(2) nn t(3)] decode_element_take [OF bnd(1) en(1) bnd(2) en(2) nn t(4)] t(2)
      obtain v where "?D s = Some (True, v)" "?D t = Some (True, v)" by (metis option.inject)
      then show ?thesis using Some t(1) en by (simp add: fetch_slot_def Let_def eq e' e_def [symmetric] f_def [symmetric])
    qed
  qed
qed

lemma fetch_one_hoisted:
  assumes "fresh_plan gp p" "hoisted p A"
  shows "\<exists>r. rsx_vertex_fetch_one fo (p\<lparr>fp_attr := A\<rparr>) ref = Some r \<and> rsx_vertex_fetch_one fo p ref = Some r"
proof -
  have "\<exists>r. fetch_slots fo (p\<lparr>fp_attr := A\<rparr>) ref as = Some r \<and> fetch_slots fo p ref as = Some r" for as
  proof (induction as)
    case (Cons a as)
    from fetch_slot_hoisted [OF assms, of fo ref a] Cons show ?case by (auto split: sum.splits)
  qed simp
  then show ?thesis by (simp add: rsx_vertex_fetch_one_def)
qed

section \<open>Plans of the dispatcher's registers\<close>

lemma vertex_attr_bounds:
  assumes "rsx_dsp_get_vertex_attr rsx i = Some d"
  shows "unat (va_type d) < 8" "unat (va_size d) < 16" "unat (va_stride d) < 256"
proof -
  have "fmt AND 7 \<le> 7" "drop_bit 4 fmt AND 0xF \<le> 0xF" "drop_bit 8 fmt AND 0xFF \<le> 0xFF" for fmt :: u32
    by (simp_all add: word_and_le1)
  then have "unat (fmt AND 7) \<le> 7" "unat (drop_bit 4 fmt AND 0xF) \<le> 15" "unat (drop_bit 8 fmt AND 0xFF) \<le> 255" for fmt :: u32
    by (simp_all add: word_le_nat_alt)
  then show "unat (va_type d) < 8" "unat (va_size d) < 16" "unat (va_stride d) < 256"
    using assms by (auto simp: rsx_dsp_get_vertex_attr_def less_Suc_eq_le [symmetric] split: if_splits Option.bind_splits)
qed

lemma attr_init_ok:
  assumes "fetch_attr_init rsx i = Some a"
  shows "attr_ok a \<and> reset_attr a = a"
proof -
  obtain d v where d: "rsx_dsp_get_vertex_attr rsx (of_nat i) = Some d"
    and a: "a = \<lparr>fa_desc = d, fa_elem_size = rsx_vertex_attrib_size (va_type d) (va_size d),
      fa_stride = (if va_stride d \<noteq> 0 then va_stride d else rsx_vertex_attrib_size (va_type d) (va_size d)),
      fa_default = v, stable_base = None, stable_first = 0, stable_last = 0\<rparr>"
    using assms by (auto simp: fetch_attr_init_def Let_def split: Option.bind_splits)
  note b = vertex_attr_bounds [OF d]
  have "rsx_vertex_type_size t \<le> 4" for t by (simp add: rsx_vertex_type_size_def)
  then have "unat (rsx_vertex_type_size (va_type d)) \<le> 4" by (simp add: word_le_nat_alt)
  then have "unat (rsx_vertex_type_size (va_type d)) * unat (va_size d) \<le> 4 * 15" using b by (intro mult_le_mono) simp_all
  then have "unat (rsx_vertex_attrib_size (va_type d) (va_size d)) < 4096"
    by (simp add: rsx_vertex_attrib_size_def unat_word_ariths)
  then show ?thesis using b by (simp add: a attr_ok_def reset_attr_def)
qed

lemma attr_init_desc: "fetch_attr_init rsx i = Some a \<Longrightarrow> rsx_dsp_get_vertex_attr rsx (of_nat i) = Some (fa_desc a)"
  by (auto simp: fetch_attr_init_def Let_def split: Option.bind_splits)

lemma fetch_attrs_init_ok:
  assumes "\<And>a. attr_ok (f a) \<and> reset_attr (f a) = f a"
  shows "fetch_attrs_init rsx n f = Some g \<Longrightarrow> attr_ok (g a) \<and> reset_attr (g a) = g a"
proof (induction n arbitrary: g a)
  case (Suc n)
  then obtain h b where h: "fetch_attrs_init rsx n f = Some h" "fetch_attr_init rsx n = Some b" "g = h(n := b)"
    by (auto split: Option.bind_splits)
  then show ?case using Suc.IH [OF h(1)] attr_init_ok [OF h(2)] by simp
qed (use assms in simp)

lemma plan_init_ok:
  assumes "rsx_vertex_fetch_plan_init rsx layout gp = Some plan"
  shows "fp_layout plan = layout" "fp_inline_data plan = None" "fp_guest_ptr plan = gp"
    "attr_ok (fp_attr plan a) \<and> reset_attr (fp_attr plan a) = fp_attr plan a"
proof -
  have z: "attr_ok zero_attr \<and> reset_attr zero_attr = zero_attr"
    by (simp add: attr_ok_def zero_attr_def reset_attr_def rsx_vertex_attrib_size_def rsx_vertex_type_size_def)
  obtain base divider attrs where "fetch_attrs_init rsx 16 (\<lambda>_. zero_attr) = Some attrs"
    and p: "plan = \<lparr>fp_layout = layout, fp_attr = attrs, fp_base_offset = base, fp_divider_mask = divider, fp_guest_ptr = gp,
       fp_inline_data = None, fp_inline_bytes = 0, fp_inline_off = \<lambda>_. 0, fp_inline_stride = 0\<rparr>"
    using assms by (auto simp: rsx_vertex_fetch_plan_init_def split: Option.bind_splits)
  from fetch_attrs_init_ok [OF z this(1)] show "attr_ok (fp_attr plan a) \<and> reset_attr (fp_attr plan a) = fp_attr plan a"
    by (simp add: p)
  show "fp_layout plan = layout" "fp_inline_data plan = None" "fp_guest_ptr plan = gp" by (simp_all add: p)
qed

lemma plan_init_fresh:
  assumes "rsx_vertex_fetch_plan_init rsx layout (Some gp) = Some plan"
  shows "fresh_plan gp plan"
  using plan_init_ok [OF assms] by (simp add: fresh_plan_def)

section \<open>The engine's resolver\<close>

text \<open>
  The bytes behind the address the engine resolves, in a memory \<open>mem\<close>. Local memory is one block, so
  its ranges are contiguous; ranges of IO space are not (\<open>guest_range_not_contiguous\<close>).
\<close>

definition eng_read :: "u32 \<Rightarrow> gcm_io \<Rightarrow> (u32 \<Rightarrow> u8) \<Rightarrow> guest_resolver" where
  "eng_read vm_size s mem location offset min_bytes =
     map_option (\<lambda>ea. map (\<lambda>i. mem (ea + of_nat i)) [0..<unat min_bytes]) (eng_guest_ptr vm_size s location offset min_bytes)"

lemma eng_read_sized: "sized (eng_read vm_size s mem)"
  by (auto simp: sized_def eng_read_def)

lemma take_drop_upt: "k + m \<le> n \<Longrightarrow> take m (drop k (map f [0..<n])) = map (\<lambda>i. f (k + i)) [0..<m]"
  by (rule nth_equalityI) simp_all

lemma eng_read_contiguous:
  assumes vm: "vm_size \<noteq> 0"
  shows "contiguous (eng_read vm_size s mem) RSX_LOCATION_LOCAL"
  unfolding contiguous_def
proof (intro allI impI conjI)
  fix off n :: u32 and bs
  assume r: "eng_read vm_size s mem RSX_LOCATION_LOCAL off n = Some bs"
  then show "length bs = unat n" by (auto simp: eng_read_def)
  define ea where "ea = local_address s + off"
  have ea: "eng_guest_ptr vm_size s RSX_LOCATION_LOCAL off n = Some ea" and bs: "bs = map (\<lambda>i. mem (ea + of_nat i)) [0..<unat n]"
    and n: "n \<noteq> 0" "n \<le> push_bit 20 256" "ea \<noteq> 0" "(ucast ea :: u64) + ucast n \<le> ucast vm_size"
    using r vm by (auto simp: eng_read_def eng_guest_ptr_def cellGcmResolveLocated_def RSX_LOCATION_LOCAL_def ea_def Let_def split: if_splits)
  have sum: "unat ea + unat n \<le> unat vm_size"
    using n(4) u32_bound [of ea] u32_bound [of n] by (simp add: word_le_nat_alt unat_word_ariths)
  fix k m :: nat
  assume km: "0 < m" "k + m \<le> unat n"
  have um: "unat (of_nat m :: u32) = m" using km u32_bound [of n] by (simp add: unat_of_nat take_bit_nat_eq_self)
  have ek: "unat (ea + of_nat k) = unat ea + k"
    using km sum u32_bound [of vm_size] by (simp add: unat_word_ariths unat_of_nat take_bit_nat_eq_self)
  have "of_nat m \<noteq> (0 :: u32)" "(of_nat m :: u32) \<le> push_bit 20 256" "ea + of_nat k \<noteq> 0"
    using km um n ek by (auto simp: word_le_nat_alt unat_eq_0 [symmetric] simp del: unat_eq_0)
  moreover have "(ucast (ea + of_nat k) :: u64) + ucast (of_nat m :: u32) \<le> ucast vm_size"
    using ek um km sum u32_bound [of vm_size] by (simp add: word_le_nat_alt unat_word_ariths)
  ultimately have "eng_guest_ptr vm_size s RSX_LOCATION_LOCAL (off + of_nat k) (of_nat m) = Some (ea + of_nat k)"
    by (auto simp: eng_guest_ptr_def cellGcmResolveLocated_def RSX_LOCATION_LOCAL_def ea_def Let_def add.assoc not_less)
  then show "eng_read vm_size s mem RSX_LOCATION_LOCAL (off + of_nat k) (of_nat m) = Some (take m (drop k bs))"
    using km by (simp add: eng_read_def um bs take_drop_upt add.assoc)
qed


lemma fetch_attrs_init_at:
  "fetch_attrs_init rsx n f = Some g \<Longrightarrow> (if a < n then fetch_attr_init rsx a = Some (g a) else g a = f a)"
proof (induction n arbitrary: g)
  case (Suc n)
  then obtain h b where h: "fetch_attrs_init rsx n f = Some h" "fetch_attr_init rsx n = Some b" "g = h(n := b)"
    by (auto split: Option.bind_splits)
  then show ?case using Suc.IH [OF h(1)] by (auto simp: less_Suc_eq)
qed simp

lemma plan_init_total: "\<exists>plan. rsx_vertex_fetch_plan_init rsx layout gp = Some plan"
proof -
  have a: "\<exists>a. fetch_attr_init rsx i = Some a" for i
    unfolding fetch_attr_init_def Let_def by (intro bind_total get_vertex_attr_total vertex_default_total) auto
  have "\<exists>g. fetch_attrs_init rsx n f = Some g" for n f
  proof (induction n)
    case (Suc n)
    then show ?case unfolding fetch_attrs_init.simps by (intro bind_total a) auto
  qed simp
  then show ?thesis unfolding rsx_vertex_fetch_plan_init_def rsx_dsp_vertex_data_base_offset_def
    by (intro bind_total rsx_dsp_reg_total) auto
qed

text \<open>The attributes of a plan are those of the registers.\<close>

lemma plan_init_attr:
  assumes "rsx_vertex_fetch_plan_init rsx layout gp = Some plan"
  shows "if a < 16 then fetch_attr_init rsx a = Some (fp_attr plan a) else fp_attr plan a = zero_attr"
  using assms fetch_attrs_init_at [of rsx 16 "\<lambda>_. zero_attr" _ a]
  by (auto simp: rsx_vertex_fetch_plan_init_def split: Option.bind_splits)

text \<open>One array of three floats in local memory.\<close>

definition example_rsx :: rsx_dispatch where
  "example_rsx = \<lparr>dsp_regs = (\<lambda>i. if i = 0x5D0 then 0xC32 else 0), dsp_vp = \<lambda>_. 0, dsp_constants = \<lambda>_ _. 0, dsp_sink = full_sink,
     dsp_in_begin_end = False, dsp_current_primitive = 0, dsp_inline_len = 0, dsp_inline_dropped = 0, dsp_seen = \<lambda>_. 0,
     dsp_klass = \<lambda>_. 0, dsp_inline_data = \<lambda>_. 0\<rparr>"

lemma example_attr:
  "fetch_attr_init example_rsx 0 = Some \<lparr>fa_desc = \<lparr>va_type = 2, va_size = 3, va_stride = 12, va_frequency = 0, va_offset = 0,
     va_location = 0\<rparr>, fa_elem_size = 12, fa_stride = 12, fa_default = [0, 0, 0, ONE_F], stable_base = None, stable_first = 0,
     stable_last = 0\<rparr>"
  by (simp add: fetch_attr_init_def rsx_dsp_get_vertex_attr_def rsx_dsp_vertex_default_def rsx_dsp_reg_def get_reg_def dsp_sizes
      example_rsx_def rsx_vertex_attrib_size_def rsx_vertex_type_size_def upt_conv_Cons)

lemma example_local:
  assumes "rsx_dsp_get_vertex_attr example_rsx i = Some d"
  shows "va_location d = 0"
  using assms
  by (auto simp: rsx_dsp_get_vertex_attr_def rsx_dsp_reg_def get_reg_def example_rsx_def split: if_splits Option.bind_splits)


section \<open>The layout\<close>

text \<open>The slots are the attributes of the mask in ascending order, sixteen bytes each.\<close>

lemma layout_fold:
  fixes m :: u32 and n :: nat
  assumes "n \<le> 16"
  defines "xs \<equiv> filter (bit m) [0..<n]"
  shows "foldl layout_attr \<lparr>lp_mask = m, lp_stride = 0, lp_count = 0, lp_attrs = replicate 16 0, lp_slot_by_attr = replicate 16 (- 1)\<rparr> [0..<n] =
    \<lparr>lp_mask = m, lp_stride = 0, lp_count = length xs, lp_attrs = xs @ replicate (16 - length xs) 0,
     lp_slot_by_attr = map (\<lambda>a. if a < n \<and> bit m a then int (length (filter (bit m) [0..<a])) else - 1) [0..<16]\<rparr>"
  using assms(1) unfolding xs_def
proof (induction n)
  case 0
  show ?case by (simp add: list_eq_iff_nth_eq)
next
  case (Suc n)
  let ?ys = "filter (bit m) [0..<n]"
  have len: "length ?ys \<le> n" using length_filter_le [of "bit m" "[0..<n]"] by simp
  then have "replicate (16 - length ?ys) (0 :: nat) = 0 # replicate (15 - length ?ys) 0"
    using Suc.prems by (simp flip: replicate_Suc)
  then show ?case using Suc.IH Suc.prems by (auto simp: layout_attr_def Let_def list_eq_iff_nth_eq nth_list_update less_Suc_eq)
qed

lemma layout_plan_slots:
  "take (lp_count (rsx_vertex_layout_plan_init m)) (lp_attrs (rsx_vertex_layout_plan_init m)) = filter (bit (m AND 0xFFFF)) [0..<16]"
  by (simp only: rsx_vertex_layout_plan_init_def Let_def layout_fold [OF order_refl]) simp

section \<open>Inline vertices\<close>

lemma attrib_size_le:
  assumes "unat z < 16" shows "unat (rsx_vertex_attrib_size t z) \<le> 60"
proof -
  have "rsx_vertex_type_size t \<le> 4" by (simp add: rsx_vertex_type_size_def)
  then have "unat (rsx_vertex_type_size t) * unat z \<le> 4 * 15" using assms by (intro mult_le_mono) (simp_all add: word_le_nat_alt)
  then show ?thesis by (simp add: rsx_vertex_attrib_size_def unat_word_ariths)
qed

text \<open>The offset of an attribute in an inline vertex is at most what the attributes before it take.\<close>

lemma inline_layout_bound:
  "inline_layout_from rsx attr n offs packed decl = Some (offs', st) \<Longrightarrow> unat packed \<le> 60 * attr \<Longrightarrow> attr + n \<le> 16 \<Longrightarrow>
     (\<And>a. a < attr \<Longrightarrow> unat (offs a) \<le> 60 * a) \<Longrightarrow> a < attr + n \<Longrightarrow> unat (offs' a) \<le> 60 * a"
proof (induction n arbitrary: attr offs packed decl)
  case (Suc n)
  obtain d where d: "rsx_dsp_get_vertex_attr rsx (of_nat attr) = Some d" using get_vertex_attr_total by blast
  have offs: "unat ((offs(attr := packed)) a) \<le> 60 * a" if "a < Suc attr" for a
    using that Suc.prems(2,4) by (auto simp: less_Suc_eq)
  let ?z = "rsx_vertex_attrib_size (va_type d) (va_size d)"
  have "unat ?z \<le> 60" using vertex_attr_bounds(2) [OF d] by (rule attrib_size_le)
  then have "unat (packed + ?z) \<le> 60 * Suc attr" using Suc.prems(2,3) by (simp add: unat_word_ariths)
  moreover have "unat packed \<le> 60 * Suc attr" using Suc.prems(2) by simp
  ultimately obtain packed' decl' where
    "inline_layout_from rsx (Suc attr) n (offs(attr := packed)) packed' decl' = Some (offs', st)" "unat packed' \<le> 60 * Suc attr"
    using Suc.prems(1) d by (auto simp: Let_def split: if_splits)
  from Suc.IH [OF this _ offs] show ?case using Suc.prems(3,5) by simp
qed auto

text \<open>What the fetch of a slot of an inline vertex gives, over the bytes of the stream.\<close>

definition inline_slot :: "float_ops \<Rightarrow> rsx_vertex_fetch_plan \<Rightarrow> u8 list \<Rightarrow> rsx_vertex_ref \<Rightarrow> nat \<Rightarrow> unit + u32 list" where
  "inline_slot fo p data ref a =
     (let f = fp_attr p a; d = fa_desc f;
          st = unat (if fp_inline_stride p \<noteq> 0 then fp_inline_stride p else fa_stride f);
          off = unat (fp_inline_off p a); el = unat (fa_elem_size f); e = unat (plan_element p a ref)
      in if va_type d = 0 \<or> va_size d = 0 then Inr (fa_default f)
         else if off + el \<le> st \<and> e < length data div st
         then Inr (snd (the (rsx_vertex_decode_element fo (va_type d) (va_size d) (take el (drop (off + e * st) data)))))
         else if a = 0 then Inl () else Inr (fa_default f))"

text \<open>A plan for inline vertices before it is prepared.\<close>

definition inline_plan :: "u8 list \<Rightarrow> rsx_vertex_fetch_plan \<Rightarrow> bool" where
  "inline_plan data p \<longleftrightarrow> fp_inline_data p = Some data \<and> unat (fp_inline_bytes p) = length data \<and>
     (\<forall>a. attr_ok (fp_attr p a) \<and> reset_attr (fp_attr p a) = fp_attr p a) \<and> (\<forall>a < 16. unat (fp_inline_off p a) \<le> 60 * a)"

lemma prepare_fold_other:
  assumes "a \<notin> set as"
  shows "fp_attr (foldl (prepare_attr refs) p as) a = fp_attr p a"
  using assms by (induction as arbitrary: p) (simp_all add: prepare_attr_def Let_def)

lemma prepare_attr_frame:
  "prepare_attr refs p a = p\<lparr>fp_attr := fp_attr (prepare_attr refs p a)\<rparr>"
  by (simp add: prepare_attr_def Let_def)

lemma prepare_fold_frame:
  "foldl (prepare_attr refs) p as = p\<lparr>fp_attr := fp_attr (foldl (prepare_attr refs) p as)\<rparr>"
proof (induction as arbitrary: p)
  case (Cons a as)
  have "fp_attr_update f (prepare_attr refs p a) = fp_attr_update f p" if "\<And>x y. f x = f y" for f
    using that by (subst prepare_attr_frame) (simp add: fun_eq_iff)
  then show ?case using Cons [of "prepare_attr refs p a"] by (metis (no_types) foldl_Cons)
qed simp

text \<open>What preparing does to an attribute when the vertices are inline.\<close>

lemma prepare_inline_at:
  assumes ip: "inline_plan data p" and a: "fp_attr q a = fp_attr p a" "q\<lparr>fp_attr := fp_attr p\<rparr> = p"
  shows "fp_attr (prepare_attr refs q a) a =
    (if refs = [] \<or> \<not> enabled (fp_attr p a) \<or> fa_elem_size (fp_attr p a) = 0 then fp_attr p a
     else prepare_inline p a (fp_attr p a) data)"
proof -
  have r: "(fp_attr p a)\<lparr>stable_base := None, stable_first := 0, stable_last := 0\<rparr> = fp_attr p a"
    using ip by (simp add: inline_plan_def reset_attr_def)
  have f: "fp_inline_data q = fp_inline_data p" "fp_inline_stride q = fp_inline_stride p" "fp_inline_off q = fp_inline_off p"
    "fp_inline_bytes q = fp_inline_bytes p"
    using arg_cong [OF a(2), of fp_inline_data] arg_cong [OF a(2), of fp_inline_stride] arg_cong [OF a(2), of fp_inline_off]
      arg_cong [OF a(2), of fp_inline_bytes] by simp_all
  show ?thesis using ip by (simp add: prepare_attr_def prepare_inline_def Let_def f a(1) r enabled_def inline_plan_def)
qed

text \<open>Where the elements of a prepared attribute are.\<close>

lemma inline_source:
  assumes ip: "inline_plan data p" and a: "a < 16" and en: "enabled (fp_attr p a)"
    and g: "fp_attr q a = prepare_inline p a (fp_attr p a) data" and fr: "q\<lparr>fp_attr := fp_attr p\<rparr> = p"
  defines "st \<equiv> unat (if fp_inline_stride p \<noteq> 0 then fp_inline_stride p else fa_stride (fp_attr p a))"
    and "off \<equiv> unat (fp_inline_off p a)" and "el \<equiv> unat (fa_elem_size (fp_attr p a))"
  shows "if off + el \<le> st \<and> unat e < length data div st
    then fetch_source q a e = Some (drop (off + unat e * st) data) \<and> off + unat e * st + el \<le> length data
    else fetch_source q a e = None"
proof -
  define f where "f = fp_attr p a"
  define stride where "stride = (if fp_inline_stride p \<noteq> 0 then fp_inline_stride p else fa_stride f)"
  have st: "st = unat stride" by (simp add: st_def stride_def f_def)
  have ok: "attr_ok f" and r: "reset_attr f = f" and len: "unat (fp_inline_bytes p) = length data" and offa: "off \<le> 60 * a"
    using ip a by (simp_all add: inline_plan_def f_def off_def)
  have sb: "stable_base f = None" using arg_cong [OF r, of stable_base] by simp
  have offb: "off \<le> 900" using offa a by linarith
  have elb: "el \<le> 60" using ok attrib_size_le by (simp add: attr_ok_def el_def f_def)
  have el0: "0 < el" using elem_size_pos [OF ok] en by (simp add: el_def f_def unat_gt_0)
  have c1: "fp_inline_off p a + fa_elem_size f > stride \<longleftrightarrow> \<not> off + el \<le> st"
    using offb elb by (simp add: word_less_nat_alt unat_word_ariths st off_def el_def f_def not_le)
  have vs: "unat (fp_inline_bytes p div stride) = length data div st" by (simp add: unat_div st len)
  have qi: "fp_inline_data q = Some data" using ip arg_cong [OF fr, of fp_inline_data] by (simp add: inline_plan_def)
  have pi: "fp_attr q a = (if stride = 0 \<or> fp_inline_off p a + fa_elem_size f > stride then f
      else if fp_inline_bytes p div stride = 0 then f
      else f\<lparr>fa_stride := stride, stable_base := Some (drop off data), stable_first := 0,
             stable_last := fp_inline_bytes p div stride - 1\<rparr>)"
    unfolding g prepare_inline_def Let_def stride_def f_def off_def by (rule refl)
  show ?thesis
  proof (cases "off + el \<le> st \<and> length data div st \<noteq> 0")
    case False
    then have "stride = 0 \<or> fp_inline_off p a + fa_elem_size f > stride \<or> fp_inline_bytes p div stride = 0"
      using c1 vs by (auto simp: unat_eq_0 [symmetric] simp del: unat_eq_0)
    then have "fp_attr q a = f" unfolding pi by auto
    then have "fetch_source q a e = None" using sb qi by (simp add: fetch_source_def)
    then show ?thesis using False by auto
  next
    case True
    then have nz: "stride \<noteq> 0" "fp_inline_bytes p div stride \<noteq> 0" using el0 vs st by auto
    then have q: "fp_attr q a = f\<lparr>fa_stride := stride, stable_base := Some (drop off data), stable_first := 0,
        stable_last := fp_inline_bytes p div stride - 1\<rparr>"
      using c1 True unfolding pi by simp
    have "unat (fp_inline_bytes p div stride - 1) = length data div st - 1" using nz(2) by (simp add: unat_minus_one vs)
    then have le: "e \<le> fp_inline_bytes p div stride - 1 \<longleftrightarrow> unat e < length data div st"
      using True by (simp only: word_le_nat_alt) linarith
    show ?thesis
    proof (cases "unat e < length data div st")
      case True
      then have "Suc (unat e) * st \<le> length data div st * st" by (intro mult_le_mono1) simp
      also have "\<dots> \<le> length data" by (rule div_times_less_eq_dividend)
      finally show ?thesis using True \<open>off + el \<le> st \<and> _\<close> q le by (simp add: fetch_source_def st add.commute)
    next
      case False
      then show ?thesis using q le qi by (simp add: fetch_source_def)
    qed
  qed
qed

lemma set_inline_plan:
  assumes p0: "rsx_vertex_fetch_plan_init rsx layout gp = Some p0"
    and p: "rsx_vertex_fetch_plan_set_inline p0 rsx (Some data) bytes = Some p"
    and b: "unat bytes = length data" "data \<noteq> []"
  shows "inline_plan data p" "fp_layout p = layout"
proof -
  have "bytes \<noteq> 0" using b by (auto simp: unat_eq_0)
  then obtain offs st where l: "inline_layout_from rsx 0 16 (fp_inline_off p0) 0 0 = Some (offs, st)"
    and p: "p = p0\<lparr>fp_inline_data := Some data, fp_inline_bytes := bytes, fp_inline_stride := st, fp_inline_off := offs\<rparr>"
    using p by (auto simp: rsx_vertex_fetch_plan_set_inline_def rsx_vertex_inline_layout_def Let_def split: Option.bind_splits)
  have "unat (offs a) \<le> 60 * a" if "a < 16" for a using inline_layout_bound [OF l] that by simp
  then show "inline_plan data p" using b plan_init_ok(4) [OF p0] by (simp add: inline_plan_def p)
  show "fp_layout p = layout" using plan_init_ok(1) [OF p0] by (simp add: p)
qed

lemma inline_slot_fetched:
  assumes ip: "inline_plan data p" and a: "a < 16" and fr: "q\<lparr>fp_attr := fp_attr p\<rparr> = p"
    and q: "fp_attr q a = (if \<not> enabled (fp_attr p a) \<or> fa_elem_size (fp_attr p a) = 0 then fp_attr p a
      else prepare_inline p a (fp_attr p a) data)"
  shows "fetch_slot fo q ref a = Some (inline_slot fo p data ref a)"
proof -
  define f where "f = fp_attr p a"
  have ok: "attr_ok f" using ip by (simp add: inline_plan_def f_def)
  have keep: "fa_desc (fp_attr q a) = fa_desc f" "fa_default (fp_attr q a) = fa_default f"
    by (auto simp: q f_def prepare_inline_def Let_def)
  show ?thesis
  proof (cases "enabled f")
    case False
    then show ?thesis using keep
      by (auto simp: fetch_slot_def inline_slot_def enabled_def Let_def f_def [symmetric])
  next
    case True
    then have en: "va_type (fa_desc f) \<noteq> 0" "va_size (fa_desc f) \<noteq> 0" by (simp_all add: enabled_def)
    have g: "fp_attr q a = prepare_inline p a (fp_attr p a) data" using q True elem_size_pos [OF ok True] by (simp add: f_def)
    let ?e = "plan_element p a ref" and ?st = "unat (if fp_inline_stride p \<noteq> 0 then fp_inline_stride p else fa_stride f)"
      and ?off = "unat (fp_inline_off p a)" and ?el = "unat (fa_elem_size f)"
    have e: "plan_element q a ref = ?e" using arg_cong [OF fr, of fp_divider_mask] by (simp add: plan_element_def keep f_def)
    note src = inline_source [OF ip a True [unfolded f_def] g fr, of ?e, folded f_def]
    show ?thesis
    proof (cases "?off + ?el \<le> ?st \<and> unat ?e < length data div ?st")
      case False
      then have "fetch_source q a ?e = None" using src by (simp only: if_False)
      then show ?thesis using False en
        by (simp add: fetch_slot_def inline_slot_def Let_def keep e f_def [symmetric] del: de_Morgan_conj)
    next
      case True
      let ?p = "drop (?off + unat ?e * ?st) data"
      have s: "fetch_source q a ?e = Some ?p" "?el \<le> length ?p" using src True by auto
      have b: "unat (va_type (fa_desc f)) < 8" "unat (va_size (fa_desc f)) < 16"
        "?el = unat (rsx_vertex_attrib_size (va_type (fa_desc f)) (va_size (fa_desc f)))" using ok by (simp_all add: attr_ok_def)
      from decode_element_take [OF b(1) en(1) b(2) en(2) b(3) s(2), of fo] obtain v where
        "rsx_vertex_decode_element fo (va_type (fa_desc f)) (va_size (fa_desc f)) (take ?el ?p) = Some (True, v)"
        "rsx_vertex_decode_element fo (va_type (fa_desc f)) (va_size (fa_desc f)) ?p = Some (True, v)" by blast
      then show ?thesis using True en s(1)
        by (simp add: fetch_slot_def inline_slot_def Let_def keep e f_def [symmetric])
    qed
  qed
qed

text \<open>The slots of a vertex in order, or the failure of the first that fails.\<close>

primrec collect_slots :: "(unit + 'a) list \<Rightarrow> unit + 'a list" where
  "collect_slots [] = Inr []"
| "collect_slots (r # rs) =
     (case r of Inl _ \<Rightarrow> Inl () | Inr v \<Rightarrow> (case collect_slots rs of Inl _ \<Rightarrow> Inl () | Inr vs \<Rightarrow> Inr (v # vs)))"

lemma fetch_slots_collect:
  "(\<And>a. a \<in> set as \<Longrightarrow> fetch_slot fo q ref a = Some (g a)) \<Longrightarrow> fetch_slots fo q ref as = Some (collect_slots (map g as))"
  by (induction as) (auto split: sum.splits)


lemma example_disabled:
  assumes "1 \<le> a" "a < 16"
  shows "\<exists>d. rsx_dsp_get_vertex_attr example_rsx (of_nat a) = Some d \<and> va_type d = 0"
proof -
  have "{1..<16 :: nat} = {1, 2, 3, 4, 5, 6, 7, 8, 9, 10, 11, 12, 13, 14, 15}" by code_simp
  moreover have "a \<in> {1..<16}" using assms by simp
  ultimately have "a \<in> {1, 2, 3, 4, 5, 6, 7, 8, 9, 10, 11, 12, 13, 14, 15}" by (simp only:)
  then show ?thesis
    by (elim insertE emptyE; simp add: rsx_dsp_get_vertex_attr_def rsx_dsp_reg_def get_reg_def dsp_sizes example_rsx_def)
qed

lemma example_layout_from:
  "1 \<le> a \<Longrightarrow> a + n \<le> 16 \<Longrightarrow> \<exists>offs'. inline_layout_from example_rsx a n offs 12 12 = Some (offs', 12) \<and> offs' 0 = offs 0"
proof (induction n arbitrary: a offs)
  case (Suc n)
  then obtain d where "rsx_dsp_get_vertex_attr example_rsx (of_nat a) = Some d" "va_type d = 0" using example_disabled [of a] by auto
  moreover obtain offs' where "inline_layout_from example_rsx (Suc a) n (offs(a := 12)) 12 12 = Some (offs', 12)" "offs' 0 = (offs(a := 12)) 0"
    using Suc.IH [of "Suc a" "offs(a := 12)"] Suc.prems by (metis Suc_le_mono add_Suc_shift le_SucI One_nat_def)
  ultimately show ?case using Suc.prems by simp
qed auto

lemma example_layout: "\<exists>offs'. rsx_vertex_inline_layout example_rsx offs = Some (offs', 12) \<and> offs' 0 = 0"
proof -
  have "rsx_dsp_get_vertex_attr example_rsx (of_nat 0) = Some \<lparr>va_type = 2, va_size = 3, va_stride = 12, va_frequency = 0, va_offset = 0,
     va_location = 0\<rparr>" using attr_init_desc [OF example_attr] by simp
  moreover have "rsx_vertex_inline_layout example_rsx offs = inline_layout_from example_rsx 0 (Suc 15) offs 0 0"
    by (simp add: rsx_vertex_inline_layout_def)
  ultimately have "rsx_vertex_inline_layout example_rsx offs = inline_layout_from example_rsx (Suc 0) 15 (offs(0 := 0)) 12 12"
    by (simp only: inline_layout_from.simps) (simp add: rsx_vertex_attrib_size_def rsx_vertex_type_size_def)
  then show ?thesis using example_layout_from [of "Suc 0" 15 "offs(0 := 0)"] by simp
qed

lemma example_decode:
  "rsx_vertex_decode_element fo 2 3 [0x3F, 0x80, 0, 0, 0x40, 0, 0, 0, 0x40, 0x40, 0, 0] =
     Some (True, [0x3F800000, 0x40000000, 0x40400000, ONE_F])"
proof -
  have "min (unat (3 :: u32)) 4 = Suc (Suc (Suc 0))" by simp
  then show ?thesis
    by (simp only: rsx_vertex_decode_element_def) (simp add: decode_component_def rsx_compact_be_f32_def be32_at_def get_byte_def)
qed


section \<open>Restart segments\<close>

lemma concat_intervals:
  fixes xs :: "nat list"
  assumes "sorted xs"
  shows "n < length xs \<Longrightarrow> concat (map (\<lambda>i. [xs ! i..<xs ! Suc i]) [0..<n]) = [xs ! 0..<xs ! n]"
proof (induction n)
  case (Suc n)
  have "xs ! 0 \<le> xs ! n" "xs ! n \<le> xs ! Suc n" using assms Suc.prems by (auto intro: sorted_nth_mono)
  then have "[xs ! 0..<xs ! Suc n] = [xs ! 0..<xs ! n] @ [xs ! n..<xs ! Suc n]"
    using upt_add_eq_append [of "xs ! 0" "xs ! n" "xs ! Suc n - xs ! n"] by simp
  then show ?case using Suc by simp
qed simp

text \<open>The vertices of a segment.\<close>

definition segment_vertices :: "u32 list \<Rightarrow> u32 \<Rightarrow> nat \<Rightarrow> nat list" where
  "segment_vertices cuts vertex_count segment =
     (case rsx_restart_segment_bounds cuts vertex_count segment of
        None \<Rightarrow> [] | Some (first, count) \<Rightarrow> [unat first..<unat first + unat count])"

lemma segment_interval:
  assumes "i \<le> length cuts" and xs: "xs = 0 # map unat cuts @ [unat vertex_count]" and s: "sorted xs"
  shows "segment_vertices cuts vertex_count i = [xs ! i..<xs ! Suc i]"
proof -
  define first where "first = (if i \<noteq> 0 then cuts ! (i - 1) else 0)"
  define finish where "finish = (if i < length cuts then cuts ! i else vertex_count)"
  have f: "unat first = xs ! i" "unat finish = xs ! Suc i"
    using assms(1) by (auto simp: xs first_def finish_def nth_append nth_Cons split: nat.splits)
  have "xs ! i \<le> xs ! Suc i" using s assms(1) by (intro sorted_nth_mono) (simp_all add: xs)
  then have "unat first + unat (if finish > first then finish - first else 0) = xs ! Suc i"
    using f by (auto simp: word_less_nat_alt word_le_nat_alt unat_sub)
  moreover have "rsx_restart_segment_bounds cuts vertex_count i = Some (first, if finish > first then finish - first else 0)"
    using assms(1) unfolding rsx_restart_segment_bounds_def Let_def first_def finish_def by (simp only: not_less [symmetric] if_False)
  ultimately show ?thesis using f by (simp add: segment_vertices_def)
qed

text \<open>
  The segments that the restart cuts make of a draw take every vertex of it once and in order:
  with the cuts in ascending order and none past the end, the segments one after the other are the
  vertices from the first to the last, and there is none after the last segment.
\<close>

theorem restart_segments_tile:
  assumes "sorted (map unat cuts @ [unat vertex_count])"
  shows "concat (map (segment_vertices cuts vertex_count) [0..<Suc (length cuts)]) = [0..<unat vertex_count] \<and>
    rsx_restart_segment_bounds cuts vertex_count (Suc (length cuts)) = None"
proof -
  define xs where "xs = 0 # map unat cuts @ [unat vertex_count]"
  have s: "sorted xs" using assms by (simp add: xs_def)
  have "map (segment_vertices cuts vertex_count) [0..<Suc (length cuts)] = map (\<lambda>i. [xs ! i..<xs ! Suc i]) [0..<Suc (length cuts)]"
    using segment_interval [OF _ xs_def s] by (intro map_cong refl) (metis atLeastLessThan_iff less_Suc_eq_le set_upt)
  also have "concat \<dots> = [xs ! 0..<xs ! Suc (length cuts)]" by (rule concat_intervals [OF s]) (simp add: xs_def)
  finally show ?thesis by (simp add: xs_def nth_append rsx_restart_segment_bounds_def)
qed

theorem restart_segments_tile_witness:
  "concat (map (segment_vertices [3, 3, 7] 9) [0..<4]) = [0..<9] \<and> rsx_restart_segment_bounds [3, 3, 7] 9 4 = None \<and>
   segment_vertices [3, 3, 7] 9 2 = [3, 4, 5, 6]"
proof -
  have "sorted (map unat [3, 3, 7 :: u32] @ [unat (9 :: u32)])" by simp
  moreover have "Suc (length [3, 3, 7 :: u32]) = 4" "unat (9 :: u32) = 9" by simp_all
  ultimately
  have "concat (map (segment_vertices [3, 3, 7] 9) [0..<4]) = [0..<9] \<and> rsx_restart_segment_bounds [3, 3, 7] 9 4 = None"
    using restart_segments_tile [of "[3, 3, 7]" 9] by (simp only:)
  moreover have "segment_vertices [3, 3, 7] 9 2 = [3, 4, 5, 6]"
    by (simp add: segment_vertices_def rsx_restart_segment_bounds_def upt_conv_Cons)
  ultimately show ?thesis by simp
qed
end
