(* ===== verification/Spec2Isabelle.thy ===== *)
theory Spec2Isabelle
  imports VirtualMemory SysMemory SysVm SyncKernel SysRwlock EventPort EventFlag
    CellSyncRwm CellSyncQueue SpuInflate SpuProg RsxTexture RsxUpload RsxFetch
begin

text \<open>
  A verification library of ps3recomp, a runtime that executes PlayStation 3 programs recompiled
  to native code. Guest programs see one 4 GB address space, the system calls of the console's
  kernel (lv2), the system libraries, the SPU vector processors and the RSX graphics processor; the
  runtime implements all of them in C on the host. The library models the parts of
  \<^verbatim>\<open>src/runtime\<close> and \<^verbatim>\<open>src/libs\<close> that carry this logic and are not host input and
  output, one theory per component.

  \<^bold>\<open>How the program is modelled.\<close> A structure is a record, an enumeration a datatype, an
  unsigned integer a word of its width and a signed one an integer with its wrap-around written
  out where it can occur. State is passed explicitly. A call of the kernel gets the state and the
  argument registers and gives the value the guest sees in register 3, its error codes included. A
  call that sleeps is cut where it releases its lock, a lock-free call at each atomic access, so
  that runs are sequences of steps of several threads. An array access outside the array is an
  explicit error result, and so is running out of fuel. Where the source has a Windows and a POSIX
  branch the POSIX one is modelled. What the environment decides (host page size, results of host
  calls, settings read from environment variables, uninitialised locals) is an argument; logging
  and diagnostics are left out.

  \<^bold>\<open>Shared theories.\<close>
  \<^item> \<open>Prelude\<close>: integer types, rules on words and bytes, the search for a free slot and the
    locale \<open>handle_table\<close> of the kernel's id tables.
  \<^item> \<open>Fifo\<close>: ring buffers and the locale \<open>bounded_fifo\<close>, interpreted by event queues, the
    cellSync queue and the SPU channels.
  \<^item> \<open>BumpWindow\<close>: the locale of an allocator that advances a pointer, interpreted by the stack
    allocator, the memory pool and the demand-paged regions.
  \<^item> \<open>CheckedArray\<close>: computations on arrays in which every access is checked, used by the
    DEFLATE decoder and the texture decoder.
  \<^item> \<open>OpenAddressing\<close>: the locale of a hash table with linear probing, interpreted by the vertex
    remapping.
  \<^item> \<open>HostSync\<close>: the POSIX mutexes and condition variables the kernel objects use.
  \<^item> \<open>GuestMemory\<close>: big-endian access to guest memory and the lv2 calling convention
    (\<^verbatim>\<open>lv2_syscall_table.h\<close>, \<^verbatim>\<open>error_codes.h\<close>).

  \<^bold>\<open>Kernel (\<^verbatim>\<open>src/runtime/syscalls\<close>, \<^verbatim>\<open>src/runtime/memory\<close>).\<close>
  \<^item> \<open>SysSemaphore\<close> (\<^verbatim>\<open>sys_semaphore.c\<close>): every call, and threads interleaving them: the
    count is initial plus posted minus taken, and no wake-up is lost.
  \<^item> \<open>SysMutex\<close>, \<open>SysCond\<close>, \<open>SyncKernel\<close> (\<^verbatim>\<open>sys_mutex.c\<close>, \<^verbatim>\<open>sys_cond.c\<close>): the calls, and
    a step relation of threads running them: mutual exclusion, a signalled waiter gets its
    mutex back with its depth, waiters are woken in order of arrival.
  \<^item> \<open>SysRwlock\<close> (\<^verbatim>\<open>sys_rwlock.c\<close>): writers exclude everyone.
  \<^item> \<open>EventQueue\<close>, \<open>EventPort\<close>, \<open>EventFlag\<close> (\<^verbatim>\<open>sys_event.c\<close>): the ring is a bounded queue,
    a sent event is received, a cancelled queue blocks nobody, a flag wait returns exactly on its
    condition.
  \<^item> \<open>VirtualMemory\<close> (\<^verbatim>\<open>vm.h\<close>), \<open>SysMemory\<close> (\<^verbatim>\<open>sys_memory.c\<close>), \<open>SysVm\<close>
    (\<^verbatim>\<open>sys_vm.c\<close>): allocations of a run never overlap and stay in their window; the books of
    the user memory agree with the live allocations; which requests wrap a 32-bit check.

  \<^bold>\<open>Synchronisation library (\<^verbatim>\<open>src/libs/sync/cellSync.c\<close>).\<close> \<open>CellSyncMutex\<close>,
  \<open>CellSyncRwm\<close> and \<open>CellSyncQueue\<close>: the ticket mutex is exclusive and serves in order as long
  as fewer than \<open>2 ^ 16\<close> threads contend, readers and writers of the shared memory exclude each
  other, barriers separate phases, and the bounded queue is a first-in first-out queue for every
  interleaving of its lock-free steps (depth below \<open>2 ^ 24\<close>, as the initialisation enforces).

  \<^bold>\<open>SPU (\<^verbatim>\<open>src/runtime/spu\<close>).\<close>
  \<^item> \<open>SpuReg\<close> (the union of \<^verbatim>\<open>ps3types.h\<close>): a register is a 128-bit word with its array
    views; \<open>quad\<close> is the number the guest sees.
  \<^item> \<open>SpuHelpers\<close> (\<^verbatim>\<open>spu_helpers.h\<close>): every integer instruction. \<open>SpuSimd\<close> shows that the SSE
    versions are the byte loops and that a scalar store inserts one element; \<open>SpuQuad\<close> that
    shifts and carries are those of a 128-bit number.
  \<^item> \<open>SpuDecode\<close> (\<^verbatim>\<open>spu_interp_tables.inc\<close>, \<open>spu_decode1\<close>): no opcode is hidden by a table
    tried earlier.
  \<^item> \<open>SpuChannel\<close> (\<^verbatim>\<open>spu_context.h\<close>): mailboxes deliver in order.
  \<^item> \<open>SpuInterp\<close>, \<open>SpuRun\<close>, \<open>SpuProg\<close> (\<^verbatim>\<open>spu_interp.c\<close>): one instruction, the run loop and
    the dispatcher, with the channel instructions, the float helpers, the taskset call and the
    lifted functions as parameters. A run never leaves the local store; an instruction changes
    only what its form names; a program runs from its words to the sum it computes. The loop and
    the dispatcher take fuel and give \<open>None\<close> when it runs out: guest code need not end.
  \<^item> \<open>SpuHuffman\<close>, \<open>SpuInflate\<close> (\<^verbatim>\<open>spu_inflate.c\<close>, \<^verbatim>\<open>spu_inflate_hook.c\<close>): the DEFLATE
    decoder that replaces guest code. It never leaves its arrays, terminates, decodes canonical
    codes, refuses over-subscribed ones, and inverts stored blocks. Fuel is \<open>8 * len + 1\<close>
    blocks for \<open>len\<close> bytes, since every block takes a bit; destinations are below \<open>2 ^ 26\<close>.

  \<^bold>\<open>RSX (\<^verbatim>\<open>src/libs/video\<close>).\<close> The command stream writes registers; a begin/end pair draws,
  from vertex arrays in guest memory or from words of the stream itself; the addresses go through
  the mapping of the GCM library.
  \<^item> \<open>RsxDispatch\<close>, \<open>RsxStream\<close>, \<open>RsxUpload\<close> (\<^verbatim>\<open>rsx_dispatch.c\<close>): the register file,
    the upload windows, the sink and the getters. No stream leads outside the arrays; the calls of
    the sink are those of a specification over the stream, inline vertices included; what is
    uploaded is what is read.
  \<^item> \<open>RsxRemap\<close> (\<^verbatim>\<open>rsx_vertex_compact.c\<close>): collapsing repeated vertex references in a hash
    table whose slots carry a generation. It returns, and every reference finds its own copy.
    The probe and the doubling of the capacity are partial functions, shown to be defined.
  \<^item> \<open>RsxVertex\<close>, \<open>RsxFetch\<close> (\<^verbatim>\<open>rsx_vertex_compact.c\<close>, \<^verbatim>\<open>rsx_vertex_formats.h\<close>,
    \<^verbatim>\<open>rsx_primitives.h\<close>, \<^verbatim>\<open>rsx_restart_cuts.h\<close>): formats, layout and fetch of vertices.
    Hoisting the address of a local array does not change what is fetched, inline vertices are
    decoded from their own bytes, no read leaves its source, and restart segments tile the draw.
  \<^item> \<open>GcmIo\<close> (\<^verbatim>\<open>cellGcmSys.c\<close>, and the resolver of \<^verbatim>\<open>rsx_draw_engine.c\<close>): the IO address
    space. Mapped addresses translate to offsets and back, and the page filter never changes the
    answer of the mapping list. The state holds the variables of this part of the file only.
  \<^item> \<open>RsxTexture\<close> (\<^verbatim>\<open>rsx_texture_layout.c\<close>): layout, mip chain and decoding
    of textures. The decoder stays inside its buffers and every texel is the conversion of the guest
    texel at its place; the swizzled address is a bijection; mip levels are packed and cube faces
    do not overlap. Sides are at most 4096 texels and pitches below \<open>2 ^ 20\<close> bytes, as in the
    register fields they come from.

  \<^bold>\<open>Not modelled.\<close> The lifters and loaders (Python, C++ and generated code), the walker of the
  command FIFO (host threads and timing), the graphics backends and shader decompilers (their
  meaning is that of host interfaces), floating point arithmetic (an argument where values are
  computed with it), files, sockets, audio,
  input and the stubs that answer constants, the vendored decoders, and of the SPU code the DMA
  engine, reservations, scheduling of lifted jobs and the floating point helpers. The manifest
  lists every part with the reason.
\<close>

end
